(* ===== verification/QRT_Prelude.thy ===== *)
theory QRT_Prelude
  imports Complex_Main "HOL-Library.Word" "HOL-Library.Code_Target_Numeral"
begin

unbundle bit_operations_syntax

text \<open>
  The shared base of the development: the machine types the native sources use, the
  C library behaviour they rely on (bounded \<open>snprintf\<close>, signed narrowing casts), the
  interaction with code outside the repository as a recorded history of calls, a small
  theory of reachable states, and the generic list and arithmetic lemmas the component
  theories share.
\<close>

section \<open>Machine types\<close>

type_synonym u8 = "8 word"
type_synonym u16 = "16 word"
type_synonym u32 = "32 word"
type_synonym u64 = "64 word"

text \<open>\<open>static_cast<int16_t>\<close> of a wider integer: two's complement truncation.\<close>

definition int16_of_int :: "int \<Rightarrow> int" where
  "int16_of_int i = signed_take_bit 15 i"

text \<open>The number of significant bits, \<open>64 - clz(value)\<close> for a non-zero value.\<close>

fun bit_width :: "nat \<Rightarrow> nat" where
  "bit_width n = (if n = 0 then 0 else Suc (bit_width (n div 2)))"

declare bit_width.simps [simp del]

text \<open>\<open>snprintf(buffer, capacity, "%s", text)\<close>: at most \<open>capacity - 1\<close> characters survive.\<close>

definition c_copy :: "nat \<Rightarrow> string \<Rightarrow> string" where
  "c_copy capacity text = take (capacity - 1) text"

text \<open>Decimal output of an unsigned and of a signed number (\<open>%u\<close>, \<open>%d\<close>).\<close>

fun decimal :: "nat \<Rightarrow> string" where
  "decimal n = (if n < 10 then [char_of (48 + n)] else decimal (n div 10) @ [char_of (48 + n mod 10)])"

declare decimal.simps [simp del]

definition decimal_int :: "int \<Rightarrow> string" where
  "decimal_int i = (if i < 0 then ''-'' @ decimal (nat (- i)) else decimal (nat i))"

text \<open>A null pointer or handle.\<close>

definition nullptr :: u64 where
  "nullptr = 0"

text \<open>\<open>std::vector::erase\<close> at an index.\<close>

definition erase_at :: "nat \<Rightarrow> 'a list \<Rightarrow> 'a list" where
  "erase_at i xs = take i xs @ drop (Suc i) xs"

section \<open>Calls to code outside the repository\<close>

text \<open>
  HIP, the Windows API, caller-supplied callbacks and the clock are not part of the
  repository. An environment answers each call, and may answer differently every time: its
  answer is a function of everything asked so far. The history of calls and answers is
  threaded through the model, most recent call first, and is what resource properties
  are stated over.
\<close>

type_synonym ('c, 'r) history = "('c \<times> 'r) list"
type_synonym ('c, 'r) environment = "('c, 'r) history \<Rightarrow> 'c \<Rightarrow> 'r"

definition ask :: "('c, 'r) environment \<Rightarrow> 'c \<Rightarrow> ('c, 'r) history \<Rightarrow> 'r \<times> ('c, 'r) history" where
  "ask env c h = (env h c, (c, env h c) # h)"

lemma fst_ask [simp]: "fst (ask env c h) = env h c"
  by (simp add: ask_def)

lemma snd_ask [simp]: "snd (ask env c h) = (c, env h c) # h"
  by (simp add: ask_def)

section \<open>Reachable states\<close>

inductive reach :: "('s \<Rightarrow> bool) \<Rightarrow> ('s \<Rightarrow> 's \<Rightarrow> bool) \<Rightarrow> 's \<Rightarrow> bool"
  for initial :: "'s \<Rightarrow> bool" and step :: "'s \<Rightarrow> 's \<Rightarrow> bool" where
  reach_initial: "initial s \<Longrightarrow> reach initial step s"
| reach_step: "reach initial step s \<Longrightarrow> step s t \<Longrightarrow> reach initial step t"

text \<open>The contract of a component that is a transition system with an invariant.\<close>

locale invariant_system =
  fixes initial :: "'s \<Rightarrow> bool"
    and step :: "'s \<Rightarrow> 's \<Rightarrow> bool"
    and inv :: "'s \<Rightarrow> bool"
  assumes inv_initial: "initial s \<Longrightarrow> inv s"
    and inv_step: "inv s \<Longrightarrow> step s t \<Longrightarrow> inv t"
begin

lemma inv_reach: "reach initial step s \<Longrightarrow> inv s"
  by (induction rule: reach.induct) (auto intro: inv_initial inv_step)

lemma inv_steps: "inv s \<Longrightarrow> step\<^sup>*\<^sup>* s t \<Longrightarrow> inv t"
  by (rotate_tac, induction rule: rtranclp_induct) (auto intro: inv_step)

end

section \<open>Generic lemmas\<close>

named_theorems bit_width_facts \<open>the interval a bit width describes\<close>

lemma bit_width_0 [simp]: "bit_width 0 = 0"
  by (simp add: bit_width.simps)

lemma bit_width_pos: "0 < n \<Longrightarrow> bit_width n = Suc (bit_width (n div 2))"
  by (simp add: bit_width.simps [of n])

lemma bit_width_eq_0 [simp]: "bit_width n = 0 \<longleftrightarrow> n = 0"
  by (cases "n = 0") (simp_all add: bit_width_pos)

lemma bit_width_upper [bit_width_facts]: "n < 2 ^ bit_width n"
proof (induction n rule: bit_width.induct)
  case (1 n)
  show ?case
  proof (cases "n = 0")
    case True
    then show ?thesis by simp
  next
    case False
    with "1" have "n div 2 < 2 ^ bit_width (n div 2)" by simp
    with False show ?thesis by (simp add: bit_width_pos)
  qed
qed

lemma bit_width_lower [bit_width_facts]: "0 < n \<Longrightarrow> 2 ^ (bit_width n - 1) \<le> n"
proof (induction n rule: bit_width.induct)
  case (1 n)
  show ?case
  proof (cases "n div 2 = 0")
    case True
    with "1.prems" show ?thesis by (simp add: bit_width_pos)
  next
    case False
    with "1.prems" have IH: "2 ^ (bit_width (n div 2) - 1) \<le> n div 2"
      by (intro "1.IH") simp_all
    from False have pos: "0 < bit_width (n div 2)" by (metis bit_width_eq_0 gr0I)
    have "2 ^ bit_width (n div 2) = 2 * 2 ^ (bit_width (n div 2) - 1)"
      using pos by (metis Suc_pred' power_Suc)
    also have "\<dots> \<le> n" using IH by linarith
    finally show ?thesis using "1.prems" by (simp add: bit_width_pos)
  qed
qed

lemma bit_width_le_iff: "bit_width n \<le> w \<longleftrightarrow> n < 2 ^ w"
proof
  assume "bit_width n \<le> w"
  then have "(2::nat) ^ bit_width n \<le> 2 ^ w" by (simp add: power_increasing)
  with bit_width_upper [of n] show "n < 2 ^ w" by linarith
next
  assume n: "n < 2 ^ w"
  show "bit_width n \<le> w"
  proof (rule ccontr)
    assume "\<not> bit_width n \<le> w"
    then have pos: "0 < n" and w: "w \<le> bit_width n - 1"
      by (cases "n = 0"; simp)+
    from w have "(2::nat) ^ w \<le> 2 ^ (bit_width n - 1)" by (rule power_increasing) simp
    with bit_width_lower [OF pos] n show False by linarith
  qed
qed

lemma bit_width_shift: "0 < n \<Longrightarrow> bit_width (n * 2 ^ k) = bit_width n + k"
proof (induction k)
  case (Suc k)
  have "n * 2 ^ Suc k div 2 = n * 2 ^ k" by simp
  with Suc show ?case by (simp add: bit_width_pos)
qed simp

lemma sum_list_map_update:
  fixes f :: "'a \<Rightarrow> 'b::comm_monoid_add"
  assumes "i < length xs"
  shows "(\<Sum>x\<leftarrow>xs[i := y]. f x) + f (xs ! i) = (\<Sum>x\<leftarrow>xs. f x) + f y"
  using assms
proof (induction xs arbitrary: i)
  case (Cons x xs)
  show ?case
  proof (cases i)
    case 0
    then show ?thesis by (simp add: ac_simps)
  next
    case (Suc j)
    with Cons have "(\<Sum>x\<leftarrow>xs[j := y]. f x) + f (xs ! j) = (\<Sum>x\<leftarrow>xs. f x) + f y" by simp
    with Suc show ?thesis by (simp add: ac_simps)
  qed
qed simp

lemma sum_list_le_length:
  fixes f :: "'a \<Rightarrow> nat"
  assumes "\<And>x. f x \<le> 1"
  shows "(\<Sum>x\<leftarrow>xs. f x) \<le> length xs"
    and "(\<Sum>x\<leftarrow>xs. f x) = length xs \<Longrightarrow> x \<in> set xs \<Longrightarrow> f x = 1"
proof -
  show le: "(\<Sum>x\<leftarrow>xs. f x) \<le> length xs" for xs
  proof (induction xs)
    case (Cons y xs)
    then show ?case using assms [of y] by simp
  qed simp
  show "(\<Sum>x\<leftarrow>xs. f x) = length xs \<Longrightarrow> x \<in> set xs \<Longrightarrow> f x = 1"
  proof (induction xs)
    case (Cons y xs)
    then show ?case using assms [of y] le [of xs] by auto
  qed simp
qed

text \<open>Reading word operations as natural-number arithmetic.\<close>

named_theorems word_nat \<open>word operations read with unat\<close>

lemma unat_drop_bit_div [word_nat]: "unat (drop_bit n (w :: 'a::len word)) = unat w div 2 ^ n"
  unfolding unat_drop_bit_eq by (rule drop_bit_eq_div)

lemma unat_take_bit_mod [word_nat]: "unat (take_bit n (w :: 'a::len word)) = unat w mod 2 ^ n"
  unfolding unsigned_take_bit_eq by (rule take_bit_eq_mod)

lemma unat_push_bit_mult [word_nat]:
  "unat (push_bit n (w :: 'a::len word)) = unat w * 2 ^ n mod 2 ^ LENGTH('a)"
proof -
  have "unat (push_bit n w) = take_bit LENGTH('a) (push_bit n (unat w))"
    by (rule unsigned_push_bit_eq)
  then show ?thesis by (simp add: push_bit_eq_mult take_bit_eq_mod)
qed

lemma unat_ucast_mod [word_nat]:
  "unat (ucast (w :: 'a::len word) :: 'b::len word) = unat w mod 2 ^ LENGTH('b)"
  by (simp add: unsigned_ucast_eq take_bit_eq_mod)

lemma unat_and_mask:
  assumes "m = mask n"
  shows "unat ((w :: 'a::len word) AND m) = unat w mod 2 ^ n"
  by (simp add: assms flip: take_bit_eq_mask add: unat_take_bit_mod)

lemma unat_lt: "unat (w :: 'a::len word) < 2 ^ LENGTH('a)"
  by (rule unsigned_less)

lemma unat_u8_lt: "unat (w :: u8) < 256"
  using unat_lt [of w] by simp

lemma unat_u16_lt: "unat (w :: u16) < 65536"
  using unat_lt [of w] by simp

lemma unat_u32_lt: "unat (w :: u32) < 4294967296"
  using unat_lt [of w] by simp

lemma unat_u64_lt: "unat (w :: u64) < 18446744073709551616"
  using unat_lt [of w] by simp

lemmas unat_bounds = unat_u8_lt unat_u16_lt unat_u32_lt unat_u64_lt

lemma unat_add_mod [word_nat]:
  "unat ((v :: 'a::len word) + w) = (unat v + unat w) mod 2 ^ LENGTH('a)"
  by (simp add: unat_word_ariths)

lemma unat_mult_mod [word_nat]:
  "unat ((v :: 'a::len word) * w) = (unat v * unat w) mod 2 ^ LENGTH('a)"
  by (simp add: unat_word_ariths)

lemma unat_or_disjoint:
  fixes w :: "'a::len word"
  assumes "w AND m = 0"
  shows "unat (w OR m) = unat w + unat m"
proof -
  have "unat w AND unat m = unat (w AND m)" by (simp add: unsigned_and_eq)
  then have "unat w AND unat m = 0" by (simp add: assms)
  then show ?thesis by (simp add: unsigned_or_eq disjunctive_add_eq_or)
qed

lemma uint_gt_0_of_neq_0: "(w :: 'a::len word) \<noteq> 0 \<Longrightarrow> 0 < uint w"
  by (metis order_le_less uint_0_iff unsigned_greater_eq)

lemma word_eq_of_natI: "unat (w :: 'a::len word) = n \<Longrightarrow> w = of_nat n"
  by (drule arg_cong [where f = "of_nat :: nat \<Rightarrow> 'a word"]) simp

lemma unat_of_nat_small: "n < 2 ^ LENGTH('a) \<Longrightarrow> unat (of_nat n :: 'a::len word) = n"
  by (simp add: unsigned_of_nat take_bit_nat_eq_self)

text \<open>A contiguous bit field is all ones exactly when its numeric value is maximal.\<close>

lemma and_field_eq:
  "(w :: 'a::len word) AND push_bit k (mask n) = push_bit k (take_bit n (drop_bit k w))"
  by (rule bit_word_eqI) (auto simp: bit_simps)

lemma field_full_iff:
  assumes "m = push_bit k (mask n)" and "k + n \<le> LENGTH('a)"
  shows "(w :: 'a::len word) AND m = m \<longleftrightarrow> unat w div 2 ^ k mod 2 ^ n = 2 ^ n - 1"
proof -
  have "w AND m = m \<longleftrightarrow> push_bit k (take_bit n (drop_bit k w)) = push_bit k (mask n)"
    by (simp add: assms(1) and_field_eq)
  also have "\<dots> \<longleftrightarrow> take_bit n (drop_bit k w) = mask n"
    (is "?l \<longleftrightarrow> ?r")
  proof
    assume ?l
    then have "drop_bit k (push_bit k (take_bit n (drop_bit k w))) = drop_bit k (push_bit k (mask n :: 'a word))"
      by simp
    then show ?r
      using assms(2) by (auto simp: bit_eq_iff bit_simps)
  qed simp
  also have "\<dots> \<longleftrightarrow> unat (take_bit n (drop_bit k w)) = unat (mask n :: 'a word)"
    by (simp add: word_unat_eq_iff)
  also have "unat (mask n :: 'a word) = mask n"
    using assms(2) by (intro bit_eqI) (auto simp: bit_simps)
  also have "(mask n :: nat) = 2 ^ n - 1"
    by (rule mask_eq_exp_minus_1)
  finally show ?thesis by (simp add: word_nat)
qed

lemma int16_of_int_small: "- 32768 \<le> i \<Longrightarrow> i < 32768 \<Longrightarrow> int16_of_int i = i"
  unfolding int16_of_int_def by (rule signed_take_bit_int_eq_self) simp_all

lemma length_erase_at [simp]: "i < length xs \<Longrightarrow> length (erase_at i xs) = length xs - 1"
  by (simp add: erase_at_def)

lemma set_erase_at_subset: "set (erase_at i xs) \<subseteq> set xs"
  by (auto simp: erase_at_def dest: in_set_takeD in_set_dropD)

lemma c_copy_short [simp]: "length text < capacity \<Longrightarrow> c_copy capacity text = text"
  by (simp add: c_copy_def)

lemma length_c_copy: "0 < capacity \<Longrightarrow> length (c_copy capacity text) < capacity"
  by (simp add: c_copy_def)

end
