(* ===== verification/Host_Platform.thy ===== *)
theory Host_Platform
  imports QRT_Prelude "HOL-Library.Multiset"
begin

unbundle bit_operations_syntax

text \<open>
  The platform layer of \<^verbatim>\<open>native/providers/q1_moe_avx512bf16_host_provider.cpp\<close>: processor
  features, path classification and resolution, the read-only file views of
  \<open>ReadOnlyMappedView\<close> and the owned buffers of \<open>AlignedOwnedBuffer\<close>. The Windows API, the
  caller's allocator and copy callbacks, C++ allocation and the steady clock answer through
  an environment; every call and its answer are recorded, and the resources a history has
  acquired and released are read off it.
\<close>

section \<open>Calls outside the repository\<close>

type_synonym wide = "u16 list"

datatype host_call =
    Cpuid nat nat
  | Xgetbv nat
  | MultiByteToWideChar string
  | MultiByteToWideCharInto string nat
  | GetFullPathNameW wide
  | GetFullPathNameWInto wide nat
  | GetLastError
  | CreateFileW wide
  | GetFileSizeEx u64
  | CreateFileMappingW u64
  | GetSystemInfo
  | MapViewOfFile u64 u64 u64
  | UnmapViewOfFile u64
  | CloseHandle u64
  | FindPrefetchVirtualMemory
  | PrefetchVirtualMemory u64 u64
  | TouchPages u64 u64 u64
  | ClockNow
  | AlignedMalloc u64 u64
  | AlignedFree u64
  | HostAllocate u64 u64 u64 u64
  | HostFree u64 u64 u64 u64 u64
  | CopyToHost u64 u64 u64 u64 u64
  | CxxAllocate string

text \<open>
  One record holds the answer of any call; a call uses the fields it has: a Boolean result, a
  handle, pointer, size or time, a signed result, a text, the registers of \<open>__cpuidex\<close>, and
  whether the call raised a C++ exception.
\<close>

record reply =
  r_ok :: bool
  r_num :: u64
  r_int :: int
  r_text :: wide
  r_eax :: u32
  r_ebx :: u32
  r_ecx :: u32
  r_throws :: bool

type_synonym host_env = "(host_call, reply) environment"
type_synonym host_hist = "(host_call, reply) history"

text \<open>A call whose result the source discards.\<close>

definition tell :: "host_env \<Rightarrow> host_call \<Rightarrow> host_hist \<Rightarrow> host_hist" where
  "tell env c h = snd (ask env c h)"

text \<open>\<open>INVALID_HANDLE_VALUE\<close>\<close>

definition invalid_handle :: u64 where
  "invalid_handle = - 1"

text \<open>\<open>elapsed_ns\<close> of a start time and the clock now.\<close>

definition elapsed_since :: "host_env \<Rightarrow> u64 \<Rightarrow> host_hist \<Rightarrow> u64 \<times> host_hist" where
  "elapsed_since env start h = (let (r, h) = ask env ClockNow h in (r_num r - start, h))"

section \<open>Processor features\<close>

record cpu_features =
  osxsave :: bool
  avx :: bool
  avx512f :: bool
  avx512bf16 :: bool
  zmm_state :: bool

definition no_cpu_features :: cpu_features where
  "no_cpu_features = \<lparr>osxsave = False, avx = False, avx512f = False, avx512bf16 = False, zmm_state = False\<rparr>"

definition cpu_supported :: "cpu_features \<Rightarrow> bool" where
  "cpu_supported f \<longleftrightarrow> osxsave f \<and> avx f \<and> avx512f f \<and> avx512bf16 f \<and> zmm_state f"

definition query_cpu_features :: "host_env \<Rightarrow> host_hist \<Rightarrow> cpu_features \<times> host_hist" where
  "query_cpu_features env h =
     (let features = no_cpu_features;
          (r, h) = ask env (Cpuid 0 0) h;
          max_leaf = r_eax r
      in if max_leaf < 1 then (features, h)
         else
           let (r, h) = ask env (Cpuid 1 0) h;
               features = features\<lparr>osxsave := r_ecx r AND push_bit 27 1 \<noteq> 0,
                                   avx := r_ecx r AND push_bit 28 1 \<noteq> 0\<rparr>;
               (features, h) =
                 (if osxsave features
                  then let (x, h) = ask env (Xgetbv 0) h
                       in (features\<lparr>zmm_state := (r_num x AND 0xe6 = 0xe6)\<rparr>, h)
                  else (features, h))
           in if max_leaf < 7 then (features, h)
              else
                let (r, h) = ask env (Cpuid 7 0) h;
                    max_subleaf = r_eax r;
                    features = features\<lparr>avx512f := r_ebx r AND push_bit 16 1 \<noteq> 0\<rparr>
                in if max_subleaf \<ge> 1
                   then let (r, h) = ask env (Cpuid 7 1) h
                        in (features\<lparr>avx512bf16 := r_eax r AND push_bit 5 1 \<noteq> 0\<rparr>, h)
                   else (features, h))"

section \<open>Paths\<close>

datatype path_form = Relative | Absolute | Ambiguous

text \<open>The classification and case mapping of the C library, which depend on its locale.\<close>

record wctype =
  iswalpha :: "u16 \<Rightarrow> bool"
  towlower :: "u16 \<Rightarrow> u16"

definition backslash :: u16 where
  "backslash = 0x5c"

definition slash :: u16 where
  "slash = 0x2f"

definition colon :: u16 where
  "colon = 0x3a"

definition is_path_separator :: "u16 \<Rightarrow> bool" where
  "is_path_separator c \<longleftrightarrow> c = backslash \<or> c = slash"

definition classify_path :: "wctype \<Rightarrow> wide \<Rightarrow> path_form" where
  "classify_path ct path =
     (if path = [] then Ambiguous
      else if length path \<ge> 2 \<and> path ! 1 = colon
      then (if \<not> iswalpha ct (path ! 0) \<or> length path < 3 \<or> \<not> is_path_separator (path ! 2)
            then Ambiguous else Absolute)
      else if is_path_separator (path ! 0)
      then (if length path \<ge> 2 \<and> is_path_separator (path ! 1) then Absolute else Ambiguous)
      else Relative)"

text \<open>
  \<open>utf8_to_wide\<close>: the first call sizes the result with its terminator, the second fills it. A null
  pointer is \<open>None\<close>.
\<close>

definition utf8_to_wide :: "host_env \<Rightarrow> string option \<Rightarrow> host_hist \<Rightarrow> wide option \<times> host_hist" where
  "utf8_to_wide env text h =
     (case text of
        None \<Rightarrow> (None, h)
      | Some t \<Rightarrow>
          if t = [] then (None, h)
          else
            let (r, h) = ask env (MultiByteToWideChar t) h;
                len = r_int r
            in if len \<le> 1 then (None, h)
               else
                 let (r, h) = ask env (MultiByteToWideCharInto t (nat len)) h
                 in if r_int r \<noteq> len then (None, h)
                    else (Some (take (nat (len - 1)) (r_text r)), h))"

definition full_path :: "host_env \<Rightarrow> wide \<Rightarrow> host_hist \<Rightarrow> wide option \<times> host_hist" where
  "full_path env path h =
     (if path = [] then (None, h)
      else
        let (r, h) = ask env (GetFullPathNameW path) h;
            required = r_num r
        in if required = 0 then (None, h)
           else
             let (r, h) = ask env (GetFullPathNameWInto path (unat required)) h;
                 written = r_num r
             in if written = 0 \<or> written \<ge> required then (None, h)
                else (Some (take (unat written) (r_text r)), h))"

definition lowercase_path :: "wctype \<Rightarrow> wide \<Rightarrow> wide" where
  "lowercase_path ct path = map (towlower ct) path"

text \<open>The join of the model directory and a relative shard name.\<close>

definition join_path :: "wide \<Rightarrow> wide \<Rightarrow> wide" where
  "join_path model_full shard =
     (if model_full \<noteq> [] \<and> last model_full \<noteq> backslash \<and> last model_full \<noteq> slash
      then model_full @ [backslash] else model_full) @ shard"

definition resolve_model_and_shard ::
  "host_env \<Rightarrow> wctype \<Rightarrow> string option \<Rightarrow> string option \<Rightarrow> host_hist \<Rightarrow> (wide \<times> wide) option \<times> host_hist" where
  "resolve_model_and_shard env ct model_dir_utf8 shard_utf8 h =
     (case utf8_to_wide env model_dir_utf8 h of
        (None, h) \<Rightarrow> (None, h)
      | (Some model, h) \<Rightarrow>
          (case utf8_to_wide env shard_utf8 h of
             (None, h) \<Rightarrow> (None, h)
           | (Some shard, h) \<Rightarrow>
               if classify_path ct model = Ambiguous \<or> classify_path ct shard = Ambiguous then (None, h)
               else (case full_path env model h of
                       (None, h) \<Rightarrow> (None, h)
                     | (Some model_full, h) \<Rightarrow>
                         let joined = (if classify_path ct shard = Absolute then shard
                                       else join_path model_full shard)
                         in (case full_path env joined h of
                               (None, h) \<Rightarrow> (None, h)
                             | (Some shard_full, h) \<Rightarrow>
                                 (Some (lowercase_path ct model_full, shard_full), h)))))"

section \<open>Read-only file views\<close>

record view =
  v_file :: u64
  v_mapping :: u64
  v_base :: u64
  v_data :: u64
  v_view_bytes :: u64
  v_data_bytes :: u64
  v_absolute_begin :: u64
  v_path_key :: wide

definition empty_view :: view where
  "empty_view = \<lparr>v_file = invalid_handle, v_mapping = nullptr, v_base = nullptr, v_data = nullptr,
     v_view_bytes = 0, v_data_bytes = 0, v_absolute_begin = 0, v_path_key = []\<rparr>"

definition view_reset :: "host_env \<Rightarrow> view \<Rightarrow> host_hist \<Rightarrow> view \<times> host_hist" where
  "view_reset env v h =
     (let h = (if v_base v \<noteq> nullptr then tell env (UnmapViewOfFile (v_base v)) h else h);
          h = (if v_mapping v \<noteq> nullptr then tell env (CloseHandle (v_mapping v)) h else h);
          h = (if v_file v \<noteq> invalid_handle then tell env (CloseHandle (v_file v)) h else h)
      in (empty_view, h))"

text \<open>
  \<open>move_from\<close>: the destination takes every field and the source is left empty (a moved-from
  \<open>std::wstring\<close> is modelled as empty).
\<close>

definition view_move_from :: "view \<Rightarrow> view \<times> view" where
  "view_move_from other = (other, empty_view)"

definition size_max :: u64 where
  "size_max = - 1"

text \<open>The steps of \<open>map\<close> after the file is open; each failure closes what is open.\<close>

definition view_map_section ::
  "host_env \<Rightarrow> wctype \<Rightarrow> u64 \<Rightarrow> u64 \<Rightarrow> wide \<Rightarrow> u64 \<Rightarrow> u64 \<Rightarrow> u32 \<Rightarrow> host_hist \<Rightarrow> bool \<times> view \<times> u32 \<times> host_hist" where
  "view_map_section env ct file mapping path absolute_begin bytes win32_error h =
     (let (r, h) = ask env GetSystemInfo h;
          granularity = r_num r;
          fail = (\<lambda>e h. (False, empty_view, e, tell env (CloseHandle file) (tell env (CloseHandle mapping) h)))
      in if granularity = 0 \<or> granularity AND (granularity - 1) \<noteq> 0 then fail win32_error h
         else
           let aligned_begin = absolute_begin AND NOT (granularity - 1);
               delta = absolute_begin - aligned_begin
           in if delta > size_max \<or> bytes > size_max - delta then fail win32_error h
              else
                let view_bytes = delta + bytes;
                    (r, h) = ask env (MapViewOfFile mapping aligned_begin view_bytes) h;
                    base = r_num r
                in if base = nullptr
                   then let (e, h) = ask env GetLastError h in fail (ucast (r_num e)) h
                   else (True,
                         \<lparr>v_file = file, v_mapping = mapping, v_base = base, v_data = base + delta,
                          v_view_bytes = view_bytes, v_data_bytes = bytes,
                          v_absolute_begin = absolute_begin, v_path_key = lowercase_path ct path\<rparr>,
                         win32_error, h))"

definition view_map_file ::
  "host_env \<Rightarrow> wctype \<Rightarrow> u64 \<Rightarrow> wide \<Rightarrow> u64 \<Rightarrow> u64 \<Rightarrow> u32 \<Rightarrow> host_hist \<Rightarrow> bool \<times> view \<times> u32 \<times> host_hist" where
  "view_map_file env ct file path absolute_begin bytes win32_error h =
     (let (r, h) = ask env (GetFileSizeEx file) h;
          file_size = r_int r
      in if \<not> r_ok r \<or> file_size < 0 \<or> uint absolute_begin > file_size \<or>
            uint bytes > file_size - uint absolute_begin
         then let (e, h) = ask env GetLastError h
              in (False, empty_view, ucast (r_num e), tell env (CloseHandle file) h)
         else
           let (r, h) = ask env (CreateFileMappingW file) h;
               mapping = r_num r
           in if mapping = nullptr
              then let (e, h) = ask env GetLastError h
                   in (False, empty_view, ucast (r_num e), tell env (CloseHandle file) h)
              else view_map_section env ct file mapping path absolute_begin bytes win32_error h)"

definition view_map ::
  "host_env \<Rightarrow> wctype \<Rightarrow> view \<Rightarrow> wide \<Rightarrow> u64 \<Rightarrow> u64 \<Rightarrow> u32 \<Rightarrow> host_hist \<Rightarrow> bool \<times> view \<times> u32 \<times> host_hist" where
  "view_map env ct v path absolute_begin bytes win32_error h =
     (let (v, h) = view_reset env v h
      in if bytes = 0 \<or> bytes > size_max then (False, v, win32_error, h)
         else
           let (r, h) = ask env (CreateFileW path) h;
               file = r_num r
           in if file = invalid_handle
              then let (e, h) = ask env GetLastError h in (False, v, ucast (r_num e), h)
              else view_map_file env ct file path absolute_begin bytes win32_error h)"

text \<open>\<open>prefetch_and_touch\<close>; the counters are the two out-parameters.\<close>

definition prefetch_and_touch ::
  "host_env \<Rightarrow> view \<Rightarrow> bool \<Rightarrow> bool \<Rightarrow> u64 \<Rightarrow> u64 \<Rightarrow> host_hist \<Rightarrow> u64 \<times> u64 \<times> host_hist" where
  "prefetch_and_touch env v prefetch touch prefetch_requested_bytes touched_bytes h =
     (if v_data v = nullptr \<or> v_data_bytes v = 0 then (prefetch_requested_bytes, touched_bytes, h)
      else
        let (prefetch_requested_bytes, h) =
              (if prefetch
               then let (r, h) = ask env FindPrefetchVirtualMemory h
                    in if r_ok r
                       then (prefetch_requested_bytes + v_data_bytes v,
                             tell env (PrefetchVirtualMemory (v_data v) (v_data_bytes v)) h)
                       else (prefetch_requested_bytes, h)
               else (prefetch_requested_bytes, h));
            (touched_bytes, h) =
              (if touch
               then let (r, h) = ask env GetSystemInfo h;
                        page_bytes = (if r_num r \<noteq> 0 then r_num r else 4096)
                    in (touched_bytes + v_data_bytes v,
                        tell env (TouchPages (v_data v) (v_data_bytes v) page_bytes) h)
               else (touched_bytes, h))
        in (prefetch_requested_bytes, touched_bytes, h))"

section \<open>Owned buffers\<close>

record buffer =
  b_data :: u64
  b_bytes :: u64
  b_host_free :: u64
  b_allocator_context :: u64

definition empty_buffer :: buffer where
  "empty_buffer = \<lparr>b_data = nullptr, b_bytes = 0, b_host_free = nullptr, b_allocator_context = nullptr\<rparr>"

text \<open>Releasing a block through the callback that owns it, or the C runtime without one.\<close>

definition release_block :: "host_env \<Rightarrow> u64 \<Rightarrow> u64 \<Rightarrow> u64 \<Rightarrow> u64 \<Rightarrow> host_hist \<Rightarrow> host_hist" where
  "release_block env host_free context data bytes h =
     (if host_free \<noteq> nullptr then tell env (HostFree host_free context data bytes 64) h
      else tell env (AlignedFree data) h)"

definition buffer_reset :: "host_env \<Rightarrow> buffer \<Rightarrow> host_hist \<Rightarrow> buffer \<times> host_hist" where
  "buffer_reset env b h =
     (empty_buffer,
      if b_data b \<noteq> nullptr
      then release_block env (b_host_free b) (b_allocator_context b) (b_data b) (b_bytes b) h
      else h)"

definition buffer_move_from :: "buffer \<Rightarrow> buffer \<times> buffer" where
  "buffer_move_from other = (other, empty_buffer)"

definition int32_min :: int where
  "int32_min = - 2147483648"

record alloc_counters =
  c_allocator_error :: int
  c_allocation_call_count :: u64
  c_allocated_bytes :: u64
  c_allocation_elapsed_ns :: u64

text \<open>
  \<open>allocate\<close>. A callback that raises reports \<open>INT32_MIN\<close>; whatever pointer it left behind is
  given back.
\<close>

definition buffer_allocate ::
  "host_env \<Rightarrow> buffer \<Rightarrow> u64 \<Rightarrow> u64 \<Rightarrow> u64 \<Rightarrow> u64 \<Rightarrow> alloc_counters \<Rightarrow> host_hist
     \<Rightarrow> bool \<times> buffer \<times> alloc_counters \<times> host_hist" where
  "buffer_allocate env b bytes host_allocate host_free context c h =
     (let (b, h) = buffer_reset env b h;
          c = c\<lparr>c_allocator_error := 0\<rparr>
      in if bytes = 0 \<or> bytes > size_max \<or> (host_allocate = nullptr) \<noteq> (host_free = nullptr)
         then (False, b, c, h)
         else
           let (r, h) = ask env ClockNow h;
               start = r_num r;
               c = c\<lparr>c_allocation_call_count := c_allocation_call_count c + 1\<rparr>;
               (candidate, callback_error, h) =
                 (if host_allocate = nullptr
                  then let (r, h) = ask env (AlignedMalloc bytes 64) h in (r_num r, 0, h)
                  else let (r, h) = ask env (HostAllocate host_allocate context bytes 64) h
                       in (r_num r, if r_throws r then int32_min else r_int r, h));
               aligned = (candidate \<noteq> nullptr \<and> unat candidate mod 64 = 0)
           in if callback_error \<noteq> 0 \<or> \<not> aligned
              then let c = c\<lparr>c_allocator_error :=
                             if callback_error \<noteq> 0 then callback_error
                             else if candidate = nullptr then int32_min + 1 else int32_min + 2\<rparr>;
                       h = (if candidate \<noteq> nullptr
                            then release_block env host_free context candidate bytes h else h);
                       (elapsed, h) = elapsed_since env start h
                   in (False, b, c\<lparr>c_allocation_elapsed_ns := c_allocation_elapsed_ns c + elapsed\<rparr>, h)
              else let c = c\<lparr>c_allocated_bytes := c_allocated_bytes c + bytes\<rparr>;
                       (elapsed, h) = elapsed_since env start h
                   in (True,
                       \<lparr>b_data = candidate, b_bytes = bytes, b_host_free = host_free,
                        b_allocator_context = context\<rparr>,
                       c\<lparr>c_allocation_elapsed_ns := c_allocation_elapsed_ns c + elapsed\<rparr>, h))"

section \<open>Resources\<close>

text \<open>What a history has acquired and given back: kernel handles, mapped views, memory blocks.\<close>

datatype resource = Handle u64 | View u64 | Block u64

fun acquired_by :: "host_call \<times> reply \<Rightarrow> resource multiset" where
  "acquired_by (CreateFileW _, r) = (if r_num r = invalid_handle then {#} else {#Handle (r_num r)#})"
| "acquired_by (CreateFileMappingW _, r) = (if r_num r = nullptr then {#} else {#Handle (r_num r)#})"
| "acquired_by (MapViewOfFile _ _ _, r) = (if r_num r = nullptr then {#} else {#View (r_num r)#})"
| "acquired_by (AlignedMalloc _ _, r) = (if r_num r = nullptr then {#} else {#Block (r_num r)#})"
| "acquired_by (HostAllocate _ _ _ _, r) = (if r_num r = nullptr then {#} else {#Block (r_num r)#})"
| "acquired_by _ = {#}"

fun released_by :: "host_call \<times> reply \<Rightarrow> resource multiset" where
  "released_by (UnmapViewOfFile a, _) = {#View a#}"
| "released_by (CloseHandle a, _) = {#Handle a#}"
| "released_by (AlignedFree a, _) = {#Block a#}"
| "released_by (HostFree _ _ a _ _, _) = {#Block a#}"
| "released_by _ = {#}"

definition acquired :: "host_hist \<Rightarrow> resource multiset" where
  "acquired h = (\<Sum>e\<leftarrow>h. acquired_by e)"

definition released :: "host_hist \<Rightarrow> resource multiset" where
  "released h = (\<Sum>e\<leftarrow>h. released_by e)"

text \<open>\<open>owns h R\<close>: everything acquired in \<open>h\<close> has been given back, once, except \<open>R\<close>.\<close>

definition owns :: "host_hist \<Rightarrow> resource multiset \<Rightarrow> bool" where
  "owns h R \<longleftrightarrow> acquired h = released h + R"

definition view_resources :: "view \<Rightarrow> resource multiset" where
  "view_resources v =
     (if v_base v \<noteq> nullptr then {#View (v_base v)#} else {#}) +
     (if v_mapping v \<noteq> nullptr then {#Handle (v_mapping v)#} else {#}) +
     (if v_file v \<noteq> invalid_handle then {#Handle (v_file v)#} else {#})"

definition buffer_resources :: "buffer \<Rightarrow> resource multiset" where
  "buffer_resources b = (if b_data b \<noteq> nullptr then {#Block (b_data b)#} else {#})"

lemma acquired_Cons [simp]: "acquired (e # h) = acquired_by e + acquired h"
  by (simp add: acquired_def)

lemma released_Cons [simp]: "released (e # h) = released_by e + released h"
  by (simp add: released_def)

lemma view_resources_empty [simp]: "view_resources empty_view = {#}"
  by (simp add: view_resources_def empty_view_def)

lemma buffer_resources_empty [simp]: "buffer_resources empty_buffer = {#}"
  by (simp add: buffer_resources_def empty_buffer_def)

lemma owns_neutral: "acquired_by (c, env h c) = {#} \<Longrightarrow> released_by (c, env h c) = {#} \<Longrightarrow>
    owns (tell env c h) R \<longleftrightarrow> owns h R"
  by (simp add: tell_def ask_def owns_def)

lemma owns_tell [simp]:
  "owns (tell env (CloseHandle a) h) R \<longleftrightarrow> owns h (add_mset (Handle a) R)"
  "owns (tell env (UnmapViewOfFile a) h) R \<longleftrightarrow> owns h (add_mset (View a) R)"
  "owns (tell env (AlignedFree a) h) R \<longleftrightarrow> owns h (add_mset (Block a) R)"
  "owns (tell env (HostFree f x a n m) h) R \<longleftrightarrow> owns h (add_mset (Block a) R)"
  "owns (tell env (PrefetchVirtualMemory a n) h) R \<longleftrightarrow> owns h R"
  "owns (tell env (TouchPages a n m) h) R \<longleftrightarrow> owns h R"
  by (auto simp: tell_def ask_def owns_def)

lemma owns_ask_neutral [simp]:
  "owns ((ClockNow, r) # h) R \<longleftrightarrow> owns h R"
  "owns ((GetLastError, r) # h) R \<longleftrightarrow> owns h R"
  "owns ((GetSystemInfo, r) # h) R \<longleftrightarrow> owns h R"
  "owns ((GetFileSizeEx f, r) # h) R \<longleftrightarrow> owns h R"
  "owns ((FindPrefetchVirtualMemory, r) # h) R \<longleftrightarrow> owns h R"
  "owns ((MultiByteToWideChar t, r) # h) R \<longleftrightarrow> owns h R"
  "owns ((MultiByteToWideCharInto t n, r) # h) R \<longleftrightarrow> owns h R"
  "owns ((GetFullPathNameW p, r) # h) R \<longleftrightarrow> owns h R"
  "owns ((GetFullPathNameWInto p n, r) # h) R \<longleftrightarrow> owns h R"
  "owns ((CopyToHost f x d a b, r) # h) R \<longleftrightarrow> owns h R"
  "owns ((CxxAllocate t, r) # h) R \<longleftrightarrow> owns h R"
  "owns ((Cpuid i j, r) # h) R \<longleftrightarrow> owns h R"
  "owns ((Xgetbv i, r) # h) R \<longleftrightarrow> owns h R"
  by (simp_all add: owns_def)

lemma owns_ask_acquire:
  "owns h R \<Longrightarrow> owns ((CreateFileW p, r) # h) (acquired_by (CreateFileW p, r) + R)"
  "owns h R \<Longrightarrow> owns ((CreateFileMappingW f, r) # h) (acquired_by (CreateFileMappingW f, r) + R)"
  "owns h R \<Longrightarrow> owns ((MapViewOfFile m b n, r) # h) (acquired_by (MapViewOfFile m b n, r) + R)"
  "owns h R \<Longrightarrow> owns ((AlignedMalloc n a, r) # h) (acquired_by (AlignedMalloc n a, r) + R)"
  "owns h R \<Longrightarrow> owns ((HostAllocate f x n a, r) # h) (acquired_by (HostAllocate f x n a, r) + R)"
  by (simp_all add: owns_def)

lemma owns_view_reset:
  assumes "owns h (view_resources v + R)"
  shows "owns (snd (view_reset env v h)) R" "fst (view_reset env v h) = empty_view"
  using assms by (auto simp: view_reset_def view_resources_def Let_def add_mset_commute split: if_splits)

lemma owns_buffer_reset:
  assumes "owns h (buffer_resources b + R)"
  shows "owns (snd (buffer_reset env b h)) R" "fst (buffer_reset env b h) = empty_buffer"
  using assms by (auto simp: buffer_reset_def buffer_resources_def release_block_def split: if_splits)

lemma view_map_section_owns:
  assumes "owns h (add_mset (Handle mapping) (add_mset (Handle file) R))" "mapping \<noteq> nullptr" "file \<noteq> invalid_handle"
    and "view_map_section env ct file mapping path b n e h = (ok, v, e', h')"
  shows "owns h' (view_resources v + R)"
  using assms
  by (auto simp: view_map_section_def Let_def ask_def tell_def owns_def view_resources_def empty_view_def
      split: if_splits)

lemma view_map_file_owns:
  assumes "owns h (add_mset (Handle file) R)" "file \<noteq> invalid_handle"
    and "view_map_file env ct file path b n e h = (ok, v, e', h')"
  shows "owns h' (view_resources v + R)"
proof -
  let ?r = "env h (GetFileSizeEx file)"
  let ?h1 = "(GetFileSizeEx file, ?r) # h"
  let ?m = "r_num (env ?h1 (CreateFileMappingW file))"
  let ?h2 = "(CreateFileMappingW file, env ?h1 (CreateFileMappingW file)) # ?h1"
  have own: "owns ?h2 (acquired_by (CreateFileMappingW file, env ?h1 (CreateFileMappingW file)) + add_mset (Handle file) R)"
    using assms(1) by (intro owns_ask_acquire) simp
  have run: "view_map_file env ct file path b n e h = (ok, v, e', h')" by (rule assms(3))
  show ?thesis
  proof (cases "\<not> r_ok ?r \<or> r_int ?r < 0 \<or> uint b > r_int ?r \<or> uint n > r_int ?r - uint b")
    case True
    then show ?thesis
      using run assms(1) unfolding view_map_file_def Let_def ask_def by (auto simp: tell_def ask_def owns_def)
  next
    case False
    note ok = this
    show ?thesis
    proof (cases "?m = nullptr")
      case True
      then show ?thesis
        using run ok own unfolding view_map_file_def Let_def ask_def by (auto simp: tell_def ask_def owns_def)
    next
      case False
      then have "view_map_section env ct file ?m path b n e ?h2 = (ok, v, e', h')"
        using run ok unfolding view_map_file_def Let_def ask_def by auto
      moreover have "owns ?h2 (add_mset (Handle ?m) (add_mset (Handle file) R))"
        using own False by (simp add: add_mset_commute)
      ultimately show ?thesis using view_map_section_owns [OF _ False assms(2)] by blast
    qed
  qed
qed

lemma view_map_owns:
  assumes "owns h (view_resources u + R)" and "view_map env ct u path b n e h = (ok, v, e', h')"
  shows "owns h' (view_resources v + R)"
proof -
  obtain h1 where reset: "view_reset env u h = (empty_view, h1)" and own1: "owns h1 R"
    using owns_view_reset [OF assms(1), of env] by (metis prod.collapse)
  let ?r = "env h1 (CreateFileW path)"
  let ?h2 = "(CreateFileW path, ?r) # h1"
  have own2: "owns ?h2 (acquired_by (CreateFileW path, ?r) + R)"
    using own1 by (rule owns_ask_acquire)
  consider "n = 0 \<or> n > size_max" | "\<not> (n = 0 \<or> n > size_max)" "r_num ?r = invalid_handle"
    | "\<not> (n = 0 \<or> n > size_max)" "r_num ?r \<noteq> invalid_handle" by blast
  then show ?thesis
  proof cases
    case 1
    then show ?thesis using assms(2) reset own1 by (auto simp: view_map_def Let_def)
  next
    case 2
    then show ?thesis
      using assms(2) reset own2 by (auto simp: view_map_def Let_def ask_def)
  next
    case 3
    then have "view_map_file env ct (r_num ?r) path b n e ?h2 = (ok, v, e', h')"
      using assms(2) reset by (auto simp: view_map_def Let_def ask_def)
    then show ?thesis using own2 3 by (intro view_map_file_owns) auto
  qed
qed

text \<open>What a successful or failed mapping leaves in the view.\<close>

lemma view_map_result:
  assumes "view_map env ct u path b n e h = (ok, v, e', h')"
  shows "ok \<Longrightarrow> v_data_bytes v = n \<and> v_absolute_begin v = b \<and> v_path_key v = lowercase_path ct path"
    "\<not> ok \<Longrightarrow> v = empty_view"
  using assms
  by (auto simp: view_map_def view_map_file_def view_map_section_def view_reset_def Let_def ask_def
      split: if_splits)

lemma prefetch_and_touch_owns:
  assumes "prefetch_and_touch env v p t a b h = (a', b', h')"
  shows "owns h' R \<longleftrightarrow> owns h R"
  using assms by (auto simp: prefetch_and_touch_def Let_def ask_def split: if_splits)

lemma release_block_owns [simp]:
  "owns (release_block env f x a n h) R \<longleftrightarrow> owns h (add_mset (Block a) R)"
  by (simp add: release_block_def)

lemma elapsed_since_owns:
  "elapsed_since env t h = (e, h') \<Longrightarrow> owns h' R \<longleftrightarrow> owns h R"
  by (auto simp: elapsed_since_def ask_def Let_def)

lemma buffer_allocate_owns:
  assumes "owns h (buffer_resources a + R)"
    and "buffer_allocate env a n alloc free x c h = (ok, b, c', h')"
  shows "owns h' (buffer_resources b + R)"
proof -
  obtain h1 where reset: "buffer_reset env a h = (empty_buffer, h1)" and own1: "owns h1 R"
    using owns_buffer_reset [OF assms(1), of env] by (metis prod.collapse)
  show ?thesis
  proof (cases "n = 0 \<or> n > size_max \<or> (alloc = nullptr) \<noteq> (free = nullptr)")
    case True
    then show ?thesis using assms(2) reset own1 by (auto simp: buffer_allocate_def Let_def)
  next
    case False
    then show ?thesis
      using assms(2) reset own1
      by (cases "alloc = nullptr")
        (auto simp: buffer_allocate_def Let_def ask_def elapsed_since_def buffer_resources_def
          empty_buffer_def release_block_def tell_def owns_def split: if_splits)
  qed
qed

lemma buffer_allocate_result:
  assumes "buffer_allocate env a n alloc free x c h = (ok, b, c', h')"
  shows "ok \<Longrightarrow> b_bytes b = n \<and> b_data b \<noteq> nullptr \<and> unat (b_data b) mod 64 = 0"
    "\<not> ok \<Longrightarrow> b = empty_buffer"
  using assms
  by (auto simp: buffer_allocate_def buffer_reset_def Let_def ask_def elapsed_since_def split: if_splits)

section \<open>Properties\<close>

lemma view_map_section_window:
  assumes "view_map_section env ct fh mapping path b n e h = (True, v, e', h')"
  shows "\<exists>g off r. (MapViewOfFile mapping off (v_view_bytes v), r) \<in> set h' \<and> v_base v = r_num r \<and>
    (GetSystemInfo, g) \<in> set h' \<and> off AND (r_num g - 1) = 0 \<and>
    unat off + unat (v_data v - v_base v) = unat b \<and>
    unat (v_data v - v_base v) + unat n = unat (v_view_bytes v)"
proof -
  define gr where "gr = r_num (env h GetSystemInfo)"
  define off where "off = b AND NOT (gr - 1)"
  define delta where "delta = b - off"
  let ?h1 = "(GetSystemInfo, env h GetSystemInfo) # h"
  let ?c = "MapViewOfFile mapping off (delta + n)"
  have ok: "\<not> (delta > size_max \<or> n > size_max - delta)" "v_view_bytes v = delta + n" "v_base v = r_num (env ?h1 ?c)"
    "v_data v = r_num (env ?h1 ?c) + delta" "h' = (?c, env ?h1 ?c) # ?h1"
    using assms by (auto simp: view_map_section_def Let_def ask_def gr_def off_def delta_def tell_def split: if_splits)
  have le: "off \<le> b" unfolding off_def by (rule word_and_le2)
  have "off AND (gr - 1) = 0" unfolding off_def by (simp add: and.assoc)
  moreover have "unat off + unat delta = unat b"
    unfolding delta_def using le by (simp add: unat_sub word_le_nat_alt)
  moreover have "unat delta + unat n = unat (delta + n)"
  proof -
    have "delta \<le> size_max" by (simp add: size_max_def)
    then have "unat n \<le> unat (size_max :: u64) - unat delta" using ok(1) by (simp add: unat_sub word_le_nat_alt not_less)
    moreover have "unat (size_max :: u64) = 18446744073709551615"
      by (simp add: size_max_def unsigned_minus_1_eq_mask mask_eq_exp_minus_1)
    moreover have "unat delta \<le> 18446744073709551615" using unat_u64_lt [of delta] by simp
    ultimately have "unat delta + unat n < 18446744073709551616" by linarith
    then show ?thesis by (simp add: word_nat)
  qed
  ultimately show ?thesis
    using ok(2-5) by (intro exI [of _ "env h GetSystemInfo"] exI [of _ off] exI [of _ "env ?h1 ?c"]) (simp add: gr_def)
qed

lemma view_map_success:
  assumes "view_map env ct u path b n e h = (True, v, e', h')"
  obtains fh r mapping h2 where "view_map_section env ct fh mapping path b n e h2 = (True, v, e', h')"
    "(GetFileSizeEx fh, r) \<in> set h2" "uint b + uint n \<le> r_int r" "v_mapping v = mapping" "n \<noteq> 0"
proof -
  obtain u' h1 where reset: "view_reset env u h = (u', h1)" by fastforce
  let ?r = "env h1 (CreateFileW path)"
  let ?f = "r_num ?r"
  let ?h2 = "(CreateFileW path, ?r) # h1"
  have opened: "view_map_file env ct ?f path b n e ?h2 = (True, v, e', h')" "n \<noteq> 0"
    using assms reset by (auto simp: view_map_def Let_def ask_def split: if_splits)
  let ?h3 = "(GetFileSizeEx ?f, env ?h2 (GetFileSizeEx ?f)) # ?h2"
  let ?m = "r_num (env ?h3 (CreateFileMappingW ?f))"
  let ?h4 = "(CreateFileMappingW ?f, env ?h3 (CreateFileMappingW ?f)) # ?h3"
  have sec: "view_map_section env ct ?f ?m path b n e ?h4 = (True, v, e', h')"
    and size: "uint b + uint n \<le> r_int (env ?h2 (GetFileSizeEx ?f))"
    using opened(1) by (auto simp: view_map_file_def Let_def ask_def split: if_splits)
  moreover have "v_mapping v = ?m"
    using sec by (auto simp: view_map_section_def Let_def ask_def tell_def split: if_splits)
  ultimately show thesis using that [OF sec, of "env ?h2 (GetFileSizeEx ?f)"] opened(2) by simp
qed

text \<open>
  A mapping that succeeds covers exactly the requested bytes of the file: they lie within the
  size the file system reported, the view starts at a multiple of the allocation granularity at or
  below them, the data pointer is the view's start plus the remaining distance, and no 64-bit sum
  wraps. A mapping that fails leaves the view empty. Either way everything acquired on the way is
  owned by the resulting view or has been given back, the previous mapping of the view included.
\<close>

theorem view_map_window:
  assumes "owns h (view_resources u + R)" "view_map env ct u path b n e h = (ok, v, e', h')"
  shows "owns h' (view_resources v + R) \<and> (\<not> ok \<longrightarrow> v = empty_view) \<and>
    (ok \<longrightarrow> v_data_bytes v = n \<and> v_absolute_begin v = b \<and>
      (\<exists>fh r. (GetFileSizeEx fh, r) \<in> set h' \<and> uint b + uint n \<le> r_int r) \<and>
      (\<exists>g off r. (MapViewOfFile (v_mapping v) off (v_view_bytes v), r) \<in> set h' \<and> v_base v = r_num r \<and>
        (GetSystemInfo, g) \<in> set h' \<and> off AND (r_num g - 1) = 0 \<and>
        unat off + unat (v_data v - v_base v) = unat b \<and>
        unat (v_data v - v_base v) + unat n = unat (v_view_bytes v)))"
proof (intro conjI impI)
  show "owns h' (view_resources v + R)" by (rule view_map_owns [OF assms])
  show "v = empty_view" if "\<not> ok" by (rule view_map_result(2) [OF assms(2) that])
  assume ok
  then show "v_data_bytes v = n" "v_absolute_begin v = b" using view_map_result(1) [OF assms(2)] by simp_all
  obtain fh r mapping h2 where m: "view_map_section env ct fh mapping path b n e h2 = (True, v, e', h')"
    "(GetFileSizeEx fh, r) \<in> set h2" "uint b + uint n \<le> r_int r" "v_mapping v = mapping"
    using view_map_success assms(2) \<open>ok\<close> by (metis (full_types))
  have "set h2 \<subseteq> set h'"
    using m(1) by (auto simp: view_map_section_def Let_def ask_def tell_def split: if_splits)
  with m show "\<exists>fh r. (GetFileSizeEx fh, r) \<in> set h' \<and> uint b + uint n \<le> r_int r" by blast
  show "\<exists>g off r. (MapViewOfFile (v_mapping v) off (v_view_bytes v), r) \<in> set h' \<and> v_base v = r_num r \<and>
      (GetSystemInfo, g) \<in> set h' \<and> off AND (r_num g - 1) = 0 \<and>
      unat off + unat (v_data v - v_base v) = unat b \<and>
      unat (v_data v - v_base v) + unat n = unat (v_view_bytes v)"
    using view_map_section_window [OF m(1)] m(4) by simp
qed

definition small_host :: host_env where
  "small_host h c =
     (let r = \<lparr>r_ok = True, r_num = 0, r_int = 0, r_text = [], r_eax = 0, r_ebx = 0, r_ecx = 0, r_throws = False\<rparr>
      in case c of
           CreateFileW _ \<Rightarrow> r\<lparr>r_num := 0x10\<rparr>
         | GetFileSizeEx _ \<Rightarrow> r\<lparr>r_int := 1000000\<rparr>
         | CreateFileMappingW _ \<Rightarrow> r\<lparr>r_num := 0x20\<rparr>
         | GetSystemInfo \<Rightarrow> r\<lparr>r_num := 65536\<rparr>
         | MapViewOfFile _ _ _ \<Rightarrow> r\<lparr>r_num := 0x7f0000\<rparr>
         | AlignedMalloc _ _ \<Rightarrow> r\<lparr>r_num := 0x1000\<rparr>
         | _ \<Rightarrow> r)"

definition plain_ctype :: wctype where
  "plain_ctype = \<lparr>iswalpha = (\<lambda>c. False), towlower = (\<lambda>c. c)\<rparr>"

theorem view_map_window_witness:
  "\<exists>v e' h'. view_map small_host plain_ctype empty_view [0x41] 100000 5000 0 [] = (True, v, e', h') \<and>
     owns h' (view_resources v) \<and> unat (v_data v - v_base v) + 5000 = unat (v_view_bytes v)"
proof -
  obtain ok v e' h' where run: "view_map small_host plain_ctype empty_view [0x41] 100000 5000 0 [] = (ok, v, e', h')"
    by (metis surj_pair)
  have "fst (view_map small_host plain_ctype empty_view [0x41] 100000 5000 0 [])"
    by (simp add: view_map_def view_reset_def view_map_file_def view_map_section_def small_host_def empty_view_def
        nullptr_def invalid_handle_def size_max_def ask_def Let_def word_less_nat_alt word_le_nat_alt
        unsigned_minus_1_eq_mask mask_eq_exp_minus_1)
  then have ok unfolding run by simp
  have "owns [] (view_resources empty_view + {#})" by (simp add: owns_def acquired_def released_def)
  from view_map_window [OF this run] \<open>ok\<close> run show ?thesis by auto
qed

text \<open>
  An allocation that succeeds yields a block of the requested size at a non-null multiple of 64,
  whatever the allocator returned; one that fails (a null or misaligned block, an error code, an
  exception) leaves the buffer empty. In both cases no block is lost or freed twice: a block that the
  caller's allocator hands over together with an error is given back.
\<close>

theorem buffer_allocate_aligned:
  assumes "owns h (buffer_resources a + R)" "buffer_allocate env a n alloc free x c h = (ok, b, c', h')"
  shows "owns h' (buffer_resources b + R) \<and>
    (if ok then b_bytes b = n \<and> b_data b \<noteq> nullptr \<and> unat (b_data b) mod 64 = 0 else b = empty_buffer)"
  using buffer_allocate_owns [OF assms] buffer_allocate_result [OF assms(2)] by simp

theorem buffer_allocate_aligned_witness:
  "\<exists>b c' h'. buffer_allocate small_host empty_buffer 6291456 nullptr nullptr 0
       \<lparr>c_allocator_error = 0, c_allocation_call_count = 0, c_allocated_bytes = 0, c_allocation_elapsed_ns = 0\<rparr> [] = (True, b, c', h') \<and>
     owns h' (buffer_resources b) \<and> b_bytes b = 6291456 \<and> unat (b_data b) mod 64 = 0"
proof -
  let ?c = "\<lparr>c_allocator_error = 0, c_allocation_call_count = 0, c_allocated_bytes = 0, c_allocation_elapsed_ns = 0\<rparr>"
  obtain ok b c' h' where run: "buffer_allocate small_host empty_buffer 6291456 nullptr nullptr 0 ?c [] = (ok, b, c', h')"
    by (metis surj_pair)
  have "fst (buffer_allocate small_host empty_buffer 6291456 nullptr nullptr 0 ?c [])"
    by (simp add: buffer_allocate_def buffer_reset_def small_host_def empty_buffer_def nullptr_def size_max_def
        ask_def Let_def elapsed_since_def word_less_nat_alt unsigned_minus_1_eq_mask mask_eq_exp_minus_1)
  then have ok unfolding run by simp
  have "owns [] (buffer_resources empty_buffer + {#})" by (simp add: owns_def acquired_def released_def)
  from buffer_allocate_aligned [OF this run] \<open>ok\<close> run show ?thesis by auto
qed

end
