(* ===== verification/Expert_Cache.thy ===== *)
theory Expert_Cache
  imports Host_Platform
begin

text \<open>
  The expert cache of \<^verbatim>\<open>native/providers/q1_moe_avx512bf16_host_provider.cpp\<close>: cache entries,
  the identity of the tensor source they were filled from, the provider state
  \<open>ProviderImpl\<close> and its own operations (lookup, least-recently-used eviction, clearing,
  error bookkeeping, statistics). Both prewarm operations and \<open>run\<close> work on this state and
  are in the theories that import this one.
\<close>

section \<open>Constants\<close>

definition kHidden :: nat where "kHidden = 2048"
definition kIntermediate :: nat where "kIntermediate = 512"
definition kRoutes :: nat where "kRoutes = 8"
definition kExpertCount :: u32 where "kExpertCount = 256"
definition kLayerCount :: u32 where "kLayerCount = 40"
definition kGateUpBytesPerExpert :: u64 where "kGateUpBytesPerExpert = 4194304"
definition kDownBytesPerExpert :: u64 where "kDownBytesPerExpert = 2097152"
definition kBytesPerExpertPair :: u64 where "kBytesPerExpertPair = 6291456"

lemmas host_constants = kHidden_def kIntermediate_def kRoutes_def kExpertCount_def kLayerCount_def
  kGateUpBytesPerExpert_def kDownBytesPerExpert_def kBytesPerExpertPair_def

datatype host_status = STATUS_ERROR | STATUS_FALLBACK_CACHE_MISS | STATUS_SUCCESS

datatype host_error =
    ERROR_NONE
  | ERROR_INVALID_ARGUMENT
  | ERROR_UNSUPPORTED_CPU
  | ERROR_OUT_OF_MEMORY
  | ERROR_WIN32_PATH
  | ERROR_WIN32_OPEN
  | ERROR_WIN32_MAPPING
  | ERROR_SOURCE_BOUNDS
  | ERROR_CACHE_BUSY
  | ERROR_NONFINITE
  | ERROR_INTERNAL
  | ERROR_RESIDENT_COPY
  | ERROR_RESIDENT_ALLOCATION

section \<open>State\<close>

datatype cache_source_mode = SourceNone | FileMapping | ResidentDevice

record entry =
  e_model_generation :: u64
  e_layer_index :: u32
  e_expert_id :: u32
  e_last_use :: u64
  e_pin_count :: u32
  e_source_mode :: cache_source_mode
  e_gate_up :: view
  e_down :: view
  e_resident_pair :: buffer
  e_gate_up_device_begin :: u64
  e_down_device_begin :: u64

definition new_entry :: entry where
  "new_entry = \<lparr>e_model_generation = 0, e_layer_index = 0, e_expert_id = 0, e_last_use = 0,
     e_pin_count = 0, e_source_mode = SourceNone, e_gate_up = empty_view, e_down = empty_view,
     e_resident_pair = empty_buffer, e_gate_up_device_begin = 0, e_down_device_begin = 0\<rparr>"

text \<open>Where the weights of an entry start in memory.\<close>

definition gate_up_bf16 :: "entry \<Rightarrow> u64" where
  "gate_up_bf16 e = (if e_source_mode e = ResidentDevice then b_data (e_resident_pair e)
                     else v_data (e_gate_up e))"

definition down_bf16 :: "entry \<Rightarrow> u64" where
  "down_bf16 e = (if e_source_mode e = ResidentDevice then b_data (e_resident_pair e) + kGateUpBytesPerExpert
                  else v_data (e_down e))"

text \<open>Callbacks are identified by their addresses.\<close>

record source_identity =
  s_mode :: cache_source_mode
  s_model_key :: wide
  s_gate_path_key :: wide
  s_down_path_key :: wide
  s_gate_tensor_absolute_begin :: u64
  s_down_tensor_absolute_begin :: u64
  s_gate_bytes_per_expert :: u64
  s_down_bytes_per_expert :: u64
  s_layer_index :: u32
  s_source_generation :: u64
  s_gate_up_device_base :: u64
  s_down_device_base :: u64
  s_copy_to_host :: u64
  s_copy_context :: u64
  s_host_allocate :: u64
  s_host_free :: u64
  s_allocator_context :: u64

definition new_identity :: source_identity where
  "new_identity = \<lparr>s_mode = SourceNone, s_model_key = [], s_gate_path_key = [], s_down_path_key = [],
     s_gate_tensor_absolute_begin = 0, s_down_tensor_absolute_begin = 0, s_gate_bytes_per_expert = 0,
     s_down_bytes_per_expert = 0, s_layer_index = 0, s_source_generation = 0, s_gate_up_device_base = 0,
     s_down_device_base = 0, s_copy_to_host = 0, s_copy_context = 0, s_host_allocate = 0,
     s_host_free = 0, s_allocator_context = 0\<rparr>"

definition identity_matches :: "source_identity \<Rightarrow> source_identity \<Rightarrow> bool" where
  "identity_matches s t \<longleftrightarrow>
     s_mode s = s_mode t \<and> s_model_key s = s_model_key t \<and>
     s_gate_path_key s = s_gate_path_key t \<and> s_down_path_key s = s_down_path_key t \<and>
     s_gate_tensor_absolute_begin s = s_gate_tensor_absolute_begin t \<and>
     s_down_tensor_absolute_begin s = s_down_tensor_absolute_begin t \<and>
     s_gate_bytes_per_expert s = s_gate_bytes_per_expert t \<and>
     s_down_bytes_per_expert s = s_down_bytes_per_expert t \<and>
     s_layer_index s = s_layer_index t \<and> s_source_generation s = s_source_generation t \<and>
     s_gate_up_device_base s = s_gate_up_device_base t \<and> s_down_device_base s = s_down_device_base t \<and>
     s_copy_to_host s = s_copy_to_host t \<and> s_copy_context s = s_copy_context t \<and>
     s_host_allocate s = s_host_allocate t \<and> s_host_free s = s_host_free t \<and>
     s_allocator_context s = s_allocator_context t"

record host_config =
  cfg_struct_size :: u32
  cfg_abi_version :: u32
  cfg_worker_count :: u32
  cfg_cache_entry_capacity :: u32
  cfg_cache_byte_capacity :: u64
  cfg_prefetch_virtual_memory :: u32
  cfg_touch_mapped_pages :: u32

text \<open>The cumulative counters, in the three groups of the structure.\<close>

record prewarm_stats =
  prewarm_call_count :: u64
  prewarm_success_count :: u64
  prewarm_error_count :: u64
  prewarm_requested_entry_count :: u64
  prewarm_mapped_entry_count :: u64
  prewarm_already_present_count :: u64
  prewarm_failed_entry_count :: u64
  prewarm_eviction_count :: u64
  prewarm_mapped_bytes :: u64
  prewarm_prefetch_requested_bytes :: u64
  prewarm_touched_bytes :: u64
  prewarm_elapsed_ns :: u64

record resident_stats =
  resident_prewarm_call_count :: u64
  resident_prewarm_success_count :: u64
  resident_prewarm_error_count :: u64
  resident_prewarm_requested_entry_count :: u64
  resident_prewarm_copied_entry_count :: u64
  resident_prewarm_already_present_count :: u64
  resident_prewarm_failed_entry_count :: u64
  resident_prewarm_eviction_count :: u64
  resident_copy_call_count :: u64
  resident_copied_bytes :: u64
  resident_copy_elapsed_ns :: u64
  resident_prewarm_elapsed_ns :: u64

record run_stats =
  run_call_count :: u64
  run_success_count :: u64
  run_fallback_count :: u64
  run_error_count :: u64
  run_route_lookup_count :: u64
  run_route_hit_count :: u64
  run_route_miss_count :: u64
  run_weight_bytes_consumed :: u64
  run_input_bytes :: u64
  run_output_bytes :: u64
  run_lookup_elapsed_ns :: u64
  run_gate_up_elapsed_ns :: u64
  run_down_combine_elapsed_ns :: u64
  run_total_elapsed_ns :: u64

definition no_prewarm_stats :: prewarm_stats where
  "no_prewarm_stats = \<lparr>prewarm_call_count = 0, prewarm_success_count = 0, prewarm_error_count = 0,
     prewarm_requested_entry_count = 0, prewarm_mapped_entry_count = 0,
     prewarm_already_present_count = 0, prewarm_failed_entry_count = 0, prewarm_eviction_count = 0,
     prewarm_mapped_bytes = 0, prewarm_prefetch_requested_bytes = 0, prewarm_touched_bytes = 0,
     prewarm_elapsed_ns = 0\<rparr>"

definition no_resident_stats :: resident_stats where
  "no_resident_stats = \<lparr>resident_prewarm_call_count = 0, resident_prewarm_success_count = 0,
     resident_prewarm_error_count = 0, resident_prewarm_requested_entry_count = 0,
     resident_prewarm_copied_entry_count = 0, resident_prewarm_already_present_count = 0,
     resident_prewarm_failed_entry_count = 0, resident_prewarm_eviction_count = 0,
     resident_copy_call_count = 0, resident_copied_bytes = 0, resident_copy_elapsed_ns = 0,
     resident_prewarm_elapsed_ns = 0\<rparr>"

definition no_run_stats :: run_stats where
  "no_run_stats = \<lparr>run_call_count = 0, run_success_count = 0, run_fallback_count = 0,
     run_error_count = 0, run_route_lookup_count = 0, run_route_hit_count = 0,
     run_route_miss_count = 0, run_weight_bytes_consumed = 0, run_input_bytes = 0,
     run_output_bytes = 0, run_lookup_elapsed_ns = 0, run_gate_up_elapsed_ns = 0,
     run_down_combine_elapsed_ns = 0, run_total_elapsed_ns = 0\<rparr>"

text \<open>
  \<open>ProviderImpl\<close>. The mutexes serialise the operations and have no state of their own here; the
  worker pool is the theory of that name.
\<close>

record impl =
  i_config :: host_config
  i_entries :: "entry list"
  i_source_identity :: source_identity
  i_source_identity_set :: bool
  i_model_generation :: u64
  i_clock :: u64
  i_cache_bytes :: u64
  i_cache_peak_bytes :: u64
  i_cache_peak_entries :: nat
  i_prewarm :: prewarm_stats
  i_resident :: resident_stats
  i_run :: run_stats
  i_last_error :: string
  i_last_error_code :: host_error
  i_last_win32_error :: u32
  i_last_resident_callback_error :: int

definition new_impl :: "host_config \<Rightarrow> impl" where
  "new_impl config = \<lparr>i_config = config, i_entries = [], i_source_identity = new_identity,
     i_source_identity_set = False, i_model_generation = 0, i_clock = 0, i_cache_bytes = 0,
     i_cache_peak_bytes = 0, i_cache_peak_entries = 0, i_prewarm = no_prewarm_stats,
     i_resident = no_resident_stats, i_run = no_run_stats, i_last_error = [],
     i_last_error_code = ERROR_NONE, i_last_win32_error = 0, i_last_resident_callback_error = 0\<rparr>"

section \<open>Operations\<close>

definition next_clock :: "impl \<Rightarrow> u64 \<times> impl" where
  "next_clock i =
     (let clock = i_clock i + 1;
          clock = (if clock = 0 then clock + 1 else clock)
      in (clock, i\<lparr>i_clock := clock\<rparr>))"

text \<open>The copies of the last error in \<open>cumulative\<close> always equal the fields kept here.\<close>

definition set_error :: "host_error \<Rightarrow> u32 \<Rightarrow> string \<Rightarrow> impl \<Rightarrow> impl" where
  "set_error code win32 message i =
     i\<lparr>i_last_error_code := code, i_last_win32_error := win32, i_last_error := message,
       i_last_resident_callback_error := 0\<rparr>"

definition set_resident_copy_error :: "int \<Rightarrow> string \<Rightarrow> impl \<Rightarrow> impl" where
  "set_resident_copy_error callback_error message i =
     (set_error ERROR_RESIDENT_COPY 0 message i)\<lparr>i_last_resident_callback_error := callback_error\<rparr>"

definition clear_error :: "impl \<Rightarrow> impl" where
  "clear_error i = set_error ERROR_NONE 0 [] i"

text \<open>The index of the first entry of the current generation with the key.\<close>

definition entry_hit :: "impl \<Rightarrow> u32 \<Rightarrow> u32 \<Rightarrow> entry \<Rightarrow> bool" where
  "entry_hit i layer_index expert_id e \<longleftrightarrow>
     e_model_generation e = i_model_generation i \<and> e_layer_index e = layer_index \<and>
     e_expert_id e = expert_id"

fun find_index_from :: "('a \<Rightarrow> bool) \<Rightarrow> nat \<Rightarrow> 'a list \<Rightarrow> nat option" where
  "find_index_from P k [] = None"
| "find_index_from P k (x # xs) = (if P x then Some k else find_index_from P (Suc k) xs)"

definition find_entry :: "u32 \<Rightarrow> u32 \<Rightarrow> impl \<Rightarrow> nat option" where
  "find_entry layer_index expert_id i =
     find_index_from (entry_hit i layer_index expert_id) 0 (i_entries i)"

definition source_matches :: "entry \<Rightarrow> wide \<Rightarrow> u64 \<Rightarrow> wide \<Rightarrow> u64 \<Rightarrow> bool" where
  "source_matches e gate_path_key gate_begin down_path_key down_begin \<longleftrightarrow>
     e_source_mode e = FileMapping \<and>
     v_path_key (e_gate_up e) = gate_path_key \<and> v_absolute_begin (e_gate_up e) = gate_begin \<and>
     v_data_bytes (e_gate_up e) = kGateUpBytesPerExpert \<and>
     v_path_key (e_down e) = down_path_key \<and> v_absolute_begin (e_down e) = down_begin \<and>
     v_data_bytes (e_down e) = kDownBytesPerExpert"

definition resident_source_matches :: "entry \<Rightarrow> u64 \<Rightarrow> u64 \<Rightarrow> bool" where
  "resident_source_matches e gate_begin down_begin \<longleftrightarrow>
     e_source_mode e = ResidentDevice \<and> e_gate_up_device_begin e = gate_begin \<and>
     e_down_device_begin e = down_begin \<and> b_bytes (e_resident_pair e) = kBytesPerExpertPair"

definition bump_model_generation :: "impl \<Rightarrow> impl" where
  "bump_model_generation i =
     (let g = i_model_generation i + 1 in i\<lparr>i_model_generation := if g = 0 then g + 1 else g\<rparr>)"

type_synonym keys = "(u32 \<times> u32) list"

fun is_protected :: "entry \<Rightarrow> keys \<Rightarrow> bool" where
  "is_protected e [] = False"
| "is_protected e (k # ks) =
     (if e_layer_index e = fst k \<and> e_expert_id e = snd k then True else is_protected e ks)"

text \<open>Destroying an entry resets its buffer and its two views, in reverse order of declaration.\<close>

definition entry_destroy :: "host_env \<Rightarrow> entry \<Rightarrow> host_hist \<Rightarrow> host_hist" where
  "entry_destroy env e h =
     snd (view_reset env (e_gate_up e) (snd (view_reset env (e_down e)
       (snd (buffer_reset env (e_resident_pair e) h)))))"

text \<open>The scan of \<open>evict_one\<close>: the first entry with the smallest use below the starting maximum.\<close>

fun select_victim :: "keys \<Rightarrow> nat \<Rightarrow> u64 \<Rightarrow> nat option \<Rightarrow> entry list \<Rightarrow> nat option" where
  "select_victim ks k oldest victim [] = victim"
| "select_victim ks k oldest victim (e # es) =
     (if e_pin_count e = 0 \<and> \<not> is_protected e ks \<and> e_last_use e < oldest
      then select_victim ks (Suc k) (e_last_use e) (Some k) es
      else select_victim ks (Suc k) oldest victim es)"

definition uint64_max :: u64 where
  "uint64_max = - 1"

definition erase_entry :: "host_env \<Rightarrow> nat \<Rightarrow> impl \<Rightarrow> host_hist \<Rightarrow> impl \<times> host_hist" where
  "erase_entry env k i h =
     (i\<lparr>i_entries := erase_at k (i_entries i), i_cache_bytes := i_cache_bytes i - kBytesPerExpertPair\<rparr>,
      entry_destroy env (i_entries i ! k) h)"

definition evict_one :: "host_env \<Rightarrow> keys \<Rightarrow> impl \<Rightarrow> host_hist \<Rightarrow> (impl \<times> host_hist) option" where
  "evict_one env ks i h =
     (case select_victim ks 0 uint64_max None (i_entries i) of
        None \<Rightarrow> None
      | Some victim \<Rightarrow> Some (erase_entry env victim i h))"

definition clear_entries :: "host_env \<Rightarrow> impl \<Rightarrow> host_hist \<Rightarrow> impl \<times> host_hist" where
  "clear_entries env i h =
     (i\<lparr>i_entries := [], i_cache_bytes := 0\<rparr>, foldl (\<lambda>h e. entry_destroy env e h) h (i_entries i))"

text \<open>The room test of both prewarm loops and their eviction loop.\<close>

definition cache_full :: "impl \<Rightarrow> bool" where
  "cache_full i \<longleftrightarrow>
     length (i_entries i) \<ge> unat (cfg_cache_entry_capacity (i_config i)) \<or>
     i_cache_bytes i + kBytesPerExpertPair > cfg_cache_byte_capacity (i_config i)"

lemma select_victim_range:
  "select_victim ks k oldest victim es = Some j \<Longrightarrow> victim = Some j \<or> (k \<le> j \<and> j < k + length es)"
  by (induction es arbitrary: k oldest victim) (force split: if_splits)+

lemma evict_one_shrinks:
  "evict_one env ks i h = Some (i', h') \<Longrightarrow> Suc (length (i_entries i')) = length (i_entries i)"
  by (auto simp: evict_one_def erase_entry_def split: option.splits
      dest!: select_victim_range)

function make_room :: "host_env \<Rightarrow> keys \<Rightarrow> nat \<Rightarrow> impl \<Rightarrow> host_hist \<Rightarrow> bool \<times> nat \<times> impl \<times> host_hist" where
  "make_room env ks evictions i h =
     (if cache_full i
      then (case evict_one env ks i h of
              None \<Rightarrow> (False, evictions, i, h)
            | Some (i', h') \<Rightarrow> make_room env ks (evictions + 1) i' h')
      else (True, evictions, i, h))"
  by pat_completeness auto
termination
  by (relation "measure (\<lambda>(env, ks, evictions, i, h). length (i_entries i))")
    (auto dest: evict_one_shrinks)

declare make_room.simps [simp del]

text \<open>
  Adoption of the requested source, shared by both prewarm operations: \<open>None\<close> when an entry of another
  source is pinned.
\<close>

definition adopt_source :: "host_env \<Rightarrow> source_identity \<Rightarrow> impl \<Rightarrow> host_hist \<Rightarrow> (impl \<times> host_hist) option" where
  "adopt_source env requested i h =
     (if \<not> i_source_identity_set i \<or> \<not> identity_matches (i_source_identity i) requested
      then if \<exists>e \<in> set (i_entries i). e_pin_count e \<noteq> 0 then None
           else let (i, h) = clear_entries env i h
                in Some (bump_model_generation
                     (i\<lparr>i_source_identity := requested, i_source_identity_set := True\<rparr>), h)
      else Some (i, h))"

definition max_u64 :: "u64 \<Rightarrow> u64 \<Rightarrow> u64" where
  "max_u64 a b = (if a < b then b else a)"

text \<open>\<open>entries.push_back\<close> and the counters of the cache.\<close>

definition admit_entry :: "entry \<Rightarrow> impl \<Rightarrow> impl" where
  "admit_entry e i =
     (let entries = i_entries i @ [e];
          bytes = i_cache_bytes i + kBytesPerExpertPair
      in i\<lparr>i_entries := entries, i_cache_bytes := bytes,
           i_cache_peak_bytes := max_u64 (i_cache_peak_bytes i) bytes,
           i_cache_peak_entries := max (i_cache_peak_entries i) (length entries)\<rparr>)"

text \<open>\<open>snapshot_stats\<close>: the counters with the current state of the cache.\<close>

record stats =
  st_worker_count :: u32
  st_cache_entry_capacity :: u32
  st_cache_byte_capacity :: u64
  st_cache_entry_count :: nat
  st_cache_peak_entry_count :: nat
  st_cache_bytes :: u64
  st_cache_peak_bytes :: u64
  st_cache_clock :: u64
  st_prewarm :: prewarm_stats
  st_resident :: resident_stats
  st_run :: run_stats
  st_last_error_code :: host_error
  st_last_win32_error :: u32
  st_last_resident_callback_error :: int

definition snapshot_stats :: "impl \<Rightarrow> stats" where
  "snapshot_stats i = \<lparr>st_worker_count = cfg_worker_count (i_config i),
     st_cache_entry_capacity = cfg_cache_entry_capacity (i_config i),
     st_cache_byte_capacity = cfg_cache_byte_capacity (i_config i),
     st_cache_entry_count = length (i_entries i), st_cache_peak_entry_count = i_cache_peak_entries i,
     st_cache_bytes = i_cache_bytes i, st_cache_peak_bytes = i_cache_peak_bytes i,
     st_cache_clock = i_clock i, st_prewarm = i_prewarm i, st_resident = i_resident i,
     st_run = i_run i, st_last_error_code = i_last_error_code i,
     st_last_win32_error = i_last_win32_error i,
     st_last_resident_callback_error = i_last_resident_callback_error i\<rparr>"

section \<open>Erasing and evicting\<close>

definition entry_resources :: "entry \<Rightarrow> resource multiset" where
  "entry_resources e =
     view_resources (e_gate_up e) + view_resources (e_down e) + buffer_resources (e_resident_pair e)"

definition impl_resources :: "impl \<Rightarrow> resource multiset" where
  "impl_resources i = (\<Sum>e\<leftarrow>i_entries i. entry_resources e)"

lemma entry_destroy_owns:
  assumes "owns h (entry_resources e + R)"
  shows "owns (entry_destroy env e h) R"
  unfolding entry_destroy_def
  by (intro owns_view_reset(1) owns_buffer_reset(1))
    (use assms in \<open>simp add: entry_resources_def ac_simps\<close>)

lemma new_entry_resources [simp]: "entry_resources new_entry = {#}"
  by (simp add: entry_resources_def new_entry_def)

lemma sum_list_erase_at:
  fixes f :: "'a \<Rightarrow> 'b::comm_monoid_add"
  assumes "k < length xs"
  shows "(\<Sum>x\<leftarrow>xs. f x) = f (xs ! k) + (\<Sum>x\<leftarrow>erase_at k xs. f x)"
proof -
  have "xs = take k xs @ xs ! k # drop (Suc k) xs"
    using assms by (rule id_take_nth_drop)
  then have "(\<Sum>x\<leftarrow>xs. f x) = (\<Sum>x\<leftarrow>take k xs @ xs ! k # drop (Suc k) xs. f x)" by (rule arg_cong)
  then show ?thesis by (simp add: erase_at_def ac_simps)
qed

lemma erase_entry_owns:
  assumes "owns h (impl_resources i + R)" "k < length (i_entries i)" "erase_entry env k i h = (i', h')"
  shows "owns h' (impl_resources i' + R)"
proof -
  have "owns h (entry_resources (i_entries i ! k) + (impl_resources i' + R))"
    using assms sum_list_erase_at [OF assms(2), of entry_resources]
    by (auto simp: impl_resources_def erase_entry_def ac_simps)
  then show ?thesis using assms(3) by (auto simp: erase_entry_def entry_destroy_owns)
qed

lemma destroy_all_owns:
  "owns h ((\<Sum>e\<leftarrow>es. entry_resources e) + R) \<Longrightarrow> owns (foldl (\<lambda>h e. entry_destroy env e h) h es) R"
proof (induction es arbitrary: h)
  case (Cons e es)
  then have "owns (entry_destroy env e h) ((\<Sum>e\<leftarrow>es. entry_resources e) + R)"
    by (intro entry_destroy_owns) (simp add: ac_simps)
  then show ?case using Cons.IH by simp
qed simp

lemma clear_entries_owns:
  "owns h (impl_resources i + R) \<Longrightarrow> clear_entries env i h = (i', h') \<Longrightarrow> owns h' R"
  by (auto simp: clear_entries_def impl_resources_def destroy_all_owns)

text \<open>What the victim scan finds.\<close>

definition evictable :: "keys \<Rightarrow> entry \<Rightarrow> bool" where
  "evictable ks e \<longleftrightarrow> e_pin_count e = 0 \<and> \<not> is_protected e ks"

lemma is_protected_iff: "is_protected e ks \<longleftrightarrow> (e_layer_index e, e_expert_id e) \<in> set ks"
  by (induction ks) auto

lemma select_victim_spec:
  assumes "select_victim ks k oldest victim es = v"
  shows "(\<forall>e \<in> set es. evictable ks e \<longrightarrow> oldest \<le> e_last_use e) \<and> v = victim \<or>
    (\<exists>j < length es. v = Some (k + j) \<and> evictable ks (es ! j) \<and> e_last_use (es ! j) < oldest \<and>
       (\<forall>e \<in> set es. evictable ks e \<longrightarrow> e_last_use (es ! j) \<le> e_last_use e))"
  using assms
proof (induction es arbitrary: k oldest victim)
  case Nil
  then show ?case by simp
next
  case (Cons e es)
  show ?case
  proof (cases "evictable ks e \<and> e_last_use e < oldest")
    case True
    then have run: "select_victim ks (Suc k) (e_last_use e) (Some k) es = v"
      using Cons.prems by (auto simp: evictable_def)
    from Cons.IH [OF this] show ?thesis
    proof
      assume "(\<forall>x \<in> set es. evictable ks x \<longrightarrow> e_last_use e \<le> e_last_use x) \<and> v = Some k"
      then show ?thesis using True by (intro disjI2 exI [of _ 0]) auto
    next
      assume "\<exists>j < length es. v = Some (Suc k + j) \<and> evictable ks (es ! j) \<and> e_last_use (es ! j) < e_last_use e \<and>
          (\<forall>x \<in> set es. evictable ks x \<longrightarrow> e_last_use (es ! j) \<le> e_last_use x)"
      then obtain j where "j < length es" "v = Some (Suc k + j)" "evictable ks (es ! j)"
        "e_last_use (es ! j) < e_last_use e" "\<forall>x \<in> set es. evictable ks x \<longrightarrow> e_last_use (es ! j) \<le> e_last_use x"
        by blast
      then show ?thesis using True by (intro disjI2 exI [of _ "Suc j"]) auto
    qed
  next
    case False
    then have run: "select_victim ks (Suc k) oldest victim es = v"
      using Cons.prems by (auto simp: evictable_def)
    from Cons.IH [OF this] show ?thesis
    proof
      assume "(\<forall>x \<in> set es. evictable ks x \<longrightarrow> oldest \<le> e_last_use x) \<and> v = victim"
      then show ?thesis using False by (intro disjI1) auto
    next
      assume "\<exists>j < length es. v = Some (Suc k + j) \<and> evictable ks (es ! j) \<and> e_last_use (es ! j) < oldest \<and>
          (\<forall>x \<in> set es. evictable ks x \<longrightarrow> e_last_use (es ! j) \<le> e_last_use x)"
      then obtain j where j: "j < length es" "v = Some (Suc k + j)" "evictable ks (es ! j)"
        "e_last_use (es ! j) < oldest" "\<forall>x \<in> set es. evictable ks x \<longrightarrow> e_last_use (es ! j) \<le> e_last_use x"
        by blast
      then have "evictable ks e \<Longrightarrow> e_last_use (es ! j) \<le> e_last_use e" using False by auto
      with j show ?thesis by (intro disjI2 exI [of _ "Suc j"]) auto
    qed
  qed
qed

lemma evict_one_Some:
  assumes "evict_one env ks i h = Some (i', h')"
  obtains k where "k < length (i_entries i)" "evictable ks (i_entries i ! k)"
    "erase_entry env k i h = (i', h')"
    "\<And>e. e \<in> set (i_entries i) \<Longrightarrow> evictable ks e \<Longrightarrow> e_last_use (i_entries i ! k) \<le> e_last_use e"
proof -
  from assms obtain k where sel: "select_victim ks 0 uint64_max None (i_entries i) = Some k"
    and er: "erase_entry env k i h = (i', h')"
    by (auto simp: evict_one_def split: option.splits)
  from select_victim_spec [OF sel] have "k < length (i_entries i)" "evictable ks (i_entries i ! k)"
    "\<And>e. e \<in> set (i_entries i) \<Longrightarrow> evictable ks e \<Longrightarrow> e_last_use (i_entries i ! k) \<le> e_last_use e"
    by auto
  with er that show ?thesis by blast
qed

lemma evict_one_owns:
  "owns h (impl_resources i + R) \<Longrightarrow> evict_one env ks i h = Some (i', h') \<Longrightarrow> owns h' (impl_resources i' + R)"
  by (erule evict_one_Some) (rule erase_entry_owns)

text \<open>Whatever one eviction keeps, the eviction loop keeps.\<close>

lemma make_room_keeps:
  assumes "make_room env ks n i h = (room, n', i', h')" "P i h"
    and "\<And>i h i' h'. P i h \<Longrightarrow> evict_one env ks i h = Some (i', h') \<Longrightarrow> P i' h'"
  shows "P i' h'"
  using assms
proof (induction env ks n i h rule: make_room.induct)
  case (1 env ks n i h)
  from "1.prems"(1,2) show ?case
    unfolding make_room.simps [of env ks n i h]
    by (auto split: if_splits option.splits prod.splits intro: "1.IH" [OF _ _ refl] "1.prems"(3))
qed

lemma make_room_room: "make_room env ks n i h = (room, n', i', h') \<Longrightarrow> room \<longleftrightarrow> \<not> cache_full i'"
proof (induction env ks n i h rule: make_room.induct)
  case (1 env ks n i h)
  then show ?case by (subst (asm) (2) make_room.simps) (auto split: if_splits option.splits prod.splits)
qed

section \<open>Well-formed caches\<close>

text \<open>
  The cache between two operations: its byte count is the size of its entries, both capacities
  hold, no expert is cached twice, and every entry belongs to the current generation, layer and
  source mode. The peaks bound the current values.
\<close>

definition entry_key :: "entry \<Rightarrow> u32 \<times> u32" where
  "entry_key e = (e_layer_index e, e_expert_id e)"

definition entry_current :: "impl \<Rightarrow> entry \<Rightarrow> bool" where
  "entry_current i e \<longleftrightarrow>
     e_model_generation e = i_model_generation i \<and>
     e_layer_index e = s_layer_index (i_source_identity i) \<and>
     e_source_mode e = s_mode (i_source_identity i) \<and> e_expert_id e < kExpertCount"

definition cache_wf :: "impl \<Rightarrow> bool" where
  "cache_wf i \<longleftrightarrow>
     unat (i_cache_bytes i) = length (i_entries i) * unat kBytesPerExpertPair \<and>
     length (i_entries i) \<le> unat (cfg_cache_entry_capacity (i_config i)) \<and>
     i_cache_bytes i \<le> cfg_cache_byte_capacity (i_config i) \<and>
     distinct (map entry_key (i_entries i)) \<and>
     (\<forall>e \<in> set (i_entries i). entry_current i e) \<and>
     length (i_entries i) \<le> i_cache_peak_entries i \<and>
     i_cache_bytes i \<le> i_cache_peak_bytes i"

definition unpinned :: "impl \<Rightarrow> bool" where
  "unpinned i \<longleftrightarrow> (\<forall>e \<in> set (i_entries i). e_pin_count e = 0)"

lemma cache_wfD:
  assumes "cache_wf i"
  shows "unat (i_cache_bytes i) = length (i_entries i) * unat kBytesPerExpertPair"
    "length (i_entries i) \<le> unat (cfg_cache_entry_capacity (i_config i))"
    "i_cache_bytes i \<le> cfg_cache_byte_capacity (i_config i)"
    "distinct (map entry_key (i_entries i))"
    "e \<in> set (i_entries i) \<Longrightarrow> entry_current i e"
    "length (i_entries i) \<le> i_cache_peak_entries i"
    "i_cache_bytes i \<le> i_cache_peak_bytes i"
  using assms by (simp_all add: cache_wf_def)

text \<open>The fields the invariant reads.\<close>

lemma cache_wf_cong:
  assumes "i_entries j = i_entries i" "i_cache_bytes j = i_cache_bytes i" "i_config j = i_config i"
    "i_model_generation j = i_model_generation i" "i_source_identity j = i_source_identity i"
    "i_cache_peak_entries j = i_cache_peak_entries i" "i_cache_peak_bytes j = i_cache_peak_bytes i"
  shows "cache_wf j \<longleftrightarrow> cache_wf i"
  using assms by (simp add: cache_wf_def entry_current_def)

lemma unat_sub_pair:
  assumes "unat (b :: u64) = n * unat kBytesPerExpertPair" "0 < n"
  shows "unat (b - kBytesPerExpertPair) = (n - 1) * unat kBytesPerExpertPair" "b - kBytesPerExpertPair \<le> b"
proof -
  have le: "kBytesPerExpertPair \<le> b"
    using assms by (cases n) (simp_all add: word_le_nat_alt kBytesPerExpertPair_def)
  then have "unat (b - kBytesPerExpertPair) = unat b - unat kBytesPerExpertPair"
    by (rule unat_sub)
  then show u: "unat (b - kBytesPerExpertPair) = (n - 1) * unat kBytesPerExpertPair"
    by (simp add: assms(1) diff_mult_distrib)
  then show "b - kBytesPerExpertPair \<le> b"
    unfolding word_le_nat_alt assms(1) u by simp
qed

lemma set_erase_at: "distinct (map f xs) \<Longrightarrow> k < length xs \<Longrightarrow>
    f ` set (erase_at k xs) = f ` set xs - {f (xs ! k)} \<and> distinct (map f (erase_at k xs))"
proof -
  assume d: "distinct (map f xs)" and k: "k < length xs"
  have eq: "xs = take k xs @ xs ! k # drop (Suc k) xs" using k by (rule id_take_nth_drop)
  have "distinct (map f (take k xs @ xs ! k # drop (Suc k) xs))" using d eq by simp
  moreover have "f ` set xs = f ` set (take k xs @ xs ! k # drop (Suc k) xs)" using eq by simp
  ultimately show ?thesis by (simp add: erase_at_def image_Un)
qed

lemma erase_entry_wf:
  assumes wf: "cache_wf i" and k: "k < length (i_entries i)" and er: "erase_entry env k i h = (i', h')"
  shows "cache_wf i'" "unpinned i \<Longrightarrow> unpinned i'"
    "entry_key ` set (i_entries i') = entry_key ` set (i_entries i) - {entry_key (i_entries i ! k)}"
proof -
  have i': "i' = i\<lparr>i_entries := erase_at k (i_entries i), i_cache_bytes := i_cache_bytes i - kBytesPerExpertPair\<rparr>"
    using er by (simp add: erase_entry_def)
  note b = unat_sub_pair [OF cache_wfD(1) [OF wf]]
  note e = set_erase_at [OF cache_wfD(4) [OF wf] k]
  have n: "0 < length (i_entries i)" "length (erase_at k (i_entries i)) = length (i_entries i) - 1"
    using k by auto
  have "i_cache_bytes i - kBytesPerExpertPair \<le> cfg_cache_byte_capacity (i_config i)"
    "i_cache_bytes i - kBytesPerExpertPair \<le> i_cache_peak_bytes i"
    using b(2) n(1) cache_wfD(3,7) [OF wf] by auto
  then show "cache_wf i'"
    using b(1) n e cache_wfD [OF wf] set_erase_at_subset [of k "i_entries i"]
    unfolding cache_wf_def by (auto simp: i' entry_current_def)
  show "unpinned i \<Longrightarrow> unpinned i'"
    using set_erase_at_subset [of k "i_entries i"] by (auto simp: unpinned_def i')
  show "entry_key ` set (i_entries i') = entry_key ` set (i_entries i) - {entry_key (i_entries i ! k)}"
    using e by (simp add: i')
qed

lemma evict_one_wf:
  assumes "cache_wf i" "evict_one env ks i h = Some (i', h')"
  shows "cache_wf i' \<and> (unpinned i \<longrightarrow> unpinned i') \<and> entry_key ` set (i_entries i') \<subseteq> entry_key ` set (i_entries i)"
  using assms(2)
proof (rule evict_one_Some)
  fix k
  assume "k < length (i_entries i)" "erase_entry env k i h = (i', h')"
  from erase_entry_wf [OF assms(1) this] show ?thesis by auto
qed

text \<open>The state fields that evictions leave alone.\<close>

definition same_frame :: "impl \<Rightarrow> impl \<Rightarrow> bool" where
  "same_frame i j \<longleftrightarrow> i_config j = i_config i \<and> i_source_identity j = i_source_identity i \<and>
     i_source_identity_set j = i_source_identity_set i \<and> i_model_generation j = i_model_generation i \<and>
     i_clock j = i_clock i \<and> i_prewarm j = i_prewarm i \<and> i_resident j = i_resident i \<and> i_run j = i_run i"

lemma evict_one_frame: "evict_one env ks i h = Some (i', h') \<Longrightarrow> same_frame i i'"
  by (erule evict_one_Some) (auto simp: erase_entry_def same_frame_def)

lemma same_frame_trans: "same_frame i j \<Longrightarrow> same_frame j k \<Longrightarrow> same_frame i k"
  by (simp add: same_frame_def)

lemma evict_one_protected:
  assumes "cache_wf i" "evict_one env ks i h = Some (i', h')" "set ks \<subseteq> entry_key ` set (i_entries i)"
  shows "set ks \<subseteq> entry_key ` set (i_entries i')"
  using assms(2)
proof (rule evict_one_Some)
  fix k
  assume k: "k < length (i_entries i)" "erase_entry env k i h = (i', h')" and e: "evictable ks (i_entries i ! k)"
  from e have "entry_key (i_entries i ! k) \<notin> set ks"
    by (simp add: evictable_def is_protected_iff entry_key_def)
  with erase_entry_wf(3) [OF assms(1) k] assms(3) show ?thesis by auto
qed

lemma make_room_protected:
  assumes "cache_wf i" "make_room env ks n i h = (room, n', i', h')" "set ks \<subseteq> entry_key ` set (i_entries i)"
  shows "set ks \<subseteq> entry_key ` set (i_entries i')"
proof -
  have "cache_wf i' \<and> set ks \<subseteq> entry_key ` set (i_entries i')"
  proof (rule make_room_keeps [OF assms(2)])
    show "cache_wf i \<and> set ks \<subseteq> entry_key ` set (i_entries i)" using assms by simp
    fix j g j' g'
    assume j: "cache_wf j \<and> set ks \<subseteq> entry_key ` set (i_entries j)" "evict_one env ks j g = Some (j', g')"
    show "cache_wf j' \<and> set ks \<subseteq> entry_key ` set (i_entries j')"
      using evict_one_wf [OF conjunct1 [OF j(1)] j(2)] evict_one_protected [OF conjunct1 [OF j(1)] j(2)] j(1)
      by simp
  qed
  then show ?thesis by simp
qed

lemma make_room_wf:
  assumes "cache_wf i" "owns h (impl_resources i + R)" "make_room env ks n i h = (room, n', i', h')"
  shows "cache_wf i' \<and> owns h' (impl_resources i' + R) \<and> (unpinned i \<longrightarrow> unpinned i') \<and> same_frame i i' \<and>
    entry_key ` set (i_entries i') \<subseteq> entry_key ` set (i_entries i)"
proof -
  define P where "P = (\<lambda>j g. cache_wf j \<and> owns g (impl_resources j + R) \<and> (unpinned i \<longrightarrow> unpinned j) \<and>
    same_frame i j \<and> entry_key ` set (i_entries j) \<subseteq> entry_key ` set (i_entries i))"
  have "P i' h'"
  proof (rule make_room_keeps [OF assms(3), of P])
    show "P i h" using assms by (simp add: P_def same_frame_def)
    fix j g j' g'
    assume "P j g" "evict_one env ks j g = Some (j', g')"
    then show "P j' g'"
      using evict_one_wf [of j env ks g j' g'] evict_one_owns [of g j R env ks j' g']
        evict_one_frame [of env ks j g j' g'] same_frame_trans unfolding P_def by blast
  qed
  then show ?thesis by (simp add: P_def)
qed

section \<open>Lookup, admission and adoption\<close>

lemma find_index_from_spec:
  "find_index_from P k xs = None \<longleftrightarrow> (\<forall>x \<in> set xs. \<not> P x)"
  "find_index_from P k xs = Some j \<Longrightarrow> k \<le> j \<and> j - k < length xs \<and> P (xs ! (j - k))"
proof -
  show "find_index_from P k xs = None \<longleftrightarrow> (\<forall>x \<in> set xs. \<not> P x)"
    by (induction xs arbitrary: k) auto
  show "find_index_from P k xs = Some j \<Longrightarrow> k \<le> j \<and> j - k < length xs \<and> P (xs ! (j - k))"
  proof (induction xs arbitrary: k)
    case (Cons x xs)
    show ?case
    proof (cases "P x")
      case False
      with Cons have "Suc k \<le> j \<and> j - Suc k < length xs \<and> P (xs ! (j - Suc k))" by simp
      moreover from this have "j - k = Suc (j - Suc k)" by auto
      ultimately show ?thesis by simp
    qed (use Cons.prems in simp)
  qed simp
qed

lemma find_entry_Some:
  assumes "find_entry l x i = Some k"
  shows "k < length (i_entries i)" "entry_key (i_entries i ! k) = (l, x)"
  using find_index_from_spec(2) [of "entry_hit i l x" 0 "i_entries i" k] assms
  by (auto simp: find_entry_def entry_hit_def entry_key_def)

lemma find_entry_None:
  assumes "cache_wf i"
  shows "find_entry l x i = None \<longleftrightarrow> (l, x) \<notin> entry_key ` set (i_entries i)"
  using cache_wfD(5) [OF assms]
  by (auto simp: find_entry_def find_index_from_spec entry_hit_def entry_key_def entry_current_def)

text \<open>Lookup finds the one entry with the key: the cache is a partial map from keys to entries.\<close>

lemma find_entry_unique:
  assumes "cache_wf i" "k < length (i_entries i)" "entry_key (i_entries i ! k) = (l, x)"
  shows "find_entry l x i = Some k"
proof -
  have "(l, x) \<in> entry_key ` set (i_entries i)"
    using assms(2,3) nth_mem by (metis imageI)
  then obtain j where j: "find_entry l x i = Some j" using find_entry_None [OF assms(1)] by fastforce
  note J = find_entry_Some [OF j]
  have "map entry_key (i_entries i) ! j = map entry_key (i_entries i) ! k"
    using J assms(2,3) by simp
  then have "j = k"
    using nth_eq_iff_index_eq [OF cache_wfD(4) [OF assms(1)], of j k] J(1) assms(2) by simp
  with j show ?thesis by simp
qed

lemma erased_not_found:
  assumes "cache_wf i" "find_entry l x i = Some k" "erase_entry env k i h = (i', h')"
  shows "(l, x) \<notin> entry_key ` set (i_entries i')"
  using erase_entry_wf(3) [OF assms(1) find_entry_Some(1) [OF assms(2)] assms(3)] find_entry_Some(2) [OF assms(2)]
  by simp

lemma admit_entry_wf:
  assumes wf: "cache_wf i" and room: "\<not> cache_full i" and new: "entry_key e \<notin> entry_key ` set (i_entries i)"
    and cur: "entry_current i e"
  shows "cache_wf (admit_entry e i)"
proof -
  let ?n = "length (i_entries i)" and ?b = "i_cache_bytes i + kBytesPerExpertPair"
  note D = cache_wfD [OF wf]
  have n: "?n < unat (cfg_cache_entry_capacity (i_config i))" and le: "?b \<le> cfg_cache_byte_capacity (i_config i)"
    using room by (auto simp: cache_full_def)
  have "Suc ?n * unat kBytesPerExpertPair \<le> 2 ^ 32 * unat kBytesPerExpertPair"
    using n unat_u32_lt [of "cfg_cache_entry_capacity (i_config i)"] by (intro mult_right_mono) auto
  then have lt: "Suc ?n * unat kBytesPerExpertPair < 2 ^ 64"
    by (rule le_less_trans) (simp add: kBytesPerExpertPair_def)
  then have b: "unat ?b = Suc ?n * unat kBytesPerExpertPair"
    using D(1) by (simp add: word_nat)
  have "distinct (map entry_key (i_entries i @ [e]))" using D(4) new by auto
  moreover have "\<forall>x \<in> set (i_entries i @ [e]). entry_current i x" using D(5) cur by auto
  moreover have "?b \<le> max_u64 (i_cache_peak_bytes i) ?b" by (auto simp: max_u64_def)
  ultimately show ?thesis
    using b le n unfolding cache_wf_def admit_entry_def Let_def by (simp add: entry_current_def)
qed

lemma admit_entry_facts [simp]:
  "i_entries (admit_entry e i) = i_entries i @ [e]" "i_config (admit_entry e i) = i_config i"
  "impl_resources (admit_entry e i) = impl_resources i + entry_resources e"
  by (simp_all add: admit_entry_def Let_def impl_resources_def)

lemma clear_entries_facts:
  assumes "clear_entries env i h = (i', h')"
  shows "i_entries i' = []" "i_cache_bytes i' = 0" "i_config i' = i_config i" "same_frame i i'"
    "i_cache_peak_bytes i' = i_cache_peak_bytes i" "i_cache_peak_entries i' = i_cache_peak_entries i"
  using assms by (auto simp: clear_entries_def same_frame_def)

lemma identity_matches_eq: "identity_matches s t \<longleftrightarrow> s = t"
  by (cases s, cases t) (simp add: identity_matches_def)

lemma adopt_source_wf:
  assumes "cache_wf i" "owns h (impl_resources i + R)" "adopt_source env req i h = Some (i', h')"
  shows "cache_wf i'" "owns h' (impl_resources i' + R)" "unpinned i \<Longrightarrow> unpinned i'"
    "i_source_identity i' = req" "i_source_identity_set i'" "i_config i' = i_config i"
proof -
  have "cache_wf i' \<and> owns h' (impl_resources i' + R) \<and> (unpinned i \<longrightarrow> unpinned i') \<and>
      i_source_identity i' = req \<and> i_source_identity_set i' \<and> i_config i' = i_config i"
  proof (cases "\<not> i_source_identity_set i \<or> \<not> identity_matches (i_source_identity i) req")
    case True
    obtain j g where c: "clear_entries env i h = (j, g)" by fastforce
    have "i' = bump_model_generation (j\<lparr>i_source_identity := req, i_source_identity_set := True\<rparr>)" "h' = g"
      using assms(3) True c by (auto simp: adopt_source_def split: if_splits)
    then show ?thesis
      using clear_entries_facts [OF c] clear_entries_owns [OF assms(2) c]
      by (simp add: bump_model_generation_def Let_def cache_wf_def impl_resources_def unpinned_def same_frame_def)
  next
    case False
    then show ?thesis
      using assms by (auto simp: adopt_source_def identity_matches_eq)
  qed
  then show "cache_wf i'" "owns h' (impl_resources i' + R)" "unpinned i \<Longrightarrow> unpinned i'"
    "i_source_identity i' = req" "i_source_identity_set i'" "i_config i' = i_config i"
    by simp_all
qed

lemma set_error_wf [simp]:
  "cache_wf (set_error c w m i) \<longleftrightarrow> cache_wf i" "impl_resources (set_error c w m i) = impl_resources i"
  "unpinned (set_error c w m i) \<longleftrightarrow> unpinned i" "i_entries (set_error c w m i) = i_entries i"
  "i_config (set_error c w m i) = i_config i" "i_source_identity (set_error c w m i) = i_source_identity i"
  "i_model_generation (set_error c w m i) = i_model_generation i"
  by (simp_all add: set_error_def impl_resources_def unpinned_def cache_wf_def entry_current_def)

lemma clear_error_wf [simp]:
  "cache_wf (clear_error i) \<longleftrightarrow> cache_wf i" "impl_resources (clear_error i) = impl_resources i"
  "unpinned (clear_error i) \<longleftrightarrow> unpinned i" "i_entries (clear_error i) = i_entries i"
  "i_config (clear_error i) = i_config i" "i_source_identity (clear_error i) = i_source_identity i"
  by (simp_all add: clear_error_def)

lemma set_resident_copy_error_wf [simp]:
  "cache_wf (set_resident_copy_error c m i) \<longleftrightarrow> cache_wf i"
  "impl_resources (set_resident_copy_error c m i) = impl_resources i"
  "unpinned (set_resident_copy_error c m i) \<longleftrightarrow> unpinned i"
  "i_config (set_resident_copy_error c m i) = i_config i"
  "i_source_identity (set_resident_copy_error c m i) = i_source_identity i"
  by (simp_all add: set_resident_copy_error_def set_error_def impl_resources_def unpinned_def
      cache_wf_def entry_current_def)

lemma next_clock_wf:
  assumes "next_clock i = (now, i')"
  shows "cache_wf i' \<longleftrightarrow> cache_wf i" "impl_resources i' = impl_resources i" "unpinned i' \<longleftrightarrow> unpinned i"
    "i_entries i' = i_entries i" "i_config i' = i_config i" "i_source_identity i' = i_source_identity i"
    "i_model_generation i' = i_model_generation i" "cache_full i' \<longleftrightarrow> cache_full i"
  using assms
  by (auto simp: next_clock_def Let_def impl_resources_def unpinned_def cache_full_def cache_wf_def
      entry_current_def)

text \<open>Changing the use time or the pin count of one entry.\<close>

lemma update_entry_wf:
  assumes wf: "cache_wf i" and k: "k < length (i_entries i)"
    and same: "entry_key e = entry_key (i_entries i ! k)" "e_model_generation e = e_model_generation (i_entries i ! k)"
      "e_source_mode e = e_source_mode (i_entries i ! k)"
  shows "cache_wf (i\<lparr>i_entries := (i_entries i)[k := e]\<rparr>)"
proof -
  note D = cache_wfD [OF wf]
  have "map entry_key ((i_entries i)[k := e]) = map entry_key (i_entries i)"
    using same(1) k by (simp add: map_update list_update_same_conv)
  moreover have "entry_current i e"
    using D(5) [of "i_entries i ! k"] k same by (simp add: entry_current_def entry_key_def)
  then have "\<forall>x \<in> set ((i_entries i)[k := e]). entry_current i x"
    using D(5) set_update_subset_insert [of "i_entries i" k e] by auto
  ultimately show ?thesis
    using D unfolding cache_wf_def by (simp add: entry_current_def)
qed

lemma update_entry_resources:
  assumes "k < length (i_entries i)" "entry_resources e = entry_resources (i_entries i ! k)"
  shows "impl_resources (i\<lparr>i_entries := (i_entries i)[k := e]\<rparr>) = impl_resources i"
  using sum_list_map_update [OF assms(1), of entry_resources e] assms(2)
  by (simp add: impl_resources_def)

section \<open>Filling the cache expert by expert\<close>

text \<open>
  The invariant of both prewarm loops: a well-formed, unpinned cache of the requested layer and
  mode, every acquired resource owned by an entry (or among \<open>R\<close>), and every protected key cached.
\<close>

definition fill_inv ::
  "cache_source_mode \<Rightarrow> u32 \<Rightarrow> host_config \<Rightarrow> resource multiset \<Rightarrow> impl \<times> keys \<times> 'r \<times> host_hist \<Rightarrow> bool" where
  "fill_inv m l cfg R = (\<lambda>(i, ks, res, h).
     cache_wf i \<and> owns h (impl_resources i + R) \<and> unpinned i \<and> s_mode (i_source_identity i) = m \<and>
     s_layer_index (i_source_identity i) = l \<and> i_config i = cfg \<and>
     set ks \<subseteq> entry_key ` set (i_entries i))"

lemma entry_key_update [simp]:
  "entry_key (e\<lparr>e_gate_up := v\<rparr>) = entry_key e" "entry_key (e\<lparr>e_down := v\<rparr>) = entry_key e"
  "entry_key (e\<lparr>e_last_use := t\<rparr>) = entry_key e" "entry_key (e\<lparr>e_resident_pair := b\<rparr>) = entry_key e"
  "entry_key (e\<lparr>e_pin_count := n\<rparr>) = entry_key e"
  "entry_key (e\<lparr>e_model_generation := g, e_layer_index := l, e_expert_id := x, e_source_mode := s\<rparr>) = (l, x)"
  by (simp_all add: entry_key_def)

lemma fill_inv_def':
  "fill_inv m l cfg R (i, ks, res, h) \<longleftrightarrow>
     cache_wf i \<and> owns h (impl_resources i + R) \<and> unpinned i \<and> s_mode (i_source_identity i) = m \<and>
     s_layer_index (i_source_identity i) = l \<and> i_config i = cfg \<and>
     set ks \<subseteq> entry_key ` set (i_entries i)"
  by (simp add: fill_inv_def)

text \<open>An entry under construction: its own resources come on top of the cache's.\<close>

definition building ::
  "cache_source_mode \<Rightarrow> u32 \<Rightarrow> host_config \<Rightarrow> resource multiset \<Rightarrow> entry \<Rightarrow> impl \<times> keys \<times> 'r \<times> host_hist \<Rightarrow> bool" where
  "building m l cfg R e = (\<lambda>(i, ks, res, h).
     fill_inv m l cfg (entry_resources e + R) (i, ks, res, h) \<and> \<not> cache_full i \<and>
     entry_key e \<notin> entry_key ` set (i_entries i) \<and> e_layer_index e = l \<and> e_pin_count e = 0 \<and>
     e_model_generation e = i_model_generation i \<and> e_source_mode e = m \<and> e_expert_id e < kExpertCount)"

lemma destroy_outcome:
  assumes "building m l cfg R e (i, ks, res, h)"
  shows "owns (entry_destroy env e h) (impl_resources i + R)"
  using assms by (intro entry_destroy_owns) (simp add: building_def fill_inv_def' ac_simps)

lemma building_clock:
  assumes "building m l cfg R e (i, ks, res, h)" "next_clock i = (now, i')"
  shows "building m l cfg R (e\<lparr>e_last_use := now\<rparr>) (i', ks, res, h)"
proof -
  have "entry_resources (e\<lparr>e_last_use := now\<rparr>) = entry_resources e" by (simp add: entry_resources_def)
  then show ?thesis
    using assms(1) next_clock_wf [OF assms(2)] by (simp add: building_def fill_inv_def')
qed

lemma admit_outcome:
  assumes b: "building m l cfg R e (i, ks, res, h)"
  shows "fill_inv m l cfg R (admit_entry e i, ks @ [(l, e_expert_id e)], res', h)"
proof -
  have "entry_current i e" using b by (simp add: building_def entry_current_def fill_inv_def')
  then have "cache_wf (admit_entry e i)"
    using b by (intro admit_entry_wf) (auto simp: building_def fill_inv_def')
  then show ?thesis
    using b unfolding fill_inv_def' building_def
    by (auto simp: ac_simps unpinned_def entry_key_def admit_entry_def Let_def impl_resources_def)
qed

text \<open>Making way for an expert: its stale entry is erased and room is made.\<close>

lemma make_way_ok:
  assumes inv: "fill_inv m l cfg R (i, ks, res, h)" and unprot: "(l, x) \<notin> set ks"
    and er: "(case find_entry l x i of None \<Rightarrow> (i, h) | Some k \<Rightarrow> erase_entry env k i h) = (i1, h1)"
    and mr: "make_room env ks n i1 h1 = (room, n', i2, h2)"
  shows "fill_inv m l cfg R (i2, ks, res', h2)" "(l, x) \<notin> entry_key ` set (i_entries i2)"
    "room \<longleftrightarrow> \<not> cache_full i2"
    "\<not> (case find_entry l x i of None \<Rightarrow> False | Some k \<Rightarrow> e_pin_count (i_entries i ! k) \<noteq> 0)"
proof -
  have wf: "cache_wf i" and own: "owns h (impl_resources i + R)" and up: "unpinned i"
    and prot: "set ks \<subseteq> entry_key ` set (i_entries i)"
    using inv by (simp_all add: fill_inv_def')
  show "\<not> (case find_entry l x i of None \<Rightarrow> False | Some k \<Rightarrow> e_pin_count (i_entries i ! k) \<noteq> 0)"
    using up find_entry_Some(1) [of l x i] by (auto simp: unpinned_def split: option.splits)
  have one: "fill_inv m l cfg R (i1, ks, res, h1) \<and> (l, x) \<notin> entry_key ` set (i_entries i1)"
  proof (cases "find_entry l x i")
    case None
    then have "i1 = i" "h1 = h" using er by simp_all
    moreover have "(l, x) \<notin> entry_key ` set (i_entries i)" using None find_entry_None [OF wf] by blast
    ultimately show ?thesis using inv by simp
  next
    case (Some k)
    then have e: "erase_entry env k i h = (i1, h1)" using er by simp
    note K = find_entry_Some [OF Some]
    have "same_frame i i1" using e by (auto simp: erase_entry_def same_frame_def)
    moreover have "set ks \<subseteq> entry_key ` set (i_entries i1)"
      using erase_entry_wf(3) [OF wf K(1) e] K(2) prot unprot by auto
    ultimately show ?thesis
      using erase_entry_wf(1,2) [OF wf K(1) e] erase_entry_owns [OF own K(1) e] erased_not_found [OF wf Some e] inv up
      by (simp add: fill_inv_def' same_frame_def)
  qed
  have wf1: "cache_wf i1" "owns h1 (impl_resources i1 + R)" "set ks \<subseteq> entry_key ` set (i_entries i1)"
    using one by (simp_all add: fill_inv_def')
  show "fill_inv m l cfg R (i2, ks, res', h2)" "(l, x) \<notin> entry_key ` set (i_entries i2)"
    using make_room_wf [OF wf1(1,2) mr] one make_room_protected [OF wf1(1) mr wf1(3)]
    by (auto simp: fill_inv_def' same_frame_def)
  show "room \<longleftrightarrow> \<not> cache_full i2" using make_room_room [OF mr] .
qed

text \<open>Marking a cached entry as used.\<close>

lemma mark_used_ok:
  assumes inv: "fill_inv m l cfg R (i, ks, res, h)" and k: "find_entry l x i = Some k"
    and c: "next_clock i = (now, i3)"
  shows "fill_inv m l cfg R
    (i3\<lparr>i_entries := (i_entries i3)[k := (i_entries i3 ! k)\<lparr>e_last_use := now\<rparr>]\<rparr>, ks @ [(l, x)], res', h)"
proof -
  note C = next_clock_wf [OF c]
  have inv3: "fill_inv m l cfg R (i3, ks, res, h)" using inv C by (simp add: fill_inv_def')
  have k3: "k < length (i_entries i3)" and key: "entry_key (i_entries i3 ! k) = (l, x)"
    using find_entry_Some [OF k] C(4) by simp_all
  let ?e = "(i_entries i3 ! k)\<lparr>e_last_use := now\<rparr>"
  let ?i = "i3\<lparr>i_entries := (i_entries i3)[k := (i_entries i3 ! k)\<lparr>e_last_use := now\<rparr>]\<rparr>"
  have wf: "cache_wf ?i" "impl_resources ?i = impl_resources i3"
    using update_entry_wf [of i3 k ?e] update_entry_resources [of k i3 ?e] inv3 k3
    by (simp_all add: fill_inv_def' entry_resources_def)
  have "map entry_key ((i_entries i3)[k := ?e]) = map entry_key (i_entries i3)"
    using k3 by (simp add: map_update list_update_same_conv)
  then have keys: "entry_key ` set ((i_entries i3)[k := ?e]) = entry_key ` set (i_entries i3)"
    by (metis list.set_map)
  have kin: "(l, x) \<in> entry_key ` set (i_entries i3)" using key nth_mem [OF k3] by (metis imageI)
  have "unpinned ?i"
    using inv3 k3 set_update_subset_insert [of "i_entries i3" k ?e] nth_mem [OF k3]
    by (auto simp: fill_inv_def' unpinned_def)
  then show ?thesis using inv3 wf kin keys unfolding fill_inv_def' by simp
qed

text \<open>
  What a prewarm loop needs of one iteration: it keeps the invariant, accounts the expert exactly
  once, never unprotects a key, and either counts a failure or protects the expert's key.
\<close>

locale expert_loop =
  fixes step :: "u32 \<Rightarrow> impl \<times> keys \<times> 'r \<times> host_hist \<Rightarrow> impl \<times> keys \<times> 'r \<times> host_hist"
    and filled present failed :: "'r \<Rightarrow> nat"
    and m :: cache_source_mode and l :: u32 and cfg :: host_config and R :: "resource multiset"
  assumes step_inv: "fill_inv m l cfg R st \<Longrightarrow> fill_inv m l cfg R (step x st)"
    and step_account: "fill_inv m l cfg R (i, ks, res, h) \<Longrightarrow> step x (i, ks, res, h) = (i', ks', res', h') \<Longrightarrow>
      set ks \<subseteq> set ks' \<and>
      (failed res' = Suc (failed res) \<and> filled res' = filled res \<and> present res' = present res
       \<or> failed res' = failed res \<and> filled res' + present res' = Suc (filled res + present res) \<and> (l, x) \<in> set ks')"
begin

lemma loop_inv: "fill_inv m l cfg R st \<Longrightarrow> fill_inv m l cfg R (foldl (\<lambda>st x. step x st) st xs)"
proof (induction xs arbitrary: st)
  case (Cons x xs)
  from Cons.IH [OF step_inv [OF Cons.prems]] show ?case unfolding foldl.simps .
qed simp

lemma loop_account:
  assumes "fill_inv m l cfg R (i, ks, res, h)" "foldl (\<lambda>st x. step x st) (i, ks, res, h) xs = (i', ks', res', h')"
  shows "filled res' + present res' + failed res' = filled res + present res + failed res + length xs"
    and "failed res \<le> failed res'" and "set ks \<subseteq> set ks'"
    and "failed res' = failed res \<Longrightarrow> x \<in> set xs \<Longrightarrow> (l, x) \<in> set ks'"
proof -
  have "filled res' + present res' + failed res' = filled res + present res + failed res + length xs \<and>
      failed res \<le> failed res' \<and> set ks \<subseteq> set ks' \<and>
      (failed res' = failed res \<longrightarrow> (\<forall>x \<in> set xs. (l, x) \<in> set ks'))"
    using assms
  proof (induction xs arbitrary: i ks res h)
    case (Cons x xs)
    obtain i1 ks1 res1 h1 where s: "step x (i, ks, res, h) = (i1, ks1, res1, h1)" by (metis surj_pair)
    have inv1: "fill_inv m l cfg R (i1, ks1, res1, h1)" using step_inv [OF Cons.prems(1), of x] s by simp
    from Cons.prems(2) s have run: "foldl (\<lambda>st x. step x st) (i1, ks1, res1, h1) xs = (i', ks', res', h')" by simp
    from Cons.IH [OF inv1 run] step_account [OF Cons.prems(1) s] show ?case by auto
  qed simp
  then show "filled res' + present res' + failed res' = filled res + present res + failed res + length xs"
    "failed res \<le> failed res'" "set ks \<subseteq> set ks'"
    "failed res' = failed res \<Longrightarrow> x \<in> set xs \<Longrightarrow> (l, x) \<in> set ks'"
    by auto
qed

text \<open>With no failure every requested expert ends up in the cache.\<close>

lemma loop_serves:
  assumes "fill_inv m l cfg R (i, ks, res, h)" "foldl (\<lambda>st x. step x st) (i, ks, res, h) xs = (i', ks', res', h')"
    "failed res' = failed res" "x \<in> set xs"
  shows "find_entry l x i' \<noteq> None"
proof -
  have "(l, x) \<in> set ks'" using loop_account(4) assms by blast
  moreover have "fill_inv m l cfg R (i', ks', res', h')" using loop_inv [OF assms(1), of xs] assms(2) by simp
  ultimately show ?thesis using find_entry_None [of i' l x] by (auto simp: fill_inv_def)
qed

end

end
