(* ===== verification/Prewarm.thy ===== *)
theory Prewarm
  imports Expert_Cache
begin

text \<open>
  The operations of \<^verbatim>\<open>native/providers/q1_moe_avx512bf16_host_provider.cpp\<close> that fill the expert
  cache from model files: \<open>query_support\<close>, \<open>create\<close> and \<open>prewarm\<close>. A null pointer is \<open>None\<close>; the
  per-call counters are natural numbers (each is at most a few hundred, since a request names at most
  256 experts), byte and time totals are 64-bit words.
\<close>

section \<open>Opening a provider\<close>

definition abi_version :: u32 where
  "abi_version = 4"

definition struct_size_valid :: "u32 \<Rightarrow> nat \<Rightarrow> bool" where
  "struct_size_valid provided expected \<longleftrightarrow> unat provided \<ge> expected \<and> expected \<le> 2 ^ 32 - 1"

text \<open>The sizes of the structures of the C interface on a 64-bit target.\<close>

definition sizeof_support :: nat where "sizeof_support = 32"
definition sizeof_config :: nat where "sizeof_config = 32"
definition sizeof_prewarm_request :: nat where "sizeof_prewarm_request = 80"
definition sizeof_prewarm_result :: nat where "sizeof_prewarm_result = 88"

record support =
  sup_struct_size :: u32
  sup_abi_version :: u32
  sup_features :: cpu_features
  sup_supported :: bool

definition query_support ::
  "host_env \<Rightarrow> u32 option \<Rightarrow> host_hist \<Rightarrow> host_status \<times> support option \<times> host_hist" where
  "query_support env out_struct_size h =
     (case out_struct_size of
        None \<Rightarrow> (STATUS_ERROR, None, h)
      | Some caller_size \<Rightarrow>
          if \<not> struct_size_valid caller_size sizeof_support then (STATUS_ERROR, None, h)
          else
            let (features, h) = query_cpu_features env h
            in (if cpu_supported features then STATUS_SUCCESS else STATUS_FALLBACK_CACHE_MISS,
                Some \<lparr>sup_struct_size = caller_size, sup_abi_version = abi_version,
                      sup_features = features, sup_supported = cpu_supported features\<rparr>,
                h))"

text \<open>\<open>create\<close>; the flag is whether the out-pointer is given.\<close>

definition create ::
  "host_env \<Rightarrow> host_config option \<Rightarrow> bool \<Rightarrow> host_hist \<Rightarrow> host_status \<times> impl option \<times> host_hist" where
  "create env config out_given h =
     (case config of
        None \<Rightarrow> (STATUS_ERROR, None, h)
      | Some c \<Rightarrow>
          if \<not> out_given \<or> \<not> struct_size_valid (cfg_struct_size c) sizeof_config \<or>
             cfg_abi_version c \<noteq> abi_version \<or> cfg_worker_count c \<noteq> 16 \<or>
             cfg_cache_entry_capacity c = 0 \<or> cfg_cache_byte_capacity c < kBytesPerExpertPair
          then (STATUS_ERROR, None, h)
          else
            let (features, h) = query_cpu_features env h
            in if \<not> cpu_supported features then (STATUS_ERROR, None, h)
               else
                 let (r, h) = ask env (CxxAllocate ''make_unique provider'') h
                 in if r_throws r then (STATUS_ERROR, None, h)
                    else (STATUS_SUCCESS, Some (new_impl c), h))"

section \<open>Mapped prewarm\<close>

record prewarm_request =
  pw_struct_size :: u32
  pw_layer_index :: u32
  pw_model_dir_utf8 :: "string option"
  pw_gate_up_shard_utf8 :: "string option"
  pw_down_shard_utf8 :: "string option"
  pw_gate_up_tensor_absolute_begin :: u64
  pw_down_tensor_absolute_begin :: u64
  pw_gate_up_bytes_per_expert :: u64
  pw_down_bytes_per_expert :: u64
  pw_expert_ids_by_priority :: "u32 list option"

record prewarm_result =
  pr_status :: host_status
  pr_error_code :: host_error
  pr_win32_error :: u32
  pr_requested_count :: nat
  pr_mapped_count :: nat
  pr_already_present_count :: nat
  pr_failed_count :: nat
  pr_eviction_count :: nat
  pr_cache_entry_count :: nat
  pr_cache_bytes :: u64
  pr_cache_peak_bytes :: u64
  pr_mapped_bytes :: u64
  pr_prefetch_requested_bytes :: u64
  pr_touched_bytes :: u64
  pr_elapsed_ns :: u64

text \<open>The zero-initialised result, whose status value 0 is the fallback status.\<close>

definition new_prewarm_result :: prewarm_result where
  "new_prewarm_result = \<lparr>pr_status = STATUS_FALLBACK_CACHE_MISS, pr_error_code = ERROR_NONE,
     pr_win32_error = 0, pr_requested_count = 0, pr_mapped_count = 0, pr_already_present_count = 0,
     pr_failed_count = 0, pr_eviction_count = 0, pr_cache_entry_count = 0, pr_cache_bytes = 0,
     pr_cache_peak_bytes = 0, pr_mapped_bytes = 0, pr_prefetch_requested_bytes = 0,
     pr_touched_bytes = 0, pr_elapsed_ns = 0\<rparr>"

definition prewarm_request_valid :: "prewarm_request \<Rightarrow> bool" where
  "prewarm_request_valid q \<longleftrightarrow>
     struct_size_valid (pw_struct_size q) sizeof_prewarm_request \<and>
     pw_layer_index q < kLayerCount \<and>
     pw_model_dir_utf8 q \<noteq> None \<and> pw_gate_up_shard_utf8 q \<noteq> None \<and> pw_down_shard_utf8 q \<noteq> None \<and>
     pw_gate_up_bytes_per_expert q = kGateUpBytesPerExpert \<and>
     pw_down_bytes_per_expert q = kDownBytesPerExpert \<and>
     (case pw_expert_ids_by_priority q of
        None \<Rightarrow> False
      | Some ids \<Rightarrow> length ids \<noteq> 0 \<and> length ids \<le> unat kExpertCount)"

definition prewarm_source :: "wctype \<Rightarrow> prewarm_request \<Rightarrow> wide \<Rightarrow> wide \<Rightarrow> wide \<Rightarrow> source_identity" where
  "prewarm_source ct q model_key gate_path down_path =
     new_identity\<lparr>s_mode := FileMapping, s_model_key := model_key,
       s_gate_path_key := lowercase_path ct gate_path, s_down_path_key := lowercase_path ct down_path,
       s_gate_tensor_absolute_begin := pw_gate_up_tensor_absolute_begin q,
       s_down_tensor_absolute_begin := pw_down_tensor_absolute_begin q,
       s_gate_bytes_per_expert := pw_gate_up_bytes_per_expert q,
       s_down_bytes_per_expert := pw_down_bytes_per_expert q,
       s_layer_index := pw_layer_index q\<rparr>"

type_synonym prewarm_state = "impl \<times> keys \<times> prewarm_result \<times> host_hist"

definition prewarm_oom :: "entry \<Rightarrow> host_env \<Rightarrow> prewarm_state \<Rightarrow> prewarm_state" where
  "prewarm_oom e env = (\<lambda>(i, ks, res, h).
     (set_error ERROR_OUT_OF_MEMORY 0 ''prewarm allocation failed'' i, ks,
      res\<lparr>pr_failed_count := pr_failed_count res + 1\<rparr>, entry_destroy env e h))"

definition prewarm_touch :: "host_env \<Rightarrow> view \<Rightarrow> prewarm_state \<Rightarrow> prewarm_state" where
  "prewarm_touch env v = (\<lambda>(i, ks, res, h).
     let (a, b, h) = prefetch_and_touch env v (cfg_prefetch_virtual_memory (i_config i) \<noteq> 0)
                       (cfg_touch_mapped_pages (i_config i) \<noteq> 0)
                       (pr_prefetch_requested_bytes res) (pr_touched_bytes res) h
     in (i, ks, res\<lparr>pr_prefetch_requested_bytes := a, pr_touched_bytes := b\<rparr>, h))"

text \<open>The failure of one mapping: the entry under construction is destroyed.\<close>

definition prewarm_map_failed ::
  "host_env \<Rightarrow> entry \<Rightarrow> u32 \<Rightarrow> string \<Rightarrow> prewarm_state \<Rightarrow> prewarm_state" where
  "prewarm_map_failed env e win32_error message = (\<lambda>(i, ks, res, h).
     (set_error ERROR_WIN32_MAPPING win32_error message i, ks,
      res\<lparr>pr_failed_count := pr_failed_count res + 1\<rparr>, entry_destroy env e h))"

text \<open>
  The \<open>try\<close> block in three parts: allocate the entry and map its gate and up view, map its down
  view, then touch both and admit the entry.
\<close>

definition prewarm_commit :: "host_env \<Rightarrow> prewarm_request \<Rightarrow> entry \<Rightarrow> prewarm_state \<Rightarrow> prewarm_state" where
  "prewarm_commit env q e = (\<lambda>st.
     let (i, ks, res, h) = prewarm_touch env (e_down e) (prewarm_touch env (e_gate_up e) st);
         (now, i) = next_clock i;
         e = e\<lparr>e_last_use := now\<rparr>;
         (r, h) = ask env (CxxAllocate ''entries.push_back'') h
     in if r_throws r then prewarm_oom e env (i, ks, res, h)
        else (admit_entry e i, ks @ [(pw_layer_index q, e_expert_id e)],
              res\<lparr>pr_mapped_count := pr_mapped_count res + 1,
                  pr_mapped_bytes := pr_mapped_bytes res + kBytesPerExpertPair\<rparr>, h))"

definition prewarm_map_down ::
  "host_env \<Rightarrow> wctype \<Rightarrow> prewarm_request \<Rightarrow> wide \<Rightarrow> u64 \<Rightarrow> u32 \<Rightarrow> entry \<Rightarrow> prewarm_state \<Rightarrow> prewarm_state" where
  "prewarm_map_down env ct q down_path down_begin win32_error e = (\<lambda>(i, ks, res, h).
     let (ok, down, win32_error, h) =
           view_map env ct (e_down e) down_path down_begin kDownBytesPerExpert win32_error h;
         e = e\<lparr>e_down := down\<rparr>
     in if \<not> ok
        then prewarm_map_failed env e win32_error ''prewarm could not map the down expert view'' (i, ks, res, h)
        else prewarm_commit env q e (i, ks, res, h))"

definition prewarm_fill ::
  "host_env \<Rightarrow> wctype \<Rightarrow> prewarm_request \<Rightarrow> wide \<Rightarrow> wide \<Rightarrow> u64 \<Rightarrow> u64 \<Rightarrow> u32 \<Rightarrow> prewarm_state \<Rightarrow> prewarm_state" where
  "prewarm_fill env ct q gate_path down_path gate_begin down_begin expert_id = (\<lambda>(i, ks, res, h).
     let (r, h) = ask env (CxxAllocate ''make_unique CacheEntry'') h
     in if r_throws r then prewarm_oom new_entry env (i, ks, res, h)
        else
          let e = new_entry\<lparr>e_model_generation := i_model_generation i, e_layer_index := pw_layer_index q,
                            e_expert_id := expert_id, e_source_mode := FileMapping\<rparr>;
              (ok, gate, win32_error, h) =
                view_map env ct (e_gate_up e) gate_path gate_begin kGateUpBytesPerExpert 0 h;
              e = e\<lparr>e_gate_up := gate\<rparr>
          in if \<not> ok
             then prewarm_map_failed env e win32_error ''prewarm could not map the gate/up expert view''
                    (i, ks, res, h)
             else prewarm_map_down env ct q down_path down_begin win32_error e (i, ks, res, h))"

text \<open>Replacing a stale entry, making room and filling.\<close>

definition prewarm_replace ::
  "host_env \<Rightarrow> wctype \<Rightarrow> prewarm_request \<Rightarrow> wide \<Rightarrow> wide \<Rightarrow> u64 \<Rightarrow> u64 \<Rightarrow> u32 \<Rightarrow> prewarm_state \<Rightarrow> prewarm_state" where
  "prewarm_replace env ct q gate_path down_path gate_begin down_begin expert_id = (\<lambda>(i, ks, res, h).
     let existing = find_entry (pw_layer_index q) expert_id i
     in if (case existing of None \<Rightarrow> False | Some k \<Rightarrow> e_pin_count (i_entries i ! k) \<noteq> 0)
        then (i, ks, res\<lparr>pr_failed_count := pr_failed_count res + 1\<rparr>, h)
        else
          let (i, h) = (case existing of None \<Rightarrow> (i, h) | Some k \<Rightarrow> erase_entry env k i h);
              (room, evictions, i, h) = make_room env ks (pr_eviction_count res) i h;
              res = res\<lparr>pr_eviction_count := evictions\<rparr>
          in if \<not> room then (i, ks, res\<lparr>pr_failed_count := pr_failed_count res + 1\<rparr>, h)
             else prewarm_fill env ct q gate_path down_path gate_begin down_begin expert_id (i, ks, res, h))"

text \<open>A source-matched entry is refreshed: touched again and marked as used.\<close>

definition prewarm_refresh :: "host_env \<Rightarrow> prewarm_request \<Rightarrow> nat \<Rightarrow> u32 \<Rightarrow> prewarm_state \<Rightarrow> prewarm_state" where
  "prewarm_refresh env q k expert_id = (\<lambda>(i, ks, res, h).
     let e = i_entries i ! k;
         (i, ks, res, h) = prewarm_touch env (e_down e) (prewarm_touch env (e_gate_up e) (i, ks, res, h));
         (now, i) = next_clock i
     in (i\<lparr>i_entries := (i_entries i)[k := e\<lparr>e_last_use := now\<rparr>]\<rparr>,
         ks @ [(pw_layer_index q, expert_id)],
         res\<lparr>pr_already_present_count := pr_already_present_count res + 1\<rparr>, h))"

text \<open>One iteration of the loop over the experts.\<close>

definition prewarm_expert ::
  "host_env \<Rightarrow> wctype \<Rightarrow> prewarm_request \<Rightarrow> wide \<Rightarrow> wide \<Rightarrow> u32 \<Rightarrow> prewarm_state \<Rightarrow> prewarm_state" where
  "prewarm_expert env ct q gate_path down_path expert_id = (\<lambda>(i, ks, res, h).
     if expert_id \<ge> kExpertCount
     then (i, ks, res\<lparr>pr_failed_count := pr_failed_count res + 1\<rparr>, h)
     else if (pw_layer_index q, expert_id) \<in> set ks
     then (i, ks, res\<lparr>pr_already_present_count := pr_already_present_count res + 1\<rparr>, h)
     else
       let gate_begin = pw_gate_up_tensor_absolute_begin q + ucast expert_id * kGateUpBytesPerExpert;
           down_begin = pw_down_tensor_absolute_begin q + ucast expert_id * kDownBytesPerExpert
       in if gate_begin < pw_gate_up_tensor_absolute_begin q \<or>
             down_begin < pw_down_tensor_absolute_begin q
          then (i, ks, res\<lparr>pr_failed_count := pr_failed_count res + 1\<rparr>, h)
          else
            (case find_entry (pw_layer_index q) expert_id i of
               Some k \<Rightarrow>
                 if source_matches (i_entries i ! k) (s_gate_path_key (i_source_identity i)) gate_begin
                      (s_down_path_key (i_source_identity i)) down_begin
                 then prewarm_refresh env q k expert_id (i, ks, res, h)
                 else prewarm_replace env ct q gate_path down_path gate_begin down_begin expert_id (i, ks, res, h)
             | None \<Rightarrow>
                 prewarm_replace env ct q gate_path down_path gate_begin down_begin expert_id (i, ks, res, h)))"

fun prewarm_loop ::
  "host_env \<Rightarrow> wctype \<Rightarrow> prewarm_request \<Rightarrow> wide \<Rightarrow> wide \<Rightarrow> u32 list \<Rightarrow> prewarm_state \<Rightarrow> prewarm_state" where
  "prewarm_loop env ct q gate_path down_path [] st = st"
| "prewarm_loop env ct q gate_path down_path (x # xs) st =
     prewarm_loop env ct q gate_path down_path xs (prewarm_expert env ct q gate_path down_path x st)"

text \<open>A call refused before its loop: every expert is failed.\<close>

definition prewarm_refused ::
  "host_env \<Rightarrow> u64 \<Rightarrow> nat \<Rightarrow> u32 \<Rightarrow> impl \<Rightarrow> prewarm_result \<Rightarrow> host_hist \<Rightarrow> host_status \<times> prewarm_result \<times> impl \<times> host_hist" where
  "prewarm_refused env start n win32 i res h =
     (let (elapsed, h) = elapsed_since env start h;
          s = i_prewarm i
      in (STATUS_ERROR,
          res\<lparr>pr_status := STATUS_ERROR, pr_error_code := i_last_error_code i, pr_win32_error := win32,
              pr_failed_count := n, pr_elapsed_ns := elapsed\<rparr>,
          i\<lparr>i_prewarm := s\<lparr>prewarm_error_count := prewarm_error_count s + 1,
              prewarm_failed_entry_count := prewarm_failed_entry_count s + of_nat n,
              prewarm_elapsed_ns := prewarm_elapsed_ns s + elapsed\<rparr>\<rparr>,
          h))"

text \<open>What follows the loop: totals, status and the catch-all error.\<close>

definition prewarm_finish ::
  "host_env \<Rightarrow> u64 \<Rightarrow> prewarm_state \<Rightarrow> host_status \<times> prewarm_result \<times> impl \<times> host_hist" where
  "prewarm_finish env start = (\<lambda>(i, ks, res, h).
     let (elapsed, h) = elapsed_since env start h;
         res = res\<lparr>pr_cache_entry_count := length (i_entries i), pr_cache_bytes := i_cache_bytes i,
                   pr_cache_peak_bytes := i_cache_peak_bytes i, pr_elapsed_ns := elapsed\<rparr>;
         s = i_prewarm i;
         s = s\<lparr>prewarm_mapped_entry_count := prewarm_mapped_entry_count s + of_nat (pr_mapped_count res),
               prewarm_already_present_count :=
                 prewarm_already_present_count s + of_nat (pr_already_present_count res),
               prewarm_failed_entry_count := prewarm_failed_entry_count s + of_nat (pr_failed_count res),
               prewarm_eviction_count := prewarm_eviction_count s + of_nat (pr_eviction_count res),
               prewarm_mapped_bytes := prewarm_mapped_bytes s + pr_mapped_bytes res,
               prewarm_prefetch_requested_bytes :=
                 prewarm_prefetch_requested_bytes s + pr_prefetch_requested_bytes res,
               prewarm_touched_bytes := prewarm_touched_bytes s + pr_touched_bytes res,
               prewarm_elapsed_ns := prewarm_elapsed_ns s + elapsed\<rparr>
     in if pr_failed_count res = 0
        then (STATUS_SUCCESS,
              res\<lparr>pr_status := STATUS_SUCCESS, pr_error_code := ERROR_NONE, pr_win32_error := 0\<rparr>,
              i\<lparr>i_prewarm := s\<lparr>prewarm_success_count := prewarm_success_count s + 1\<rparr>\<rparr>, h)
        else
          let i = i\<lparr>i_prewarm := s\<lparr>prewarm_error_count := prewarm_error_count s + 1\<rparr>\<rparr>;
              i = (if i_last_error_code i = ERROR_NONE
                   then set_error ERROR_CACHE_BUSY 0
                          ''prewarm capacity could not admit every priority entry'' i
                   else i)
          in (STATUS_ERROR,
              res\<lparr>pr_status := STATUS_ERROR, pr_error_code := i_last_error_code i,
                  pr_win32_error := i_last_win32_error i\<rparr>, i, h))"

text \<open>The body under both locks.\<close>

definition prewarm_locked ::
  "host_env \<Rightarrow> wctype \<Rightarrow> prewarm_request \<Rightarrow> u32 list \<Rightarrow> u64 \<Rightarrow> impl \<Rightarrow> host_hist
     \<Rightarrow> host_status \<times> prewarm_result \<times> impl \<times> host_hist" where
  "prewarm_locked env ct q ids start i h =
     (let n = length ids;
          s = i_prewarm i;
          i = i\<lparr>i_prewarm := s\<lparr>prewarm_call_count := prewarm_call_count s + 1,
                  prewarm_requested_entry_count := prewarm_requested_entry_count s + of_nat n\<rparr>\<rparr>;
          res = new_prewarm_result\<lparr>pr_requested_count := n\<rparr>;
          (gate, h) = resolve_model_and_shard env ct (pw_model_dir_utf8 q) (pw_gate_up_shard_utf8 q) h;
          (down, h) = (if gate = None then (None, h)
                       else resolve_model_and_shard env ct (pw_model_dir_utf8 q) (pw_down_shard_utf8 q) h)
      in case (gate, down) of
           (Some (gate_model_key, gate_path), Some (down_model_key, down_path)) \<Rightarrow>
             if gate_model_key \<noteq> down_model_key
             then let (r, h) = ask env GetLastError h;
                      i = set_error ERROR_WIN32_PATH (ucast (r_num r))
                            ''prewarm could not resolve the UTF-8 model or shard path'' i
                  in prewarm_refused env start n (i_last_win32_error i) i res h
             else
               (case adopt_source env (prewarm_source ct q gate_model_key gate_path down_path) i h of
                  None \<Rightarrow>
                    prewarm_refused env start n 0
                      (set_error ERROR_CACHE_BUSY 0
                        ''prewarm cannot replace a tensor source while cache entries are pinned'' i) res h
                | Some (i, h) \<Rightarrow>
                    let i = clear_error i;
                        (r, h) = ask env (CxxAllocate ''protected_keys.reserve'') h
                    in if r_throws r
                       then let (elapsed, h) = elapsed_since env start h
                            in (STATUS_ERROR,
                                res\<lparr>pr_status := STATUS_ERROR, pr_error_code := ERROR_OUT_OF_MEMORY,
                                    pr_win32_error := 0, pr_elapsed_ns := elapsed\<rparr>, i, h)
                       else prewarm_finish env start
                              (prewarm_loop env ct q gate_path down_path ids (i, [], res, h)))
         | _ \<Rightarrow>
             let (r, h) = ask env GetLastError h;
                 i = set_error ERROR_WIN32_PATH (ucast (r_num r))
                       ''prewarm could not resolve the UTF-8 model or shard path'' i
             in prewarm_refused env start n (i_last_win32_error i) i res h)"

definition prewarm ::
  "host_env \<Rightarrow> wctype \<Rightarrow> impl option \<Rightarrow> prewarm_request option \<Rightarrow> u32 option \<Rightarrow> host_hist
     \<Rightarrow> host_status \<times> prewarm_result option \<times> impl option \<times> host_hist" where
  "prewarm env ct provider request out_struct_size h =
     (case out_struct_size of
        None \<Rightarrow> (STATUS_ERROR, None, provider, h)
      | Some caller_size \<Rightarrow>
          if \<not> struct_size_valid caller_size sizeof_prewarm_result then (STATUS_ERROR, None, provider, h)
          else
            let (r, h) = ask env ClockNow h;
                start = r_num r;
                invalid = (let (elapsed, h) = elapsed_since env start h
                           in (STATUS_ERROR,
                               Some (new_prewarm_result\<lparr>pr_status := STATUS_ERROR,
                                       pr_error_code := ERROR_INVALID_ARGUMENT, pr_elapsed_ns := elapsed\<rparr>),
                               provider, h))
            in case (provider, request) of
                 (Some i, Some q) \<Rightarrow>
                   (case pw_expert_ids_by_priority q of
                      Some ids \<Rightarrow>
                        if prewarm_request_valid q
                        then let (status, res, i, h) = prewarm_locked env ct q ids start i h
                             in (status, Some res, Some i, h)
                        else invalid
                    | None \<Rightarrow> invalid)
               | _ \<Rightarrow> invalid)"

section \<open>One expert\<close>

lemma prewarm_touch_facts:
  assumes "prewarm_touch env v (i, ks, res, h) = (i', ks', res', h')"
  shows "i' = i" "ks' = ks" "owns h' Q \<longleftrightarrow> owns h Q" "pr_mapped_count res' = pr_mapped_count res"
    "pr_already_present_count res' = pr_already_present_count res" "pr_failed_count res' = pr_failed_count res"
  using assms prefetch_and_touch_owns
  by (auto simp: prewarm_touch_def split: prod.splits)

lemma prewarm_touch_inv:
  assumes "prewarm_touch env v (i, ks, res, h) = (i', ks', res', h')"
  shows "fill_inv m l cfg R (i', ks', res', h') \<longleftrightarrow> fill_inv m l cfg R (i, ks, res, h)"
  using prewarm_touch_facts [OF assms] by (simp add: fill_inv_def')

text \<open>How one expert is accounted for, from the keys and result before to those after.\<close>

definition prewarm_accounts :: "u32 \<Rightarrow> u32 \<Rightarrow> keys \<Rightarrow> prewarm_result \<Rightarrow> prewarm_state \<Rightarrow> bool" where
  "prewarm_accounts l x ks res = (\<lambda>(i', ks', res', h').
     set ks \<subseteq> set ks' \<and>
     (pr_failed_count res' = Suc (pr_failed_count res) \<and> pr_mapped_count res' = pr_mapped_count res \<and>
        pr_already_present_count res' = pr_already_present_count res
      \<or> pr_failed_count res' = pr_failed_count res \<and>
        pr_mapped_count res' + pr_already_present_count res' =
          Suc (pr_mapped_count res + pr_already_present_count res) \<and> (l, x) \<in> set ks'))"

text \<open>The outcome every part of an iteration has to reach.\<close>

definition prewarm_outcome ::
  "u32 \<Rightarrow> host_config \<Rightarrow> resource multiset \<Rightarrow> u32 \<Rightarrow> keys \<Rightarrow> prewarm_result \<Rightarrow> prewarm_state \<Rightarrow> bool" where
  "prewarm_outcome l cfg R x ks res st \<longleftrightarrow> fill_inv FileMapping l cfg R st \<and> prewarm_accounts l x ks res st"

lemma prewarm_oom_ok:
  assumes "building FileMapping l cfg R e (i, ks, res, h)"
  shows "prewarm_outcome l cfg R x ks res (prewarm_oom e env (i, ks, res, h))"
  using destroy_outcome [OF assms, of env] assms
  by (simp add: prewarm_oom_def prewarm_outcome_def building_def fill_inv_def' prewarm_accounts_def)

lemma prewarm_map_failed_ok:
  assumes "building FileMapping l cfg R e (i, ks, res, h)"
  shows "prewarm_outcome l cfg R x ks res (prewarm_map_failed env e w msg (i, ks, res, h))"
  using destroy_outcome [OF assms, of env] assms
  by (simp add: prewarm_map_failed_def prewarm_outcome_def building_def fill_inv_def' prewarm_accounts_def)

lemma prewarm_commit_ok:
  assumes b: "building FileMapping (pw_layer_index q) cfg R e (i, ks, res, h)" and x: "e_expert_id e = x"
  shows "prewarm_outcome (pw_layer_index q) cfg R x ks res (prewarm_commit env q e (i, ks, res, h))"
proof -
  obtain i1 ks1 res1 h1 where t1: "prewarm_touch env (e_gate_up e) (i, ks, res, h) = (i1, ks1, res1, h1)"
    by (metis surj_pair)
  obtain i2 ks2 res2 h2 where t2: "prewarm_touch env (e_down e) (i1, ks1, res1, h1) = (i2, ks2, res2, h2)"
    by (metis surj_pair)
  obtain now i3 where c: "next_clock i2 = (now, i3)" by fastforce
  note T1 = prewarm_touch_facts [OF t1] and T2 = prewarm_touch_facts [OF t2]
  let ?e = "e\<lparr>e_last_use := now\<rparr>" and ?p = "CxxAllocate ''entries.push_back''"
  let ?h3 = "(?p, env h2 ?p) # h2"
  have "building FileMapping (pw_layer_index q) cfg R e (i2, ks, res2, ?h3)"
    using b T1 T2 by (simp add: building_def fill_inv_def')
  then have b3: "building FileMapping (pw_layer_index q) cfg R ?e (i3, ks, res2, ?h3)"
    using c by (rule building_clock)
  have run: "prewarm_commit env q e (i, ks, res, h) =
      (if r_throws (env h2 ?p) then prewarm_oom ?e env (i3, ks, res2, ?h3)
       else (admit_entry ?e i3, ks @ [(pw_layer_index q, e_expert_id ?e)],
             res2\<lparr>pr_mapped_count := pr_mapped_count res2 + 1,
                 pr_mapped_bytes := pr_mapped_bytes res2 + kBytesPerExpertPair\<rparr>, ?h3))"
    by (simp add: prewarm_commit_def t1 t2 [unfolded T1(2) T2(2)] c ask_def Let_def T1(2))
  have same: "pr_mapped_count res2 = pr_mapped_count res" "pr_failed_count res2 = pr_failed_count res"
    "pr_already_present_count res2 = pr_already_present_count res"
    using T1 T2 by simp_all
  show ?thesis
    using prewarm_oom_ok [OF b3, of x env] admit_outcome [OF b3] x unfolding run
    by (auto simp: prewarm_outcome_def prewarm_accounts_def same split: prod.splits)
qed

lemma prewarm_map_down_ok:
  assumes b: "building FileMapping (pw_layer_index q) cfg R e (i, ks, res, h)" and x: "e_expert_id e = x"
    and fresh: "e_down e = empty_view"
  shows "prewarm_outcome (pw_layer_index q) cfg R x ks res (prewarm_map_down env ct q dp db w e (i, ks, res, h))"
proof -
  obtain ok v w' h' where m: "view_map env ct (e_down e) dp db kDownBytesPerExpert w h = (ok, v, w', h')"
    by (metis surj_pair)
  let ?e = "e\<lparr>e_down := v\<rparr>"
  have res: "entry_resources ?e = view_resources v + entry_resources e"
    using fresh by (simp add: entry_resources_def ac_simps)
  have "owns h (view_resources (e_down e) + (entry_resources e + (impl_resources i + R)))"
    using b fresh by (simp add: building_def fill_inv_def' ac_simps)
  from view_map_owns [OF this m] have "owns h' (impl_resources i + (entry_resources ?e + R))"
    unfolding res by (simp add: ac_simps)
  then have b': "building FileMapping (pw_layer_index q) cfg R ?e (i, ks, res, h')"
    using b by (simp add: building_def fill_inv_def')
  show ?thesis
    using prewarm_map_failed_ok [OF b'] prewarm_commit_ok [OF b'] x m
    by (simp add: prewarm_map_down_def Let_def)
qed

lemma prewarm_fill_ok:
  assumes inv: "fill_inv FileMapping (pw_layer_index q) cfg R (i, ks, res, h)" and room: "\<not> cache_full i"
    and new: "(pw_layer_index q, x) \<notin> entry_key ` set (i_entries i)" and x: "x < kExpertCount"
  shows "prewarm_outcome (pw_layer_index q) cfg R x ks res (prewarm_fill env ct q gp dp gb db x (i, ks, res, h))"
proof -
  let ?l = "pw_layer_index q" and ?c = "CxxAllocate ''make_unique CacheEntry''"
  let ?h1 = "(?c, env h ?c) # h"
  let ?e = "new_entry\<lparr>e_model_generation := i_model_generation i, e_layer_index := ?l, e_expert_id := x, e_source_mode := FileMapping\<rparr>"
  have fresh: "entry_resources ?e = {#}" "e_gate_up ?e = empty_view" "e_down ?e = empty_view" "e_expert_id ?e = x"
    by (simp_all add: entry_resources_def new_entry_def)
  obtain ok v w h2 where m: "view_map env ct empty_view gp gb kGateUpBytesPerExpert 0 ?h1 = (ok, v, w, h2)"
    by (metis surj_pair)
  let ?e2 = "?e\<lparr>e_gate_up := v\<rparr>"
  have r2: "entry_resources ?e2 = view_resources v" by (simp add: entry_resources_def new_entry_def)
  have "owns ?h1 (view_resources empty_view + (impl_resources i + R))"
    using inv by (simp add: fill_inv_def')
  from view_map_owns [OF this m] have "owns h2 (impl_resources i + (entry_resources ?e2 + R))"
    unfolding r2 by (simp add: ac_simps)
  then have b2: "building FileMapping ?l cfg R ?e2 (i, ks, res, h2)"
    using inv room new x by (simp add: building_def fill_inv_def') (simp add: new_entry_def)
  have d2: "e_down ?e2 = empty_view" "e_expert_id ?e2 = x" by (simp_all add: new_entry_def)
  have oom: "prewarm_outcome ?l cfg R x ks res (prewarm_oom new_entry env (i, ks, res, ?h1))"
    using inv by (simp add: prewarm_oom_def prewarm_outcome_def fill_inv_def' prewarm_accounts_def
        entry_destroy_owns)
  show ?thesis
    using oom prewarm_map_failed_ok [OF b2, of x] prewarm_map_down_ok [OF b2 d2(2,1)] m fresh(2)
    by (simp add: prewarm_fill_def Let_def ask_def)
qed

lemma prewarm_replace_ok:
  assumes inv: "fill_inv FileMapping (pw_layer_index q) cfg R (i, ks, res, h)" and x: "x < kExpertCount"
    and unprot: "(pw_layer_index q, x) \<notin> set ks"
  shows "prewarm_outcome (pw_layer_index q) cfg R x ks res (prewarm_replace env ct q gp dp gb db x (i, ks, res, h))"
proof -
  let ?l = "pw_layer_index q"
  obtain i1 h1 where er: "(case find_entry ?l x i of None \<Rightarrow> (i, h) | Some k \<Rightarrow> erase_entry env k i h) = (i1, h1)"
    by fastforce
  obtain room n i2 h2 where mr: "make_room env ks (pr_eviction_count res) i1 h1 = (room, n, i2, h2)"
    by (metis surj_pair)
  note W = make_way_ok [OF inv unprot er mr]
  note W1 = make_way_ok(1) [OF inv unprot er mr, of "res\<lparr>pr_eviction_count := n\<rparr>"]
  have acc: "prewarm_accounts ?l x ks (res\<lparr>pr_eviction_count := n\<rparr>) = prewarm_accounts ?l x ks res"
    by (simp add: prewarm_accounts_def)
  show ?thesis
  proof (cases room)
    case True
    then have "\<not> cache_full i2" using W(3) by simp
    from prewarm_fill_ok [OF W1 this W(2) x] show ?thesis
      using True W(4) er mr acc by (simp add: prewarm_replace_def Let_def prewarm_outcome_def)
  next
    case False
    then show ?thesis
      using W er mr
      by (simp add: prewarm_replace_def Let_def prewarm_outcome_def prewarm_accounts_def)
  qed
qed

lemma prewarm_refresh_ok:
  assumes inv: "fill_inv FileMapping (pw_layer_index q) cfg R (i, ks, res, h)"
    and k: "find_entry (pw_layer_index q) x i = Some k"
  shows "prewarm_outcome (pw_layer_index q) cfg R x ks res (prewarm_refresh env q k x (i, ks, res, h))"
proof -
  let ?e = "i_entries i ! k"
  obtain i1 ks1 res1 h1 where t1: "prewarm_touch env (e_gate_up ?e) (i, ks, res, h) = (i1, ks1, res1, h1)"
    by (metis surj_pair)
  obtain i2 ks2 res2 h2 where t2: "prewarm_touch env (e_down ?e) (i1, ks1, res1, h1) = (i2, ks2, res2, h2)"
    by (metis surj_pair)
  obtain now i3 where c: "next_clock i2 = (now, i3)" by fastforce
  note T1 = prewarm_touch_facts [OF t1] and T2 = prewarm_touch_facts [OF t2]
  have inv2: "fill_inv FileMapping (pw_layer_index q) cfg R (i2, ks, res2, h2)"
    using inv T1 T2 by (simp add: fill_inv_def')
  have k2: "find_entry (pw_layer_index q) x i2 = Some k" using k T1 T2 by simp
  have "i_entries i3 = i_entries i" using next_clock_wf(4) [OF c] T1 T2 by simp
  then have "prewarm_refresh env q k x (i, ks, res, h) =
      (i3\<lparr>i_entries := (i_entries i3)[k := (i_entries i3 ! k)\<lparr>e_last_use := now\<rparr>]\<rparr>, ks @ [(pw_layer_index q, x)],
       res2\<lparr>pr_already_present_count := pr_already_present_count res2 + 1\<rparr>, h2)"
    by (simp add: prewarm_refresh_def t1 t2 [unfolded T1(2) T2(2)] c Let_def T1(2))
  with mark_used_ok [OF inv2 k2 c] show ?thesis
    using T1(4-6) T2(4-6) by (auto simp: prewarm_outcome_def prewarm_accounts_def)
qed

lemma prewarm_expert_ok:
  assumes inv: "fill_inv FileMapping (pw_layer_index q) cfg R (i, ks, res, h)"
  shows "prewarm_outcome (pw_layer_index q) cfg R x ks res (prewarm_expert env ct q gp dp x (i, ks, res, h))"
proof -
  let ?l = "pw_layer_index q"
  consider (bad) "x \<ge> kExpertCount" | (dup) "x < kExpertCount" "(?l, x) \<in> set ks" | (go) "x < kExpertCount" "(?l, x) \<notin> set ks"
    by fastforce
  then show ?thesis
  proof cases
    case bad
    then show ?thesis using inv by (simp add: prewarm_expert_def prewarm_outcome_def prewarm_accounts_def fill_inv_def')
  next
    case dup
    then show ?thesis using inv by (simp add: prewarm_expert_def prewarm_outcome_def prewarm_accounts_def fill_inv_def')
  next
    case go
    have fail: "prewarm_outcome ?l cfg R x ks res (i, ks, res\<lparr>pr_failed_count := pr_failed_count res + 1\<rparr>, h)"
      using inv by (simp add: prewarm_outcome_def prewarm_accounts_def fill_inv_def')
    show ?thesis
      using go fail prewarm_replace_ok [OF inv go] prewarm_refresh_ok [OF inv]
      by (auto simp: prewarm_expert_def Let_def split: option.splits)
  qed
qed

interpretation mapped: expert_loop "prewarm_expert env ct q gp dp" pr_mapped_count pr_already_present_count
  pr_failed_count FileMapping "pw_layer_index q" cfg R
  for env ct q gp dp cfg R
proof unfold_locales
  fix st :: prewarm_state and x
  assume "fill_inv FileMapping (pw_layer_index q) cfg R st"
  then show "fill_inv FileMapping (pw_layer_index q) cfg R (prewarm_expert env ct q gp dp x st)"
    using prewarm_expert_ok by (cases st) (auto simp: prewarm_outcome_def)
next
  fix i ks and res :: prewarm_result and h x i' ks' res' h'
  assume "fill_inv FileMapping (pw_layer_index q) cfg R (i, ks, res, h)"
    "prewarm_expert env ct q gp dp x (i, ks, res, h) = (i', ks', res', h')"
  with prewarm_expert_ok [of q cfg R i ks res h x env ct gp dp]
  show "set ks \<subseteq> set ks' \<and>
      (pr_failed_count res' = Suc (pr_failed_count res) \<and> pr_mapped_count res' = pr_mapped_count res \<and>
         pr_already_present_count res' = pr_already_present_count res
       \<or> pr_failed_count res' = pr_failed_count res \<and>
         pr_mapped_count res' + pr_already_present_count res' =
           Suc (pr_mapped_count res + pr_already_present_count res) \<and> (pw_layer_index q, x) \<in> set ks')"
    by (simp add: prewarm_outcome_def prewarm_accounts_def)
qed

lemma prewarm_loop_foldl:
  "prewarm_loop env ct q gp dp xs st = foldl (\<lambda>st x. prewarm_expert env ct q gp dp x st) st xs"
  by (induction xs arbitrary: st) simp_all

section \<open>The views behind the cached experts\<close>

text \<open>
  Where a view comes from: its file was opened by path, a section was made of the file, and the
  view is a window of the section whose data pointer stands for the file offset the view records.
\<close>

definition view_mapped :: "wctype \<Rightarrow> host_hist \<Rightarrow> view \<Rightarrow> bool" where
  "view_mapped ct h v \<longleftrightarrow>
     (\<exists>path f m off r. (CreateFileW path, f) \<in> set h \<and> v_file v = r_num f \<and>
        v_path_key v = lowercase_path ct path \<and>
        (CreateFileMappingW (v_file v), m) \<in> set h \<and> v_mapping v = r_num m \<and>
        (MapViewOfFile (v_mapping v) off (v_view_bytes v), r) \<in> set h \<and> v_base v = r_num r \<and>
        unat off + unat (v_data v - v_base v) = unat (v_absolute_begin v) \<and>
        unat (v_data v - v_base v) + unat (v_data_bytes v) = unat (v_view_bytes v))"

text \<open>Every file-backed entry of the cache has two such views.\<close>

definition views_mapped :: "wctype \<Rightarrow> host_hist \<Rightarrow> impl \<Rightarrow> bool" where
  "views_mapped ct h i \<longleftrightarrow>
     (\<forall>e \<in> set (i_entries i). e_source_mode e = FileMapping \<longrightarrow>
        view_mapped ct h (e_gate_up e) \<and> view_mapped ct h (e_down e))"

text \<open>The entry of an expert holds the byte ranges the request names, of the files it names.\<close>

definition gate_up_begin :: "prewarm_request \<Rightarrow> u32 \<Rightarrow> u64" where
  "gate_up_begin q x = pw_gate_up_tensor_absolute_begin q + ucast x * kGateUpBytesPerExpert"

definition down_begin_of :: "prewarm_request \<Rightarrow> u32 \<Rightarrow> u64" where
  "down_begin_of q x = pw_down_tensor_absolute_begin q + ucast x * kDownBytesPerExpert"

definition holds_expert :: "wctype \<Rightarrow> prewarm_request \<Rightarrow> wide \<Rightarrow> wide \<Rightarrow> u32 \<Rightarrow> entry \<Rightarrow> bool" where
  "holds_expert ct q gp dp x e \<longleftrightarrow>
     source_matches e (lowercase_path ct gp) (gate_up_begin q x) (lowercase_path ct dp) (down_begin_of q x)"

definition backed :: "wctype \<Rightarrow> prewarm_request \<Rightarrow> wide \<Rightarrow> wide \<Rightarrow> prewarm_state \<Rightarrow> bool" where
  "backed ct q gp dp = (\<lambda>(i, ks, res, h).
     views_mapped ct h i \<and> s_gate_path_key (i_source_identity i) = lowercase_path ct gp \<and>
     s_down_path_key (i_source_identity i) = lowercase_path ct dp \<and>
     (\<forall>e \<in> set (i_entries i). entry_key e \<in> set ks \<longrightarrow> holds_expert ct q gp dp (e_expert_id e) e))"

lemma view_mapped_mono: "view_mapped ct h v \<Longrightarrow> set h \<subseteq> set h' \<Longrightarrow> view_mapped ct h' v"
  unfolding view_mapped_def by (meson subsetD)

lemma views_mapped_mono:
  assumes "views_mapped ct h i" "set (i_entries i') \<subseteq> set (i_entries i)" "set h \<subseteq> set h'"
  shows "views_mapped ct h' i'"
  using assms view_mapped_mono [OF _ assms(3)] by (auto simp: views_mapped_def)

lemma backed_mono:
  assumes "backed ct q gp dp (i, ks, res, h)" "set (i_entries i') \<subseteq> set (i_entries i)" "set h \<subseteq> set h'"
    "i_source_identity i' = i_source_identity i"
  shows "backed ct q gp dp (i', ks, res', h')"
  using assms views_mapped_mono [OF _ assms(2,3)] by (auto simp: backed_def)

text \<open>The history only grows.\<close>

lemma view_reset_grows: "set h \<subseteq> set (snd (view_reset env v h))"
  by (auto simp: view_reset_def Let_def tell_def ask_def)

lemma buffer_reset_grows: "set h \<subseteq> set (snd (buffer_reset env b h))"
  by (auto simp: buffer_reset_def Let_def tell_def ask_def release_block_def)

lemma entry_destroy_grows: "set h \<subseteq> set (entry_destroy env e h)"
  unfolding entry_destroy_def using view_reset_grows buffer_reset_grows by (meson order_trans)

lemma view_map_section_grows:
  "view_map_section env ct f m p b n w h = (ok, v, w', h') \<Longrightarrow> set h \<subseteq> set h'"
  by (auto simp: view_map_section_def Let_def tell_def ask_def split: if_splits)

lemma view_map_file_grows:
  "view_map_file env ct f p b n w h = (ok, v, w', h') \<Longrightarrow> set h \<subseteq> set h'"
  by (auto simp: view_map_file_def Let_def tell_def ask_def split: if_splits dest!: view_map_section_grows)

lemma view_map_grows:
  assumes "view_map env ct v p b n w h = (ok, v', w', h')"
  shows "set h \<subseteq> set h'"
proof -
  obtain u h1 where "view_reset env v h = (u, h1)" "set h \<subseteq> set h1" using view_reset_grows by (metis prod.collapse)
  then show ?thesis
    using assms by (fastforce simp: view_map_def Let_def ask_def split: if_splits dest!: view_map_file_grows)
qed

lemma prewarm_touch_grows:
  "prewarm_touch env v (i, ks, res, h) = (i', ks', res', h') \<Longrightarrow> set h \<subseteq> set h'"
  by (auto simp: prewarm_touch_def prefetch_and_touch_def Let_def tell_def ask_def
      split: if_splits prod.splits)

lemma evict_one_keeps:
  assumes "evict_one env ks i h = Some (i', h')"
  shows "set (i_entries i') \<subseteq> set (i_entries i)" "set h \<subseteq> set h'" "i_source_identity i' = i_source_identity i"
  using assms entry_destroy_grows
  by (auto simp: evict_one_def erase_entry_def erase_at_def dest: in_set_takeD in_set_dropD split: option.splits)

lemma make_way_keeps:
  assumes "(case find_entry l x i of None \<Rightarrow> (i, h) | Some k \<Rightarrow> erase_entry env k i h) = (i1, h1)"
    "make_room env ks n i1 h1 = (room, n', i2, h2)"
  shows "set (i_entries i2) \<subseteq> set (i_entries i) \<and> set h \<subseteq> set h2 \<and> i_source_identity i2 = i_source_identity i"
proof (rule make_room_keeps [OF assms(2)])
  show "set (i_entries i1) \<subseteq> set (i_entries i) \<and> set h \<subseteq> set h1 \<and> i_source_identity i1 = i_source_identity i"
    using assms(1) entry_destroy_grows
    by (auto simp: erase_entry_def erase_at_def dest: in_set_takeD in_set_dropD split: option.splits)
qed (use evict_one_keeps in \<open>(metis order_trans)\<close>)

lemma view_map_mapped:
  assumes "view_map env ct u path b n w h = (True, v, w', h')"
  shows "view_mapped ct h' v" "v_path_key v = lowercase_path ct path" "v_absolute_begin v = b" "v_data_bytes v = n"
proof -
  obtain u' h1 where reset: "view_reset env u h = (u', h1)" by fastforce
  let ?f = "env h1 (CreateFileW path)"
  let ?h2 = "(CreateFileW path, ?f) # h1"
  let ?h3 = "(GetFileSizeEx (r_num ?f), env ?h2 (GetFileSizeEx (r_num ?f))) # ?h2"
  let ?m = "env ?h3 (CreateFileMappingW (r_num ?f))"
  let ?h4 = "(CreateFileMappingW (r_num ?f), ?m) # ?h3"
  have sec: "view_map_section env ct (r_num ?f) (r_num ?m) path b n w ?h4 = (True, v, w', h')"
    using assms reset
    by (auto simp: view_map_def view_map_file_def Let_def ask_def split: if_splits)
  then have v: "v_file v = r_num ?f" "v_mapping v = r_num ?m" "v_path_key v = lowercase_path ct path"
    "v_absolute_begin v = b" "v_data_bytes v = n" "set ?h4 \<subseteq> set h'"
    by (auto simp: view_map_section_def Let_def ask_def tell_def split: if_splits)
  then show "v_path_key v = lowercase_path ct path" "v_absolute_begin v = b" "v_data_bytes v = n" by simp_all
  obtain off r where w: "(MapViewOfFile (r_num ?m) off (v_view_bytes v), r) \<in> set h'" "v_base v = r_num r"
    "unat off + unat (v_data v - v_base v) = unat b" "unat (v_data v - v_base v) + unat n = unat (v_view_bytes v)"
    using view_map_section_window [OF sec] by blast
  have calls: "(CreateFileW path, ?f) \<in> set h'" "(CreateFileMappingW (r_num ?f), ?m) \<in> set h'" using v(6) by simp_all
  show "view_mapped ct h' v"
    unfolding view_mapped_def v(1-5) using w calls by blast
qed

text \<open>An entry under construction whose views are the requested ones.\<close>

lemma prewarm_commit_backed:
  assumes b: "backed ct q gp dp (i, ks, res, h)"
    and new: "(pw_layer_index q, e_expert_id e) \<notin> entry_key ` set (i_entries i)"
      "e_layer_index e = pw_layer_index q" "set ks \<subseteq> entry_key ` set (i_entries i)"
    and e: "view_mapped ct h (e_gate_up e)" "view_mapped ct h (e_down e)" "holds_expert ct q gp dp (e_expert_id e) e"
  shows "backed ct q gp dp (prewarm_commit env q e (i, ks, res, h))"
proof -
  obtain i1 ks1 res1 h1 where t1: "prewarm_touch env (e_gate_up e) (i, ks, res, h) = (i1, ks1, res1, h1)"
    by (metis surj_pair)
  obtain i2 ks2 res2 h2 where t2: "prewarm_touch env (e_down e) (i1, ks1, res1, h1) = (i2, ks2, res2, h2)"
    by (metis surj_pair)
  obtain now i3 where c: "next_clock i2 = (now, i3)" by fastforce
  note T = prewarm_touch_facts(1,2) [OF t1] prewarm_touch_facts(1,2) [OF t2]
  let ?e = "e\<lparr>e_last_use := now\<rparr>" and ?p = "CxxAllocate ''entries.push_back''"
  let ?h3 = "(?p, env h2 ?p) # h2"
  have grow: "set h \<subseteq> set ?h3" using prewarm_touch_grows [OF t1] prewarm_touch_grows [OF t2] by auto
  have i3: "i_entries i3 = i_entries i" "i_source_identity i3 = i_source_identity i"
    using next_clock_wf(4,6) [OF c] T by simp_all
  have b3: "backed ct q gp dp (i3, ks, res2, ?h3)" by (rule backed_mono [OF b]) (use grow i3 in auto)
  have key: "entry_key ?e = (pw_layer_index q, e_expert_id e)" using new(2) by (simp add: entry_key_def)
  have mode: "e_source_mode ?e = FileMapping" "holds_expert ct q gp dp (e_expert_id e) ?e"
    using e(3) by (simp_all add: holds_expert_def source_matches_def)
  have vm: "view_mapped ct ?h3 (e_gate_up ?e)" "view_mapped ct ?h3 (e_down ?e)"
    using e(1,2) view_mapped_mono [OF _ grow] by simp_all
  have other: "entry_key a \<noteq> (pw_layer_index q, e_expert_id e)" if "a \<in> set (i_entries i)" for a
    using new(1) that by (metis imageI)
  have "entry_key ?e \<notin> set ks" using key new by auto
  have admit: "backed ct q gp dp (admit_entry ?e i3, ks @ [(pw_layer_index q, e_expert_id e)], r, ?h3)" for r
    using b3 mode vm other i3 key unfolding backed_def views_mapped_def
    by (auto simp: admit_entry_def Let_def)
  have oom: "backed ct q gp dp (prewarm_oom ?e env (i3, ks, res2, ?h3))"
    unfolding prewarm_oom_def prod.case by (rule backed_mono [OF b3]) (use entry_destroy_grows [of ?h3] in simp_all)
  show ?thesis
    using admit oom T by (simp add: prewarm_commit_def t1 t2 [unfolded T] c [unfolded T] ask_def Let_def)
qed

lemma prewarm_map_failed_backed:
  assumes "backed ct q gp dp (i, ks, res, h)"
  shows "backed ct q gp dp (prewarm_map_failed env e w msg (i, ks, res, h))"
  unfolding prewarm_map_failed_def prod.case by (rule backed_mono [OF assms]) (use entry_destroy_grows in auto)

lemma prewarm_fill_backed:
  assumes b: "backed ct q gp dp (i, ks, res, h)"
    and new: "(pw_layer_index q, x) \<notin> entry_key ` set (i_entries i)" "set ks \<subseteq> entry_key ` set (i_entries i)"
  shows "backed ct q gp dp (prewarm_fill env ct q gp dp (gate_up_begin q x) (down_begin_of q x) x (i, ks, res, h))"
proof -
  let ?l = "pw_layer_index q" and ?c = "CxxAllocate ''make_unique CacheEntry''"
  let ?h1 = "(?c, env h ?c) # h"
  let ?e = "new_entry\<lparr>e_model_generation := i_model_generation i, e_layer_index := ?l, e_expert_id := x, e_source_mode := FileMapping\<rparr>"
  obtain ok v w h2 where m: "view_map env ct (e_gate_up ?e) gp (gate_up_begin q x) kGateUpBytesPerExpert 0 ?h1 = (ok, v, w, h2)"
    by (metis surj_pair)
  let ?e2 = "?e\<lparr>e_gate_up := v\<rparr>"
  obtain ok' v' w' h3 where m': "view_map env ct (e_down ?e2) dp (down_begin_of q x) kDownBytesPerExpert w h2 = (ok', v', w', h3)"
    by (metis surj_pair)
  let ?e3 = "?e2\<lparr>e_down := v'\<rparr>"
  have b1: "backed ct q gp dp (prewarm_oom new_entry env (i, ks, res, ?h1))"
    unfolding prewarm_oom_def prod.case
    by (rule backed_mono [OF b]) (use entry_destroy_grows [of ?h1] in auto)
  have b2: "backed ct q gp dp (i, ks, res, h2)"
    by (rule backed_mono [OF b]) (use view_map_grows [OF m] in auto)
  have b3: "backed ct q gp dp (i, ks, res, h3)"
    by (rule backed_mono [OF b2]) (use view_map_grows [OF m'] in auto)
  have both: "backed ct q gp dp (prewarm_commit env q ?e3 (i, ks, res, h3))" if "ok" "ok'"
  proof (rule prewarm_commit_backed [OF b3])
    have t: "ok = True" "ok' = True" using that by simp_all
    note G = view_map_mapped [OF m [unfolded t]] and D = view_map_mapped [OF m' [unfolded t]]
    show "view_mapped ct h3 (e_gate_up ?e3)" using view_mapped_mono [OF G(1) view_map_grows [OF m']] by simp
    show "view_mapped ct h3 (e_down ?e3)" using D(1) by simp
    show "holds_expert ct q gp dp (e_expert_id ?e3) ?e3"
      using G(2-4) D(2-4) by (simp add: holds_expert_def source_matches_def)
  qed (use new in simp_all)
  show ?thesis
    using b1 both prewarm_map_failed_backed [OF b2] prewarm_map_failed_backed [OF b3] m m'
    by (simp add: prewarm_fill_def prewarm_map_down_def Let_def ask_def)
qed

lemma prewarm_replace_backed:
  assumes inv: "fill_inv FileMapping (pw_layer_index q) cfg R (i, ks, res, h)" and b: "backed ct q gp dp (i, ks, res, h)"
    and unprot: "(pw_layer_index q, x) \<notin> set ks"
  shows "backed ct q gp dp (prewarm_replace env ct q gp dp (gate_up_begin q x) (down_begin_of q x) x (i, ks, res, h))"
proof -
  let ?l = "pw_layer_index q"
  obtain i1 h1 where er: "(case find_entry ?l x i of None \<Rightarrow> (i, h) | Some k \<Rightarrow> erase_entry env k i h) = (i1, h1)"
    by fastforce
  obtain room n i2 h2 where mr: "make_room env ks (pr_eviction_count res) i1 h1 = (room, n, i2, h2)"
    by (metis surj_pair)
  note W = make_way_ok [OF inv unprot er mr]
  have b2: "backed ct q gp dp (i2, ks, res', h2)" for res'
    using make_way_keeps [OF er mr] by (intro backed_mono [OF b]) auto
  have "set ks \<subseteq> entry_key ` set (i_entries i2)" using W(1) by (simp add: fill_inv_def')
  from prewarm_fill_backed [OF b2 W(2) this] b2 W(4) er mr show ?thesis
    by (simp add: prewarm_replace_def Let_def)
qed

lemma prewarm_refresh_backed:
  assumes inv: "fill_inv FileMapping (pw_layer_index q) cfg R (i, ks, res, h)" and b: "backed ct q gp dp (i, ks, res, h)"
    and k: "find_entry (pw_layer_index q) x i = Some k" and e: "holds_expert ct q gp dp x (i_entries i ! k)"
  shows "backed ct q gp dp (prewarm_refresh env q k x (i, ks, res, h))"
proof -
  let ?e = "i_entries i ! k"
  obtain i1 ks1 res1 h1 where t1: "prewarm_touch env (e_gate_up ?e) (i, ks, res, h) = (i1, ks1, res1, h1)"
    by (metis surj_pair)
  obtain i2 ks2 res2 h2 where t2: "prewarm_touch env (e_down ?e) (i1, ks1, res1, h1) = (i2, ks2, res2, h2)"
    by (metis surj_pair)
  obtain now i3 where c: "next_clock i2 = (now, i3)" by fastforce
  note T = prewarm_touch_facts(1,2) [OF t1] prewarm_touch_facts(1,2) [OF t2]
  let ?e' = "?e\<lparr>e_last_use := now\<rparr>"
  have i3: "i_entries i3 = i_entries i" "i_source_identity i3 = i_source_identity i"
    using next_clock_wf(4,6) [OF c] T by simp_all
  note K = find_entry_Some [OF k]
  have wf: "cache_wf i" using inv by (simp add: fill_inv_def')
  have b2: "backed ct q gp dp (i, ks, res2, h2)"
    by (rule backed_mono [OF b]) (use prewarm_touch_grows [OF t1] prewarm_touch_grows [OF t2] in auto)
  have only: "a = ?e" if "a \<in> set (i_entries i)" "entry_key a = (pw_layer_index q, x)" for a
    using that k find_entry_unique [OF wf] by (metis in_set_conv_nth option.inject)
  have keys: "entry_key ?e' = (pw_layer_index q, x)" "e_expert_id ?e' = x"
    using K(2) by (simp_all add: entry_key_def)
  have e': "holds_expert ct q gp dp x ?e'" "e_source_mode ?e' = e_source_mode ?e"
    using e by (simp_all add: holds_expert_def source_matches_def)
  have upd: "a = ?e' \<or> a \<in> set (i_entries i)" if "a \<in> set ((i_entries i)[k := ?e'])" for a
    using that set_update_subset_insert by fastforce
  have "backed ct q gp dp (i3\<lparr>i_entries := (i_entries i)[k := ?e']\<rparr>, ks @ [(pw_layer_index q, x)], r, h2)" for r
  proof -
    have "views_mapped ct h2 i" using b2 by (simp add: backed_def)
    then have "views_mapped ct h2 (i3\<lparr>i_entries := (i_entries i)[k := ?e']\<rparr>)"
      using upd nth_mem [OF K(1)] unfolding views_mapped_def by (auto dest!: upd)
    moreover have "holds_expert ct q gp dp (e_expert_id a) a"
      if "a \<in> set ((i_entries i)[k := ?e'])" "entry_key a \<in> set (ks @ [(pw_layer_index q, x)])" for a
    proof (cases "a = ?e'")
      case True then show ?thesis using e'(1) keys(2) by simp
    next
      case False
      then have a: "a \<in> set (i_entries i)" using upd [OF that(1)] by simp
      show ?thesis
      proof (cases "entry_key a = (pw_layer_index q, x)")
        case True
        then show ?thesis using only [OF a True] e by (simp add: entry_key_def)
      next
        case False
        then show ?thesis using that(2) a b2 by (auto simp: backed_def)
      qed
    qed
    ultimately show ?thesis using b2 i3 by (simp add: backed_def)
  qed
  then show ?thesis
    using T by (simp add: prewarm_refresh_def t1 t2 [unfolded T] c [unfolded T] Let_def i3)
qed

lemma prewarm_expert_backed:
  assumes inv: "fill_inv FileMapping (pw_layer_index q) cfg R st" and b: "backed ct q gp dp st"
  shows "backed ct q gp dp (prewarm_expert env ct q gp dp x st)"
proof -
  obtain i ks res h where st: "st = (i, ks, res, h)" by (metis surj_pair)
  note I = inv [unfolded st] and B = b [unfolded st]
  have keys: "s_gate_path_key (i_source_identity i) = lowercase_path ct gp" "s_down_path_key (i_source_identity i) = lowercase_path ct dp"
    using B by (simp_all add: backed_def)
  have fail: "backed ct q gp dp (i, ks, r, h)" for r using B by (simp add: backed_def)
  show ?thesis
    using fail prewarm_replace_backed [OF I B] prewarm_refresh_backed [OF I B] unfolding st
    by (auto simp: prewarm_expert_def Let_def keys holds_expert_def gate_up_begin_def down_begin_of_def
        split: option.splits)
qed

lemma prewarm_loop_backed:
  assumes "fill_inv FileMapping (pw_layer_index q) cfg R st" "backed ct q gp dp st"
  shows "backed ct q gp dp (prewarm_loop env ct q gp dp xs st)"
  using assms
proof (induction xs arbitrary: st)
  case (Cons x xs)
  show ?case
    unfolding prewarm_loop.simps
    by (rule Cons.IH [OF mapped.step_inv [OF Cons.prems(1)] prewarm_expert_backed [OF Cons.prems]])
qed simp

section \<open>A whole call\<close>

text \<open>
  What holds between two calls on a provider: the cache is well formed, nothing is pinned, and the
  resources acquired so far and not given back are exactly those of the cached entries.
\<close>

definition provider_inv :: "host_hist \<Rightarrow> impl \<Rightarrow> bool" where
  "provider_inv h i \<longleftrightarrow> cache_wf i \<and> unpinned i \<and> owns h (impl_resources i)"

lemma utf8_to_wide_owns: "utf8_to_wide env t h = (r, h') \<Longrightarrow> owns h' R \<longleftrightarrow> owns h R"
  by (auto simp: utf8_to_wide_def ask_def Let_def split: option.splits if_splits)

lemma full_path_owns: "full_path env p h = (r, h') \<Longrightarrow> owns h' R \<longleftrightarrow> owns h R"
  by (auto simp: full_path_def ask_def Let_def split: if_splits)

lemma resolve_model_and_shard_owns:
  "resolve_model_and_shard env ct a b h = (r, h') \<Longrightarrow> owns h' R \<longleftrightarrow> owns h R"
  by (auto simp: resolve_model_and_shard_def Let_def split: option.splits prod.splits if_splits
      dest!: utf8_to_wide_owns full_path_owns)

lemma prewarm_refused_ok:
  assumes "prewarm_refused env start n w i res h = (st, res', i', h')"
  shows "provider_inv h' i' \<longleftrightarrow> provider_inv h i" "st = STATUS_ERROR" "pr_failed_count res' = n"
    "pr_requested_count res' = pr_requested_count res" "pr_mapped_count res' = pr_mapped_count res"
    "pr_already_present_count res' = pr_already_present_count res"
  using assms
  by (auto simp: prewarm_refused_def Let_def provider_inv_def cache_wf_def entry_current_def unpinned_def
      impl_resources_def dest: elapsed_since_owns split: prod.splits)

lemma prewarm_finish_ok:
  assumes "prewarm_finish env start (i, ks, res, h) = (st, res', i', h')"
  shows "provider_inv h' i' \<longleftrightarrow> provider_inv h i" "st = STATUS_SUCCESS \<longleftrightarrow> pr_failed_count res = 0"
    "pr_failed_count res' = pr_failed_count res"
    "pr_requested_count res' = pr_requested_count res" "pr_mapped_count res' = pr_mapped_count res"
    "pr_already_present_count res' = pr_already_present_count res"
    "i_entries i' = i_entries i" "i_model_generation i' = i_model_generation i"
    "pr_cache_entry_count res' = length (i_entries i')" "pr_cache_bytes res' = i_cache_bytes i'"
  using assms
  by (auto simp: prewarm_finish_def Let_def provider_inv_def cache_wf_def entry_current_def unpinned_def set_error_def
      impl_resources_def dest: elapsed_since_owns split: prod.splits if_splits)

text \<open>The loop of a call, from an adopted source on.\<close>

lemma prewarm_loop_ok:
  assumes inv: "provider_inv h i" and src: "s_mode (i_source_identity i) = FileMapping"
      "s_layer_index (i_source_identity i) = pw_layer_index q"
    and zero: "pr_mapped_count res = 0" "pr_already_present_count res = 0" "pr_failed_count res = 0"
    and run: "prewarm_loop env ct q gp dp ids (i, [], res, h) = (i', ks', res', h')"
  shows "provider_inv h' i'"
    "pr_mapped_count res' + pr_already_present_count res' + pr_failed_count res' = length ids"
    "pr_failed_count res' = 0 \<Longrightarrow> x \<in> set ids \<Longrightarrow> find_entry (pw_layer_index q) x i' \<noteq> None"
proof -
  have fill: "fill_inv FileMapping (pw_layer_index q) (i_config i) {#} (i, [], res, h)"
    using inv src by (simp add: fill_inv_def' provider_inv_def)
  note run' = run [unfolded prewarm_loop_foldl]
  have "fill_inv FileMapping (pw_layer_index q) (i_config i) {#} (i', ks', res', h')"
    using mapped.loop_inv [OF fill] run' by metis
  then show "provider_inv h' i'" by (simp add: fill_inv_def' provider_inv_def)
  show "pr_mapped_count res' + pr_already_present_count res' + pr_failed_count res' = length ids"
    using mapped.loop_account(1) [OF fill run'] zero by simp
  show "find_entry (pw_layer_index q) x i' \<noteq> None" if "pr_failed_count res' = 0" "x \<in> set ids"
    using mapped.loop_serves [OF fill run' _ that(2)] that(1) zero by simp
qed

lemma find_entry_cong:
  assumes "i_entries j = i_entries i" "i_model_generation j = i_model_generation i"
  shows "find_entry l x j = find_entry l x i"
proof -
  have "entry_hit j l x = entry_hit i l x" by (rule ext) (simp add: entry_hit_def assms)
  then show ?thesis by (simp add: find_entry_def assms)
qed

text \<open>The outcome of the body under the locks.\<close>

definition prewarm_report :: "prewarm_request \<Rightarrow> u32 list \<Rightarrow> host_status \<Rightarrow> prewarm_result \<Rightarrow> impl \<Rightarrow> bool" where
  "prewarm_report q ids st res i \<longleftrightarrow>
     (pr_mapped_count res + pr_already_present_count res + pr_failed_count res = length ids \<or>
      pr_mapped_count res + pr_already_present_count res + pr_failed_count res = 0 \<and>
      pr_error_code res = ERROR_OUT_OF_MEMORY \<and> st = STATUS_ERROR) \<and>
     (st = STATUS_SUCCESS \<longrightarrow> pr_failed_count res = 0 \<and>
        (\<forall>x \<in> set ids. find_entry (pw_layer_index q) x i \<noteq> None))"

lemma prewarm_filled_ok:
  assumes inv: "provider_inv h i" and ad: "adopt_source env (prewarm_source ct q mk gp dp) i h = Some (i1, h1)"
    and res: "pr_mapped_count res = 0" "pr_already_present_count res = 0" "pr_failed_count res = 0"
    and run: "prewarm_finish env start (prewarm_loop env ct q gp dp ids (clear_error i1, [], res, (c, r) # h1)) = (st, res', i', h')"
    and c: "c = CxxAllocate t"
  shows "provider_inv h' i' \<and> prewarm_report q ids st res' i'"
proof -
  have own: "owns h (impl_resources i + {#})" "cache_wf i" using inv by (simp_all add: provider_inv_def)
  note A = adopt_source_wf [OF own(2,1) ad]
  have inv1: "provider_inv ((c, r) # h1) (clear_error i1)"
    using A inv c by (simp add: provider_inv_def)
  obtain i2 ks2 res2 h2 where lp: "prewarm_loop env ct q gp dp ids (clear_error i1, [], res, (c, r) # h1) = (i2, ks2, res2, h2)"
    by (metis surj_pair)
  have src: "s_mode (i_source_identity (clear_error i1)) = FileMapping"
    "s_layer_index (i_source_identity (clear_error i1)) = pw_layer_index q"
    using A(4) by (simp_all add: prewarm_source_def new_identity_def)
  note L = prewarm_loop_ok [OF inv1 src res lp]
  note F = prewarm_finish_ok [OF run [unfolded lp]]
  have "find_entry l x i' = find_entry l x i2" for l x
    using F(7,8) by (rule find_entry_cong)
  then show ?thesis
    using L F by (auto simp: prewarm_report_def)
qed

lemma prewarm_locked_ok:
  assumes inv: "provider_inv h i" and run: "prewarm_locked env ct q ids start i h = (st, res', i', h')"
  shows "provider_inv h' i' \<and> prewarm_report q ids st res' i'"
proof -
  define i0 where "i0 = i\<lparr>i_prewarm := (i_prewarm i)\<lparr>prewarm_call_count := prewarm_call_count (i_prewarm i) + 1,
      prewarm_requested_entry_count := prewarm_requested_entry_count (i_prewarm i) + of_nat (length ids)\<rparr>\<rparr>"
  define res where "res = new_prewarm_result\<lparr>pr_requested_count := length ids\<rparr>"
  have res0: "pr_mapped_count res = 0" "pr_already_present_count res = 0" "pr_failed_count res = 0"
    by (simp_all add: res_def new_prewarm_result_def)
  have i0: "provider_inv g i0 \<longleftrightarrow> provider_inv g i" for g
    by (simp add: provider_inv_def i0_def cache_wf_def entry_current_def unpinned_def impl_resources_def)
  obtain gate h1 where g: "resolve_model_and_shard env ct (pw_model_dir_utf8 q) (pw_gate_up_shard_utf8 q) h = (gate, h1)"
    by fastforce
  obtain down h2 where d: "(if gate = None then (None, h1)
      else resolve_model_and_shard env ct (pw_model_dir_utf8 q) (pw_down_shard_utf8 q) h1) = (down, h2)"
    by fastforce
  have "owns h2 Q \<longleftrightarrow> owns h Q" for Q
    using resolve_model_and_shard_owns [OF g] resolve_model_and_shard_owns d by (auto split: if_splits)
  then have inv2: "provider_inv h2 i0" "owns h2 (impl_resources i0)" using inv i0 by (auto simp: provider_inv_def)
  have refuse: "provider_inv h' i' \<and> prewarm_report q ids st res' i'"
    if "prewarm_refused env start (length ids) w j res k = (st, res', i', h')" "provider_inv k j" for w j k
    using prewarm_refused_ok [OF that(1)] that(2) res0 by (simp add: prewarm_report_def)
  have path: "provider_inv ((GetLastError, r) # h2) (set_error c w m i0)" for r c w m
    using inv2 by (simp add: provider_inv_def)
  have busy: "provider_inv h2 (set_error c w m i0)" for c w m
    using inv2 by (simp add: provider_inv_def)
  consider (ok) mk gp dp where "gate = Some (mk, gp)" "down = Some (mk, dp)"
    | (differ) mk gp mk' dp where "gate = Some (mk, gp)" "down = Some (mk', dp)" "mk \<noteq> mk'"
    | (none) "gate = None \<or> down = None"
    by (cases gate; cases down) (auto, blast)
  then show ?thesis
  proof cases
    case differ
    then show ?thesis
      using run g d path by (intro refuse) (auto simp: prewarm_locked_def Let_def i0_def res_def ask_def)
  next
    case none
    then show ?thesis
      using run g d path
      by (intro refuse) (auto simp: prewarm_locked_def Let_def i0_def res_def ask_def split: option.splits)
  next
    case ok
    show ?thesis
    proof (cases "adopt_source env (prewarm_source ct q mk gp dp) i0 h2")
      case None
      then show ?thesis
        using run g d ok busy by (intro refuse) (auto simp: prewarm_locked_def Let_def i0_def res_def)
    next
      case (Some p)
      then obtain i1 h3 where ad: "adopt_source env (prewarm_source ct q mk gp dp) i0 h2 = Some (i1, h3)" by (cases p) auto
      let ?c = "CxxAllocate ''protected_keys.reserve''"
      let ?h4 = "(?c, env h3 ?c) # h3"
      have own: "owns h2 (impl_resources i0 + {#})" "cache_wf i0" using inv2 by (simp_all add: provider_inv_def)
      note A = adopt_source_wf [OF own(2,1) ad]
      show ?thesis
      proof (cases "r_throws (env h3 ?c)")
        case True
        obtain el h5 where e: "elapsed_since env start ?h4 = (el, h5)" by fastforce
        then have "owns h5 Q \<longleftrightarrow> owns h3 Q" for Q by (simp add: elapsed_since_owns)
        moreover have "st = STATUS_ERROR" "i' = clear_error i1" "h' = h5"
          "res' = res\<lparr>pr_status := STATUS_ERROR, pr_error_code := ERROR_OUT_OF_MEMORY, pr_win32_error := 0, pr_elapsed_ns := el\<rparr>"
          using run g d ok ad True e by (auto simp: prewarm_locked_def Let_def i0_def res_def ask_def)
        ultimately show ?thesis
          using A inv2 res0 by (simp add: prewarm_report_def provider_inv_def)
      next
        case False
        then have "prewarm_finish env start (prewarm_loop env ct q gp dp ids (clear_error i1, [], res, ?h4)) = (st, res', i', h')"
          using run g d ok ad by (auto simp: prewarm_locked_def Let_def i0_def res_def ask_def)
        from prewarm_filled_ok [OF inv2(1) ad res0 this refl] show ?thesis .
      qed
    qed
  qed
qed

lemma utf8_to_wide_grows: "utf8_to_wide env t h = (r, h') \<Longrightarrow> set h \<subseteq> set h'"
  by (auto simp: utf8_to_wide_def ask_def Let_def split: option.splits if_splits)

lemma full_path_grows: "full_path env p h = (r, h') \<Longrightarrow> set h \<subseteq> set h'"
  by (auto simp: full_path_def ask_def Let_def split: if_splits)

lemma resolve_model_and_shard_grows:
  assumes "resolve_model_and_shard env ct a b h = (r, h')"
  shows "set h \<subseteq> set h'"
  using assms unfolding resolve_model_and_shard_def Let_def
  by (auto split: option.splits prod.splits if_splits dest!: utf8_to_wide_grows full_path_grows)

lemma adopt_source_grows:
  assumes "adopt_source env req i h = Some (i', h')"
  shows "set (i_entries i') \<subseteq> set (i_entries i)" "set h \<subseteq> set h'"
proof -
  have "set g \<subseteq> set (foldl (\<lambda>h e. entry_destroy env e h) g es)" for g es
    by (induction es arbitrary: g) (auto dest: subsetD [OF entry_destroy_grows])
  then show "set (i_entries i') \<subseteq> set (i_entries i)" "set h \<subseteq> set h'"
    using assms by (auto simp: adopt_source_def clear_entries_def bump_model_generation_def Let_def split: if_splits)
qed

lemma elapsed_since_grows: "elapsed_since env t h = (e, h') \<Longrightarrow> set h \<subseteq> set h'"
  by (auto simp: elapsed_since_def ask_def Let_def)

text \<open>A refused call leaves the entries as they are.\<close>

lemma prewarm_refused_views:
  assumes "prewarm_refused env start n w i res h = (st, res', i', h')" "views_mapped ct h i"
  shows "views_mapped ct h' i'"
  using assms by (auto simp: prewarm_refused_def Let_def split: prod.splits
      intro: views_mapped_mono dest!: elapsed_since_grows)

lemma prewarm_finish_keeps:
  assumes "prewarm_finish env start (i, ks, res, h) = (st, res', i', h')"
  shows "set h \<subseteq> set h'" "i_entries i' = i_entries i" "i_source_identity i' = i_source_identity i"
  using assms
  by (auto simp: prewarm_finish_def Let_def set_error_def split: prod.splits if_splits dest: elapsed_since_grows)

text \<open>The two files of a request, as its paths resolve.\<close>

definition request_files :: "host_env \<Rightarrow> wctype \<Rightarrow> prewarm_request \<Rightarrow> wide \<Rightarrow> wide \<Rightarrow> wide \<Rightarrow> bool" where
  "request_files env ct q model_key gate_path down_path \<longleftrightarrow>
     (\<exists>h h1 h2. resolve_model_and_shard env ct (pw_model_dir_utf8 q) (pw_gate_up_shard_utf8 q) h = (Some (model_key, gate_path), h1) \<and>
        resolve_model_and_shard env ct (pw_model_dir_utf8 q) (pw_down_shard_utf8 q) h1 = (Some (model_key, down_path), h2))"

text \<open>What the fill of a call leaves behind.\<close>

lemma prewarm_filled_backed:
  assumes inv: "provider_inv h i" and vm: "views_mapped ct h i"
    and ad: "adopt_source env (prewarm_source ct q mk gp dp) i h = Some (i1, h1)"
    and res: "pr_mapped_count res = 0" "pr_already_present_count res = 0" "pr_failed_count res = 0"
    and run: "prewarm_finish env start (prewarm_loop env ct q gp dp ids (clear_error i1, [], res, (CxxAllocate t, r) # h1)) = (st, res', i', h')"
  shows "views_mapped ct h' i'"
    and "st = STATUS_SUCCESS \<Longrightarrow> x \<in> set ids \<Longrightarrow>
      \<exists>k. find_entry (pw_layer_index q) x i' = Some k \<and> holds_expert ct q gp dp x (i_entries i' ! k)"
proof -
  let ?g = "(CxxAllocate t, r) # h1" and ?l = "pw_layer_index q"
  have own: "owns h (impl_resources i + {#})" "cache_wf i" using inv by (simp_all add: provider_inv_def)
  note A = adopt_source_wf [OF own(2,1) ad]
  have inv1: "provider_inv ?g (clear_error i1)" using A inv by (simp add: provider_inv_def)
  have src: "i_source_identity i1 = prewarm_source ct q mk gp dp" using A(4) .
  have fill: "fill_inv FileMapping ?l (i_config i1) {#} (clear_error i1, [], res, ?g)"
    using inv1 src by (simp add: fill_inv_def' provider_inv_def prewarm_source_def new_identity_def)
  have b: "backed ct q gp dp (clear_error i1, [], res, ?g)"
    using views_mapped_mono [OF vm, of "clear_error i1" ?g] adopt_source_grows [OF ad] src
    by (auto simp: backed_def prewarm_source_def new_identity_def)
  obtain i2 ks2 res2 h2 where lp: "prewarm_loop env ct q gp dp ids (clear_error i1, [], res, ?g) = (i2, ks2, res2, h2)"
    by (metis surj_pair)
  note F = prewarm_finish_keeps [OF run [unfolded lp]] prewarm_finish_ok(2,8) [OF run [unfolded lp]]
  have B: "backed ct q gp dp (i2, ks2, res2, h2)" using prewarm_loop_backed [OF fill b, of env ids] lp by simp
  then show "views_mapped ct h' i'" using views_mapped_mono [of ct h2 i2 i' h'] F(1,2) by (simp add: backed_def)
  assume ok: "st = STATUS_SUCCESS" and x: "x \<in> set ids"
  note lp' = lp [unfolded prewarm_loop_foldl]
  have "pr_failed_count res2 = pr_failed_count res" using F(4) ok res(3) by simp
  note K = mapped.loop_account(4) [OF fill lp' this x] mapped.loop_serves [OF fill lp' this x]
  have same: "find_entry ?l x i' = find_entry ?l x i2" using F(2,5) by (rule find_entry_cong)
  obtain k where k: "find_entry ?l x i2 = Some k" using K(2) by blast
  note E = find_entry_Some [OF k]
  have "holds_expert ct q gp dp (e_expert_id (i_entries i2 ! k)) (i_entries i2 ! k)"
    using B K(1) E nth_mem [OF E(1)] by (auto simp: backed_def)
  then show "\<exists>k. find_entry ?l x i' = Some k \<and> holds_expert ct q gp dp x (i_entries i' ! k)"
    using k same F(2) E(2) by (simp add: entry_key_def)
qed

text \<open>The body under the locks, whichever way it ends.\<close>

lemma prewarm_locked_backed:
  assumes inv: "provider_inv h i" and vm: "views_mapped ct h i"
    and run: "prewarm_locked env ct q ids start i h = (st, res', i', h')"
  shows "views_mapped ct h' i' \<and> (st = STATUS_SUCCESS \<longrightarrow> (\<exists>mk gp dp. request_files env ct q mk gp dp \<and>
    (\<forall>x \<in> set ids. \<exists>k. find_entry (pw_layer_index q) x i' = Some k \<and> holds_expert ct q gp dp x (i_entries i' ! k))))"
proof -
  define i0 where "i0 = i\<lparr>i_prewarm := (i_prewarm i)\<lparr>prewarm_call_count := prewarm_call_count (i_prewarm i) + 1,
      prewarm_requested_entry_count := prewarm_requested_entry_count (i_prewarm i) + of_nat (length ids)\<rparr>\<rparr>"
  define res where "res = new_prewarm_result\<lparr>pr_requested_count := length ids\<rparr>"
  have res0: "pr_mapped_count res = 0" "pr_already_present_count res = 0" "pr_failed_count res = 0"
    by (simp_all add: res_def new_prewarm_result_def)
  obtain gate h1 where g: "resolve_model_and_shard env ct (pw_model_dir_utf8 q) (pw_gate_up_shard_utf8 q) h = (gate, h1)"
    by fastforce
  obtain down h2 where d: "(if gate = None then (None, h1)
      else resolve_model_and_shard env ct (pw_model_dir_utf8 q) (pw_down_shard_utf8 q) h1) = (down, h2)"
    by fastforce
  have "set h \<subseteq> set h2"
    using resolve_model_and_shard_grows [OF g] resolve_model_and_shard_grows d by (fastforce split: if_splits)
  then have vm2: "views_mapped ct k j" if "i_entries j = i_entries i" "set h2 \<subseteq> set k" for j k
    using views_mapped_mono [OF vm, of j k] that by auto
  have "owns h2 Q \<longleftrightarrow> owns h Q" for Q
    using resolve_model_and_shard_owns [OF g] resolve_model_and_shard_owns d by (auto split: if_splits)
  then have inv2: "provider_inv h2 i0"
    using inv by (simp add: provider_inv_def i0_def cache_wf_def entry_current_def unpinned_def impl_resources_def)
  have refuse: ?thesis if "prewarm_refused env start (length ids) w (set_error c e m i0) res k = (st, res', i', h')"
      "set h2 \<subseteq> set k" for w c e m k
    using prewarm_refused_views [OF that(1) vm2] prewarm_refused_ok(2) [OF that(1)] that(2) by (simp add: i0_def)
  consider (ok) mk gp dp i1 h3 where "gate = Some (mk, gp)" "down = Some (mk, dp)"
      "adopt_source env (prewarm_source ct q mk gp dp) i0 h2 = Some (i1, h3)"
    | (busy) mk gp dp where "gate = Some (mk, gp)" "down = Some (mk, dp)"
      "adopt_source env (prewarm_source ct q mk gp dp) i0 h2 = None"
    | (differ) mk gp mk' dp where "gate = Some (mk, gp)" "down = Some (mk', dp)" "mk \<noteq> mk'"
    | (none) "gate = None \<or> down = None"
    by (cases gate; cases down) (auto, metis option.exhaust surj_pair)
  then show ?thesis
  proof cases
    case differ
    then show ?thesis
      using run g d by (intro refuse) (auto simp: prewarm_locked_def Let_def i0_def res_def ask_def)
  next
    case none
    then show ?thesis
      using run g d
      by (intro refuse) (auto simp: prewarm_locked_def Let_def i0_def res_def ask_def split: option.splits)
  next
    case busy
    then show ?thesis
      using run g d by (intro refuse) (auto simp: prewarm_locked_def Let_def i0_def res_def)
  next
    case ok
    let ?c = "CxxAllocate ''protected_keys.reserve''"
    let ?h4 = "(?c, env h3 ?c) # h3"
    have vm0: "views_mapped ct h2 i0" by (rule vm2) (simp_all add: i0_def)
    have files: "request_files env ct q mk gp dp" using g d ok by (auto simp: request_files_def)
    show ?thesis
    proof (cases "r_throws (env h3 ?c)")
      case True
      obtain el h5 where e: "elapsed_since env start ?h4 = (el, h5)" by fastforce
      then have "st = STATUS_ERROR" "i' = clear_error i1" "h' = h5"
        using run g d ok True by (auto simp: prewarm_locked_def Let_def i0_def res_def ask_def)
      then show ?thesis
        using views_mapped_mono [OF vm0, of "clear_error i1" h5] adopt_source_grows [OF ok(3)] elapsed_since_grows [OF e]
        by auto
    next
      case False
      then have "prewarm_finish env start (prewarm_loop env ct q gp dp ids (clear_error i1, [], res, ?h4)) = (st, res', i', h')"
        using run g d ok by (auto simp: prewarm_locked_def Let_def i0_def res_def ask_def)
      from prewarm_filled_backed [OF inv2 vm0 ok(3) res0 this] files show ?thesis by blast
    qed
  qed
qed

section \<open>A concrete host\<close>

text \<open>
  A machine on which every call succeeds: handles and addresses are derived from the length of
  the history, files are large and the clock counts calls.
\<close>

definition plain_reply :: reply where
  "plain_reply = \<lparr>r_ok = True, r_num = 0, r_int = 0, r_text = [], r_eax = 0, r_ebx = 0, r_ecx = 0, r_throws = False\<rparr>"

definition example_host :: host_env where
  "example_host h c =
     (let fresh = of_nat (length h + 1) * 65536
      in case c of
           Cpuid leaf sub \<Rightarrow> plain_reply\<lparr>r_eax := 0x3f, r_ebx := - 1, r_ecx := - 1\<rparr>
         | Xgetbv _ \<Rightarrow> plain_reply\<lparr>r_num := 0xe6\<rparr>
         | MultiByteToWideChar t \<Rightarrow> plain_reply\<lparr>r_int := int (length t) + 1\<rparr>
         | MultiByteToWideCharInto t n \<Rightarrow> plain_reply\<lparr>r_int := int n, r_text := map of_char t\<rparr>
         | GetFullPathNameW p \<Rightarrow> plain_reply\<lparr>r_num := of_nat (length p + 1)\<rparr>
         | GetFullPathNameWInto p n \<Rightarrow> plain_reply\<lparr>r_num := of_nat (length p), r_text := p\<rparr>
         | CreateFileW _ \<Rightarrow> plain_reply\<lparr>r_num := fresh\<rparr>
         | GetFileSizeEx _ \<Rightarrow> plain_reply\<lparr>r_int := 2 ^ 40\<rparr>
         | CreateFileMappingW _ \<Rightarrow> plain_reply\<lparr>r_num := fresh\<rparr>
         | GetSystemInfo \<Rightarrow> plain_reply\<lparr>r_num := 65536\<rparr>
         | MapViewOfFile _ _ _ \<Rightarrow> plain_reply\<lparr>r_num := fresh\<rparr>
         | ClockNow \<Rightarrow> plain_reply\<lparr>r_num := of_nat (length h)\<rparr>
         | AlignedMalloc _ _ \<Rightarrow> plain_reply\<lparr>r_num := fresh\<rparr>
         | HostAllocate _ _ _ _ \<Rightarrow> plain_reply\<lparr>r_num := fresh\<rparr>
         | _ \<Rightarrow> plain_reply)"

definition ascii_ctype :: wctype where
  "ascii_ctype = \<lparr>iswalpha = (\<lambda>c. 0x41 \<le> c \<and> c \<le> 0x5a \<or> 0x61 \<le> c \<and> c \<le> 0x7a),
     towlower = (\<lambda>c. if 0x41 \<le> c \<and> c \<le> 0x5a then c + 0x20 else c)\<rparr>"

definition example_config :: host_config where
  "example_config = \<lparr>cfg_struct_size = 32, cfg_abi_version = 4, cfg_worker_count = 16,
     cfg_cache_entry_capacity = 2, cfg_cache_byte_capacity = 13000000,
     cfg_prefetch_virtual_memory = 0, cfg_touch_mapped_pages = 1\<rparr>"

definition example_request :: prewarm_request where
  "example_request = \<lparr>pw_struct_size = 80, pw_layer_index = 3, pw_model_dir_utf8 = Some ''m'',
     pw_gate_up_shard_utf8 = Some ''g'', pw_down_shard_utf8 = Some ''d'',
     pw_gate_up_tensor_absolute_begin = 100, pw_down_tensor_absolute_begin = 200,
     pw_gate_up_bytes_per_expert = 4194304, pw_down_bytes_per_expert = 2097152,
     pw_expert_ids_by_priority = Some [7,9,7]\<rparr>"

definition example_prewarm ::
  "host_status \<times> prewarm_result option \<times> impl option \<times> host_hist" where
  "example_prewarm = prewarm example_host ascii_ctype (Some (new_impl example_config))
     (Some example_request) (Some 88) []"


lemma unat_max_u64: "unat (- 1 :: u64) = 18446744073709551615"
  by (simp add: unsigned_minus_1_eq_mask mask_eq_exp_minus_1)

text \<open>The definitions an evaluation of a call unfolds.\<close>

lemmas prewarm_eval =
  prewarm_def example_request_def example_config_def new_impl_def prewarm_request_valid_def
  struct_size_valid_def sizeof_prewarm_result_def sizeof_prewarm_request_def host_constants
  prewarm_locked_def resolve_model_and_shard_def utf8_to_wide_def full_path_def classify_path_def
  join_path_def lowercase_path_def ask_def tell_def example_host_def plain_reply_def ascii_ctype_def
  is_path_separator_def backslash_def slash_def colon_def adopt_source_def new_identity_def
  clear_entries_def bump_model_generation_def prewarm_source_def clear_error_def set_error_def
  new_prewarm_result_def prewarm_expert_def find_entry_def entry_hit_def prewarm_replace_def
  erase_entry_def make_room.simps cache_full_def prewarm_fill_def new_entry_def view_map_def
  view_map_file_def view_map_section_def view_reset_def empty_view_def invalid_handle_def
  nullptr_def size_max_def prewarm_map_down_def prewarm_commit_def prewarm_touch_def
  prefetch_and_touch_def next_clock_def admit_entry_def max_u64_def prewarm_oom_def
  prewarm_map_failed_def prewarm_refused_def entry_destroy_def prewarm_finish_def elapsed_since_def
  no_prewarm_stats_def no_resident_stats_def no_run_stats_def Let_def word_le_nat_alt
  word_less_nat_alt unat_max_u64

lemma example_prewarm_status: "fst example_prewarm = STATUS_SUCCESS"
  unfolding example_prewarm_def by (simp add: prewarm_eval cong: let_weak_cong)

lemma new_provider_inv: "provider_inv [] (new_impl cfg)"
  by (simp add: provider_inv_def new_impl_def cache_wf_def unpinned_def impl_resources_def owns_def
      acquired_def released_def)

section \<open>Properties of prewarm\<close>

lemma prewarm_cases:
  assumes "prewarm env ct (Some i) request sz h = (st, res, p, h')"
  obtains (early) "p = Some i" "\<And>R. owns h' R \<longleftrightarrow> owns h R" "st = STATUS_ERROR"
      "\<And>r. res = Some r \<Longrightarrow> pr_error_code r = ERROR_INVALID_ARGUMENT" "set h \<subseteq> set h'"
  | (body) q ids start h1 r i' where "request = Some q" "pw_expert_ids_by_priority q = Some ids" "prewarm_request_valid q"
      "\<And>R. owns h1 R \<longleftrightarrow> owns h R" "prewarm_locked env ct q ids start i h1 = (st, r, i', h')"
      "res = Some r" "p = Some i'" "set h \<subseteq> set h1"
proof -
  let ?h1 = "(ClockNow, env h ClockNow) # h"
  have inv: "owns h2 R \<longleftrightarrow> owns h R" if "elapsed_since env t ?h1 = (e, h2)" for t e h2 R
    using elapsed_since_owns [OF that, of R] by simp
  have grow: "set h \<subseteq> set h2" if "elapsed_since env t ?h1 = (e, h2)" for t e h2
    using elapsed_since_grows [OF that] by simp
  consider (a) "sz = None \<or> (\<exists>n. sz = Some n \<and> \<not> struct_size_valid n sizeof_prewarm_result)"
    | (b) n where "sz = Some n" "struct_size_valid n sizeof_prewarm_result"
        "\<not> (\<exists>q ids. request = Some q \<and> pw_expert_ids_by_priority q = Some ids \<and> prewarm_request_valid q)"
    | (c) n q ids where "sz = Some n" "struct_size_valid n sizeof_prewarm_result" "request = Some q"
        "pw_expert_ids_by_priority q = Some ids" "prewarm_request_valid q"
    by (cases sz) blast+
  then show ?thesis
  proof cases
    case a
    then show ?thesis using assms early by (auto simp: prewarm_def split: option.splits)
  next
    case b
    have "p = Some i \<and> (\<forall>R. owns h' R \<longleftrightarrow> owns h R) \<and> st = STATUS_ERROR \<and> (\<forall>r. res = Some r \<longrightarrow> pr_error_code r = ERROR_INVALID_ARGUMENT) \<and>
        set h \<subseteq> set h'"
      using assms b inv grow
      by (auto simp: prewarm_def ask_def Let_def split: option.splits prod.splits if_splits)
    then show ?thesis using early by blast
  next
    case c
    then show ?thesis
      using assms body [OF c(3-5), of ?h1 "r_num (env h ClockNow)"]
      by (auto simp: prewarm_def ask_def Let_def split: prod.splits)
  qed
qed

lemma prewarm_inv:
  assumes "provider_inv h i" "prewarm env ct (Some i) request sz h = (st, res, p, h')"
  shows "\<exists>i'. p = Some i' \<and> provider_inv h' i'"
  using assms(2)
proof (cases rule: prewarm_cases)
  case early
  then show ?thesis using assms(1) by (simp add: provider_inv_def)
next
  case (body q ids start h1 r i')
  then have "provider_inv h1 i" using assms(1) by (simp add: provider_inv_def)
  then show ?thesis using prewarm_locked_ok body by blast
qed

text \<open>
  C16. Whatever the file system, the memory and the caller do, a prewarm call leaves a well-formed
  cache behind: both capacities respected, no expert twice, every entry of the current source,
  nothing pinned, and every handle, view and block acquired so far either given back exactly once
  or owned by a cached entry.
\<close>

theorem prewarm_keeps_provider:
  assumes "provider_inv h i" "prewarm env ct (Some i) request sz h = (st, res, p, h')"
  shows "\<exists>i'. p = Some i' \<and> provider_inv h' i'"
  using assms by (rule prewarm_inv)

theorem prewarm_keeps_provider_witness:
  "\<exists>i. fst (snd (snd example_prewarm)) = Some i \<and> provider_inv (snd (snd (snd example_prewarm))) i"
proof -
  obtain st res p h where run: "example_prewarm = (st, res, p, h)" by (metis surj_pair)
  show ?thesis
    unfolding run using prewarm_keeps_provider [OF new_provider_inv run [unfolded example_prewarm_def]] by simp
qed

text \<open>Whatever its outcome, a call leaves only views that were mapped as their entries record.\<close>

lemma prewarm_keeps_views:
  assumes "provider_inv h i" "views_mapped ct h i" "prewarm env ct (Some i) request sz h = (st, res, Some i', h')"
  shows "views_mapped ct h' i'"
  using assms(3)
proof (cases rule: prewarm_cases)
  case early
  then show ?thesis using views_mapped_mono [OF assms(2), of i' h'] by simp
next
  case (body q ids start h1 r i'')
  then have "provider_inv h1 i" "views_mapped ct h1 i"
    using assms(1) views_mapped_mono [OF assms(2)] by (simp_all add: provider_inv_def)
  from prewarm_locked_backed [OF this body(5)] body(7) show ?thesis by simp
qed

lemma new_views_mapped: "views_mapped ct h (new_impl cfg)"
  by (simp add: views_mapped_def new_impl_def)

text \<open>
  C17. A prewarm call that reports success serves every requested expert: the lookup the next run
  makes finds an entry whose two views record the files the request's model directory and shard
  names resolve to, the expert's byte offset in each tensor and the expert's size. And the views
  are what they record: each was made by opening that path, making a section of that file and
  mapping a window of it in which the data pointer stands for the recorded offset, with room for
  the recorded bytes. The views the cache held before are taken to have been made so, which holds
  of a new provider, is kept by every call of \<open>prewarm\<close> whatever its outcome, and holds again here.
\<close>

theorem prewarm_success_serves:
  assumes "provider_inv h i" "views_mapped ct h i"
    and "prewarm env ct (Some i) (Some q) sz h = (STATUS_SUCCESS, res, Some i', h')"
    and "pw_expert_ids_by_priority q = Some ids"
  shows "views_mapped ct h' i' \<and>
    (\<exists>model_key gate_path down_path. request_files env ct q model_key gate_path down_path \<and>
       (\<forall>x \<in> set ids. \<exists>k. find_entry (pw_layer_index q) x i' = Some k \<and>
          holds_expert ct q gate_path down_path x (i_entries i' ! k) \<and>
          view_mapped ct h' (e_gate_up (i_entries i' ! k)) \<and> view_mapped ct h' (e_down (i_entries i' ! k))))"
  using assms(3)
proof (cases rule: prewarm_cases)
  case (body q' ids' start h1 r i'')
  then have "provider_inv h1 i" "views_mapped ct h1 i"
    using assms(1) views_mapped_mono [OF assms(2)] by (simp_all add: provider_inv_def)
  note L = prewarm_locked_backed [OF this body(5)]
  have same: "q' = q" "ids' = ids" "i'' = i'" using body assms(4) by simp_all
  have vm: "views_mapped ct h' i'" using L same by simp
  have views: "view_mapped ct h' (e_gate_up (i_entries i' ! k)) \<and> view_mapped ct h' (e_down (i_entries i' ! k))"
    if "find_entry (pw_layer_index q) x i' = Some k" "holds_expert ct q gp dp x (i_entries i' ! k)" for x k gp dp
    using vm nth_mem [OF find_entry_Some(1) [OF that(1)]] that(2)
    by (simp add: views_mapped_def holds_expert_def source_matches_def)
  obtain mk gp dp where "request_files env ct q mk gp dp" and
    K: "\<forall>x \<in> set ids. \<exists>k. find_entry (pw_layer_index q) x i' = Some k \<and> holds_expert ct q gp dp x (i_entries i' ! k)"
    using L same by blast
  then show ?thesis using vm views by meson
qed simp

theorem prewarm_success_serves_witness:
  "\<exists>res i' h' k. example_prewarm = (STATUS_SUCCESS, res, Some i', h') \<and> find_entry 3 9 i' = Some k \<and>
     v_absolute_begin (e_gate_up (i_entries i' ! k)) = 100 + 9 * 4194304 \<and>
     view_mapped ascii_ctype h' (e_gate_up (i_entries i' ! k))"
proof -
  obtain res p h' where run: "example_prewarm = (STATUS_SUCCESS, res, p, h')"
    using example_prewarm_status by (metis fst_conv surj_pair)
  obtain i' where p: "p = Some i'"
    using run [unfolded example_prewarm_def] by (cases rule: prewarm_cases) blast+
  have "pw_expert_ids_by_priority example_request = Some [7, 9, 7]" by (simp add: example_request_def)
  from prewarm_success_serves [OF new_provider_inv new_views_mapped run [unfolded example_prewarm_def p] this]
  obtain k gp dp where "find_entry (pw_layer_index example_request) 9 i' = Some k"
    "holds_expert ascii_ctype example_request gp dp 9 (i_entries i' ! k)"
    "view_mapped ascii_ctype h' (e_gate_up (i_entries i' ! k))" by auto
  then have "find_entry 3 9 i' = Some k \<and> v_absolute_begin (e_gate_up (i_entries i' ! k)) = 100 + 9 * 4194304 \<and>
      view_mapped ascii_ctype h' (e_gate_up (i_entries i' ! k))"
    by (simp add: holds_expert_def source_matches_def gate_up_begin_def example_request_def host_constants)
  with run [unfolded p] show ?thesis by blast
qed

text \<open>
  Every requested expert is accounted for exactly once: mapped, already present or failed. The
  only result that does not add up is the one of a call whose own bookkeeping could not be
  allocated, which reports out of memory and counts nothing.
\<close>

theorem prewarm_accounts_every_expert:
  assumes "provider_inv h i" "prewarm env ct (Some i) (Some q) sz h = (st, Some res, p, h')"
    and "prewarm_request_valid q" "pw_expert_ids_by_priority q = Some ids" "pr_error_code res \<noteq> ERROR_INVALID_ARGUMENT"
  shows "pr_mapped_count res + pr_already_present_count res + pr_failed_count res = length ids
    \<or> pr_mapped_count res + pr_already_present_count res + pr_failed_count res = 0 \<and>
       pr_error_code res = ERROR_OUT_OF_MEMORY \<and> st = STATUS_ERROR"
  using assms(2)
proof (cases rule: prewarm_cases)
  case (body q' ids' start h1 r i'')
  then have "provider_inv h1 i" using assms(1) by (simp add: provider_inv_def)
  from prewarm_locked_ok [OF this body(5)] body assms(4) show ?thesis by (simp add: prewarm_report_def)
qed (use assms(5) in simp)

theorem prewarm_accounts_every_expert_witness:
  "\<exists>st res p h'. example_prewarm = (st, Some res, p, h') \<and>
     pr_mapped_count res + pr_already_present_count res + pr_failed_count res = 3"
proof -
  have ev: "fst example_prewarm = STATUS_SUCCESS \<and> map_option pr_error_code (fst (snd example_prewarm)) = Some ERROR_NONE"
    unfolding example_prewarm_def by (simp add: prewarm_eval cong: let_weak_cong)
  obtain st r p h' where run': "example_prewarm = (st, r, p, h')" by (metis surj_pair)
  with ev obtain res where run: "example_prewarm = (STATUS_SUCCESS, Some res, p, h')" and err: "pr_error_code res = ERROR_NONE"
    unfolding run' by auto
  have "prewarm_request_valid example_request" "pw_expert_ids_by_priority example_request = Some [7, 9, 7]"
    by (simp_all add: prewarm_request_valid_def example_request_def struct_size_valid_def sizeof_prewarm_request_def
        host_constants word_less_nat_alt)
  from prewarm_accounts_every_expert [OF new_provider_inv run [unfolded example_prewarm_def] this] err
  have "pr_mapped_count res + pr_already_present_count res + pr_failed_count res = 3" by simp
  with run show ?thesis by blast
qed

text \<open>The same machine, out of memory when the list of protected keys is reserved.\<close>

definition reserve_fails_host :: host_env where
  "reserve_fails_host h c =
     (if c = CxxAllocate ''protected_keys.reserve'' then plain_reply\<lparr>r_throws := True\<rparr>
      else example_host h c)"

text \<open>
  When that reservation fails, the call reports an error, but neither the result nor the
  provider accounts for it: three experts requested and none failed, no last error and no counted
  error. The resident prewarm has an accounting step for exactly this case.
\<close>

theorem prewarm_reserve_failure_uncounted:
  "case prewarm reserve_fails_host ascii_ctype (Some (new_impl example_config)) (Some example_request) (Some 88) [] of
     (st, Some res, Some i, h) \<Rightarrow>
       st = STATUS_ERROR \<and> pr_requested_count res = 3 \<and> pr_failed_count res = 0 \<and>
       i_last_error_code i = ERROR_NONE \<and> prewarm_error_count (i_prewarm i) = 0 \<and>
       prewarm_failed_entry_count (i_prewarm i) = 0
   | _ \<Rightarrow> False"
  by (simp add: reserve_fails_host_def prewarm_eval cong: let_weak_cong)

end
