(* ===== verification/Prewarm_Resident.thy ===== *)
theory Prewarm_Resident
  imports Prewarm
begin

text \<open>
  The operation \<open>prewarm_resident\<close> of \<^verbatim>\<open>native/providers/q1_moe_avx512bf16_host_provider.cpp\<close>,
  which fills the expert cache by copying experts that are resident on the device into owned,
  aligned host buffers through the caller's copy and allocation callbacks.
\<close>

section \<open>Requests and results\<close>

definition sizeof_resident_request :: nat where "sizeof_resident_request = 104"
definition sizeof_resident_result :: nat where "sizeof_resident_result = 120"

record resident_request =
  rq_struct_size :: u32
  rq_layer_index :: u32
  rq_source_generation :: u64
  rq_gate_up_device_base :: u64
  rq_down_device_base :: u64
  rq_gate_up_bytes_per_expert :: u64
  rq_down_bytes_per_expert :: u64
  rq_copy_to_host :: u64
  rq_copy_context :: u64
  rq_host_allocate :: u64
  rq_host_free :: u64
  rq_allocator_context :: u64
  rq_expert_ids_by_priority :: "u32 list option"

record resident_result =
  rr_status :: host_status
  rr_error_code :: host_error
  rr_callback_error :: int
  rr_alloc :: alloc_counters
  rr_requested_count :: nat
  rr_copied_count :: nat
  rr_already_present_count :: nat
  rr_failed_count :: nat
  rr_eviction_count :: nat
  rr_cache_entry_count :: nat
  rr_cache_bytes :: u64
  rr_cache_peak_bytes :: u64
  rr_copy_call_count :: u64
  rr_copied_bytes :: u64
  rr_copy_elapsed_ns :: u64
  rr_elapsed_ns :: u64

definition no_alloc_counters :: alloc_counters where
  "no_alloc_counters = \<lparr>c_allocator_error = 0, c_allocation_call_count = 0, c_allocated_bytes = 0,
     c_allocation_elapsed_ns = 0\<rparr>"

definition new_resident_result :: resident_result where
  "new_resident_result = \<lparr>rr_status = STATUS_FALLBACK_CACHE_MISS, rr_error_code = ERROR_NONE,
     rr_callback_error = 0, rr_alloc = no_alloc_counters, rr_requested_count = 0, rr_copied_count = 0,
     rr_already_present_count = 0, rr_failed_count = 0, rr_eviction_count = 0, rr_cache_entry_count = 0,
     rr_cache_bytes = 0, rr_cache_peak_bytes = 0, rr_copy_call_count = 0, rr_copied_bytes = 0,
     rr_copy_elapsed_ns = 0, rr_elapsed_ns = 0\<rparr>"

definition resident_request_valid :: "resident_request \<Rightarrow> bool" where
  "resident_request_valid q \<longleftrightarrow>
     struct_size_valid (rq_struct_size q) sizeof_resident_request \<and>
     rq_layer_index q < kLayerCount \<and> rq_source_generation q \<noteq> 0 \<and>
     rq_gate_up_device_base q \<noteq> 0 \<and> rq_down_device_base q \<noteq> 0 \<and>
     rq_gate_up_bytes_per_expert q = kGateUpBytesPerExpert \<and>
     rq_down_bytes_per_expert q = kDownBytesPerExpert \<and> rq_copy_to_host q \<noteq> nullptr \<and>
     (rq_host_allocate q = nullptr) = (rq_host_free q = nullptr) \<and>
     (case rq_expert_ids_by_priority q of
        None \<Rightarrow> False
      | Some ids \<Rightarrow> length ids \<noteq> 0 \<and> length ids \<le> unat kExpertCount)"

definition resident_source :: "resident_request \<Rightarrow> source_identity" where
  "resident_source q =
     new_identity\<lparr>s_mode := ResidentDevice, s_gate_bytes_per_expert := rq_gate_up_bytes_per_expert q,
       s_down_bytes_per_expert := rq_down_bytes_per_expert q, s_layer_index := rq_layer_index q,
       s_source_generation := rq_source_generation q, s_gate_up_device_base := rq_gate_up_device_base q,
       s_down_device_base := rq_down_device_base q, s_copy_to_host := rq_copy_to_host q,
       s_copy_context := rq_copy_context q, s_host_allocate := rq_host_allocate q,
       s_host_free := rq_host_free q, s_allocator_context := rq_allocator_context q\<rparr>"

section \<open>One expert\<close>

type_synonym resident_state = "impl \<times> keys \<times> resident_result \<times> host_hist"

definition resident_fail :: "resident_result \<Rightarrow> resident_result" where
  "resident_fail res = res\<lparr>rr_failed_count := rr_failed_count res + 1\<rparr>"

text \<open>Leaving the \<open>try\<close> block with a failure: the error is set and the entry destroyed.\<close>

definition resident_abandon :: "host_env \<Rightarrow> entry \<Rightarrow> (impl \<Rightarrow> impl) \<Rightarrow> resident_state \<Rightarrow> resident_state" where
  "resident_abandon env e err = (\<lambda>(i, ks, res, h). (err i, ks, resident_fail res, entry_destroy env e h))"

definition resident_oom :: "impl \<Rightarrow> impl" where
  "resident_oom = set_error ERROR_OUT_OF_MEMORY 0 ''resident prewarm allocation failed''"

text \<open>One timed call of the copy callback; a callback that raises reports \<open>INT32_MIN\<close>.\<close>

definition resident_copy ::
  "host_env \<Rightarrow> resident_request \<Rightarrow> u64 \<Rightarrow> u64 \<Rightarrow> u64 \<Rightarrow> resident_result \<Rightarrow> host_hist \<Rightarrow> int \<times> resident_result \<times> host_hist" where
  "resident_copy env q destination source bytes res h =
     (let (r, h) = ask env ClockNow h;
          start = r_num r;
          res = res\<lparr>rr_copy_call_count := rr_copy_call_count res + 1\<rparr>;
          (r, h) = ask env (CopyToHost (rq_copy_to_host q) (rq_copy_context q) destination source bytes) h;
          callback_error = (if r_throws r then int32_min else r_int r);
          (elapsed, h) = elapsed_since env start h
      in (callback_error, res\<lparr>rr_copy_elapsed_ns := rr_copy_elapsed_ns res + elapsed\<rparr>, h))"

definition resident_commit :: "host_env \<Rightarrow> resident_request \<Rightarrow> entry \<Rightarrow> resident_state \<Rightarrow> resident_state" where
  "resident_commit env q e = (\<lambda>(i, ks, res, h).
     let (now, i) = next_clock i;
         e = e\<lparr>e_last_use := now\<rparr>;
         (r, h) = ask env (CxxAllocate ''entries.push_back'') h
     in if r_throws r then resident_abandon env e resident_oom (i, ks, res, h)
        else (admit_entry e i, ks @ [(rq_layer_index q, e_expert_id e)],
              res\<lparr>rr_copied_count := rr_copied_count res + 1\<rparr>, h))"

definition resident_copy_down :: "host_env \<Rightarrow> resident_request \<Rightarrow> entry \<Rightarrow> resident_state \<Rightarrow> resident_state" where
  "resident_copy_down env q e = (\<lambda>(i, ks, res, h).
     let (callback_error, res, h) =
           resident_copy env q (b_data (e_resident_pair e) + kGateUpBytesPerExpert)
             (e_down_device_begin e) kDownBytesPerExpert res h
     in if callback_error \<noteq> 0
        then resident_abandon env e
               (set_resident_copy_error callback_error ''resident prewarm down device copy failed'')
               (i, ks, res\<lparr>rr_callback_error := callback_error\<rparr>, h)
        else resident_commit env q e
               (i, ks, res\<lparr>rr_copied_bytes := rr_copied_bytes res + kDownBytesPerExpert\<rparr>, h))"

definition resident_copy_gate :: "host_env \<Rightarrow> resident_request \<Rightarrow> entry \<Rightarrow> resident_state \<Rightarrow> resident_state" where
  "resident_copy_gate env q e = (\<lambda>(i, ks, res, h).
     let (callback_error, res, h) =
           resident_copy env q (b_data (e_resident_pair e)) (e_gate_up_device_begin e) kGateUpBytesPerExpert res h
     in if callback_error \<noteq> 0
        then resident_abandon env e
               (set_resident_copy_error callback_error ''resident prewarm gate/up device copy failed'')
               (i, ks, res\<lparr>rr_callback_error := callback_error\<rparr>, h)
        else resident_copy_down env q e
               (i, ks, res\<lparr>rr_copied_bytes := rr_copied_bytes res + kGateUpBytesPerExpert\<rparr>, h))"

definition resident_fill ::
  "host_env \<Rightarrow> resident_request \<Rightarrow> u64 \<Rightarrow> u64 \<Rightarrow> u32 \<Rightarrow> resident_state \<Rightarrow> resident_state" where
  "resident_fill env q gate_begin down_begin expert_id = (\<lambda>(i, ks, res, h).
     let (r, h) = ask env (CxxAllocate ''make_unique CacheEntry'') h
     in if r_throws r then resident_abandon env new_entry resident_oom (i, ks, res, h)
        else
          let e = new_entry\<lparr>e_model_generation := i_model_generation i, e_layer_index := rq_layer_index q,
                            e_expert_id := expert_id, e_source_mode := ResidentDevice,
                            e_gate_up_device_begin := gate_begin, e_down_device_begin := down_begin\<rparr>;
              (ok, pair, c, h) =
                buffer_allocate env (e_resident_pair e) kBytesPerExpertPair (rq_host_allocate q)
                  (rq_host_free q) (rq_allocator_context q) (rr_alloc res) h;
              res = res\<lparr>rr_alloc := c\<rparr>;
              e = e\<lparr>e_resident_pair := pair\<rparr>
          in if \<not> ok
             then resident_abandon env e
                    (if rq_host_allocate q \<noteq> nullptr
                     then set_error ERROR_RESIDENT_ALLOCATION 0 ''resident prewarm host allocator failed''
                     else set_error ERROR_OUT_OF_MEMORY 0 ''resident prewarm aligned allocation failed'')
                    (i, ks, res, h)
             else resident_copy_gate env q e (i, ks, res, h))"

definition resident_replace ::
  "host_env \<Rightarrow> resident_request \<Rightarrow> u64 \<Rightarrow> u64 \<Rightarrow> u32 \<Rightarrow> resident_state \<Rightarrow> resident_state" where
  "resident_replace env q gate_begin down_begin expert_id = (\<lambda>(i, ks, res, h).
     let existing = find_entry (rq_layer_index q) expert_id i
     in if (case existing of None \<Rightarrow> False | Some k \<Rightarrow> e_pin_count (i_entries i ! k) \<noteq> 0)
        then (i, ks, resident_fail res, h)
        else
          let (i, h) = (case existing of None \<Rightarrow> (i, h) | Some k \<Rightarrow> erase_entry env k i h);
              (room, evictions, i, h) = make_room env ks (rr_eviction_count res) i h;
              res = res\<lparr>rr_eviction_count := evictions\<rparr>
          in if \<not> room then (i, ks, resident_fail res, h)
             else resident_fill env q gate_begin down_begin expert_id (i, ks, res, h))"

text \<open>A resident copy cannot be trimmed: a hit only marks the entry as used.\<close>

definition resident_refresh :: "resident_request \<Rightarrow> nat \<Rightarrow> u32 \<Rightarrow> resident_state \<Rightarrow> resident_state" where
  "resident_refresh q k expert_id = (\<lambda>(i, ks, res, h).
     let (now, i) = next_clock i
     in (i\<lparr>i_entries := (i_entries i)[k := (i_entries i ! k)\<lparr>e_last_use := now\<rparr>]\<rparr>,
         ks @ [(rq_layer_index q, expert_id)],
         res\<lparr>rr_already_present_count := rr_already_present_count res + 1\<rparr>, h))"

definition resident_expert :: "host_env \<Rightarrow> resident_request \<Rightarrow> u32 \<Rightarrow> resident_state \<Rightarrow> resident_state" where
  "resident_expert env q expert_id = (\<lambda>(i, ks, res, h).
     if expert_id \<ge> kExpertCount then (i, ks, resident_fail res, h)
     else if (rq_layer_index q, expert_id) \<in> set ks
     then (i, ks, res\<lparr>rr_already_present_count := rr_already_present_count res + 1\<rparr>, h)
     else
       let gate_offset = ucast expert_id * kGateUpBytesPerExpert;
           down_offset = ucast expert_id * kDownBytesPerExpert
       in if gate_offset > uint64_max - rq_gate_up_device_base q \<or> down_offset > uint64_max - rq_down_device_base q
          then (i, ks, resident_fail res, h)
          else
            let gate_begin = rq_gate_up_device_base q + gate_offset;
                down_begin = rq_down_device_base q + down_offset
            in (case find_entry (rq_layer_index q) expert_id i of
                  Some k \<Rightarrow>
                    if resident_source_matches (i_entries i ! k) gate_begin down_begin
                    then resident_refresh q k expert_id (i, ks, res, h)
                    else resident_replace env q gate_begin down_begin expert_id (i, ks, res, h)
                | None \<Rightarrow> resident_replace env q gate_begin down_begin expert_id (i, ks, res, h)))"

fun resident_loop :: "host_env \<Rightarrow> resident_request \<Rightarrow> u32 list \<Rightarrow> resident_state \<Rightarrow> resident_state" where
  "resident_loop env q [] st = st"
| "resident_loop env q (x # xs) st = resident_loop env q xs (resident_expert env q x st)"

section \<open>A whole call\<close>

text \<open>The counters of the provider after the result is known, on the normal path.\<close>

definition resident_account :: "resident_result \<Rightarrow> resident_stats \<Rightarrow> resident_stats" where
  "resident_account res s =
     s\<lparr>resident_prewarm_copied_entry_count := resident_prewarm_copied_entry_count s + of_nat (rr_copied_count res),
       resident_prewarm_already_present_count :=
         resident_prewarm_already_present_count s + of_nat (rr_already_present_count res),
       resident_prewarm_failed_entry_count := resident_prewarm_failed_entry_count s + of_nat (rr_failed_count res),
       resident_prewarm_eviction_count := resident_prewarm_eviction_count s + of_nat (rr_eviction_count res),
       resident_copy_call_count := resident_copy_call_count s + rr_copy_call_count res,
       resident_copied_bytes := resident_copied_bytes s + rr_copied_bytes res,
       resident_copy_elapsed_ns := resident_copy_elapsed_ns s + rr_copy_elapsed_ns res,
       resident_prewarm_elapsed_ns := resident_prewarm_elapsed_ns s + rr_elapsed_ns res\<rparr>"

definition resident_finish ::
  "host_env \<Rightarrow> u64 \<Rightarrow> resident_state \<Rightarrow> host_status \<times> resident_result \<times> impl \<times> host_hist" where
  "resident_finish env start = (\<lambda>(i, ks, res, h).
     let (elapsed, h) = elapsed_since env start h;
         res = res\<lparr>rr_cache_entry_count := length (i_entries i), rr_cache_bytes := i_cache_bytes i,
                   rr_cache_peak_bytes := i_cache_peak_bytes i, rr_elapsed_ns := elapsed\<rparr>;
         ok = (rr_failed_count res = 0);
         i = (if \<not> ok \<and> i_last_error_code i = ERROR_NONE
              then set_error ERROR_CACHE_BUSY 0 ''resident prewarm could not admit every priority entry'' i
              else i);
         res = (if ok
                then res\<lparr>rr_status := STATUS_SUCCESS, rr_error_code := ERROR_NONE, rr_callback_error := 0\<rparr>
                else res\<lparr>rr_status := STATUS_ERROR, rr_error_code := i_last_error_code i,
                         rr_callback_error := i_last_resident_callback_error i\<rparr>);
         s = resident_account res (i_resident i);
         s = (if ok then s\<lparr>resident_prewarm_success_count := resident_prewarm_success_count s + 1\<rparr>
              else s\<lparr>resident_prewarm_error_count := resident_prewarm_error_count s + 1\<rparr>)
     in (rr_status res, res, i\<lparr>i_resident := s\<rparr>, h))"

text \<open>
  \<open>account_resident_prewarm_exception\<close>, for a call that has started and was not accounted: the
  experts not yet processed are failed, and error and counters are recorded.
\<close>

definition account_resident_prewarm_exception ::
  "host_error \<Rightarrow> string \<Rightarrow> nat \<Rightarrow> resident_result \<Rightarrow> impl \<Rightarrow> resident_result \<times> impl" where
  "account_resident_prewarm_exception code message n res i =
     (let processed = rr_copied_count res + rr_already_present_count res + rr_failed_count res;
          res = (if processed < n then res\<lparr>rr_failed_count := rr_failed_count res + (n - processed)\<rparr> else res);
          res = res\<lparr>rr_cache_entry_count := length (i_entries i), rr_cache_bytes := i_cache_bytes i,
                    rr_cache_peak_bytes := i_cache_peak_bytes i\<rparr>;
          i = i\<lparr>i_last_error_code := code, i_last_win32_error := 0, i_last_resident_callback_error := 0,
                i_last_error := message\<rparr>;
          s = i_resident i;
          s = resident_account res (s\<lparr>resident_prewarm_error_count := resident_prewarm_error_count s + 1\<rparr>)
      in (res, i\<lparr>i_resident := s\<rparr>))"

text \<open>A call refused because entries of another source are pinned.\<close>

definition resident_refused ::
  "host_env \<Rightarrow> u64 \<Rightarrow> nat \<Rightarrow> impl \<Rightarrow> resident_result \<Rightarrow> host_hist \<Rightarrow> host_status \<times> resident_result \<times> impl \<times> host_hist" where
  "resident_refused env start n i res h =
     (let i = set_error ERROR_CACHE_BUSY 0
                ''resident prewarm cannot replace a tensor source while cache entries are pinned'' i;
          (elapsed, h) = elapsed_since env start h;
          s = i_resident i
      in (STATUS_ERROR,
          res\<lparr>rr_status := STATUS_ERROR, rr_error_code := i_last_error_code i, rr_failed_count := n,
              rr_elapsed_ns := elapsed\<rparr>,
          i\<lparr>i_resident := s\<lparr>resident_prewarm_error_count := resident_prewarm_error_count s + 1,
              resident_prewarm_failed_entry_count := resident_prewarm_failed_entry_count s + of_nat n,
              resident_prewarm_elapsed_ns := resident_prewarm_elapsed_ns s + elapsed\<rparr>\<rparr>,
          h))"

definition resident_locked ::
  "host_env \<Rightarrow> resident_request \<Rightarrow> u32 list \<Rightarrow> u64 \<Rightarrow> impl \<Rightarrow> host_hist
     \<Rightarrow> host_status \<times> resident_result \<times> impl \<times> host_hist" where
  "resident_locked env q ids start i h =
     (let n = length ids;
          s = i_resident i;
          i = i\<lparr>i_resident := s\<lparr>resident_prewarm_call_count := resident_prewarm_call_count s + 1,
                  resident_prewarm_requested_entry_count :=
                    resident_prewarm_requested_entry_count s + of_nat n\<rparr>\<rparr>;
          res = new_resident_result\<lparr>rr_requested_count := n\<rparr>
      in case adopt_source env (resident_source q) i h of
           None \<Rightarrow> resident_refused env start n i res h
         | Some (i, h) \<Rightarrow>
             let i = clear_error i;
                 (r, h) = ask env (CxxAllocate ''protected_keys.reserve'') h
             in if r_throws r
                then let (elapsed, h) = elapsed_since env start h;
                         (res, i) = account_resident_prewarm_exception ERROR_OUT_OF_MEMORY
                           ''resident prewarm allocation escaped the cache-fill loop'' n
                           (res\<lparr>rr_status := STATUS_ERROR, rr_error_code := ERROR_OUT_OF_MEMORY,
                                rr_elapsed_ns := elapsed\<rparr>) i
                     in (STATUS_ERROR, res, i, h)
                else resident_finish env start (resident_loop env q ids (i, [], res, h)))"

definition prewarm_resident ::
  "host_env \<Rightarrow> impl option \<Rightarrow> resident_request option \<Rightarrow> u32 option \<Rightarrow> host_hist
     \<Rightarrow> host_status \<times> resident_result option \<times> impl option \<times> host_hist" where
  "prewarm_resident env provider request out_struct_size h =
     (case out_struct_size of
        None \<Rightarrow> (STATUS_ERROR, None, provider, h)
      | Some caller_size \<Rightarrow>
          if \<not> struct_size_valid caller_size sizeof_resident_result then (STATUS_ERROR, None, provider, h)
          else
            let (r, h) = ask env ClockNow h;
                start = r_num r;
                invalid = (let (elapsed, h) = elapsed_since env start h
                           in (STATUS_ERROR,
                               Some (new_resident_result\<lparr>rr_status := STATUS_ERROR,
                                       rr_error_code := ERROR_INVALID_ARGUMENT, rr_elapsed_ns := elapsed\<rparr>),
                               provider, h))
            in case (provider, request) of
                 (Some i, Some q) \<Rightarrow>
                   (case rq_expert_ids_by_priority q of
                      Some ids \<Rightarrow>
                        if resident_request_valid q
                        then let (status, res, i, h) = resident_locked env q ids start i h
                             in (status, Some res, Some i, h)
                        else invalid
                    | None \<Rightarrow> invalid)
               | _ \<Rightarrow> invalid)"

section \<open>Correctness of one expert\<close>

definition resident_accounts :: "u32 \<Rightarrow> u32 \<Rightarrow> keys \<Rightarrow> resident_result \<Rightarrow> resident_state \<Rightarrow> bool" where
  "resident_accounts l x ks res = (\<lambda>(i', ks', res', h').
     set ks \<subseteq> set ks' \<and>
     (rr_failed_count res' = Suc (rr_failed_count res) \<and> rr_copied_count res' = rr_copied_count res \<and>
        rr_already_present_count res' = rr_already_present_count res
      \<or> rr_failed_count res' = rr_failed_count res \<and>
        rr_copied_count res' + rr_already_present_count res' =
          Suc (rr_copied_count res + rr_already_present_count res) \<and> (l, x) \<in> set ks'))"

definition resident_outcome ::
  "u32 \<Rightarrow> host_config \<Rightarrow> resource multiset \<Rightarrow> u32 \<Rightarrow> keys \<Rightarrow> resident_result \<Rightarrow> resident_state \<Rightarrow> bool" where
  "resident_outcome l cfg R x ks res st \<longleftrightarrow>
     fill_inv ResidentDevice l cfg R st \<and> resident_accounts l x ks res st"

text \<open>Two results with the same counts are accounted alike.\<close>

definition same_counts :: "resident_result \<Rightarrow> resident_result \<Rightarrow> bool" where
  "same_counts r s \<longleftrightarrow> rr_failed_count r = rr_failed_count s \<and> rr_copied_count r = rr_copied_count s \<and>
     rr_already_present_count r = rr_already_present_count s"

lemma outcome_same_counts:
  "same_counts r s \<Longrightarrow> resident_outcome l cfg R x ks r st \<longleftrightarrow> resident_outcome l cfg R x ks s st"
  by (simp add: resident_outcome_def resident_accounts_def same_counts_def split: prod.splits)

text \<open>An error setter that touches nothing the invariant reads.\<close>

definition error_only :: "(impl \<Rightarrow> impl) \<Rightarrow> bool" where
  "error_only f \<longleftrightarrow> (\<forall>i. (cache_wf (f i) \<longleftrightarrow> cache_wf i) \<and> impl_resources (f i) = impl_resources i \<and>
     (unpinned (f i) \<longleftrightarrow> unpinned i) \<and> i_config (f i) = i_config i \<and> i_source_identity (f i) = i_source_identity i \<and>
     i_entries (f i) = i_entries i)"

lemma error_only_setters [simp]:
  "error_only (set_error c w msg)" "error_only (set_resident_copy_error e msg)" "error_only resident_oom"
  by (simp_all add: error_only_def resident_oom_def)
    (simp_all add: set_resident_copy_error_def set_error_def)

lemma resident_abandon_ok:
  assumes b: "building ResidentDevice l cfg R e (i, ks, res, h)" and err: "error_only f"
  shows "resident_outcome l cfg R x ks res (resident_abandon env e f (i, ks, res, h))"
  using destroy_outcome [OF b, of env] b err
  by (simp add: resident_abandon_def resident_outcome_def resident_accounts_def building_def fill_inv_def'
      resident_fail_def error_only_def)

lemma resident_copy_facts:
  assumes "resident_copy env q d a n res h = (err, res', h')"
  shows "same_counts res' res" "owns h' Q \<longleftrightarrow> owns h Q"
  using assms by (auto simp: resident_copy_def Let_def ask_def elapsed_since_def same_counts_def)

lemma building_res:
  "building m l cfg R e (i, ks, res, h) \<Longrightarrow> (\<And>Q. owns h' Q \<longleftrightarrow> owns h Q) \<Longrightarrow> building m l cfg R e (i, ks, res', h')"
  by (simp add: building_def fill_inv_def')

lemma resident_commit_ok:
  assumes b: "building ResidentDevice (rq_layer_index q) cfg R e (i, ks, res, h)" and x: "e_expert_id e = x"
  shows "resident_outcome (rq_layer_index q) cfg R x ks res (resident_commit env q e (i, ks, res, h))"
proof -
  obtain now i3 where c: "next_clock i = (now, i3)" by fastforce
  let ?e = "e\<lparr>e_last_use := now\<rparr>" and ?p = "CxxAllocate ''entries.push_back''"
  let ?h3 = "(?p, env h ?p) # h"
  have "building ResidentDevice (rq_layer_index q) cfg R e (i, ks, res, ?h3)" using b by (rule building_res) simp
  then have b3: "building ResidentDevice (rq_layer_index q) cfg R ?e (i3, ks, res, ?h3)"
    using c by (rule building_clock)
  have "resident_outcome (rq_layer_index q) cfg R x ks res
      (admit_entry ?e i3, ks @ [(rq_layer_index q, e_expert_id ?e)], res\<lparr>rr_copied_count := rr_copied_count res + 1\<rparr>, ?h3)"
    using admit_outcome [OF b3, of "res\<lparr>rr_copied_count := rr_copied_count res + 1\<rparr>"] x
    by (auto simp: resident_outcome_def resident_accounts_def)
  with resident_abandon_ok [OF b3 error_only_setters(3), of x env] show ?thesis
    by (simp add: resident_commit_def c ask_def Let_def)
qed

lemma resident_copy_down_ok:
  assumes b: "building ResidentDevice (rq_layer_index q) cfg R e (i, ks, res, h)" and x: "e_expert_id e = x"
  shows "resident_outcome (rq_layer_index q) cfg R x ks res (resident_copy_down env q e (i, ks, res, h))"
proof -
  obtain err res1 h1 where c: "resident_copy env q (b_data (e_resident_pair e) + kGateUpBytesPerExpert)
      (e_down_device_begin e) kDownBytesPerExpert res h = (err, res1, h1)" by (metis surj_pair)
  note F = resident_copy_facts [OF c]
  let ?bad = "res1\<lparr>rr_callback_error := err\<rparr>" and ?good = "res1\<lparr>rr_copied_bytes := rr_copied_bytes res1 + kDownBytesPerExpert\<rparr>"
  have sc: "same_counts ?bad res" "same_counts ?good res" using F(1) by (simp_all add: same_counts_def)
  have b1: "building ResidentDevice (rq_layer_index q) cfg R e (i, ks, r, h1)" for r
    using b F(2) by (rule building_res)
  show ?thesis
    using resident_abandon_ok [OF b1 [of ?bad] error_only_setters(2), of x env err] resident_commit_ok [OF b1 [of ?good] x]
    by (auto simp: resident_copy_down_def c outcome_same_counts [OF sc(1)] outcome_same_counts [OF sc(2)])
qed

lemma resident_copy_gate_ok:
  assumes b: "building ResidentDevice (rq_layer_index q) cfg R e (i, ks, res, h)" and x: "e_expert_id e = x"
  shows "resident_outcome (rq_layer_index q) cfg R x ks res (resident_copy_gate env q e (i, ks, res, h))"
proof -
  obtain err res1 h1 where c: "resident_copy env q (b_data (e_resident_pair e))
      (e_gate_up_device_begin e) kGateUpBytesPerExpert res h = (err, res1, h1)" by (metis surj_pair)
  note F = resident_copy_facts [OF c]
  let ?bad = "res1\<lparr>rr_callback_error := err\<rparr>" and ?good = "res1\<lparr>rr_copied_bytes := rr_copied_bytes res1 + kGateUpBytesPerExpert\<rparr>"
  have sc: "same_counts ?bad res" "same_counts ?good res" using F(1) by (simp_all add: same_counts_def)
  have b1: "building ResidentDevice (rq_layer_index q) cfg R e (i, ks, r, h1)" for r
    using b F(2) by (rule building_res)
  show ?thesis
    using resident_abandon_ok [OF b1 [of ?bad] error_only_setters(2), of x env err] resident_copy_down_ok [OF b1 [of ?good] x]
    by (auto simp: resident_copy_gate_def c outcome_same_counts [OF sc(1)] outcome_same_counts [OF sc(2)])
qed

lemma resident_fill_ok:
  assumes inv: "fill_inv ResidentDevice (rq_layer_index q) cfg R (i, ks, res, h)" and room: "\<not> cache_full i"
    and new: "(rq_layer_index q, x) \<notin> entry_key ` set (i_entries i)" and x: "x < kExpertCount"
  shows "resident_outcome (rq_layer_index q) cfg R x ks res (resident_fill env q gb db x (i, ks, res, h))"
proof -
  let ?l = "rq_layer_index q" and ?c = "CxxAllocate ''make_unique CacheEntry''"
  let ?h1 = "(?c, env h ?c) # h"
  let ?e = "new_entry\<lparr>e_model_generation := i_model_generation i, e_layer_index := ?l, e_expert_id := x,
    e_source_mode := ResidentDevice, e_gate_up_device_begin := gb, e_down_device_begin := db\<rparr>"
  have pair: "e_resident_pair ?e = empty_buffer" by (simp add: new_entry_def)
  obtain ok b c h2 where al: "buffer_allocate env empty_buffer kBytesPerExpertPair (rq_host_allocate q) (rq_host_free q)
      (rq_allocator_context q) (rr_alloc res) ?h1 = (ok, b, c, h2)" by (metis surj_pair)
  let ?e2 = "?e\<lparr>e_resident_pair := b\<rparr>" and ?res = "res\<lparr>rr_alloc := c\<rparr>"
  have r2: "entry_resources ?e2 = buffer_resources b" by (simp add: entry_resources_def new_entry_def)
  have "owns ?h1 (buffer_resources empty_buffer + (impl_resources i + R))" using inv by (simp add: fill_inv_def')
  from buffer_allocate_owns [OF this al] have own: "owns h2 (impl_resources i + (entry_resources ?e2 + R))"
    unfolding r2 by (simp add: ac_simps)
  have b2: "building ResidentDevice ?l cfg R ?e2 (i, ks, ?res, h2)"
    using inv room new x own by (simp add: building_def fill_inv_def') (simp add: new_entry_def entry_key_def image_iff)
  have b0: "resident_outcome ?l cfg R x ks res (resident_abandon env new_entry resident_oom (i, ks, res, ?h1))"
    using inv entry_destroy_owns [of ?h1 new_entry "impl_resources i + R" env]
    by (simp add: resident_abandon_def resident_outcome_def resident_accounts_def fill_inv_def' resident_fail_def resident_oom_def)
  have sc: "same_counts ?res res" by (simp add: same_counts_def)
  have ex: "e_expert_id ?e2 = x" by simp
  show ?thesis
    using b0 resident_abandon_ok [OF b2 error_only_setters(1), of x env] resident_copy_gate_ok [OF b2 ex]
    by (simp add: resident_fill_def ask_def Let_def al pair outcome_same_counts [OF sc] del: entry.select_convs)
qed

lemma resident_replace_ok:
  assumes inv: "fill_inv ResidentDevice (rq_layer_index q) cfg R (i, ks, res, h)" and x: "x < kExpertCount"
    and unprot: "(rq_layer_index q, x) \<notin> set ks"
  shows "resident_outcome (rq_layer_index q) cfg R x ks res (resident_replace env q gb db x (i, ks, res, h))"
proof -
  let ?l = "rq_layer_index q"
  obtain i1 h1 where er: "(case find_entry ?l x i of None \<Rightarrow> (i, h) | Some k \<Rightarrow> erase_entry env k i h) = (i1, h1)"
    by fastforce
  obtain room n i2 h2 where mr: "make_room env ks (rr_eviction_count res) i1 h1 = (room, n, i2, h2)"
    by (metis surj_pair)
  let ?res = "res\<lparr>rr_eviction_count := n\<rparr>"
  note W = make_way_ok [OF inv unprot er mr]
  note W1 = make_way_ok(1) [OF inv unprot er mr, of ?res]
  have sc: "same_counts ?res res" by (simp add: same_counts_def)
  show ?thesis
  proof (cases room)
    case True
    then have "\<not> cache_full i2" using W(3) by simp
    from resident_fill_ok [OF W1 this W(2) x] show ?thesis
      using True W(4) er mr by (simp add: resident_replace_def Let_def outcome_same_counts [OF sc])
  next
    case False
    then show ?thesis
      using W er mr
      by (simp add: resident_replace_def Let_def resident_outcome_def resident_accounts_def resident_fail_def)
  qed
qed

lemma resident_refresh_ok:
  assumes inv: "fill_inv ResidentDevice (rq_layer_index q) cfg R (i, ks, res, h)"
    and k: "find_entry (rq_layer_index q) x i = Some k"
  shows "resident_outcome (rq_layer_index q) cfg R x ks res (resident_refresh q k x (i, ks, res, h))"
proof -
  obtain now i3 where c: "next_clock i = (now, i3)" by fastforce
  from mark_used_ok [OF inv k c] show ?thesis
    by (auto simp: resident_refresh_def c resident_outcome_def resident_accounts_def)
qed

lemma resident_expert_ok:
  assumes inv: "fill_inv ResidentDevice (rq_layer_index q) cfg R (i, ks, res, h)"
  shows "resident_outcome (rq_layer_index q) cfg R x ks res (resident_expert env q x (i, ks, res, h))"
proof -
  let ?l = "rq_layer_index q"
  have fail: "resident_outcome ?l cfg R x ks res (i, ks, resident_fail res, h)"
    using inv by (simp add: resident_outcome_def resident_accounts_def fill_inv_def' resident_fail_def)
  consider (bad) "x \<ge> kExpertCount" | (dup) "x < kExpertCount" "(?l, x) \<in> set ks" | (go) "x < kExpertCount" "(?l, x) \<notin> set ks"
    by fastforce
  then show ?thesis
  proof cases
    case bad
    then show ?thesis using fail by (simp add: resident_expert_def)
  next
    case dup
    then have "\<not> kExpertCount \<le> x" by simp
    with dup inv show ?thesis by (simp add: resident_expert_def resident_outcome_def resident_accounts_def fill_inv_def')
  next
    case go
    then show ?thesis
      using fail resident_replace_ok [OF inv go] resident_refresh_ok [OF inv]
      by (auto simp: resident_expert_def Let_def split: option.splits)
  qed
qed

interpretation resident: expert_loop "resident_expert env q" rr_copied_count rr_already_present_count
  rr_failed_count ResidentDevice "rq_layer_index q" cfg R
  for env q cfg R
proof unfold_locales
  fix st :: resident_state and x
  assume "fill_inv ResidentDevice (rq_layer_index q) cfg R st"
  then show "fill_inv ResidentDevice (rq_layer_index q) cfg R (resident_expert env q x st)"
    using resident_expert_ok by (cases st) (auto simp: resident_outcome_def)
next
  fix i ks and res :: resident_result and h x i' ks' res' h'
  assume "fill_inv ResidentDevice (rq_layer_index q) cfg R (i, ks, res, h)"
    "resident_expert env q x (i, ks, res, h) = (i', ks', res', h')"
  with resident_expert_ok [of q cfg R i ks res h x env]
  show "set ks \<subseteq> set ks' \<and>
      (rr_failed_count res' = Suc (rr_failed_count res) \<and> rr_copied_count res' = rr_copied_count res \<and>
         rr_already_present_count res' = rr_already_present_count res
       \<or> rr_failed_count res' = rr_failed_count res \<and>
         rr_copied_count res' + rr_already_present_count res' =
           Suc (rr_copied_count res + rr_already_present_count res) \<and> (rq_layer_index q, x) \<in> set ks')"
    by (simp add: resident_outcome_def resident_accounts_def)
qed

lemma resident_loop_foldl:
  "resident_loop env q xs st = foldl (\<lambda>st x. resident_expert env q x st) st xs"
  by (induction xs arbitrary: st) simp_all

section \<open>Correctness of a call\<close>

lemma provider_inv_resident [simp]: "provider_inv h (i\<lparr>i_resident := s\<rparr>) \<longleftrightarrow> provider_inv h i"
  by (simp add: provider_inv_def cache_wf_def entry_current_def unpinned_def impl_resources_def)

lemma provider_inv_error [simp]:
  "provider_inv h (i\<lparr>i_last_error_code := a, i_last_win32_error := b, i_last_resident_callback_error := c, i_last_error := d\<rparr>)
     \<longleftrightarrow> provider_inv h i"
  "provider_inv h (set_error e w m i) \<longleftrightarrow> provider_inv h i"
  by (simp_all add: provider_inv_def cache_wf_def entry_current_def unpinned_def impl_resources_def set_error_def)

text \<open>What a call reports: every expert accounted for, and with success every expert cached.\<close>

definition resident_report :: "resident_request \<Rightarrow> u32 list \<Rightarrow> host_status \<Rightarrow> resident_result \<Rightarrow> impl \<Rightarrow> bool" where
  "resident_report q ids st res i \<longleftrightarrow>
     rr_copied_count res + rr_already_present_count res + rr_failed_count res = length ids \<and>
     (st = STATUS_SUCCESS \<longrightarrow> (\<forall>x \<in> set ids. find_entry (rq_layer_index q) x i \<noteq> None))"

lemma resident_finish_ok:
  assumes "resident_finish env start (i, ks, res, h) = (st, res', i', h')"
  shows "provider_inv h' i' \<longleftrightarrow> provider_inv h i" "st = STATUS_SUCCESS \<longleftrightarrow> rr_failed_count res = 0"
    "same_counts res' res" "i_entries i' = i_entries i" "i_model_generation i' = i_model_generation i"
proof -
  obtain el h1 where e: "elapsed_since env start h = (el, h1)" by fastforce
  have inv: "provider_inv h1 j \<longleftrightarrow> provider_inv h j" for j by (simp add: provider_inv_def elapsed_since_owns [OF e])
  have "(\<forall>g. provider_inv g i' \<longleftrightarrow> provider_inv g i) \<and> i_entries i' = i_entries i \<and>
      i_model_generation i' = i_model_generation i \<and> h' = h1 \<and>
      (st = STATUS_SUCCESS \<longleftrightarrow> rr_failed_count res = 0) \<and> same_counts res' res"
    using assms
    by (cases "rr_failed_count res = 0"; cases "i_last_error_code i = ERROR_NONE")
      (auto simp: resident_finish_def e Let_def same_counts_def)
  then show "provider_inv h' i' \<longleftrightarrow> provider_inv h i" "st = STATUS_SUCCESS \<longleftrightarrow> rr_failed_count res = 0"
    "same_counts res' res" "i_entries i' = i_entries i" "i_model_generation i' = i_model_generation i"
    using inv by auto
qed

lemma resident_locked_ok:
  assumes inv: "provider_inv h i" and run: "resident_locked env q ids start i h = (st, res', i', h')"
  shows "provider_inv h' i' \<and> resident_report q ids st res' i'"
proof -
  define i0 where "i0 = i\<lparr>i_resident := (i_resident i)\<lparr>resident_prewarm_call_count := resident_prewarm_call_count (i_resident i) + 1,
      resident_prewarm_requested_entry_count := resident_prewarm_requested_entry_count (i_resident i) + of_nat (length ids)\<rparr>\<rparr>"
  define res where "res = new_resident_result\<lparr>rr_requested_count := length ids\<rparr>"
  have res0: "rr_copied_count res = 0" "rr_already_present_count res = 0" "rr_failed_count res = 0"
    by (simp_all add: res_def new_resident_result_def)
  have inv0: "provider_inv h i0" using inv by (simp add: i0_def)
  show ?thesis
  proof (cases "adopt_source env (resident_source q) i0 h")
    case None
    then have r: "resident_refused env start (length ids) i0 res h = (st, res', i', h')"
      using run by (simp add: resident_locked_def Let_def i0_def res_def)
    obtain el h1 where e: "elapsed_since env start h = (el, h1)" by fastforce
    have "provider_inv h1 j \<longleftrightarrow> provider_inv h j" for j by (simp add: provider_inv_def elapsed_since_owns [OF e])
    moreover have "\<And>g. provider_inv g i' \<longleftrightarrow> provider_inv g i0" "h' = h1" "st = STATUS_ERROR"
      "rr_failed_count res' = length ids" "rr_copied_count res' = 0" "rr_already_present_count res' = 0"
      using r res0 by (auto simp: resident_refused_def e Let_def)
    ultimately show ?thesis using inv0 by (auto simp: resident_report_def)
  next
    case (Some p)
    then obtain i1 h1 where ad: "adopt_source env (resident_source q) i0 h = Some (i1, h1)" by (cases p) auto
    have own: "owns h (impl_resources i0 + {#})" "cache_wf i0" using inv0 by (simp_all add: provider_inv_def)
    note A = adopt_source_wf [OF own(2,1) ad]
    let ?c = "CxxAllocate ''protected_keys.reserve''"
    let ?h2 = "(?c, env h1 ?c) # h1" and ?i = "clear_error i1"
    have inv1: "provider_inv ?h2 ?i" using A inv0 by (simp add: provider_inv_def)
    have src: "s_mode (i_source_identity ?i) = ResidentDevice" "s_layer_index (i_source_identity ?i) = rq_layer_index q"
      using A(4) by (simp_all add: resident_source_def new_identity_def)
    have fill: "fill_inv ResidentDevice (rq_layer_index q) (i_config ?i) {#} (?i, [], res, ?h2)"
      using inv1 src by (simp add: fill_inv_def' provider_inv_def)
    show ?thesis
    proof (cases "r_throws (env h1 ?c)")
      case True
      obtain el h3 where e: "elapsed_since env start ?h2 = (el, h3)" by fastforce
      have "provider_inv h3 j \<longleftrightarrow> provider_inv ?h2 j" for j by (simp add: provider_inv_def elapsed_since_owns [OF e])
      moreover have "\<And>g. provider_inv g i' \<longleftrightarrow> provider_inv g ?i" "h' = h3" "st = STATUS_ERROR"
        "rr_failed_count res' = length ids" "rr_copied_count res' = 0" "rr_already_present_count res' = 0"
        using run ad True res0
        by (auto simp: resident_locked_def Let_def i0_def [symmetric] res_def [symmetric] ask_def e
            account_resident_prewarm_exception_def)
      ultimately show ?thesis using inv1 by (auto simp: resident_report_def)
    next
      case False
      obtain i2 ks2 res2 h4 where lp: "resident_loop env q ids (?i, [], res, ?h2) = (i2, ks2, res2, h4)"
        by (metis surj_pair)
      have fin: "resident_finish env start (i2, ks2, res2, h4) = (st, res', i', h')"
        using run ad False lp by (simp add: resident_locked_def Let_def i0_def [symmetric] res_def [symmetric] ask_def)
      note run' = lp [unfolded resident_loop_foldl]
      have "fill_inv ResidentDevice (rq_layer_index q) (i_config ?i) {#} (i2, ks2, res2, h4)"
        using resident.loop_inv [OF fill] run' by metis
      then have inv2: "provider_inv h4 i2" by (simp add: fill_inv_def' provider_inv_def)
      note F = resident_finish_ok [OF fin]
      have "find_entry (rq_layer_index q) x i' \<noteq> None" if "st = STATUS_SUCCESS" "x \<in> set ids" for x
        using resident.loop_serves [OF fill run' _ that(2)] F(2) that(1) res0 find_entry_cong [OF F(4,5)] by simp
      then show ?thesis
        using inv2 F resident.loop_account(1) [OF fill run'] res0 by (auto simp: resident_report_def same_counts_def)
    qed
  qed
qed

lemma resident_cases:
  assumes "prewarm_resident env (Some i) request sz h = (st, res, p, h')"
  obtains (early) "p = Some i" "\<And>R. owns h' R \<longleftrightarrow> owns h R" "st = STATUS_ERROR"
      "\<And>r. res = Some r \<Longrightarrow> rr_error_code r = ERROR_INVALID_ARGUMENT"
  | (body) q ids start h1 r i' where "request = Some q" "rq_expert_ids_by_priority q = Some ids" "resident_request_valid q"
      "\<And>R. owns h1 R \<longleftrightarrow> owns h R" "resident_locked env q ids start i h1 = (st, r, i', h')"
      "res = Some r" "p = Some i'"
proof -
  let ?h1 = "(ClockNow, env h ClockNow) # h"
  have inv: "owns h2 R \<longleftrightarrow> owns h R" if "elapsed_since env t ?h1 = (e, h2)" for t e h2 R
    using elapsed_since_owns [OF that, of R] by simp
  consider (a) "sz = None \<or> (\<exists>n. sz = Some n \<and> \<not> struct_size_valid n sizeof_resident_result)"
    | (b) n where "sz = Some n" "struct_size_valid n sizeof_resident_result"
        "\<not> (\<exists>q ids. request = Some q \<and> rq_expert_ids_by_priority q = Some ids \<and> resident_request_valid q)"
    | (c) n q ids where "sz = Some n" "struct_size_valid n sizeof_resident_result" "request = Some q"
        "rq_expert_ids_by_priority q = Some ids" "resident_request_valid q"
    by (cases sz) blast+
  then show ?thesis
  proof cases
    case a
    then show ?thesis using assms early by (auto simp: prewarm_resident_def split: option.splits)
  next
    case b
    have "p = Some i \<and> (\<forall>R. owns h' R \<longleftrightarrow> owns h R) \<and> st = STATUS_ERROR \<and> (\<forall>r. res = Some r \<longrightarrow> rr_error_code r = ERROR_INVALID_ARGUMENT)"
      using assms b inv
      by (auto simp: prewarm_resident_def ask_def Let_def split: option.splits prod.splits if_splits)
    then show ?thesis using early by blast
  next
    case c
    then show ?thesis
      using assms body [OF c(3-5), of ?h1 "r_num (env h ClockNow)"]
      by (auto simp: prewarm_resident_def ask_def Let_def split: prod.splits)
  qed
qed

section \<open>Properties of the resident prewarm\<close>

definition example_resident_request :: resident_request where
  "example_resident_request = \<lparr>rq_struct_size = 104, rq_layer_index = 5, rq_source_generation = 1,
     rq_gate_up_device_base = 0x1000, rq_down_device_base = 0x2000, rq_gate_up_bytes_per_expert = 4194304,
     rq_down_bytes_per_expert = 2097152, rq_copy_to_host = 11, rq_copy_context = 0, rq_host_allocate = 12,
     rq_host_free = 13, rq_allocator_context = 0, rq_expert_ids_by_priority = Some [1, 2]\<rparr>"

definition example_resident ::
  "host_status \<times> resident_result option \<times> impl option \<times> host_hist" where
  "example_resident = prewarm_resident example_host (Some (new_impl example_config))
     (Some example_resident_request) (Some 120) []"

lemmas resident_eval = prewarm_eval prewarm_resident_def example_resident_request_def resident_request_valid_def
  sizeof_resident_request_def sizeof_resident_result_def resident_locked_def resident_source_def
  new_resident_result_def no_alloc_counters_def resident_expert_def uint64_max_def resident_replace_def
  resident_fill_def buffer_allocate_def buffer_reset_def empty_buffer_def resident_copy_gate_def
  resident_copy_down_def resident_copy_def resident_commit_def resident_finish_def resident_account_def
  resident_abandon_def resident_fail_def

lemma example_resident_outcome:
  "fst example_resident = STATUS_SUCCESS \<and> map_option rr_error_code (fst (snd example_resident)) = Some ERROR_NONE"
  unfolding example_resident_def by (simp add: resident_eval cong: let_weak_cong)

lemma prewarm_resident_inv:
  assumes "provider_inv h i" "prewarm_resident env (Some i) request sz h = (st, res, p, h')"
  shows "\<exists>i'. p = Some i' \<and> provider_inv h' i'"
  using assms(2)
proof (cases rule: resident_cases)
  case early
  then show ?thesis using assms(1) by (simp add: provider_inv_def)
next
  case (body q ids start h1 r i')
  then have "provider_inv h1 i" using assms(1) by (simp add: provider_inv_def)
  then show ?thesis using resident_locked_ok body by blast
qed

text \<open>
  C18. Whatever the allocator and copy callbacks do, raise or return, a resident prewarm call leaves
  a well-formed, unpinned cache that owns exactly the resources not given back.
\<close>

theorem prewarm_resident_keeps_provider:
  assumes "provider_inv h i" "prewarm_resident env (Some i) request sz h = (st, res, p, h')"
  shows "\<exists>i'. p = Some i' \<and> provider_inv h' i'"
  using assms by (rule prewarm_resident_inv)

theorem prewarm_resident_keeps_provider_witness:
  "\<exists>i. fst (snd (snd example_resident)) = Some i \<and> provider_inv (snd (snd (snd example_resident))) i"
proof -
  obtain st res p h where run: "example_resident = (st, res, p, h)" by (metis surj_pair)
  show ?thesis
    unfolding run using prewarm_resident_keeps_provider [OF new_provider_inv run [unfolded example_resident_def]] by simp
qed

text \<open>
  A resident prewarm accounts for every requested expert exactly once, as copied, already
  present or failed, on every path of a valid request, allocation failures outside the loop
  included; and when it reports success every requested expert is in the cache.
\<close>

theorem prewarm_resident_report:
  assumes "provider_inv h i" "prewarm_resident env (Some i) (Some q) sz h = (st, Some res, Some i', h')"
    and "rq_expert_ids_by_priority q = Some ids" "rr_error_code res \<noteq> ERROR_INVALID_ARGUMENT"
  shows "rr_copied_count res + rr_already_present_count res + rr_failed_count res = length ids
    \<and> (st = STATUS_SUCCESS \<longrightarrow> (\<forall>x \<in> set ids. find_entry (rq_layer_index q) x i' \<noteq> None))"
  using assms(2)
proof (cases rule: resident_cases)
  case (body q' ids' start h1 r i'')
  then have "provider_inv h1 i" using assms(1) by (simp add: provider_inv_def)
  from resident_locked_ok [OF this body(5)] body assms(3) show ?thesis by (simp add: resident_report_def)
qed (use assms(4) in simp)

theorem prewarm_resident_report_witness:
  "\<exists>res i' h'. example_resident = (STATUS_SUCCESS, Some res, Some i', h') \<and>
     rr_copied_count res + rr_already_present_count res + rr_failed_count res = 2 \<and> find_entry 5 2 i' \<noteq> None"
proof -
  obtain st r p h' where run': "example_resident = (st, r, p, h')" by (metis surj_pair)
  with example_resident_outcome obtain res where
    run: "example_resident = (STATUS_SUCCESS, Some res, p, h')" and err: "rr_error_code res = ERROR_NONE"
    unfolding run' by auto
  obtain i' where p: "p = Some i'"
    using run [unfolded example_resident_def] by (cases rule: resident_cases) blast+
  have ids: "rq_expert_ids_by_priority example_resident_request = Some [1, 2]" "rq_layer_index example_resident_request = 5"
    by (simp_all add: example_resident_request_def)
  have "rr_copied_count res + rr_already_present_count res + rr_failed_count res = 2 \<and> find_entry 5 2 i' \<noteq> None"
    using prewarm_resident_report [OF new_provider_inv run [unfolded example_resident_def p] ids(1)] err ids(2) by simp
  with run [unfolded p] show ?thesis by blast
qed

end
