(* ===== verification/Bf16.thy ===== *)
theory Bf16
  imports QRT_Prelude
begin

unbundle bit_operations_syntax

text \<open>
  The bfloat16 boundary of the host expert provider
  (\<^verbatim>\<open>native/providers/q1_moe_avx512bf16_host_provider.cpp\<close>) and of the CK attention provider
  (\<^verbatim>\<open>native/providers/ck_fmha/qrt_ck_fmha_q8192_provider.cpp\<close>). A binary32 value is its bit
  pattern; \<open>memcpy\<close> between \<open>float\<close> and \<open>uint32_t\<close> is the identity on it.
\<close>

type_synonym f32 = u32
type_synonym bf16 = u16

section \<open>Definitions\<close>

definition bf16_to_float :: "bf16 \<Rightarrow> f32" where
  "bf16_to_float bits = push_bit 16 (ucast bits)"

definition float_to_bf16 :: "f32 \<Rightarrow> bf16" where
  "float_to_bf16 value =
     (let bias = 0x7fff + (drop_bit 16 value AND 1)
      in ucast (drop_bit 16 (value + bias)))"

text \<open>The device-side conversion of the CK provider treats infinities and NaNs apart.\<close>

definition ck_f32_to_bf16 :: "f32 \<Rightarrow> bf16" where
  "ck_f32_to_bf16 bits =
     (if bits AND 0x7f800000 = 0x7f800000
      then let upper = ucast (drop_bit 16 bits)
           in if bits AND 0x007fffff \<noteq> 0 then upper OR 0x0040 else upper
      else let lsb = drop_bit 16 bits AND 1
           in ucast (drop_bit 16 (bits + 0x7fff + lsb)))"

text \<open>\<open>std::isfinite\<close> on binary32 and the loop over a bfloat16 array.\<close>

definition f32_is_finite :: "f32 \<Rightarrow> bool" where
  "f32_is_finite bits \<longleftrightarrow> bits AND 0x7f800000 \<noteq> 0x7f800000"

definition f32_is_nan :: "f32 \<Rightarrow> bool" where
  "f32_is_nan bits \<longleftrightarrow> bits AND 0x7f800000 = 0x7f800000 \<and> bits AND 0x007fffff \<noteq> 0"

fun bf16_values_finite :: "bf16 list \<Rightarrow> bool" where
  "bf16_values_finite [] = True"
| "bf16_values_finite (v # vs) =
     (if v AND 0x7f80 = 0x7f80 then False else bf16_values_finite vs)"

definition fnv1a64_offset :: u64 where
  "fnv1a64_offset = 1469598103934665603"

definition fnv1a64_prime :: u64 where
  "fnv1a64_prime = 1099511628211"

definition fnv1a64 :: "u8 list \<Rightarrow> u64" where
  "fnv1a64 bytes =
     foldl (\<lambda>hash byte. (hash XOR ucast byte) * fnv1a64_prime) fnv1a64_offset bytes"

section \<open>Arithmetic reading of the conversions\<close>

lemma unat_bf16_to_float: "unat (bf16_to_float b) = unat b * 65536"
  using unat_u16_lt [of b] by (simp add: bf16_to_float_def word_nat)

lemma unat_and_lsb: "unat ((w :: 'a::len word) AND 1) = unat w mod 2"
  using unat_and_mask [of "1 :: 'a word" 1 w] by (simp add: mask_eq_exp_minus_1)

lemma unat_float_to_bf16_wrap:
  "unat (float_to_bf16 x) =
     (unat x + 32767 + unat x div 65536 mod 2) mod 4294967296 div 65536"
proof -
  let ?lsb = "unat x div 65536 mod 2"
  have "unat (drop_bit 16 x AND 1) = ?lsb"
    by (simp add: unat_and_lsb word_nat)
  then have bias: "unat (0x7fff + (drop_bit 16 x AND 1)) = 32767 + ?lsb"
    by (simp add: word_nat)
  have "unat (x + (0x7fff + (drop_bit 16 x AND 1))) = (unat x + (32767 + ?lsb)) mod 4294967296"
    by (subst unat_add_mod) (simp add: bias)
  moreover have "(unat x + (32767 + ?lsb)) mod 4294967296 div 65536 < 65536"
    by (simp add: div_less_iff_less_mult)
  ultimately show ?thesis
    by (simp add: float_to_bf16_def Let_def word_nat add.assoc)
qed

text \<open>Away from the top of the encoding space the rounding sum does not wrap.\<close>

lemma unat_float_to_bf16:
  assumes "unat x < 4294934528"
  shows "unat (float_to_bf16 x) = (unat x + 32767 + unat x div 65536 mod 2) div 65536"
proof -
  have "unat x + 32767 + unat x div 65536 mod 2 < 4294967296"
    using assms mod_less_divisor [of 2 "unat x div 65536"] by linarith
  then show ?thesis by (simp add: unat_float_to_bf16_wrap)
qed

lemma f32_is_finite_unat: "f32_is_finite x \<longleftrightarrow> unat x div 8388608 mod 256 \<noteq> 255"
  using field_full_iff [of "0x7f800000 :: u32" 23 8 x]
  by (simp add: f32_is_finite_def mask_eq_exp_minus_1 push_bit_eq_mult)

lemma bf16_finite_unat:
  "(b :: bf16) AND 0x7f80 = 0x7f80 \<longleftrightarrow> unat b div 128 mod 256 = 255"
  using field_full_iff [of "0x7f80 :: u16" 7 8 b]
  by (simp add: mask_eq_exp_minus_1 push_bit_eq_mult)

section \<open>Properties\<close>

text \<open>
  Widening a bfloat16 to binary32 and rounding it back is the identity, for every one of
  the 65536 encodings, NaNs and infinities included.
\<close>

lemma float_to_bf16_roundtrip: "float_to_bf16 (bf16_to_float b) = b"
proof -
  have b: "unat b < 65536" by (rule unat_u16_lt)
  then have "unat (float_to_bf16 (bf16_to_float b)) = (unat b * 65536 + 32767 + unat b mod 2) div 65536"
    by (subst unat_float_to_bf16) (simp_all add: unat_bf16_to_float)
  also have "\<dots> = unat b"
    by (rule div_nat_eqI) (use mod_less_divisor [of 2 "unat b"] in \<open>simp_all\<close>)
  finally show ?thesis by (simp add: word_unat_eq_iff)
qed

text \<open>
  C36. Rounding is to nearest, ties to even, on the encoding: below the wrap-around
  region the chosen bfloat16 is at most half a step away, and exactly half a step away
  only if its last bit is zero.
\<close>

theorem float_to_bf16_nearest_even:
  assumes "unat x < 4294934528"
  shows "\<bar>int (unat (bf16_to_float (float_to_bf16 x))) - int (unat x)\<bar> \<le> 32768 \<and>
    (\<bar>int (unat (bf16_to_float (float_to_bf16 x))) - int (unat x)\<bar> = 32768 \<longrightarrow>
       even (unat (float_to_bf16 x)))"
proof -
  define q r where "q = unat x div 65536" and "r = unat x mod 65536"
  have x: "unat x = q * 65536 + r" and r: "r < 65536"
    by (simp_all add: q_def r_def)
  define y where "y = unat (float_to_bf16 x)"
  have y: "y = (q * 65536 + r + 32767 + q mod 2) div 65536"
    using unat_float_to_bf16 [OF assms] by (simp add: y_def q_def r_def)
  have "y = (if r + 32767 + q mod 2 < 65536 then q else q + 1)"
    unfolding y using r by (auto intro!: div_nat_eqI)
  then show ?thesis
    using r by (auto simp: unat_bf16_to_float x simp flip: y_def split: if_splits)
qed

theorem float_to_bf16_nearest_even_witness:
  "unat (0x3f808000 :: f32) < 4294934528 \<and>
   \<bar>int (unat (bf16_to_float (float_to_bf16 0x3f808000))) - int (unat (0x3f808000 :: f32))\<bar> = 32768 \<and>
   even (unat (float_to_bf16 0x3f808000))"
proof -
  have h: "unat (0x3f808000 :: f32) < 4294934528" by simp
  have "float_to_bf16 0x3f808000 = 0x3f80" by (simp add: float_to_bf16_def)
  then show ?thesis
    using float_to_bf16_nearest_even [OF h] by (simp add: bf16_to_float_def)
qed

text \<open>
  On every finite input the host conversion and the device conversion of the CK
  provider agree, although only the latter tests for non-finite encodings.
\<close>

lemma bf16_conversions_agree_on_finite:
  assumes "f32_is_finite x"
  shows "ck_f32_to_bf16 x = float_to_bf16 x"
  using assms by (simp add: ck_f32_to_bf16_def float_to_bf16_def f32_is_finite_def Let_def add.assoc)

lemma ck_f32_to_bf16_nan_bits:
  assumes "f32_is_nan x"
  shows "ck_f32_to_bf16 x = ucast (drop_bit 16 x) OR 0x0040"
  using assms by (simp add: ck_f32_to_bf16_def f32_is_nan_def Let_def)

text \<open>
  The device conversion keeps NaN: a NaN input gives a bfloat16 with an all-ones
  exponent and a non-zero fraction.
\<close>

lemma ck_f32_to_bf16_keeps_nan:
  assumes "f32_is_nan x"
  shows "ck_f32_to_bf16 x AND 0x7f80 = 0x7f80 \<and> ck_f32_to_bf16 x AND 0x007f \<noteq> 0"
proof -
  have eq: "ck_f32_to_bf16 x = ucast (drop_bit 16 x) OR 0x0040"
    using assms by (rule ck_f32_to_bf16_nan_bits)
  have "unat x div 8388608 mod 256 = 255"
    using assms f32_is_finite_unat [of x] by (auto simp: f32_is_nan_def f32_is_finite_def)
  then have "unat (ucast (drop_bit 16 x) :: bf16) div 128 mod 256 = 255"
    using unat_u32_lt [of x] by (simp add: word_nat div_mult2_eq [symmetric])
  then have "(ucast (drop_bit 16 x) :: bf16) AND 0x7f80 = 0x7f80"
    by (simp add: bf16_finite_unat)
  moreover have "bit (0x0040 :: bf16) 6" and "bit (0x007f :: bf16) 6"
    by (simp_all add: bit_numeral_rec)
  ultimately have "(ucast (drop_bit 16 x) OR 0x0040 :: bf16) AND 0x7f80 = 0x7f80"
    and "bit ((ucast (drop_bit 16 x) OR 0x0040 :: bf16) AND 0x007f) 6"
    by (simp_all add: bit.conj_disj_distrib2 bit_simps) 
  then show ?thesis unfolding eq by (metis bit_0_eq bot_apply bot_bool_def)
qed

text \<open>
  The host conversion does not: among the non-finite inputs, exactly those whose bits
  15 to 30 are all ones round up past the exponent field and come out as a signed zero,
  which passes every later finiteness test.
\<close>

theorem float_to_bf16_nonfinite:
  assumes "\<not> f32_is_finite x"
  shows "(float_to_bf16 x AND 0x7f80 \<noteq> 0x7f80 \<longleftrightarrow> x AND 0x7fff8000 = 0x7fff8000) \<and>
    (x AND 0x7fff8000 = 0x7fff8000 \<longrightarrow> float_to_bf16 x AND 0x7fff = 0)"
proof -
  define s f where "s = unat x div 2147483648" and "f = unat x mod 8388608"
  have exp: "unat x div 8388608 mod 256 = 255"
    using assms by (simp add: f32_is_finite_unat)
  have "unat x div 8388608 = unat x div 8388608 div 256 * 256 + 255"
    using div_mult_mod_eq [of "unat x div 8388608" 256] by (simp only: exp)
  then have "unat x div 8388608 = s * 256 + 255"
    by (simp add: s_def flip: div_mult2_eq)
  then have x: "unat x = s * 2147483648 + 2139095040 + f" and f: "f < 8388608"
    using div_mult_mod_eq [of "unat x" 8388608] by (simp_all add: f_def)
  have s: "s = 0 \<or> s = 1"
    using unat_u32_lt [of x] unfolding s_def by linarith
  have "f div 32768 < 256" using f by (simp add: div_less_iff_less_mult)
  then have "(s * 65536 + (65280 + f div 32768)) mod 65536 = 65280 + f div 32768"
    by (simp only: mod_mult_self3) simp
  moreover have "unat x div 32768 = s * 65536 + (65280 + f div 32768)"
    by (simp add: x)
  ultimately have "unat x div 32768 mod 65536 = 65280 + f div 32768"
    by (simp only:)
  then have field: "x AND 0x7fff8000 = 0x7fff8000 \<longleftrightarrow> 8355840 \<le> f"
    using field_full_iff [of "0x7fff8000 :: u32" 15 16 x] f
    by (auto simp: mask_eq_exp_minus_1 push_bit_eq_mult)
  have low: "unat (float_to_bf16 x AND 0x7fff) = unat (float_to_bf16 x) mod 32768"
    using unat_and_mask [of "0x7fff :: bf16" 15 "float_to_bf16 x"] by (simp add: mask_eq_exp_minus_1)
  show ?thesis
  proof (cases "8355840 \<le> f")
    case True
    then obtain g where g: "f = 8355840 + g" and "g < 32768"
      using f by (auto simp: le_iff_add)
    then have "unat x div 65536 = s * 32768 + 32767"
      by (intro div_nat_eqI) (simp_all add: x)
    then have "unat x div 65536 mod 2 = 1"
      by (simp add: mod_add_left_eq [symmetric])
    then have "unat (float_to_bf16 x) = (1 - s) * 32768"
      using s \<open>g < 32768\<close> by (elim disjE; simp add: unat_float_to_bf16_wrap) (simp_all add: x g)
    then have "unat (float_to_bf16 x) div 128 mod 256 \<noteq> 255"
      and "unat (float_to_bf16 x) mod 32768 = 0"
      using s by auto
    with field True low show ?thesis
      by (simp add: bf16_finite_unat unat_0_iff)
  next
    case False
    then have "s * 32768 + 32640 \<le> unat (float_to_bf16 x)"
      and "unat (float_to_bf16 x) < s * 32768 + 32768"
      using s by (auto simp: unat_float_to_bf16_wrap x less_eq_div_iff_mult_less_eq div_less_iff_less_mult)
    then have "unat (float_to_bf16 x) div 128 = s * 256 + 255"
      by (intro div_nat_eqI) simp_all
    then have "unat (float_to_bf16 x) div 128 mod 256 = 255" by simp
    with field False show ?thesis by (simp add: bf16_finite_unat)
  qed
qed

theorem float_to_bf16_nonfinite_witness:
  "\<not> f32_is_finite 0x7fffffff \<and> float_to_bf16 0x7fffffff AND 0x7fff = 0 \<and>
   \<not> f32_is_finite 0xffc00000 \<and> float_to_bf16 0xffc00000 AND 0x7f80 = 0x7f80"
proof -
  have n1: "\<not> f32_is_finite 0x7fffffff" and n2: "\<not> f32_is_finite 0xffc00000"
    by (simp_all add: f32_is_finite_def)
  from float_to_bf16_nonfinite [OF n1] float_to_bf16_nonfinite [OF n2] n1 n2
  show ?thesis by simp
qed

end
