(* ===== verification/Hawkeye.thy ===== *)
theory Hawkeye
  imports Bf16
begin

unbundle bit_operations_syntax

text \<open>
  The bfloat16 matrix-instruction accumulator of
  \<^verbatim>\<open>native/providers/moe_accumulator/q1_moe_hawkeye_bf16_accumulator.h\<close>: products are
  exact, a group of products and the running accumulator are aligned to the largest
  exponent, truncated to an internal significand width and added as integers, and the sum
  is renormalised to 24 bits. The template parameters \<open>InternalSignificandWidth\<close>,
  \<open>ProductsPerGroup\<close> and \<open>ZeroExponent\<close> are the fields of a record. Shift distances, the
  wide sum and its magnitude are kept as unbounded numbers: the lemmas below bound them
  well inside the 64-bit types of the source.
\<close>

section \<open>Data\<close>

record hawkeye_value =
  significand :: u32
  exponent :: int
  negative :: bool

record hawkeye_params =
  InternalSignificandWidth :: nat
  ProductsPerGroup :: nat
  ZeroExponent :: int

text \<open>The \<open>static_assert\<close>s of \<open>group_sum\<close> and \<open>accumulate_bf16_impl\<close>.\<close>

definition params_ok :: "hawkeye_params \<Rightarrow> bool" where
  "params_ok P \<longleftrightarrow>
     24 \<le> InternalSignificandWidth P \<and> InternalSignificandWidth P \<le> 26 \<and>
     (ProductsPerGroup P = 4 \<or> ProductsPerGroup P = 8 \<or> ProductsPerGroup P = 16)"

section \<open>Operations\<close>

text \<open>\<open>64 - clz\<close>, or the index \<open>_BitScanReverse64\<close> finds plus one.\<close>

definition bit_width_u64 :: "nat \<Rightarrow> nat" where
  "bit_width_u64 value = (if value = 0 then 0 else bit_width value)"

lemma bit_width_u64_eq [simp]: "bit_width_u64 n = bit_width n"
  by (simp add: bit_width_u64_def)

definition multiply_bf16 :: "bf16 \<Rightarrow> bf16 \<Rightarrow> int \<Rightarrow> hawkeye_value" where
  "multiply_bf16 left right zero_exponent =
     (let negative = ((left XOR right) AND 0x8000 \<noteq> 0);
          left_exponent = drop_bit 7 (ucast left :: u32) AND 0xff;
          right_exponent = drop_bit 7 (ucast right :: u32) AND 0xff;
          left_fraction = (ucast left :: u32) AND 0x7f;
          right_fraction = (ucast right :: u32) AND 0x7f;
          left_significand = (if left_exponent \<noteq> 0 then left_fraction OR 0x80 else left_fraction);
          right_significand = (if right_exponent \<noteq> 0 then right_fraction OR 0x80 else right_fraction);
          left_exponent = (if left_exponent = 0 then 1 else left_exponent);
          right_exponent = (if right_exponent = 0 then 1 else right_exponent);
          significand = push_bit 9 (left_significand * right_significand)
      in if significand = 0
         then \<lparr>significand = 0, exponent = zero_exponent, negative = negative\<rparr>
         else \<lparr>significand = significand,
               exponent = int16_of_int (uint left_exponent + uint right_exponent - 254),
               negative = negative\<rparr>)"

text \<open>The first loop of \<open>group_sum\<close>.\<close>

definition group_max_exponent :: "int \<Rightarrow> hawkeye_value list \<Rightarrow> int" where
  "group_max_exponent zero_exponent values =
     foldl (\<lambda>m v. if exponent v > m then exponent v else m) zero_exponent values"

text \<open>The body of its second loop: one signed, aligned and truncated contribution.\<close>

definition aligned_term :: "nat \<Rightarrow> int \<Rightarrow> hawkeye_value \<Rightarrow> int" where
  "aligned_term k max_exponent v =
     (let shift = max_exponent - exponent v
      in if shift \<ge> 32 then 0
         else let aligned = drop_bit (nat shift) (push_bit k (ucast (significand v) :: u64))
              in if negative v then - int (unat aligned) else int (unat aligned))"

definition group_signed_sum :: "nat \<Rightarrow> int \<Rightarrow> hawkeye_value list \<Rightarrow> int" where
  "group_signed_sum k max_exponent values =
     foldl (\<lambda>s v. s + aligned_term k max_exponent v) 0 values"

text \<open>Renormalisation of the wide sum, with gradual underflow at exponent -126.\<close>

definition group_normalize :: "nat \<Rightarrow> int \<Rightarrow> int \<Rightarrow> int \<Rightarrow> hawkeye_value" where
  "group_normalize W zero_exponent max_exponent signed_significand =
     (let negative = (signed_significand < 0);
          magnitude = nat (if negative then - signed_significand else signed_significand);
          width = bit_width_u64 magnitude
      in if width = 0 then \<lparr>significand = 0, exponent = zero_exponent, negative = negative\<rparr>
         else
           let exponent = int16_of_int (max_exponent + int width - int W);
               normalized = (if width > W then magnitude div 2 ^ (width - W)
                             else magnitude * 2 ^ (W - width));
               underflow_shift = nat (- 126 - exponent);
               normalized = (if exponent < - 126
                             then (if underflow_shift \<ge> 64 then 0 else normalized div 2 ^ underflow_shift)
                             else normalized);
               exponent = (if exponent < - 126 then - 126 else exponent);
               normalized = normalized div 2 ^ (W - 24)
           in if normalized = 0
              then \<lparr>significand = 0, exponent = zero_exponent, negative = negative\<rparr>
              else \<lparr>significand = of_nat normalized, exponent = exponent, negative = negative\<rparr>)"

definition group_sum :: "nat \<Rightarrow> int \<Rightarrow> hawkeye_value list \<Rightarrow> hawkeye_value" where
  "group_sum W zero_exponent values =
     (let max_exponent = group_max_exponent zero_exponent values
      in group_normalize W zero_exponent max_exponent
           (group_signed_sum (W - 24) max_exponent values))"

definition value_to_float :: "hawkeye_value \<Rightarrow> f32" where
  "value_to_float v =
     (if significand v = 0 then 0
      else
        let sign = (if negative v then 0x80000000 else 0);
            exponent_bits = exponent v + 127;
            exponent_bits = (if significand v AND 0x800000 = 0 then exponent_bits - 1
                             else exponent_bits)
        in sign OR push_bit 23 (word_of_int exponent_bits AND 0xff)
             OR (significand v AND 0x7fffff))"

definition value_from_float :: "f32 \<Rightarrow> int \<Rightarrow> hawkeye_value" where
  "value_from_float bits zero_exponent =
     (let negative = (bits AND 0x80000000 \<noteq> 0);
          exponent_bits = drop_bit 23 bits AND 0xff;
          fraction = bits AND 0x7fffff
      in if exponent_bits = 0 \<and> fraction = 0
         then \<lparr>significand = 0, exponent = zero_exponent, negative = negative\<rparr>
         else \<lparr>significand = (if exponent_bits = 0 then fraction else fraction OR 0x800000),
               exponent = (if exponent_bits = 0 then - 126
                           else int16_of_int (uint exponent_bits - 127)),
               negative = negative\<rparr>)"

text \<open>
  The \<open>while\<close> loop of \<open>accumulate_bf16_impl\<close>. The \<open>static_assert\<close> excludes an empty group;
  the test of it makes the recursion total.
\<close>

function accumulate_loop ::
  "hawkeye_params \<Rightarrow> bf16 list \<Rightarrow> bf16 list \<Rightarrow> nat \<Rightarrow> nat \<Rightarrow> hawkeye_value \<Rightarrow> hawkeye_value" where
  "accumulate_loop P left right elements offset accumulator =
     (if offset < elements \<and> ProductsPerGroup P > 0 then
        let remaining = elements - offset;
            product_count = (if remaining < ProductsPerGroup P then remaining else ProductsPerGroup P);
            group = accumulator #
              map (\<lambda>index. multiply_bf16 (left ! (offset + index)) (right ! (offset + index))
                             (ZeroExponent P)) [0..<product_count]
        in accumulate_loop P left right elements (offset + product_count)
             (group_sum (InternalSignificandWidth P) (ZeroExponent P) group)
      else accumulator)"
  by pat_completeness auto
termination
  by (relation "measure (\<lambda>(P, left, right, elements, offset, accumulator). elements - offset)") auto

declare accumulate_loop.simps [simp del]

definition accumulate_bf16_impl :: "hawkeye_params \<Rightarrow> f32 \<Rightarrow> bf16 list \<Rightarrow> bf16 list \<Rightarrow> nat \<Rightarrow> f32" where
  "accumulate_bf16_impl P initial_accumulator left right elements =
     (let accumulator = accumulate_loop P left right elements 0
                          (value_from_float initial_accumulator (ZeroExponent P))
      in value_to_float (group_sum (InternalSignificandWidth P) (ZeroExponent P) [accumulator]))"

definition dot_bf16_impl :: "hawkeye_params \<Rightarrow> bf16 list \<Rightarrow> bf16 list \<Rightarrow> nat \<Rightarrow> f32" where
  "dot_bf16_impl P left right elements = accumulate_bf16_impl P 0 left right elements"

section \<open>The published parameter sets\<close>

definition params_ampere_lovelace :: hawkeye_params where
  "params_ampere_lovelace = \<lparr>InternalSignificandWidth = 25, ProductsPerGroup = 8, ZeroExponent = - 132\<rparr>"

definition params_hopper :: hawkeye_params where
  "params_hopper = \<lparr>InternalSignificandWidth = 26, ProductsPerGroup = 16, ZeroExponent = - 133\<rparr>"

definition params_group8_width26 :: hawkeye_params where
  "params_group8_width26 = \<lparr>InternalSignificandWidth = 26, ProductsPerGroup = 8, ZeroExponent = - 133\<rparr>"

definition params_group16_width25 :: hawkeye_params where
  "params_group16_width25 = \<lparr>InternalSignificandWidth = 25, ProductsPerGroup = 16, ZeroExponent = - 132\<rparr>"

definition params_group4_width25 :: hawkeye_params where
  "params_group4_width25 = \<lparr>InternalSignificandWidth = 25, ProductsPerGroup = 4, ZeroExponent = - 132\<rparr>"

definition params_group8_width24 :: hawkeye_params where
  "params_group8_width24 = \<lparr>InternalSignificandWidth = 24, ProductsPerGroup = 8, ZeroExponent = - 131\<rparr>"

lemmas params_defs = params_ampere_lovelace_def params_hopper_def params_group8_width26_def
  params_group16_width25_def params_group4_width25_def params_group8_width24_def

definition dot_bf16_ampere_lovelace :: "bf16 list \<Rightarrow> bf16 list \<Rightarrow> nat \<Rightarrow> f32" where
  "dot_bf16_ampere_lovelace = dot_bf16_impl params_ampere_lovelace"

definition dot_bf16_hopper :: "bf16 list \<Rightarrow> bf16 list \<Rightarrow> nat \<Rightarrow> f32" where
  "dot_bf16_hopper = dot_bf16_impl params_hopper"

definition accumulate_bf16_ampere_lovelace :: "f32 \<Rightarrow> bf16 list \<Rightarrow> bf16 list \<Rightarrow> nat \<Rightarrow> f32" where
  "accumulate_bf16_ampere_lovelace = accumulate_bf16_impl params_ampere_lovelace"

definition accumulate_bf16_hopper :: "f32 \<Rightarrow> bf16 list \<Rightarrow> bf16 list \<Rightarrow> nat \<Rightarrow> f32" where
  "accumulate_bf16_hopper = accumulate_bf16_impl params_hopper"

definition dot_bf16_group8_width26 :: "bf16 list \<Rightarrow> bf16 list \<Rightarrow> nat \<Rightarrow> f32" where
  "dot_bf16_group8_width26 = dot_bf16_impl params_group8_width26"

definition dot_bf16_group16_width25 :: "bf16 list \<Rightarrow> bf16 list \<Rightarrow> nat \<Rightarrow> f32" where
  "dot_bf16_group16_width25 = dot_bf16_impl params_group16_width25"

definition dot_bf16_group4_width25 :: "bf16 list \<Rightarrow> bf16 list \<Rightarrow> nat \<Rightarrow> f32" where
  "dot_bf16_group4_width25 = dot_bf16_impl params_group4_width25"

definition dot_bf16_group8_width24 :: "bf16 list \<Rightarrow> bf16 list \<Rightarrow> nat \<Rightarrow> f32" where
  "dot_bf16_group8_width24 = dot_bf16_impl params_group8_width24"

section \<open>Reading the operands\<close>

definition bf16_exponent_field :: "bf16 \<Rightarrow> nat" where
  "bf16_exponent_field b = unat b div 128 mod 256"

definition bf16_significand :: "bf16 \<Rightarrow> nat" where
  "bf16_significand b =
     (if bf16_exponent_field b = 0 then unat b mod 128 else unat b mod 128 + 128)"

definition bf16_real :: "bf16 \<Rightarrow> real" where
  "bf16_real b = (if bit b 15 then - 1 else 1) * real (bf16_significand b) *
     2 powi (int (max 1 (bf16_exponent_field b)) - 134)"

definition hawkeye_real :: "hawkeye_value \<Rightarrow> real" where
  "hawkeye_real v = (if negative v then - 1 else 1) * real (unat (significand v)) *
     2 powi (exponent v - 23)"

lemma bf16_significand_le: "bf16_significand b \<le> 255"
proof -
  have "unat b mod 128 < 128" by simp
  then show ?thesis unfolding bf16_significand_def by (auto split: if_splits)
qed

lemma bf16_exponent_field_less: "bf16_exponent_field b < 256"
  by (simp add: bf16_exponent_field_def)

lemma unat_exponent_field:
  "unat (drop_bit 7 (ucast (b :: bf16) :: u32) AND 0xff) = bf16_exponent_field b"
  using unat_and_mask [of "0xff :: u32" 8 "drop_bit 7 (ucast b)"] unat_u16_lt [of b]
  by (simp add: bf16_exponent_field_def mask_eq_exp_minus_1 word_nat)

lemma unat_fraction_field: "unat ((ucast (b :: bf16) :: u32) AND 0x7f) = unat b mod 128"
  using unat_and_mask [of "0x7f :: u32" 7 "ucast b"] unat_u16_lt [of b]
  by (simp add: mask_eq_exp_minus_1 word_nat)

lemma unat_operand_significand:
  "unat (if drop_bit 7 (ucast (b :: bf16) :: u32) AND 0xff \<noteq> 0
         then (ucast b AND 0x7f) OR 0x80 else (ucast b :: u32) AND 0x7f) = bf16_significand b"
proof -
  have zero: "drop_bit 7 (ucast b :: u32) AND 0xff = 0 \<longleftrightarrow> bf16_exponent_field b = 0"
    by (simp add: word_unat_eq_iff unat_exponent_field)
  have "unat ((ucast b AND 0x7f) OR 0x80 :: u32) = unat b mod 128 + 128"
    using unat_or_disjoint [of "ucast b AND 0x7f :: u32" "0x80"]
    by (simp add: and.assoc unat_fraction_field)
  then show ?thesis
    by (simp add: zero bf16_significand_def unat_fraction_field)
qed

lemma uint_operand_exponent:
  "uint (if drop_bit 7 (ucast (b :: bf16) :: u32) AND 0xff = 0 then 1
         else drop_bit 7 (ucast b :: u32) AND 0xff) = int (max 1 (bf16_exponent_field b))"
proof -
  have "uint (drop_bit 7 (ucast b :: u32) AND 0xff) = int (bf16_exponent_field b)"
    by (simp flip: unat_exponent_field)
  moreover have "drop_bit 7 (ucast b :: u32) AND 0xff = 0 \<longleftrightarrow> bf16_exponent_field b = 0"
    by (simp add: word_unat_eq_iff unat_exponent_field)
  ultimately show ?thesis by (auto simp: max_def)
qed

lemma multiply_bf16_fields:
  "multiply_bf16 l r z =
     (let s = bf16_significand l * bf16_significand r * 512
      in \<lparr>significand = of_nat s,
          exponent = (if s = 0 then z
                      else int (max 1 (bf16_exponent_field l)) + int (max 1 (bf16_exponent_field r)) - 254),
          negative = (bit l 15 \<noteq> bit r 15)\<rparr>)"
proof -
  let ?s = "\<lambda>b. if drop_bit 7 (ucast (b :: bf16) :: u32) AND 0xff \<noteq> 0
         then (ucast b AND 0x7f) OR 0x80 else (ucast b :: u32) AND 0x7f"
  have le: "bf16_significand l * bf16_significand r \<le> 255 * 255"
    by (intro mult_mono bf16_significand_le) simp_all
  have u: "unat (push_bit 9 (?s l * ?s r)) = bf16_significand l * bf16_significand r * 512"
    using le by (simp only: unat_push_bit_mult unat_mult_mod unat_operand_significand) simp
  then have w: "push_bit 9 (?s l * ?s r) = of_nat (bf16_significand l * bf16_significand r * 512)"
    by (rule word_eq_of_natI)
  have z: "push_bit 9 (?s l * ?s r) = 0 \<longleftrightarrow> bf16_significand l * bf16_significand r * 512 = 0"
    unfolding word_unat_eq_iff [of "push_bit 9 (?s l * ?s r)"] u by simp
  have n: "(l XOR r) AND 0x8000 \<noteq> 0 \<longleftrightarrow> bit l 15 \<noteq> bit r 15"
    using and_exp_eq_0_iff_not_bit [of "l XOR r" 15] by (simp add: bit_xor_iff)
  have e: "int16_of_int (int (max 1 (bf16_exponent_field l)) + int (max 1 (bf16_exponent_field r)) - 254)
      = int (max 1 (bf16_exponent_field l)) + int (max 1 (bf16_exponent_field r)) - 254"
    using bf16_exponent_field_less [of l] bf16_exponent_field_less [of r]
    by (intro int16_of_int_small) auto
  show ?thesis
    unfolding multiply_bf16_def Let_def uint_operand_exponent n z e unfolding w by auto
qed

text \<open>
  Products are exact: the value \<^verbatim>\<open>multiply_bf16\<close> builds is the real product of its two
  bfloat16 operands, for every pair of bit patterns (subnormal operands included, and an
  operand with a full exponent field read as a number) and every exponent chosen for zero.
\<close>

theorem multiply_bf16_exact: "hawkeye_real (multiply_bf16 l r z) = bf16_real l * bf16_real r"
proof -
  define s where "s = bf16_significand l * bf16_significand r"
  have "s \<le> 255 * 255"
    unfolding s_def by (intro mult_mono bf16_significand_le) simp_all
  then have u: "unat (of_nat (s * 512) :: u32) = s * 512"
    by (intro unat_of_nat_small) simp
  define e where "e = (\<lambda>b. int (max 1 (bf16_exponent_field b)))"
  have p: "(2::real) powi (e l + e r - 254 - 23) * 512 = 2 powi (e l - 134) * 2 powi (e r - 134)"
  proof -
    have "(2::real) powi (e l - 134) * 2 powi (e r - 134) = 2 powi (e l + e r - 254 - 23 + 9)"
      by (simp flip: power_int_add)
    also have "\<dots> = 2 powi (e l + e r - 254 - 23) * 2 powi 9" by (rule power_int_add) simp
    finally show ?thesis by simp
  qed
  have "hawkeye_real (multiply_bf16 l r z) =
      (if bit l 15 \<noteq> bit r 15 then - 1 else 1) * real s * (2 powi (e l + e r - 254 - 23) * 512)"
    unfolding hawkeye_real_def multiply_bf16_fields Let_def s_def [symmetric]
      hawkeye_value.select_convs u e_def
    by auto
  also have "\<dots> = bf16_real l * bf16_real r"
    unfolding p unfolding bf16_real_def s_def e_def by auto
  finally show ?thesis .
qed

section \<open>Packing and unpacking single precision\<close>

lemma bit_f32_sign: "bit (0x80000000 :: int) n \<longleftrightarrow> n = 31"
  using bit_exp_iff [of 31 n, where ?'a = int] by auto

lemma f32_masks: "(0xff :: f32) = mask 8" "(0x7fffff :: f32) = mask 23"
  by (simp_all add: mask_eq_exp_minus_1)

lemma f32_fields_join:
  "(b AND 0x80000000) OR push_bit 23 (drop_bit 23 b AND 0xff) OR (b AND 0x7fffff) = (b :: f32)"
  unfolding f32_masks by (rule bit_word_eqI) (auto simp: bit_simps bit_f32_sign)

lemma f32_fraction_hidden_bit:
  "((b AND 0x7fffff) OR 0x800000) AND 0x800000 = (0x800000 :: f32)"
  "((b AND 0x7fffff) OR 0x800000) AND 0x7fffff = (b AND 0x7fffff :: f32)"
  "(b AND 0x7fffff) AND 0x800000 = (0 :: f32)"
  by (simp_all add: and.assoc bit.conj_disj_distrib bit.conj_disj_distrib2)

lemma f32_sign_select: "(if b AND 0x80000000 \<noteq> 0 then 0x80000000 else 0) = b AND (0x80000000 :: f32)"
proof -
  have "b AND 0x80000000 = (if bit b 31 then 0x80000000 else 0)"
    by (rule bit_word_eqI) (auto simp: bit_simps bit_f32_sign)
  then show ?thesis by simp
qed

lemma pack_of_unpack:
  "value_to_float (value_from_float b z) = (if b = 0x80000000 then 0 else b)"
proof -
  define e f g where "e = drop_bit 23 b AND 0xff" and "f = b AND 0x7fffff"
    and "g = b AND 0x80000000"
  note folds = e_def [symmetric] f_def [symmetric] g_def [symmetric]
  have join: "g OR push_bit 23 e OR f = b"
    unfolding e_def f_def g_def by (rule f32_fields_join)
  have sign: "(if g \<noteq> 0 then 0x80000000 else 0) = g"
    unfolding g_def by (rule f32_sign_select)
  note hidden = f32_fraction_hidden_bit [of b, folded f_def]
  have e8: "e AND 0xff = e" and f23: "f AND 0x7fffff = f" and h: "f OR 0x800000 \<noteq> 0"
    by (simp_all add: e_def f_def and.assoc or_eq_0_iff)
  have e_lt: "unat e < 256"
    using unat_and_mask [of "0xff :: u32" 8 "drop_bit 23 b"] by (simp add: e_def mask_eq_exp_minus_1)
  then have e16: "int16_of_int (uint e - 127) = uint e - 127"
    by (intro int16_of_int_small) (unfold uint_nat, linarith+)
  have unpack: "value_from_float b z =
      (if e = 0 \<and> f = 0 then \<lparr>significand = 0, exponent = z, negative = (g \<noteq> 0)\<rparr>
       else \<lparr>significand = (if e = 0 then f else f OR 0x800000),
             exponent = (if e = 0 then - 126 else uint e - 127), negative = (g \<noteq> 0)\<rparr>)"
    unfolding value_from_float_def Let_def folds e16 ..
  have b0: "e = 0 \<Longrightarrow> f = 0 \<Longrightarrow> b = g" using join by simp
  have "b \<noteq> 0x80000000" if "e \<noteq> 0 \<or> f \<noteq> 0"
    using that by (auto simp: e_def f_def)
  with b0 join sign show ?thesis
    unfolding unpack value_to_float_def Let_def
    by (cases "e = 0"; cases "f = 0") (auto simp: hidden e8 f23 h split: if_splits)
qed

section \<open>Alignment and the wide sum\<close>

text \<open>
  Every product has a significand below \<open>2 ^ 25\<close> and every accumulator one below \<open>2 ^ 24\<close>;
  \<open>short_significand\<close> is what the alignment relies on.
\<close>

definition short_significand :: "hawkeye_value \<Rightarrow> bool" where
  "short_significand v \<longleftrightarrow> unat (significand v) < 2 ^ 25"

definition signed_of :: "hawkeye_value \<Rightarrow> nat \<Rightarrow> int" where
  "signed_of v n = (if negative v then - int n else int n)"

lemma multiply_bf16_short: "short_significand (multiply_bf16 l r z)"
proof -
  have "bf16_significand l * bf16_significand r \<le> 255 * 255"
    by (intro mult_mono bf16_significand_le) simp_all
  moreover from this have "unat (of_nat (bf16_significand l * bf16_significand r * 512) :: u32)
      = bf16_significand l * bf16_significand r * 512"
    by (intro unat_of_nat_small) simp
  ultimately show ?thesis
    unfolding short_significand_def multiply_bf16_fields Let_def hawkeye_value.select_convs by simp
qed

lemma multiply_bf16_exponent_le: "z \<le> 256 \<Longrightarrow> exponent (multiply_bf16 l r z) \<le> 256"
  using bf16_exponent_field_less [of l] bf16_exponent_field_less [of r]
  unfolding multiply_bf16_fields Let_def hawkeye_value.select_convs by (auto simp: max_def)

lemma aligned_term_eq:
  assumes "short_significand v" "exponent v \<le> m" "k \<le> 2"
  shows "aligned_term k m v = signed_of v (unat (significand v) * 2 ^ k div 2 ^ nat (m - exponent v))"
proof -
  have "(2::nat) ^ k \<le> 2 ^ 2" by (rule power_increasing) (use assms in auto)
  then have "unat (significand v) * 2 ^ k \<le> (2 ^ 25 - 1) * 2 ^ 2"
    using assms(1) unfolding short_significand_def by (intro mult_mono) auto
  then have lt: "unat (significand v) * 2 ^ k < 2 ^ 27" by simp
  have lt64: "unat (significand v) * 2 ^ k < 2 ^ 64"
    by (rule less_trans [OF lt]) simp
  have u: "unat (drop_bit d (push_bit k (ucast (significand v) :: u64))) =
      unat (significand v) * 2 ^ k div 2 ^ d" for d
    using lt64 unat_u32_lt [of "significand v"] by (simp add: word_nat)
  have "unat (significand v) * 2 ^ k div 2 ^ nat (m - exponent v) = 0" if "m - exponent v \<ge> 32"
  proof (rule div_less)
    have "(2::nat) ^ 27 \<le> 2 ^ nat (m - exponent v)"
      by (rule power_increasing) (use that in auto)
    with lt show "unat (significand v) * 2 ^ k < 2 ^ nat (m - exponent v)" by linarith
  qed
  then show ?thesis
    unfolding aligned_term_def Let_def u signed_of_def by auto
qed

lemma aligned_term_bound:
  assumes "short_significand v" "exponent v \<le> m" "k \<le> 2"
  shows "\<bar>aligned_term k m v\<bar> \<le> (2 ^ 25 - 1) * 2 ^ k"
proof -
  have "unat (significand v) * 2 ^ k \<le> (2 ^ 25 - 1) * 2 ^ k"
    using assms(1) unfolding short_significand_def by (intro mult_mono) auto
  then have "unat (significand v) * 2 ^ k div 2 ^ nat (m - exponent v) \<le> (2 ^ 25 - 1) * 2 ^ k"
    using div_le_dividend le_trans by blast
  then have "int (unat (significand v) * 2 ^ k div 2 ^ nat (m - exponent v)) \<le> int ((2 ^ 25 - 1) * 2 ^ k)"
    by (simp only: of_nat_le_iff)
  then show ?thesis
    unfolding aligned_term_eq [OF assms] signed_of_def by (auto simp: of_nat_diff)
qed

lemma group_max_exponent_ge:
  "z \<le> group_max_exponent z vs" "v \<in> set vs \<Longrightarrow> exponent v \<le> group_max_exponent z vs"
  unfolding group_max_exponent_def
  by (induction vs arbitrary: z) (auto, (smt (verit))+)

lemma group_signed_sum_eq: "group_signed_sum k m vs = (\<Sum>v\<leftarrow>vs. aligned_term k m v)"
proof -
  have "foldl (\<lambda>s v. s + aligned_term k m v) s vs = s + (\<Sum>v\<leftarrow>vs. aligned_term k m v)" for s
    by (induction vs arbitrary: s) simp_all
  then show ?thesis by (simp add: group_signed_sum_def)
qed

lemma abs_sum_list_le:
  fixes f :: "'a \<Rightarrow> 'b::linordered_idom"
  assumes "\<And>x. x \<in> set xs \<Longrightarrow> \<bar>f x\<bar> \<le> B"
  shows "\<bar>\<Sum>x\<leftarrow>xs. f x\<bar> \<le> of_nat (length xs) * B"
  using assms
proof (induction xs)
  case (Cons x xs)
  then have "\<bar>f x\<bar> \<le> B" "\<bar>\<Sum>x\<leftarrow>xs. f x\<bar> \<le> of_nat (length xs) * B" by simp_all
  then show ?case by (simp add: algebra_simps)
qed simp

lemma group_signed_sum_magnitude:
  assumes "\<And>v. v \<in> set vs \<Longrightarrow> short_significand v" "length vs \<le> 17" "24 \<le> W" "W \<le> 26"
  shows "\<bar>group_signed_sum (W - 24) (group_max_exponent z vs) vs\<bar> \<le> 17 * (2 ^ 25 - 1) * 2 ^ (W - 24)"
proof -
  have "\<bar>group_signed_sum (W - 24) (group_max_exponent z vs) vs\<bar>
      \<le> int (length vs) * ((2 ^ 25 - 1) * 2 ^ (W - 24))"
    unfolding group_signed_sum_eq using assms
    by (intro abs_sum_list_le aligned_term_bound group_max_exponent_ge) auto
  also have "\<dots> \<le> 17 * ((2 ^ 25 - 1) * 2 ^ (W - 24))"
    using assms(2) by (intro mult_right_mono) auto
  finally show ?thesis by (simp only: mult.assoc)
qed

lemma real_nat_div: "real (a div b) \<le> real a / real b \<and> real a / real b < real (a div b) + 1" if "0 < b"
proof -
  have "real a = real (a div b) * real b + real (a mod b)"
    by (metis div_mult_mod_eq of_nat_add of_nat_mult)
  then have "real a / real b - real (a div b) = real (a mod b) / real b"
    using that by (simp add: field_simps)
  moreover have "0 \<le> real (a mod b) / real b \<and> real (a mod b) / real b < 1"
    using that by simp
  ultimately show ?thesis by linarith
qed

lemma aligned_term_error:
  assumes "short_significand v" "exponent v \<le> m" "k \<le> 2"
  shows "\<bar>hawkeye_real v - real_of_int (aligned_term k m v) * 2 powi (m - 23 - int k)\<bar>
    \<le> 2 powi (m - 23 - int k)"
proof -
  let ?d = "nat (m - exponent v)" and ?u = "2 powi (m - 23 - int k) :: real"
  let ?a = "unat (significand v) * 2 ^ k"
  have split: "(2::real) powi (exponent v - 23) = 2 ^ k / 2 ^ ?d * ?u"
  proof -
    have "(2::real) powi (exponent v - 23) = 2 powi (int k - int ?d + (m - 23 - int k))"
      using assms(2) by simp
    also have "\<dots> = 2 powi (int k - int ?d) * ?u" by (rule power_int_add) simp
    also have "(2::real) powi (int k - int ?d) = 2 powi int k / 2 powi int ?d"
      by (rule power_int_diff) simp
    also have "\<dots> = 2 ^ k / 2 ^ ?d" by (simp only: power_int_of_nat)
    finally show ?thesis .
  qed
  have q: "real (?a div 2 ^ ?d) \<le> real ?a / 2 ^ ?d" "real ?a / 2 ^ ?d < real (?a div 2 ^ ?d) + 1"
    using real_nat_div [of "2 ^ ?d" ?a] by simp_all
  have "hawkeye_real v = (if negative v then - 1 else 1) * (real ?a / 2 ^ ?d) * ?u"
    unfolding hawkeye_real_def split by simp
  moreover have "real_of_int (aligned_term k m v) = (if negative v then - 1 else 1) * real (?a div 2 ^ ?d)"
    unfolding aligned_term_eq [OF assms] signed_of_def by simp
  ultimately have "hawkeye_real v - real_of_int (aligned_term k m v) * ?u =
      (if negative v then - 1 else 1) * (real ?a / 2 ^ ?d - real (?a div 2 ^ ?d)) * ?u"
    by (simp add: algebra_simps)
  then have "\<bar>hawkeye_real v - real_of_int (aligned_term k m v) * ?u\<bar> =
      \<bar>real ?a / 2 ^ ?d - real (?a div 2 ^ ?d)\<bar> * ?u"
    by (simp add: abs_mult)
  also have "\<dots> \<le> 1 * ?u" using q by (intro mult_right_mono) auto
  finally show ?thesis by simp
qed

lemma group_signed_sum_error:
  assumes "\<And>v. v \<in> set vs \<Longrightarrow> short_significand v \<and> exponent v \<le> m" "k \<le> 2"
  shows "\<bar>(\<Sum>v\<leftarrow>vs. hawkeye_real v) - real_of_int (group_signed_sum k m vs) * 2 powi (m - 23 - int k)\<bar>
    \<le> real (length vs) * 2 powi (m - 23 - int k)"
proof -
  let ?u = "2 powi (m - 23 - int k) :: real"
  have "(\<Sum>v\<leftarrow>vs. hawkeye_real v) - real_of_int (group_signed_sum k m vs) * ?u =
      (\<Sum>v\<leftarrow>vs. hawkeye_real v - real_of_int (aligned_term k m v) * ?u)"
    unfolding group_signed_sum_eq by (induction vs) (simp_all add: algebra_simps)
  moreover have "\<bar>\<dots>\<bar> \<le> real (length vs) * ?u"
    using assms by (intro abs_sum_list_le aligned_term_error) auto
  ultimately show ?thesis by simp
qed

section \<open>Renormalisation\<close>

definition normalized_magnitude :: "nat \<Rightarrow> nat \<Rightarrow> nat" where
  "normalized_magnitude W a =
     (if bit_width a > W then a div 2 ^ (bit_width a - W) else a * 2 ^ (W - bit_width a))"

lemma normalized_magnitude_bounds:
  assumes "0 < a" "0 < W"
  shows "2 ^ (W - 1) \<le> normalized_magnitude W a" "normalized_magnitude W a < 2 ^ W"
proof -
  let ?w = "bit_width a"
  have lo: "2 ^ (?w - 1) \<le> a" and hi: "a < 2 ^ ?w"
    using assms bit_width_lower bit_width_upper by auto
  have pos: "0 < ?w" using assms(1) by (metis bit_width_eq_0 gr0I)
  have "2 ^ (W - 1) \<le> normalized_magnitude W a \<and> normalized_magnitude W a < 2 ^ W"
  proof (cases "?w > W")
    case True
    have eq: "(2::nat) ^ (?w - 1) = 2 ^ (W - 1) * 2 ^ (?w - W)" "(2::nat) ^ ?w = 2 ^ W * 2 ^ (?w - W)"
      using True assms(2) by (simp_all flip: power_add)
    have "2 ^ (W - 1) \<le> a div 2 ^ (?w - W)"
      using lo unfolding eq by (simp add: less_eq_div_iff_mult_less_eq)
    moreover have "a div 2 ^ (?w - W) < 2 ^ W"
      using hi unfolding eq by (simp add: less_mult_imp_div_less)
    ultimately show ?thesis using True by (simp add: normalized_magnitude_def)
  next
    case False
    have eq: "(2::nat) ^ (W - 1) = 2 ^ (?w - 1) * 2 ^ (W - ?w)" "(2::nat) ^ W = 2 ^ ?w * 2 ^ (W - ?w)"
      using False pos by (simp_all flip: power_add)
    then show ?thesis
      unfolding eq using lo hi False by (simp add: normalized_magnitude_def)
  qed
  then show "2 ^ (W - 1) \<le> normalized_magnitude W a" "normalized_magnitude W a < 2 ^ W" by simp_all
qed

text \<open>
  The result of \<open>group_normalize\<close> without the case of a shift by 64 or more and without the
  16-bit exponent: \<open>a\<close> is the magnitude of the sum, \<open>e\<close> the exponent of its leading bit.
\<close>

definition normalized_significand :: "nat \<Rightarrow> int \<Rightarrow> nat \<Rightarrow> nat" where
  "normalized_significand W e a = normalized_magnitude W a div 2 ^ (nat (- 126 - e) + (W - 24))"

lemma group_normalize_eq:
  fixes s m :: int and W :: nat
  defines "a \<equiv> nat \<bar>s\<bar>"
  defines "e \<equiv> m + int (bit_width a) - int W"
  assumes "24 \<le> W" "W \<le> 26" "- 32000 \<le> m" "e < 32768"
  shows "group_normalize W z m s =
    (if normalized_significand W e a = 0 then \<lparr>significand = 0, exponent = z, negative = (s < 0)\<rparr>
     else \<lparr>significand = of_nat (normalized_significand W e a), exponent = max (- 126) e,
           negative = (s < 0)\<rparr>)"
proof (cases "a = 0")
  case True
  then show ?thesis
    by (simp add: group_normalize_def Let_def normalized_significand_def normalized_magnitude_def a_def)
next
  case False
  have a: "nat (if s < 0 then - s else s) = a" by (simp add: a_def abs_if)
  have e16: "int16_of_int e = e"
    using assms by (intro int16_of_int_small) auto
  have "normalized_magnitude W a < 2 ^ W"
    using False assms by (intro normalized_magnitude_bounds) auto
  moreover have "(2::nat) ^ W \<le> 2 ^ 26" by (rule power_increasing) (use assms in auto)
  ultimately have "normalized_magnitude W a < 2 ^ 26" by linarith
  moreover have "(2::nat) ^ 26 \<le> 2 ^ nat (- 126 - e)" if "nat (- 126 - e) \<ge> 64"
    by (rule power_increasing) (use that in auto)
  ultimately have "(if nat (- 126 - e) \<ge> 64 then 0 else normalized_magnitude W a div 2 ^ nat (- 126 - e))
      = normalized_magnitude W a div 2 ^ nat (- 126 - e)"
    by fastforce
  then show ?thesis
    using False unfolding group_normalize_def bit_width_u64_eq Let_def a
      e_def [symmetric] e16 normalized_magnitude_def [symmetric]
    by (simp add: normalized_significand_def div_mult2_eq power_add max_def)
qed

section \<open>Normalised values\<close>

text \<open>
  What an accumulator always is between two groups: a 24-bit significand, normalised unless the
  exponent is the smallest one, and the exponent reserved for zero exactly with a zero significand.
\<close>

definition wf_value :: "int \<Rightarrow> int \<Rightarrow> hawkeye_value \<Rightarrow> bool" where
  "wf_value z hi v \<longleftrightarrow>
     unat (significand v) < 2 ^ 24 \<and>
     (if significand v = 0 then exponent v = z
      else - 126 \<le> exponent v \<and> exponent v \<le> hi \<and>
           (unat (significand v) < 2 ^ 23 \<longrightarrow> exponent v = - 126))"

lemma wf_value_mono: "wf_value z hi v \<Longrightarrow> hi \<le> hi' \<Longrightarrow> wf_value z hi' v"
  by (auto simp: wf_value_def)

lemma wf_value_short: "wf_value z hi v \<Longrightarrow> short_significand v"
  by (simp add: wf_value_def short_significand_def)

lemma normalized_significand_bounds:
  assumes "24 \<le> W" "0 < a"
  shows "normalized_significand W e a < 2 ^ 24"
    and "- 126 \<le> e \<Longrightarrow> 2 ^ 23 \<le> normalized_significand W e a"
proof -
  note b = normalized_magnitude_bounds [OF assms(2), of W]
  have W: "(2::nat) ^ W = 2 ^ 24 * 2 ^ (W - 24)" "(2::nat) ^ (W - 1) = 2 ^ 23 * 2 ^ (W - 24)"
    using assms(1) by (simp_all only: flip: power_add) simp_all
  have eq: "normalized_significand W e a =
      normalized_magnitude W a div 2 ^ (W - 24) div 2 ^ nat (- 126 - e)"
    by (simp add: normalized_significand_def power_add div_mult2_eq mult.commute flip: div_mult2_eq)
  have "normalized_magnitude W a div 2 ^ (W - 24) < 2 ^ 24"
    using b(2) assms(1) unfolding W by (simp add: less_mult_imp_div_less)
  then show "normalized_significand W e a < 2 ^ 24"
    unfolding eq using div_le_dividend le_less_trans by blast
  assume "- 126 \<le> e"
  then show "2 ^ 23 \<le> normalized_significand W e a"
    unfolding eq using b(1) assms(1) unfolding W by (simp add: less_eq_div_iff_mult_less_eq)
qed

lemma group_normalize_wf:
  fixes s m :: int
  assumes "24 \<le> W" "W \<le> 26" "- 32000 \<le> m" "m + int (bit_width (nat \<bar>s\<bar>)) - int W \<le> hi"
    "- 126 \<le> hi" "hi < 32768"
  shows "wf_value z hi (group_normalize W z m s)"
proof -
  define a e where "a = nat \<bar>s\<bar>" and "e = m + int (bit_width a) - int W"
  let ?n = "normalized_significand W e a"
  have eq: "group_normalize W z m s =
    (if ?n = 0 then \<lparr>significand = 0, exponent = z, negative = (s < 0)\<rparr>
     else \<lparr>significand = of_nat ?n, exponent = max (- 126) e, negative = (s < 0)\<rparr>)"
    unfolding a_def e_def using assms by (intro group_normalize_eq) auto
  show ?thesis
  proof (cases "?n = 0")
    case True
    then show ?thesis by (simp add: eq wf_value_def)
  next
    case False
    then have "0 < a"
      by (cases "a = 0") (simp_all add: normalized_significand_def normalized_magnitude_def)
    note b = normalized_significand_bounds [OF assms(1) this, of e]
    have u: "unat (of_nat ?n :: u32) = ?n"
      by (rule unat_of_nat_small, rule less_trans [OF b(1)]) simp
    then have n0: "(of_nat ?n :: u32) \<noteq> 0" using False by (metis unat_0)
    have "max (- 126) e = - 126" if "?n < 2 ^ 23"
      using b(2) that by (cases "- 126 \<le> e") auto
    moreover have "max (- 126) e \<le> hi" using assms by (simp add: e_def a_def)
    ultimately show ?thesis
      using b(1) False n0 unfolding eq wf_value_def by (simp add: u)
  qed
qed

lemma group_max_exponent_le:
  "z \<le> hi \<Longrightarrow> (\<And>v. v \<in> set vs \<Longrightarrow> exponent v \<le> hi) \<Longrightarrow> group_max_exponent z vs \<le> hi"
  unfolding group_max_exponent_def by (induction vs arbitrary: z) auto

lemma group_sum_width:
  assumes "24 \<le> W" "W \<le> 26" "length vs \<le> 17" "\<And>v. v \<in> set vs \<Longrightarrow> short_significand v"
  shows "bit_width (nat \<bar>group_signed_sum (W - 24) (group_max_exponent z vs) vs\<bar>) \<le> W + 6"
proof -
  let ?s = "group_signed_sum (W - 24) (group_max_exponent z vs) vs"
  have "\<bar>?s\<bar> \<le> 17 * (2 ^ 25 - 1) * 2 ^ (W - 24)"
    using assms by (intro group_signed_sum_magnitude) auto
  also have "\<dots> < 2 ^ 30 * 2 ^ (W - 24)" by simp
  also have "\<dots> = 2 ^ (W + 6)" using assms(1) by (simp only: flip: power_add) simp
  finally have "nat \<bar>?s\<bar> < 2 ^ (W + 6)" by (simp add: nat_less_iff)
  then show ?thesis by (simp only: bit_width_le_iff)
qed

lemma group_sum_wf:
  assumes "24 \<le> W" "W \<le> 26" "- 32000 \<le> z" "z \<le> hi" "length vs \<le> 17"
    and vs: "\<And>v. v \<in> set vs \<Longrightarrow> short_significand v \<and> exponent v \<le> hi"
    and "- 126 \<le> hi" "hi + 6 < 32768"
  shows "wf_value z (hi + 6) (group_sum W z vs)"
proof -
  define m where "m = group_max_exponent z vs"
  define s where "s = group_signed_sum (W - 24) m vs"
  have "m \<le> hi"
    unfolding m_def using vs assms(4) by (intro group_max_exponent_le) auto
  moreover have "bit_width (nat \<bar>s\<bar>) \<le> W + 6"
    unfolding s_def m_def using assms by (intro group_sum_width) auto
  moreover have "- 32000 \<le> m"
    using group_max_exponent_ge(1) [of z vs] assms(3) unfolding m_def by linarith
  ultimately show ?thesis
    unfolding group_sum_def Let_def m_def [symmetric] s_def [symmetric]
    using assms by (intro group_normalize_wf) auto
qed

text \<open>Renormalising a value that is already normalised changes nothing.\<close>

lemma normalized_significand_shifted:
  assumes "24 \<le> W" "0 < n" "n < 2 ^ 24" "n < 2 ^ 23 \<Longrightarrow> x = - 126" "- 126 \<le> x"
  defines "e \<equiv> x + int (bit_width n) - 24"
  shows "normalized_significand W e (n * 2 ^ (W - 24)) = n" and "max (- 126) e = x"
proof -
  let ?w = "bit_width n"
  have w: "?w \<le> 24" using assms(3) by (simp only: bit_width_le_iff)
  have pos: "0 < ?w" using assms(2) by (metis bit_width_eq_0 gr0I)
  have x: "x = - 126 \<or> ?w = 24"
  proof (rule disjCI)
    assume "?w \<noteq> 24"
    with w have "?w \<le> 23" by simp
    then show "x = - 126" using assms(4) by (simp only: bit_width_le_iff)
  qed
  then show "max (- 126) e = x" using w assms(5) unfolding e_def by auto
  have u: "nat (- 126 - e) = 24 - ?w" using x w assms(5) unfolding e_def by auto
  have bw: "bit_width (n * 2 ^ (W - 24)) = ?w + (W - 24)"
    using assms(2) by (rule bit_width_shift)
  have "normalized_magnitude W (n * 2 ^ (W - 24)) = n * 2 ^ (W - 24) * 2 ^ (24 - ?w)"
    using w assms(1) by (auto simp: normalized_magnitude_def bw)
  then show "normalized_significand W e (n * 2 ^ (W - 24)) = n"
    unfolding normalized_significand_def u by (simp add: power_add mult.assoc)
qed

lemma signed_of_abs: "nat \<bar>signed_of v n\<bar> = n"
  by (simp add: signed_of_def)

lemma signed_of_neg: "0 < n \<Longrightarrow> signed_of v n < 0 \<longleftrightarrow> negative v"
  by (simp add: signed_of_def)

lemma group_sum_single:
  assumes "24 \<le> W" "W \<le> 26" "z < - 126" "- 32000 \<le> z" "wf_value z hi v" "hi < 32000"
  shows "group_sum W z [v] = (if significand v = 0 then \<lparr>significand = 0, exponent = z, negative = False\<rparr> else v)"
proof (cases "significand v = 0")
  case True
  with assms show ?thesis
    by (simp add: group_sum_def group_max_exponent_def group_signed_sum_def group_normalize_def
        aligned_term_def wf_value_def)
next
  case False
  let ?n = "unat (significand v)" and ?k = "W - 24"
  have v: "?n < 2 ^ 24" "- 126 \<le> exponent v" "exponent v \<le> hi" "?n < 2 ^ 23 \<Longrightarrow> exponent v = - 126"
    and n: "0 < ?n"
    using assms(5) False by (auto simp: wf_value_def unat_gt_0)
  have m: "group_max_exponent z [v] = exponent v"
    using v assms(3) by (simp add: group_max_exponent_def)
  have s: "group_signed_sum ?k (exponent v) [v] = signed_of v (?n * 2 ^ ?k)"
    using aligned_term_eq [of v "exponent v" ?k] assms wf_value_short [OF assms(5)]
    by (simp add: group_signed_sum_def)
  have abs: "nat \<bar>signed_of v (?n * 2 ^ ?k)\<bar> = ?n * 2 ^ ?k"
    and sgn: "signed_of v (?n * 2 ^ ?k) < 0 \<longleftrightarrow> negative v"
    using n by (intro signed_of_abs signed_of_neg; simp)+
  note ns = normalized_significand_shifted [OF assms(1) n v(1) v(4) v(2)]
  have e: "exponent v + int (bit_width (?n * 2 ^ ?k)) - int W = exponent v + int (bit_width ?n) - 24"
    using assms(1) n by (simp add: bit_width_shift)
  have "bit_width ?n \<le> 24" using v(1) by (simp only: bit_width_le_iff)
  then have "group_normalize W z (exponent v) (signed_of v (?n * 2 ^ ?k)) =
      \<lparr>significand = of_nat ?n, exponent = exponent v, negative = negative v\<rparr>"
    using assms v n ns
    by (subst group_normalize_eq) (simp_all only: abs e sgn, auto)
  then show ?thesis
    using False by (simp add: group_sum_def m s)
qed


section \<open>Accumulation\<close>

lemma normalized_significand_error:
  assumes "24 \<le> W" "0 < a"
  shows "real (normalized_significand W e a) \<le> real a * 2 powi (24 - int (bit_width a) - int (nat (- 126 - e)))"
    and "real a * 2 powi (24 - int (bit_width a) - int (nat (- 126 - e))) < real (normalized_significand W e a) + 1"
proof -
  let ?u = "nat (- 126 - e)" and ?w = "bit_width a"
  define n d where "n = (if ?w > W then a else a * 2 ^ (W - ?w))"
    and "d = (if ?w > W then ?w - W else 0) + ?u + (W - 24)"
  have "normalized_significand W e a = n div 2 ^ d"
    by (simp add: normalized_significand_def normalized_magnitude_def n_def d_def power_add div_mult2_eq)
  moreover have "real n / 2 ^ d = real a * 2 powi (24 - int ?w - int ?u)"
  proof -
    have "real n = real a * 2 ^ (W - ?w)" by (simp add: n_def)
    then have "real n / 2 ^ d = real a * (2 powi int (W - ?w) / 2 powi int d)"
      by (simp only: power_int_of_nat) simp
    also have "(2::real) powi int (W - ?w) / 2 powi int d = 2 powi (int (W - ?w) - int d)"
      by (rule power_int_diff [symmetric]) simp
    also have "int (W - ?w) - int d = 24 - int ?w - int ?u"
      using assms(1) by (simp add: d_def)
    finally show ?thesis .
  qed
  ultimately show "real (normalized_significand W e a) \<le> real a * 2 powi (24 - int ?w - int ?u)"
    "real a * 2 powi (24 - int ?w - int ?u) < real (normalized_significand W e a) + 1"
    using real_nat_div [of "2 ^ d" n] by simp_all
qed

lemma group_normalize_error:
  fixes s m :: int and W :: nat
  defines "a \<equiv> nat \<bar>s\<bar>"
  defines "e \<equiv> m + int (bit_width a) - int W"
  assumes "24 \<le> W" "W \<le> 26" "- 32000 \<le> m" "e < 32768"
  shows "\<bar>hawkeye_real (group_normalize W z m s) - real_of_int s * 2 powi (m - 23 - int (W - 24))\<bar>
    \<le> 2 powi (max (- 126) e - 23)"
proof (cases "a = 0")
  case True
  then show ?thesis
    by (simp add: a_def group_normalize_def Let_def hawkeye_real_def)
next
  case False
  then have pos: "0 < a" by simp
  let ?n = "normalized_significand W e a" and ?u = "2 powi (max (- 126) e - 23) :: real"
  let ?q = "real a * 2 powi (24 - int (bit_width a) - int (nat (- 126 - e)))"
  have "?n < 2 ^ 24" using pos assms by (intro normalized_significand_bounds) auto
  then have n: "unat (of_nat ?n :: u32) = ?n"
    by (intro unat_of_nat_small) (rule less_trans, assumption, simp)
  have r: "hawkeye_real (group_normalize W z m s) = (if s < 0 then - 1 else 1) * real ?n * ?u"
    unfolding group_normalize_eq [OF assms(3-5) assms(6)[unfolded e_def a_def], folded a_def, folded e_def]
      hawkeye_real_def by (simp add: n del: of_nat_unat)
  have "real_of_int s = (if s < 0 then - 1 else 1) * real a" by (simp add: a_def)
  moreover have "(2::real) powi (m - 23 - int (W - 24)) =
      2 powi (24 - int (bit_width a) - int (nat (- 126 - e))) * ?u"
  proof -
    have "m - 23 - int (W - 24) = 24 - int (bit_width a) - int (nat (- 126 - e)) + (max (- 126) e - 23)"
      using assms(3) by (auto simp: e_def)
    then show ?thesis by (simp only:) (rule power_int_add, simp)
  qed
  ultimately have s: "real_of_int s * 2 powi (m - 23 - int (W - 24)) = (if s < 0 then - 1 else 1) * ?q * ?u"
    by simp
  have "\<bar>hawkeye_real (group_normalize W z m s) - real_of_int s * 2 powi (m - 23 - int (W - 24))\<bar>
      = \<bar>real ?n - ?q\<bar> * ?u"
    unfolding r s by (auto simp: abs_mult simp flip: left_diff_distrib abs_mult_pos)
  also have "\<dots> \<le> 1 * ?u"
    using normalized_significand_error [OF assms(3) pos, of e] by (intro mult_right_mono) auto
  finally show ?thesis by simp
qed

text \<open>The exponent of the last place of a value; zero counts as subnormal.\<close>

definition last_place :: "hawkeye_value \<Rightarrow> int" where
  "last_place v = (if significand v = 0 then - 126 else exponent v) - 23"

lemma group_normalize_ulp:
  fixes s m :: int and W :: nat
  assumes "24 \<le> W" "W \<le> 26" "- 32000 \<le> m" "m + int (bit_width (nat \<bar>s\<bar>)) - int W < 32768"
  shows "\<bar>hawkeye_real (group_normalize W z m s) - real_of_int s * 2 powi (m - 23 - int (W - 24))\<bar>
    \<le> 2 powi last_place (group_normalize W z m s)"
proof (cases "s = 0")
  case True
  then show ?thesis by (simp add: group_normalize_def Let_def hawkeye_real_def)
next
  case False
  define a where "a = nat \<bar>s\<bar>"
  define e where "e = m + int (bit_width a) - int W"
  have pos: "0 < a" using False by (simp add: a_def)
  note b = normalized_significand_bounds [OF assms(1) pos, of e]
  have small: "unat (of_nat (normalized_significand W e a) :: u32) = normalized_significand W e a"
    using b(1) by (intro unat_of_nat_small) (rule less_trans, assumption, simp)
  have "(of_nat (normalized_significand W e a) :: u32) \<noteq> 0" if "normalized_significand W e a \<noteq> 0"
    using small that by (metis unat_0)
  moreover have "e < - 126" if "normalized_significand W e a = 0" using b(2) that by fastforce
  ultimately have "last_place (group_normalize W z m s) = max (- 126) e - 23"
    using group_normalize_eq [OF assms, folded a_def, folded e_def, of z] by (auto simp: last_place_def)
  then show ?thesis using group_normalize_error [OF assms, of z] by (simp add: a_def e_def)
qed

lemma value_from_float_wf: "wf_value z 128 (value_from_float b z)"
proof -
  let ?e = "drop_bit 23 b AND 0xff" and ?f = "b AND 0x7fffff"
  have e: "unat ?e < 256"
    using unat_and_mask [of "0xff :: u32" 8 "drop_bit 23 b"] by (simp add: mask_eq_exp_minus_1)
  have f: "unat ?f < 2 ^ 23"
    using unat_and_mask [of "0x7fffff :: u32" 23 b] by (simp add: mask_eq_exp_minus_1)
  have h: "unat (?f OR 0x800000) = unat ?f + 0x800000"
    using unat_or_disjoint [of ?f "0x800000"] by (simp add: and.assoc)
  have e16: "int16_of_int (uint ?e - 127) = uint ?e - 127"
    using e by (intro int16_of_int_small) (unfold uint_nat, linarith+)
  have h0: "?f OR 0x800000 \<noteq> 0" unfolding or_eq_0_iff by simp
  have "?e \<noteq> 0 \<Longrightarrow> 0 < uint ?e" by (rule uint_gt_0_of_neq_0)
  moreover have "uint ?e < 256" using e unfolding uint_nat by linarith
  ultimately show ?thesis
    using f h h0 unfolding value_from_float_def Let_def e16 wf_value_def
    by (cases "?e = 0"; cases "?f = 0") auto
qed

lemma accumulate_loop_shift:
  assumes "d \<le> length left" "d \<le> length right"
  shows "accumulate_loop P left right (d + n) (d + offset) acc =
    accumulate_loop P (drop d left) (drop d right) n offset acc"
proof (induction P "drop d left" "drop d right" n offset acc rule: accumulate_loop.induct)
  case (1 P n offset acc)
  show ?case
    using assms "1" by (subst (1 2) accumulate_loop.simps) (simp add: Let_def add.assoc cong: map_cong)
qed

lemma accumulate_loop_split:
  assumes "n1 \<le> length left" "n1 \<le> length right" "ProductsPerGroup P dvd n1"
    "ProductsPerGroup P dvd offset" "offset \<le> n1"
  shows "accumulate_loop P left right (n1 + n2) offset acc =
    accumulate_loop P (drop n1 left) (drop n1 right) n2 0 (accumulate_loop P left right n1 offset acc)"
  using assms
proof (induction P left right n1 offset acc rule: accumulate_loop.induct)
  case (1 P left right n1 offset acc)
  show ?case
  proof (cases "offset < n1 \<and> ProductsPerGroup P > 0")
    case True
    have "ProductsPerGroup P dvd n1 - offset" using "1.prems" by (simp add: dvd_diff_nat)
    then have ge: "ProductsPerGroup P \<le> n1 - offset" using True by (simp add: dvd_imp_le)
    then have le: "offset + ProductsPerGroup P \<le> n1" using True by linarith
    from ge have c: "(if n1 - offset < ProductsPerGroup P then n1 - offset else ProductsPerGroup P) = ProductsPerGroup P"
      "(if n1 + n2 - offset < ProductsPerGroup P then n1 + n2 - offset else ProductsPerGroup P) = ProductsPerGroup P"
      by auto
    show ?thesis
      using True le "1.prems" "1.IH" [OF True refl refl refl]
      unfolding accumulate_loop.simps [of P left right n1 offset acc]
        accumulate_loop.simps [of P left right "n1 + n2" offset acc]
      by (simp add: c Let_def)
  next
    case False
    then have stop: "accumulate_loop P left right n1 offset acc = acc"
      by (subst accumulate_loop.simps) (simp only: False if_False)
    from False consider "offset = n1" | "ProductsPerGroup P = 0"
      using "1.prems" by fastforce
    then show ?thesis
    proof cases
      case 1
      then show ?thesis
        using accumulate_loop_shift [of n1 left right P n2 0 acc] "1.prems" stop by simp
    next
      case 2
      then show ?thesis
        unfolding stop by (subst (1 2) accumulate_loop.simps) (simp only: less_irrefl simp_thms if_False)
    qed
  qed
qed

lemma accumulate_loop_zero_sign:
  assumes "0 < n" "0 < ProductsPerGroup P"
  shows "accumulate_loop P left right n 0 \<lparr>significand = 0, exponent = z, negative = True\<rparr> =
    accumulate_loop P left right n 0 \<lparr>significand = 0, exponent = z, negative = False\<rparr>"
proof -
  have t: "aligned_term k m \<lparr>significand = 0, exponent = z, negative = b\<rparr> = 0" for k m b
    by (simp add: aligned_term_def Let_def)
  have "group_sum W y (\<lparr>significand = 0, exponent = z, negative = True\<rparr> # vs) =
      group_sum W y (\<lparr>significand = 0, exponent = z, negative = False\<rparr> # vs)" for W y vs
    by (simp add: group_sum_def group_max_exponent_def group_signed_sum_def t)
  then show ?thesis
    using assms by (subst (1 2) accumulate_loop.simps) (simp only: Let_def simp_thms if_True)
qed

text \<open>The value packed from a normalised accumulator unpacks to it.\<close>

lemma take_bit_eq_of_unat_less: "unat (w :: 'a::len word) < 2 ^ n \<Longrightarrow> take_bit n w = w"
  by (simp add: word_unat_eq_iff unat_take_bit_mod)

lemma packed_fields:
  fixes x s :: f32 and sg :: bool
  defines "b \<equiv> (if sg then 0x80000000 else 0) OR push_bit 23 (x AND 0xff) OR (s AND 0x7fffff)"
  shows "b AND 0x80000000 = (if sg then 0x80000000 else 0)" "drop_bit 23 b AND 0xff = x AND 0xff"
    "b AND 0x7fffff = s AND 0x7fffff"
  unfolding b_def f32_masks
  by (rule bit_word_eqI; auto simp: bit_simps bit_f32_sign)+

lemma significand_split:
  assumes "unat (s :: f32) < 2 ^ 24"
  shows "s AND 0x800000 \<noteq> 0 \<Longrightarrow> (s AND 0x7fffff) OR 0x800000 = s"
    and "s AND 0x800000 = 0 \<Longrightarrow> s AND 0x7fffff = s"
    and "s AND 0x800000 = 0 \<longleftrightarrow> unat s < 2 ^ 23"
proof -
  have bit23: "s AND 0x800000 = 0 \<longleftrightarrow> \<not> bit s 23"
    using and_exp_eq_0_iff_not_bit [of s 23] by simp
  have e23: "bit (0x800000 :: int) n \<longleftrightarrow> n = 23" for n
    using bit_exp_iff [of 23 n, where ?'a = int] by auto
  have high: "bit s n \<Longrightarrow> n < 24" for n
    using take_bit_eq_of_unat_less [OF assms] by (metis bit_take_bit_iff)
  then have high': "bit s n \<Longrightarrow> n < 23 \<or> n = 23" for n by fastforce
  show "s AND 0x800000 \<noteq> 0 \<Longrightarrow> (s AND 0x7fffff) OR 0x800000 = s"
    unfolding bit23 f32_masks
    by (rule bit_word_eqI) (use high' in \<open>auto simp: bit_simps e23\<close>)
  have low: "s AND 0x7fffff = s" if "\<not> bit s 23"
    unfolding f32_masks
    by (rule bit_word_eqI) (use high' that in \<open>auto simp: bit_simps\<close>)
  then show "s AND 0x800000 = 0 \<Longrightarrow> s AND 0x7fffff = s" by (simp add: bit23)
  have "unat s < 2 ^ 23" if "\<not> bit s 23"
    using unat_and_mask [OF f32_masks(2), of s] low [OF that] by (metis mod_less_divisor zero_less_power zero_less_numeral)
  moreover have "\<not> bit s 23" if "unat s < 2 ^ 23"
    using take_bit_eq_of_unat_less [OF that] by (metis bit_take_bit_iff less_irrefl)
  ultimately show "s AND 0x800000 = 0 \<longleftrightarrow> unat s < 2 ^ 23" by (auto simp: bit23)
qed

lemma unpack_of_pack:
  assumes "wf_value z 128 v" "significand v \<noteq> 0"
  shows "value_from_float (value_to_float v) z = v"
proof -
  let ?s = "significand v"
  define t where "t = (if ?s AND 0x800000 = 0 then exponent v + 127 - 1 else exponent v + 127)"
  define x where "x = (word_of_int t :: f32)"
  define b where "b = (if negative v then 0x80000000 else 0) OR push_bit 23 (x AND 0xff) OR (?s AND 0x7fffff)"
  have range: "unat ?s < 2 ^ 24" "- 126 \<le> exponent v" "exponent v \<le> 128"
    "unat ?s < 2 ^ 23 \<Longrightarrow> exponent v = - 126"
    using assms by (auto simp: wf_value_def)
  note split = significand_split [OF range(1)]
  have t0: "?s AND 0x800000 = 0 \<longleftrightarrow> t = 0" and tr: "0 \<le> t" "t < 256"
    using range split(3) unfolding t_def by auto
  have "uint x = t"
    using tr by (simp add: x_def unsigned_of_int take_bit_int_eq_self)
  then have "unat x = nat t" unfolding unat_eq_nat_uint by simp
  then have "unat (x AND 0xff) = nat t"
    using unat_and_mask [OF f32_masks(1), of x] tr by simp
  then have ux: "uint (x AND 0xff) = t" unfolding uint_nat using tr by simp
  then have x0: "x AND 0xff = 0 \<longleftrightarrow> t = 0" by (metis uint_0_iff)
  have pack: "value_to_float v = b"
    using assms(2) unfolding value_to_float_def Let_def b_def x_def t_def by simp
  have e16: "int16_of_int (t - 127) = t - 127" using tr by (intro int16_of_int_small) auto
  note fields = packed_fields [where sg = "negative v" and x = x and s = ?s, folded b_def]
  show ?thesis
    unfolding pack value_from_float_def fields Let_def x0 ux e16
    using split t0 assms(2) range by (cases v) (auto simp: t_def)
qed


text \<open>
  What every published parameter set has: it passes the \<open>static_assert\<close>s and its zero
  exponent lies below every exponent a non-zero value can have.
\<close>

locale hawkeye_unit =
  fixes P :: hawkeye_params
  assumes admitted: "params_ok P"
    and zero_below: "ZeroExponent P < - 126"
    and zero_range: "- 1000 \<le> ZeroExponent P"
begin

lemma group_pos: "0 < ProductsPerGroup P" "ProductsPerGroup P \<le> 16"
  using admitted by (auto simp: params_ok_def)

lemma width_range: "24 \<le> InternalSignificandWidth P" "InternalSignificandWidth P \<le> 26"
  using admitted by (auto simp: params_ok_def)

lemma group_step_wf:
  assumes "wf_value (ZeroExponent P) hi acc" "256 \<le> hi" "hi < 32000" "n \<le> ProductsPerGroup P"
  shows "wf_value (ZeroExponent P) (hi + 6)
    (group_sum (InternalSignificandWidth P) (ZeroExponent P)
      (acc # map (\<lambda>i. multiply_bf16 (f i) (g i) (ZeroExponent P)) [0..<n]))"
proof (rule group_sum_wf)
  fix v
  assume "v \<in> set (acc # map (\<lambda>i. multiply_bf16 (f i) (g i) (ZeroExponent P)) [0..<n])"
  then consider "v = acc" | i where "v = multiply_bf16 (f i) (g i) (ZeroExponent P)" by auto
  then show "short_significand v \<and> exponent v \<le> hi"
  proof cases
    case 1
    with assms zero_below show ?thesis
      by (auto simp: wf_value_short) (auto simp: wf_value_def split: if_splits)
  next
    case 2
    moreover have "exponent (multiply_bf16 (f i) (g i) (ZeroExponent P)) \<le> 256"
      using zero_below by (intro multiply_bf16_exponent_le) simp
    ultimately show ?thesis using assms(2) by (simp add: multiply_bf16_short)
  qed
qed (use assms group_pos width_range zero_below zero_range in auto)

lemma accumulate_loop_wf:
  assumes "wf_value (ZeroExponent P) hi acc" "256 \<le> hi" "hi + 6 * int (n - offset) < 32000"
  shows "wf_value (ZeroExponent P) (hi + 6 * int (n - offset)) (accumulate_loop P left right n offset acc)"
  using assms
proof (induction "n - offset" arbitrary: offset acc hi rule: less_induct)
  case less
  show ?case
  proof (cases "offset < n")
    case False
    then show ?thesis using less.prems by (subst accumulate_loop.simps) simp
  next
    case True
    define c where "c = (if n - offset < ProductsPerGroup P then n - offset else ProductsPerGroup P)"
    define acc' where "acc' = group_sum (InternalSignificandWidth P) (ZeroExponent P)
      (acc # map (\<lambda>i. multiply_bf16 (left ! (offset + i)) (right ! (offset + i)) (ZeroExponent P)) [0..<c])"
    have c: "0 < c" "c \<le> ProductsPerGroup P" "c \<le> n - offset"
      using True group_pos by (auto simp: c_def)
    have wf': "wf_value (ZeroExponent P) (hi + 6) acc'"
      unfolding acc'_def using less.prems c by (intro group_step_wf) auto
    have "wf_value (ZeroExponent P) (hi + 6 + 6 * int (n - (offset + c))) (accumulate_loop P left right n (offset + c) acc')"
      using less.prems c True wf' by (intro less.hyps) auto
    then have "wf_value (ZeroExponent P) (hi + 6 * int (n - offset)) (accumulate_loop P left right n (offset + c) acc')"
      by (rule wf_value_mono) (use c True in auto)
    then show ?thesis
      using True group_pos by (subst accumulate_loop.simps) (simp add: Let_def acc'_def c_def)
  qed
qed

lemma accumulate_loop_wf_start:
  assumes "n \<le> 5000"
  shows "wf_value (ZeroExponent P) 30256
    (accumulate_loop P left right n 0 (value_from_float a (ZeroExponent P)))"
proof -
  have "wf_value (ZeroExponent P) 256 (value_from_float a (ZeroExponent P))"
    by (rule wf_value_mono [OF value_from_float_wf]) simp
  then have "wf_value (ZeroExponent P) (256 + 6 * int (n - 0))
      (accumulate_loop P left right n 0 (value_from_float a (ZeroExponent P)))"
    using assms by (intro accumulate_loop_wf) auto
  then show ?thesis by (rule wf_value_mono) (use assms in simp)
qed

text \<open>The last pass over the accumulator alone rounds nothing away.\<close>

lemma accumulate_is_loop:
  assumes "n \<le> 5000"
  shows "accumulate_bf16_impl P a left right n =
    value_to_float (accumulate_loop P left right n 0 (value_from_float a (ZeroExponent P)))"
proof -
  let ?v = "accumulate_loop P left right n 0 (value_from_float a (ZeroExponent P))"
  have "group_sum (InternalSignificandWidth P) (ZeroExponent P) [?v] =
      (if significand ?v = 0 then \<lparr>significand = 0, exponent = ZeroExponent P, negative = False\<rparr> else ?v)"
    using width_range zero_below zero_range accumulate_loop_wf_start [OF assms]
    by (intro group_sum_single) auto
  then show ?thesis
    by (simp add: accumulate_bf16_impl_def Let_def value_to_float_def)
qed

lemma accumulate_split:
  assumes "n1 \<le> length left" "n1 \<le> length right" "ProductsPerGroup P dvd n1" "n1 + n2 \<le> 5000"
    and fits: "exponent (accumulate_loop P left right n1 0 (value_from_float a (ZeroExponent P))) \<le> 128"
  shows "accumulate_bf16_impl P a left right (n1 + n2) =
    accumulate_bf16_impl P (accumulate_bf16_impl P a left right n1) (drop n1 left) (drop n1 right) n2"
proof -
  let ?Z = "ZeroExponent P"
  define v where "v = accumulate_loop P left right n1 0 (value_from_float a ?Z)"
  have "wf_value ?Z 30256 v" unfolding v_def using assms by (intro accumulate_loop_wf_start) simp
  with fits have v: "wf_value ?Z 128 v" by (auto simp: wf_value_def v_def)
  have unpack: "value_from_float (value_to_float v) ?Z =
      (if significand v = 0 then \<lparr>significand = 0, exponent = ?Z, negative = False\<rparr> else v)"
    using v by (simp add: unpack_of_pack) (simp add: value_to_float_def value_from_float_def)
  have zero: "significand v = 0 \<Longrightarrow> v = \<lparr>significand = 0, exponent = ?Z, negative = negative v\<rparr>"
    using v by (cases v) (simp add: wf_value_def)
  have "value_to_float (accumulate_loop P (drop n1 left) (drop n1 right) n2 0 v) =
      value_to_float (accumulate_loop P (drop n1 left) (drop n1 right) n2 0
        (value_from_float (value_to_float v) ?Z))"
  proof (cases "significand v = 0 \<and> negative v")
    case False
    then show ?thesis using unpack zero by (cases "significand v = 0") auto
  next
    case True
    then show ?thesis
      using zero unpack accumulate_loop_zero_sign [of n2 P] group_pos
      by (cases "n2 = 0") (simp_all add: accumulate_loop.simps [of P _ _ 0] value_to_float_def)
  qed
  then show ?thesis
    using assms accumulate_loop_split [of n1 left right P 0 n2 "value_from_float a ?Z"]
    by (simp add: accumulate_is_loop v_def)
qed

end


interpretation ampere: hawkeye_unit params_ampere_lovelace
  by unfold_locales (simp_all add: params_ampere_lovelace_def params_ok_def)

interpretation hopper: hawkeye_unit params_hopper
  by unfold_locales (simp_all add: params_hopper_def params_ok_def)

interpretation group8_width26: hawkeye_unit params_group8_width26
  by unfold_locales (simp_all add: params_group8_width26_def params_ok_def)

interpretation group16_width25: hawkeye_unit params_group16_width25
  by unfold_locales (simp_all add: params_group16_width25_def params_ok_def)

interpretation group4_width25: hawkeye_unit params_group4_width25
  by unfold_locales (simp_all add: params_group4_width25_def params_ok_def)

interpretation group8_width24: hawkeye_unit params_group8_width24
  by unfold_locales (simp_all add: params_group8_width24_def params_ok_def)

section \<open>Properties of the accumulator\<close>

text \<open>
  Unpacking a single-precision value and packing it again returns it bit for bit, for
  every bit pattern (subnormals, infinities and NaN payloads included), except that negative
  zero becomes positive zero.
\<close>

theorem value_float_roundtrip:
  "value_to_float (value_from_float b z) = (if b = 0x80000000 then 0 else b)"
  by (rule pack_of_unpack)

text \<open>
  C31. Rounding of one group. For an accumulator and at most sixteen products, the value
  \<^verbatim>\<open>group_sum\<close> returns differs from the real sum of its inputs by at most one unit of the
  aligned grid per input (alignment truncates; \<open>m\<close> is the largest exponent of the group and \<open>W\<close> the
  width of the grid) plus one unit in the last place of the result (renormalisation truncates). The inputs have
  significands below \<open>2\<^sup>2\<^sup>5\<close>, as products and unpacked accumulators do, and exponents far inside 16 bits.
\<close>

theorem group_sum_error:
  assumes "\<And>v. v \<in> set vs \<Longrightarrow> short_significand v \<and> exponent v \<le> 20000"
    and "length vs \<le> 17" "24 \<le> W" "W \<le> 26" "- 1000 \<le> z" "z \<le> 0"
  defines "m \<equiv> group_max_exponent z vs"
  shows "\<bar>hawkeye_real (group_sum W z vs) - (\<Sum>v\<leftarrow>vs. hawkeye_real v)\<bar>
    \<le> real (length vs) * 2 powi (m - 23 - int (W - 24)) + 2 powi last_place (group_sum W z vs)"
proof -
  define s where "s = group_signed_sum (W - 24) m vs"
  define a where "a = nat \<bar>s\<bar>"
  define e where "e = m + int (bit_width a) - int W"
  have m: "- 1000 \<le> m" "m \<le> 20000"
    using group_max_exponent_ge(1) [of z vs] assms group_max_exponent_le [of z 20000 vs] by auto
  have w: "bit_width a \<le> W + 6"
    unfolding a_def s_def m_def using assms by (intro group_sum_width) auto
  have e: "e \<le> m + 6" using w by (simp add: e_def)
  have sum: "\<bar>(\<Sum>v\<leftarrow>vs. hawkeye_real v) - real_of_int s * 2 powi (m - 23 - int (W - 24))\<bar>
      \<le> real (length vs) * 2 powi (m - 23 - int (W - 24))"
    unfolding s_def using assms group_max_exponent_ge(2) [of _ vs z]
    by (intro group_signed_sum_error) (auto simp: m_def)
  have "\<bar>hawkeye_real (group_normalize W z m s) - real_of_int s * 2 powi (m - 23 - int (W - 24))\<bar>
      \<le> 2 powi last_place (group_normalize W z m s)"
    using m assms e by (intro group_normalize_ulp) (auto simp: e_def a_def)
  then show ?thesis
    using sum unfolding group_sum_def Let_def m_def [symmetric] s_def [symmetric] by linarith
qed

theorem group_sum_error_witness:
  "let vs = [multiply_bf16 0x3fff 0x3f81 (- 133), multiply_bf16 0xbf81 0x3c01 (- 133)];
       m = group_max_exponent (- 133) vs
   in \<bar>hawkeye_real (group_sum 26 (- 133) vs) - (\<Sum>v\<leftarrow>vs. hawkeye_real v)\<bar>
    \<le> real (length vs) * 2 powi (m - 23 - int (26 - 24)) + 2 powi last_place (group_sum 26 (- 133) vs)"
proof -
  let ?vs = "[multiply_bf16 0x3fff 0x3f81 (- 133), multiply_bf16 0xbf81 0x3c01 (- 133)]"
  have "short_significand v \<and> exponent v \<le> 20000" if "v \<in> set ?vs" for v
  proof -
    from that obtain l r where "v = multiply_bf16 l r (- 133)" by auto
    then show ?thesis
      using multiply_bf16_exponent_le [of "- 133" l r] by (simp add: multiply_bf16_short)
  qed
  then show ?thesis
    unfolding Let_def by (intro group_sum_error) simp_all
qed

definition published_params :: "hawkeye_params list" where
  "published_params = [params_ampere_lovelace, params_hopper, params_group8_width26,
     params_group16_width25, params_group4_width25, params_group8_width24]"

lemma published_unit: "P \<in> set published_params \<Longrightarrow> hawkeye_unit P"
  unfolding published_params_def
  using ampere.hawkeye_unit_axioms hopper.hawkeye_unit_axioms group8_width26.hawkeye_unit_axioms
    group16_width25.hawkeye_unit_axioms group4_width25.hawkeye_unit_axioms
    group8_width24.hawkeye_unit_axioms
  by auto

text \<open>
  C30. Accumulation can be cut at a group boundary: running the first \<open>n1\<close> elements, storing the
  single-precision result, and continuing from it with the remaining \<open>n2\<close> elements gives the
  bits of one run over all of them, for each of the six published parameter sets, for at most 5000
  elements in all, and as long as the exponent reached at the cut is at most 128, so that packing
  does not wrap it.
\<close>

theorem accumulate_bf16_impl_chains:
  assumes "P \<in> set published_params" "ProductsPerGroup P dvd n1" "n1 + n2 \<le> 5000"
    and "n1 \<le> length left" "n1 \<le> length right"
    and "exponent (accumulate_loop P left right n1 0 (value_from_float a (ZeroExponent P))) \<le> 128"
  shows "accumulate_bf16_impl P a left right (n1 + n2) =
    accumulate_bf16_impl P (accumulate_bf16_impl P a left right n1) (drop n1 left) (drop n1 right) n2"
  using assms by (intro hawkeye_unit.accumulate_split published_unit) auto

theorem accumulate_bf16_impl_chains_witness:
  "accumulate_bf16_impl params_ampere_lovelace 0x3f800000 (replicate 11 0x3fff) (replicate 11 0x4001) (8 + 3) =
    accumulate_bf16_impl params_ampere_lovelace
      (accumulate_bf16_impl params_ampere_lovelace 0x3f800000 (replicate 11 0x3fff) (replicate 11 0x4001) 8)
      (drop 8 (replicate 11 0x3fff)) (drop 8 (replicate 11 0x4001)) 3"
proof (rule accumulate_bf16_impl_chains)
  show "params_ampere_lovelace \<in> set published_params" by (simp add: published_params_def)
  show "ProductsPerGroup params_ampere_lovelace dvd 8" by (simp add: params_ampere_lovelace_def)
  show "exponent (accumulate_loop params_ampere_lovelace (replicate 11 0x3fff) (replicate 11 0x4001) 8 0
      (value_from_float 0x3f800000 (ZeroExponent params_ampere_lovelace))) \<le> 128"
    by code_simp
qed simp_all

text \<open>
  The last pass of \<^verbatim>\<open>accumulate_bf16_impl\<close>, which sends the accumulator alone through
  \<^verbatim>\<open>group_sum\<close>, never changes the value: the result is the packed accumulator, and over no
  elements at all it is the initial accumulator bit for bit (negative zero becoming zero).
\<close>

theorem accumulate_bf16_impl_final_pass:
  assumes "P \<in> set published_params" "n \<le> 5000"
  shows "accumulate_bf16_impl P a left right n =
      value_to_float (accumulate_loop P left right n 0 (value_from_float a (ZeroExponent P)))
    \<and> accumulate_bf16_impl P a left right 0 = (if a = 0x80000000 then 0 else a)"
proof
  show "accumulate_bf16_impl P a left right n =
      value_to_float (accumulate_loop P left right n 0 (value_from_float a (ZeroExponent P)))"
    using assms by (intro hawkeye_unit.accumulate_is_loop published_unit)
  have "accumulate_bf16_impl P a left right 0 =
      value_to_float (accumulate_loop P left right 0 0 (value_from_float a (ZeroExponent P)))"
    using assms by (intro hawkeye_unit.accumulate_is_loop published_unit) auto
  then show "accumulate_bf16_impl P a left right 0 = (if a = 0x80000000 then 0 else a)"
    by (simp add: accumulate_loop.simps [of P left right 0] pack_of_unpack)
qed

theorem accumulate_bf16_impl_final_pass_witness:
  "accumulate_bf16_impl params_hopper 0x3f800000 [0x4040] [0x4040] 1 = 0x41200000
    \<and> accumulate_bf16_impl params_hopper 0x80000000 [] [] 0 = 0"
proof
  have "accumulate_bf16_impl params_hopper 0x3f800000 [0x4040] [0x4040] 1 =
      value_to_float (accumulate_loop params_hopper [0x4040] [0x4040] 1 0 (value_from_float 0x3f800000 (ZeroExponent params_hopper)))"
    using accumulate_bf16_impl_final_pass [of params_hopper 1 "0x3f800000" "[0x4040]" "[0x4040]"]
    by (simp add: published_params_def)
  also have "\<dots> = 0x41200000" by code_simp
  finally show "accumulate_bf16_impl params_hopper 0x3f800000 [0x4040] [0x4040] 1 = 0x41200000" .
  show "accumulate_bf16_impl params_hopper 0x80000000 [] [] 0 = 0"
    using accumulate_bf16_impl_final_pass [of params_hopper 1 "0x80000000" "[]" "[]"]
    by (simp add: published_params_def)
qed

text \<open>
  The wide sum of a group stays far inside the signed 64-bit integer that holds it: for an
  accumulator and at most sixteen products, at an internal width of 24, 25 or 26 bits, its
  magnitude is at most \<open>17 * (2 ^ 25 - 1) * 2 ^ (width - 24)\<close>, below \<open>2 ^ 32\<close>.
\<close>

lemma group_signed_sum_bound:
  assumes "\<And>v. v \<in> set vs \<Longrightarrow> short_significand v" "length vs \<le> 17" "24 \<le> W" "W \<le> 26"
  shows "\<bar>group_signed_sum (W - 24) (group_max_exponent z vs) vs\<bar> \<le> 17 * (2 ^ 25 - 1) * 2 ^ (W - 24)
    \<and> \<bar>group_signed_sum (W - 24) (group_max_exponent z vs) vs\<bar> < 2 ^ 32"
proof -
  have "\<bar>group_signed_sum (W - 24) (group_max_exponent z vs) vs\<bar> \<le> 17 * (2 ^ 25 - 1) * 2 ^ (W - 24)"
    using assms by (intro group_signed_sum_magnitude) auto
  moreover have "(2::int) ^ (W - 24) \<le> 2 ^ 2" by (rule power_increasing) (use assms in auto)
  ultimately show ?thesis by simp
qed

text \<open>
  The comment of the header places the reachable sum within \<^verbatim>\<open>int32_t\<close>. With the Hopper
  parameters it is not: sixteen products of the largest significands with the accumulator
  they can leave behind sum to 2197848060, above \<open>2 ^ 31 - 1\<close>. The 64-bit sum of the source
  holds it; a 32-bit one would not.
\<close>

theorem hopper_sum_exceeds_int32:
  "group_signed_sum (InternalSignificandWidth params_hopper - 24) 0
     (value_from_float 0x3fffffff (ZeroExponent params_hopper)
        # replicate 16 (multiply_bf16 0x3fff 0x3fff (ZeroExponent params_hopper))) = 2197848060
   \<and> (2197848060 :: int) > 2 ^ 31 - 1"
  by code_simp

text \<open>
  Packing keeps only the low eight bits of the biased exponent, so a finite sum beyond the
  single-precision range is not saturated: the dot product of \<open>2 ^ 127\<close> and 4 is returned as positive zero.
\<close>

theorem dot_bf16_overflow_wraps:
  "dot_bf16_hopper [0x7f00] [0x4080] 1 = 0 \<and> bf16_real 0x7f00 = 2 ^ 127 \<and> bf16_real 0x4080 = 4"
  by (simp add: bf16_real_def) code_simp

end
