(* ===== verification/Expert_Math.thy ===== *)
theory Expert_Math
  imports Hawkeye
begin

unbundle bit_operations_syntax

text \<open>
  The arithmetic of \<^verbatim>\<open>native/providers/q1_moe_avx512bf16_host_provider.cpp\<close>: separately rounded
  single-precision operations, the 32-lane AVX-512 dot product with its tree reduction, the
  activation endpoints, the arithmetic modes and the two sums over the routes.

  Single-precision addition, multiplication and division are IEEE round-to-nearest-even on bit
  patterns. What the C++ standard leaves to the platform is a parameter: the payload of a
  resulting NaN, \<open>std::exp\<close>, and the instruction \<open>_mm512_dpbf16_ps\<close> on one lane.
\<close>

record fpu =
  nan_result :: "f32 \<Rightarrow> f32 \<Rightarrow> f32"
  exp_f32 :: "f32 \<Rightarrow> f32"
  dpbf16 :: "f32 \<Rightarrow> bf16 \<times> bf16 \<Rightarrow> bf16 \<times> bf16 \<Rightarrow> f32"

section \<open>Single precision\<close>

text \<open>A finite value is a signed multiple of \<open>2 ^ - 149\<close>.\<close>

definition f32_negative :: "f32 \<Rightarrow> bool" where
  "f32_negative x = bit x 31"

definition f32_magnitude :: "f32 \<Rightarrow> nat" where
  "f32_magnitude x =
     (let e = unat (drop_bit 23 x AND 0xff); f = unat (x AND 0x7fffff)
      in if e = 0 then f else (8388608 + f) * 2 ^ (e - 1))"

definition f32_units :: "f32 \<Rightarrow> int" where
  "f32_units x = (if f32_negative x then - int (f32_magnitude x) else int (f32_magnitude x))"

definition f32_infinite :: "f32 \<Rightarrow> bool" where
  "f32_infinite x \<longleftrightarrow> x AND 0x7fffffff = 0x7f800000"

definition f32_neg :: "f32 \<Rightarrow> f32" where
  "f32_neg x = x XOR 0x80000000"

definition f32_with_sign :: "bool \<Rightarrow> f32 \<Rightarrow> f32" where
  "f32_with_sign s x = (if s then x OR 0x80000000 else x)"

text \<open>The integer nearest to a quotient, ties to even.\<close>

definition round_quotient :: "nat \<Rightarrow> nat \<Rightarrow> nat" where
  "round_quotient n d =
     (if 2 * (n mod d) < d \<or> 2 * (n mod d) = d \<and> even (n div d) then n div d else n div d + 1)"

text \<open>
  The single-precision value nearest to \<open>n / d\<close> units. Exponent and fraction are adjacent in the
  encoding, so a carry out of the fraction gives the next exponent and, at the end, infinity.
\<close>

definition f32_round :: "bool \<Rightarrow> nat \<Rightarrow> nat \<Rightarrow> f32" where
  "f32_round s n d =
     (let k = bit_width (n div d) - 24;
          code = k * 8388608 + round_quotient n (d * 2 ^ k)
      in f32_with_sign s (if code \<ge> 0x7f800000 then 0x7f800000 else of_nat code))"

definition f32_add :: "fpu \<Rightarrow> f32 \<Rightarrow> f32 \<Rightarrow> f32" where
  "f32_add fp x y =
     (if f32_is_nan x \<or> f32_is_nan y then nan_result fp x y
      else if f32_infinite x
      then if f32_infinite y \<and> f32_negative x \<noteq> f32_negative y then nan_result fp x y else x
      else if f32_infinite y then y
      else let u = f32_units x + f32_units y
           in if u = 0 then f32_with_sign (f32_negative x \<and> f32_negative y) 0
              else f32_round (u < 0) (nat \<bar>u\<bar>) 1)"

definition f32_mul :: "fpu \<Rightarrow> f32 \<Rightarrow> f32 \<Rightarrow> f32" where
  "f32_mul fp x y =
     (let s = (f32_negative x \<noteq> f32_negative y)
      in if f32_is_nan x \<or> f32_is_nan y then nan_result fp x y
         else if f32_infinite x \<or> f32_infinite y
         then if f32_magnitude x = 0 \<or> f32_magnitude y = 0 then nan_result fp x y
              else f32_with_sign s 0x7f800000
         else f32_round s (f32_magnitude x * f32_magnitude y) (2 ^ 149))"

definition f32_div :: "fpu \<Rightarrow> f32 \<Rightarrow> f32 \<Rightarrow> f32" where
  "f32_div fp x y =
     (let s = (f32_negative x \<noteq> f32_negative y)
      in if f32_is_nan x \<or> f32_is_nan y then nan_result fp x y
         else if f32_infinite x
         then if f32_infinite y then nan_result fp x y else f32_with_sign s 0x7f800000
         else if f32_infinite y then f32_with_sign s 0
         else if f32_magnitude y = 0
         then if f32_magnitude x = 0 then nan_result fp x y else f32_with_sign s 0x7f800000
         else f32_round s (f32_magnitude x * 2 ^ 149) (f32_magnitude y))"

text \<open>\<open>value >= 0.0f\<close>: false on a NaN, true on a negative zero.\<close>

definition f32_nonnegative :: "f32 \<Rightarrow> bool" where
  "f32_nonnegative x \<longleftrightarrow> \<not> f32_is_nan x \<and> (\<not> f32_negative x \<or> f32_magnitude x = 0)"

definition f32_one :: f32 where
  "f32_one = 0x3f800000"

text \<open>The bytes of a single-precision array in memory.\<close>

definition f32_bytes :: "f32 list \<Rightarrow> u8 list" where
  "f32_bytes xs = concat (map (\<lambda>x. [ucast x, ucast (drop_bit 8 x), ucast (drop_bit 16 x), ucast (drop_bit 24 x)]) xs)"

section \<open>Dot products\<close>

definition kWaveLanes :: nat where
  "kWaveLanes = 32"

definition add_separate :: "fpu \<Rightarrow> f32 \<Rightarrow> f32 \<Rightarrow> f32" where
  "add_separate fp left right = f32_add fp left right"

definition mul_separate :: "fpu \<Rightarrow> f32 \<Rightarrow> f32 \<Rightarrow> f32" where
  "mul_separate fp left right = f32_mul fp left right"

text \<open>The inner loop of \<open>wave32_tree_sum\<close> updates the lanes in place, in ascending order.\<close>

function tree_pass :: "(f32 \<Rightarrow> f32 \<Rightarrow> f32) \<Rightarrow> nat \<Rightarrow> nat \<Rightarrow> f32 list \<Rightarrow> f32 list" where
  "tree_pass add offset lane lanes =
     (if lane + offset < length lanes
      then tree_pass add offset (lane + 1) (lanes[lane := add (lanes ! lane) (lanes ! (lane + offset))])
      else lanes)"
  by pat_completeness auto
termination
  by (relation "measure (\<lambda>(add, offset, lane, lanes). length lanes - lane)") auto

declare tree_pass.simps [simp del]

fun tree_passes :: "(f32 \<Rightarrow> f32 \<Rightarrow> f32) \<Rightarrow> nat \<Rightarrow> f32 list \<Rightarrow> f32 list" where
  "tree_passes add offset lanes =
     (if offset > 0 then tree_passes add (offset div 2) (tree_pass add offset 0 lanes) else lanes)"

declare tree_passes.simps [simp del]

definition wave32_tree_sum :: "fpu \<Rightarrow> f32 list \<Rightarrow> f32" where
  "wave32_tree_sum fp lanes = tree_passes (add_separate fp) (kWaveLanes div 2) lanes ! 0"

text \<open>
  One iteration of the dot product: lane \<open>l\<close> takes the pair of elements \<open>2 * (pair + l)\<close> and the one
  after it, lanes 0 to 15 in one register and 16 to 31 in the other.
\<close>

definition bf16_pair :: "bf16 list \<Rightarrow> nat \<Rightarrow> bf16 \<times> bf16" where
  "bf16_pair xs p = (xs ! (2 * p), xs ! (2 * p + 1))"

definition dpbf16_ps :: "fpu \<Rightarrow> bf16 list \<Rightarrow> bf16 list \<Rightarrow> nat \<Rightarrow> f32 list \<Rightarrow> f32 list" where
  "dpbf16_ps fp input weight pair lanes =
     map (\<lambda>l. dpbf16 fp (lanes ! l) (bf16_pair input (pair + l)) (bf16_pair weight (pair + l)))
       [0..<kWaveLanes div 2]"

function wave_loop :: "fpu \<Rightarrow> bf16 list \<Rightarrow> bf16 list \<Rightarrow> nat \<Rightarrow> nat \<Rightarrow> f32 list \<Rightarrow> f32 list \<Rightarrow> f32 list \<times> f32 list" where
  "wave_loop fp input weight pairs pair lane_0_15 lane_16_31 =
     (if pair < pairs
      then wave_loop fp input weight pairs (pair + kWaveLanes)
             (dpbf16_ps fp input weight pair lane_0_15)
             (dpbf16_ps fp input weight (pair + kWaveLanes div 2) lane_16_31)
      else (lane_0_15, lane_16_31))"
  by pat_completeness auto
termination
  by (relation "measure (\<lambda>(fp, input, weight, pairs, pair, l0, l1). pairs - pair)") (auto simp: kWaveLanes_def)

declare wave_loop.simps [simp del]

definition avx512bf16_wave32_dot :: "fpu \<Rightarrow> bf16 list \<Rightarrow> bf16 list \<Rightarrow> nat \<Rightarrow> f32" where
  "avx512bf16_wave32_dot fp input weight elements =
     (let zero = replicate (kWaveLanes div 2) 0;
          (lane_0_15, lane_16_31) = wave_loop fp input weight (elements div 2) 0 zero zero
      in wave32_tree_sum fp (lane_0_15 @ lane_16_31))"

section \<open>Activation\<close>

definition silu :: "fpu \<Rightarrow> f32 \<Rightarrow> f32" where
  "silu fp gate = f32_div fp gate (f32_add fp f32_one (exp_f32 fp (f32_neg gate)))"

definition activation_endpoint :: "fpu \<Rightarrow> bf16 \<Rightarrow> bf16 \<Rightarrow> bf16" where
  "activation_endpoint fp gate_bits up_bits =
     float_to_bf16 (f32_mul fp (silu fp (bf16_to_float gate_bits)) (bf16_to_float up_bits))"

definition vllm_activation_endpoint :: "fpu \<Rightarrow> bf16 \<Rightarrow> bf16 \<Rightarrow> bf16" where
  "vllm_activation_endpoint fp gate_bits up_bits =
     (let silu_bits = float_to_bf16 (silu fp (bf16_to_float gate_bits))
      in float_to_bf16 (mul_separate fp (bf16_to_float silu_bits) (bf16_to_float up_bits)))"

section \<open>Arithmetic modes\<close>

datatype arithmetic_mode =
    AVX512_WAVE32
  | HAWKEYE_AMPERE_LOVELACE
  | HAWKEYE_HOPPER
  | HAWKEYE_AMPERE_LOVELACE_LEGACY_ENDPOINTS
  | AVX512_WAVE32_VLLM_ENDPOINTS
  | HAWKEYE_AMPERE_LOVELACE_FINAL_BF16
  | HAWKEYE_AMPERE_LOVELACE_ACTIVATION_FINAL_BF16
  | HAWKEYE_AMPERE_LOVELACE_WEIGHTED_SEQUENTIAL
  | FACTOR_GROUP8_WIDTH26
  | FACTOR_GROUP16_WIDTH25
  | FACTOR_GROUP4_WIDTH25
  | FACTOR_GROUP8_WIDTH24
  | AVX512_WAVE32_FINAL_BF16
  | AVX512_WAVE32_ACTIVATION_FINAL_BF16
  | AVX512_WAVE32_WEIGHTED_SEQUENTIAL
  | AVX512_WAVE32_ACTIVATION_BF16
  | AVX512_WAVE32_WEIGHTED_BF16
  | AVX512_WAVE32_ACTIVATION_WEIGHTED_BF16
  | AVX512_WAVE32_WEIGHTED_FINAL_BF16

text \<open>The modes in the order of their numbers; the request carries the number.\<close>

definition arithmetic_modes :: "arithmetic_mode list" where
  "arithmetic_modes =
     [AVX512_WAVE32, HAWKEYE_AMPERE_LOVELACE, HAWKEYE_HOPPER, HAWKEYE_AMPERE_LOVELACE_LEGACY_ENDPOINTS,
      AVX512_WAVE32_VLLM_ENDPOINTS, HAWKEYE_AMPERE_LOVELACE_FINAL_BF16,
      HAWKEYE_AMPERE_LOVELACE_ACTIVATION_FINAL_BF16, HAWKEYE_AMPERE_LOVELACE_WEIGHTED_SEQUENTIAL,
      FACTOR_GROUP8_WIDTH26, FACTOR_GROUP16_WIDTH25, FACTOR_GROUP4_WIDTH25, FACTOR_GROUP8_WIDTH24,
      AVX512_WAVE32_FINAL_BF16, AVX512_WAVE32_ACTIVATION_FINAL_BF16, AVX512_WAVE32_WEIGHTED_SEQUENTIAL,
      AVX512_WAVE32_ACTIVATION_BF16, AVX512_WAVE32_WEIGHTED_BF16, AVX512_WAVE32_ACTIVATION_WEIGHTED_BF16,
      AVX512_WAVE32_WEIGHTED_FINAL_BF16]"

definition mode_of :: "u32 \<Rightarrow> arithmetic_mode" where
  "mode_of n = arithmetic_modes ! unat n"

fun uses_hawkeye_accumulator :: "arithmetic_mode \<Rightarrow> bool" where
  "uses_hawkeye_accumulator AVX512_WAVE32 = False"
| "uses_hawkeye_accumulator AVX512_WAVE32_VLLM_ENDPOINTS = False"
| "uses_hawkeye_accumulator AVX512_WAVE32_FINAL_BF16 = False"
| "uses_hawkeye_accumulator AVX512_WAVE32_ACTIVATION_FINAL_BF16 = False"
| "uses_hawkeye_accumulator AVX512_WAVE32_WEIGHTED_SEQUENTIAL = False"
| "uses_hawkeye_accumulator AVX512_WAVE32_ACTIVATION_BF16 = False"
| "uses_hawkeye_accumulator AVX512_WAVE32_WEIGHTED_BF16 = False"
| "uses_hawkeye_accumulator AVX512_WAVE32_ACTIVATION_WEIGHTED_BF16 = False"
| "uses_hawkeye_accumulator AVX512_WAVE32_WEIGHTED_FINAL_BF16 = False"
| "uses_hawkeye_accumulator _ = True"

definition kEndpointActivationBf16 :: u32 where "kEndpointActivationBf16 = 1"
definition kEndpointWeightedDownBf16 :: u32 where "kEndpointWeightedDownBf16 = 2"
definition kEndpointRouteSumVt4 :: u32 where "kEndpointRouteSumVt4 = 4"
definition kEndpointFinalBf16 :: u32 where "kEndpointFinalBf16 = 8"
definition kEndpointAllVllm :: u32 where "kEndpointAllVllm = 15"

lemmas endpoint_bits = kEndpointActivationBf16_def kEndpointWeightedDownBf16_def kEndpointRouteSumVt4_def
  kEndpointFinalBf16_def kEndpointAllVllm_def

fun endpoint_mask_for_mode :: "arithmetic_mode \<Rightarrow> u32" where
  "endpoint_mask_for_mode AVX512_WAVE32 = 0"
| "endpoint_mask_for_mode HAWKEYE_AMPERE_LOVELACE_LEGACY_ENDPOINTS = 0"
| "endpoint_mask_for_mode HAWKEYE_AMPERE_LOVELACE_FINAL_BF16 = kEndpointFinalBf16"
| "endpoint_mask_for_mode AVX512_WAVE32_FINAL_BF16 = kEndpointFinalBf16"
| "endpoint_mask_for_mode HAWKEYE_AMPERE_LOVELACE_ACTIVATION_FINAL_BF16 =
     kEndpointActivationBf16 OR kEndpointFinalBf16"
| "endpoint_mask_for_mode AVX512_WAVE32_ACTIVATION_FINAL_BF16 = kEndpointActivationBf16 OR kEndpointFinalBf16"
| "endpoint_mask_for_mode HAWKEYE_AMPERE_LOVELACE_WEIGHTED_SEQUENTIAL =
     kEndpointActivationBf16 OR kEndpointWeightedDownBf16 OR kEndpointFinalBf16"
| "endpoint_mask_for_mode AVX512_WAVE32_WEIGHTED_SEQUENTIAL =
     kEndpointActivationBf16 OR kEndpointWeightedDownBf16 OR kEndpointFinalBf16"
| "endpoint_mask_for_mode AVX512_WAVE32_ACTIVATION_BF16 = kEndpointActivationBf16"
| "endpoint_mask_for_mode AVX512_WAVE32_WEIGHTED_BF16 = kEndpointWeightedDownBf16"
| "endpoint_mask_for_mode AVX512_WAVE32_ACTIVATION_WEIGHTED_BF16 =
     kEndpointActivationBf16 OR kEndpointWeightedDownBf16"
| "endpoint_mask_for_mode AVX512_WAVE32_WEIGHTED_FINAL_BF16 = kEndpointWeightedDownBf16 OR kEndpointFinalBf16"
| "endpoint_mask_for_mode _ = kEndpointAllVllm"

fun hawkeye_dot :: "bf16 list \<Rightarrow> bf16 list \<Rightarrow> nat \<Rightarrow> arithmetic_mode \<Rightarrow> f32" where
  "hawkeye_dot left right elements HAWKEYE_HOPPER = dot_bf16_hopper left right elements"
| "hawkeye_dot left right elements FACTOR_GROUP8_WIDTH26 = dot_bf16_group8_width26 left right elements"
| "hawkeye_dot left right elements FACTOR_GROUP16_WIDTH25 = dot_bf16_group16_width25 left right elements"
| "hawkeye_dot left right elements FACTOR_GROUP4_WIDTH25 = dot_bf16_group4_width25 left right elements"
| "hawkeye_dot left right elements FACTOR_GROUP8_WIDTH24 = dot_bf16_group8_width24 left right elements"
| "hawkeye_dot left right elements _ = dot_bf16_ampere_lovelace left right elements"

definition routed_dot :: "fpu \<Rightarrow> bf16 list \<Rightarrow> bf16 list \<Rightarrow> nat \<Rightarrow> arithmetic_mode \<Rightarrow> f32" where
  "routed_dot fp left right elements mode =
     (if uses_hawkeye_accumulator mode then hawkeye_dot left right elements mode
      else avx512bf16_wave32_dot fp left right elements)"

section \<open>Sums over the routes\<close>

definition route_sum_vt4 :: "fpu \<Rightarrow> f32 list \<Rightarrow> f32" where
  "route_sum_vt4 fp v =
     (let pair_0 = add_separate fp (v ! 0) (v ! 4);
          pair_1 = add_separate fp (v ! 1) (v ! 5);
          pair_2 = add_separate fp (v ! 2) (v ! 6);
          pair_3 = add_separate fp (v ! 3) (v ! 7);
          first = add_separate fp pair_0 pair_1;
          second = add_separate fp first pair_2
      in add_separate fp second pair_3)"

definition route_sum_sequential :: "fpu \<Rightarrow> f32 list \<Rightarrow> f32" where
  "route_sum_sequential fp v = foldl (add_separate fp) 0 v"


section \<open>The reduction tree\<close>

text \<open>The reference: the upper half of the lanes is added to the lower half until one is left.\<close>

fun fold_halves :: "('a \<Rightarrow> 'a \<Rightarrow> 'a) \<Rightarrow> nat \<Rightarrow> 'a list \<Rightarrow> 'a" where
  "fold_halves add 0 xs = xs ! 0"
| "fold_halves add (Suc k) xs = fold_halves add k (map2 add (take (2 ^ k) xs) (drop (2 ^ k) xs))"

lemma tree_pass_nth:
  assumes "0 < offset" "i < length xs"
  shows "tree_pass add offset lane xs ! i =
      (if lane \<le> i \<and> i + offset < length xs then add (xs ! i) (xs ! (i + offset)) else xs ! i)"
  using assms
proof (induction add offset lane xs rule: tree_pass.induct)
  case (1 add offset lane xs)
  show ?case
  proof (cases "lane + offset < length xs")
    case True
    let ?ys = "xs[lane := add (xs ! lane) (xs ! (lane + offset))]"
    have step: "tree_pass add offset lane xs = tree_pass add offset (lane + 1) ?ys"
      using True by (subst tree_pass.simps) simp
    have "tree_pass add offset (lane + 1) ?ys ! i =
        (if lane + 1 \<le> i \<and> i + offset < length ?ys then add (?ys ! i) (?ys ! (i + offset)) else ?ys ! i)"
      using "1.IH" [OF True] "1.prems" by simp
    also have "\<dots> = (if lane \<le> i \<and> i + offset < length xs then add (xs ! i) (xs ! (i + offset)) else xs ! i)"
      using True "1.prems" by (auto simp: nth_list_update)
    finally show ?thesis unfolding step .
  next
    case False
    then show ?thesis using "1.prems" by (subst tree_pass.simps) auto
  qed
qed

lemma length_tree_pass [simp]: "length (tree_pass add offset lane xs) = length xs"
  by (induction add offset lane xs rule: tree_pass.induct) (subst tree_pass.simps, simp)

lemma take_tree_pass:
  assumes "2 * n \<le> length xs" "0 < n"
  shows "take n (tree_pass add n 0 xs) = map2 add (take n xs) (drop n (take (2 * n) xs))"
  by (rule nth_equalityI) (use assms in \<open>simp_all add: tree_pass_nth ac_simps\<close>)

lemma tree_passes_fold:
  assumes "2 ^ Suc k \<le> length xs"
  shows "tree_passes add (2 ^ k) xs ! 0 = fold_halves add (Suc k) (take (2 ^ Suc k) xs)"
  using assms
proof (induction k arbitrary: xs)
  case 0
  have z: "tree_passes add 0 ys = ys" for ys by (subst tree_passes.simps) simp
  have "tree_passes add 1 xs = tree_pass add 1 0 xs"
    by (subst tree_passes.simps) (simp add: z)
  moreover have "tree_pass add 1 0 xs ! 0 = add (xs ! 0) (xs ! 1)"
    using 0 by (subst tree_pass_nth) auto
  ultimately show ?case using 0 by (simp add: numeral_2_eq_2)
next
  case (Suc k)
  let ?n = "2 ^ Suc k :: nat"
  have "tree_passes add ?n xs = tree_passes add (2 ^ k) (tree_pass add ?n 0 xs)"
    by (subst tree_passes.simps) simp
  then have "tree_passes add ?n xs ! 0 = fold_halves add (Suc k) (take ?n (tree_pass add ?n 0 xs))"
    using Suc by simp
  also have "take ?n (tree_pass add ?n 0 xs) = map2 add (take ?n xs) (drop ?n (take (2 * ?n) xs))"
    using Suc.prems by (intro take_tree_pass) simp_all
  also have "map2 add (take ?n xs) (drop ?n (take (2 * ?n) xs)) =
      map2 add (take ?n (take (2 ^ Suc (Suc k)) xs)) (drop ?n (take (2 ^ Suc (Suc k)) xs))"
    by (simp add: min_def)
  finally show ?case by simp
qed

lemma wave32_tree_sum_fold:
  assumes "length lanes = 32"
  shows "wave32_tree_sum fp lanes = fold_halves (add_separate fp) 5 lanes"
proof -
  have five: "Suc 4 = (5 :: nat)" by simp
  have "tree_passes (add_separate fp) (2 ^ 4) lanes ! 0 = fold_halves (add_separate fp) (Suc 4) (take (2 ^ Suc 4) lanes)"
    using assms by (intro tree_passes_fold) simp
  then show ?thesis
    using assms unfolding five by (simp add: wave32_tree_sum_def kWaveLanes_def)
qed

section \<open>The dot product\<close>

definition lane_sum :: "fpu \<Rightarrow> bf16 list \<Rightarrow> bf16 list \<Rightarrow> nat \<Rightarrow> nat \<Rightarrow> f32" where
  "lane_sum fp input weight n l =
     foldl (\<lambda>acc t. dpbf16 fp acc (bf16_pair input (32 * t + l)) (bf16_pair weight (32 * t + l))) 0 [0..<n]"

lemma dpbf16_ps_lanes:
  "dpbf16_ps fp input weight (32 * j + o') (map (\<lambda>l. lane_sum fp input weight j (o' + l)) [0..<16]) =
     map (\<lambda>l. lane_sum fp input weight (Suc j) (o' + l)) [0..<16]"
  by (rule nth_equalityI) (simp_all add: dpbf16_ps_def lane_sum_def kWaveLanes_def add.assoc)

lemma wave_loop_lanes:
  assumes "j \<le> n"
  shows "wave_loop fp input weight (32 * n) (32 * j)
      (map (\<lambda>l. lane_sum fp input weight j (0 + l)) [0..<16])
      (map (\<lambda>l. lane_sum fp input weight j (16 + l)) [0..<16]) =
    (map (\<lambda>l. lane_sum fp input weight n (0 + l)) [0..<16], map (\<lambda>l. lane_sum fp input weight n (16 + l)) [0..<16])"
  using assms
proof (induction rule: inc_induct)
  case base
  show ?case by (subst wave_loop.simps) simp
next
  case (step j)
  note lanes = dpbf16_ps_lanes [of fp input weight j 0] dpbf16_ps_lanes [of fp input weight j 16]
  have "32 * j + 32 = 32 * Suc j" by simp
  then show ?case
    using step lanes by (subst wave_loop.simps) (simp add: kWaveLanes_def add.commute)
qed

text \<open>
  The vectorised dot product is the lane-by-lane one: lane \<open>l\<close> accumulates the element pairs
  \<open>l\<close>, \<open>l + 32\<close>, \<open>l + 64\<close> and so on in order, whichever register holds it, and the lanes are added
  by repeatedly adding the upper half to the lower half. The in-place passes over all the lanes,
  including those whose values no longer matter, do not disturb it.
\<close>

theorem avx512bf16_wave32_dot_lanes:
  "avx512bf16_wave32_dot fp input weight (64 * n) =
     fold_halves (add_separate fp) 5 (map (lane_sum fp input weight n) [0..<32])"
proof -
  let ?lanes = "\<lambda>j. (map (\<lambda>l. lane_sum fp input weight j (0 + l)) [0..<16],
    map (\<lambda>l. lane_sum fp input weight j (16 + l)) [0..<16])"
  have start: "replicate (kWaveLanes div 2) 0 = map (\<lambda>l. lane_sum fp input weight 0 (o' + l)) [0..<16]" for o'
    by (rule nth_equalityI) (simp_all add: kWaveLanes_def lane_sum_def)
  have "64 * n div 2 = 32 * n" by simp
  then have "wave_loop fp input weight (64 * n div 2) 0 (replicate (kWaveLanes div 2) 0) (replicate (kWaveLanes div 2) 0)
      = ?lanes n"
    using wave_loop_lanes [of 0 n fp input weight] unfolding start [of 0] by (metis le0 mult_0_right start)
  moreover have "fst (?lanes n) @ snd (?lanes n) = map (lane_sum fp input weight n) [0..<32]"
  proof -
    have "[0..<32] = [0..<16] @ map (\<lambda>l. 16 + l) [0..<16::nat]"
      by (simp add: upt_conv_Cons)
    then show ?thesis by (simp add: comp_def)
  qed
  ultimately show ?thesis
    by (simp add: avx512bf16_wave32_dot_def Let_def wave32_tree_sum_fold del: upt_Suc)
qed

end
