(* ===== verification/Worker_Pool.thy ===== *)
theory Worker_Pool
  imports QRT_Prelude "HOL-Library.Multiset"
begin

text \<open>
  The class \<open>PersistentWorkerPool\<close> of
  \<^verbatim>\<open>native/providers/q1_moe_avx512bf16_host_provider.cpp\<close>: sixteen threads that wait for a new
  epoch, draw task indices from a shared atomic counter until it passes the task count, and
  report completion; \<open>parallel_for\<close> publishes a task and blocks until all sixteen have reported.

  One step of the model is one section under the mutex, one atomic \<open>fetch_add\<close>, one call of the task or the destruction of a
  worker's local copy of it; the sixteen workers and the calling thread interleave freely between steps.
  A thread that waits on a condition variable is asleep: it makes no step until a notification, or a spurious wake-up, has
  moved it on, and then it takes the mutex and evaluates the predicate again. \<open>notify_all\<close> and \<open>notify_one\<close> are part of the
  steps that perform them. \<open>size_t\<close> and \<open>uint64_t\<close> counters are 64-bit words.
  The tasks are identified by numbers, and what they execute is recorded, as pairs of task and index.
\<close>

section \<open>State\<close>

definition kWorkers :: nat where
  "kWorkers = 16"

type_synonym task_id = nat

text \<open>
  Where a worker is in \<open>worker_loop\<close>: at the top of the loop body, asleep on \<open>start_\<close>, awake again and about to evaluate the
  predicate, about to draw an index, about to call the task on an index, about to report completion, past the report
  with its copy of the task still alive, or returned. Its locals are the arguments.
\<close>

datatype worker =
    Ready u64
  | Asleep u64
  | Woken u64
  | Claiming u64 task_id u64
  | Running u64 task_id u64 u64
  | Finishing u64 task_id
  | Leaving u64 task_id
  | Exited

text \<open>
  The calling thread: outside the pool, asleep on \<open>done_\<close> in \<open>parallel_for\<close>, awake again there, in the destructor before and
  after its notification, or past it.
\<close>

datatype caller = Outside | Blocked | Notified | Stopping | Joining | Gone

record pool =
  workers :: "worker list"
  task :: task_id
  next_task :: u64
  task_count :: u64
  completed_workers :: nat
  epoch :: u64
  stopping :: bool
  calling :: caller
  executed :: "(task_id \<times> u64) list"

definition new_pool :: pool where
  "new_pool = \<lparr>workers = replicate kWorkers (Ready 0), task = 0, next_task = 0, task_count = 0,
     completed_workers = 0, epoch = 0, stopping = False, calling = Outside, executed = []\<rparr>"

section \<open>Operations\<close>

text \<open>\<open>start_.notify_all()\<close> and \<open>done_.notify_one()\<close>: who is asleep there has to be scheduled again.\<close>

definition rouse :: "worker \<Rightarrow> worker" where
  "rouse w = (case w of Asleep observed \<Rightarrow> Woken observed | _ \<Rightarrow> w)"

definition start_notify_all :: "pool \<Rightarrow> pool" where
  "start_notify_all s = s\<lparr>workers := map rouse (workers s)\<rparr>"

definition done_notify_one :: "pool \<Rightarrow> pool" where
  "done_notify_one s = s\<lparr>calling := (if calling s = Blocked then Notified else calling s)\<rparr>"

text \<open>\<open>done_.wait\<close> with the mutex held: \<open>parallel_for\<close> returns, or the caller falls asleep.\<close>

definition done_wait :: "pool \<Rightarrow> pool" where
  "done_wait s = s\<lparr>calling := (if completed_workers s = kWorkers then Outside else Blocked)\<rparr>"

text \<open>
  \<open>parallel_for\<close> up to its wait; the result is the exception of an invalid dispatch. The record
  of executed calls restarts with the dispatch.
\<close>

definition parallel_for_begin :: "u64 \<Rightarrow> task_id option \<Rightarrow> pool \<Rightarrow> string + pool" where
  "parallel_for_begin n fn s =
     (case fn of
        None \<Rightarrow> Inl ''invalid worker-pool dispatch''
      | Some f \<Rightarrow>
          if n = 0 then Inl ''invalid worker-pool dispatch''
          else let s = s\<lparr>task := f, task_count := n, completed_workers := 0, next_task := 0,
                         epoch := epoch s + 1, executed := []\<rparr>
               in Inr (done_wait (start_notify_all s)))"

text \<open>The predicate workers wait for, as the calling worker's lambda states it.\<close>

definition start_predicate :: "u64 \<Rightarrow> pool \<Rightarrow> bool" where
  "start_predicate observed s \<longleftrightarrow> stopping s \<or> epoch s \<noteq> observed"

text \<open>The first section of \<open>worker_loop\<close>: the wait, with the mutex held, and what follows it.\<close>

definition worker_wait :: "nat \<Rightarrow> u64 \<Rightarrow> pool \<Rightarrow> pool" where
  "worker_wait w observed s =
     s\<lparr>workers := (workers s)[w :=
         if \<not> start_predicate observed s then Asleep observed
         else if stopping s then Exited
         else Claiming (epoch s) (task s) (task_count s)]\<rparr>"

text \<open>The atomic draw of an index and the loop exit.\<close>

definition worker_claim :: "nat \<Rightarrow> u64 \<Rightarrow> task_id \<Rightarrow> u64 \<Rightarrow> pool \<Rightarrow> pool" where
  "worker_claim w observed f n s =
     (let index = next_task s
      in s\<lparr>next_task := index + 1,
           workers := (workers s)[w := if index \<ge> n then Finishing observed f
                                       else Running observed f n index]\<rparr>)"

definition worker_run :: "nat \<Rightarrow> u64 \<Rightarrow> task_id \<Rightarrow> u64 \<Rightarrow> u64 \<Rightarrow> pool \<Rightarrow> pool" where
  "worker_run w observed f n index s =
     s\<lparr>executed := (f, index) # executed s, workers := (workers s)[w := Claiming observed f n]\<rparr>"

definition worker_finish :: "nat \<Rightarrow> u64 \<Rightarrow> task_id \<Rightarrow> pool \<Rightarrow> pool" where
  "worker_finish w observed f s =
     (let s = s\<lparr>completed_workers := completed_workers s + 1, workers := (workers s)[w := Leaving observed f]\<rparr>
      in if completed_workers s = kWorkers then done_notify_one s else s)"

text \<open>The end of the loop body destroys the local \<open>std::function\<close>.\<close>

definition worker_drop :: "nat \<Rightarrow> u64 \<Rightarrow> pool \<Rightarrow> pool" where
  "worker_drop w observed s = s\<lparr>workers := (workers s)[w := Ready observed]\<rparr>"

definition destroy_begin :: "pool \<Rightarrow> pool" where
  "destroy_begin s = s\<lparr>stopping := True, epoch := epoch s + 1, calling := Stopping\<rparr>"

definition destroy_notify :: "pool \<Rightarrow> pool" where
  "destroy_notify s = (start_notify_all s)\<lparr>calling := Joining\<rparr>"

definition destroy_end :: "pool \<Rightarrow> pool" where
  "destroy_end s = s\<lparr>calling := Gone\<rparr>"

section \<open>Interleaved execution\<close>

text \<open>
  The steps that the pool's threads take by themselves, and the steps of a client whose dispatches have at most
  \<open>limit\<close> tasks, with the spurious wake-ups that the platform may add at any time.
\<close>

inductive pool_progress :: "pool \<Rightarrow> pool \<Rightarrow> bool" where
  wait: "w < length (workers s) \<Longrightarrow> workers s ! w = Ready observed \<or> workers s ! w = Woken observed
    \<Longrightarrow> pool_progress s (worker_wait w observed s)"
| claim: "w < length (workers s) \<Longrightarrow> workers s ! w = Claiming observed f n
    \<Longrightarrow> pool_progress s (worker_claim w observed f n s)"
| run: "w < length (workers s) \<Longrightarrow> workers s ! w = Running observed f n index
    \<Longrightarrow> pool_progress s (worker_run w observed f n index s)"
| finish: "w < length (workers s) \<Longrightarrow> workers s ! w = Finishing observed f
    \<Longrightarrow> pool_progress s (worker_finish w observed f s)"
| drop: "w < length (workers s) \<Longrightarrow> workers s ! w = Leaving observed f
    \<Longrightarrow> pool_progress s (worker_drop w observed s)"
| caller: "calling s = Notified \<Longrightarrow> pool_progress s (done_wait s)"

inductive pool_step :: "nat \<Rightarrow> pool \<Rightarrow> pool \<Rightarrow> bool" for limit :: nat where
  progress: "pool_progress s t \<Longrightarrow> pool_step limit s t"
| dispatch: "calling s = Outside \<Longrightarrow> unat n \<le> limit \<Longrightarrow> parallel_for_begin n fn s = Inr t
    \<Longrightarrow> pool_step limit s t"
| destroy: "calling s = Outside \<Longrightarrow> pool_step limit s (destroy_begin s)"
| notify: "calling s = Stopping \<Longrightarrow> pool_step limit s (destroy_notify s)"
| joined: "calling s = Joining \<Longrightarrow> (\<forall>w \<in> set (workers s). w = Exited) \<Longrightarrow> pool_step limit s (destroy_end s)"
| spurious_worker: "w < length (workers s) \<Longrightarrow> workers s ! w = Asleep observed
    \<Longrightarrow> pool_step limit s (s\<lparr>workers := (workers s)[w := Woken observed]\<rparr>)"
| spurious_caller: "calling s = Blocked \<Longrightarrow> pool_step limit s (s\<lparr>calling := Notified\<rparr>)"

inductive_cases pool_stepE: "pool_step limit s t"

section \<open>Invariant\<close>

text \<open>
  The epoch that a worker outside the drawing loop has seen, the indices a worker holds, and whether it has left the drawing
  loop of the current epoch.
\<close>

fun resting :: "worker \<Rightarrow> u64 option" where
  "resting (Ready observed) = Some observed"
| "resting (Asleep observed) = Some observed"
| "resting (Woken observed) = Some observed"
| "resting (Leaving observed _) = Some observed"
| "resting _ = None"

fun held :: "worker \<Rightarrow> u64 multiset" where
  "held (Running _ _ _ index) = {#index#}"
| "held _ = {#}"

definition reported :: "u64 \<Rightarrow> worker \<Rightarrow> nat" where
  "reported e w = (if resting w = Some e then 1 else 0)"

definition past_loop :: "u64 \<Rightarrow> worker \<Rightarrow> nat" where
  "past_loop e w = (case w of Finishing _ _ \<Rightarrow> 1 | _ \<Rightarrow> reported e w)"

text \<open>
  A worker that has entered the current dispatch works on its task; one that is asleep has seen the current epoch.
\<close>

fun worker_ok :: "pool \<Rightarrow> worker \<Rightarrow> bool" where
  "worker_ok s (Ready observed) = (observed = epoch s \<or> observed = epoch s - 1)"
| "worker_ok s (Asleep observed) = (observed = epoch s)"
| "worker_ok s (Woken observed) = (observed = epoch s \<or> observed = epoch s - 1)"
| "worker_ok s (Claiming observed f n) = (observed = epoch s \<and> f = task s \<and> n = task_count s)"
| "worker_ok s (Running observed f n index) =
     (observed = epoch s \<and> f = task s \<and> n = task_count s \<and> index < n)"
| "worker_ok s (Finishing observed f) = (observed = epoch s \<and> f = task s)"
| "worker_ok s (Leaving observed f) = (observed = epoch s \<or> observed = epoch s - 1)"
| "worker_ok s Exited = False"

definition held_total :: "pool \<Rightarrow> u64 multiset" where
  "held_total s = (\<Sum>w\<leftarrow>workers s. held w)"

definition past_total :: "pool \<Rightarrow> nat" where
  "past_total s = (\<Sum>w\<leftarrow>workers s. past_loop (epoch s) w)"

definition reported_total :: "pool \<Rightarrow> nat" where
  "reported_total s = (\<Sum>w\<leftarrow>workers s. reported (epoch s) w)"

text \<open>The indices the atomic counter has handed out.\<close>

definition drawn :: "pool \<Rightarrow> u64 multiset" where
  "drawn s = mset (map of_nat [0..<min (unat (next_task s)) (unat (task_count s))])"

definition dispatch_ok :: "nat \<Rightarrow> pool \<Rightarrow> bool" where
  "dispatch_ok limit s \<longleftrightarrow>
     unat (task_count s) \<le> limit \<and>
     (\<forall>w \<in> set (workers s). worker_ok s w) \<and>
     completed_workers s = reported_total s \<and>
     unat (next_task s) \<le> unat (task_count s) + past_total s \<and>
     (0 < past_total s \<longrightarrow> task_count s \<le> next_task s) \<and>
     mset (map snd (executed s)) + held_total s = drawn s \<and>
     (\<forall>c \<in> set (executed s). fst c = task s)"

definition pool_inv :: "nat \<Rightarrow> pool \<Rightarrow> bool" where
  "pool_inv limit s \<longleftrightarrow>
     length (workers s) = kWorkers \<and>
     (case calling s of
        Outside \<Rightarrow> \<not> stopping s \<and> (\<forall>w \<in> set (workers s). resting w = Some (epoch s)) \<and>
                   mset (map snd (executed s)) = mset (map of_nat [0..<unat (task_count s)]) \<and>
                   (\<forall>c \<in> set (executed s). fst c = task s)
      | Blocked \<Rightarrow> \<not> stopping s \<and> dispatch_ok limit s \<and> completed_workers s \<noteq> kWorkers
      | Notified \<Rightarrow> \<not> stopping s \<and> dispatch_ok limit s
      | Stopping \<Rightarrow> stopping s \<and> (\<forall>w \<in> set (workers s). w = Exited \<or> resting w \<noteq> None)
      | Joining \<Rightarrow> stopping s \<and> (\<forall>w \<in> set (workers s). w = Exited \<or> resting w \<noteq> None \<and> (\<forall>e. w \<noteq> Asleep e))
      | Gone \<Rightarrow> \<forall>w \<in> set (workers s). w = Exited)"

section \<open>Preservation\<close>

lemma past_loop_le: "past_loop e w \<le> 1" and reported_le: "reported e w \<le> 1"
  by (simp_all add: past_loop_def reported_def split: worker.split)

lemma resting_counts:
  "resting w = Some e \<Longrightarrow> reported e' w = (if e = e' then 1 else 0) \<and> past_loop e' w = (if e = e' then 1 else 0) \<and> held w = {#}"
  by (cases w) (auto simp: reported_def past_loop_def)

lemma busy_counts [simp]:
  "reported e (Claiming o1 f n) = 0" "past_loop e (Claiming o1 f n) = 0" "reported e (Running o1 f n i) = 0" "past_loop e (Running o1 f n i) = 0"
  "reported e (Finishing o1 f) = 0" "past_loop e (Finishing o1 f) = 1"
  by (simp_all add: reported_def past_loop_def)

lemma past_total_le: "past_total s \<le> length (workers s)"
  unfolding past_total_def by (rule sum_list_le_length) (rule past_loop_le)

lemma past_total_lt:
  assumes "w < length (workers s)" "workers s ! w = Claiming obs f n"
  shows "past_total s < length (workers s)"
proof (rule ccontr)
  assume "\<not> ?thesis"
  then have "(\<Sum>w\<leftarrow>workers s. past_loop (epoch s) w) = length (workers s)"
    using past_total_le [of s] by (simp add: past_total_def)
  then have "past_loop (epoch s) (workers s ! w) = 1"
    using assms(1) past_loop_le
    by (intro sum_list_le_length(2) [where xs = "workers s" and f = "past_loop (epoch s)"]) auto
  with assms(2) show False by simp
qed

lemma reported_all:
  assumes "reported_total s = length (workers s)" "w \<in> set (workers s)"
  shows "resting w = Some (epoch s)"
proof -
  have "reported (epoch s) w = 1"
    using assms unfolding reported_total_def
    by (intro sum_list_le_length(2) [where f = "reported (epoch s)" and xs = "workers s"]) (rule reported_le | simp)+
  then show ?thesis by (simp add: reported_def split: if_splits)
qed

lemma all_resting:
  assumes "\<And>w. w \<in> set (workers s) \<Longrightarrow> resting w = Some e"
  shows "held_total s = {#}" "reported_total s = (if e = epoch s then length (workers s) else 0)"
    "past_total s = (if e = epoch s then length (workers s) else 0)"
proof -
  have m: "map held (workers s) = map (\<lambda>_. {#}) (workers s)"
    "map (reported (epoch s)) (workers s) = map (\<lambda>_. if e = epoch s then 1 else 0) (workers s)"
    "map (past_loop (epoch s)) (workers s) = map (\<lambda>_. if e = epoch s then 1 else 0) (workers s)"
    using resting_counts [OF assms] by simp_all
  show "held_total s = {#}" unfolding held_total_def m by simp
  show "reported_total s = (if e = epoch s then length (workers s) else 0)" unfolding reported_total_def m by (simp add: sum_list_triv)
  show "past_total s = (if e = epoch s then length (workers s) else 0)" unfolding past_total_def m by (simp add: sum_list_triv)
qed

text \<open>One worker moves from \<open>x\<close> to \<open>y\<close>; the totals move by what the two contribute.\<close>

lemma totals_update:
  assumes "w < length (workers s)" "workers t = (workers s)[w := y]" "epoch t = epoch s"
  shows "held_total t + held (workers s ! w) = held_total s + held y"
    and "past_total t + past_loop (epoch s) (workers s ! w) = past_total s + past_loop (epoch s) y"
    and "reported_total t + reported (epoch s) (workers s ! w) = reported_total s + reported (epoch s) y"
  unfolding held_total_def past_total_def reported_total_def assms(2,3)
  by (rule sum_list_map_update [OF assms(1)])+

lemma worker_ok_cong:
  "epoch t = epoch s \<Longrightarrow> task t = task s \<Longrightarrow> task_count t = task_count s \<Longrightarrow> worker_ok t w = worker_ok s w"
  by (cases w) auto

lemma workers_ok_update:
  assumes "\<forall>v \<in> set (workers s). worker_ok s v" "workers t = (workers s)[w := y]" "worker_ok s y"
    "epoch t = epoch s" "task t = task s" "task_count t = task_count s"
  shows "\<forall>v \<in> set (workers t). worker_ok t v"
  using assms set_update_subset_insert [of "workers s" w y]
  by (auto simp: worker_ok_cong [of t s])

lemma drawn_Suc:
  assumes "next_task s < task_count s" "next_task t = next_task s + 1" "task_count t = task_count s"
  shows "drawn t = add_mset (next_task s) (drawn s)" "unat (next_task t) = Suc (unat (next_task s))"
proof -
  have lt: "unat (next_task s) < unat (task_count s)"
    using assms(1) by (simp add: word_less_nat_alt)
  then show n: "unat (next_task t) = Suc (unat (next_task s))"
    using assms(2) unat_lt [of "task_count s"] by (simp add: word_nat)
  show "drawn t = add_mset (next_task s) (drawn s)"
    using lt by (simp add: drawn_def n assms(3) min_def)
qed

lemma drawn_cong: "next_task t = next_task s \<Longrightarrow> task_count t = task_count s \<Longrightarrow> drawn t = drawn s"
  by (simp add: drawn_def)

lemma dispatch_okD:
  assumes "dispatch_ok limit s"
  shows "unat (task_count s) \<le> limit" "\<forall>w \<in> set (workers s). worker_ok s w"
    "completed_workers s = reported_total s" "unat (next_task s) \<le> unat (task_count s) + past_total s"
    "0 < past_total s \<Longrightarrow> task_count s \<le> next_task s"
    "mset (map snd (executed s)) + held_total s = drawn s"
    "\<forall>c \<in> set (executed s). fst c = task s"
  using assms unfolding dispatch_ok_def by blast+

lemma dispatch_okI:
  assumes "unat (task_count s) \<le> limit" "\<forall>w \<in> set (workers s). worker_ok s w"
    "completed_workers s = reported_total s" "unat (next_task s) \<le> unat (task_count s) + past_total s"
    "0 < past_total s \<Longrightarrow> task_count s \<le> next_task s"
    "mset (map snd (executed s)) + held_total s = drawn s"
    "\<forall>c \<in> set (executed s). fst c = task s"
  shows "dispatch_ok limit s"
  unfolding dispatch_ok_def using assms by blast

lemma dispatch_ok_calling [simp]: "dispatch_ok limit (s\<lparr>calling := c\<rparr>) \<longleftrightarrow> dispatch_ok limit s"
proof -
  have "worker_ok (s\<lparr>calling := c\<rparr>) w = worker_ok s w" for w by (rule worker_ok_cong) simp_all
  then show ?thesis by (simp add: dispatch_ok_def reported_total_def past_total_def held_total_def drawn_def)
qed

lemma rouse_awake [simp]: "rouse w \<noteq> Asleep e" "resting (rouse w) = resting w" "rouse w = Exited \<longleftrightarrow> w = Exited"
  by (cases w; simp add: rouse_def)+

lemma in_update: "x \<in> set (xs[i := y]) \<Longrightarrow> x = y \<or> x \<in> set xs"
  using set_update_subset_insert [of xs i y] by auto

lemma worker_ok_nth: "dispatch_ok limit s \<Longrightarrow> w < length (workers s) \<Longrightarrow> worker_ok s (workers s ! w)"
  using dispatch_okD(2) nth_mem by blast

text \<open>Sleeping, waking and leaving the loop body change none of the totals.\<close>

lemma dispatch_rest:
  assumes ok: "dispatch_ok limit s" and w: "w < length (workers s)" "workers t = (workers s)[w := y]"
    and rest: "resting (workers s ! w) = Some e" "resting y = Some e" "worker_ok s y"
    and t: "epoch t = epoch s" "task t = task s" "task_count t = task_count s" "next_task t = next_task s"
      "completed_workers t = completed_workers s" "executed t = executed s"
  shows "dispatch_ok limit t"
proof -
  have tot: "held_total t = held_total s" "past_total t = past_total s" "reported_total t = reported_total s"
    using totals_update [OF w t(1)] resting_counts [OF rest(1)] resting_counts [OF rest(2)] by simp_all
  have "\<forall>v \<in> set (workers t). worker_ok t v"
    using dispatch_okD(2) [OF ok] by (rule workers_ok_update [OF _ w(2) rest(3) t(1-3)])
  with dispatch_okD [OF ok] show ?thesis
    by (intro dispatch_okI) (simp_all only: t tot drawn_cong [OF t(4,3)])
qed

lemma dispatch_wait:
  assumes ok: "dispatch_ok limit s" and "\<not> stopping s" "w < length (workers s)"
    "workers s ! w = Ready obs \<or> workers s ! w = Woken obs"
  shows "dispatch_ok limit (worker_wait w obs s)"
proof (cases "obs = epoch s")
  case True
  then have "workers (worker_wait w obs s) = (workers s)[w := Asleep obs]"
    using assms(2) by (simp add: worker_wait_def start_predicate_def)
  from ok assms(3) this show ?thesis
    by (rule dispatch_rest [where e = obs]) (use assms(4) True in \<open>auto simp: worker_wait_def\<close>)
next
  case False
  let ?t = "worker_wait w obs s"
  have t: "workers ?t = (workers s)[w := Claiming (epoch s) (task s) (task_count s)]" "epoch ?t = epoch s"
    "task ?t = task s" "task_count ?t = task_count s" "next_task ?t = next_task s"
    "completed_workers ?t = completed_workers s" "executed ?t = executed s"
    using assms(2) False by (simp_all add: worker_wait_def start_predicate_def)
  have "resting (workers s ! w) = Some obs" using assms(4) by auto
  with False have tot: "held_total ?t = held_total s" "past_total ?t = past_total s" "reported_total ?t = reported_total s"
    using totals_update [OF assms(3) t(1,2)] resting_counts [of "workers s ! w" obs] by simp_all
  have "\<forall>v \<in> set (workers ?t). worker_ok ?t v"
    using dispatch_okD(2) [OF ok] by (rule workers_ok_update [OF _ t(1) _ t(2-4)]) simp
  with dispatch_okD [OF ok] show ?thesis
    by (intro dispatch_okI) (simp_all only: t tot drawn_cong [OF t(5,4)])
qed

lemma blocked_claim:
  assumes ok: "dispatch_ok limit s" and w: "w < length (workers s)" "workers s ! w = Claiming obs f n"
    and limit: "limit + length (workers s) < 2 ^ 64"
  shows "dispatch_ok limit (worker_claim w obs f n s)"
proof -
  let ?t = "worker_claim w obs f n s"
  let ?y = "if next_task s \<ge> n then Finishing obs f else Running obs f n (next_task s)"
  have t: "workers ?t = (workers s)[w := ?y]" "epoch ?t = epoch s"
    "task ?t = task s" "task_count ?t = task_count s" "next_task ?t = next_task s + 1"
    "completed_workers ?t = completed_workers s" "executed ?t = executed s"
    by (simp_all add: worker_claim_def Let_def)
  have x: "obs = epoch s" "f = task s" "n = task_count s"
    using worker_ok_nth [OF ok w(1)] w(2) by simp_all
  note D = dispatch_okD [OF ok]
  note tot = totals_update [OF w(1) t(1,2), unfolded w(2)]
  have oks: "\<forall>v \<in> set (workers ?t). worker_ok ?t v"
    using D(2) by (rule workers_ok_update [OF _ t(1) _ t(2-4)]) (auto simp: x not_le)
  show ?thesis
  proof (cases "next_task s \<ge> n")
    case True
    have tot': "held_total ?t = held_total s" "past_total ?t = past_total s + 1" "reported_total ?t = reported_total s"
      using tot True by simp_all
    have "unat (next_task s) + 1 < 2 ^ 64"
      using D(1,4) limit tot'(2) past_total_le [of ?t] t(1) by simp
    then have n': "unat (next_task ?t) = unat (next_task s) + 1"
      unfolding t(5) by (simp add: word_nat)
    have le: "unat (task_count s) \<le> unat (next_task s)"
      using True x(3) by (simp add: word_le_nat_alt)
    have "drawn ?t = drawn s"
      using le by (simp add: drawn_def n' t(4) min_def)
    moreover have "task_count ?t \<le> next_task ?t"
      using le by (simp add: word_le_nat_alt n' t(4))
    ultimately show ?thesis
      using D oks by (intro dispatch_okI) (simp_all only: t(1-4,6,7) tot' n')
  next
    case False
    then have lt: "next_task s < task_count s" by (simp add: x(3))
    note dr = drawn_Suc [OF lt t(5,4)]
    have tot': "held_total ?t = add_mset (next_task s) (held_total s)" "past_total ?t = past_total s"
      "reported_total ?t = reported_total s"
      using tot False by simp_all
    have "past_total s = 0" using D(5) lt by fastforce
    moreover have "unat (next_task s) < unat (task_count s)" using lt by (simp add: word_less_nat_alt)
    ultimately show ?thesis
      using D oks by (intro dispatch_okI) (simp_all add: t(1-4,6,7) tot' dr)
  qed
qed

lemma blocked_run:
  assumes ok: "dispatch_ok limit s" and w: "w < length (workers s)" "workers s ! w = Running obs f n index"
  shows "dispatch_ok limit (worker_run w obs f n index s)"
proof -
  let ?t = "worker_run w obs f n index s"
  have t: "workers ?t = (workers s)[w := Claiming obs f n]" "epoch ?t = epoch s"
    "task ?t = task s" "task_count ?t = task_count s" "next_task ?t = next_task s"
    "completed_workers ?t = completed_workers s" "executed ?t = (f, index) # executed s"
    by (simp_all add: worker_run_def)
  have x: "obs = epoch s" "f = task s" "n = task_count s"
    using worker_ok_nth [OF ok w(1)] w(2) by simp_all
  note D = dispatch_okD [OF ok]
  note tot = totals_update [OF w(1) t(1,2), unfolded w(2)]
  have oks: "\<forall>v \<in> set (workers ?t). worker_ok ?t v"
    using D(2) by (rule workers_ok_update [OF _ t(1) _ t(2-4)]) (simp add: x)
  have tot': "add_mset index (held_total ?t) = held_total s" "past_total ?t = past_total s"
    "reported_total ?t = reported_total s"
    using tot by simp_all
  have ex: "mset (map snd (executed ?t)) + held_total ?t = drawn ?t"
    using D(6) by (simp add: t(7) drawn_cong [OF t(5,4)] flip: tot'(1))
  have "\<forall>c \<in> set (executed ?t). fst c = task ?t"
    unfolding t(3,7) using D(7) x(2) by simp
  with D oks ex show ?thesis
    by (intro dispatch_okI) (simp_all only: t(1-6) tot'(2,3))
qed

lemma worker_finish_fields:
  "workers (worker_finish w obs f s) = (workers s)[w := Leaving obs f]" "epoch (worker_finish w obs f s) = epoch s"
  "task (worker_finish w obs f s) = task s" "task_count (worker_finish w obs f s) = task_count s"
  "next_task (worker_finish w obs f s) = next_task s" "completed_workers (worker_finish w obs f s) = completed_workers s + 1"
  "executed (worker_finish w obs f s) = executed s" "stopping (worker_finish w obs f s) = stopping s"
  "calling (worker_finish w obs f s) = (if completed_workers s + 1 = kWorkers \<and> calling s = Blocked then Notified else calling s)"
  by (simp_all add: worker_finish_def done_notify_one_def Let_def)

lemma blocked_finish:
  assumes ok: "dispatch_ok limit s" and w: "w < length (workers s)" "workers s ! w = Finishing obs f"
  shows "dispatch_ok limit (worker_finish w obs f s)"
proof -
  let ?t = "worker_finish w obs f s"
  note t = worker_finish_fields [of w obs f s]
  have x: "obs = epoch s" using worker_ok_nth [OF ok w(1)] w(2) by simp
  note D = dispatch_okD [OF ok]
  have tot: "held_total ?t = held_total s" "past_total ?t = past_total s"
    "reported_total ?t = reported_total s + 1"
    using totals_update [OF w(1) t(1,2), unfolded w(2)] x resting_counts [of "Leaving obs f" obs] by simp_all
  have "\<forall>v \<in> set (workers ?t). worker_ok ?t v"
    using D(2) by (rule workers_ok_update [OF _ t(1) _ t(2-4)]) (simp add: x)
  with D show ?thesis
    by (intro dispatch_okI) (simp_all only: t(1-7) tot drawn_cong [OF t(5,4)])
qed

lemma notified_wait:
  assumes "pool_inv limit s" "calling s = Notified"
  shows "pool_inv limit (done_wait s)"
proof (cases "completed_workers s = kWorkers")
  case True
  have len: "length (workers s) = kWorkers" and ok: "dispatch_ok limit s" and run: "\<not> stopping s"
    using assms by (simp_all add: pool_inv_def)
  note D = dispatch_okD [OF ok]
  have all: "resting w = Some (epoch s)" if "w \<in> set (workers s)" for w
    using reported_all [OF _ that] D(3) True len by simp
  have "0 < past_total s" using all_resting(3) [OF all] len by (simp add: kWorkers_def)
  then have "unat (task_count s) \<le> unat (next_task s)" using D(5) by (simp add: word_le_nat_alt)
  moreover have "held_total s = {#}" using all by (rule all_resting(1))
  ultimately have "mset (map snd (executed s)) = mset (map of_nat [0..<unat (task_count s)])"
    using D(6) by (simp add: drawn_def min_def)
  with len run all D(7) True show ?thesis by (simp add: pool_inv_def done_wait_def)
next
  case False
  then show ?thesis using assms False by (simp add: pool_inv_def done_wait_def)
qed

lemma outside_dispatch:
  assumes "pool_inv limit s" "calling s = Outside" "unat n \<le> limit" "parallel_for_begin n fn s = Inr t"
  shows "pool_inv limit t"
proof -
  have run: "\<not> stopping s" and len: "length (workers s) = kWorkers"
    and all: "\<forall>w \<in> set (workers s). resting w = Some (epoch s)"
    using assms(1,2) by (simp_all add: pool_inv_def)
  have t: "workers t = map rouse (workers s)" "epoch t = epoch s + 1" "task_count t = n" "next_task t = 0"
    "completed_workers t = 0" "executed t = []" "calling t = Blocked" "stopping t = stopping s"
    using assms(4) by (auto simp: parallel_for_begin_def start_notify_all_def done_wait_def Let_def kWorkers_def split: option.splits if_splits)
  have rest: "resting w = Some (epoch s)" "w \<noteq> Asleep e" if "w \<in> set (workers t)" for w e
    using all that by (auto simp: t(1))
  have tot: "held_total t = {#}" "reported_total t = 0" "past_total t = 0"
    using all_resting [of t "epoch s", OF rest(1)] by (simp_all add: t(2))
  have "worker_ok t w" if "w \<in> set (workers t)" for w
    using rest(1) [OF that] rest(2) [OF that, of "epoch s"] by (cases w) (auto simp: t(2))
  then have "dispatch_ok limit t"
    using assms(3) by (intro dispatch_okI) (simp_all add: t(3-6) tot drawn_def)
  with run len show ?thesis by (simp add: pool_inv_def t(1,5,7,8) kWorkers_def)
qed

lemma dispatch_preserves:
  assumes "pool_inv limit s" "calling s = Blocked \<or> calling s = Notified" "pool_progress s t" "limit + kWorkers < 2 ^ 64"
  shows "pool_inv limit t"
proof -
  have ok: "dispatch_ok limit s" "\<not> stopping s" and len: "length (workers s) = kWorkers"
    using assms(1,2) by (auto simp: pool_inv_def)
  have keep: "dispatch_ok limit t \<Longrightarrow> calling t = calling s \<Longrightarrow> completed_workers t = completed_workers s \<Longrightarrow> \<not> stopping t \<Longrightarrow>
      length (workers t) = length (workers s) \<Longrightarrow> pool_inv limit t"
    using assms(1,2) len by (auto simp: pool_inv_def)
  from assms(3) show ?thesis
  proof cases
    case (wait w observed)
    then show ?thesis
      using dispatch_wait [OF ok] ok(2) by (intro keep) (auto simp: worker_wait_def)
  next
    case (claim w observed f n)
    then show ?thesis
      using blocked_claim [OF ok(1)] ok(2) assms(4) len by (intro keep) (auto simp: worker_claim_def Let_def)
  next
    case (run w observed f n index)
    then show ?thesis
      using blocked_run [OF ok(1)] ok(2) by (intro keep) (auto simp: worker_run_def)
  next
    case (finish w observed f)
    then have "dispatch_ok limit t" using blocked_finish [OF ok(1)] by simp
    then show ?thesis
      using finish(1) ok(2) len assms(2) by (auto simp: pool_inv_def worker_finish_fields)
  next
    case (drop w observed f)
    have "worker_ok s (Leaving observed f)" using worker_ok_nth [OF ok(1) drop(2)] drop(3) by simp
    then have "dispatch_ok limit t"
      using drop by (intro dispatch_rest [OF ok(1) drop(2), where y = "Ready observed" and e = observed]) (auto simp: worker_drop_def)
    then show ?thesis using drop ok(2) by (intro keep) (auto simp: worker_drop_def)
  next
    case caller
    then show ?thesis using notified_wait [OF assms(1)] by simp
  qed
qed

lemma idle_preserves:
  assumes "pool_inv limit s" "calling s \<noteq> Blocked" "calling s \<noteq> Notified" "pool_progress s t"
  shows "pool_inv limit t"
proof -
  have busy: "resting (workers s ! w) = None \<Longrightarrow> workers s ! w = Exited" if "w < length (workers s)" for w
    using assms(1-3) nth_mem [OF that] by (auto simp: pool_inv_def split: caller.splits)
  from assms(4) show ?thesis
  proof cases
    case (wait w observed)
    let ?y = "if \<not> start_predicate observed s then Asleep observed else if stopping s then Exited else Claiming (epoch s) (task s) (task_count s)"
    have r: "resting (workers s ! w) = Some observed" using wait(3) by auto
    have e: "\<not> stopping s \<Longrightarrow> calling s = Outside \<Longrightarrow> observed = epoch s" using assms(1) r nth_mem [OF wait(2)] by (auto simp: pool_inv_def)
    show ?thesis
    proof (cases "calling s")
      case Outside
      then have "?y = Asleep (epoch s)" using assms(1) e by (simp add: pool_inv_def start_predicate_def)
      then show ?thesis using assms(1) Outside wait(1)
        by (auto simp: pool_inv_def worker_wait_def dest!: in_update)
    next
      case Stopping
      then have "?y = Exited" using assms(1) by (simp add: pool_inv_def start_predicate_def)
      then show ?thesis using assms(1) Stopping wait(1)
        by (auto simp: pool_inv_def worker_wait_def dest!: in_update)
    next
      case Joining
      then have "?y = Exited" using assms(1) by (simp add: pool_inv_def start_predicate_def)
      then show ?thesis using assms(1) Joining wait(1)
        by (auto simp: pool_inv_def worker_wait_def dest!: in_update)
    next
      case Gone
      then have "workers s ! w = Exited" using assms(1) nth_mem [OF wait(2)] by (simp add: pool_inv_def)
      then show ?thesis using r by simp
    qed (use assms(2,3) in simp_all)
  next
    case (drop w observed f)
    have l: "Leaving observed f \<in> set (workers s)" using nth_mem [OF drop(2)] drop(3) by simp
    show ?thesis
      using assms(1-3) drop(1) l by (cases "calling s") (auto simp: pool_inv_def worker_drop_def dest!: in_update)
  qed (use busy assms(2,3) in fastforce)+
qed

lemma progress_preserves:
  assumes "pool_inv limit s" "pool_progress s t" "limit + kWorkers < 2 ^ 64"
  shows "pool_inv limit t"
  using assms dispatch_preserves idle_preserves by blast

lemma spurious_preserves:
  assumes "pool_inv limit s" "w < length (workers s)" "workers s ! w = Asleep observed"
  shows "pool_inv limit (s\<lparr>workers := (workers s)[w := Woken observed]\<rparr>)"
proof (cases "calling s = Blocked \<or> calling s = Notified")
  case True
  then have ok: "dispatch_ok limit s" using assms(1) by (auto simp: pool_inv_def)
  have "worker_ok s (Asleep observed)" using worker_ok_nth [OF ok assms(2)] assms(3) by simp
  then have "dispatch_ok limit (s\<lparr>workers := (workers s)[w := Woken observed]\<rparr>)"
    using assms(3) by (intro dispatch_rest [OF ok assms(2), where y = "Woken observed" and e = observed]) simp_all
  then show ?thesis using True assms(1) by (auto simp: pool_inv_def)
next
  case False
  have l: "Asleep observed \<in> set (workers s)" using nth_mem [OF assms(2)] assms(3) by simp
  then show ?thesis
    using assms(1) False by (cases "calling s") (auto simp: pool_inv_def dest!: in_update)
qed

lemma step_preserves:
  assumes "pool_inv limit s" "pool_step limit s t" "limit + kWorkers < 2 ^ 64"
  shows "pool_inv limit t"
  using assms(2)
proof cases
  case progress
  then show ?thesis using progress_preserves assms by blast
next
  case (dispatch n fn)
  then show ?thesis using outside_dispatch assms(1) by blast
next
  case destroy
  then show ?thesis using assms(1) by (auto simp: pool_inv_def destroy_begin_def)
next
  case notify
  then show ?thesis using assms(1) by (auto simp: pool_inv_def destroy_notify_def start_notify_all_def)
next
  case joined
  then show ?thesis using assms(1) by (auto simp: pool_inv_def destroy_end_def)
next
  case (spurious_worker w observed)
  then show ?thesis using spurious_preserves assms(1) by blast
next
  case spurious_caller
  then show ?thesis using spurious_caller assms(1) by (simp add: pool_inv_def)
qed

lemma new_pool_inv: "pool_inv limit new_pool"
  by (simp add: pool_inv_def new_pool_def)

section \<open>A dispatch ends\<close>

text \<open>What is left to do: waits, draws, calls, reports, and the wake-up of the caller.\<close>

fun pending :: "u64 \<Rightarrow> worker \<Rightarrow> nat" where
  "pending e (Ready observed) = (if observed = e then 1 else 6)"
| "pending e (Asleep _) = 0"
| "pending e (Woken observed) = (if observed = e then 1 else 6)"
| "pending e (Claiming _ _ _) = 5"
| "pending e (Running _ _ _ _) = 6"
| "pending e (Finishing _ _) = 4"
| "pending e (Leaving observed _) = (if observed = e then 2 else 7)"
| "pending e Exited = 0"

definition dispatch_measure :: "pool \<Rightarrow> nat" where
  "dispatch_measure s =
     (if calling s = Notified then 1 else 0) + 2 * (unat (task_count s) - unat (next_task s)) +
     (\<Sum>w\<leftarrow>workers s. pending (epoch s) w)"

lemma pending_update:
  assumes "w < length (workers s)" "workers t = (workers s)[w := y]" "epoch t = epoch s"
  shows "(\<Sum>w\<leftarrow>workers t. pending (epoch t) w) + pending (epoch s) (workers s ! w) =
    (\<Sum>w\<leftarrow>workers s. pending (epoch s) w) + pending (epoch s) y"
  unfolding assms(2,3) by (rule sum_list_map_update [OF assms(1)])

lemma progress_decreases:
  assumes "pool_inv limit s" "pool_progress s t" "limit + kWorkers < 2 ^ 64"
  shows "dispatch_measure t < dispatch_measure s"
proof -
  have len: "length (workers s) = kWorkers" using assms(1) by (simp add: pool_inv_def)
  have busy: "(calling s = Blocked \<or> calling s = Notified) \<and> dispatch_ok limit s"
    if "v < length (workers s)" "resting (workers s ! v) = None" "workers s ! v \<noteq> Exited" for v
    using assms(1) that nth_mem [OF that(1)] by (auto simp: pool_inv_def split: caller.splits)
  from assms(2) show ?thesis
  proof cases
    case (wait w observed)
    let ?y = "if \<not> start_predicate observed s then Asleep observed else if stopping s then Exited else Claiming (epoch s) (task s) (task_count s)"
    have t: "workers t = (workers s)[w := ?y]" "epoch t = epoch s" using wait by (simp_all add: worker_wait_def)
    have "pending (epoch s) ?y < pending (epoch s) (workers s ! w)" using wait(3) by (auto simp: start_predicate_def)
    with pending_update [OF wait(2) t] show ?thesis by (simp add: dispatch_measure_def wait(1) worker_wait_def)
  next
    case (claim w observed f n)
    then have ok: "dispatch_ok limit s" using busy [of w] by simp
    note D = dispatch_okD [OF ok]
    let ?y = "if next_task s \<ge> n then Finishing observed f else Running observed f n (next_task s)"
    have t: "workers t = (workers s)[w := ?y]" "epoch t = epoch s" "next_task t = next_task s + 1"
      "task_count t = task_count s" "calling t = calling s"
      using claim by (simp_all add: worker_claim_def Let_def)
    have n: "n = task_count s" using worker_ok_nth [OF ok claim(2)] claim(3) by simp
    note p = pending_update [OF claim(2) t(1,2)]
    show ?thesis
    proof (cases "next_task s \<ge> n")
      case True
      then have "unat (task_count s) \<le> unat (next_task s)" by (simp add: n word_le_nat_alt)
      moreover have "unat (task_count s) \<le> unat (next_task t)"
      proof -
        have "unat (next_task s) + 1 < 2 ^ 64"
          using D(1,4) assms(3) past_total_lt [OF claim(2,3)] len by simp
        then show ?thesis using calculation by (simp add: t(3) word_nat)
      qed
      ultimately show ?thesis
        using p True claim(3) by (simp add: dispatch_measure_def t(4,5))
    next
      case False
      then have lt: "next_task s < task_count s" by (simp add: n)
      then have "unat (next_task s) < unat (task_count s)" by (simp add: word_less_nat_alt)
      with p False claim(3) drawn_Suc(2) [OF lt t(3,4)] show ?thesis
        by (simp add: dispatch_measure_def t(4,5))
    qed
  next
    case (run w observed f n index)
    have t: "workers t = (workers s)[w := Claiming observed f n]" "epoch t = epoch s"
      using run by (simp_all add: worker_run_def)
    from pending_update [OF run(2) t] run show ?thesis
      by (simp add: dispatch_measure_def worker_run_def)
  next
    case (finish w observed f)
    then have ok: "dispatch_ok limit s" using busy [of w] by simp
    have "observed = epoch s" using worker_ok_nth [OF ok finish(2)] finish(3) by simp
    with pending_update [OF finish(2), of t "Leaving observed f"] finish show ?thesis
      by (simp add: dispatch_measure_def worker_finish_fields)
  next
    case (drop w observed f)
    have t: "workers t = (workers s)[w := Ready observed]" "epoch t = epoch s" using drop by (simp_all add: worker_drop_def)
    from pending_update [OF drop(2) t] drop show ?thesis
      by (simp add: dispatch_measure_def worker_drop_def split: if_splits)
  next
    case caller
    then show ?thesis by (simp add: dispatch_measure_def done_wait_def)
  qed
qed

text \<open>Nobody sleeps through a notification: while \<open>parallel_for\<close> has not returned, some thread can move.\<close>

lemma worker_enabled:
  assumes "w < length (workers s)" "workers s ! w \<noteq> Exited" "\<And>e. workers s ! w \<noteq> Asleep e"
  shows "\<exists>t. pool_progress s t"
  using assms by (cases "workers s ! w") (blast intro: pool_progress.intros)+

lemma progress_enabled:
  assumes "pool_inv limit s" "calling s = Blocked \<or> calling s = Notified"
  shows "\<exists>t. pool_progress s t"
proof (cases "calling s = Notified")
  case True
  then show ?thesis using caller by blast
next
  case False
  then have ok: "dispatch_ok limit s" "completed_workers s \<noteq> kWorkers" and len: "length (workers s) = kWorkers"
    using assms by (auto simp: pool_inv_def)
  have "\<not> (\<forall>v \<in> set (workers s). resting v = Some (epoch s))"
    using all_resting(2) [of s "epoch s"] dispatch_okD(3) [OF ok(1)] ok(2) len by auto
  then obtain w where w: "w < length (workers s)" "resting (workers s ! w) \<noteq> Some (epoch s)" by (auto simp: in_set_conv_nth)
  have "workers s ! w \<noteq> Exited" "\<And>e. workers s ! w \<noteq> Asleep e"
    using worker_ok_nth [OF ok(1) w(1)] w(2) by auto
  then show ?thesis by (rule worker_enabled [OF w(1)])
qed

lemma joining_enabled:
  assumes "pool_inv limit s" "calling s = Joining" "\<exists>w \<in> set (workers s). w \<noteq> Exited"
  shows "\<exists>t. pool_progress s t"
proof -
  obtain w where w: "w < length (workers s)" "workers s ! w \<noteq> Exited" using assms(3) by (auto simp: in_set_conv_nth)
  have "\<forall>v \<in> set (workers s). v = Exited \<or> (\<forall>e. v \<noteq> Asleep e)" using assms(1,2) by (auto simp: pool_inv_def)
  then have "\<And>e. workers s ! w \<noteq> Asleep e" using w(2) nth_mem [OF w(1)] by blast
  then show ?thesis by (rule worker_enabled [OF w])
qed

lemma progress_calling:
  assumes "pool_progress s t" "calling s = Blocked \<or> calling s = Notified \<or> calling s = Outside"
  shows "calling t = Blocked \<or> calling t = Notified \<or> calling t = Outside"
  using assms by cases
    (auto simp: worker_wait_def worker_claim_def Let_def worker_run_def worker_finish_fields worker_drop_def done_wait_def)

lemma progress_steps:
  assumes "pool_inv limit s" "limit + kWorkers < 2 ^ 64" "pool_progress\<^sup>*\<^sup>* s t"
  shows "pool_inv limit t \<and> (calling s = Blocked \<or> calling s = Notified \<or> calling s = Outside \<longrightarrow>
    calling t = Blocked \<or> calling t = Notified \<or> calling t = Outside)"
  using assms(3)
proof (induction rule: rtranclp_induct)
  case (step t u)
  then show ?case using progress_preserves progress_calling assms(2) by blast
qed (use assms in simp)

lemma progress_bounded:
  assumes inv: "pool_inv limit s" and small: "limit + kWorkers < 2 ^ 64"
  shows "\<not> (\<exists>f. f 0 = s \<and> (\<forall>i. pool_progress (f i) (f (Suc i))))"
proof
  assume "\<exists>f. f 0 = s \<and> (\<forall>i. pool_progress (f i) (f (Suc i)))"
  then obtain f where f: "f 0 = s" "\<And>i. pool_progress (f i) (f (Suc i))" by blast
  have steps: "pool_progress\<^sup>*\<^sup>* s (f i)" for i
    using f by (induction i) (auto intro: rtranclp.rtrancl_into_rtrancl)
  then have "pool_inv limit (f i)" for i using progress_steps [OF inv small] by blast
  then have dec: "dispatch_measure (f (Suc i)) < dispatch_measure (f i)" for i
    using progress_decreases small f(2) by blast
  have "dispatch_measure (f i) + i \<le> dispatch_measure s" for i
  proof (induction i)
    case (Suc i)
    then show ?case using dec [of i] by linarith
  qed (simp add: f(1))
  from this [of "Suc (dispatch_measure s)"] show False by simp
qed

lemma dispatch_reaches_return:
  assumes "pool_inv limit s" "calling s = Blocked \<or> calling s = Notified" and small: "limit + kWorkers < 2 ^ 64"
  shows "\<exists>t. pool_progress\<^sup>*\<^sup>* s t \<and> calling t = Outside"
  using assms(1,2)
proof (induction "dispatch_measure s" arbitrary: s rule: less_induct)
  case less
  obtain t where t: "pool_progress s t" using progress_enabled less.prems by blast
  have inv: "pool_inv limit t" and lt: "dispatch_measure t < dispatch_measure s"
    using progress_preserves progress_decreases less.prems t small by blast+
  show ?case
  proof (cases "calling t = Outside")
    case False
    then have "calling t = Blocked \<or> calling t = Notified" using progress_calling t less.prems by blast
    with less.hyps [OF lt inv] t show ?thesis by (meson converse_rtranclp_into_rtranclp)
  qed (use t in blast)
qed

text \<open>The destructor's joins end too: the workers that are left can only exit.\<close>

lemma destructor_joins:
  assumes "pool_inv limit s" "calling s = Joining" "\<nexists>t. pool_progress s t"
  shows "\<forall>w \<in> set (workers s). w = Exited"
  using joining_enabled assms by blast

lemma progress_keeps_task:
  assumes "pool_progress\<^sup>*\<^sup>* s t"
  shows "task t = task s \<and> task_count t = task_count s"
  using assms
proof (induction rule: rtranclp_induct)
  case (step t u)
  from step.hyps(2) have "task u = task t \<and> task_count u = task_count t"
    by cases (simp_all add: worker_wait_def worker_claim_def Let_def worker_run_def worker_finish_fields worker_drop_def done_wait_def)
  with step.IH show ?case by simp
qed simp

lemma progress_reach: "reach initial (pool_step limit) s \<Longrightarrow> pool_progress\<^sup>*\<^sup>* s t \<Longrightarrow> reach initial (pool_step limit) t"
  by (rotate_tac, induction rule: rtranclp_induct) (auto intro: reach_step progress)

section \<open>Properties of the pool\<close>

text \<open>The contract of a transition system, for every client whose dispatches cannot wrap the counter.\<close>

lemma pool_system:
  assumes "limit + kWorkers < 2 ^ 64"
  shows "invariant_system (\<lambda>s. s = new_pool) (pool_step limit) (pool_inv limit)"
  by unfold_locales (use assms new_pool_inv step_preserves in auto)

text \<open>The provider's own client: \<open>run\<close> dispatches 4096 gate and up rows and 2048 output rows.\<close>

definition provider_dispatch_limit :: nat where
  "provider_dispatch_limit = 4096"

interpretation provider_pool: invariant_system "\<lambda>s. s = new_pool" "pool_step provider_dispatch_limit"
  "pool_inv provider_dispatch_limit"
  by (rule pool_system) (simp add: provider_dispatch_limit_def kWorkers_def)

text \<open>
  C4. Whenever the calling thread is outside the pool, however the sixteen workers interleaved and whatever spurious wake-ups
  there were, the last dispatch has called its own task exactly once on every index below the task count and on nothing else,
  and every worker has left the drawing loop of that dispatch for good: it has reported, or it waits for the next epoch, so no worker will call
  the task of a returned \<^verbatim>\<open>parallel_for\<close> again (a worker may still have to destroy its copy of it). The only condition is that
  task counts stay sixteen below the range of the 64-bit counter.
\<close>

theorem parallel_for_runs_each_index_once:
  assumes "reach (\<lambda>s. s = new_pool) (pool_step limit) s" "calling s = Outside"
    and "limit + kWorkers < 2 ^ 64"
  shows "mset (executed s) = mset (map (\<lambda>i. (task s, of_nat i)) [0..<unat (task_count s)])
    \<and> (\<forall>w \<in> set (workers s). resting w = Some (epoch s))"
proof -
  have "pool_inv limit s"
    by (rule invariant_system.inv_reach [OF pool_system [OF assms(3)] assms(1)])
  with assms(2) have ex: "mset (map snd (executed s)) = mset (map of_nat [0..<unat (task_count s)])"
    "\<forall>c \<in> set (executed s). fst c = task s" "\<forall>w \<in> set (workers s). resting w = Some (epoch s)"
    by (simp_all add: pool_inv_def)
  have "executed s = map (Pair (task s)) (map snd (executed s))"
    unfolding map_map by (rule map_idI [symmetric]) (use ex(2) in \<open>auto simp: prod_eq_iff\<close>)
  then have "mset (executed s) = mset (map (Pair (task s)) (map snd (executed s)))" by (rule arg_cong)
  also have "\<dots> = image_mset (Pair (task s)) (mset (map of_nat [0..<unat (task_count s)]))"
    unfolding ex(1) [symmetric] by (rule mset_map)
  also have "\<dots> = mset (map (\<lambda>i. (task s, of_nat i)) [0..<unat (task_count s)])"
    by (simp add: image_mset.compositionality comp_def)
  finally show ?thesis using ex(3) by simp
qed

text \<open>
  C5. \<^verbatim>\<open>parallel_for\<close> returns under every schedule: from a state in which the caller is inside it, reached with any spurious
  wake-ups, the threads cannot run on for ever without further spurious wake-ups, a state in which no thread can make a step
  is one in which \<^verbatim>\<open>parallel_for\<close> has returned, so no notification was missed by a sleeping thread, and such a schedule exists.
\<close>

theorem parallel_for_returns:
  assumes "reach (\<lambda>s. s = new_pool) (pool_step limit) s" "calling s = Blocked \<or> calling s = Notified"
    and "limit + kWorkers < 2 ^ 64"
  shows "\<not> (\<exists>f. f 0 = s \<and> (\<forall>i. pool_progress (f i) (f (Suc i))))
    \<and> (\<forall>t. pool_progress\<^sup>*\<^sup>* s t \<longrightarrow> (\<nexists>u. pool_progress t u) \<longrightarrow> calling t = Outside)
    \<and> (\<exists>t. pool_progress\<^sup>*\<^sup>* s t \<and> calling t = Outside)"
proof -
  have inv: "pool_inv limit s"
    by (rule invariant_system.inv_reach [OF pool_system [OF assms(3)] assms(1)])
  have "calling t = Outside" if "pool_progress\<^sup>*\<^sup>* s t" "\<nexists>u. pool_progress t u" for t
    using progress_steps [OF inv assms(3) that(1)] progress_enabled [of limit t] that(2) assms(2) by blast
  then show ?thesis
    using progress_bounded [OF inv assms(3)] dispatch_reaches_return [OF inv assms(2,3)] by blast
qed

text \<open>A dispatch of two tasks on a fresh pool.\<close>

definition example_dispatch :: pool where
  "example_dispatch = new_pool\<lparr>task := 7, task_count := 2, epoch := 1, calling := Blocked\<rparr>"

lemma example_reached: "reach (\<lambda>s. s = new_pool) (pool_step 4096) example_dispatch"
proof (rule reach_step [OF reach_initial])
  show "pool_step 4096 new_pool example_dispatch"
    by (rule dispatch [where n = 2 and fn = "Some 7"])
      (simp_all add: new_pool_def example_dispatch_def parallel_for_begin_def start_notify_all_def rouse_def done_wait_def kWorkers_def)
qed simp

lemma example_facts: "calling example_dispatch = Blocked \<or> calling example_dispatch = Notified" "4096 + kWorkers < 2 ^ 64"
  by (simp_all add: example_dispatch_def kWorkers_def)

theorem parallel_for_returns_witness:
  "\<not> (\<exists>f. f 0 = example_dispatch \<and> (\<forall>i. pool_progress (f i) (f (Suc i))))
    \<and> (\<exists>t. pool_progress\<^sup>*\<^sup>* example_dispatch t \<and> calling t = Outside)"
  using parallel_for_returns [OF example_reached example_facts] by blast

theorem parallel_for_runs_each_index_once_witness:
  "\<exists>s. reach (\<lambda>s. s = new_pool) (pool_step 4096) s \<and> mset (executed s) = {#(7, 0), (7, 1)#}"
proof -
  have "pool_inv 4096 example_dispatch"
    by (rule invariant_system.inv_reach [OF pool_system [OF example_facts(2)] example_reached])
  then obtain t where t: "pool_progress\<^sup>*\<^sup>* example_dispatch t" "calling t = Outside"
    using dispatch_reaches_return example_facts by blast
  have r: "reach (\<lambda>s. s = new_pool) (pool_step 4096) t"
    using example_reached t(1) by (rule progress_reach)
  have "task t = 7" "task_count t = 2"
    using progress_keeps_task [OF t(1)] by (simp_all add: example_dispatch_def)
  then have "map (\<lambda>i. (task t, of_nat i)) [0..<unat (task_count t)] = [(7, 0), (7, 1 :: u64)]"
    by (simp add: upt_conv_Cons)
  then have "mset (executed t) = {#(7, 0), (7, 1)#}"
    using parallel_for_runs_each_index_once [OF r t(2) example_facts(2)] by simp
  with r show ?thesis by blast
qed

end
