(* ===== verification/Expert_Run.thy ===== *)
theory Expert_Run
  imports Prewarm_Resident Expert_Math Worker_Pool
begin

unbundle bit_operations_syntax

text \<open>
  The operation \<open>run\<close> of \<^verbatim>\<open>native/providers/q1_moe_avx512bf16_host_provider.cpp\<close>: it looks the eight
  routed experts up in the cache, pins them, computes gate, up, activation and the weighted down
  projections on the worker pool, and unpins them; and the operations \<open>get_stats\<close>, \<open>last_error\<close>
  and \<open>release\<close>.

  The memory behind the cached views and buffers is a function from byte addresses to 16-bit
  values. A call of \<open>parallel_for\<close> executes its task once on every index, in an order that the
  thread schedule decides; the order is a parameter, and the worker pool theory shows what it can be.
\<close>

section \<open>Requests and results\<close>

definition sizeof_run_request :: nat where "sizeof_run_request = 48"
definition sizeof_run_result :: nat where "sizeof_run_result = 120"
definition sizeof_stats :: nat where "sizeof_stats = 376"

record run_request =
  rn_struct_size :: u32
  rn_layer_index :: u32
  rn_arithmetic_mode :: u32
  rn_input_bf16 :: "bf16 list option"
  rn_expert_ids :: "u32 list option"
  rn_route_weights_f32 :: "f32 list option"
  rn_output_f32 :: "f32 list option"

record run_result =
  rs_status :: host_status
  rs_error_code :: host_error
  rs_win32_error :: u32
  rs_all_routes_hit :: bool
  rs_arithmetic_mode :: u32
  rs_route_cache_hits :: nat
  rs_route_cache_misses :: nat
  rs_cache_entry_count :: nat
  rs_cache_bytes :: u64
  rs_cache_peak_bytes :: u64
  rs_weight_bytes_consumed :: u64
  rs_input_bytes :: u64
  rs_output_bytes :: u64
  rs_lookup_elapsed_ns :: u64
  rs_gate_up_elapsed_ns :: u64
  rs_down_combine_elapsed_ns :: u64
  rs_total_elapsed_ns :: u64
  rs_output_fnv1a64 :: u64

definition new_run_result :: run_result where
  "new_run_result = \<lparr>rs_status = STATUS_FALLBACK_CACHE_MISS, rs_error_code = ERROR_NONE, rs_win32_error = 0,
     rs_all_routes_hit = False, rs_arithmetic_mode = 0, rs_route_cache_hits = 0, rs_route_cache_misses = 0,
     rs_cache_entry_count = 0, rs_cache_bytes = 0, rs_cache_peak_bytes = 0, rs_weight_bytes_consumed = 0,
     rs_input_bytes = 0, rs_output_bytes = 0, rs_lookup_elapsed_ns = 0, rs_gate_up_elapsed_ns = 0,
     rs_down_combine_elapsed_ns = 0, rs_total_elapsed_ns = 0, rs_output_fnv1a64 = 0\<rparr>"

text \<open>The scratch arrays of \<open>ProviderImpl\<close>.\<close>

record scratch =
  sc_gate :: "bf16 list"
  sc_up :: "bf16 list"
  sc_activated :: "bf16 list"

definition new_scratch :: scratch where
  "new_scratch = \<lparr>sc_gate = replicate (kRoutes * kIntermediate) 0, sc_up = replicate (kRoutes * kIntermediate) 0,
     sc_activated = replicate (kRoutes * kIntermediate) 0\<rparr>"

definition scratch_ok :: "scratch \<Rightarrow> bool" where
  "scratch_ok sc \<longleftrightarrow> length (sc_gate sc) = kRoutes * kIntermediate \<and>
     length (sc_up sc) = kRoutes * kIntermediate \<and> length (sc_activated sc) = kRoutes * kIntermediate"

text \<open>The machine a call runs on: floating point, memory, and the order of the tasks of a dispatch.\<close>

record machine =
  m_fpu :: fpu
  m_mem :: "u64 \<Rightarrow> bf16"
  m_order :: "nat \<Rightarrow> nat list"

section \<open>The two parallel phases\<close>

definition kGateElementsPerExpert :: nat where
  "kGateElementsPerExpert = kIntermediate * kHidden"

definition read_row :: "machine \<Rightarrow> u64 \<Rightarrow> nat \<Rightarrow> nat \<Rightarrow> bf16 list" where
  "read_row m base first n = map (\<lambda>k. m_mem m (base + 2 * of_nat (first + k))) [0..<n]"

definition gate_up_row :: "machine \<Rightarrow> entry \<Rightarrow> bf16 list \<Rightarrow> arithmetic_mode \<Rightarrow> nat \<Rightarrow> bf16 \<times> bf16 \<times> bf16" where
  "gate_up_row m e input mode row =
     (let gate_up = gate_up_bf16 e;
          gate_row = read_row m gate_up (row * kHidden) kHidden;
          up_row = read_row m gate_up (kGateElementsPerExpert + row * kHidden) kHidden;
          gate_bits = float_to_bf16 (routed_dot (m_fpu m) input gate_row kHidden mode);
          up_bits = float_to_bf16 (routed_dot (m_fpu m) input up_row kHidden mode)
      in (gate_bits, up_bits,
          if endpoint_mask_for_mode mode AND kEndpointActivationBf16 \<noteq> 0
          then vllm_activation_endpoint (m_fpu m) gate_bits up_bits
          else activation_endpoint (m_fpu m) gate_bits up_bits))"

definition gate_up_task ::
  "machine \<Rightarrow> entry list \<Rightarrow> bf16 list \<Rightarrow> arithmetic_mode \<Rightarrow> scratch \<Rightarrow> nat \<Rightarrow> scratch" where
  "gate_up_task m es input mode sc route_row =
     (let route = route_row div kIntermediate;
          row = route_row mod kIntermediate;
          (gate_bits, up_bits, activated) = gate_up_row m (es ! route) input mode row
      in sc\<lparr>sc_gate := (sc_gate sc)[route_row := gate_bits], sc_up := (sc_up sc)[route_row := up_bits],
            sc_activated := (sc_activated sc)[route_row := activated]\<rparr>)"

definition route_value ::
  "machine \<Rightarrow> entry \<Rightarrow> bf16 list \<Rightarrow> f32 \<Rightarrow> arithmetic_mode \<Rightarrow> nat \<Rightarrow> f32" where
  "route_value m e activated weight mode row =
     (let down_row = read_row m (down_bf16 e) (row * kIntermediate) kIntermediate;
          down = routed_dot (m_fpu m) activated down_row kIntermediate mode
      in if endpoint_mask_for_mode mode AND kEndpointWeightedDownBf16 \<noteq> 0
         then bf16_to_float (float_to_bf16 (mul_separate (m_fpu m) down weight))
         else mul_separate (m_fpu m) (bf16_to_float (float_to_bf16 down)) weight)"

definition combine_routes :: "machine \<Rightarrow> arithmetic_mode \<Rightarrow> f32 list \<Rightarrow> f32" where
  "combine_routes m mode route_values =
     (let mask = endpoint_mask_for_mode mode;
          combined = (if mask AND kEndpointRouteSumVt4 \<noteq> 0 then route_sum_vt4 (m_fpu m) route_values
                      else route_sum_sequential (m_fpu m) route_values)
      in if mask AND kEndpointFinalBf16 \<noteq> 0 then bf16_to_float (float_to_bf16 combined) else combined)"

definition down_task ::
  "machine \<Rightarrow> entry list \<Rightarrow> f32 list \<Rightarrow> arithmetic_mode \<Rightarrow> bf16 list \<Rightarrow> f32 list \<Rightarrow> nat \<Rightarrow> f32 list" where
  "down_task m es weights mode activated output row =
     (let route_values =
            map (\<lambda>route. route_value m (es ! route)
                   (take kIntermediate (drop (route * kIntermediate) activated)) (weights ! route) mode row)
              [0..<kRoutes]
      in output[row := combine_routes m mode route_values])"

section \<open>Lookup and pinning\<close>

definition run_request_valid :: "bf16 list \<Rightarrow> u32 list \<Rightarrow> f32 list \<Rightarrow> bool" where
  "run_request_valid input ids weights \<longleftrightarrow>
     bf16_values_finite (take kHidden input) \<and>
     list_all (\<lambda>route. ids ! route < kExpertCount \<and> f32_is_finite (weights ! route) \<and>
                 f32_nonnegative (weights ! route) \<and>
                 list_all (\<lambda>prior. ids ! prior \<noteq> ids ! route) [0..<route])
       [0..<kRoutes]"

definition pin_entry :: "u64 \<Rightarrow> entry \<Rightarrow> entry" where
  "pin_entry now e = e\<lparr>e_pin_count := e_pin_count e + 1, e_last_use := now\<rparr>"

definition unpin_entry :: "entry \<Rightarrow> entry" where
  "unpin_entry e = e\<lparr>e_pin_count := e_pin_count e - 1\<rparr>"

definition run_lookup_route ::
  "u32 \<Rightarrow> u32 \<Rightarrow> impl \<times> run_result \<times> nat option list \<Rightarrow> impl \<times> run_result \<times> nat option list" where
  "run_lookup_route layer_index expert_id = (\<lambda>(i, res, found).
     let s = i_run i;
         s = s\<lparr>run_route_lookup_count := run_route_lookup_count s + 1\<rparr>
     in case find_entry layer_index expert_id i of
          None \<Rightarrow>
            (i\<lparr>i_run := s\<lparr>run_route_miss_count := run_route_miss_count s + 1\<rparr>\<rparr>,
             res\<lparr>rs_route_cache_misses := rs_route_cache_misses res + 1\<rparr>, found @ [None])
        | Some k \<Rightarrow>
            let (now, i) = next_clock i
            in (i\<lparr>i_entries := (i_entries i)[k := pin_entry now (i_entries i ! k)],
                  i_run := s\<lparr>run_route_hit_count := run_route_hit_count s + 1\<rparr>\<rparr>,
                res\<lparr>rs_route_cache_hits := rs_route_cache_hits res + 1\<rparr>, found @ [Some k]))"

definition run_lookup :: "u32 \<Rightarrow> u32 list \<Rightarrow> impl \<Rightarrow> run_result \<Rightarrow> impl \<times> run_result \<times> nat option list" where
  "run_lookup layer_index ids i res =
     foldl (\<lambda>st route. run_lookup_route layer_index (ids ! route) st) (i, res, []) [0..<kRoutes]"

fun unpin_entries :: "nat option list \<Rightarrow> entry list \<Rightarrow> entry list" where
  "unpin_entries [] es = es"
| "unpin_entries (None # found) es = unpin_entries found es"
| "unpin_entries (Some k # found) es = unpin_entries found (es[k := unpin_entry (es ! k)])"

definition run_unpin :: "nat option list \<Rightarrow> impl \<Rightarrow> impl" where
  "run_unpin found i = i\<lparr>i_entries := unpin_entries found (i_entries i)\<rparr>"

section \<open>A whole call\<close>

type_synonym run_outcome = "host_status \<times> run_result \<times> f32 list \<times> impl \<times> scratch \<times> host_hist"

definition run_reject ::
  "host_env \<Rightarrow> u64 \<Rightarrow> u64 \<Rightarrow> run_result \<Rightarrow> f32 list \<Rightarrow> impl \<Rightarrow> scratch \<Rightarrow> host_hist \<Rightarrow> run_outcome" where
  "run_reject env total_start lookup_start res out i sc h =
     (let i = set_error ERROR_NONFINITE 0 ''run input, routes, or route weights are invalid'' i;
          (lookup, h) = elapsed_since env lookup_start h;
          (total, h) = elapsed_since env total_start h;
          s = i_run i
      in (STATUS_ERROR,
          res\<lparr>rs_status := STATUS_ERROR, rs_error_code := i_last_error_code i, rs_lookup_elapsed_ns := lookup,
              rs_total_elapsed_ns := total\<rparr>,
          out,
          i\<lparr>i_run := s\<lparr>run_error_count := run_error_count s + 1,
              run_lookup_elapsed_ns := run_lookup_elapsed_ns s + lookup,
              run_total_elapsed_ns := run_total_elapsed_ns s + total\<rparr>\<rparr>,
          sc, h))"

definition run_fallback ::
  "host_env \<Rightarrow> u64 \<Rightarrow> nat option list \<Rightarrow> run_result \<Rightarrow> f32 list \<Rightarrow> impl \<Rightarrow> scratch \<Rightarrow> host_hist \<Rightarrow> run_outcome" where
  "run_fallback env total_start found res out i sc h =
     (let i = run_unpin found i;
          i = set_error ERROR_NONE 0 ''cache miss: retain the GPU route for this layer'' i;
          (total, h) = elapsed_since env total_start h;
          s = i_run i
      in (STATUS_FALLBACK_CACHE_MISS,
          res\<lparr>rs_status := STATUS_FALLBACK_CACHE_MISS, rs_all_routes_hit := False, rs_total_elapsed_ns := total\<rparr>,
          out,
          i\<lparr>i_run := s\<lparr>run_fallback_count := run_fallback_count s + 1,
              run_lookup_elapsed_ns := run_lookup_elapsed_ns s + rs_lookup_elapsed_ns res,
              run_total_elapsed_ns := run_total_elapsed_ns s + total\<rparr>\<rparr>,
          sc, h))"

text \<open>The two \<open>catch\<close> blocks; they differ in the message and the phase time they record.\<close>

definition run_dispatch_failed ::
  "host_env \<Rightarrow> u64 \<Rightarrow> u64 \<Rightarrow> bool \<Rightarrow> nat option list \<Rightarrow> run_result \<Rightarrow> f32 list \<Rightarrow> impl \<Rightarrow> scratch \<Rightarrow> host_hist
     \<Rightarrow> run_outcome" where
  "run_dispatch_failed env total_start phase_start gate_phase found res out i sc h =
     (let i = run_unpin found i;
          i = set_error ERROR_INTERNAL 0 (if gate_phase then ''gate/up worker dispatch failed''
                                          else ''down/combine worker dispatch failed'') i;
          s = i_run i;
          (phase, h) = elapsed_since env phase_start h;
          (total, h) = elapsed_since env total_start h;
          res = res\<lparr>rs_status := STATUS_ERROR, rs_error_code := i_last_error_code i\<rparr>;
          res = (if gate_phase then res\<lparr>rs_gate_up_elapsed_ns := phase\<rparr>
                 else res\<lparr>rs_down_combine_elapsed_ns := phase\<rparr>)
      in (STATUS_ERROR, res\<lparr>rs_total_elapsed_ns := total\<rparr>, out,
          i\<lparr>i_run := s\<lparr>run_error_count := run_error_count s + 1\<rparr>\<rparr>, sc, h))"

definition run_finish ::
  "host_env \<Rightarrow> u64 \<Rightarrow> nat option list \<Rightarrow> run_result \<Rightarrow> f32 list \<Rightarrow> impl \<Rightarrow> scratch \<Rightarrow> host_hist \<Rightarrow> run_outcome" where
  "run_finish env total_start found res out i sc h =
     (let finite = list_all (\<lambda>row. f32_is_finite (out ! row)) [0..<kHidden];
          (total, h) = elapsed_since env total_start h;
          res = res\<lparr>rs_weight_bytes_consumed := of_nat kRoutes * kBytesPerExpertPair,
                    rs_input_bytes := of_nat kHidden * 2, rs_output_bytes := of_nat kHidden * 4,
                    rs_output_fnv1a64 := fnv1a64 (f32_bytes (take kHidden out)), rs_total_elapsed_ns := total\<rparr>;
          i = run_unpin found i;
          s = i_run i;
          s = s\<lparr>run_lookup_elapsed_ns := run_lookup_elapsed_ns s + rs_lookup_elapsed_ns res,
                run_gate_up_elapsed_ns := run_gate_up_elapsed_ns s + rs_gate_up_elapsed_ns res,
                run_down_combine_elapsed_ns := run_down_combine_elapsed_ns s + rs_down_combine_elapsed_ns res,
                run_total_elapsed_ns := run_total_elapsed_ns s + rs_total_elapsed_ns res\<rparr>
      in if finite
         then (STATUS_SUCCESS, res\<lparr>rs_status := STATUS_SUCCESS, rs_error_code := ERROR_NONE\<rparr>, out,
               clear_error
                 (i\<lparr>i_run := s\<lparr>run_success_count := run_success_count s + 1,
                    run_weight_bytes_consumed := run_weight_bytes_consumed s + rs_weight_bytes_consumed res,
                    run_input_bytes := run_input_bytes s + rs_input_bytes res,
                    run_output_bytes := run_output_bytes s + rs_output_bytes res\<rparr>\<rparr>),
               sc, h)
         else (STATUS_ERROR, res\<lparr>rs_status := STATUS_ERROR, rs_error_code := ERROR_NONFINITE\<rparr>, out,
               set_error ERROR_NONFINITE 0 ''run produced a non-finite output''
                 (i\<lparr>i_run := s\<lparr>run_error_count := run_error_count s + 1\<rparr>\<rparr>),
               sc, h))"

text \<open>Both phases, once every route has hit.\<close>

definition run_compute ::
  "host_env \<Rightarrow> machine \<Rightarrow> u64 \<Rightarrow> bf16 list \<Rightarrow> f32 list \<Rightarrow> arithmetic_mode \<Rightarrow> nat option list \<Rightarrow> run_result
     \<Rightarrow> f32 list \<Rightarrow> impl \<Rightarrow> scratch \<Rightarrow> host_hist \<Rightarrow> run_outcome" where
  "run_compute env m total_start input weights mode found res out i sc h =
     (let es = map (\<lambda>k. i_entries i ! the k) found;
          res = res\<lparr>rs_all_routes_hit := True\<rparr>;
          (r, h) = ask env ClockNow h;
          gate_start = r_num r;
          (r, h) = ask env (CxxAllocate ''parallel_for'') h
      in if r_throws r then run_dispatch_failed env total_start gate_start True found res out i sc h
         else
           let sc = foldl (gate_up_task m es input mode) sc (m_order m (kRoutes * kIntermediate));
               (gate_up, h) = elapsed_since env gate_start h;
               res = res\<lparr>rs_gate_up_elapsed_ns := gate_up\<rparr>;
               (r, h) = ask env ClockNow h;
               down_start = r_num r;
               (r, h) = ask env (CxxAllocate ''parallel_for'') h
           in if r_throws r then run_dispatch_failed env total_start down_start False found res out i sc h
              else
                let out = foldl (down_task m es weights mode (sc_activated sc)) out (m_order m kHidden);
                    (down, h) = elapsed_since env down_start h
                in run_finish env total_start found (res\<lparr>rs_down_combine_elapsed_ns := down\<rparr>) out i sc h)"

definition run_locked ::
  "host_env \<Rightarrow> machine \<Rightarrow> u64 \<Rightarrow> run_request \<Rightarrow> bf16 list \<Rightarrow> u32 list \<Rightarrow> f32 list \<Rightarrow> f32 list \<Rightarrow> impl \<Rightarrow> scratch
     \<Rightarrow> host_hist \<Rightarrow> run_outcome" where
  "run_locked env m total_start q input ids weights out i sc h =
     (let res = new_run_result\<lparr>rs_arithmetic_mode := rn_arithmetic_mode q\<rparr>;
          (r, h) = ask env ClockNow h;
          lookup_start = r_num r;
          s = i_run i;
          i = clear_error (i\<lparr>i_run := s\<lparr>run_call_count := run_call_count s + 1\<rparr>\<rparr>)
      in if \<not> run_request_valid input ids weights
         then run_reject env total_start lookup_start res out i sc h
         else
           let (i, res, found) = run_lookup (rn_layer_index q) ids i res;
               res = res\<lparr>rs_cache_entry_count := length (i_entries i), rs_cache_bytes := i_cache_bytes i,
                         rs_cache_peak_bytes := i_cache_peak_bytes i\<rparr>;
               (lookup, h) = elapsed_since env lookup_start h;
               res = res\<lparr>rs_lookup_elapsed_ns := lookup\<rparr>
           in if rs_route_cache_misses res \<noteq> 0 then run_fallback env total_start found res out i sc h
              else run_compute env m total_start input weights (mode_of (rn_arithmetic_mode q)) found res out i sc h)"

definition host_run ::
  "host_env \<Rightarrow> machine \<Rightarrow> (impl \<times> scratch) option \<Rightarrow> run_request option \<Rightarrow> u32 option \<Rightarrow> host_hist
     \<Rightarrow> host_status \<times> run_result option \<times> f32 list option \<times> (impl \<times> scratch) option \<times> host_hist" where
  "host_run env m provider request out_struct_size h =
     (case out_struct_size of
        None \<Rightarrow> (STATUS_ERROR, None, None, provider, h)
      | Some caller_size \<Rightarrow>
          if \<not> struct_size_valid caller_size sizeof_run_result then (STATUS_ERROR, None, None, provider, h)
          else
            let (r, h) = ask env ClockNow h;
                total_start = r_num r;
                invalid = (let (total, h) = elapsed_since env total_start h
                           in (STATUS_ERROR,
                               Some (new_run_result\<lparr>rs_status := STATUS_ERROR,
                                       rs_error_code := ERROR_INVALID_ARGUMENT, rs_total_elapsed_ns := total\<rparr>),
                               None, provider, h))
            in case (provider, request) of
                 (Some (i, sc), Some q) \<Rightarrow>
                   (case (rn_input_bf16 q, rn_expert_ids q, rn_route_weights_f32 q, rn_output_f32 q) of
                      (Some input, Some ids, Some weights, Some out) \<Rightarrow>
                        if struct_size_valid (rn_struct_size q) sizeof_run_request \<and>
                           rn_layer_index q < kLayerCount \<and> unat (rn_arithmetic_mode q) < length arithmetic_modes
                        then let (status, res, out, i, sc, h) =
                                   run_locked env m total_start q input ids weights out i sc h
                             in (status, Some res, Some out, Some (i, sc), h)
                        else invalid
                    | _ \<Rightarrow> invalid)
               | _ \<Rightarrow> invalid)"

section \<open>Statistics, error text and release\<close>

definition get_stats :: "impl option \<Rightarrow> u32 option \<Rightarrow> host_status \<times> stats option" where
  "get_stats provider out_struct_size =
     (case (provider, out_struct_size) of
        (Some i, Some caller_size) \<Rightarrow>
          if struct_size_valid caller_size sizeof_stats then (STATUS_SUCCESS, Some (snapshot_stats i))
          else (STATUS_ERROR, None)
      | _ \<Rightarrow> (STATUS_ERROR, None))"

text \<open>The text a caller reads from the thread-local buffer of 512 characters.\<close>

definition last_error :: "impl option \<Rightarrow> string" where
  "last_error provider =
     (case provider of
        None \<Rightarrow> c_copy 512 ''provider handle is null''
      | Some i \<Rightarrow> c_copy 512 (i_last_error i))"

text \<open>\<open>release\<close>: the statistics, then the destructor of the provider, which destroys its entries.\<close>

definition host_release ::
  "host_env \<Rightarrow> impl option \<Rightarrow> u32 option \<Rightarrow> host_hist \<Rightarrow> host_status \<times> stats option \<times> impl option \<times> host_hist" where
  "host_release env provider out_struct_size h =
     (case provider of
        None \<Rightarrow> (STATUS_ERROR, None, None, h)
      | Some i \<Rightarrow>
          (case out_struct_size of
             None \<Rightarrow> (STATUS_SUCCESS, None, None, snd (clear_entries env i h))
           | Some caller_size \<Rightarrow>
               if \<not> struct_size_valid caller_size sizeof_stats then (STATUS_ERROR, None, Some i, h)
               else (STATUS_SUCCESS, Some (snapshot_stats i), None, snd (clear_entries env i h))))"

section \<open>The order of the tasks does not matter\<close>

text \<open>An order in which a dispatch can execute its tasks: each index once.\<close>

definition dispatch_order :: "nat list \<Rightarrow> nat \<Rightarrow> bool" where
  "dispatch_order order n \<longleftrightarrow> mset order = mset [0..<n]"

lemma dispatch_orderD: "dispatch_order order n \<Longrightarrow> set order = {..<n}"
  unfolding dispatch_order_def by (metis atLeast_upt set_mset_mset)

lemma foldl_update_nth:
  "length (foldl (\<lambda>xs i. xs[i := f i]) xs order) = length xs"
  "k < length xs \<Longrightarrow> foldl (\<lambda>xs i. xs[i := f i]) xs order ! k = (if k \<in> set order then f k else xs ! k)"
  by (induction order arbitrary: xs) (auto simp: nth_list_update)

lemma foldl_update_map:
  assumes "dispatch_order order n" "length xs = n"
  shows "foldl (\<lambda>xs i. xs[i := f i]) xs order = map f [0..<n]"
  by (rule nth_equalityI) (use assms in \<open>auto simp: foldl_update_nth dispatch_orderD\<close>)

text \<open>The reference: the activation of one expert, and one element of the output.\<close>

definition expert_activation :: "machine \<Rightarrow> entry \<Rightarrow> bf16 list \<Rightarrow> arithmetic_mode \<Rightarrow> bf16 list" where
  "expert_activation m e input mode = map (\<lambda>row. snd (snd (gate_up_row m e input mode row))) [0..<kIntermediate]"

definition moe_element :: "machine \<Rightarrow> entry list \<Rightarrow> bf16 list \<Rightarrow> f32 list \<Rightarrow> arithmetic_mode \<Rightarrow> nat \<Rightarrow> f32" where
  "moe_element m es input weights mode row =
     combine_routes m mode
       (map (\<lambda>route. route_value m (es ! route) (expert_activation m (es ! route) input mode) (weights ! route) mode row)
         [0..<kRoutes])"

lemma foldl_gate_up:
  "sc_activated (foldl (gate_up_task m es input mode) sc order) =
     foldl (\<lambda>xs i. xs[i := snd (snd (gate_up_row m (es ! (i div kIntermediate)) input mode (i mod kIntermediate)))])
       (sc_activated sc) order"
  "length (sc_gate (foldl (gate_up_task m es input mode) sc order)) = length (sc_gate sc)"
  "length (sc_up (foldl (gate_up_task m es input mode) sc order)) = length (sc_up sc)"
  by (induction order arbitrary: sc) (simp_all add: gate_up_task_def Let_def split: prod.splits)

lemma gate_up_phase:
  assumes "dispatch_order (m_order m (kRoutes * kIntermediate)) (kRoutes * kIntermediate)" "scratch_ok sc"
    and "route < kRoutes"
  shows "take kIntermediate (drop (route * kIntermediate)
      (sc_activated (foldl (gate_up_task m es input mode) sc (m_order m (kRoutes * kIntermediate))))) =
    expert_activation m (es ! route) input mode"
proof (rule nth_equalityI)
  have bound: "route * kIntermediate + k < kRoutes * kIntermediate" if "k < kIntermediate" for k
    using that assms(3) by (simp add: kRoutes_def kIntermediate_def)
  show "take kIntermediate (drop (route * kIntermediate)
      (sc_activated (foldl (gate_up_task m es input mode) sc (m_order m (kRoutes * kIntermediate))))) ! k =
      expert_activation m (es ! route) input mode ! k"
    if "k < length (take kIntermediate (drop (route * kIntermediate)
      (sc_activated (foldl (gate_up_task m es input mode) sc (m_order m (kRoutes * kIntermediate))))))" for k
    using that assms bound [of k]
    by (simp add: foldl_gate_up foldl_update_map scratch_ok_def expert_activation_def)
qed (use assms in \<open>simp add: foldl_gate_up foldl_update_map scratch_ok_def expert_activation_def
      kRoutes_def kIntermediate_def\<close>)

lemma down_phase:
  assumes order: "dispatch_order (m_order m (kRoutes * kIntermediate)) (kRoutes * kIntermediate)"
    "dispatch_order (m_order m kHidden) kHidden" and sc: "scratch_ok sc" and out: "length out = kHidden"
  shows "foldl (down_task m es weights mode
      (sc_activated (foldl (gate_up_task m es input mode) sc (m_order m (kRoutes * kIntermediate))))) out
      (m_order m kHidden) = map (moe_element m es input weights mode) [0..<kHidden]"
proof -
  let ?a = "sc_activated (foldl (gate_up_task m es input mode) sc (m_order m (kRoutes * kIntermediate)))"
  have "down_task m es weights mode ?a o' row = o'[row := moe_element m es input weights mode row]" for o' row
  proof -
    have "map (\<lambda>route. route_value m (es ! route) (take kIntermediate (drop (route * kIntermediate) ?a)) (weights ! route) mode row)
        [0..<kRoutes] = map (\<lambda>route. route_value m (es ! route) (expert_activation m (es ! route) input mode) (weights ! route) mode row)
        [0..<kRoutes]"
      by (rule map_cong) (simp_all add: gate_up_phase [OF order(1) sc])
    then show ?thesis by (simp only: down_task_def Let_def moe_element_def)
  qed
  then have "down_task m es weights mode ?a = (\<lambda>o' row. o'[row := moe_element m es input weights mode row])"
    by (intro ext)
  then show ?thesis using foldl_update_map [OF order(2) out] by simp
qed

section \<open>Pinning and unpinning\<close>

text \<open>The entries after \<open>pins k\<close> more pins of each entry \<open>k\<close>, with any time of use.\<close>

definition pinned :: "(nat \<Rightarrow> nat) \<Rightarrow> entry list \<Rightarrow> entry list \<Rightarrow> bool" where
  "pinned pins es es' \<longleftrightarrow> length es' = length es \<and>
     (\<forall>k < length es. \<exists>t. es' ! k = (es ! k)\<lparr>e_pin_count := e_pin_count (es ! k) + of_nat (pins k), e_last_use := t\<rparr>)"

lemma pinned_refl: "pinned (\<lambda>k. 0) es es"
proof -
  have "\<exists>t. e = e\<lparr>e_pin_count := e_pin_count e + of_nat 0, e_last_use := t\<rparr>" for e :: entry
    by (rule exI [of _ "e_last_use e"]) simp
  then show ?thesis by (simp add: pinned_def)
qed

lemma pinned_pin:
  assumes "pinned pins es es'" "k < length es"
  shows "pinned (pins(k := pins k + 1)) es (es'[k := pin_entry now (es' ! k)])"
  unfolding pinned_def
proof (intro conjI allI impI)
  fix j assume j: "j < length es"
  then obtain t where "es' ! j = (es ! j)\<lparr>e_pin_count := e_pin_count (es ! j) + of_nat (pins j), e_last_use := t\<rparr>"
    using assms(1) by (auto simp: pinned_def)
  then show "\<exists>t. es'[k := pin_entry now (es' ! k)] ! j =
      (es ! j)\<lparr>e_pin_count := e_pin_count (es ! j) + of_nat ((pins(k := pins k + 1)) j), e_last_use := t\<rparr>"
    using assms j by (intro exI [of _ "if j = k then now else t"]) (cases "j = k"; simp add: pin_entry_def pinned_def ac_simps)
qed (use assms in \<open>simp add: pinned_def\<close>)

lemma pinned_unpin:
  assumes "pinned pins es es'" "k < length es" "0 < pins k"
  shows "pinned (pins(k := pins k - 1)) es (es'[k := unpin_entry (es' ! k)])"
  unfolding pinned_def
proof (intro conjI allI impI)
  fix j assume j: "j < length es"
  then obtain t where "es' ! j = (es ! j)\<lparr>e_pin_count := e_pin_count (es ! j) + of_nat (pins j), e_last_use := t\<rparr>"
    using assms(1) by (auto simp: pinned_def)
  then show "\<exists>t. es'[k := unpin_entry (es' ! k)] ! j =
      (es ! j)\<lparr>e_pin_count := e_pin_count (es ! j) + of_nat ((pins(k := pins k - 1)) j), e_last_use := t\<rparr>"
    using assms j by (intro exI [of _ t]) (cases "j = k"; simp add: unpin_entry_def pinned_def of_nat_diff)
qed (use assms in \<open>simp add: pinned_def\<close>)

text \<open>Unpinning what a lookup found restores every pin count.\<close>

lemma unpin_entries_pinned:
  assumes "pinned (\<lambda>k. count_list found (Some k)) es es'" "\<forall>k. Some k \<in> set found \<longrightarrow> k < length es"
  shows "pinned (\<lambda>k. 0) es (unpin_entries found es')"
  using assms
proof (induction found es' rule: unpin_entries.induct)
  case (3 k found es')
  have "(\<lambda>j. count_list (Some k # found) (Some j))(k := count_list (Some k # found) (Some k) - 1) =
      (\<lambda>j. count_list found (Some j))" by auto
  then have "pinned (\<lambda>j. count_list found (Some j)) es (es'[k := unpin_entry (es' ! k)])"
    using pinned_unpin [OF "3.prems"(1), of k] "3.prems"(2) by simp
  then show ?case using "3.IH" "3.prems"(2) by simp
qed simp_all

section \<open>What a lookup does\<close>

text \<open>The part of the provider that \<open>run\<close> never writes.\<close>

definition run_frame :: "impl \<Rightarrow> impl \<Rightarrow> bool" where
  "run_frame i j \<longleftrightarrow> i_config j = i_config i \<and> i_source_identity j = i_source_identity i \<and>
     i_source_identity_set j = i_source_identity_set i \<and> i_model_generation j = i_model_generation i \<and>
     i_cache_bytes j = i_cache_bytes i \<and> i_cache_peak_bytes j = i_cache_peak_bytes i \<and>
     i_cache_peak_entries j = i_cache_peak_entries i \<and> i_prewarm j = i_prewarm i \<and> i_resident j = i_resident i"

lemma run_frame_refl [simp]: "run_frame i i"
  by (simp add: run_frame_def)

lemma run_frame_updates [simp]:
  "run_frame i (set_error c w msg j) \<longleftrightarrow> run_frame i j" "run_frame i (clear_error j) \<longleftrightarrow> run_frame i j"
  "run_frame i (j\<lparr>i_run := s\<rparr>) \<longleftrightarrow> run_frame i j" "run_frame i (j\<lparr>i_entries := es\<rparr>) \<longleftrightarrow> run_frame i j"
  "run_frame i (j\<lparr>i_clock := t\<rparr>) \<longleftrightarrow> run_frame i j"
  by (simp_all add: run_frame_def set_error_def clear_error_def)

lemma find_index_from_cong:
  assumes "length xs = length ys" "\<And>k. k < length ys \<Longrightarrow> P (xs ! k) = Q (ys ! k)"
  shows "find_index_from P n xs = find_index_from Q n ys"
  using assms
proof (induction xs ys arbitrary: n rule: list_induct2)
  case (Cons x xs y ys)
  have "P x = Q y" using Cons.prems [of 0] by simp
  moreover have "\<And>k. k < length ys \<Longrightarrow> P (xs ! k) = Q (ys ! k)" using Cons.prems [of "Suc _"] by simp
  ultimately show ?case using Cons.IH by simp
qed simp

text \<open>Pins and times of use are invisible to lookup and to the ownership of resources.\<close>

lemma pinned_entry:
  assumes "pinned pins es es'" "k < length es"
  shows "e_model_generation (es' ! k) = e_model_generation (es ! k)" "entry_key (es' ! k) = entry_key (es ! k)"
    "e_source_mode (es' ! k) = e_source_mode (es ! k)" "entry_resources (es' ! k) = entry_resources (es ! k)"
    "gate_up_bf16 (es' ! k) = gate_up_bf16 (es ! k)" "down_bf16 (es' ! k) = down_bf16 (es ! k)"
    "e_pin_count (es' ! k) = e_pin_count (es ! k) + of_nat (pins k)"
proof -
  obtain t where "es' ! k = (es ! k)\<lparr>e_pin_count := e_pin_count (es ! k) + of_nat (pins k), e_last_use := t\<rparr>"
    using assms by (auto simp: pinned_def)
  then show "e_model_generation (es' ! k) = e_model_generation (es ! k)" "entry_key (es' ! k) = entry_key (es ! k)"
    "e_source_mode (es' ! k) = e_source_mode (es ! k)" "entry_resources (es' ! k) = entry_resources (es ! k)"
    "gate_up_bf16 (es' ! k) = gate_up_bf16 (es ! k)" "down_bf16 (es' ! k) = down_bf16 (es ! k)"
    "e_pin_count (es' ! k) = e_pin_count (es ! k) + of_nat (pins k)"
    by (simp_all add: entry_key_def entry_resources_def gate_up_bf16_def down_bf16_def)
qed

lemma find_entry_pinned:
  assumes "pinned pins (i_entries i) (i_entries j)" "run_frame i j"
  shows "find_entry l x j = find_entry l x i"
  unfolding find_entry_def
proof (rule find_index_from_cong)
  show "length (i_entries j) = length (i_entries i)" using assms(1) by (simp add: pinned_def)
  show "entry_hit j l x (i_entries j ! k) = entry_hit i l x (i_entries i ! k)" if "k < length (i_entries i)" for k
    using pinned_entry [OF assms(1) that] assms(2) by (simp add: entry_hit_def entry_key_def run_frame_def)
qed

lemma pinned_map_eq:
  assumes "pinned pins es es'" "\<And>k. k < length es \<Longrightarrow> f (es' ! k) = f (es ! k)"
  shows "map f es' = map f es"
  by (rule nth_equalityI) (use assms in \<open>auto simp: pinned_def\<close>)

lemma provider_inv_pinned:
  assumes p: "pinned (\<lambda>k. 0) (i_entries i) (i_entries j)" and f: "run_frame i j"
  shows "provider_inv h j \<longleftrightarrow> provider_inv h i"
proof -
  note E = pinned_entry [OF p]
  have len: "length (i_entries j) = length (i_entries i)" using p by (simp add: pinned_def)
  have key: "map entry_key (i_entries j) = map entry_key (i_entries i)"
    by (rule pinned_map_eq [OF p]) (rule E)
  have res: "map entry_resources (i_entries j) = map entry_resources (i_entries i)"
    by (rule pinned_map_eq [OF p]) (rule E)
  have cur: "(\<forall>e \<in> set (i_entries j). entry_current j e) \<longleftrightarrow> (\<forall>e \<in> set (i_entries i). entry_current i e)"
    using E f len by (simp add: all_set_conv_all_nth entry_current_def entry_key_def run_frame_def)
  have pin: "unpinned j \<longleftrightarrow> unpinned i"
    using E len by (simp add: unpinned_def all_set_conv_all_nth)
  have "cache_wf j \<longleftrightarrow> cache_wf i"
    using f len key cur by (simp add: cache_wf_def run_frame_def)
  moreover have "impl_resources j = impl_resources i"
    using arg_cong [OF res, of sum_list] by (simp add: impl_resources_def)
  ultimately show ?thesis using pin by (simp add: provider_inv_def)
qed

text \<open>The state after looking up the first \<open>n\<close> routes.\<close>

definition looked_up ::
  "impl \<Rightarrow> run_result \<Rightarrow> u32 \<Rightarrow> u32 list \<Rightarrow> nat \<Rightarrow> impl \<times> run_result \<times> nat option list \<Rightarrow> bool" where
  "looked_up i0 res0 l ids n = (\<lambda>(i, res, found).
     run_frame i0 i \<and> pinned (\<lambda>k. count_list found (Some k)) (i_entries i0) (i_entries i) \<and>
     found = map (\<lambda>route. find_entry l (ids ! route) i0) [0..<n] \<and>
     rs_route_cache_hits res = rs_route_cache_hits res0 + length (filter (\<lambda>k. k \<noteq> None) found) \<and>
     rs_route_cache_misses res = rs_route_cache_misses res0 + length (filter (\<lambda>k. k = None) found) \<and>
     i_run i = (i_run i0)\<lparr>
       run_route_lookup_count := run_route_lookup_count (i_run i0) + of_nat n,
       run_route_hit_count := run_route_hit_count (i_run i0) + of_nat (length (filter (\<lambda>k. k \<noteq> None) found)),
       run_route_miss_count := run_route_miss_count (i_run i0) + of_nat (length (filter (\<lambda>k. k = None) found))\<rparr>)"

lemma looked_up_step:
  assumes "looked_up i0 res0 l ids n (i, res, found)"
  shows "looked_up i0 res0 l ids (Suc n) (run_lookup_route l (ids ! n) (i, res, found))"
proof -
  have f: "run_frame i0 i" and p: "pinned (\<lambda>k. count_list found (Some k)) (i_entries i0) (i_entries i)"
    using assms unfolding looked_up_def prod.case by blast+
  have find: "find_entry l (ids ! n) i = find_entry l (ids ! n) i0"
    by (rule find_entry_pinned [OF p f])
  show ?thesis
  proof (cases "find_entry l (ids ! n) i0")
    case None
    then show ?thesis
      using assms by (auto simp: looked_up_def run_lookup_route_def find Let_def add_ac)
  next
    case (Some k)
    note pin = pinned_pin [OF p find_entry_Some(1) [OF Some]]
    have "(\<lambda>j. count_list found (Some j))(k := count_list found (Some k) + 1) =
        (\<lambda>j. count_list (found @ [Some k]) (Some j))" by auto
    then have "pinned (\<lambda>j. count_list (found @ [Some k]) (Some j)) (i_entries i0)
        ((i_entries i)[k := pin_entry now (i_entries i ! k)])" for now
      using pin [of now] by simp
    then show ?thesis
      using assms Some
      by (auto simp: looked_up_def run_lookup_route_def find next_clock_def Let_def add_ac simp del: count_list_append)
  qed
qed

lemma run_lookup_ok: "looked_up i res l ids kRoutes (run_lookup l ids i res)"
proof -
  have "looked_up i res l ids n (foldl (\<lambda>st route. run_lookup_route l (ids ! route) st) (i, res, []) [0..<n])" for n
  proof (induction n)
    case 0
    show ?case by (simp add: looked_up_def pinned_refl)
  next
    case (Suc n)
    obtain i' res' found where
      "foldl (\<lambda>st route. run_lookup_route l (ids ! route) st) (i, res, []) [0..<n] = (i', res', found)"
      by (metis surj_pair)
    with Suc show ?case using looked_up_step by simp
  qed
  then show ?thesis by (simp add: run_lookup_def)
qed

section \<open>The ends of a call\<close>

text \<open>One call more has ended, in exactly one way.\<close>

definition run_settled :: "run_stats \<Rightarrow> run_stats \<Rightarrow> bool" where
  "run_settled s s' \<longleftrightarrow> run_call_count s' = run_call_count s \<and>
     run_success_count s' + run_fallback_count s' + run_error_count s' =
       run_success_count s + run_fallback_count s + run_error_count s + 1 \<and>
     run_route_lookup_count s' = run_route_lookup_count s \<and> run_route_hit_count s' = run_route_hit_count s \<and>
     run_route_miss_count s' = run_route_miss_count s"

text \<open>What every end of a call has in common, from the state \<open>i\<close> with the pins of \<open>found\<close>.\<close>

definition run_ended :: "nat option list \<Rightarrow> impl \<Rightarrow> scratch \<Rightarrow> host_hist \<Rightarrow> run_outcome \<Rightarrow> bool" where
  "run_ended found i sc h = (\<lambda>(st, res, out, i', sc', h').
     i_entries i' = unpin_entries found (i_entries i) \<and> run_frame i i' \<and> (\<forall>R. owns h' R \<longleftrightarrow> owns h R) \<and>
     (scratch_ok sc \<longrightarrow> scratch_ok sc') \<and> run_settled (i_run i) (i_run i') \<and> length (i_last_error i') < 512)"

lemmas run_ended_simps = run_ended_def run_settled_def run_unpin_def set_error_def clear_error_def Let_def
  run_frame_def add_ac

lemma run_reject_ended: "run_ended [] i sc h (run_reject env t0 t1 res out i sc h)"
proof -
  obtain a g where g: "elapsed_since env t1 h = (a, g)" by fastforce
  obtain b k where k: "elapsed_since env t0 g = (b, k)" by fastforce
  show ?thesis
    using elapsed_since_owns [OF g] elapsed_since_owns [OF k] by (simp add: run_reject_def g k run_ended_simps)
qed

lemma run_fallback_ended: "run_ended found i sc h (run_fallback env t0 found res out i sc h)"
proof -
  obtain b k where k: "elapsed_since env t0 h = (b, k)" by fastforce
  show ?thesis
    using elapsed_since_owns [OF k] by (simp add: run_fallback_def k run_ended_simps)
qed

lemma run_dispatch_failed_ended:
  "run_ended found i sc h (run_dispatch_failed env t0 t1 gate_phase found res out i sc h)"
proof -
  obtain a g where g: "elapsed_since env t1 h = (a, g)" by fastforce
  obtain b k where k: "elapsed_since env t0 g = (b, k)" by fastforce
  show ?thesis
    using elapsed_since_owns [OF g] elapsed_since_owns [OF k]
    by (simp add: run_dispatch_failed_def g k run_ended_simps)
qed

lemma run_finish_ended: "run_ended found i sc h (run_finish env t0 found res out i sc h)"
proof -
  obtain b k where k: "elapsed_since env t0 h = (b, k)" by fastforce
  show ?thesis
    using elapsed_since_owns [OF k] by (simp add: run_finish_def k run_ended_simps)
qed

lemma run_ended_hist:
  assumes "run_ended found i sc g x" "\<And>R. owns g R \<longleftrightarrow> owns h R"
  shows "run_ended found i sc h x"
  using assms by (cases x) (simp add: run_ended_def)

lemma run_ended_scratch:
  assumes "run_ended found i sc' h x" "scratch_ok sc \<Longrightarrow> scratch_ok sc'"
  shows "run_ended found i sc h x"
  using assms by (cases x) (simp add: run_ended_def)

lemma gate_up_scratch_ok: "scratch_ok sc \<Longrightarrow> scratch_ok (foldl (gate_up_task m es input mode) sc order)"
  by (simp add: scratch_ok_def foldl_gate_up foldl_update_nth)

lemma run_compute_ended: "run_ended found i sc h (run_compute env m t0 input weights mode found res out i sc h)"
proof -
  let ?c = "CxxAllocate ''parallel_for''"
  define g1 where "g1 = (ClockNow, env h ClockNow) # h"
  define g2 where "g2 = (?c, env g1 ?c) # g1"
  obtain a g3 where g3: "elapsed_since env (r_num (env h ClockNow)) g2 = (a, g3)" by fastforce
  define g4 where "g4 = (ClockNow, env g3 ClockNow) # g3"
  define g5 where "g5 = (?c, env g4 ?c) # g4"
  obtain b g6 where g6: "elapsed_since env (r_num (env g3 ClockNow)) g5 = (b, g6)" by fastforce
  have o: "owns g2 R \<longleftrightarrow> owns h R" "owns g5 R \<longleftrightarrow> owns h R" "owns g6 R \<longleftrightarrow> owns h R" for R
    using elapsed_since_owns [OF g3] elapsed_since_owns [OF g6] by (simp_all add: g1_def g2_def g4_def g5_def)
  note run_compute_def [of env m t0 input weights mode found res out i sc h, unfolded Let_def ask_def prod.case,
      folded g1_def, folded g2_def, unfolded g3 prod.case, folded g4_def, folded g5_def, unfolded g6 prod.case]
  then show ?thesis
    by (auto intro!: run_ended_hist [OF run_dispatch_failed_ended] run_ended_hist [OF run_finish_ended] o
        run_ended_scratch [OF run_ended_hist [OF run_dispatch_failed_ended], OF o(2) gate_up_scratch_ok]
        run_ended_scratch [OF run_ended_hist [OF run_finish_ended], OF o(3) gate_up_scratch_ok])
qed

text \<open>Every call is counted once as success, fallback or error, every lookup as hit or miss.\<close>

definition run_consistent :: "run_stats \<Rightarrow> bool" where
  "run_consistent s \<longleftrightarrow> run_call_count s = run_success_count s + run_fallback_count s + run_error_count s \<and>
     run_route_lookup_count s = run_route_hit_count s + run_route_miss_count s"

definition run_kept :: "impl \<Rightarrow> scratch \<Rightarrow> host_hist \<Rightarrow> run_outcome \<Rightarrow> bool" where
  "run_kept i sc h = (\<lambda>(st, res, out, i', sc', h').
     pinned (\<lambda>k. 0) (i_entries i) (i_entries i') \<and> run_frame i i' \<and> (\<forall>R. owns h' R \<longleftrightarrow> owns h R) \<and>
     (scratch_ok sc \<longrightarrow> scratch_ok sc') \<and> (run_consistent (i_run i) \<longrightarrow> run_consistent (i_run i')) \<and>
     length (i_last_error i') < 512)"

text \<open>The state in which the routes are looked up: counted, and without an error.\<close>

definition run_counted :: "impl \<Rightarrow> impl" where
  "run_counted i = clear_error (i\<lparr>i_run := (i_run i)\<lparr>run_call_count := run_call_count (i_run i) + 1\<rparr>\<rparr>)"

lemma run_counted_simps [simp]:
  "i_entries (run_counted i) = i_entries i" "run_frame i (run_counted i)"
  "find_entry l x (run_counted i) = find_entry l x i"
proof -
  show e: "i_entries (run_counted i) = i_entries i" and f: "run_frame i (run_counted i)"
    by (simp_all add: run_counted_def clear_error_def set_error_def run_frame_def)
  show "find_entry l x (run_counted i) = find_entry l x i"
    using pinned_refl e f by (metis find_entry_pinned)
qed

lemma run_frame_trans: "run_frame i j \<Longrightarrow> run_frame j k \<Longrightarrow> run_frame i k"
  by (simp add: run_frame_def)

lemma run_kept_counted:
  assumes "run_ended [] (run_counted i) sc g x" "\<And>R. owns g R \<longleftrightarrow> owns h R"
  shows "run_kept i sc h x"
  using assms run_frame_trans [OF run_counted_simps(2)] pinned_refl [of "i_entries i"]
  by (cases x) (auto simp: run_ended_def run_kept_def run_settled_def run_consistent_def run_counted_def
      clear_error_def set_error_def algebra_simps)

lemma length_filter_None: "length (filter (\<lambda>k. k \<noteq> None) xs) + length (filter (\<lambda>k. k = None) xs) = length xs"
  by (induction xs) auto

lemma run_kept_looked_up:
  assumes lk: "looked_up (run_counted i) res0 l ids n (i1, res1, found)"
    and e: "run_ended found i1 sc g x" and o: "\<And>R. owns g R \<longleftrightarrow> owns h R"
  shows "run_kept i sc h x"
proof -
  obtain st res out i' sc' h' where x: "x = (st, res, out, i', sc', h')" by (metis surj_pair)
  have found: "found = map (\<lambda>route. find_entry l (ids ! route) i) [0..<n]"
    and pin: "pinned (\<lambda>k. count_list found (Some k)) (i_entries i) (i_entries i1)"
    and frame: "run_frame (run_counted i) i1"
    using lk unfolding looked_up_def prod.case run_counted_simps by blast+
  have "\<forall>k. Some k \<in> set found \<longrightarrow> k < length (i_entries i)"
    using find_entry_Some(1) by (auto simp: found)
  from unpin_entries_pinned [OF pin this] have "pinned (\<lambda>k. 0) (i_entries i) (i_entries i')"
    using e by (simp add: run_ended_def x)
  moreover have "run_frame i i'"
    using run_frame_trans [OF run_counted_simps(2) run_frame_trans [OF frame]] e by (simp add: run_ended_def x)
  moreover have "run_consistent (i_run i')" if "run_consistent (i_run i)"
  proof -
    define a b where "a = length (filter (\<lambda>k. k \<noteq> None) found)" and "b = length (filter (\<lambda>k. k = None) found)"
    have "a + b = n" unfolding a_def b_def length_filter_None by (simp add: found)
    then have n: "(of_nat n :: u64) = of_nat a + of_nat b" by (metis of_nat_add)
    have "i_run i1 = (i_run (run_counted i))\<lparr>
       run_route_lookup_count := run_route_lookup_count (i_run (run_counted i)) + of_nat n,
       run_route_hit_count := run_route_hit_count (i_run (run_counted i)) + of_nat a,
       run_route_miss_count := run_route_miss_count (i_run (run_counted i)) + of_nat b\<rparr>"
      using lk unfolding looked_up_def prod.case a_def b_def by blast
    moreover have "run_settled (i_run i1) (i_run i')" using e by (simp add: run_ended_def x)
    ultimately show ?thesis
      using that by (simp add: run_consistent_def run_settled_def run_counted_def clear_error_def set_error_def n add_ac)
  qed
  ultimately show ?thesis using e o by (simp add: run_kept_def run_ended_def x)
qed

lemma run_locked_kept: "run_kept i sc h (run_locked env m t0 q input ids weights out i sc h)"
proof -
  let ?res = "new_run_result\<lparr>rs_arithmetic_mode := rn_arithmetic_mode q\<rparr>"
  let ?g = "(ClockNow, env h ClockNow) # h"
  have o: "owns ?g R \<longleftrightarrow> owns h R" for R by simp
  obtain i1 res1 found where lk: "run_lookup (rn_layer_index q) ids (run_counted i) ?res = (i1, res1, found)"
    by (metis surj_pair)
  note L = run_lookup_ok [of "run_counted i" ?res "rn_layer_index q" ids, unfolded lk]
  obtain a g1 where g1: "elapsed_since env (r_num (env h ClockNow)) ?g = (a, g1)" by fastforce
  have o1: "owns g1 R \<longleftrightarrow> owns h R" for R using elapsed_since_owns [OF g1] by simp
  show ?thesis
    unfolding run_locked_def Let_def ask_def prod.case run_counted_def [symmetric] lk g1
    by (auto intro!: run_kept_counted [OF run_reject_ended o] run_kept_looked_up [OF L run_fallback_ended o1]
        run_kept_looked_up [OF L run_compute_ended o1])
qed

lemma host_run_kept:
  assumes "host_run env m (Some (i, sc)) q sz h = (st, res, out, p, h')"
  shows "\<exists>i' sc'. p = Some (i', sc') \<and> pinned (\<lambda>k. 0) (i_entries i) (i_entries i') \<and> run_frame i i' \<and>
    (\<forall>R. owns h' R \<longleftrightarrow> owns h R) \<and> (scratch_ok sc \<longrightarrow> scratch_ok sc') \<and>
    (run_consistent (i_run i) \<longrightarrow> run_consistent (i_run i')) \<and>
    (length (i_last_error i) < 512 \<longrightarrow> length (i_last_error i') < 512)"
proof -
  let ?g = "(ClockNow, env h ClockNow) # h"
  let ?t = "r_num (env h ClockNow)"
  obtain a g1 where g1: "elapsed_since env ?t ?g = (a, g1)" by fastforce
  have o: "owns g1 R \<longleftrightarrow> owns h R" for R using elapsed_since_owns [OF g1] by simp
  have unchanged: "\<exists>i' sc'. Some (i, sc) = Some (i', sc') \<and> pinned (\<lambda>k. 0) (i_entries i) (i_entries i') \<and> run_frame i i' \<and>
    (\<forall>R. owns g R \<longleftrightarrow> owns h R) \<and> (scratch_ok sc \<longrightarrow> scratch_ok sc') \<and>
    (run_consistent (i_run i) \<longrightarrow> run_consistent (i_run i')) \<and>
    (length (i_last_error i) < 512 \<longrightarrow> length (i_last_error i') < 512)" if "\<And>R. owns g R \<longleftrightarrow> owns h R" for g
    using that pinned_refl by auto
  consider (same) "p = Some (i, sc)" "h' = h \<or> h' = g1"
    | (ran) q' input ids weights out0 st0 res0 out1 i1 sc1 where
      "run_locked env m ?t q' input ids weights out0 i sc ?g = (st0, res0, out1, i1, sc1, h')" "p = Some (i1, sc1)"
    using assms g1
    by (auto simp: host_run_def Let_def ask_def split: option.splits if_splits prod.splits)
  then show ?thesis
  proof cases
    case same
    then show ?thesis using unchanged [of h] unchanged [of g1] o by auto
  next
    case ran
    have "owns ?g R \<longleftrightarrow> owns h R" for R by simp
    then show ?thesis
      using run_locked_kept [of i sc ?g env m ?t q' input ids weights out0] ran by (simp add: run_kept_def)
  qed
qed

section \<open>Properties\<close>

text \<open>The arguments of a call that passes the checks of the interface and of the request.\<close>

definition run_call_ok ::
  "run_request \<Rightarrow> u32 \<Rightarrow> bf16 list \<Rightarrow> u32 list \<Rightarrow> f32 list \<Rightarrow> f32 list \<Rightarrow> bool" where
  "run_call_ok q sz input ids weights out \<longleftrightarrow>
     rn_input_bf16 q = Some input \<and> rn_expert_ids q = Some ids \<and> rn_route_weights_f32 q = Some weights \<and>
     rn_output_f32 q = Some out \<and> struct_size_valid sz sizeof_run_result \<and>
     struct_size_valid (rn_struct_size q) sizeof_run_request \<and> rn_layer_index q < kLayerCount \<and>
     unat (rn_arithmetic_mode q) < length arithmetic_modes \<and> run_request_valid input ids weights"

text \<open>Reading an entry's weights does not depend on its pins or its time of use.\<close>

lemma moe_element_cong:
  assumes "\<And>r. r < kRoutes \<Longrightarrow> gate_up_bf16 (es' ! r) = gate_up_bf16 (es ! r)"
    "\<And>r. r < kRoutes \<Longrightarrow> down_bf16 (es' ! r) = down_bf16 (es ! r)"
  shows "moe_element m es' input weights mode = moe_element m es input weights mode"
proof
  fix row
  have "gate_up_row m (es' ! r) input mode = gate_up_row m (es ! r) input mode" if "r < kRoutes" for r
    by (rule ext) (simp add: gate_up_row_def assms(1) [OF that] Let_def)
  then have "route_value m (es' ! r) (expert_activation m (es' ! r) input mode) w mode row =
      route_value m (es ! r) (expert_activation m (es ! r) input mode) w mode row" if "r < kRoutes" for r w
    using that by (simp add: route_value_def expert_activation_def assms(2) [OF that] Let_def)
  then show "moe_element m es' input weights mode row = moe_element m es input weights mode row"
    unfolding moe_element_def by (intro arg_cong [where f = "combine_routes m mode"] map_cong) simp_all
qed

lemma host_run_locked:
  assumes "run_call_ok q sz input ids weights out0"
    and "host_run env m (Some (i, sc)) (Some q) (Some sz) h = (st, res, out, p, h')"
  obtains res1 out1 i' sc' where "res = Some res1" "out = Some out1" "p = Some (i', sc')"
    "run_locked env m (r_num (env h ClockNow)) q input ids weights out0 i sc ((ClockNow, env h ClockNow) # h) =
      (st, res1, out1, i', sc', h')"
proof -
  obtain st' res1 out1 i' sc' g where r: "run_locked env m (r_num (env h ClockNow)) q input ids weights out0 i sc
      ((ClockNow, env h ClockNow) # h) = (st', res1, out1, i', sc', g)" by (metis surj_pair)
  with assms have "st' = st" "res = Some res1" "out = Some out1" "p = Some (i', sc')" "g = h'"
    by (auto simp: host_run_def run_call_ok_def Let_def ask_def)
  with r that show thesis by simp
qed

lemma looked_up_result:
  assumes "looked_up i0 res0 l ids n (i, res, found)"
    and "rs_route_cache_hits res0' = rs_route_cache_hits res0" "rs_route_cache_misses res0' = rs_route_cache_misses res0"
    and "rs_route_cache_hits res' = rs_route_cache_hits res" "rs_route_cache_misses res' = rs_route_cache_misses res"
  shows "looked_up i0 res0' l ids n (i, res', found)"
  using assms(1) unfolding looked_up_def prod.case assms(2-5) .

text \<open>The two ways a valid request continues after the lookup.\<close>

lemma run_locked_cases:
  assumes valid: "run_request_valid input ids weights"
    and run: "run_locked env m t0 q input ids weights out0 i sc h = x"
  obtains i1 res1 found g where
    "looked_up (run_counted i) new_run_result (rn_layer_index q) ids kRoutes (i1, res1, found)"
    "rs_route_cache_misses res1 \<noteq> 0 \<Longrightarrow> run_fallback env t0 found res1 out0 i1 sc g = x"
    "rs_route_cache_misses res1 = 0 \<Longrightarrow>
       run_compute env m t0 input weights (mode_of (rn_arithmetic_mode q)) found res1 out0 i1 sc g = x"
proof -
  let ?res = "new_run_result\<lparr>rs_arithmetic_mode := rn_arithmetic_mode q\<rparr>"
  obtain i1 res1 found where lk: "run_lookup (rn_layer_index q) ids (run_counted i) ?res = (i1, res1, found)"
    by (metis surj_pair)
  obtain a g1 where g1: "elapsed_since env (r_num (env h ClockNow)) ((ClockNow, env h ClockNow) # h) = (a, g1)"
    by fastforce
  let ?res1 = "res1\<lparr>rs_cache_entry_count := length (i_entries i1), rs_cache_bytes := i_cache_bytes i1,
    rs_cache_peak_bytes := i_cache_peak_bytes i1, rs_lookup_elapsed_ns := a\<rparr>"
  have "looked_up (run_counted i) new_run_result (rn_layer_index q) ids kRoutes (i1, ?res1, found)"
    using run_lookup_ok [of "run_counted i" ?res "rn_layer_index q" ids, unfolded lk]
    by (rule looked_up_result) simp_all
  moreover have "x = (if rs_route_cache_misses ?res1 \<noteq> 0 then run_fallback env t0 found ?res1 out0 i1 sc g1
      else run_compute env m t0 input weights (mode_of (rn_arithmetic_mode q)) found ?res1 out0 i1 sc g1)"
    using run valid unfolding run_locked_def Let_def ask_def prod.case run_counted_def [symmetric] lk g1
    by simp
  ultimately show thesis using that [of i1 ?res1 found g1] by (simp split: if_splits)
qed

lemma run_fallback_result:
  assumes "run_fallback env t0 found res out i sc h = (st, res', out', i', sc', h')"
  shows "st = STATUS_FALLBACK_CACHE_MISS" "rs_route_cache_hits res' = rs_route_cache_hits res"
    "rs_route_cache_misses res' = rs_route_cache_misses res" "out' = out" "sc' = sc"
  using assms by (auto simp: run_fallback_def Let_def split: prod.splits)

lemma run_compute_result:
  assumes run: "run_compute env m t0 input weights mode found res out0 i sc h = (st, res', out, i', sc', h')"
    and quiet: "\<forall>g. \<not> r_throws (env g (CxxAllocate ''parallel_for''))"
    and order: "dispatch_order (m_order m (kRoutes * kIntermediate)) (kRoutes * kIntermediate)"
      "dispatch_order (m_order m kHidden) kHidden" and sc: "scratch_ok sc" and out0: "length out0 = kHidden"
  shows "out = map (moe_element m (map (\<lambda>k. i_entries i ! the k) found) input weights mode) [0..<kHidden]"
    "st = (if list_all f32_is_finite out then STATUS_SUCCESS else STATUS_ERROR)"
    "rs_error_code res' = (if list_all f32_is_finite out then ERROR_NONE else ERROR_NONFINITE)"
    "rs_route_cache_hits res' = rs_route_cache_hits res" "rs_route_cache_misses res' = rs_route_cache_misses res"
    "rs_output_fnv1a64 res' = fnv1a64 (f32_bytes out)"
proof -
  note D = down_phase [OF order sc out0]
  have fin: "list_all (\<lambda>row. f32_is_finite (xs ! row)) [0..<kHidden] = list_all f32_is_finite xs"
    if "length xs = kHidden" for xs
    using that by (auto simp: list_all_length)
  show "out = map (moe_element m (map (\<lambda>k. i_entries i ! the k) found) input weights mode) [0..<kHidden]"
    "st = (if list_all f32_is_finite out then STATUS_SUCCESS else STATUS_ERROR)"
    "rs_error_code res' = (if list_all f32_is_finite out then ERROR_NONE else ERROR_NONFINITE)"
    "rs_route_cache_hits res' = rs_route_cache_hits res" "rs_route_cache_misses res' = rs_route_cache_misses res"
    "rs_output_fnv1a64 res' = fnv1a64 (f32_bytes out)"
    using run quiet unfolding run_compute_def run_finish_def Let_def ask_def
    by (auto simp: D fin simp del: upt_Suc split: prod.splits if_splits)
qed

text \<open>A provider that holds the experts 0 to 7 of layer 0, and a request for them.\<close>

definition loaded_provider :: impl where
  "loaded_provider = (new_impl (example_config\<lparr>cfg_cache_entry_capacity := 8, cfg_cache_byte_capacity := 60000000\<rparr>))
     \<lparr>i_entries := map (\<lambda>x. new_entry\<lparr>e_expert_id := of_nat x\<rparr>) [0..<8], i_cache_bytes := 50331648,
      i_cache_peak_bytes := 50331648, i_cache_peak_entries := 8\<rparr>"

definition loaded_request :: run_request where
  "loaded_request = \<lparr>rn_struct_size = 48, rn_layer_index = 0, rn_arithmetic_mode = 4,
     rn_input_bf16 = Some (replicate 2048 0), rn_expert_ids = Some [0, 1, 2, 3, 4, 5, 6, 7],
     rn_route_weights_f32 = Some (replicate 8 0x3e000000), rn_output_f32 = Some (replicate 2048 0)\<rparr>"

definition plain_machine :: machine where
  "plain_machine = \<lparr>m_fpu = \<lparr>nan_result = (\<lambda>x y. 0x7fc00000), exp_f32 = (\<lambda>x. 0), dpbf16 = (\<lambda>a x y. a)\<rparr>,
     m_mem = (\<lambda>a. 0), m_order = (\<lambda>n. [0..<n])\<rparr>"

lemma bf16_values_finite_zeros: "bf16_values_finite (replicate n 0)"
  by (induction n) simp_all

lemma upt_8: "[0..<8] = [0, 1, 2, 3, 4, 5, 6, 7 :: nat]"
  by (simp add: upt_conv_Cons)

lemma loaded_call_ok:
  "run_call_ok loaded_request 120 (replicate 2048 0) [0, 1, 2, 3, 4, 5, 6, 7] (replicate 8 0x3e000000) (replicate 2048 0)"
  by (simp add: run_call_ok_def loaded_request_def struct_size_valid_def sizeof_run_result_def sizeof_run_request_def
      run_request_valid_def kLayerCount_def arithmetic_modes_def bf16_values_finite_zeros kHidden_def kRoutes_def
      kExpertCount_def upt_conv_Cons f32_is_finite_def f32_nonnegative_def f32_is_nan_def f32_negative_def word_less_nat_alt)

lemma loaded_find:
  assumes "x < 8"
  shows "find_entry 0 (of_nat x) loaded_provider = Some x"
proof -
  have "x \<in> {0, 1, 2, 3, 4, 5, 6, 7}" using assms by auto
  then show ?thesis
    by (elim insertE)
      (simp_all add: find_entry_def loaded_provider_def new_impl_def new_entry_def entry_hit_def upt_8)
qed

lemma loaded_inv: "provider_inv [] loaded_provider" "run_consistent (i_run loaded_provider)" "scratch_ok new_scratch"
proof -
  show "provider_inv [] loaded_provider"
    by (simp add: provider_inv_def loaded_provider_def new_impl_def cache_wf_def unpinned_def impl_resources_def
        owns_def acquired_def released_def example_config_def new_entry_def entry_key_def entry_current_def
        new_identity_def kExpertCount_def kBytesPerExpertPair_def upt_8 entry_resources_def view_resources_def
        buffer_resources_def empty_view_def empty_buffer_def nullptr_def invalid_handle_def word_le_nat_alt
        word_less_nat_alt)
  show "run_consistent (i_run loaded_provider)"
    by (simp add: loaded_provider_def new_impl_def no_run_stats_def run_consistent_def)
  show "scratch_ok new_scratch" by (simp add: scratch_ok_def new_scratch_def)
qed

text \<open>
  C3. Whatever happens during a call of \<open>run\<close> (an invalid request, a cache miss, a failed dispatch,
  a non-finite result, success), it leaves the provider as consistent as it found it: every pin
  it took is given back, the cache holds the same experts at the same places, nothing was acquired
  or released, and the counters still say that every call ended in one way and every lookup hit or
  missed.
\<close>

theorem host_run_keeps_provider:
  assumes "provider_inv h i" "scratch_ok sc" "run_consistent (i_run i)"
    and "host_run env m (Some (i, sc)) q sz h = (st, res, out, p, h')"
  shows "\<exists>i' sc'. p = Some (i', sc') \<and> provider_inv h' i' \<and> scratch_ok sc' \<and> run_consistent (i_run i') \<and>
    (\<forall>l x. find_entry l x i' = find_entry l x i) \<and>
    map e_pin_count (i_entries i') = map e_pin_count (i_entries i)"
proof -
  obtain i' sc' where p: "p = Some (i', sc')" "pinned (\<lambda>k. 0) (i_entries i) (i_entries i')" "run_frame i i'"
    "\<forall>R. owns h' R \<longleftrightarrow> owns h R" "scratch_ok sc'" "run_consistent (i_run i')"
    using host_run_kept [OF assms(4)] assms(2,3) by blast
  have "provider_inv h' i'"
    using provider_inv_pinned [OF p(2,3)] p(4) assms(1) by (simp add: provider_inv_def)
  moreover have "map e_pin_count (i_entries i') = map e_pin_count (i_entries i)"
    by (rule pinned_map_eq [OF p(2)]) (simp add: pinned_entry(7) [OF p(2)])
  ultimately show ?thesis using p find_entry_pinned [OF p(2,3)] by blast
qed

theorem host_run_keeps_provider_witness:
  "\<exists>st res out i' sc' h'.
     host_run example_host plain_machine (Some (loaded_provider, new_scratch)) (Some loaded_request) (Some 120) [] =
       (st, res, out, Some (i', sc'), h') \<and> provider_inv h' i' \<and> map e_pin_count (i_entries i') = replicate 8 0"
proof -
  obtain st res out p h' where run:
    "host_run example_host plain_machine (Some (loaded_provider, new_scratch)) (Some loaded_request) (Some 120) [] =
       (st, res, out, p, h')" by (metis surj_pair)
  have "map e_pin_count (i_entries loaded_provider) = replicate 8 0"
    by (simp add: loaded_provider_def new_entry_def upt_8 eval_nat_numeral)
  with host_run_keeps_provider [OF loaded_inv(1,3,2) run] run show ?thesis by metis
qed

text \<open>
  C2. When all eight experts are cached and the workers can be dispatched, \<open>run\<close> writes exactly the
  output that the experts define, whatever the order in which the worker threads executed the
  tasks and whatever the scratch arrays held before; it reports success exactly when every element is
  finite, eight hits and no miss, and the digest of the output.
\<close>

theorem host_run_computes:
  assumes call: "run_call_ok q sz input ids weights out0" and len: "length out0 = kHidden"
    and hit: "\<forall>r < kRoutes. find_entry (rn_layer_index q) (ids ! r) i = Some (slot r)"
    and quiet: "\<forall>g. \<not> r_throws (env g (CxxAllocate ''parallel_for''))"
    and order: "dispatch_order (m_order m (kRoutes * kIntermediate)) (kRoutes * kIntermediate)"
      "dispatch_order (m_order m kHidden) kHidden" and sc: "scratch_ok sc"
    and run: "host_run env m (Some (i, sc)) (Some q) (Some sz) h = (st, res, out, p, h')"
  shows "\<exists>r y. res = Some r \<and> out = Some y \<and>
    y = map (moe_element m (map (\<lambda>r. i_entries i ! slot r) [0..<kRoutes]) input weights (mode_of (rn_arithmetic_mode q))) [0..<kHidden] \<and>
    st = (if list_all f32_is_finite y then STATUS_SUCCESS else STATUS_ERROR) \<and>
    rs_error_code r = (if list_all f32_is_finite y then ERROR_NONE else ERROR_NONFINITE) \<and>
    rs_route_cache_hits r = 8 \<and> rs_route_cache_misses r = 0 \<and> rs_output_fnv1a64 r = fnv1a64 (f32_bytes y)"
proof -
  obtain r1 y i' sc' where o: "res = Some r1" "out = Some y"
    "run_locked env m (r_num (env h ClockNow)) q input ids weights out0 i sc ((ClockNow, env h ClockNow) # h) =
      (st, r1, y, i', sc', h')" using host_run_locked [OF call run] by metis
  have valid: "run_request_valid input ids weights" using call by (simp add: run_call_ok_def)
  obtain i1 res1 found g where lk: "looked_up (run_counted i) new_run_result (rn_layer_index q) ids kRoutes (i1, res1, found)"
    and compute: "rs_route_cache_misses res1 = 0 \<Longrightarrow> run_compute env m (r_num (env h ClockNow)) input weights
      (mode_of (rn_arithmetic_mode q)) found res1 out0 i1 sc g = (st, r1, y, i', sc', h')"
    by (rule run_locked_cases [OF valid o(3)]) (rule that, assumption, blast)
  have found: "found = map (\<lambda>r. Some (slot r)) [0..<kRoutes]"
  proof -
    have "found = map (\<lambda>r. find_entry (rn_layer_index q) (ids ! r) i) [0..<kRoutes]"
      using lk unfolding looked_up_def prod.case run_counted_simps by blast
    then show ?thesis using hit by simp
  qed
  have counts: "rs_route_cache_hits res1 = 8" "rs_route_cache_misses res1 = 0"
    using lk unfolding looked_up_def prod.case by (simp_all add: found new_run_result_def kRoutes_def)
  note C = run_compute_result [OF compute [OF counts(2)] quiet order sc len]
  have pin: "pinned (\<lambda>k. count_list found (Some k)) (i_entries i) (i_entries i1)"
    using lk unfolding looked_up_def prod.case run_counted_simps by blast
  have slot: "slot r < length (i_entries i)" if "r < kRoutes" for r
    using hit that find_entry_Some(1) by blast
  have "moe_element m (map (\<lambda>k. i_entries i1 ! the k) found) input weights mode =
      moe_element m (map (\<lambda>r. i_entries i ! slot r) [0..<kRoutes]) input weights mode" for mode
    by (rule moe_element_cong) (simp_all add: found pinned_entry(5,6) [OF pin slot])
  then show ?thesis using C o counts by simp
qed

theorem host_run_computes_witness:
  "\<exists>r y p h'. host_run example_host plain_machine (Some (loaded_provider, new_scratch)) (Some loaded_request) (Some 120) [] =
       (if list_all f32_is_finite y then STATUS_SUCCESS else STATUS_ERROR, Some r, Some y, p, h') \<and>
     length y = 2048 \<and> rs_route_cache_hits r = 8"
proof -
  obtain st res out p h' where run:
    "host_run example_host plain_machine (Some (loaded_provider, new_scratch)) (Some loaded_request) (Some 120) [] =
       (st, res, out, p, h')" by (metis surj_pair)
  have quiet: "\<forall>g. \<not> r_throws (example_host g (CxxAllocate ''parallel_for''))"
    by (simp add: example_host_def plain_reply_def Let_def)
  have hit: "\<forall>r < kRoutes. find_entry (rn_layer_index loaded_request) ([0, 1, 2, 3, 4, 5, 6, 7] ! r) loaded_provider = Some (id r)"
  proof (intro allI impI)
    fix r :: nat
    assume r: "r < kRoutes"
    then have "[0, 1, 2, 3, 4, 5, 6, 7] ! r = (of_nat r :: u32)"
      by (auto simp: kRoutes_def less_Suc_eq numeral_eq_Suc)
    then show "find_entry (rn_layer_index loaded_request) ([0, 1, 2, 3, 4, 5, 6, 7] ! r) loaded_provider = Some (id r)"
      using r loaded_find [of r] by (simp add: loaded_request_def kRoutes_def)
  qed
  have order: "dispatch_order (m_order plain_machine n) n" for n
    by (simp add: dispatch_order_def plain_machine_def)
  have len: "length (replicate 2048 0 :: f32 list) = kHidden" by (simp add: kHidden_def)
  from host_run_computes [OF loaded_call_ok len hit quiet order order loaded_inv(3) run]
  obtain r y where "res = Some r" "out = Some y" "length y = kHidden" "rs_route_cache_hits r = 8"
    "st = (if list_all f32_is_finite y then STATUS_SUCCESS else STATUS_ERROR)" by auto
  moreover have "kHidden = 2048" by (simp add: kHidden_def)
  ultimately show ?thesis using run by auto
qed

text \<open>
  C32. When an expert of a valid request is not cached, \<open>run\<close> computes nothing: it returns the
  fallback status with the output buffer and the scratch arrays untouched, and its hits and misses
  add up to the eight routes.
\<close>

theorem host_run_falls_back:
  assumes call: "run_call_ok q sz input ids weights out0"
    and miss: "r < kRoutes" "find_entry (rn_layer_index q) (ids ! r) i = None"
    and run: "host_run env m (Some (i, sc)) (Some q) (Some sz) h = (st, res, out, p, h')"
  shows "st = STATUS_FALLBACK_CACHE_MISS \<and> out = Some out0 \<and> map_option snd p = Some sc \<and>
    (\<exists>y. res = Some y \<and> 0 < rs_route_cache_misses y \<and> rs_route_cache_hits y + rs_route_cache_misses y = 8)"
proof -
  obtain r1 y i' sc' where o: "res = Some r1" "out = Some y" "p = Some (i', sc')"
    "run_locked env m (r_num (env h ClockNow)) q input ids weights out0 i sc ((ClockNow, env h ClockNow) # h) =
      (st, r1, y, i', sc', h')" using host_run_locked [OF call run] by metis
  have valid: "run_request_valid input ids weights" using call by (simp add: run_call_ok_def)
  obtain i1 res1 found g where lk: "looked_up (run_counted i) new_run_result (rn_layer_index q) ids kRoutes (i1, res1, found)"
    and fall: "rs_route_cache_misses res1 \<noteq> 0 \<Longrightarrow>
      run_fallback env (r_num (env h ClockNow)) found res1 out0 i1 sc g = (st, r1, y, i', sc', h')"
    by (rule run_locked_cases [OF valid o(4)]) (rule that, assumption, blast)
  have found: "found = map (\<lambda>r. find_entry (rn_layer_index q) (ids ! r) i) [0..<kRoutes]"
    and n: "rs_route_cache_hits res1 = length (filter (\<lambda>k. k \<noteq> None) found)"
      "rs_route_cache_misses res1 = length (filter (\<lambda>k. k = None) found)"
    using lk unfolding looked_up_def prod.case run_counted_simps
    by (blast, simp_all add: new_run_result_def)
  have "None \<in> set found" using miss unfolding found by force
  then have pos: "rs_route_cache_misses res1 \<noteq> 0" unfolding n by (simp add: filter_empty_conv)
  have "rs_route_cache_hits res1 + rs_route_cache_misses res1 = 8"
    unfolding n length_filter_None by (simp add: found kRoutes_def)
  with run_fallback_result [OF fall [OF pos]] pos o show ?thesis by simp
qed

theorem host_run_falls_back_witness:
  "\<exists>res p h'. host_run example_host plain_machine (Some (new_impl example_config, new_scratch)) (Some loaded_request) (Some 120) [] =
     (STATUS_FALLBACK_CACHE_MISS, res, Some (replicate 2048 0), p, h')"
proof -
  obtain st res out p h' where run:
    "host_run example_host plain_machine (Some (new_impl example_config, new_scratch)) (Some loaded_request) (Some 120) [] =
       (st, res, out, p, h')" by (metis surj_pair)
  have "(0::nat) < kRoutes" "find_entry (rn_layer_index loaded_request) ([0, 1, 2, 3, 4, 5, 6, 7] ! 0) (new_impl example_config) = None"
    by (simp_all add: kRoutes_def find_entry_def new_impl_def)
  from host_run_falls_back [OF loaded_call_ok this run] run show ?thesis by blast
qed

end
