(* ===== verification/Cache_Spec.thy ===== *)
theory Cache_Spec
  imports Expert_Cache
begin

text \<open>
  The contract of the expert cache of \<^verbatim>\<open>native/providers/q1_moe_avx512bf16_host_provider.cpp\<close>: a finite
  map from keys (layer and expert) to entries with least-recently-used eviction, and the proof that the
  vector of entries that \<open>ProviderImpl\<close> keeps implements it.
\<close>

section \<open>The contract\<close>

locale lru_map =
  fixes wf :: "'s \<Rightarrow> bool"
    and contents :: "'s \<Rightarrow> 'k \<rightharpoonup> 'e"
    and lookup :: "'k \<Rightarrow> 's \<Rightarrow> 'e option"
    and admit :: "'e \<Rightarrow> 's \<Rightarrow> 's"
    and evict :: "'k list \<Rightarrow> 's \<Rightarrow> 's option"
    and key :: "'e \<Rightarrow> 'k"
    and free :: "'e \<Rightarrow> bool"
    and used :: "'e \<Rightarrow> 't::linorder"
  assumes lookup_contents: "wf s \<Longrightarrow> lookup k s = contents s k"
    and key_contents: "wf s \<Longrightarrow> contents s k = Some e \<Longrightarrow> key e = k"
    and admit_contents: "wf s \<Longrightarrow> key e \<notin> dom (contents s) \<Longrightarrow> contents (admit e s) = (contents s)(key e \<mapsto> e)"
    and evict_contents: "wf s \<Longrightarrow> evict ks s = Some s' \<Longrightarrow>
      wf s' \<and> (\<exists>e. contents s (key e) = Some e \<and> free e \<and> key e \<notin> set ks \<and>
        contents s' = (contents s)(key e := None) \<and>
        (\<forall>k e'. contents s k = Some e' \<longrightarrow> free e' \<longrightarrow> k \<notin> set ks \<longrightarrow> used e \<le> used e'))"
begin

text \<open>What a client of the cache relies on.\<close>

lemma evict_lookup:
  assumes "wf s" "evict ks s = Some s'"
  shows "lookup k s' = lookup k s \<or> lookup k s' = None" "k \<in> set ks \<Longrightarrow> lookup k s' = lookup k s"
    "lookup k s = Some e \<Longrightarrow> \<not> free e \<Longrightarrow> lookup k s' = Some e"
proof -
  obtain v where v: "wf s'" "contents s (key v) = Some v" "free v" "key v \<notin> set ks"
    "contents s' = (contents s)(key v := None)"
    using evict_contents [OF assms] by blast
  show "lookup k s' = lookup k s \<or> lookup k s' = None" "k \<in> set ks \<Longrightarrow> lookup k s' = lookup k s"
    "lookup k s = Some e \<Longrightarrow> \<not> free e \<Longrightarrow> lookup k s' = Some e"
    using v assms(1) by (auto simp: lookup_contents)
qed

lemma evict_makes_space:
  assumes "wf s" "evict ks s = Some s'"
  shows "\<exists>k e. lookup k s = Some e \<and> lookup k s' = None \<and> free e \<and>
    (\<forall>k' e'. lookup k' s = Some e' \<longrightarrow> free e' \<longrightarrow> k' \<notin> set ks \<longrightarrow> used e \<le> used e')"
proof -
  obtain v where v: "wf s'" "contents s (key v) = Some v" "free v" "contents s' = (contents s)(key v := None)"
    "\<forall>k e'. contents s k = Some e' \<longrightarrow> free e' \<longrightarrow> k \<notin> set ks \<longrightarrow> used v \<le> used e'"
    using evict_contents [OF assms] by blast
  then show ?thesis
    using assms(1) by (intro exI [of _ "key v"] exI [of _ v]) (simp add: lookup_contents)
qed

end

section \<open>The implementation\<close>

definition cache_map :: "impl \<Rightarrow> u32 \<times> u32 \<rightharpoonup> entry" where
  "cache_map i = map_of (map (\<lambda>e. (entry_key e, e)) (i_entries i))"

definition cache_lookup :: "u32 \<times> u32 \<Rightarrow> impl \<Rightarrow> entry option" where
  "cache_lookup key i = map_option (\<lambda>k. i_entries i ! k) (find_entry (fst key) (snd key) i)"

definition cache_evict :: "host_env \<Rightarrow> host_hist \<Rightarrow> keys \<Rightarrow> impl \<Rightarrow> impl option" where
  "cache_evict env h ks i = map_option fst (evict_one env ks i h)"

lemma keyed_fst: "map fst (map (\<lambda>e. (entry_key e, e)) es) = map entry_key es"
  by simp

lemma cache_map_Some:
  assumes "cache_wf i"
  shows "cache_map i k = Some e \<longleftrightarrow> e \<in> set (i_entries i) \<and> entry_key e = k"
proof -
  have "distinct (map fst (map (\<lambda>e. (entry_key e, e)) (i_entries i)))"
    unfolding keyed_fst by (rule cache_wfD(4) [OF assms])
  then show ?thesis by (auto simp: cache_map_def)
qed

lemma dom_cache_map: "dom (cache_map i) = entry_key ` set (i_entries i)"
  by (simp add: cache_map_def dom_map_of_conv_image_fst image_image)

lemma cache_lookup_map:
  assumes "cache_wf i"
  shows "cache_lookup key i = cache_map i key"
proof (cases "find_entry (fst key) (snd key) i")
  case None
  then have "key \<notin> dom (cache_map i)"
    using find_entry_None [OF assms, of "fst key" "snd key"] by (simp add: dom_cache_map)
  then show ?thesis using None by (simp add: cache_lookup_def domIff)
next
  case (Some k)
  then have "cache_map i key = Some (i_entries i ! k)"
    using find_entry_Some [OF Some] by (simp add: cache_map_Some [OF assms])
  then show ?thesis using Some by (simp add: cache_lookup_def)
qed

lemma cache_map_erase:
  assumes "cache_wf i" "k < length (i_entries i)" "erase_entry env k i h = (i', h')"
  shows "cache_map i' = (cache_map i)(entry_key (i_entries i ! k) := None)"
proof
  fix key
  note E = erase_entry_wf [OF assms]
  have wf': "cache_wf i'" by (rule E(1))
  have sub: "set (i_entries i') \<subseteq> set (i_entries i)"
    using assms(3) set_erase_at_subset [of k "i_entries i"] by (auto simp: erase_entry_def)
  show "cache_map i' key = ((cache_map i)(entry_key (i_entries i ! k) := None)) key"
  proof (cases "key \<in> dom (cache_map i')")
    case True
    then obtain e where e: "cache_map i' key = Some e" by auto
    then have "cache_map i key = Some e" using sub cache_map_Some [OF wf'] cache_map_Some [OF assms(1)] by blast
    moreover have "key \<noteq> entry_key (i_entries i ! k)" using True E(3) by (simp add: dom_cache_map)
    ultimately show ?thesis using e by simp
  next
    case False
    then have "key \<notin> dom ((cache_map i)(entry_key (i_entries i ! k) := None))"
      using E(3) by (simp add: dom_cache_map)
    with False show ?thesis by (metis domIff)
  qed
qed

lemma cache_map_admit:
  assumes "entry_key e \<notin> dom (cache_map i)"
  shows "cache_map (admit_entry e i) = (cache_map i)(entry_key e \<mapsto> e)"
proof -
  let ?kv = "map (\<lambda>e. (entry_key e, e)) (i_entries i)"
  have "map_of (?kv @ [(entry_key e, e)]) = map_of [(entry_key e, e)] ++ map_of ?kv" by (rule map_of_append)
  also have "\<dots> = (map_of ?kv)(entry_key e \<mapsto> e)"
    using assms by (auto simp: cache_map_def map_add_def fun_eq_iff domIff split: option.splits)
  finally show ?thesis by (simp add: cache_map_def admit_entry_def Let_def)
qed

interpretation cache: lru_map cache_wf cache_map cache_lookup admit_entry "cache_evict env h" entry_key
  "\<lambda>e. e_pin_count e = 0" e_last_use for env h
proof
  show "cache_lookup k s = cache_map s k" if "cache_wf s" for k s
    using that by (rule cache_lookup_map)
  show "entry_key e = k" if "cache_wf s" "cache_map s k = Some e" for s k e
    using that by (simp add: cache_map_Some)
  show "cache_map (admit_entry e s) = (cache_map s)(entry_key e \<mapsto> e)" if "entry_key e \<notin> dom (cache_map s)" for s e
    using that by (rule cache_map_admit)
  show "cache_wf s' \<and> (\<exists>e. cache_map s (entry_key e) = Some e \<and> e_pin_count e = 0 \<and> entry_key e \<notin> set ks \<and>
      cache_map s' = (cache_map s)(entry_key e := None) \<and>
      (\<forall>k e'. cache_map s k = Some e' \<longrightarrow> e_pin_count e' = 0 \<longrightarrow> k \<notin> set ks \<longrightarrow> e_last_use e \<le> e_last_use e'))"
    if wf: "cache_wf s" and ev: "cache_evict env h ks s = Some s'" for s ks s'
  proof -
    obtain h' where ev': "evict_one env ks s h = Some (s', h')" using ev by (auto simp: cache_evict_def)
    obtain k where k: "k < length (i_entries s)" "evictable ks (i_entries s ! k)" "erase_entry env k s h = (s', h')"
      "\<And>e. e \<in> set (i_entries s) \<Longrightarrow> evictable ks e \<Longrightarrow> e_last_use (i_entries s ! k) \<le> e_last_use e"
      using evict_one_Some [OF ev'] by metis
    have e: "evictable ks e \<longleftrightarrow> e_pin_count e = 0 \<and> entry_key e \<notin> set ks" for e
      by (simp add: evictable_def is_protected_iff entry_key_def)
    show ?thesis
      using k cache_map_erase [OF wf k(1,3)] evict_one_wf [OF wf ev'] cache_map_Some [OF wf] e
      by (intro conjI exI [of _ "i_entries s ! k"]) auto
  qed
qed

section \<open>Properties\<close>

text \<open>
  C6. The vector of entries implements a map from keys to entries. Looking a key up reads the map,
  admitting an entry of a new key updates it, and an eviction removes exactly one key: one that is
  neither pinned nor protected and that no other such key was used before.
\<close>

theorem cache_refines_map:
  assumes "cache_wf i"
  shows "map_option (\<lambda>k. i_entries i ! k) (find_entry l x i) = cache_map i (l, x)
    \<and> (entry_key e \<notin> dom (cache_map i) \<longrightarrow> cache_map (admit_entry e i) = (cache_map i)(entry_key e \<mapsto> e))
    \<and> (evict_one env ks i h = Some (i', h') \<longrightarrow>
        (\<exists>v. cache_map i (entry_key v) = Some v \<and> e_pin_count v = 0 \<and> entry_key v \<notin> set ks \<and>
          cache_map i' = (cache_map i)(entry_key v := None) \<and>
          (\<forall>k w. cache_map i k = Some w \<longrightarrow> e_pin_count w = 0 \<longrightarrow> k \<notin> set ks \<longrightarrow> e_last_use v \<le> e_last_use w)))"
proof (intro conjI impI)
  show "map_option (\<lambda>k. i_entries i ! k) (find_entry l x i) = cache_map i (l, x)"
    using cache_lookup_map [OF assms, of "(l, x)"] by (simp add: cache_lookup_def)
  show "cache_map (admit_entry e i) = (cache_map i)(entry_key e \<mapsto> e)" if "entry_key e \<notin> dom (cache_map i)"
    using that by (rule cache_map_admit)
  assume "evict_one env ks i h = Some (i', h')"
  then have "cache_evict env h ks i = Some i'" by (simp add: cache_evict_def)
  from cache.evict_contents [OF assms this]
  show "\<exists>v. cache_map i (entry_key v) = Some v \<and> e_pin_count v = 0 \<and> entry_key v \<notin> set ks \<and>
    cache_map i' = (cache_map i)(entry_key v := None) \<and>
    (\<forall>k w. cache_map i k = Some w \<longrightarrow> e_pin_count w = 0 \<longrightarrow> k \<notin> set ks \<longrightarrow> e_last_use v \<le> e_last_use w)" by blast
qed

definition two_experts :: impl where
  "two_experts = (new_impl \<lparr>cfg_struct_size = 32, cfg_abi_version = 4, cfg_worker_count = 16,
     cfg_cache_entry_capacity = 2, cfg_cache_byte_capacity = 13000000, cfg_prefetch_virtual_memory = 0,
     cfg_touch_mapped_pages = 0\<rparr>)
     \<lparr>i_entries := [new_entry\<lparr>e_expert_id := 3, e_last_use := 9\<rparr>, new_entry\<lparr>e_expert_id := 5, e_last_use := 4\<rparr>],
      i_cache_bytes := 12582912, i_cache_peak_bytes := 12582912, i_cache_peak_entries := 2\<rparr>"

lemma two_experts_wf: "cache_wf two_experts"
  by (simp add: cache_wf_def two_experts_def new_impl_def new_entry_def new_identity_def entry_key_def
      entry_current_def kBytesPerExpertPair_def kExpertCount_def word_le_nat_alt word_less_nat_alt)

lemma two_experts_evict:
  "\<exists>i' h'. evict_one env [] two_experts h = Some (i', h')"
  by (simp add: evict_one_def two_experts_def new_impl_def new_entry_def erase_entry_def uint64_max_def word_less_nat_alt
      unsigned_minus_1_eq_mask mask_eq_exp_minus_1)

theorem cache_refines_map_witness:
  "cache_wf two_experts \<and> map_option (\<lambda>k. i_entries two_experts ! k) (find_entry 0 5 two_experts) = cache_map two_experts (0, 5) \<and>
   (\<exists>i' v. cache_map two_experts (entry_key v) = Some v \<and> cache_map i' = (cache_map two_experts)(entry_key v := None))"
proof -
  obtain i' h' where "evict_one env [] two_experts h = Some (i', h')" using two_experts_evict by blast
  with cache_refines_map [OF two_experts_wf, of 0 5 undefined env "[]" h i' h'] show ?thesis
    using two_experts_wf by blast
qed

lemma make_room_count: "make_room env ks n i h = (room, n', i', h') \<Longrightarrow> n' + length (i_entries i') = n + length (i_entries i)"
proof (induction env ks n i h rule: make_room.induct)
  case (1 env ks n i h)
  then show ?case
    by (subst (asm) (2) make_room.simps) (auto split: if_splits option.splits prod.splits dest!: evict_one_shrinks)
qed

lemma make_room_stuck:
  "make_room env ks n i h = (False, n', i', h') \<Longrightarrow> evict_one env ks i' h' = None"
proof (induction env ks n i h rule: make_room.induct)
  case (1 env ks n i h)
  then show ?case
    by (subst (asm) (2) make_room.simps) (auto split: if_splits option.splits prod.splits)
qed

lemma make_room_keeps_pinned:
  assumes "cache_wf i" "make_room env ks n i h = (room, n', i', h')"
    and "cache_map i k = Some e" "e_pin_count e \<noteq> 0 \<or> k \<in> set ks"
  shows "cache_map i' k = Some e"
proof -
  have "cache_wf i' \<and> cache_map i' k = Some e"
  proof (rule make_room_keeps [OF assms(2)])
    show "cache_wf i \<and> cache_map i k = Some e" using assms by simp
    fix j g j' g'
    assume j: "cache_wf j \<and> cache_map j k = Some e" "evict_one env ks j g = Some (j', g')"
    then have "cache_evict env g ks j = Some j'" by (simp add: cache_evict_def)
    note E = cache.evict_lookup [OF conjunct1 [OF j(1)] this]
    have wf: "cache_wf j'" using evict_one_wf [OF conjunct1 [OF j(1)] j(2)] by simp
    then have "cache_map j' k = Some e"
      using E(2) [of k] E(3) [of k e] assms(4) j(1) by (auto simp: cache_lookup_map)
    with wf show "cache_wf j' \<and> cache_map j' k = Some e" by simp
  qed
  then show ?thesis by simp
qed

text \<open>
  The eviction loop always comes to an end and decides: it reports room exactly when an entry
  fits into both capacities, counts the entries it gave up, keeps every pinned and every protected
  expert, and gives up only when no unprotected, unpinned entry is left that was ever marked as used
  before the last clock value.
\<close>

theorem make_room_decides:
  assumes "cache_wf i" "make_room env ks n i h = (room, n', i', h')"
  shows "(room \<longleftrightarrow> \<not> cache_full i') \<and> n' + length (i_entries i') = n + length (i_entries i)
    \<and> (\<forall>k e. cache_map i k = Some e \<longrightarrow> e_pin_count e \<noteq> 0 \<or> k \<in> set ks \<longrightarrow> cache_map i' k = Some e)
    \<and> (\<not> room \<longrightarrow> (\<forall>e \<in> set (i_entries i'). e_pin_count e \<noteq> 0 \<or> entry_key e \<in> set ks \<or> e_last_use e = uint64_max))"
proof -
  have "e_pin_count e \<noteq> 0 \<or> entry_key e \<in> set ks \<or> e_last_use e = uint64_max"
    if "\<not> room" "e \<in> set (i_entries i')" for e
  proof -
    have "evict_one env ks i' h' = None" using make_room_stuck assms(2) that(1) by (cases room) auto
    then have "select_victim ks 0 uint64_max None (i_entries i') = None"
      by (simp add: evict_one_def split: option.splits)
    from select_victim_spec [OF this] that(2) have "evictable ks e \<Longrightarrow> uint64_max \<le> e_last_use e" by auto
    moreover have "e_last_use e \<le> uint64_max" by (simp add: uint64_max_def)
    ultimately show ?thesis
      by (cases "evictable ks e") (auto simp: evictable_def is_protected_iff entry_key_def)
  qed
  then show ?thesis
    using make_room_room [OF assms(2)] make_room_count [OF assms(2)] make_room_keeps_pinned [OF assms] by blast
qed

theorem make_room_decides_witness:
  "\<forall>env h. \<exists>room n' i' h'. make_room env [(0, 3)] 0 two_experts h = (room, n', i', h') \<and>
     (room \<longleftrightarrow> \<not> cache_full i') \<and> n' + length (i_entries i') = 2 \<and>
     cache_map i' (0, 3) = Some (new_entry\<lparr>e_expert_id := 3, e_last_use := 9\<rparr>)"
proof (intro allI)
  fix env h
  obtain room n' i' h' where run: "make_room env [(0, 3)] 0 two_experts h = (room, n', i', h')" by (metis surj_pair)
  have "cache_map two_experts (0, 3) = Some (new_entry\<lparr>e_expert_id := 3, e_last_use := 9\<rparr>)"
    by (simp add: cache_map_def two_experts_def entry_key_def new_entry_def)
  moreover have "length (i_entries two_experts) = 2" by (simp add: two_experts_def)
  ultimately have "(room \<longleftrightarrow> \<not> cache_full i') \<and> n' + length (i_entries i') = 2 \<and>
      cache_map i' (0, 3) = Some (new_entry\<lparr>e_expert_id := 3, e_last_use := 9\<rparr>)"
    using make_room_decides [OF two_experts_wf run] by simp
  with run show "\<exists>room n' i' h'. make_room env [(0, 3)] 0 two_experts h = (room, n', i', h') \<and>
     (room \<longleftrightarrow> \<not> cache_full i') \<and> n' + length (i_entries i') = 2 \<and>
     cache_map i' (0, 3) = Some (new_entry\<lparr>e_expert_id := 3, e_last_use := 9\<rparr>)" by blast
qed

end
