(* ===== verification/Expert_Session.thy ===== *)
theory Expert_Session
  imports Expert_Run Cache_Spec
begin

text \<open>
  The life of a provider of \<^verbatim>\<open>native/providers/q1_moe_avx512bf16_host_provider.cpp\<close>: the sequences of calls of
  its C interface, from \<open>create\<close> to \<open>release\<close>, on any machine; and the connection of the dispatch
  order that \<open>run\<close> is given with the worker pool.
\<close>

section \<open>Sequences of calls\<close>

text \<open>The provider of the caller, if there is one, and everything asked of the machine so far.\<close>

type_synonym session = "(impl \<times> scratch) option \<times> host_hist"

text \<open>One call; the machine may be another one at every call.\<close>

inductive session_step :: "session \<Rightarrow> session \<Rightarrow> bool" where
  create: "create env config True h = (st, p, h') \<Longrightarrow>
    session_step (None, h) (map_option (\<lambda>i. (i, new_scratch)) p, h')"
| prewarm: "prewarm env ct (Some i) q sz h = (st, res, p, h') \<Longrightarrow>
    session_step (Some (i, sc), h) (map_option (\<lambda>i. (i, sc)) p, h')"
| prewarm_resident: "prewarm_resident env (Some i) rq sz h = (st, rres, p, h') \<Longrightarrow>
    session_step (Some (i, sc), h) (map_option (\<lambda>i. (i, sc)) p, h')"
| run: "host_run env m (Some (i, sc)) r sz h = (st, out_res, out, p, h') \<Longrightarrow>
    session_step (Some (i, sc), h) (p, h')"
| release: "host_release env (Some i) sz h = (st, final, p, h') \<Longrightarrow>
    session_step (Some (i, sc), h) (map_option (\<lambda>i. (i, sc)) p, h')"

inductive_cases session_stepE: "session_step s t"

definition session_start :: "session \<Rightarrow> bool" where
  "session_start s \<longleftrightarrow> s = (None, [])"

fun session_inv :: "session \<Rightarrow> bool" where
  "session_inv (None, h) = owns h {#}"
| "session_inv (Some (i, sc), h) = (provider_inv h i \<and> scratch_ok sc)"

lemma query_cpu_features_owns: "query_cpu_features env h = (f, h') \<Longrightarrow> owns h' R \<longleftrightarrow> owns h R"
  by (auto simp: query_cpu_features_def ask_def Let_def split: if_splits)

lemma create_inv:
  assumes "create env config True h = (st, p, h')" "owns h {#}"
  shows "session_inv (map_option (\<lambda>i. (i, new_scratch)) p, h')"
proof -
  obtain f g where q: "query_cpu_features env h = (f, g)" by fastforce
  have new: "provider_inv k (new_impl c) \<longleftrightarrow> owns k {#}" for k c
    by (simp add: provider_inv_def new_impl_def cache_wf_def unpinned_def impl_resources_def)
  have "owns g {#}" using query_cpu_features_owns [OF q] assms(2) by simp
  then show ?thesis
    using assms by (auto simp: create_def Let_def ask_def q new new_scratch_def scratch_ok_def split: option.splits if_splits)
qed

lemma release_inv:
  assumes "host_release env (Some i) sz h = (st, final, p, h')" "provider_inv h i"
  shows "p = None \<and> owns h' {#} \<or> p = Some i \<and> h' = h"
proof -
  obtain i' g where c: "clear_entries env i h = (i', g)" by fastforce
  have "owns g {#}" using clear_entries_owns [of h i "{#}", OF _ c] assms(2) by (simp add: provider_inv_def)
  with assms(1) c show ?thesis by (auto simp: host_release_def split: option.splits if_splits)
qed

lemma session_step_inv:
  assumes "session_inv s" "session_step s t"
  shows "session_inv t"
  using assms(2,1)
proof cases
  case (create env config h st p h')
  then show ?thesis using create_inv assms(1) by simp
next
  case (prewarm env ct i q sz h st res p h' sc)
  then show ?thesis using prewarm_inv assms(1) by fastforce
next
  case (prewarm_resident env i rq sz h st rres p h' sc)
  then show ?thesis using prewarm_resident_inv assms(1) by fastforce
next
  case (run env m i sc r sz h st out_res out p h')
  then obtain i' sc' where "p = Some (i', sc')" "pinned (\<lambda>k. 0) (i_entries i) (i_entries i')" "run_frame i i'"
    "\<forall>R. owns h' R \<longleftrightarrow> owns h R" "scratch_ok sc'"
    using host_run_kept [OF run(3)] assms(1) by auto
  then show ?thesis using provider_inv_pinned run assms(1) by (auto simp: provider_inv_def)
next
  case (release env i sz h st final p h' sc)
  then show ?thesis using release_inv [OF release(3)] assms(1) by auto
qed

interpretation session: invariant_system session_start session_step session_inv
  by unfold_locales (auto simp: session_start_def owns_def acquired_def released_def intro: session_step_inv)

section \<open>Properties\<close>

text \<open>
  C1. Over the whole life of a provider nothing leaks: after any sequence of create, prewarm,
  device prewarm, run and release calls, successful or not, whose last provider was released, every
  file, mapping, view and memory block that was acquired has been given back exactly once; and while
  a provider is open, what is not given back is exactly what its cached entries hold.
\<close>

theorem session_leaks_nothing:
  assumes "reach session_start session_step s"
  shows "case fst s of None \<Rightarrow> acquired (snd s) = released (snd s)
    | Some (i, sc) \<Rightarrow> acquired (snd s) = released (snd s) + impl_resources i \<and> cache_wf i \<and> unpinned i"
proof -
  have "session_inv s" by (rule session.inv_reach [OF assms])
  then show ?thesis by (cases s rule: session_inv.cases) (auto simp: owns_def provider_inv_def)
qed

text \<open>A session on the concrete host: create a provider, prewarm it, release it.\<close>

definition created_history :: host_hist where
  "created_history = snd (snd (create example_host (Some example_config) True []))"

lemma example_create:
  "create example_host (Some example_config) True [] = (STATUS_SUCCESS, Some (new_impl example_config), created_history)"
proof -
  have "fst (create example_host (Some example_config) True []) = STATUS_SUCCESS"
    "fst (snd (create example_host (Some example_config) True [])) = Some (new_impl example_config)"
    by (simp_all add: create_def example_config_def struct_size_valid_def sizeof_config_def abi_version_def
        kBytesPerExpertPair_def query_cpu_features_def example_host_def plain_reply_def cpu_supported_def
        no_cpu_features_def ask_def Let_def word_less_nat_alt)
  then show ?thesis unfolding created_history_def by (metis prod.collapse)
qed

theorem session_leaks_nothing_witness:
  "\<exists>i sc h h'. reach session_start session_step (Some (i, sc), h) \<and> reach session_start session_step (None, h') \<and>
     acquired h = released h + impl_resources i \<and> acquired h' = released h'"
proof -
  have start: "reach session_start session_step (None, [])"
    by (rule reach_initial) (simp add: session_start_def)
  have opened: "reach session_start session_step (Some (new_impl example_config, new_scratch), created_history)"
    using reach_step [OF start session_step.create [OF example_create]] by simp
  obtain st res p h1 where pw: "prewarm example_host ascii_ctype (Some (new_impl example_config)) (Some example_request)
      (Some 88) created_history = (st, res, p, h1)" by (metis surj_pair)
  have inv: "provider_inv created_history (new_impl example_config)"
    using session.inv_reach [OF opened] by simp
  obtain i where i: "p = Some i" using prewarm_inv [OF inv pw] by blast
  have filled: "reach session_start session_step (Some (i, new_scratch), h1)"
    using reach_step [OF opened session_step.prewarm [OF pw, of new_scratch]] i by simp
  obtain st2 fin p2 h2 where rl: "host_release example_host (Some i) None h1 = (st2, fin, p2, h2)" by (metis surj_pair)
  then have "p2 = None" by (simp add: host_release_def)
  with reach_step [OF filled session_step.release [OF rl, of new_scratch]]
  have closed: "reach session_start session_step (None, h2)" by simp
  show ?thesis
    using session_leaks_nothing [OF closed] session_leaks_nothing [OF filled] closed filled by auto
qed

text \<open>
  The order of tasks that a dispatch of the worker pool produces is one that \<open>run\<close> is proved
  for: read off any reachable state in which \<open>parallel_for\<close> has returned, the executed indices are
  the task indices, each once.
\<close>

theorem pool_gives_dispatch_order:
  assumes "reach (\<lambda>s. s = new_pool) (pool_step limit) s" "calling s = Outside" "limit + kWorkers < 2 ^ 64"
  shows "dispatch_order (map (unat \<circ> snd) (rev (executed s))) (unat (task_count s))"
proof -
  have "pool_inv limit s" by (rule invariant_system.inv_reach [OF pool_system [OF assms(3)] assms(1)])
  then have ex: "mset (map snd (executed s)) = mset (map of_nat [0..<unat (task_count s)])"
    using assms(2) by (simp add: pool_inv_def)
  have "mset (map unat (map snd (executed s))) = mset (map unat (map (of_nat :: nat \<Rightarrow> u64) [0..<unat (task_count s)]))"
    unfolding mset_map [of unat] ex ..
  moreover have "map (unat \<circ> (of_nat :: nat \<Rightarrow> u64)) [0..<unat (task_count s)] = [0..<unat (task_count s)]"
  proof (rule map_idI)
    fix k assume "k \<in> set [0..<unat (task_count s)]"
    then have "k < 2 ^ 64" using unat_lt [of "task_count s"] by simp
    then show "(unat \<circ> (of_nat :: nat \<Rightarrow> u64)) k = k" by (simp add: unat_of_nat_small)
  qed
  ultimately show ?thesis
    by (simp add: dispatch_order_def rev_map [symmetric] del: mset_map upt_Suc)
qed

theorem pool_gives_dispatch_order_witness:
  "\<exists>s. reach (\<lambda>s. s = new_pool) (pool_step 4096) s \<and> dispatch_order (map (unat \<circ> snd) (rev (executed s))) 2"
proof -
  have "pool_inv 4096 example_dispatch"
    by (rule invariant_system.inv_reach [OF pool_system [OF example_facts(2)] example_reached])
  then obtain t where t: "pool_progress\<^sup>*\<^sup>* example_dispatch t" "calling t = Outside"
    using dispatch_reaches_return example_facts by blast
  have r: "reach (\<lambda>s. s = new_pool) (pool_step 4096) t"
    using example_reached t(1) by (rule progress_reach)
  have "task_count t = 2"
    using progress_keeps_task [OF t(1)] by (simp add: example_dispatch_def)
  with pool_gives_dispatch_order [OF r t(2) example_facts(2)] r show ?thesis by auto
qed

end
