(* ===== verification/Marker_Filter.thy ===== *)
theory Marker_Filter
  imports QRT_Prelude
begin

text \<open>
  The log filters of \<^verbatim>\<open>native/providers/whole_provider.cpp\<close>: stream buffers placed under \<open>std::cerr\<close>
  that let only the required (\<open>RequiredBatchMarkerStreambuf\<close>) or the service
  (\<open>ServiceCompactMarkerStreambuf\<close>) marker lines through, the buffer that holds all output of
  a decode back until its timing was taken (\<open>DecodeDeferredMarkerStreambuf\<close>), and the scope
  objects that install and remove them.

  A stream buffer is its state; what it writes to is a parameter, so that filters can be stacked.
\<close>

section \<open>Character sinks\<close>

text \<open>
  The contract of a stream buffer: writing a block is writing its characters one by one. Clients
  of \<open>std::cerr\<close> split their output into blocks as they like, and rely on it.
\<close>

locale char_sink =
  fixes put :: "char \<Rightarrow> 's \<Rightarrow> 's" and puts :: "string \<Rightarrow> 's \<Rightarrow> 's"
  assumes puts_put: "puts text s = foldl (\<lambda>s c. put c s) s text"
begin

lemma puts_append: "puts (xs @ ys) s = puts ys (puts xs s)"
  by (simp add: puts_put)

lemma puts_Nil: "puts [] s = s"
  by (simp add: puts_put)

lemma put_puts: "put c s = puts [c] s"
  by (simp add: puts_put)

lemma puts_chunks: "foldl (\<lambda>s chunk. puts chunk s) s chunks = puts (concat chunks) s"
  by (induction chunks arbitrary: s) (simp_all add: puts_append puts_Nil)

end

section \<open>Line filters\<close>

definition newline :: char where
  "newline = CHR 0x0A"

definition carriage_return :: char where
  "carriage_return = CHR 0x0D"

record 'd marker_streambuf =
  pending :: string
  downstream :: "'d option"

text \<open>The two functions of the buffer downstream that are called.\<close>

record 'd streambuf_ops =
  op_sputn :: "string \<Rightarrow> 'd \<Rightarrow> 'd"
  op_pubsync :: "'d \<Rightarrow> 'd"

definition emit_pending :: "'d streambuf_ops \<Rightarrow> (string \<Rightarrow> bool) \<Rightarrow> 'd marker_streambuf \<Rightarrow> 'd marker_streambuf" where
  "emit_pending ops keep s =
     (case downstream s of
        None \<Rightarrow> s\<lparr>pending := []\<rparr>
      | Some d \<Rightarrow>
          s\<lparr>pending := [],
            downstream := Some (if keep (pending s) then op_pubsync ops (op_sputn ops (pending s) d) else d)\<rparr>)"

text \<open>\<open>overflow\<close> of a character, \<open>None\<close> for the end-of-file value.\<close>

definition filter_overflow ::
  "'d streambuf_ops \<Rightarrow> (string \<Rightarrow> bool) \<Rightarrow> char option \<Rightarrow> 'd marker_streambuf \<Rightarrow> 'd marker_streambuf" where
  "filter_overflow ops keep value s =
     (case value of
        None \<Rightarrow> s
      | Some c \<Rightarrow>
          let s = s\<lparr>pending := pending s @ [c]\<rparr>
          in if last (pending s) = newline then emit_pending ops keep s else s)"

text \<open>\<open>std::memchr\<close>: the distance of the first occurrence.\<close>

fun memchr :: "char \<Rightarrow> string \<Rightarrow> nat option" where
  "memchr c [] = None"
| "memchr c (x # xs) = (if x = c then Some 0 else map_option Suc (memchr c xs))"

function filter_lines ::
  "'d streambuf_ops \<Rightarrow> (string \<Rightarrow> bool) \<Rightarrow> string \<Rightarrow> 'd marker_streambuf \<Rightarrow> 'd marker_streambuf" where
  "filter_lines ops keep cursor s =
     (if cursor = [] then s
      else
        (case memchr newline cursor of
           None \<Rightarrow> s\<lparr>pending := pending s @ cursor\<rparr>
         | Some n \<Rightarrow>
             filter_lines ops keep (drop (n + 1) cursor)
               (emit_pending ops keep (s\<lparr>pending := pending s @ take (n + 1) cursor\<rparr>))))"
  by pat_completeness auto
termination
  by (relation "measure (\<lambda>(ops, keep, cursor, s). length cursor)") auto

declare filter_lines.simps [simp del]

text \<open>\<open>xsputn\<close>: a null pointer or an empty block writes nothing; otherwise the count is returned.\<close>

definition filter_xsputn ::
  "'d streambuf_ops \<Rightarrow> (string \<Rightarrow> bool) \<Rightarrow> string option \<Rightarrow> 'd marker_streambuf \<Rightarrow> nat \<times> 'd marker_streambuf" where
  "filter_xsputn ops keep data s =
     (case data of
        None \<Rightarrow> (0, s)
      | Some text \<Rightarrow> if text = [] then (0, s) else (length text, filter_lines ops keep text s))"

definition filter_sync :: "'d marker_streambuf \<Rightarrow> 'd marker_streambuf" where
  "filter_sync s = s"

definition filter_finish :: "'d streambuf_ops \<Rightarrow> (string \<Rightarrow> bool) \<Rightarrow> 'd marker_streambuf \<Rightarrow> 'd marker_streambuf" where
  "filter_finish ops keep s =
     (let s = (if pending s \<noteq> [] then emit_pending ops keep s else s)
      in s\<lparr>downstream := map_option (op_pubsync ops) (downstream s)\<rparr>)"

section \<open>Which lines are kept\<close>

definition starts_with_marker :: "string \<Rightarrow> string \<Rightarrow> bool" where
  "starts_with_marker line marker \<longleftrightarrow>
     length line \<ge> length marker \<and> take (length marker) line = marker \<and>
     (length line = length marker \<or> line ! length marker = CHR '' '' \<or>
      line ! length marker = newline \<or> line ! length marker = carriage_return)"

text \<open>\<open>line.find(needle) != npos\<close>\<close>

fun contains :: "string \<Rightarrow> string \<Rightarrow> bool" where
  "contains needle [] = (needle = [])"
| "contains needle (x # xs) = (take (length needle) (x # xs) = needle \<or> contains needle xs)"

definition kRequiredMarkers :: "string list" where
  "kRequiredMarkers =
     [''BATCH_MARK full_attention_ck_compact_rope_table_create'',
      ''BATCH_MARK full_attention_ck_compact_rope_table_fallback'',
      ''BATCH_MARK full_attention_ck_compact_rope_table_release'',
      ''BATCH_MARK full_attention_ck_compact_rope_table_release_failed'',
      ''BATCH_MARK full_attention_ck_compact_rope_table_reuse'',
      ''BATCH_MARK layer39_fixed_attention_weights_activate'',
      ''BATCH_MARK layer39_fixed_attention_weights_fallback'',
      ''BATCH_MARK layer39_q1_kv8192_activate'',
      ''BATCH_MARK layer39_q1_kv8192_fallback'',
      ''BATCH_MARK layer39_q1_kv8192_prepared'',
      ''BATCH_MARK layer39_q1_kv8192_target_plan'',
      ''BATCH_MARK layer39_q1_selected_moe_compact_alias'',
      ''BATCH_MARK layer39_q4_kv8192_activate'',
      ''BATCH_MARK layer39_q4_kv8192_fallback'',
      ''BATCH_MARK layer39_q4_kv8192_prepared'',
      ''BATCH_MARK lm_head_hipblaslt_heuristic_activate'',
      ''BATCH_MARK continuous_long_context_lm_head_diagnostic'',
      ''BATCH_MARK qwen36_exact_arbitrary_lm_head_grouped_arbitration'',
      ''BATCH_MARK qwen36_exact_arbitrary_lm_head_grouped_arbitration_sweep'',
      ''BATCH_MARK qwen36_exact_arbitrary_lm_head_bf16_window_high_id'',
      ''BATCH_MARK qwen36_exact_arbitrary_lm_head_reference_topology'',
      ''BATCH_MARK qwen36_exact_arbitrary_lm_head_low_margin_inverse_f32'',
      ''BATCH_MARK qwen36_exact_arbitrary_lm_head_inverse_f32_sweep'',
      ''BATCH_MARK qwen36_exact_arbitrary_lm_head_probe'',
      ''BATCH_MARK qwen36_exact_arbitrary_lm_head_topk'',
      ''BATCH_MARK qwen36_retained_q8192_lm_head_inverse_f32'',
      ''BATCH_MARK q1_lm_head_w8a8_activate'',
      ''BATCH_MARK q1_lm_head_logits_hash_elided'',
      ''BATCH_MARK q1_packed_routed_kernel_activate'',
      ''BATCH_MARK q1_packed_routed_kernel_fallback'',
      ''BATCH_MARK q1_terminal_device_corridor_activate'',
      ''BATCH_MARK q1_terminal_device_corridor_fallback'',
      ''BATCH_MARK q1_terminal_device_corridor_final_norm_activate'',
      ''BATCH_MARK q1_terminal_device_corridor_final_norm_fallback'',
      ''BATCH_MARK q1_terminal_device_corridor_output_activate'',
      ''BATCH_MARK q1_terminal_device_corridor_output_fallback'',
      ''BATCH_MARK q1_terminal_device_corridor_workspace_preload'',
      ''BATCH_MARK qwen36_resident_decode_direct_output_plan_preload'',
      ''BATCH_MARK qwen36_resident_decode_direct_output_plan_activate'',
      ''BATCH_MARK qwen36_resident_decode_prebound_layer_plan_preload'',
      ''BATCH_MARK qwen36_resident_decode_prebound_layer_plan_activate'',
      ''BATCH_MARK qwen36_resident_decode_aggregate_run_metadata_preload'',
      ''BATCH_MARK required_marker_filter_activate'',
      ''BATCH_MARK qwen36_resident_decode_compact_corridors'',
      ''BATCH_MARK qwen36_resident_decode_activation_workspace_allocate'',
      ''BATCH_MARK qwen36_resident_decode_q1_gpu_profile'',
      ''BATCH_MARK qwen36_resident_decode_q1_moe_rocblas_prewarm'',
      ''BATCH_MARK qwen36_resident_shadow_transaction_begin'',
      ''BATCH_MARK qwen36_resident_shadow_transaction_commit'',
      ''BATCH_MARK qwen36_resident_shadow_transaction_rollback'',
      ''BATCH_MARK qwen36_q16_serial_transaction'',
      ''BATCH_MARK qwen36_q16_layer_major_target'',
      ''BATCH_MARK qwen36_q16_device_persistent_stack_probe'',
      ''BATCH_MARK qwen36_q16_device_persistent_second_tokens'',
      ''BATCH_MARK qwen36_q16_device_persistent_second_transaction'',
      ''BATCH_MARK qwen36_q16_device_persistent_distribution'',
      ''BATCH_MARK qwen36_q16_dflash_flag_snapshot'',
      ''BATCH_MARK qwen36_q16_layer_major_second_reference'',
      ''BATCH_MARK native_dflash_weight_store'',
      ''BATCH_MARK native_dflash_q8192_context_slice'',
      ''BATCH_MARK native_dflash_q8192_context_ready'',
      ''BATCH_MARK native_dflash_q8192_layer'',
      ''BATCH_MARK native_dflash_q8192_tokens'',
      ''BATCH_MARK native_dflash_q8192_probe'',
      ''BATCH_MARK native_dflash_q8192_round2_layer'',
      ''BATCH_MARK native_dflash_q8192_round2_tokens'',
      ''BATCH_MARK native_dflash_q8192_round2_probe'',
      ''BATCH_MARK native_dflash_probe_runtime_release'',
      ''BATCH_MARK qwen36_dflash_proposal_target'',
      ''BATCH_MARK qwen36_dflash_state_commit'',
      ''BATCH_MARK qwen36_dflash_decode_transaction'',
      ''BATCH_MARK qwen36_dflash_prefetched_decode'',
      ''BATCH_MARK qwen36_core_request_serialization_snapshot'',
      ''BATCH_MARK qwen36_resident_prefix_cache_concurrent_hit'',
      ''BATCH_MARK qwen36_resident_prefix_cache_concurrent_fallback'',
      ''BATCH_MARK qwen36_resident_prefix_thread_plan_ready'',
      ''BATCH_MARK qwen36_resident_request_thread_plan_ready'',
      ''BATCH_MARK exact_arbitrary_dynamic_ck_mask_sequence'',
      ''BATCH_MARK qwen36_whole_provider_thread_prepare'',
      ''BATCH_MARK qwen36_native_stream_concurrent'',
      ''BATCH_MARK qwen36_resident_prefix_cache_eviction'',
      ''BATCH_MARK q1_dense_w8a8_full_prepare'',
      ''BATCH_MARK q1_dense_packed_w6_full_prepare'',
      ''BATCH_MARK q1_moe_w8a8_full_prepare'',
      ''BATCH_MARK resident_bf16_matrix_capacity_prewarm'',
      ''BATCH_MARK q262144_matrix_plan_prewarm_shape'',
      ''BATCH_MARK q262144_activation_device_preload'',
      ''BATCH_MARK q262144_activation_managed_fallback'',
      ''BATCH_MARK q262144_activation_registered_fallback'',
      ''BATCH_MARK q262144_projection_chunk'',
      ''BATCH_MARK q262144_projection_workspace_release'',
      ''BATCH_MARK q262144_inplace_bf16_postconv'',
      ''BATCH_MARK q262144_linear_workspace_stage'',
      ''BATCH_MARK qwen36_mtp_prefill_target_hidden_capture'',
      ''BATCH_MARK qwen36_whole_provider_endpoint_contract'',
      ''BATCH_MARK qwen36_whole_provider_resident_session'',
      ''BATCH_MARK qwen36_whole_provider_surfaces'']"

definition kFailureIndicators :: "string list" where
  "kFailureIndicators =
     [''failed'',
      ''failure'',
      ''fallback'',
      ''rejected'',
      ''invalid'',
      ''missing'',
      ''status=fail'',
      ''state=failed'',
      ''pass=0'',
      ''ok=false'',
      ''completed=false'',
      ''correctness=0'',
      ''correctness_pass=false'']"

definition is_batch_mark :: "string \<Rightarrow> bool" where
  "is_batch_mark line \<longleftrightarrow> take 11 line = ''BATCH_MARK ''"

definition required_keep_line :: "string \<Rightarrow> bool" where
  "required_keep_line line \<longleftrightarrow>
     \<not> is_batch_mark line \<or> list_ex (starts_with_marker line) kRequiredMarkers \<or>
     list_ex (\<lambda>indicator. contains indicator line) kFailureIndicators"

definition kServiceMarkers :: "string list" where
  "kServiceMarkers =
     [''BATCH_MARK qwen36_resident_prefix_cache_request'',
      ''BATCH_MARK qwen36_resident_prefix_thread_plan_ready'',
      ''BATCH_MARK qwen36_resident_shadow_transaction_begin'',
      ''BATCH_MARK qwen36_resident_shadow_transaction_commit'',
      ''BATCH_MARK qwen36_resident_shadow_transaction_rollback'',
      ''BATCH_MARK qwen36_prefix_q1_frontier'',
      ''BATCH_MARK qwen36_exact_low_margin_prefill_verify'',
      ''BATCH_MARK required_marker_filter_activate'',
      ''BATCH_MARK qwen36_whole_provider_endpoint_contract'',
      ''BATCH_MARK qwen36_whole_provider_resident_session'',
      ''BATCH_MARK qwen36_whole_provider_surfaces'']"

definition kFailureFields :: "string list" where
  "kFailureFields =
     ['' pass=0'',
      '' failed=1'',
      '' failure=1'',
      '' status=fail'',
      '' state=failed'',
      '' completed=0'',
      '' ok=false'']"

definition service_keep_line :: "string \<Rightarrow> bool" where
  "service_keep_line line \<longleftrightarrow>
     \<not> is_batch_mark line \<or> list_ex (starts_with_marker line) kServiceMarkers \<or>
     list_ex (\<lambda>field. contains field line) kFailureFields"

text \<open>\<open>ServiceCompactMarkerStreambuf\<close> has the functions of the other filter, with its own lines.\<close>

definition service_overflow where
  "service_overflow ops = filter_overflow ops service_keep_line"

definition service_xsputn where
  "service_xsputn ops = filter_xsputn ops service_keep_line"

definition service_finish where
  "service_finish ops = filter_finish ops service_keep_line"

section \<open>The deferred buffer\<close>

record deferred_streambuf =
  captured :: string
  expected_capacity :: nat
  line_count :: nat
  sync_count :: nat
  expected_capacity_exceeded :: bool

definition new_deferred :: "nat \<Rightarrow> deferred_streambuf" where
  "new_deferred reserve_bytes = \<lparr>captured = [], expected_capacity = reserve_bytes, line_count = 0,
     sync_count = 0, expected_capacity_exceeded = False\<rparr>"

definition deferred_overflow :: "char option \<Rightarrow> deferred_streambuf \<Rightarrow> deferred_streambuf" where
  "deferred_overflow value s =
     (case value of
        None \<Rightarrow> s
      | Some c \<Rightarrow>
          let s = s\<lparr>captured := captured s @ [c]\<rparr>;
              s = (if c = newline then s\<lparr>line_count := line_count s + 1\<rparr> else s)
          in if length (captured s) > expected_capacity s then s\<lparr>expected_capacity_exceeded := True\<rparr> else s)"

definition deferred_xsputn :: "string option \<Rightarrow> deferred_streambuf \<Rightarrow> nat \<times> deferred_streambuf" where
  "deferred_xsputn data s =
     (case data of
        None \<Rightarrow> (0, s)
      | Some text \<Rightarrow>
          if text = [] then (0, s)
          else
            let s = s\<lparr>captured := captured s @ text, line_count := line_count s + count_list text newline\<rparr>
            in (length text,
                if length (captured s) > expected_capacity s then s\<lparr>expected_capacity_exceeded := True\<rparr> else s))"

definition deferred_sync :: "deferred_streambuf \<Rightarrow> deferred_streambuf" where
  "deferred_sync s = s\<lparr>sync_count := sync_count s + 1\<rparr>"

section \<open>Scopes\<close>

text \<open>
  The fields of \<open>std::cerr\<close> that the scopes save and restore; buffers and streams are identified by
  their addresses, 0 for null.
\<close>

record cerr_state =
  cerr_rdbuf :: nat
  cerr_tie :: nat
  cerr_unitbuf :: bool

text \<open>\<open>ScopedDecodeDeferredMarkerBuffer\<close>.\<close>

record deferred_scope =
  previous :: nat
  previous_tie :: nat
  previous_unitbuf :: bool
  buffer :: "deferred_streambuf option"
  reserve_bytes :: nat
  active :: bool

definition deferred_scope_begin :: "bool \<Rightarrow> u32 \<Rightarrow> nat \<Rightarrow> cerr_state \<Rightarrow> deferred_scope \<times> cerr_state" where
  "deferred_scope_begin enabled output_token_capacity own cerr =
     (let scope = \<lparr>previous = 0, previous_tie = 0, previous_unitbuf = False, buffer = None, reserve_bytes = 0, active = False\<rparr>
      in if \<not> enabled then (scope, cerr)
         else
           let reserve = 320 * 1024 + unat output_token_capacity * 640 * 1024
           in (scope\<lparr>previous := cerr_rdbuf cerr, previous_tie := cerr_tie cerr, previous_unitbuf := cerr_unitbuf cerr,
                     buffer := Some (new_deferred reserve), reserve_bytes := reserve, active := True\<rparr>,
               \<lparr>cerr_rdbuf = own, cerr_tie = 0, cerr_unitbuf = False\<rparr>))"

definition deferred_proof :: "deferred_streambuf \<Rightarrow> nat \<Rightarrow> string \<Rightarrow> string" where
  "deferred_proof b reserve flush_phase =
     ''BATCH_MARK qwen36_resident_decode_deferred_marker_buffer'' @ '' requested=1 active=1'' @
     '' captured_lines='' @ decimal (line_count b) @ '' captured_bytes='' @ decimal (length (captured b)) @
     '' captured_sync_calls='' @ decimal (sync_count b) @ '' reserved_bytes='' @ decimal reserve @
     '' unitbuf_suppressed=1 stdout_tie_suppressed=1'' @ '' downstream_sputn_calls=1 downstream_sync_calls=1'' @
     '' flush_phase='' @ flush_phase @ '' expected_capacity_exceeded='' @
     (if expected_capacity_exceeded b then ''1'' else ''0'') @ '' numerical_correctness_claimed=0'' @ [newline]"

definition deferred_scope_finish ::
  "'d streambuf_ops \<Rightarrow> string \<Rightarrow> deferred_scope \<Rightarrow> cerr_state \<Rightarrow> 'd \<Rightarrow> deferred_scope \<times> cerr_state \<times> 'd" where
  "deferred_scope_finish ops flush_phase scope cerr d =
     (case buffer scope of
        None \<Rightarrow> (scope, cerr, d)
      | Some b \<Rightarrow>
          if \<not> active scope then (scope, cerr, d)
          else
            let payload = captured b @ deferred_proof b (reserve_bytes scope) flush_phase
            in (scope\<lparr>active := False, buffer := None\<rparr>,
                \<lparr>cerr_rdbuf = previous scope, cerr_tie = previous_tie scope, cerr_unitbuf = previous_unitbuf scope\<rparr>,
                if previous scope \<noteq> 0 then op_pubsync ops (op_sputn ops payload d) else d))"

text \<open>\<open>ScopedRequiredBatchMarkerFilter\<close>: its first output is its own activation line.\<close>

record 'd filter_scope =
  f_previous :: nat
  f_filter :: "'d marker_streambuf option"
  f_active :: bool

definition activation_pieces :: "string list" where
  "activation_pieces = [''BATCH_MARK required_marker_filter_activate'', '' mode=required'', '' scope=qwen36_whole_provider_inference'']"

definition required_scope_begin ::
  "'d streambuf_ops \<Rightarrow> bool \<Rightarrow> nat \<Rightarrow> 'd option \<Rightarrow> cerr_state \<Rightarrow> 'd filter_scope \<times> cerr_state" where
  "required_scope_begin ops enabled own d cerr =
     (if \<not> enabled then (\<lparr>f_previous = 0, f_filter = None, f_active = False\<rparr>, cerr)
      else
        let f = \<lparr>pending = [], downstream = d\<rparr>;
            f = foldl (\<lambda>f piece. snd (filter_xsputn ops required_keep_line (Some piece) f)) f activation_pieces;
            f = filter_sync (filter_overflow ops required_keep_line (Some newline) f)
        in (\<lparr>f_previous = cerr_rdbuf cerr, f_filter = Some f, f_active = True\<rparr>, cerr\<lparr>cerr_rdbuf := own\<rparr>))"

definition required_scope_end ::
  "'d streambuf_ops \<Rightarrow> 'd filter_scope \<Rightarrow> cerr_state \<Rightarrow> 'd option \<times> cerr_state" where
  "required_scope_end ops scope cerr =
     (case f_filter scope of
        None \<Rightarrow> (None, cerr)
      | Some f \<Rightarrow>
          if \<not> f_active scope then (None, cerr)
          else (downstream (filter_finish ops required_keep_line f), cerr\<lparr>cerr_rdbuf := f_previous scope\<rparr>))"

text \<open>\<open>ScopedQwen36ServiceCompactLogFilter\<close>, which writes nothing itself.\<close>

definition service_scope_begin :: "bool \<Rightarrow> nat \<Rightarrow> 'd option \<Rightarrow> cerr_state \<Rightarrow> 'd filter_scope \<times> cerr_state" where
  "service_scope_begin enabled own d cerr =
     (if \<not> enabled then (\<lparr>f_previous = 0, f_filter = None, f_active = False\<rparr>, cerr)
      else (\<lparr>f_previous = cerr_rdbuf cerr, f_filter = Some \<lparr>pending = [], downstream = d\<rparr>, f_active = True\<rparr>,
            cerr\<lparr>cerr_rdbuf := own\<rparr>))"

definition service_scope_end ::
  "'d streambuf_ops \<Rightarrow> 'd filter_scope \<Rightarrow> cerr_state \<Rightarrow> 'd option \<times> cerr_state" where
  "service_scope_end ops scope cerr =
     (case f_filter scope of
        None \<Rightarrow> (None, cerr)
      | Some f \<Rightarrow>
          if \<not> f_active scope then (None, cerr)
          else (downstream (service_finish ops f), cerr\<lparr>cerr_rdbuf := f_previous scope\<rparr>))"

section \<open>Writing blocks and characters\<close>

lemma memchr_None: "memchr c xs = None \<longleftrightarrow> c \<notin> set xs"
  by (induction xs) auto

lemma memchr_Some: "memchr c xs = Some n \<Longrightarrow> n < length xs \<and> xs ! n = c \<and> c \<notin> set (take n xs)"
  by (induction xs arbitrary: n) (auto split: if_splits)

lemma overflow_plain:
  "c \<noteq> newline \<Longrightarrow> filter_overflow ops keep (Some c) s = s\<lparr>pending := pending s @ [c]\<rparr>"
  "filter_overflow ops keep (Some newline) s = emit_pending ops keep (s\<lparr>pending := pending s @ [newline]\<rparr>)"
  by (simp_all add: filter_overflow_def Let_def)

lemma overflow_block:
  "newline \<notin> set xs \<Longrightarrow> foldl (\<lambda>s c. filter_overflow ops keep (Some c) s) s xs = s\<lparr>pending := pending s @ xs\<rparr>"
  by (induction xs arbitrary: s) (auto simp: overflow_plain)

lemma filter_lines_overflow:
  "filter_lines ops keep text s = foldl (\<lambda>s c. filter_overflow ops keep (Some c) s) s text"
proof (induction ops keep "text" s rule: filter_lines.induct)
  case (1 ops keep body s)
  let ?ov = "\<lambda>s c. filter_overflow ops keep (Some c) s"
  show ?case
  proof (cases "memchr newline body")
    case None
    moreover have "newline \<notin> set body" using None by (simp add: memchr_None)
    ultimately show ?thesis by (subst filter_lines.simps) (simp add: overflow_block)
  next
    case (Some n)
    note n = memchr_Some [OF Some]
    let ?s = "emit_pending ops keep (s\<lparr>pending := pending s @ take (n + 1) body\<rparr>)"
    have ne: "body \<noteq> []" using n by auto
    have take: "take (n + 1) body = take n body @ [newline]" using n by (simp add: take_Suc_conv_app_nth)
    have "foldl ?ov s (take (n + 1) body) = ?s"
      unfolding take foldl_append using n by (simp add: overflow_block overflow_plain)
    then have "foldl ?ov s (take (n + 1) body @ drop (n + 1) body) = filter_lines ops keep (drop (n + 1) body) ?s"
      unfolding foldl_append using "1.IH" [OF ne Some] by simp
    then show ?thesis using ne Some by (subst filter_lines.simps) (simp del: take_Suc)
  qed
qed

definition filter_puts ::
  "'d streambuf_ops \<Rightarrow> (string \<Rightarrow> bool) \<Rightarrow> string \<Rightarrow> 'd marker_streambuf \<Rightarrow> 'd marker_streambuf" where
  "filter_puts ops keep text s = snd (filter_xsputn ops keep (Some text) s)"

lemma filter_puts_lines: "filter_puts ops keep text s = filter_lines ops keep text s"
  by (simp add: filter_puts_def filter_xsputn_def) (subst filter_lines.simps, simp)

interpretation line_filter: char_sink "\<lambda>c. filter_overflow ops keep (Some c)" "filter_puts ops keep" for ops keep
  by unfold_locales (simp add: filter_puts_lines filter_lines_overflow)

definition deferred_puts :: "string \<Rightarrow> deferred_streambuf \<Rightarrow> deferred_streambuf" where
  "deferred_puts text s = snd (deferred_xsputn (Some text) s)"

text \<open>The flag of the deferred buffer says whether the reservation was ever exceeded.\<close>

lemma deferred_overflow_puts:
  "foldl (\<lambda>s c. deferred_overflow (Some c) s) s (text @ [c]) = deferred_overflow (Some c) (foldl (\<lambda>s c. deferred_overflow (Some c) s) s text)"
  by simp

lemma deferred_puts_overflow: "deferred_puts text s = foldl (\<lambda>s c. deferred_overflow (Some c) s) s text"
proof (induction "text" rule: rev_induct)
  case Nil
  show ?case by (simp add: deferred_puts_def deferred_xsputn_def)
next
  case (snoc c body)
  show ?case
    unfolding deferred_overflow_puts snoc [symmetric]
    by (cases "body = []")
      (auto simp: deferred_puts_def deferred_xsputn_def deferred_overflow_def Let_def)
qed

interpretation deferred: char_sink "\<lambda>c. deferred_overflow (Some c)" deferred_puts
  by unfold_locales (rule deferred_puts_overflow)

section \<open>Lines\<close>

text \<open>The complete lines of a text after an already read prefix of a line, and the incomplete rest.\<close>

fun lines_from :: "string \<Rightarrow> string \<Rightarrow> string list \<times> string" where
  "lines_from acc [] = ([], acc)"
| "lines_from acc (c # cs) =
     (if c = newline then (let (ls, r) = lines_from [] cs in ((acc @ [c]) # ls, r)) else lines_from (acc @ [c]) cs)"

definition all_lines :: "string \<Rightarrow> string list" where
  "all_lines text = (let (ls, r) = lines_from [] text in if r = [] then ls else ls @ [r])"

definition complete_line :: "string \<Rightarrow> bool" where
  "complete_line l \<longleftrightarrow> (\<exists>xs. l = xs @ [newline] \<and> newline \<notin> set xs)"

lemma lines_from_spec:
  assumes "lines_from acc text = (ls, r)" "newline \<notin> set acc"
  shows "concat ls @ r = acc @ text \<and> (\<forall>l \<in> set ls. complete_line l) \<and> newline \<notin> set r"
  using assms
proof (induction acc "text" arbitrary: ls r rule: lines_from.induct)
  case (2 acc c cs)
  show ?case
  proof (cases "c = newline")
    case True
    obtain ls' r' where "lines_from [] cs = (ls', r')" by fastforce
    with True "2.prems" "2.IH"(1) [OF True this] show ?thesis by (auto simp: complete_line_def)
  next
    case False
    with "2.prems" "2.IH"(2) [OF False] show ?thesis by simp
  qed
qed simp

lemma lines_from_append:
  "newline \<notin> set xs \<Longrightarrow> lines_from acc (xs @ ys) = lines_from (acc @ xs) ys"
  by (induction xs arbitrary: acc) auto

lemma lines_from_concat:
  assumes "\<forall>l \<in> set ls. complete_line l" "newline \<notin> set r"
  shows "lines_from [] (concat ls @ r) = (ls, r)"
  using assms(1)
proof (induction ls)
  case Nil
  show ?case using lines_from_append [OF assms(2), of "[]" "[]"] by simp
next
  case (Cons l ls)
  obtain xs where xs: "l = xs @ [newline]" "newline \<notin> set xs" using Cons.prems by (auto simp: complete_line_def)
  have "lines_from [] (l @ concat ls @ r) = lines_from xs (newline # concat ls @ r)"
    using lines_from_append [OF xs(2), of "[]"] by (simp add: xs(1))
  with Cons xs show ?case by simp
qed

lemma concat_all_lines: "concat (all_lines text) = text"
proof -
  obtain ls r where "lines_from [] text = (ls, r)" by fastforce
  with lines_from_spec [OF this] show ?thesis by (auto simp: all_lines_def)
qed

text \<open>Dropping lines leaves the lines that are kept as they are.\<close>

lemma all_lines_filter: "all_lines (concat (filter keep (all_lines text))) = filter keep (all_lines text)"
proof -
  obtain ls r where l: "lines_from [] text = (ls, r)" by fastforce
  note S = lines_from_spec [OF l]
  define r' where "r' = (if r \<noteq> [] \<and> keep r then r else [])"
  have "concat (filter keep (all_lines text)) = concat (filter keep ls) @ r'"
    by (simp add: all_lines_def l r'_def)
  moreover have "lines_from [] (concat (filter keep ls) @ r') = (filter keep ls, r')"
    using S by (intro lines_from_concat) (auto simp: r'_def)
  ultimately show ?thesis by (simp add: all_lines_def l r'_def)
qed

section \<open>What a filter passes on\<close>

definition deliver :: "'d streambuf_ops \<Rightarrow> (string \<Rightarrow> bool) \<Rightarrow> string list \<Rightarrow> 'd \<Rightarrow> 'd" where
  "deliver ops keep ls d = foldl (\<lambda>d l. if keep l then op_pubsync ops (op_sputn ops l d) else d) d ls"

lemma filter_puts_deliver:
  assumes "lines_from acc text = (ls, r)"
  shows "filter_puts ops keep text \<lparr>pending = acc, downstream = Some d\<rparr> =
    \<lparr>pending = r, downstream = Some (deliver ops keep ls d)\<rparr>"
  unfolding line_filter.puts_put using assms
proof (induction acc "text" arbitrary: ls r d rule: lines_from.induct)
  case (1 acc)
  then show ?case by (simp add: deliver_def)
next
  case (2 acc c cs)
  show ?case
  proof (cases "c = newline")
    case True
    obtain ls' r' where l: "lines_from [] cs = (ls', r')" by fastforce
    have emit: "filter_overflow ops keep (Some c) \<lparr>pending = acc, downstream = Some d\<rparr> =
        \<lparr>pending = [], downstream = Some (if keep (acc @ [c]) then op_pubsync ops (op_sputn ops (acc @ [c]) d) else d)\<rparr>"
      by (simp add: True overflow_plain emit_pending_def)
    show ?thesis
      using "2.IH"(1) [OF True l] "2.prems" True l emit by (auto simp: deliver_def)
  next
    case False
    then show ?thesis using "2.IH"(2) [OF False] "2.prems" by (simp add: overflow_plain)
  qed
qed

lemma filter_finish_deliver:
  "filter_finish ops keep (filter_puts ops keep text \<lparr>pending = [], downstream = Some d\<rparr>) =
    \<lparr>pending = [], downstream = Some (op_pubsync ops (deliver ops keep (all_lines text) d))\<rparr>"
proof -
  obtain ls r where l: "lines_from [] text = (ls, r)" by fastforce
  show ?thesis
    unfolding filter_puts_deliver [OF l]
    by (simp add: filter_finish_def emit_pending_def all_lines_def l deliver_def)
qed

text \<open>The terminal, as the sequence of calls it receives, and the text it shows.\<close>

datatype sink_event = Sputn string | Pubsync

definition terminal :: "sink_event list streambuf_ops" where
  "terminal = \<lparr>op_sputn = (\<lambda>text es. es @ [Sputn text]), op_pubsync = (\<lambda>es. es @ [Pubsync])\<rparr>"

fun shown :: "sink_event list \<Rightarrow> string" where
  "shown [] = []"
| "shown (Sputn text # es) = text @ shown es"
| "shown (Pubsync # es) = shown es"

lemma shown_append [simp]: "shown (xs @ ys) = shown xs @ shown ys"
  by (induction xs rule: shown.induct) simp_all

lemma shown_deliver: "shown (deliver terminal keep ls es) = shown es @ concat (filter keep ls)"
  by (induction ls arbitrary: es) (simp_all add: deliver_def terminal_def)

section \<open>Properties\<close>

text \<open>
  How the output is cut into blocks does not matter: both line filters and the deferred buffer
  end in the same state, and have passed the same lines on, whether a text is written in one block, in
  many, or character by character.
\<close>

theorem filter_output_chunk_independent:
  "foldl (\<lambda>s chunk. snd (filter_xsputn ops keep (Some chunk) s)) s chunks =
     foldl (\<lambda>s c. filter_overflow ops keep (Some c) s) s (concat chunks)
   \<and> snd (filter_xsputn ops keep (Some (concat chunks)) s) =
     foldl (\<lambda>s c. filter_overflow ops keep (Some c) s) s (concat chunks)
   \<and> foldl (\<lambda>b chunk. snd (deferred_xsputn (Some chunk) b)) b chunks =
     foldl (\<lambda>b c. deferred_overflow (Some c) b) b (concat chunks)"
  using line_filter.puts_chunks [of ops keep s chunks] line_filter.puts_put [of ops keep "concat chunks" s]
    deferred.puts_chunks [of b chunks] deferred.puts_put [of "concat chunks" b]
  unfolding filter_puts_def deferred_puts_def by simp

definition activation_line :: string where
  "activation_line = concat activation_pieces @ [newline]"

lemma activation_line_kept: "required_keep_line activation_line"
proof -
  have "''BATCH_MARK required_marker_filter_activate'' \<in> set kRequiredMarkers"
    by (simp add: kRequiredMarkers_def)
  moreover have "starts_with_marker activation_line ''BATCH_MARK required_marker_filter_activate''"
    by (simp add: starts_with_marker_def activation_line_def activation_pieces_def)
  ultimately show ?thesis by (auto simp: required_keep_line_def list_ex_iff)
qed

lemma activation_line_complete: "lines_from [] activation_line = ([activation_line], [])"
proof -
  have "newline \<notin> set (concat activation_pieces)" by (simp add: activation_pieces_def newline_def)
  then have "complete_line activation_line" by (auto simp: complete_line_def activation_line_def)
  then show ?thesis using lines_from_concat [of "[activation_line]" "[]"] by simp
qed

text \<open>
  While the required-marker filter is installed, the terminal shows the activation line and then
  exactly those lines of everything written to \<open>std::cerr\<close> that are to be kept, complete, in order and
  once, the last line also when it does not end; lines that are no marker and markers that
  report a failure are among them by definition. Removing the filter restores \<open>std::cerr\<close>.
\<close>

theorem required_scope_shows:
  assumes "required_scope_begin terminal True own (Some es) cerr = (scope, cerr1)" "f_filter scope = Some f"
    and "required_scope_end terminal
      (scope\<lparr>f_filter := Some (foldl (\<lambda>f chunk. snd (filter_xsputn terminal required_keep_line (Some chunk) f)) f chunks)\<rparr>)
      cerr1 = (d, cerr2)"
  shows "cerr_rdbuf cerr1 = own \<and> cerr2 = cerr \<and>
    map_option shown d = Some (shown es @ activation_line @ concat (filter required_keep_line (all_lines (concat chunks))))"
proof -
  let ?puts = "filter_puts terminal required_keep_line"
  let ?es = "deliver terminal required_keep_line [activation_line] es"
  have "f = ?puts [newline] (?puts (concat activation_pieces) \<lparr>pending = [], downstream = Some es\<rparr>)"
    using assms(1,2)
    unfolding required_scope_begin_def Let_def filter_sync_def filter_puts_def [symmetric] line_filter.puts_chunks
    by (auto simp: line_filter.put_puts)
  then have "f = ?puts activation_line \<lparr>pending = [], downstream = Some es\<rparr>"
    by (simp add: activation_line_def line_filter.puts_append)
  then have f: "f = \<lparr>pending = [], downstream = Some ?es\<rparr>"
    using filter_puts_deliver [OF activation_line_complete] by simp
  have "shown ?es = shown es @ activation_line"
    using activation_line_kept by (simp add: shown_deliver)
  moreover have "foldl (\<lambda>f chunk. snd (filter_xsputn terminal required_keep_line (Some chunk) f)) f chunks = ?puts (concat chunks) f"
    unfolding filter_puts_def [symmetric] by (rule line_filter.puts_chunks)
  moreover have "f_active scope" "f_previous scope = cerr_rdbuf cerr" "cerr1 = cerr\<lparr>cerr_rdbuf := own\<rparr>"
    using assms(1) by (auto simp: required_scope_begin_def Let_def)
  ultimately show ?thesis
    using assms(3) filter_finish_deliver [of terminal required_keep_line "concat chunks" ?es]
    by (auto simp: required_scope_end_def f shown_deliver) (simp_all add: terminal_def shown_deliver [unfolded terminal_def])
qed

theorem required_scope_shows_witness:
  "\<exists>scope cerr1 f d cerr2.
     required_scope_begin terminal True 7 (Some []) \<lparr>cerr_rdbuf = 3, cerr_tie = 0, cerr_unitbuf = True\<rparr> = (scope, cerr1) \<and>
     f_filter scope = Some f \<and>
     required_scope_end terminal
       (scope\<lparr>f_filter := Some (foldl (\<lambda>f chunk. snd (filter_xsputn terminal required_keep_line (Some chunk) f)) f [''he'', ''llo''])\<rparr>)
       cerr1 = (d, cerr2) \<and>
     cerr_rdbuf cerr2 = 3 \<and> map_option shown d = Some (activation_line @ ''hello'')"
proof -
  let ?cerr = "\<lparr>cerr_rdbuf = 3, cerr_tie = 0, cerr_unitbuf = True\<rparr>"
  obtain scope cerr1 where b: "required_scope_begin terminal True 7 (Some []) ?cerr = (scope, cerr1)" by fastforce
  then obtain f where f: "f_filter scope = Some f" by (auto simp: required_scope_begin_def Let_def)
  obtain d cerr2 where e: "required_scope_end terminal
       (scope\<lparr>f_filter := Some (foldl (\<lambda>f chunk. snd (filter_xsputn terminal required_keep_line (Some chunk) f)) f [''he'', ''llo''])\<rparr>)
       cerr1 = (d, cerr2)" by fastforce
  have "concat (filter required_keep_line (all_lines (concat [''he'', ''llo'']))) = ''hello''"
    by (simp add: all_lines_def newline_def required_keep_line_def is_batch_mark_def)
  with required_scope_shows [OF b f e] b f e show ?thesis by auto
qed

text \<open>The service filter as the buffer below another one.\<close>

definition service_below :: "sink_event list marker_streambuf streambuf_ops" where
  "service_below = \<lparr>op_sputn = (\<lambda>text f. snd (service_xsputn terminal (Some text) f)), op_pubsync = filter_sync\<rparr>"

lemma deliver_below:
  "deliver service_below keep ls f = filter_puts terminal service_keep_line (concat (filter keep ls)) f"
proof (induction ls arbitrary: f)
  case Nil
  show ?case by (simp add: deliver_def line_filter.puts_Nil)
next
  case (Cons l ls)
  have "deliver service_below keep (l # ls) f =
      deliver service_below keep ls (if keep l then filter_puts terminal service_keep_line l f else f)"
    by (simp add: deliver_def service_below_def filter_sync_def service_xsputn_def filter_puts_def)
  then show ?case using Cons by (simp add: line_filter.puts_append)
qed

text \<open>
  C35. Filters can be stacked. With the required-marker filter installed on top of the service filter,
  as a whole-provider call made from the service path does, the terminal shows exactly the lines that
  both keep, although the lower filter sees the text already filtered and cut into other blocks.
\<close>

theorem stacked_filters_conjoin:
  "map_option shown (downstream (service_finish terminal (the (downstream
     (filter_finish service_below required_keep_line
       (foldl (\<lambda>f chunk. snd (filter_xsputn service_below required_keep_line (Some chunk) f))
         \<lparr>pending = [], downstream = Some \<lparr>pending = [], downstream = Some es\<rparr>\<rparr> chunks)))))) =
   Some (shown es @ concat (filter (\<lambda>l. required_keep_line l \<and> service_keep_line l) (all_lines (concat chunks))))"
proof -
  let ?lines = "filter required_keep_line (all_lines (concat chunks))"
  have "filter_finish service_below required_keep_line (foldl (\<lambda>f chunk. snd (filter_xsputn service_below required_keep_line (Some chunk) f))
         \<lparr>pending = [], downstream = Some \<lparr>pending = [], downstream = Some es\<rparr>\<rparr> chunks) =
      \<lparr>pending = [], downstream = Some (filter_puts terminal service_keep_line (concat ?lines) \<lparr>pending = [], downstream = Some es\<rparr>)\<rparr>"
    unfolding filter_puts_def [symmetric, of service_below] line_filter.puts_chunks filter_finish_deliver deliver_below
    by (simp add: service_below_def filter_sync_def)
  moreover have "map_option shown (downstream (filter_finish terminal service_keep_line
      (filter_puts terminal service_keep_line (concat ?lines) \<lparr>pending = [], downstream = Some es\<rparr>))) =
      Some (shown es @ concat (filter service_keep_line ?lines))"
    unfolding filter_finish_deliver all_lines_filter
    by (simp add: terminal_def shown_deliver [unfolded terminal_def])
  ultimately show ?thesis by (simp add: service_finish_def conj_commute)
qed

lemma deferred_puts_state:
  "captured (deferred_puts text b) = captured b @ text"
  "line_count (deferred_puts text b) = line_count b + count_list text newline"
  "sync_count (deferred_puts text b) = sync_count b"
  "expected_capacity (deferred_puts text b) = expected_capacity b"
  "(expected_capacity_exceeded b \<longleftrightarrow> length (captured b) > expected_capacity b) \<Longrightarrow>
   expected_capacity_exceeded (deferred_puts text b) \<longleftrightarrow> length (captured b @ text) > expected_capacity b"
  by (auto simp: deferred_puts_def deferred_xsputn_def Let_def)

text \<open>
  The deferred buffer is transparent. When its scope ends, the terminal has received, in one
  write followed by one flush, everything that was written to \<open>std::cerr\<close> in between, followed by the
  proof line, whose counts are those of that text and whose flag says whether it was longer
  than the reservation; \<open>std::cerr\<close> has its buffer, tie and flags back; and ending the scope again, as the
  destructor does after an explicit end, does nothing.
\<close>

theorem deferred_scope_transparent:
  assumes "deferred_scope_begin True capacity own cerr = (scope, cerr1)" "buffer scope = Some b" "cerr_rdbuf cerr \<noteq> 0"
    and "deferred_scope_finish terminal phase
      (scope\<lparr>buffer := Some (foldl (\<lambda>b chunk. snd (deferred_xsputn (Some chunk) b)) b chunks)\<rparr>) cerr1 es = (scope', cerr2, es')"
  shows "cerr2 = cerr \<and> deferred_scope_finish terminal phase2 scope' cerr2 es' = (scope', cerr2, es') \<and>
    (\<exists>b'. es' = es @ [Sputn (concat chunks @ deferred_proof b' (reserve_bytes scope) phase), Pubsync] \<and>
      captured b' = concat chunks \<and> line_count b' = count_list (concat chunks) newline \<and>
      reserve_bytes scope = 327680 + unat capacity * 655360 \<and>
      (expected_capacity_exceeded b' \<longleftrightarrow> length (concat chunks) > reserve_bytes scope))"
proof -
  let ?b' = "deferred_puts (concat chunks) b"
  have scope: "b = new_deferred (reserve_bytes scope)" "active scope" "previous scope = cerr_rdbuf cerr"
    "previous_tie scope = cerr_tie cerr" "previous_unitbuf scope = cerr_unitbuf cerr"
    "reserve_bytes scope = 327680 + unat capacity * 655360"
    using assms(1,2) by (auto simp: deferred_scope_begin_def Let_def)
  have chunks: "foldl (\<lambda>b chunk. snd (deferred_xsputn (Some chunk) b)) b chunks = ?b'"
    unfolding deferred_puts_def [symmetric] by (rule deferred.puts_chunks)
  have finish: "cerr2 = cerr" "es' = es @ [Sputn (captured ?b' @ deferred_proof ?b' (reserve_bytes scope) phase), Pubsync]"
    "buffer scope' = None"
    using assms(3,4) scope(2-5) unfolding chunks by (auto simp: deferred_scope_finish_def Let_def terminal_def)
  moreover have "captured ?b' = concat chunks" "line_count ?b' = count_list (concat chunks) newline"
    "expected_capacity_exceeded ?b' \<longleftrightarrow> length (concat chunks) > reserve_bytes scope"
    by (simp_all add: deferred_puts_state scope(1) new_deferred_def)
  ultimately show ?thesis using scope(6) by (auto simp: deferred_scope_finish_def)
qed

theorem deferred_scope_transparent_witness:
  "\<exists>scope cerr1 b scope' cerr2 es'.
     deferred_scope_begin True 5 7 \<lparr>cerr_rdbuf = 3, cerr_tie = 4, cerr_unitbuf = True\<rparr> = (scope, cerr1) \<and> buffer scope = Some b \<and>
     deferred_scope_finish terminal ''early_return''
       (scope\<lparr>buffer := Some (foldl (\<lambda>b chunk. snd (deferred_xsputn (Some chunk) b)) b [''one'', [newline]])\<rparr>) cerr1 [] = (scope', cerr2, es') \<and>
     cerr_tie cerr2 = 4 \<and> (\<exists>b'. es' = [Sputn (''one'' @ [newline] @ deferred_proof b' 3604480 ''early_return''), Pubsync] \<and> line_count b' = 1)"
proof -
  let ?cerr = "\<lparr>cerr_rdbuf = 3, cerr_tie = 4, cerr_unitbuf = True\<rparr>"
  obtain scope cerr1 where b: "deferred_scope_begin True 5 7 ?cerr = (scope, cerr1)" by fastforce
  then obtain bf where f: "buffer scope = Some bf" by (auto simp: deferred_scope_begin_def Let_def)
  obtain scope' cerr2 es' where e: "deferred_scope_finish terminal ''early_return''
       (scope\<lparr>buffer := Some (foldl (\<lambda>b chunk. snd (deferred_xsputn (Some chunk) b)) bf [''one'', [newline]])\<rparr>) cerr1 [] = (scope', cerr2, es')"
    by (metis surj_pair)
  have nz: "cerr_rdbuf ?cerr \<noteq> 0" by simp
  have "count_list (concat [''one'', [newline]]) newline = 1" by (simp add: newline_def)
  with deferred_scope_transparent [OF b f nz e, of "[]"] b f e show ?thesis by auto
qed

end
