(* ===== verification/Hip_Platform.thy ===== *)
theory Hip_Platform
  imports QRT_Prelude "HOL-Library.Multiset"
begin

text \<open>
  The device side of the GPU providers under \<^verbatim>\<open>native/providers/gdn\<close> and
  \<^verbatim>\<open>native/providers/ck_fmha\<close>. The HIP runtime and the generated attention kernel answer through
  an environment, as the Windows API does for the host provider; a call that fails writes no
  out-parameter. The modules, functions and device blocks that are live are read off the
  history of calls, and \<open>orderly\<close> says that no call of the history used a dead one. The locale
  \<open>device_provider\<close> is the contract the three providers share.
\<close>

section \<open>Calls to the HIP runtime\<close>

record launch_dims =
  grid :: "u32 \<times> u32 \<times> u32"
  block :: "u32 \<times> u32 \<times> u32"
  shared_bytes :: u32
  stream :: u64

datatype kernel_arg = Pointer u64 | Int32 int | UInt32 u32

text \<open>
  The traits and arguments of the generated attention kernel, \<open>fmha_fwd_traits\<close> and
  \<open>fmha_fwd_args\<close>; a \<open>float\<close> is given by its bits. Newer headers also have the fields of a head
  partition.
\<close>

datatype mask_enum = Mask_Top_Left | Mask_Bottom_Right | Mask_Other int

record fmha_traits =
  ft_hdim_q :: u32
  ft_hdim_v :: u32
  ft_data_type :: string
  ft_is_group_mode :: bool
  ft_is_v_rowmajor :: bool
  ft_has_logits_soft_cap :: bool
  ft_mask_type :: mask_enum
  ft_has_bias :: bool
  ft_has_lse :: bool
  ft_has_dropout :: bool
  ft_has_qscale :: bool
  ft_skip_min_seqlen_q :: bool
  ft_has_sink :: bool

record fmha_args =
  fa_q_ptr :: u64
  fa_k_ptr :: u64
  fa_v_ptr :: u64
  fa_o_ptr :: u64
  fa_seqlen_q :: u32
  fa_seqlen_k :: u32
  fa_batch :: u32
  fa_max_seqlen_q :: u32
  fa_hdim_q :: u32
  fa_hdim_v :: u32
  fa_nhead_q :: u32
  fa_nhead_k :: u32
  fa_head_partition :: "(u32 \<times> u32) option"
  fa_scale_s :: u32
  fa_logits_soft_cap :: u32
  fa_stride_q :: u32
  fa_stride_k :: u32
  fa_stride_v :: u32
  fa_stride_o :: u32
  fa_nhead_stride_q :: u32
  fa_nhead_stride_k :: u32
  fa_nhead_stride_v :: u32
  fa_nhead_stride_o :: u32
  fa_batch_stride_q :: u32
  fa_batch_stride_k :: u32
  fa_batch_stride_v :: u32
  fa_batch_stride_o :: u32
  fa_window_size_left :: int
  fa_window_size_right :: int
  fa_sink_size :: int
  fa_mask_type :: mask_enum
  fa_min_seqlen_q :: u32
  fa_p_drop :: u32
  fa_s_randval :: bool
  fa_drop_seed_offset :: "u64 \<times> u64"

datatype hip_call =
    ModuleLoad string
  | ModuleGetFunction u64 string
  | ModuleUnload u64
  | ModuleLaunchKernel u64 launch_dims "kernel_arg list"
  | LaunchKernelGGL string launch_dims "kernel_arg list"
  | StreamSynchronize u64
  | Malloc u64
  | Free u64
  | MemsetAsync u64 int u64 u64
  | GetLastHipError
  | FmhaFwd fmha_traits fmha_args u64

text \<open>The answer: the status, the handle or pointer a successful call stores, and whether the
  float that \<open>fmha_fwd\<close> returns is negative.\<close>

record hip_reply =
  hip_status :: int
  hip_out :: u64
  hip_negative :: bool

type_synonym hip_hist = "(hip_call, hip_reply) history"

record hip =
  answers :: "(hip_call, hip_reply) environment"
  hipGetErrorString :: "int \<Rightarrow> string"
  has_head_partition :: bool

definition hipSuccess :: int where
  "hipSuccess = 0"

definition hipErrorInvalidValue :: int where
  "hipErrorInvalidValue = 1"

abbreviation hip_ok :: "hip_reply \<Rightarrow> bool" where
  "hip_ok r \<equiv> hip_status r = hipSuccess"

text \<open>A call whose result the source discards, and the text that reports a failed call.\<close>

definition hip_tell :: "hip \<Rightarrow> hip_call \<Rightarrow> hip_hist \<Rightarrow> hip_hist" where
  "hip_tell dev c h = snd (ask (answers dev) c h)"

definition hip_failure :: "hip \<Rightarrow> string \<Rightarrow> int \<Rightarrow> string" where
  "hip_failure dev stage status =
     stage @ '' failed: hip_status='' @ decimal_int status @ '' hip_error='' @ hipGetErrorString dev status"

text \<open>\<open>if (!f()) return false;\<close> followed by the rest of the function.\<close>

definition and_then :: "bool \<times> 's \<times> hip_hist \<Rightarrow> ('s \<Rightarrow> hip_hist \<Rightarrow> bool \<times> 's \<times> hip_hist)
    \<Rightarrow> bool \<times> 's \<times> hip_hist" where
  "and_then r f = (case r of (ok, s, h) \<Rightarrow> if ok then f s h else (False, s, h))"

text \<open>\<open>if (module != nullptr) (void)hipModuleUnload(module);\<close> for each module in turn, and the
  same for device blocks.\<close>

primrec unload_modules :: "hip \<Rightarrow> u64 list \<Rightarrow> hip_hist \<Rightarrow> hip_hist" where
  "unload_modules dev [] h = h"
| "unload_modules dev (m # ms) h =
     unload_modules dev ms (if m \<noteq> nullptr then hip_tell dev (ModuleUnload m) h else h)"

primrec free_blocks :: "hip \<Rightarrow> u64 list \<Rightarrow> hip_hist \<Rightarrow> hip_hist" where
  "free_blocks dev [] h = h"
| "free_blocks dev (p # ps) h =
     free_blocks dev ps (if p \<noteq> nullptr then hip_tell dev (Free p) h else h)"

section \<open>What is live\<close>

fun live_modules :: "hip_hist \<Rightarrow> u64 set" where
  "live_modules [] = {}"
| "live_modules ((ModuleLoad path, r) # h) =
     (if hip_ok r then insert (hip_out r) (live_modules h) else live_modules h)"
| "live_modules ((ModuleUnload m, r) # h) = live_modules h - {m}"
| "live_modules (_ # h) = live_modules h"

text \<open>Functions with the module they come from; unloading a module ends its functions.\<close>

fun live_functions :: "hip_hist \<Rightarrow> (u64 \<times> u64) set" where
  "live_functions [] = {}"
| "live_functions ((ModuleGetFunction m symbol, r) # h) =
     (if hip_ok r then insert (m, hip_out r) (live_functions h) else live_functions h)"
| "live_functions ((ModuleUnload m, r) # h) = {x \<in> live_functions h. fst x \<noteq> m}"
| "live_functions (_ # h) = live_functions h"

text \<open>Device blocks with their length in bytes.\<close>

fun live_blocks :: "hip_hist \<Rightarrow> (u64 \<times> u64) set" where
  "live_blocks [] = {}"
| "live_blocks ((Malloc n, r) # h) =
     (if hip_ok r then insert (hip_out r, n) (live_blocks h) else live_blocks h)"
| "live_blocks ((Free p, r) # h) = {x \<in> live_blocks h. fst x \<noteq> p}"
| "live_blocks (_ # h) = live_blocks h"

text \<open>
  A call names only live handles: modules, functions and, when a block is freed, blocks; \<open>hipFree(nullptr)\<close> is allowed and
  does nothing. The pointers that kernels are given are not looked at here, since most of them are the caller's.
\<close>

fun call_ok :: "hip_hist \<Rightarrow> hip_call \<Rightarrow> bool" where
  "call_ok h (ModuleGetFunction m symbol) = (m \<in> live_modules h)"
| "call_ok h (ModuleUnload m) = (m \<in> live_modules h)"
| "call_ok h (ModuleLaunchKernel f dims args) = (f \<in> snd ` live_functions h)"
| "call_ok h (Free p) = (p = nullptr \<or> p \<in> fst ` live_blocks h)"
| "call_ok h _ = True"

primrec orderly :: "hip_hist \<Rightarrow> bool" where
  "orderly [] = True"
| "orderly (e # h) = (call_ok h (fst e) \<and> orderly h)"

text \<open>
  What the providers rely on: a successful load or allocation yields a handle or pointer that
  is not null and not one that is still live.
\<close>

definition hip_sound :: "hip \<Rightarrow> bool" where
  "hip_sound dev \<longleftrightarrow>
     (\<forall>h path. hip_ok (answers dev h (ModuleLoad path)) \<longrightarrow>
        hip_out (answers dev h (ModuleLoad path)) \<noteq> nullptr \<and>
        hip_out (answers dev h (ModuleLoad path)) \<notin> live_modules h) \<and>
     (\<forall>h n. hip_ok (answers dev h (Malloc n)) \<longrightarrow>
        hip_out (answers dev h (Malloc n)) \<noteq> nullptr \<and>
        hip_out (answers dev h (Malloc n)) \<notin> fst ` live_blocks h)"

section \<open>Facts on histories\<close>

lemma hip_tell_eq: "hip_tell dev c h = (c, answers dev h c) # h"
  by (simp add: hip_tell_def)

lemma hip_soundD:
  assumes "hip_sound dev"
  shows "hip_ok (answers dev h (ModuleLoad path)) \<Longrightarrow> hip_out (answers dev h (ModuleLoad path)) \<noteq> nullptr"
    and "hip_ok (answers dev h (ModuleLoad path)) \<Longrightarrow> hip_out (answers dev h (ModuleLoad path)) \<notin> live_modules h"
    and "hip_ok (answers dev h (Malloc n)) \<Longrightarrow> hip_out (answers dev h (Malloc n)) \<noteq> nullptr"
    and "hip_ok (answers dev h (Malloc n)) \<Longrightarrow> hip_out (answers dev h (Malloc n)) \<notin> fst ` live_blocks h"
  using assms by (simp_all add: hip_sound_def)

lemma unload_modules_live:
  "live_modules (unload_modules dev ms h) = live_modules h - (set ms - {nullptr})"
  "live_functions (unload_modules dev ms h) = {x \<in> live_functions h. fst x \<notin> set ms - {nullptr}}"
  "live_blocks (unload_modules dev ms h) = live_blocks h"
  by (induction ms arbitrary: h) (auto simp: hip_tell_eq)

lemma unload_modules_orderly:
  assumes "orderly h" "set ms - {nullptr} \<subseteq> live_modules h" "distinct (filter (\<lambda>m. m \<noteq> nullptr) ms)"
  shows "orderly (unload_modules dev ms h)"
  using assms
proof (induction ms arbitrary: h)
  case (Cons m ms)
  show ?case
  proof (cases "m = nullptr")
    case False
    with Cons.prems have "m \<notin> set ms" "m \<in> live_modules h" "orderly h" by auto
    then have "set ms - {nullptr} \<subseteq> live_modules (hip_tell dev (ModuleUnload m) h)"
      and "orderly (hip_tell dev (ModuleUnload m) h)"
      using Cons.prems(2) by (auto simp: hip_tell_eq)
    with Cons False show ?thesis by simp
  qed (use Cons in auto)
qed simp

lemma free_blocks_live:
  "live_blocks (free_blocks dev ps h) = {x \<in> live_blocks h. fst x \<notin> set ps - {nullptr}}"
  "live_modules (free_blocks dev ps h) = live_modules h"
  "live_functions (free_blocks dev ps h) = live_functions h"
  by (induction ps arbitrary: h) (auto simp: hip_tell_eq)

lemma free_blocks_orderly:
  assumes "orderly h" "set ps - {nullptr} \<subseteq> fst ` live_blocks h" "distinct (filter (\<lambda>p. p \<noteq> nullptr) ps)"
  shows "orderly (free_blocks dev ps h)"
  using assms
proof (induction ps arbitrary: h)
  case (Cons p ps)
  show ?case
  proof (cases "p = nullptr")
    case False
    have "set ps - {nullptr} \<subseteq> fst ` live_blocks (hip_tell dev (Free p) h)"
    proof
      fix x
      assume x: "x \<in> set ps - {nullptr}"
      with Cons.prems(2) obtain n where n: "(x, n) \<in> live_blocks h" by force
      from x False Cons.prems(3) have "x \<noteq> p" by auto
      with n show "x \<in> fst ` live_blocks (hip_tell dev (Free p) h)"
        by (force simp: hip_tell_eq)
    qed
    moreover have "orderly (hip_tell dev (Free p) h)"
      using Cons.prems(1,2) False by (auto simp: hip_tell_eq)
    ultimately show ?thesis using Cons False by simp
  qed (use Cons in auto)
qed simp

section \<open>Code objects\<close>

text \<open>A module with the kernel function taken from it.\<close>

record code_object =
  co_module :: u64
  co_function :: u64

definition no_object :: code_object where
  "no_object = \<lparr>co_module = nullptr, co_function = nullptr\<rparr>"

definition nonnull_distinct :: "u64 list \<Rightarrow> bool" where
  "nonnull_distinct ms \<longleftrightarrow> distinct (filter (\<lambda>m. m \<noteq> nullptr) ms)"

text \<open>
  A provider owns every live module, each in one slot; the function of a slot, when there is
  one, comes from the module of the slot.
\<close>

definition objects_ok :: "code_object list \<Rightarrow> hip_hist \<Rightarrow> bool" where
  "objects_ok cs h \<longleftrightarrow>
     live_modules h = co_module ` set cs - {nullptr} \<and> nonnull_distinct (map co_module cs) \<and>
     (\<forall>c \<in> set cs. co_function c \<noteq> nullptr \<longrightarrow> (co_module c, co_function c) \<in> live_functions h) \<and>
     fst ` live_functions h \<subseteq> live_modules h"

lemma nonnull_distinct_update:
  "nonnull_distinct ms \<Longrightarrow> m \<notin> set ms \<Longrightarrow> nonnull_distinct (ms[i := m])"
  unfolding nonnull_distinct_def
proof (induction ms arbitrary: i)
  case (Cons x ms)
  then show ?case
    using set_update_subset_insert [of ms "i - 1" m] by (cases i) (auto split: if_splits)
qed simp

lemma objects_okD:
  assumes "objects_ok cs h"
  shows "live_modules h = co_module ` set cs - {nullptr}" "nonnull_distinct (map co_module cs)"
    "c \<in> set cs \<Longrightarrow> co_function c \<noteq> nullptr \<Longrightarrow> (co_module c, co_function c) \<in> live_functions h"
    "fst ` live_functions h \<subseteq> live_modules h"
  using assms unfolding objects_ok_def by blast+

lemma objects_ok_function_live:
  "objects_ok cs h \<Longrightarrow> c \<in> set cs \<Longrightarrow> co_function c \<noteq> nullptr \<Longrightarrow> co_function c \<in> snd ` live_functions h"
  by (force simp: objects_ok_def)

lemma objects_ok_neutral:
  "live_modules h' = live_modules h \<Longrightarrow> live_functions h' = live_functions h \<Longrightarrow> objects_ok cs h' = objects_ok cs h"
  by (simp add: objects_ok_def)

lemma image_set_update_same:
  assumes "i < length xs" "f (xs ! i) = f y"
  shows "f ` set (xs[i := y]) = f ` set xs"
proof -
  have "map f (xs[i := y]) = map f xs"
    using assms by (simp add: map_update list_update_same_conv nth_map)
  then show ?thesis by (metis set_map)
qed

lemma objects_ok_load:
  assumes ok: "objects_ok cs h" and i: "i < length cs" "co_module (cs ! i) = nullptr"
    and m: "m \<noteq> nullptr" "m \<notin> live_modules h" "hip_ok r" "hip_out r = m"
  shows "objects_ok (cs[i := \<lparr>co_module = m, co_function = nullptr\<rparr>]) ((ModuleLoad path, r) # h)"
proof -
  let ?c = "\<lparr>co_module = m, co_function = nullptr\<rparr>"
  have "insert nullptr (set (map co_module (cs[i := ?c]))) = insert nullptr (insert m (set (map co_module cs)))"
  proof -
    have "map co_module (cs[i := ?c]) = (map co_module cs)[i := m]" by (simp add: map_update)
    moreover have "set ((map co_module cs)[i := m]) = insert m (set (take i (map co_module cs)) \<union> set (drop (Suc i) (map co_module cs)))"
      using i by (simp add: upd_conv_take_nth_drop)
    moreover have "set (map co_module cs) = insert nullptr (set (take i (map co_module cs)) \<union> set (drop (Suc i) (map co_module cs)))"
      using i by (metis (no_types, opaque_lifting) Un_insert_right id_take_nth_drop length_map list.simps(15) nth_map set_append)
    ultimately show ?thesis by auto
  qed
  then have img: "co_module ` set (cs[i := ?c]) - {nullptr} = insert m (co_module ` set cs - {nullptr})"
    using m(1) by auto
  have "m \<notin> set (map co_module cs)" using m(1,2) objects_okD(1) [OF ok] by auto
  then have "nonnull_distinct (map co_module (cs[i := ?c]))"
    using nonnull_distinct_update [OF objects_okD(2) [OF ok]] by (simp add: map_update)
  moreover have "\<forall>c \<in> set (cs[i := ?c]). co_function c \<noteq> nullptr \<longrightarrow> (co_module c, co_function c) \<in> live_functions h"
    using set_update_subset_insert [of cs i ?c] objects_okD(3) [OF ok] by auto
  ultimately show ?thesis
    using m img objects_okD(1,4) [OF ok] by (auto simp: objects_ok_def)
qed

lemma objects_ok_function:
  assumes ok: "objects_ok cs h" and i: "i < length cs" "co_module (cs ! i) \<noteq> nullptr"
    and r: "hip_ok r" "hip_out r = f"
  shows "objects_ok (cs[i := (cs ! i)\<lparr>co_function := f\<rparr>]) ((ModuleGetFunction (co_module (cs ! i)) symbol, r) # h)"
proof -
  let ?c = "(cs ! i)\<lparr>co_function := f\<rparr>"
  have "map co_module (cs[i := ?c]) = map co_module cs"
    using i(1) by (simp add: map_update list_update_same_conv)
  moreover have "co_module ` set (cs[i := ?c]) = co_module ` set cs"
    using i(1) by (rule image_set_update_same) simp
  moreover have "co_module (cs ! i) \<in> live_modules h"
    using objects_okD(1) [OF ok] i by simp
  moreover have "\<forall>c \<in> set (cs[i := ?c]). co_function c \<noteq> nullptr \<longrightarrow>
      (co_module c, co_function c) \<in> insert (co_module (cs ! i), f) (live_functions h)"
    using set_update_subset_insert [of cs i ?c] objects_okD(3) [OF ok] by auto
  ultimately show ?thesis
    using r objects_okD [OF ok] by (simp add: objects_ok_def)
qed

lemma objects_ok_unload:
  assumes "objects_ok cs h" "mset ms = mset (map co_module cs)" "orderly h"
  shows "orderly (unload_modules dev ms h)" "live_modules (unload_modules dev ms h) = {}"
    "live_functions (unload_modules dev ms h) = {}"
proof -
  have s: "set ms = co_module ` set cs"
    using assms(2) by (metis set_map set_mset_mset)
  have "mset (filter (\<lambda>m. m \<noteq> nullptr) ms) = mset (filter (\<lambda>m. m \<noteq> nullptr) (map co_module cs))"
    using assms(2) by (simp add: mset_filter)
  then have "distinct (filter (\<lambda>m. m \<noteq> nullptr) ms)"
    using objects_okD(2) [OF assms(1)] unfolding nonnull_distinct_def by (metis mset_eq_imp_distinct_iff)
  then show "orderly (unload_modules dev ms h)"
    using assms(3) s objects_okD(1) [OF assms(1)] by (intro unload_modules_orderly) auto
  show "live_modules (unload_modules dev ms h) = {}" "live_functions (unload_modules dev ms h) = {}"
    using objects_okD(1,4) [OF assms(1)] by (auto simp: unload_modules_live s)
qed

lemma objects_ok_none: "live_modules h = {} \<Longrightarrow> live_functions h = {} \<Longrightarrow> \<forall>c \<in> set cs. c = no_object \<Longrightarrow> objects_ok cs h"
proof -
  assume "\<forall>c \<in> set cs. c = no_object"
  then have "filter (\<lambda>m. m \<noteq> nullptr) (map co_module cs) = []"
    by (induction cs) (auto simp: no_object_def)
  moreover assume "live_modules h = {}" "live_functions h = {}"
  ultimately show ?thesis
    using \<open>\<forall>c \<in> set cs. c = no_object\<close> by (auto simp: objects_ok_def nonnull_distinct_def no_object_def)
qed

section \<open>Owned device blocks\<close>

text \<open>A provider owns every live block; a list of pointers with lengths describes them, null for none.\<close>

definition blocks_ok :: "(u64 \<times> u64) list \<Rightarrow> hip_hist \<Rightarrow> bool" where
  "blocks_ok bs h \<longleftrightarrow> live_blocks h = {b \<in> set bs. fst b \<noteq> nullptr} \<and> nonnull_distinct (map fst bs)"

lemma blocks_ok_neutral: "live_blocks h' = live_blocks h \<Longrightarrow> blocks_ok bs h' = blocks_ok bs h"
  by (simp add: blocks_ok_def)

lemma blocks_ok_none: "live_blocks h = {} \<Longrightarrow> \<forall>b \<in> set bs. fst b = nullptr \<Longrightarrow> blocks_ok bs h"
proof -
  assume "\<forall>b \<in> set bs. fst b = nullptr"
  then have "filter (\<lambda>m. m \<noteq> nullptr) (map fst bs) = []" by (induction bs) auto
  moreover assume "live_blocks h = {}"
  ultimately show ?thesis
    using \<open>\<forall>b \<in> set bs. fst b = nullptr\<close> by (auto simp: blocks_ok_def nonnull_distinct_def)
qed

lemma blocks_ok_malloc:
  assumes ok: "blocks_ok bs h" and i: "i < length bs" "bs ! i = (nullptr, n)"
    and p: "p \<noteq> nullptr" "p \<notin> fst ` live_blocks h" "hip_ok r" "hip_out r = p"
  shows "blocks_ok (bs[i := (p, n)]) ((Malloc n, r) # h)"
proof -
  have "p \<notin> set (map fst bs)" using p(1,2) ok by (force simp: blocks_ok_def)
  then have "nonnull_distinct (map fst (bs[i := (p, n)]))"
    using nonnull_distinct_update ok by (simp add: map_update blocks_ok_def)
  moreover have "{b \<in> set (bs[i := (p, n)]). fst b \<noteq> nullptr} = insert (p, n) {b \<in> set bs. fst b \<noteq> nullptr}"
  proof -
    have "set (bs[i := (p, n)]) = insert (p, n) (set (take i bs) \<union> set (drop (Suc i) bs))"
      using i by (simp add: upd_conv_take_nth_drop)
    moreover have "set bs = insert (nullptr, n) (set (take i bs) \<union> set (drop (Suc i) bs))"
      using id_take_nth_drop [OF i(1)] i(2) by (metis Un_insert_right list.simps(15) set_append)
    ultimately show ?thesis using p(1) by auto
  qed
  ultimately show ?thesis
    using p ok by (simp add: blocks_ok_def)
qed

lemma blocks_ok_free:
  assumes "blocks_ok bs h" "mset ps = mset (map fst bs)" "orderly h"
  shows "orderly (free_blocks dev ps h)" "live_blocks (free_blocks dev ps h) = {}"
proof -
  have s: "set ps = fst ` set bs"
    using assms(2) by (metis set_map set_mset_mset)
  have l: "live_blocks h = {b \<in> set bs. fst b \<noteq> nullptr}"
    using assms(1) by (simp add: blocks_ok_def)
  have "mset (filter (\<lambda>m. m \<noteq> nullptr) ps) = mset (filter (\<lambda>m. m \<noteq> nullptr) (map fst bs))"
    using assms(2) by (simp add: mset_filter)
  moreover have "distinct (filter (\<lambda>m. m \<noteq> nullptr) (map fst bs))"
    using assms(1) unfolding blocks_ok_def nonnull_distinct_def by (rule conjunct2)
  ultimately have "distinct (filter (\<lambda>m. m \<noteq> nullptr) ps)"
    using mset_eq_imp_distinct_iff by blast
  then show "orderly (free_blocks dev ps h)"
    using assms(3) by (intro free_blocks_orderly) (auto simp: l s)
  show "live_blocks (free_blocks dev ps h) = {}"
    by (auto simp: free_blocks_live l s)
qed

section \<open>The contract of a device provider\<close>

text \<open>A client calls the exported functions of a provider one after another.\<close>

primrec run_ops :: "(hip \<Rightarrow> 'op \<Rightarrow> 's \<Rightarrow> hip_hist \<Rightarrow> int \<times> 's \<times> hip_hist) \<Rightarrow> hip \<Rightarrow> 'op list \<Rightarrow> 's \<Rightarrow> hip_hist
    \<Rightarrow> 's \<times> hip_hist" where
  "run_ops exec dev [] s h = (s, h)"
| "run_ops exec dev (c # cs) s h = (case exec dev c s h of (r, s, h) \<Rightarrow> run_ops exec dev cs s h)"

lemma run_ops_append:
  "run_ops exec dev (cs @ ds) s h = (case run_ops exec dev cs s h of (s, h) \<Rightarrow> run_ops exec dev ds s h)"
  by (induction cs arbitrary: s h) (auto split: prod.splits)

locale device_provider =
  fixes exec :: "hip \<Rightarrow> 'op \<Rightarrow> 's \<Rightarrow> hip_hist \<Rightarrow> int \<times> 's \<times> hip_hist"
    and release_op :: 'op
    and start :: 's
    and inv :: "'s \<Rightarrow> hip_hist \<Rightarrow> bool"
  assumes inv_start: "inv start []"
    and inv_exec: "hip_sound dev \<Longrightarrow> inv s h \<Longrightarrow> exec dev c s h = (r, s', h') \<Longrightarrow> inv s' h'"
    and inv_orderly: "inv s h \<Longrightarrow> orderly h"
    and release_frees: "hip_sound dev \<Longrightarrow> inv s h \<Longrightarrow> exec dev release_op s h = (r, s', h') \<Longrightarrow>
      s' = start \<and> live_modules h' = {} \<and> live_functions h' = {} \<and> live_blocks h' = {}"
begin

lemma inv_run:
  assumes "hip_sound dev" "inv s h" "run_ops exec dev cs s h = (s', h')"
  shows "inv s' h'"
  using assms(2,3)
proof (induction cs arbitrary: s h)
  case (Cons c cs)
  obtain r t k where c: "exec dev c s h = (r, t, k)" by (cases "exec dev c s h")
  show ?case
    by (rule Cons.IH [OF inv_exec [OF assms(1) Cons.prems(1) c]]) (use Cons.prems(2) c in simp)
qed simp

lemma session_safe:
  assumes "hip_sound dev" "run_ops exec dev (cs @ [release_op]) start [] = (s', h')"
  shows "orderly h' \<and> s' = start \<and> live_modules h' = {} \<and> live_functions h' = {} \<and> live_blocks h' = {}"
proof -
  obtain s h where run: "run_ops exec dev cs start [] = (s, h)" by (cases "run_ops exec dev cs start []")
  obtain r where rel: "exec dev release_op s h = (r, s', h')"
    using assms(2) run by (auto simp: run_ops_append split: prod.splits)
  have "inv s h" by (rule inv_run [OF assms(1) inv_start run])
  then show ?thesis
    using release_frees [OF assms(1) _ rel] inv_orderly inv_exec [OF assms(1) _ rel] by blast
qed

end

section \<open>A device for examples\<close>

text \<open>
  Handles count up with the history; should the count wrap around to one that is still live,
  the load or allocation fails. Every other call succeeds.
\<close>

definition good_device :: hip where
  "good_device = \<lparr>answers = (\<lambda>h c.
       let x = of_nat (1048576 * (1 + length h));
           fresh = (case c of ModuleLoad _ \<Rightarrow> x \<noteq> nullptr \<and> x \<notin> live_modules h
                    | Malloc _ \<Rightarrow> x \<noteq> nullptr \<and> x \<notin> fst ` live_blocks h
                    | _ \<Rightarrow> True)
       in \<lparr>hip_status = (if fresh then hipSuccess else 2), hip_out = x, hip_negative = False\<rparr>),
     hipGetErrorString = (\<lambda>e. ''error''), has_head_partition = True\<rparr>"

lemma good_device_sound: "hip_sound good_device"
  by (simp add: hip_sound_def good_device_def Let_def hipSuccess_def)

end
