(* ===== verification/Gdn_Aiter.thy ===== *)
theory Gdn_Aiter
  imports Hip_Platform
begin

text \<open>
  The fused gated-delta-net provider of
  \<^verbatim>\<open>native/providers/gdn/qrt_aiter_fused_gdn_q8192_provider.cpp\<close>: four precompiled code objects loaded
  once per kernel directory, and an exported launch function per prompt shape. Pointers are
  addresses, \<open>int32_t\<close> values are integers, a C string is the list of its characters and a null
  \<open>const char *\<close> is \<open>None\<close>. The Windows path separator is used.
\<close>

section \<open>Constants and state\<close>

definition aiter_kGrid :: "u32 \<times> u32 \<times> u32" where
  "aiter_kGrid = (16, 32, 1)"

definition aiter_kThreads :: u32 where
  "aiter_kThreads = 32"

definition aiter_kDynamicSharedBytes :: u32 where
  "aiter_kDynamicSharedBytes = 4096"

definition aiter_kSeededDynamicSharedBytes :: u32 where
  "aiter_kSeededDynamicSharedBytes = 512"

definition kPathSeparator :: string where
  "kPathSeparator = [CHR 0x5C]"

record aiter_state =
  a_plain :: code_object
  a_q262144_bf16 :: code_object
  a_seeded :: code_object
  a_q32768_seeded_bf16 :: code_object
  a_prepared :: bool
  a_kernel_dir :: string
  a_error :: string

definition aiter_initial :: aiter_state where
  "aiter_initial = \<lparr>a_plain = no_object, a_q262144_bf16 = no_object, a_seeded = no_object,
     a_q32768_seeded_bf16 = no_object, a_prepared = False, a_kernel_dir = [], a_error = []\<rparr>"

definition aiter_set_error_text :: "string option \<Rightarrow> aiter_state \<Rightarrow> aiter_state" where
  "aiter_set_error_text message s =
     s\<lparr>a_error := c_copy 512 (case message of None \<Rightarrow> ''unknown error'' | Some m \<Rightarrow> m)\<rparr>"

definition aiter_set_error :: "hip \<Rightarrow> string \<Rightarrow> int \<Rightarrow> aiter_state \<Rightarrow> aiter_state" where
  "aiter_set_error dev stage status s = s\<lparr>a_error := c_copy 512 (hip_failure dev stage status)\<rparr>"

definition aiter_release_state :: "hip \<Rightarrow> aiter_state \<Rightarrow> hip_hist \<Rightarrow> aiter_state \<times> hip_hist" where
  "aiter_release_state dev s h =
     (aiter_initial,
      unload_modules dev [co_module (a_q32768_seeded_bf16 s), co_module (a_seeded s),
        co_module (a_q262144_bf16 s), co_module (a_plain s)] h)"

section \<open>Preparing\<close>

text \<open>One of the four blocks of \<open>load_kernel\<close>: the path, the module and its function. The slot is
  read and written through \<open>get\<close> and \<open>put\<close>.\<close>

definition aiter_load_object ::
  "hip \<Rightarrow> string \<Rightarrow> string \<Rightarrow> string \<Rightarrow> string
     \<Rightarrow> (aiter_state \<Rightarrow> code_object) \<Rightarrow> (code_object \<Rightarrow> aiter_state \<Rightarrow> aiter_state)
     \<Rightarrow> aiter_state \<Rightarrow> hip_hist \<Rightarrow> bool \<times> aiter_state \<times> hip_hist" where
  "aiter_load_object dev directory name symbol too_long get_object put_object s h =
     (let path = directory @ kPathSeparator @ name @ ''.hsaco''
      in if length path \<ge> 1400 then (False, aiter_set_error_text (Some too_long) s, h)
         else
           let (r, h) = ask (answers dev) (ModuleLoad path) h
           in if \<not> hip_ok r then (False, aiter_set_error dev (''hipModuleLoad('' @ name @ '')'') (hip_status r) s, h)
              else
                let s = put_object ((get_object s)\<lparr>co_module := hip_out r\<rparr>) s;
                    (r, h) = ask (answers dev) (ModuleGetFunction (co_module (get_object s)) symbol) h
                in if \<not> hip_ok r
                   then (False, aiter_set_error dev (''hipModuleGetFunction('' @ name @ '')'') (hip_status r) s, h)
                   else (True, put_object ((get_object s)\<lparr>co_function := hip_out r\<rparr>) s, h))"

definition aiter_load_kernel :: "hip \<Rightarrow> string \<Rightarrow> aiter_state \<Rightarrow> hip_hist \<Rightarrow> bool \<times> aiter_state \<times> hip_hist" where
  "aiter_load_kernel dev directory s h =
     and_then (and_then (and_then
       (aiter_load_object dev directory ''q8192_aiter_fused_gdn'' ''_fixed_q8192_aiter_fused_gdn_kernel''
          ''AITER fused-GDN kernel path is too long'' a_plain (\<lambda>c. a_plain_update (\<lambda>_. c)) s h)
       (aiter_load_object dev directory ''q262144_aiter_fused_gdn_bf16'' ''_fixed_q8192_aiter_fused_gdn_kernel''
          ''AITER q262144 BF16 fused-GDN kernel path is too long''
          a_q262144_bf16 (\<lambda>c. a_q262144_bf16_update (\<lambda>_. c))))
       (aiter_load_object dev directory ''q1024_seeded_aiter_fused_gdn'' ''_fixed_q1024_seeded_aiter_fused_gdn_kernel''
          ''AITER seeded fused-GDN kernel path is too long'' a_seeded (\<lambda>c. a_seeded_update (\<lambda>_. c))))
       (aiter_load_object dev directory ''q32768_seeded_aiter_fused_gdn_bf16''
          ''_fixed_q1024_seeded_aiter_fused_gdn_kernel''
          ''AITER q32768 seeded BF16 fused-GDN kernel path is too long''
          a_q32768_seeded_bf16 (\<lambda>c. a_q32768_seeded_bf16_update (\<lambda>_. c)))"

definition aiter_prepare :: "hip \<Rightarrow> string option \<Rightarrow> aiter_state \<Rightarrow> hip_hist \<Rightarrow> int \<times> aiter_state \<times> hip_hist" where
  "aiter_prepare dev kernel_dir s h =
     (case kernel_dir of
        None \<Rightarrow> (0, aiter_set_error_text (Some ''AITER fused-GDN kernel directory is empty'') s, h)
      | Some d \<Rightarrow>
          if d = [] then (0, aiter_set_error_text (Some ''AITER fused-GDN kernel directory is empty'') s, h)
          else if a_prepared s \<and> a_kernel_dir s = d then (1, s, h)
          else
            let (s, h) = aiter_release_state dev s h;
                s = s\<lparr>a_kernel_dir := c_copy 1024 d\<rparr>;
                (ok, s, h) = aiter_load_kernel dev d s h
            in if \<not> ok
               then let prepare_error = a_error s;
                        (s, h) = aiter_release_state dev s h
                    in (0, aiter_set_error_text (Some prepare_error) s, h)
               else (1, s\<lparr>a_prepared := True, a_error := []\<rparr>, h))"

section \<open>Launching\<close>

text \<open>The arguments the exported launch functions share; only the seeded ones have an initial state.\<close>

record gdn_surface =
  gs_postconv :: u64
  gs_gate :: u64
  gs_initial_state :: u64
  gs_output :: u64
  gs_final_state :: u64
  gs_decay :: int
  gs_stream :: u64

definition aiter_dims :: "u32 \<Rightarrow> u64 \<Rightarrow> launch_dims" where
  "aiter_dims shared st = \<lparr>grid = aiter_kGrid, block = (aiter_kThreads, 1, 1), shared_bytes = shared, stream = st\<rparr>"

text \<open>\<open>launch_async_with_function\<close>; the stage text goes through a buffer of 128 bytes.\<close>

definition aiter_launch_with_function ::
  "hip \<Rightarrow> u64 \<Rightarrow> gdn_surface \<Rightarrow> int \<Rightarrow> string \<Rightarrow> aiter_state \<Rightarrow> hip_hist \<Rightarrow> int \<times> aiter_state \<times> hip_hist" where
  "aiter_launch_with_function dev func a tokens shape_name s h =
     (if \<not> a_prepared s \<or> func = nullptr \<or> gs_postconv a = nullptr \<or> gs_gate a = nullptr \<or>
         gs_output a = nullptr \<or> gs_final_state a = nullptr \<or> (gs_decay a \<noteq> 0 \<and> gs_decay a \<noteq> 1)
      then (0, aiter_set_error_text (Some ''AITER fused-GDN launch received an invalid surface'') s, h)
      else
        let (r, h) = ask (answers dev)
              (ModuleLaunchKernel func (aiter_dims aiter_kDynamicSharedBytes (gs_stream a))
                 [Pointer (gs_postconv a), Pointer (gs_gate a), Pointer (gs_output a), Pointer (gs_final_state a),
                  Int32 (gs_decay a), Int32 tokens, Pointer nullptr, Pointer nullptr]) h
        in if \<not> hip_ok r
           then (0, aiter_set_error dev (c_copy 128 (''hipModuleLaunchKernel('' @ shape_name @ ''_aiter_fused_gdn)''))
                      (hip_status r) s, h)
           else (1, s\<lparr>a_error := []\<rparr>, h))"

definition aiter_launch_async ::
  "hip \<Rightarrow> gdn_surface \<Rightarrow> int \<Rightarrow> string \<Rightarrow> aiter_state \<Rightarrow> hip_hist \<Rightarrow> int \<times> aiter_state \<times> hip_hist" where
  "aiter_launch_async dev a tokens shape_name s h =
     aiter_launch_with_function dev (co_function (a_plain s)) a tokens shape_name s h"

text \<open>\<open>hipStreamSynchronize\<close> after a launch that returned non-zero.\<close>

definition aiter_synchronize ::
  "hip \<Rightarrow> u64 \<Rightarrow> string \<Rightarrow> int \<times> aiter_state \<times> hip_hist \<Rightarrow> int \<times> aiter_state \<times> hip_hist" where
  "aiter_synchronize dev st stage launched =
     (let (result, s, h) = launched
      in if result = 0 then (0, s, h)
         else
           let (r, h) = ask (answers dev) (StreamSynchronize st) h
           in if \<not> hip_ok r then (0, aiter_set_error dev stage (hip_status r) s, h)
              else (1, s\<lparr>a_error := []\<rparr>, h))"

definition aiter_launch_synchronous ::
  "hip \<Rightarrow> gdn_surface \<Rightarrow> int \<Rightarrow> string \<Rightarrow> aiter_state \<Rightarrow> hip_hist \<Rightarrow> int \<times> aiter_state \<times> hip_hist" where
  "aiter_launch_synchronous dev a tokens shape_name s h =
     aiter_synchronize dev (gs_stream a) (c_copy 128 (''hipStreamSynchronize('' @ shape_name @ ''_aiter_fused_gdn)''))
       (aiter_launch_async dev a tokens shape_name s h)"

text \<open>\<open>launch_seeded_async_with_function\<close>; its stage buffer has 160 bytes.\<close>

definition aiter_seeded_with_function ::
  "hip \<Rightarrow> u64 \<Rightarrow> gdn_surface \<Rightarrow> int \<Rightarrow> string \<Rightarrow> aiter_state \<Rightarrow> hip_hist \<Rightarrow> int \<times> aiter_state \<times> hip_hist" where
  "aiter_seeded_with_function dev func a tokens shape_name s h =
     (if \<not> a_prepared s \<or> func = nullptr \<or> gs_postconv a = nullptr \<or> gs_gate a = nullptr \<or>
         gs_initial_state a = nullptr \<or> gs_output a = nullptr \<or> gs_final_state a = nullptr \<or>
         (gs_decay a \<noteq> 0 \<and> gs_decay a \<noteq> 1)
      then (0, aiter_set_error_text (Some ''AITER seeded fused-GDN launch received an invalid surface'') s, h)
      else
        let (r, h) = ask (answers dev)
              (ModuleLaunchKernel func (aiter_dims aiter_kSeededDynamicSharedBytes (gs_stream a))
                 [Pointer (gs_postconv a), Pointer (gs_gate a), Pointer (gs_initial_state a), Pointer (gs_output a),
                  Pointer (gs_final_state a), Int32 (gs_decay a), Int32 tokens, Pointer nullptr, Pointer nullptr]) h
        in if \<not> hip_ok r
           then (0, aiter_set_error dev
                      (c_copy 160 (''hipModuleLaunchKernel('' @ shape_name @ ''_seeded_aiter_fused_gdn)''))
                      (hip_status r) s, h)
           else (1, s\<lparr>a_error := []\<rparr>, h))"

definition aiter_launch_seeded_async ::
  "hip \<Rightarrow> gdn_surface \<Rightarrow> aiter_state \<Rightarrow> hip_hist \<Rightarrow> int \<times> aiter_state \<times> hip_hist" where
  "aiter_launch_seeded_async dev a s h =
     aiter_seeded_with_function dev (co_function (a_seeded s)) a 1024 ''q1024'' s h"

definition aiter_launch_seeded_synchronous ::
  "hip \<Rightarrow> gdn_surface \<Rightarrow> aiter_state \<Rightarrow> hip_hist \<Rightarrow> int \<times> aiter_state \<times> hip_hist" where
  "aiter_launch_seeded_synchronous dev a s h =
     aiter_synchronize dev (gs_stream a) ''hipStreamSynchronize(q1024_seeded_aiter_fused_gdn)''
       (aiter_launch_seeded_async dev a s h)"


section \<open>Exported functions\<close>

definition aiter_q8192_launch_async ::
  "hip \<Rightarrow> gdn_surface \<Rightarrow> aiter_state \<Rightarrow> hip_hist \<Rightarrow> int \<times> aiter_state \<times> hip_hist" where
  "aiter_q8192_launch_async dev a = aiter_launch_async dev a 8192 ''q8192''"

definition aiter_launch_async_dynamic ::
  "hip \<Rightarrow> gdn_surface \<Rightarrow> int \<Rightarrow> aiter_state \<Rightarrow> hip_hist \<Rightarrow> int \<times> aiter_state \<times> hip_hist" where
  "aiter_launch_async_dynamic dev a tokens s h =
     (if tokens \<le> 0 \<or> tokens > 262144
      then (0, aiter_set_error_text (Some ''AITER dynamic F32 fused-GDN requires 1..262144 tokens'') s, h)
      else aiter_launch_async dev a tokens ''dynamic'' s h)"

definition aiter_q8192_launch ::
  "hip \<Rightarrow> gdn_surface \<Rightarrow> aiter_state \<Rightarrow> hip_hist \<Rightarrow> int \<times> aiter_state \<times> hip_hist" where
  "aiter_q8192_launch dev a = aiter_launch_synchronous dev a 8192 ''q8192''"

definition aiter_q16384_launch_async ::
  "hip \<Rightarrow> gdn_surface \<Rightarrow> aiter_state \<Rightarrow> hip_hist \<Rightarrow> int \<times> aiter_state \<times> hip_hist" where
  "aiter_q16384_launch_async dev a = aiter_launch_async dev a 16384 ''q16384''"

definition aiter_q16384_launch ::
  "hip \<Rightarrow> gdn_surface \<Rightarrow> aiter_state \<Rightarrow> hip_hist \<Rightarrow> int \<times> aiter_state \<times> hip_hist" where
  "aiter_q16384_launch dev a = aiter_launch_synchronous dev a 16384 ''q16384''"

definition aiter_q17408_launch_async ::
  "hip \<Rightarrow> gdn_surface \<Rightarrow> aiter_state \<Rightarrow> hip_hist \<Rightarrow> int \<times> aiter_state \<times> hip_hist" where
  "aiter_q17408_launch_async dev a = aiter_launch_async dev a 17408 ''q17408''"

definition aiter_q17408_launch ::
  "hip \<Rightarrow> gdn_surface \<Rightarrow> aiter_state \<Rightarrow> hip_hist \<Rightarrow> int \<times> aiter_state \<times> hip_hist" where
  "aiter_q17408_launch dev a = aiter_launch_synchronous dev a 17408 ''q17408''"

definition aiter_q1024_seeded_launch_async ::
  "hip \<Rightarrow> gdn_surface \<Rightarrow> aiter_state \<Rightarrow> hip_hist \<Rightarrow> int \<times> aiter_state \<times> hip_hist" where
  "aiter_q1024_seeded_launch_async dev a = aiter_launch_seeded_async dev a"

definition aiter_q1024_seeded_launch ::
  "hip \<Rightarrow> gdn_surface \<Rightarrow> aiter_state \<Rightarrow> hip_hist \<Rightarrow> int \<times> aiter_state \<times> hip_hist" where
  "aiter_q1024_seeded_launch dev a = aiter_launch_seeded_synchronous dev a"

definition aiter_q32768_seeded_bf16_launch_async ::
  "hip \<Rightarrow> gdn_surface \<Rightarrow> aiter_state \<Rightarrow> hip_hist \<Rightarrow> int \<times> aiter_state \<times> hip_hist" where
  "aiter_q32768_seeded_bf16_launch_async dev a s h =
     aiter_seeded_with_function dev (co_function (a_q32768_seeded_bf16 s)) a 32768 ''q32768_bf16'' s h"

definition aiter_q32384_seeded_bf16_launch_async ::
  "hip \<Rightarrow> gdn_surface \<Rightarrow> aiter_state \<Rightarrow> hip_hist \<Rightarrow> int \<times> aiter_state \<times> hip_hist" where
  "aiter_q32384_seeded_bf16_launch_async dev a s h =
     aiter_seeded_with_function dev (co_function (a_q32768_seeded_bf16 s)) a 32384 ''q32384_bf16'' s h"

definition aiter_seeded_bf16_launch_async_dynamic ::
  "hip \<Rightarrow> gdn_surface \<Rightarrow> int \<Rightarrow> aiter_state \<Rightarrow> hip_hist \<Rightarrow> int \<times> aiter_state \<times> hip_hist" where
  "aiter_seeded_bf16_launch_async_dynamic dev a tokens s h =
     (if tokens \<le> 0 \<or> tokens > 32768
      then (0, aiter_set_error_text (Some ''AITER dynamic seeded BF16 fused-GDN requires 1..32768 tokens'') s, h)
      else aiter_seeded_with_function dev (co_function (a_q32768_seeded_bf16 s)) a tokens ''dynamic_bf16'' s h)"

definition aiter_q32768_launch_async ::
  "hip \<Rightarrow> gdn_surface \<Rightarrow> aiter_state \<Rightarrow> hip_hist \<Rightarrow> int \<times> aiter_state \<times> hip_hist" where
  "aiter_q32768_launch_async dev a = aiter_launch_async dev a 32768 ''q32768''"

definition aiter_q32768_launch ::
  "hip \<Rightarrow> gdn_surface \<Rightarrow> aiter_state \<Rightarrow> hip_hist \<Rightarrow> int \<times> aiter_state \<times> hip_hist" where
  "aiter_q32768_launch dev a = aiter_launch_synchronous dev a 32768 ''q32768''"

definition aiter_q65536_launch_async ::
  "hip \<Rightarrow> gdn_surface \<Rightarrow> aiter_state \<Rightarrow> hip_hist \<Rightarrow> int \<times> aiter_state \<times> hip_hist" where
  "aiter_q65536_launch_async dev a = aiter_launch_async dev a 65536 ''q65536''"

definition aiter_q65536_launch ::
  "hip \<Rightarrow> gdn_surface \<Rightarrow> aiter_state \<Rightarrow> hip_hist \<Rightarrow> int \<times> aiter_state \<times> hip_hist" where
  "aiter_q65536_launch dev a = aiter_launch_synchronous dev a 65536 ''q65536''"

text \<open>The two functions \<open>QRT_AITER_GDN_DEFINE_LONG_EXPORTS\<close> defines for a shape, and its six uses.\<close>

definition aiter_long_launch_async ::
  "int \<Rightarrow> string \<Rightarrow> hip \<Rightarrow> gdn_surface \<Rightarrow> aiter_state \<Rightarrow> hip_hist \<Rightarrow> int \<times> aiter_state \<times> hip_hist" where
  "aiter_long_launch_async token_count shape_name dev a = aiter_launch_async dev a token_count shape_name"

definition aiter_long_launch ::
  "int \<Rightarrow> string \<Rightarrow> hip \<Rightarrow> gdn_surface \<Rightarrow> aiter_state \<Rightarrow> hip_hist \<Rightarrow> int \<times> aiter_state \<times> hip_hist" where
  "aiter_long_launch token_count shape_name dev a = aiter_launch_synchronous dev a token_count shape_name"

datatype long_shape = Q129536 | Q130560 | Q131071 | Q131072 | Q131073 | Q262143

fun long_exports :: "long_shape \<Rightarrow> int \<times> string" where
  "long_exports Q129536 = (129536, ''q129536'')"
| "long_exports Q130560 = (130560, ''q130560'')"
| "long_exports Q131071 = (131071, ''q131071'')"
| "long_exports Q131072 = (131072, ''q131072'')"
| "long_exports Q131073 = (131073, ''q131073'')"
| "long_exports Q262143 = (262143, ''q262143'')"

definition aiter_q262144_launch_async ::
  "hip \<Rightarrow> gdn_surface \<Rightarrow> aiter_state \<Rightarrow> hip_hist \<Rightarrow> int \<times> aiter_state \<times> hip_hist" where
  "aiter_q262144_launch_async dev a s h =
     aiter_launch_with_function dev (co_function (a_q262144_bf16 s)) a 262144 ''q262144_bf16'' s h"

definition aiter_q262144_launch ::
  "hip \<Rightarrow> gdn_surface \<Rightarrow> aiter_state \<Rightarrow> hip_hist \<Rightarrow> int \<times> aiter_state \<times> hip_hist" where
  "aiter_q262144_launch dev a s h =
     aiter_synchronize dev (gs_stream a) ''hipStreamSynchronize(q262144_bf16_aiter_fused_gdn)''
       (aiter_q262144_launch_async dev a s h)"

definition aiter_scratch_bytes :: u64 where
  "aiter_scratch_bytes = 0"

definition aiter_last_error :: "aiter_state \<Rightarrow> string" where
  "aiter_last_error s = a_error s"

definition aiter_release :: "hip \<Rightarrow> aiter_state \<Rightarrow> hip_hist \<Rightarrow> aiter_state \<times> hip_hist" where
  "aiter_release dev s h = aiter_release_state dev s h"

text \<open>The exported interface: a launch by shape, asynchronous or not, plain or seeded.\<close>

datatype aiter_shape = A8192 | A16384 | A17408 | A32768 | A65536 | A262144 | ALong long_shape

datatype seeded_shape = S1024 | S32768 | S32384

datatype aiter_op =
    APrepare "string option"
  | ALaunchAsync aiter_shape gdn_surface
  | ALaunch aiter_shape gdn_surface
  | ADynamic gdn_surface int
  | ASeededAsync seeded_shape gdn_surface
  | ASeeded gdn_surface
  | ASeededDynamic gdn_surface int
  | ARelease

fun aiter_exec :: "hip \<Rightarrow> aiter_op \<Rightarrow> aiter_state \<Rightarrow> hip_hist \<Rightarrow> int \<times> aiter_state \<times> hip_hist" where
  "aiter_exec dev (APrepare d) s h = aiter_prepare dev d s h"
| "aiter_exec dev (ALaunchAsync sh a) s h =
     (case sh of
        A8192 \<Rightarrow> aiter_q8192_launch_async dev a s h
      | A16384 \<Rightarrow> aiter_q16384_launch_async dev a s h
      | A17408 \<Rightarrow> aiter_q17408_launch_async dev a s h
      | A32768 \<Rightarrow> aiter_q32768_launch_async dev a s h
      | A65536 \<Rightarrow> aiter_q65536_launch_async dev a s h
      | A262144 \<Rightarrow> aiter_q262144_launch_async dev a s h
      | ALong l \<Rightarrow> aiter_long_launch_async (fst (long_exports l)) (snd (long_exports l)) dev a s h)"
| "aiter_exec dev (ALaunch sh a) s h =
     (case sh of
        A8192 \<Rightarrow> aiter_q8192_launch dev a s h
      | A16384 \<Rightarrow> aiter_q16384_launch dev a s h
      | A17408 \<Rightarrow> aiter_q17408_launch dev a s h
      | A32768 \<Rightarrow> aiter_q32768_launch dev a s h
      | A65536 \<Rightarrow> aiter_q65536_launch dev a s h
      | A262144 \<Rightarrow> aiter_q262144_launch dev a s h
      | ALong l \<Rightarrow> aiter_long_launch (fst (long_exports l)) (snd (long_exports l)) dev a s h)"
| "aiter_exec dev (ADynamic a tokens) s h = aiter_launch_async_dynamic dev a tokens s h"
| "aiter_exec dev (ASeededAsync sh a) s h =
     (case sh of
        S1024 \<Rightarrow> aiter_q1024_seeded_launch_async dev a s h
      | S32768 \<Rightarrow> aiter_q32768_seeded_bf16_launch_async dev a s h
      | S32384 \<Rightarrow> aiter_q32384_seeded_bf16_launch_async dev a s h)"
| "aiter_exec dev (ASeeded a) s h = aiter_q1024_seeded_launch dev a s h"
| "aiter_exec dev (ASeededDynamic a tokens) s h = aiter_seeded_bf16_launch_async_dynamic dev a tokens s h"
| "aiter_exec dev ARelease s h = (case aiter_release dev s h of (s, h) \<Rightarrow> (0, s, h))"


section \<open>The invariant\<close>

definition aiter_objects :: "aiter_state \<Rightarrow> code_object list" where
  "aiter_objects s = [a_plain s, a_q262144_bf16 s, a_seeded s, a_q32768_seeded_bf16 s]"

definition aiter_inv :: "aiter_state \<Rightarrow> hip_hist \<Rightarrow> bool" where
  "aiter_inv s h \<longleftrightarrow> orderly h \<and> live_blocks h = {} \<and> objects_ok (aiter_objects s) h \<and>
     (a_prepared s \<longrightarrow> (\<forall>c \<in> set (aiter_objects s). co_module c \<noteq> nullptr)) \<and>
     length (a_kernel_dir s) < 1024 \<and> length (a_error s) < 512"

lemma aiter_objects_simps [simp]:
  "aiter_objects (s\<lparr>a_prepared := p\<rparr>) = aiter_objects s"
  "aiter_objects (s\<lparr>a_kernel_dir := d\<rparr>) = aiter_objects s"
  "aiter_objects (s\<lparr>a_error := e\<rparr>) = aiter_objects s"
  "aiter_objects aiter_initial = replicate 4 no_object"
  by (simp_all add: aiter_objects_def aiter_initial_def eval_nat_numeral)

lemma aiter_error_simps [simp]:
  "aiter_objects (aiter_set_error_text m s) = aiter_objects s"
  "aiter_objects (aiter_set_error dev stage status s) = aiter_objects s"
  "a_prepared (aiter_set_error_text m s) = a_prepared s"
  "a_prepared (aiter_set_error dev stage status s) = a_prepared s"
  by (simp_all add: aiter_set_error_text_def aiter_set_error_def)

lemma aiter_inv_error:
  "aiter_inv s h \<Longrightarrow> aiter_inv (aiter_set_error_text m s) h"
  "aiter_inv s h \<Longrightarrow> aiter_inv (aiter_set_error dev stage status s) h"
  "aiter_inv s h \<Longrightarrow> aiter_inv (s\<lparr>a_error := []\<rparr>) h"
  using length_c_copy [of 512]
  by (simp_all add: aiter_inv_def) (simp_all add: aiter_set_error_text_def aiter_set_error_def)

text \<open>A call on live handles that acquires and releases nothing.\<close>

lemma aiter_inv_call:
  assumes "aiter_inv s h" "call_ok h c" "live_modules ((c, r) # h) = live_modules h"
    "live_functions ((c, r) # h) = live_functions h" "live_blocks ((c, r) # h) = live_blocks h"
  shows "aiter_inv s ((c, r) # h)"
  using assms(1,2) unfolding aiter_inv_def objects_ok_neutral [OF assms(3,4)] assms(5) by simp

lemma aiter_initial_inv: "orderly h \<Longrightarrow> live_blocks h = {} \<Longrightarrow> live_modules h = {} \<Longrightarrow> live_functions h = {} \<Longrightarrow>
    aiter_inv aiter_initial h"
  by (simp add: aiter_inv_def objects_ok_none) (simp add: aiter_initial_def)

lemma aiter_release_state_inv:
  assumes "aiter_inv s h" "aiter_release_state dev s h = (s', h')"
  shows "aiter_inv s' h'" "s' = aiter_initial" "live_modules h' = {}" "live_functions h' = {}" "live_blocks h' = {}"
proof -
  have "mset [co_module (a_q32768_seeded_bf16 s), co_module (a_seeded s), co_module (a_q262144_bf16 s), co_module (a_plain s)]
      = mset (map co_module (aiter_objects s))"
    by (simp add: aiter_objects_def)
  note un = objects_ok_unload [OF _ this]
  have h': "h' = unload_modules dev [co_module (a_q32768_seeded_bf16 s), co_module (a_seeded s),
      co_module (a_q262144_bf16 s), co_module (a_plain s)] h" and s': "s' = aiter_initial"
    using assms(2) by (simp_all add: aiter_release_state_def)
  have i: "objects_ok (aiter_objects s) h" "orderly h" "live_blocks h = {}"
    using assms(1) by (simp_all add: aiter_inv_def)
  show "live_modules h' = {}" "live_functions h' = {}" "s' = aiter_initial"
    unfolding h' using un [OF i(1,2)] s' by blast+
  moreover show "live_blocks h' = {}"
    unfolding h' by (simp only: unload_modules_live i(3))
  moreover have "orderly h'"
    unfolding h' using un [OF i(1,2)] by blast
  ultimately show "aiter_inv s' h'" using aiter_initial_inv by blast
qed

lemma if_cascade:
  assumes "(a, b, c) = (if p then (a1, b1, c1) else if \<not> q then (a2, b2, c2) else if \<not> r then (a3, b3, c3)
      else (a4, b4, c4))"
    and "p \<Longrightarrow> a = a1 \<Longrightarrow> b = b1 \<Longrightarrow> c = c1 \<Longrightarrow> R"
    and "\<not> p \<Longrightarrow> \<not> q \<Longrightarrow> a = a2 \<Longrightarrow> b = b2 \<Longrightarrow> c = c2 \<Longrightarrow> R"
    and "\<not> p \<Longrightarrow> q \<Longrightarrow> \<not> r \<Longrightarrow> a = a3 \<Longrightarrow> b = b3 \<Longrightarrow> c = c3 \<Longrightarrow> R"
    and "\<not> p \<Longrightarrow> q \<Longrightarrow> r \<Longrightarrow> a = a4 \<Longrightarrow> b = b4 \<Longrightarrow> c = c4 \<Longrightarrow> R"
  shows R
  using assms by (auto split: if_splits)

text \<open>Loading into an empty slot keeps the invariant of a provider that is not prepared.\<close>

lemma aiter_load_object_inv:
  assumes dev: "hip_sound dev" and inv: "aiter_inv s h" "\<not> a_prepared s"
    and slot: "i < 4" "\<And>s. get s = aiter_objects s ! i" "\<And>c s. aiter_objects (put c s) = (aiter_objects s)[i := c]"
      "\<And>c s. a_prepared (put c s) = a_prepared s" "\<And>c s. a_kernel_dir (put c s) = a_kernel_dir s"
      "\<And>c s. a_error (put c s) = a_error s"
    and empty: "get s = no_object"
    and load: "aiter_load_object dev d name symb msg get put s h = (ok, s', h')"
  shows "aiter_inv s' h'" "\<not> a_prepared s'" "ok \<Longrightarrow> co_module (get s') \<noteq> nullptr"
    "\<And>j. j < 4 \<Longrightarrow> j \<noteq> i \<Longrightarrow> aiter_objects s' ! j = aiter_objects s ! j"
proof -
  have len: "length (aiter_objects s) = 4" for s by (simp add: aiter_objects_def)
  let ?path = "d @ kPathSeparator @ name @ ''.hsaco''"
  let ?r = "answers dev h (ModuleLoad ?path)"
  let ?h1 = "(ModuleLoad ?path, ?r) # h"
  let ?s1 = "put \<lparr>co_module = hip_out ?r, co_function = nullptr\<rparr> s"
  let ?call = "ModuleGetFunction (co_module (get ?s1)) symb"
  let ?q = "answers dev ?h1 ?call"
  have I: "orderly h" "live_blocks h = {}" "objects_ok (aiter_objects s) h"
    "length (a_kernel_dir s) < 1024" "length (a_error s) < 512"
    using inv(1) by (simp_all add: aiter_inv_def)
  have get1: "get ?s1 = \<lparr>co_module = hip_out ?r, co_function = nullptr\<rparr>"
    by (simp add: slot(1-3) len)
  have upd: "(get s)\<lparr>co_module := hip_out ?r\<rparr> = \<lparr>co_module = hip_out ?r, co_function = nullptr\<rparr>"
    by (simp add: empty no_object_def)
  have eq: "(ok, s', h') = (if 1400 \<le> length ?path then (False, aiter_set_error_text (Some msg) s, h)
      else if \<not> hip_ok ?r then (False, aiter_set_error dev (''hipModuleLoad('' @ name @ '')'') (hip_status ?r) s, ?h1)
      else if \<not> hip_ok ?q
      then (False, aiter_set_error dev (''hipModuleGetFunction('' @ name @ '')'') (hip_status ?q) ?s1, (?call, ?q) # ?h1)
      else (True, put ((get ?s1)\<lparr>co_function := hip_out ?q\<rparr>) ?s1, (?call, ?q) # ?h1))"
    unfolding load [symmetric] aiter_load_object_def Let_def ask_def prod.case upd by (rule refl)
  consider (long) "ok = False" "s' = aiter_set_error_text (Some msg) s" "h' = h"
    | (noload) "ok = False" "s' = aiter_set_error dev (''hipModuleLoad('' @ name @ '')'') (hip_status ?r) s"
        "h' = ?h1" "\<not> hip_ok ?r"
    | (nofunc) "ok = False" "s' = aiter_set_error dev (''hipModuleGetFunction('' @ name @ '')'') (hip_status ?q) ?s1"
        "h' = (?call, ?q) # ?h1" "hip_ok ?r" "\<not> hip_ok ?q"
    | (full) "ok = True" "s' = put ((get ?s1)\<lparr>co_function := hip_out ?q\<rparr>) ?s1" "h' = (?call, ?q) # ?h1"
        "hip_ok ?r" "hip_ok ?q"
    by (rule if_cascade [OF eq]) blast+
  note cases = this
  have loaded: "aiter_inv ?s1 ?h1" "co_module (get ?s1) \<in> live_modules ?h1" "hip_out ?r \<noteq> nullptr" if "hip_ok ?r"
  proof -
    have m: "hip_out ?r \<noteq> nullptr" "hip_out ?r \<notin> live_modules h"
      using hip_soundD(1,2) [OF dev that] by blast+
    have "objects_ok ((aiter_objects s)[i := \<lparr>co_module = hip_out ?r, co_function = nullptr\<rparr>]) ?h1"
      using that m slot(1) empty by (intro objects_ok_load [OF I(3)]) (simp_all add: len no_object_def flip: slot(2))
    then show "aiter_inv ?s1 ?h1"
      using I inv(2) by (simp add: aiter_inv_def slot)
    show "co_module (get ?s1) \<in> live_modules ?h1" "hip_out ?r \<noteq> nullptr"
      using that m by (simp_all add: get1)
  qed
  have "aiter_inv s' h' \<and> \<not> a_prepared s' \<and> (ok \<longrightarrow> co_module (get s') \<noteq> nullptr)"
  proof (cases rule: cases)
    case long
    then show ?thesis using inv aiter_inv_error(1) by simp
  next
    case noload
    have "aiter_inv s h'"
      unfolding noload(3) by (rule aiter_inv_call [OF inv(1)]) (simp_all add: noload(4))
    then show ?thesis unfolding noload(1,2) using inv(2) aiter_inv_error(2) by simp
  next
    case nofunc
    have "aiter_inv ?s1 h'"
      unfolding nofunc(3)
      by (rule aiter_inv_call [OF loaded(1) [OF nofunc(4)]]) (use loaded(2) [OF nofunc(4)] nofunc(5) in simp_all)
    then show ?thesis unfolding nofunc(1,2) using inv(2) aiter_inv_error(2) by (simp add: slot(4))
  next
    case full
    note L = loaded [OF full(4)]
    have "objects_ok ((aiter_objects ?s1)[i := (aiter_objects ?s1 ! i)\<lparr>co_function := hip_out ?q\<rparr>])
        ((ModuleGetFunction (co_module (aiter_objects ?s1 ! i)) symb, ?q) # ?h1)"
      using L(1,3) full(5) slot(1) get1
      by (intro objects_ok_function) (simp_all add: aiter_inv_def len flip: slot(2))
    then have "aiter_inv s' h'"
      using L(1,2) inv(2) full(2,3) by (simp add: aiter_inv_def slot)
    moreover have "co_module (get s') = hip_out ?r"
      by (simp add: full(2) slot(1-3) len)
    ultimately show ?thesis
      using L(3) inv(2) full(2) by (simp add: slot)
  qed
  then show "aiter_inv s' h'" "\<not> a_prepared s'" "ok \<Longrightarrow> co_module (get s') \<noteq> nullptr" by blast+
  show "aiter_objects s' ! j = aiter_objects s ! j" if "j < 4" "j \<noteq> i" for j
    using that by (cases rule: cases) (simp_all add: aiter_set_error_text_def aiter_set_error_def slot)
qed

text \<open>The first \<open>k\<close> slots are loaded and the others empty.\<close>

definition aiter_loading :: "nat \<Rightarrow> aiter_state \<Rightarrow> hip_hist \<Rightarrow> bool" where
  "aiter_loading k s h \<longleftrightarrow> aiter_inv s h \<and> \<not> a_prepared s \<and>
     (\<forall>j<4. if j < k then co_module (aiter_objects s ! j) \<noteq> nullptr else aiter_objects s ! j = no_object)"

definition aiter_outcome :: "nat \<Rightarrow> bool \<times> aiter_state \<times> hip_hist \<Rightarrow> bool" where
  "aiter_outcome k r \<longleftrightarrow> (case r of (ok, s, h) \<Rightarrow> aiter_inv s h \<and> \<not> a_prepared s \<and> (ok \<longrightarrow> aiter_loading k s h))"

lemma aiter_load_object_outcome:
  assumes dev: "hip_sound dev" and k: "aiter_loading i s h"
    and slot: "i < 4" "\<And>s. get s = aiter_objects s ! i" "\<And>c s. aiter_objects (put c s) = (aiter_objects s)[i := c]"
      "\<And>c s. a_prepared (put c s) = a_prepared s" "\<And>c s. a_kernel_dir (put c s) = a_kernel_dir s"
      "\<And>c s. a_error (put c s) = a_error s"
  shows "aiter_outcome (Suc i) (aiter_load_object dev d name symb msg get put s h)"
proof -
  obtain ok s' h' where load: "aiter_load_object dev d name symb msg get put s h = (ok, s', h')"
    by (cases "aiter_load_object dev d name symb msg get put s h")
  have e: "aiter_inv s h" "\<not> a_prepared s" "get s = no_object"
    using k slot(1) by (auto simp: aiter_loading_def slot(2))
  note L = aiter_load_object_inv [OF dev e(1,2) slot e(3) load]
  have "aiter_loading (Suc i) s' h'" if ok
    using L(1,2) L(3) [OF that] L(4) k slot(1) unfolding aiter_loading_def slot(2) by (metis less_Suc_eq)
  with L(1,2) show ?thesis by (simp add: aiter_outcome_def load)
qed

lemma aiter_outcome_and_then:
  assumes "aiter_outcome k r" "\<And>s h. aiter_loading k s h \<Longrightarrow> aiter_outcome (Suc k) (f s h)"
  shows "aiter_outcome (Suc k) (and_then r f)"
  using assms by (cases r) (auto simp: and_then_def aiter_outcome_def)

lemma aiter_load_kernel_outcome:
  assumes dev: "hip_sound dev" and start: "aiter_loading 0 s h"
  shows "aiter_outcome 4 (aiter_load_kernel dev d s h)"
proof -
  have "aiter_outcome (Suc (Suc (Suc (Suc 0)))) (aiter_load_kernel dev d s h)"
    unfolding aiter_load_kernel_def
    by (intro aiter_outcome_and_then aiter_load_object_outcome [OF dev] start)
      (simp_all add: aiter_objects_def)
  then show ?thesis by (simp add: eval_nat_numeral)
qed

lemma aiter_prepare_inv:
  assumes dev: "hip_sound dev" and inv: "aiter_inv s h" and run: "aiter_prepare dev kd s h = (r, s', h')"
  shows "aiter_inv s' h'"
proof -
  consider (refuse) m where "s' = aiter_set_error_text m s" "h' = h" | (same) "s' = s" "h' = h"
    | (load) d where "kd = Some d" "d \<noteq> []" "\<not> (a_prepared s \<and> a_kernel_dir s = d)"
    using run by (cases kd) (auto simp: aiter_prepare_def split: if_splits)
  then show ?thesis
  proof cases
    case load
    obtain s1 h1 where rel: "aiter_release_state dev s h = (s1, h1)" by (cases "aiter_release_state dev s h")
    note R = aiter_release_state_inv [OF inv rel]
    let ?s2 = "s1\<lparr>a_kernel_dir := c_copy 1024 d\<rparr>"
    have "aiter_loading 0 ?s2 h1"
      using R(1) length_c_copy [of 1024 d]
      by (simp add: aiter_loading_def aiter_inv_def R(2)) (simp add: aiter_initial_def)
    then have out: "aiter_outcome 4 (aiter_load_kernel dev d ?s2 h1)"
      by (rule aiter_load_kernel_outcome [OF dev])
    obtain ok s3 h3 where eq: "aiter_load_kernel dev d ?s2 h1 = (ok, s3, h3)"
      by (cases "aiter_load_kernel dev d ?s2 h1")
    note k = eq out [unfolded eq aiter_outcome_def prod.case, THEN conjunct1]
      out [unfolded eq aiter_outcome_def prod.case, THEN conjunct2, THEN conjunct2]
    obtain s4 h4 where rel2: "aiter_release_state dev s3 h3 = (s4, h4)" by (cases "aiter_release_state dev s3 h3")
    show ?thesis
    proof (cases ok)
      case True
      then have "\<forall>c \<in> set (aiter_objects s3). co_module c \<noteq> nullptr"
        using k(3) by (auto simp: aiter_loading_def in_set_conv_nth) (simp add: aiter_objects_def)
      moreover have "s' = s3\<lparr>a_prepared := True, a_error := []\<rparr>" "h' = h3"
        using run load True by (auto simp: aiter_prepare_def rel k(1))
      ultimately show ?thesis using k(2) by (simp add: aiter_inv_def)
    next
      case False
      then have "s' = aiter_set_error_text (Some (a_error s3)) s4" "h' = h4"
        using run load by (auto simp: aiter_prepare_def rel k(1) rel2)
      then show ?thesis
        using aiter_release_state_inv(1) [OF k(2) rel2] aiter_inv_error(1) by simp
    qed
  qed (use inv aiter_inv_error(1) in simp_all)
qed

lemma aiter_launch_inv:
  assumes inv: "aiter_inv s h" and c: "c \<in> set (aiter_objects s)"
  shows "aiter_launch_with_function dev (co_function c) a n nm s h = (r, s', h') \<Longrightarrow> aiter_inv s' h'"
    and "aiter_seeded_with_function dev (co_function c) a n nm s h = (r, s', h') \<Longrightarrow> aiter_inv s' h'"
proof -
  have live: "co_function c \<noteq> nullptr \<Longrightarrow> co_function c \<in> snd ` live_functions h"
    using inv c objects_ok_function_live unfolding aiter_inv_def by blast
  have k: "aiter_inv s ((ModuleLaunchKernel (co_function c) dims args, q) # h)" if "co_function c \<noteq> nullptr" for dims args q
    by (rule aiter_inv_call [OF inv]) (simp_all add: live that)
  show "aiter_inv s' h'" if "aiter_launch_with_function dev (co_function c) a n nm s h = (r, s', h')"
    using that inv k aiter_inv_error
    by (auto simp: aiter_launch_with_function_def ask_def Let_def split: if_splits)
  show "aiter_inv s' h'" if "aiter_seeded_with_function dev (co_function c) a n nm s h = (r, s', h')"
    using that inv k aiter_inv_error
    by (auto simp: aiter_seeded_with_function_def ask_def Let_def split: if_splits)
qed

lemma aiter_synchronize_inv:
  assumes "aiter_synchronize dev st stage launched = (r, s', h')"
    and "\<And>r s h. launched = (r, s, h) \<Longrightarrow> aiter_inv s h"
  shows "aiter_inv s' h'"
proof -
  obtain q s h where l: "launched = (q, s, h)" by (cases launched)
  have inv: "aiter_inv s h" by (rule assms(2) [OF l])
  have "aiter_inv s ((StreamSynchronize st, x) # h)" for x
    by (rule aiter_inv_call [OF inv]) simp_all
  with assms(1) inv aiter_inv_error show ?thesis
    by (auto simp: aiter_synchronize_def l ask_def Let_def split: if_splits)
qed


lemmas aiter_exports =
  aiter_q8192_launch_async_def aiter_launch_async_dynamic_def aiter_q8192_launch_def aiter_q16384_launch_async_def
  aiter_q16384_launch_def aiter_q17408_launch_async_def aiter_q17408_launch_def aiter_q1024_seeded_launch_async_def
  aiter_q1024_seeded_launch_def aiter_q32768_seeded_bf16_launch_async_def aiter_q32384_seeded_bf16_launch_async_def
  aiter_seeded_bf16_launch_async_dynamic_def aiter_q32768_launch_async_def aiter_q32768_launch_def
  aiter_q65536_launch_async_def aiter_q65536_launch_def aiter_long_launch_async_def aiter_long_launch_def
  aiter_q262144_launch_async_def aiter_q262144_launch_def aiter_launch_seeded_async_def
  aiter_launch_seeded_synchronous_def aiter_launch_synchronous_def

lemma aiter_launch_async_inv:
  "aiter_inv s h \<Longrightarrow> aiter_launch_async dev a n nm s h = (r, s', h') \<Longrightarrow> aiter_inv s' h'"
  unfolding aiter_launch_async_def by (erule aiter_launch_inv(1) [rotated 2]) (simp_all add: aiter_objects_def)

lemma aiter_exec_inv:
  assumes dev: "hip_sound dev" and inv: "aiter_inv s h" and run: "aiter_exec dev c s h = (r, s', h')"
  shows "aiter_inv s' h'"
proof -
  have objs: "a_plain s \<in> set (aiter_objects s)" "a_q262144_bf16 s \<in> set (aiter_objects s)"
    "a_seeded s \<in> set (aiter_objects s)" "a_q32768_seeded_bf16 s \<in> set (aiter_objects s)"
    by (simp_all add: aiter_objects_def)
  note L = aiter_launch_inv [OF inv objs(1)] aiter_launch_inv [OF inv objs(2)] aiter_launch_inv [OF inv objs(3)]
    aiter_launch_inv [OF inv objs(4)] aiter_launch_async_inv [OF inv]
  note D = aiter_inv_error(1) [OF inv] aiter_synchronize_inv L
  show ?thesis
  proof (cases c)
    case (APrepare d)
    then show ?thesis using run aiter_prepare_inv [OF dev inv] by simp
  next
    case (ALaunchAsync sh a)
    then show ?thesis using run by (cases sh) (auto simp: aiter_exports dest: L)
  next
    case (ALaunch sh a)
    then show ?thesis using run by (cases sh) (auto simp: aiter_exports elim!: aiter_synchronize_inv dest: L)
  next
    case (ADynamic a n)
    then show ?thesis using run D(1) by (auto simp: aiter_exports split: if_splits dest: L)
  next
    case (ASeededAsync sh a)
    then show ?thesis using run by (cases sh) (auto simp: aiter_exports dest: L)
  next
    case (ASeeded a)
    then show ?thesis using run by (auto simp: aiter_exports elim!: aiter_synchronize_inv dest: L)
  next
    case (ASeededDynamic a n)
    then show ?thesis using run D(1) by (auto simp: aiter_exports split: if_splits dest: L)
  next
    case ARelease
    then show ?thesis
      using run aiter_release_state_inv(1) [OF inv] by (auto simp: aiter_release_def split: prod.splits)
  qed
qed

interpretation aiter: device_provider aiter_exec ARelease aiter_initial aiter_inv
proof
  show "aiter_inv aiter_initial []" by (rule aiter_initial_inv) simp_all
  show "aiter_inv s' h'" if "hip_sound dev" "aiter_inv s h" "aiter_exec dev c s h = (r, s', h')" for dev s h c r s' h'
    using that by (rule aiter_exec_inv)
  show "orderly h" if "aiter_inv s h" for s h
    using that by (simp add: aiter_inv_def)
  show "s' = aiter_initial \<and> live_modules h' = {} \<and> live_functions h' = {} \<and> live_blocks h' = {}"
    if "hip_sound dev" "aiter_inv s h" "aiter_exec dev ARelease s h = (r, s', h')" for dev s h r s' h'
    using that aiter_release_state_inv(2-5) [OF that(2)] by (auto simp: aiter_release_def split: prod.splits)
qed


section \<open>Properties\<close>

text \<open>The code object and the token count of a shape: only q262144 uses the BF16 object.\<close>

fun aiter_shape_object :: "aiter_shape \<Rightarrow> aiter_state \<Rightarrow> code_object" where
  "aiter_shape_object A262144 s = a_q262144_bf16 s"
| "aiter_shape_object _ s = a_plain s"

fun aiter_shape_tokens :: "aiter_shape \<Rightarrow> int" where
  "aiter_shape_tokens A8192 = 8192"
| "aiter_shape_tokens A16384 = 16384"
| "aiter_shape_tokens A17408 = 17408"
| "aiter_shape_tokens A32768 = 32768"
| "aiter_shape_tokens A65536 = 65536"
| "aiter_shape_tokens A262144 = 262144"
| "aiter_shape_tokens (ALong l) = fst (long_exports l)"

definition aiter_launchable :: "code_object \<Rightarrow> gdn_surface \<Rightarrow> aiter_state \<Rightarrow> bool" where
  "aiter_launchable c a s \<longleftrightarrow> a_prepared s \<and> co_function c \<noteq> nullptr \<and> gs_postconv a \<noteq> nullptr \<and>
     gs_gate a \<noteq> nullptr \<and> gs_output a \<noteq> nullptr \<and> gs_final_state a \<noteq> nullptr \<and> gs_decay a \<in> {0, 1}"

lemma c_copy_Nil_iff: "1 < n \<Longrightarrow> c_copy n xs = [] \<longleftrightarrow> xs = []"
  by (simp add: c_copy_def)

lemma hip_failure_nonempty [simp]: "hip_failure dev stage status \<noteq> []"
  by (simp add: hip_failure_def)

lemma aiter_last_error_simps [simp]:
  "aiter_last_error (aiter_set_error dev stage status s) \<noteq> []"
  "aiter_last_error (aiter_set_error_text (Some m) s) = [] \<longleftrightarrow> m = []"
  "aiter_last_error (s\<lparr>a_error := e\<rparr>) = e"
  by (simp_all add: aiter_last_error_def aiter_set_error_def aiter_set_error_text_def c_copy_Nil_iff)

lemma aiter_launch_with_function_spec:
  assumes "aiter_launch_with_function dev (co_function c) a n nm s h = (r, s', h')"
  shows "if aiter_launchable c a s
     then \<exists>q. h' = (ModuleLaunchKernel (co_function c)
              \<lparr>grid = (16, 32, 1), block = (32, 1, 1), shared_bytes = 4096, stream = gs_stream a\<rparr>
              [Pointer (gs_postconv a), Pointer (gs_gate a), Pointer (gs_output a), Pointer (gs_final_state a),
               Int32 (gs_decay a), Int32 n, Pointer nullptr, Pointer nullptr], q) # h \<and>
            r = (if hip_ok q then 1 else 0)
     else h' = h \<and> r = 0"
    and "aiter_last_error s' = [] \<longleftrightarrow> r \<noteq> 0" "aiter_objects s' = aiter_objects s"
  using assms
  by (auto simp: aiter_launch_with_function_def aiter_launchable_def aiter_dims_def aiter_kGrid_def aiter_kThreads_def
      aiter_kDynamicSharedBytes_def ask_def Let_def split: if_splits)

lemma aiter_exec_launch_async:
  "\<exists>nm. aiter_exec dev (ALaunchAsync sh a) s h =
     aiter_launch_with_function dev (co_function (aiter_shape_object sh s)) a (aiter_shape_tokens sh) nm s h"
  by (cases sh) (auto simp: aiter_exports aiter_launch_async_def)

lemma aiter_exec_launch:
  "\<exists>stage. aiter_exec dev (ALaunch sh a) s h =
     aiter_synchronize dev (gs_stream a) stage (aiter_exec dev (ALaunchAsync sh a) s h)"
  by (cases sh) (auto simp: aiter_exports)

lemma aiter_synchronize_spec:
  assumes "aiter_synchronize dev st stage (r, s, h) = (r', s', h')"
  shows "if r = 0 then h' = h \<and> r' = 0
         else \<exists>q. h' = (StreamSynchronize st, q) # h \<and> r' = (if hip_ok q then 1 else 0)"
  using assms by (auto simp: aiter_synchronize_def ask_def Let_def split: if_splits)

lemma aiter_load_object_kernel_dir:
  assumes "\<And>c s. a_kernel_dir (put c s) = a_kernel_dir s"
    and "aiter_load_object dev d name symb msg get put s h = (ok, s', h')"
  shows "a_kernel_dir s' = a_kernel_dir s"
  using assms
  by (auto simp: aiter_load_object_def aiter_set_error_def aiter_set_error_text_def ask_def Let_def split: if_splits)

lemma aiter_load_kernel_dir:
  assumes "aiter_load_kernel dev d s h = (ok, s', h')"
  shows "a_kernel_dir s' = a_kernel_dir s"
proof -
  define keeps where "keeps r = (a_kernel_dir (fst (snd r)) = a_kernel_dir s)" for r :: "bool \<times> aiter_state \<times> hip_hist"
  have seq: "keeps (and_then r f)" if "keeps r" "\<And>t k. a_kernel_dir t = a_kernel_dir s \<Longrightarrow> keeps (f t k)" for r f
    using that by (cases r) (simp add: and_then_def keeps_def)
  have obj: "keeps (aiter_load_object dev d name symb msg get put t k)"
    if "a_kernel_dir t = a_kernel_dir s" "\<And>c s. a_kernel_dir (put c s) = a_kernel_dir s" for name symb msg get put t k
    using aiter_load_object_kernel_dir [of put dev d name symb msg get t k] that
    by (cases "aiter_load_object dev d name symb msg get put t k") (simp add: keeps_def)
  have "keeps (aiter_load_kernel dev d s h)"
    unfolding aiter_load_kernel_def by (intro seq obj) simp_all
  with assms show ?thesis by (simp add: keeps_def)
qed

text \<open>C33. Whatever sequence of exported functions of the fused gated-delta-net provider a client calls, with any
  arguments and whatever the HIP runtime answers, no module is unloaded that is not loaded, no function is
  looked up in or launched from a module that is not loaded, and after the final release no module is left.\<close>

theorem aiter_session_safe:
  assumes "hip_sound dev" "run_ops aiter_exec dev (ops @ [ARelease]) aiter_initial [] = (s, h)"
  shows "orderly h \<and> s = aiter_initial \<and> live_modules h = {} \<and> live_functions h = {}"
  using aiter.session_safe [OF assms] by blast

definition example_surface :: gdn_surface where
  "example_surface = \<lparr>gs_postconv = 4096, gs_gate = 8192, gs_initial_state = nullptr, gs_output = 12288,
     gs_final_state = 16384, gs_decay = 1, gs_stream = 0\<rparr>"

lemmas aiter_example_defs =
  aiter_prepare_def aiter_release_state_def aiter_initial_def no_object_def aiter_load_kernel_def
  aiter_load_object_def and_then_def ask_def good_device_def nullptr_def hipSuccess_def kPathSeparator_def
  aiter_q8192_launch_def aiter_launch_synchronous_def aiter_launch_async_def aiter_launch_with_function_def
  aiter_synchronize_def example_surface_def aiter_release_def hip_tell_eq

theorem aiter_session_safe_witness:
  "\<exists>s h. run_ops aiter_exec good_device ([APrepare (Some ''k''), ALaunch A8192 example_surface] @ [ARelease])
       aiter_initial [] = (s, h) \<and> orderly h \<and> live_modules h = {} \<and> length h = 14"
proof -
  obtain s h where run: "run_ops aiter_exec good_device
      ([APrepare (Some ''k''), ALaunch A8192 example_surface] @ [ARelease]) aiter_initial [] = (s, h)"
    by (cases "run_ops aiter_exec good_device
      ([APrepare (Some ''k''), ALaunch A8192 example_surface] @ [ARelease]) aiter_initial []")
  have "length (snd (run_ops aiter_exec good_device
      ([APrepare (Some ''k''), ALaunch A8192 example_surface] @ [ARelease]) aiter_initial [])) = 14"
    by (simp add: aiter_example_defs)
  with run aiter_session_safe [OF good_device_sound run] show ?thesis by auto
qed

lemma launch_and_wait:
  assumes "aiter_exec dev (ALaunchAsync sh a) s h = (r, s', h')"
    and "aiter_exec dev (ALaunch sh a) s h = (r2, s2, h2)"
  shows "if aiter_launchable (aiter_shape_object sh s) a s
     then \<exists>q. h' = (ModuleLaunchKernel (co_function (aiter_shape_object sh s))
              \<lparr>grid = (16, 32, 1), block = (32, 1, 1), shared_bytes = 4096, stream = gs_stream a\<rparr>
              [Pointer (gs_postconv a), Pointer (gs_gate a), Pointer (gs_output a), Pointer (gs_final_state a),
               Int32 (gs_decay a), Int32 (aiter_shape_tokens sh), Pointer nullptr, Pointer nullptr], q) # h \<and>
            r = (if hip_ok q then 1 else 0)
     else h' = h \<and> r = 0"
    and "(aiter_last_error s' = [] \<longleftrightarrow> r = 1) \<and> aiter_objects s' = aiter_objects s"
    and "if r = 0 then h2 = h' \<and> r2 = 0
         else \<exists>q. h2 = (StreamSynchronize (gs_stream a), q) # h' \<and> r2 = (if hip_ok q then 1 else 0)"
proof -
  obtain nm where nm: "aiter_launch_with_function dev (co_function (aiter_shape_object sh s)) a (aiter_shape_tokens sh) nm s h
      = (r, s', h')"
    using aiter_exec_launch_async assms(1) by metis
  note S = aiter_launch_with_function_spec [OF nm]
  show "if aiter_launchable (aiter_shape_object sh s) a s
     then \<exists>q. h' = (ModuleLaunchKernel (co_function (aiter_shape_object sh s))
              \<lparr>grid = (16, 32, 1), block = (32, 1, 1), shared_bytes = 4096, stream = gs_stream a\<rparr>
              [Pointer (gs_postconv a), Pointer (gs_gate a), Pointer (gs_output a), Pointer (gs_final_state a),
               Int32 (gs_decay a), Int32 (aiter_shape_tokens sh), Pointer nullptr, Pointer nullptr], q) # h \<and>
            r = (if hip_ok q then 1 else 0)
     else h' = h \<and> r = 0"
    by (rule S(1))
  then have "r = 0 \<or> r = 1" by (auto split: if_splits)
  then show "(aiter_last_error s' = [] \<longleftrightarrow> r = 1) \<and> aiter_objects s' = aiter_objects s"
    using S(2,3) by auto
  show "if r = 0 then h2 = h' \<and> r2 = 0
      else \<exists>q. h2 = (StreamSynchronize (gs_stream a), q) # h' \<and> r2 = (if hip_ok q then 1 else 0)"
    using aiter_exec_launch [of dev sh a s h] aiter_synchronize_spec assms by metis
qed

text \<open>Each exported launch of a shape launches exactly one kernel, the one of the shape's code object, over
  the fixed grid with the caller's surfaces and the shape's token count, or, when the provider is not prepared
  or a surface is invalid, launches nothing and fails; it returns 1 exactly when HIP accepted the launch, and
  the last error is empty exactly then. The synchronous variant then waits for the stream, and only then.\<close>

theorem aiter_launch_dispatches:
  assumes "aiter_exec dev (ALaunchAsync sh a) s h = (r, s', h')"
    and "aiter_exec dev (ALaunch sh a) s h = (r2, s2, h2)"
  shows "(if aiter_launchable (aiter_shape_object sh s) a s
     then \<exists>q. h' = (ModuleLaunchKernel (co_function (aiter_shape_object sh s))
              \<lparr>grid = (16, 32, 1), block = (32, 1, 1), shared_bytes = 4096, stream = gs_stream a\<rparr>
              [Pointer (gs_postconv a), Pointer (gs_gate a), Pointer (gs_output a), Pointer (gs_final_state a),
               Int32 (gs_decay a), Int32 (aiter_shape_tokens sh), Pointer nullptr, Pointer nullptr], q) # h \<and>
            r = (if hip_ok q then 1 else 0)
     else h' = h \<and> r = 0) \<and>
    ((aiter_last_error s' = [] \<longleftrightarrow> r = 1) \<and> aiter_objects s' = aiter_objects s) \<and>
    (if r = 0 then h2 = h' \<and> r2 = 0
         else \<exists>q. h2 = (StreamSynchronize (gs_stream a), q) # h' \<and> r2 = (if hip_ok q then 1 else 0))"
  by (intro conjI launch_and_wait [OF assms])

theorem aiter_launch_dispatches_witness:
  "\<exists>s' h' s2 h2. aiter_exec good_device (ALaunchAsync A262144 example_surface)
       (aiter_initial\<lparr>a_prepared := True, a_q262144_bf16 := \<lparr>co_module = 1, co_function = 2\<rparr>\<rparr>) [] = (1, s', h') \<and>
     aiter_exec good_device (ALaunch A262144 example_surface)
       (aiter_initial\<lparr>a_prepared := True, a_q262144_bf16 := \<lparr>co_module = 1, co_function = 2\<rparr>\<rparr>) [] = (1, s2, h2) \<and>
     length h' = 1 \<and> aiter_last_error s' = []"
proof -
  let ?s = "aiter_initial\<lparr>a_prepared := True, a_q262144_bf16 := \<lparr>co_module = 1, co_function = 2\<rparr>\<rparr>"
  obtain r s' h' where a: "aiter_exec good_device (ALaunchAsync A262144 example_surface) ?s [] = (r, s', h')"
    by (cases "aiter_exec good_device (ALaunchAsync A262144 example_surface) ?s []")
  obtain r2 s2 h2 where b: "aiter_exec good_device (ALaunch A262144 example_surface) ?s [] = (r2, s2, h2)"
    by (cases "aiter_exec good_device (ALaunch A262144 example_surface) ?s []")
  have "fst (aiter_exec good_device (ALaunchAsync A262144 example_surface) ?s []) = 1"
    and "fst (aiter_exec good_device (ALaunch A262144 example_surface) ?s []) = 1"
    by (simp_all add: aiter_example_defs aiter_exports)
  then have r: "r = 1" "r2 = 1" using a b by simp_all
  have "aiter_launchable (aiter_shape_object A262144 ?s) example_surface ?s"
    by (simp add: aiter_launchable_def example_surface_def nullptr_def)
  then have "length h' = 1" "aiter_last_error s' = []"
    using aiter_launch_dispatches [OF a b] r by auto
  with a b r show ?thesis by blast
qed

text \<open>C37. The directory of the loaded kernels is kept in a buffer of 1024 bytes, while paths of up to 1399 bytes are
  loaded: after preparing a directory whose name has 1024 characters or more, preparing the different
  directory named by its first 1023 characters succeeds without loading anything, so the kernels of the
  first directory stay in use.\<close>

theorem aiter_prepare_long_directory:
  assumes "aiter_inv s h" "aiter_prepare dev (Some d) s h = (1, s', h')" "1024 \<le> length d"
  shows "take 1023 d \<noteq> d \<and> aiter_prepare dev (Some (take 1023 d)) s' h' = (1, s', h')"
proof -
  have "length (a_kernel_dir s) < 1024" using assms(1) by (simp add: aiter_inv_def)
  with assms(3) have d: "d \<noteq> []" "a_kernel_dir s \<noteq> d" by auto
  obtain s1 h1 where rel: "aiter_release_state dev s h = (s1, h1)" by (cases "aiter_release_state dev s h")
  obtain ok s3 h3 where k: "aiter_load_kernel dev d (s1\<lparr>a_kernel_dir := c_copy 1024 d\<rparr>) h1 = (ok, s3, h3)"
    by (cases "aiter_load_kernel dev d (s1\<lparr>a_kernel_dir := c_copy 1024 d\<rparr>) h1")
  have ok: ok and s': "s' = s3\<lparr>a_prepared := True, a_error := []\<rparr>"
    using assms(2) d by (auto simp: aiter_prepare_def rel k split: if_splits prod.splits)
  have "a_kernel_dir s' = take 1023 d" "a_prepared s'"
    using aiter_load_kernel_dir [OF k] by (simp_all add: s' c_copy_def)
  moreover have "take 1023 d \<noteq> []" using assms(3) by auto
  moreover have "length (take 1023 d) \<noteq> length d" using assms(3) by simp
  then have "take 1023 d \<noteq> d" by metis
  ultimately show ?thesis by (simp add: aiter_prepare_def)
qed

theorem aiter_prepare_long_directory_witness:
  "\<exists>s' h'. aiter_prepare good_device (Some (replicate 1100 CHR ''a'')) aiter_initial [] = (1, s', h') \<and>
     aiter_prepare good_device (Some (replicate 1023 CHR ''a'')) s' h' = (1, s', h')"
proof -
  obtain r s' h' where a: "aiter_prepare good_device (Some (replicate 1100 CHR ''a'')) aiter_initial [] = (r, s', h')"
    by (cases "aiter_prepare good_device (Some (replicate 1100 CHR ''a'')) aiter_initial []")
  have "fst (aiter_prepare good_device (Some (replicate 1100 CHR ''a'')) aiter_initial []) = 1"
    by (simp add: aiter_example_defs)
  then have r: "r = 1" using a by simp
  have "aiter_inv aiter_initial []" by (rule aiter_initial_inv) simp_all
  from aiter_prepare_long_directory [OF this a [unfolded r]] a r show ?thesis
    by (simp)
qed

end
