(* ===== verification/Gdn_Fla.thy ===== *)
theory Gdn_Fla
  imports Hip_Platform
begin

text \<open>
  The chunked gated-delta-net provider of
  \<^verbatim>\<open>native/providers/gdn/qrt_fla_chunk_gdn_q8192_provider.cpp\<close>, which exports the same prepare, launch,
  last-error and release functions as the fused one: eight kernels run over five device scratch
  blocks, in segments of 1024 tokens for the longest shape. Conventions are those of the fused
  provider's theory.
\<close>

section \<open>Constants and state\<close>

definition fla_kQkHeads :: u64 where
  "fla_kQkHeads = 16"

definition fla_kValueHeads :: u64 where
  "fla_kValueHeads = 32"

definition fla_kKeyDim :: u64 where
  "fla_kKeyDim = 128"

definition fla_kChunk :: int where
  "fla_kChunk = 64"

definition fla_kGateRows :: u64 where
  "fla_kGateRows = 64"

definition fla_kQkvRows :: u64 where
  "fla_kQkvRows = 8192"

definition fla_kValueFeatures :: u64 where
  "fla_kValueFeatures = 32 * 128"

definition fla_kStateElements :: u64 where
  "fla_kStateElements = fla_kValueFeatures * fla_kKeyDim"

definition fla_kQ65536SegmentTokens :: int where
  "fla_kQ65536SegmentTokens = 1024"

definition kCompactQkvBytesPerToken :: u64 where
  "kCompactQkvBytesPerToken = 16384"

definition kGateAndBetaBytesPerToken :: u64 where
  "kGateAndBetaBytesPerToken = 192"

definition kAOrWBytesPerToken :: u64 where
  "kAOrWBytesPerToken = 8192"

definition kAiOrVNewBytesPerToken :: u64 where
  "kAiOrVNewBytesPerToken = 8192"

definition kChunkStateBytesPerToken :: u64 where
  "kChunkStateBytesPerToken = 16384"

definition kScratchBytesPerToken :: u64 where
  "kScratchBytesPerToken = kCompactQkvBytesPerToken + kGateAndBetaBytesPerToken + kAOrWBytesPerToken +
     kAiOrVNewBytesPerToken + kChunkStateBytesPerToken"

datatype kernel_index =
  KQkL2Norm | KVBetaCopy | KGateCumsum | KScaledDotKkt | KSolveTril64 | KRecomputeWU | KChunkState | KChunkOutput

record kernel_spec =
  ks_file :: string
  ks_symbol :: string
  ks_threads :: u32
  ks_shared :: u32

definition kKernelSpecs :: "kernel_spec list" where
  "kKernelSpecs =
     [\<lparr>ks_file = ''q8192_fla_chunk_gdn_qk_l2norm.hsaco'', ks_symbol = ''_fla_qk_l2norm_from_native_f32_kernel'',
       ks_threads = 128, ks_shared = 512\<rparr>,
      \<lparr>ks_file = ''q8192_fla_chunk_gdn_v_beta_copy.hsaco'', ks_symbol = ''_fla_v_beta_copy_from_native_f32_kernel'',
       ks_threads = 128, ks_shared = 0\<rparr>,
      \<lparr>ks_file = ''q8192_fla_chunk_gdn_gate_cumsum.hsaco'', ks_symbol = ''_fla_chunk_gate_cumsum_kernel'',
       ks_threads = 64, ks_shared = 8\<rparr>,
      \<lparr>ks_file = ''q8192_fla_chunk_gdn_scaled_dot_kkt.hsaco'', ks_symbol = ''_fla_chunk_scaled_dot_kkt_kernel'',
       ks_threads = 256, ks_shared = 8192\<rparr>,
      \<lparr>ks_file = ''q8192_fla_chunk_gdn_solve_tril_64.hsaco'', ks_symbol = ''_fla_solve_tril_64_kernel'',
       ks_threads = 256, ks_shared = 4096\<rparr>,
      \<lparr>ks_file = ''q8192_fla_chunk_gdn_recompute_w_u.hsaco'', ks_symbol = ''_fla_recompute_w_u_kernel'',
       ks_threads = 256, ks_shared = 8192\<rparr>,
      \<lparr>ks_file = ''q8192_fla_chunk_gdn_chunk_state.hsaco'', ks_symbol = ''_fla_chunk_state_kernel'',
       ks_threads = 128, ks_shared = 8192\<rparr>,
      \<lparr>ks_file = ''q8192_fla_chunk_gdn_chunk_output.hsaco'', ks_symbol = ''_fla_chunk_output_kernel'',
       ks_threads = 256, ks_shared = 8192\<rparr>]"

text \<open>The arrays \<open>modules\<close> and \<open>functions\<close> are one list of code objects.\<close>

record fla_state =
  f_objects :: "code_object list"
  f_compact_qkv :: u64
  f_gate_and_beta :: u64
  f_a_or_w :: u64
  f_ai_or_v_new :: u64
  f_chunk_state :: u64
  f_scratch_tokens :: int
  f_prepared :: bool
  f_kernel_dir :: string
  f_error :: string

definition fla_initial :: fla_state where
  "fla_initial = \<lparr>f_objects = replicate 8 no_object, f_compact_qkv = nullptr, f_gate_and_beta = nullptr,
     f_a_or_w = nullptr, f_ai_or_v_new = nullptr, f_chunk_state = nullptr, f_scratch_tokens = 0,
     f_prepared = False, f_kernel_dir = [], f_error = []\<rparr>"

fun kernel_slot :: "kernel_index \<Rightarrow> nat" where
  "kernel_slot KQkL2Norm = 0"
| "kernel_slot KVBetaCopy = 1"
| "kernel_slot KGateCumsum = 2"
| "kernel_slot KScaledDotKkt = 3"
| "kernel_slot KSolveTril64 = 4"
| "kernel_slot KRecomputeWU = 5"
| "kernel_slot KChunkState = 6"
| "kernel_slot KChunkOutput = 7"

definition fla_set_error_text :: "string option \<Rightarrow> fla_state \<Rightarrow> fla_state" where
  "fla_set_error_text message s =
     s\<lparr>f_error := c_copy 768 (case message of None \<Rightarrow> ''unknown error'' | Some m \<Rightarrow> m)\<rparr>"

definition fla_set_error :: "hip \<Rightarrow> string \<Rightarrow> int \<Rightarrow> fla_state \<Rightarrow> fla_state" where
  "fla_set_error dev stage status s = s\<lparr>f_error := c_copy 768 (hip_failure dev stage status)\<rparr>"

definition fla_release_scratch :: "hip \<Rightarrow> fla_state \<Rightarrow> hip_hist \<Rightarrow> fla_state \<times> hip_hist" where
  "fla_release_scratch dev s h =
     (s\<lparr>f_compact_qkv := nullptr, f_gate_and_beta := nullptr, f_a_or_w := nullptr, f_ai_or_v_new := nullptr,
        f_chunk_state := nullptr, f_scratch_tokens := 0\<rparr>,
      free_blocks dev [f_chunk_state s, f_ai_or_v_new s, f_a_or_w s, f_gate_and_beta s, f_compact_qkv s] h)"

definition fla_release_state :: "hip \<Rightarrow> fla_state \<Rightarrow> hip_hist \<Rightarrow> fla_state \<times> hip_hist" where
  "fla_release_state dev s h =
     (let (s, h) = fla_release_scratch dev s h
      in (fla_initial, unload_modules dev (map co_module (f_objects s)) h))"

section \<open>Scratch\<close>

text \<open>\<open>checked_bytes\<close> with a non-null result pointer; \<open>size_t\<close> has 64 bits.\<close>

definition checked_bytes :: "int \<Rightarrow> u64 \<Rightarrow> u64 option" where
  "checked_bytes tokens bytes_per_token =
     (if tokens \<le> 0 \<or> (of_int tokens :: u64) > (- 1) div bytes_per_token then None
      else Some (of_int tokens * bytes_per_token))"

text \<open>One \<open>hipMalloc\<close> of \<open>ensure_scratch\<close> with its error path.\<close>

definition scratch_malloc ::
  "hip \<Rightarrow> string \<Rightarrow> u64 \<Rightarrow> (u64 \<Rightarrow> fla_state \<Rightarrow> fla_state) \<Rightarrow> fla_state \<Rightarrow> hip_hist \<Rightarrow> bool \<times> fla_state \<times> hip_hist" where
  "scratch_malloc dev name bytes put s h =
     (let (r, h) = ask (answers dev) (Malloc bytes) h
      in if \<not> hip_ok r
         then let s = fla_set_error dev (''hipMalloc('' @ name @ '')'') (hip_status r) s;
                  (s, h) = fla_release_scratch dev s h
              in (False, s, h)
         else (True, put (hip_out r) s, h))"

definition ensure_scratch :: "hip \<Rightarrow> int \<Rightarrow> fla_state \<Rightarrow> hip_hist \<Rightarrow> bool \<times> fla_state \<times> hip_hist" where
  "ensure_scratch dev tokens s h =
     (if f_scratch_tokens s = tokens \<and> f_compact_qkv s \<noteq> nullptr \<and> f_gate_and_beta s \<noteq> nullptr \<and>
         f_a_or_w s \<noteq> nullptr \<and> f_ai_or_v_new s \<noteq> nullptr \<and> f_chunk_state s \<noteq> nullptr
      then (True, s, h)
      else
        case (checked_bytes tokens kCompactQkvBytesPerToken, checked_bytes tokens kGateAndBetaBytesPerToken,
              checked_bytes tokens kAOrWBytesPerToken, checked_bytes tokens kAiOrVNewBytesPerToken,
              checked_bytes tokens kChunkStateBytesPerToken) of
          (Some compact_qkv_bytes, Some gate_and_beta_bytes, Some a_or_w_bytes, Some ai_or_v_new_bytes,
           Some chunk_state_bytes) \<Rightarrow>
            let (s, h) = fla_release_scratch dev s h
            in and_then (and_then (and_then (and_then (and_then
                 (scratch_malloc dev ''compact_qkv'' compact_qkv_bytes (\<lambda>p. f_compact_qkv_update (\<lambda>_. p)) s h)
                 (scratch_malloc dev ''gate_and_beta'' gate_and_beta_bytes (\<lambda>p. f_gate_and_beta_update (\<lambda>_. p))))
                 (scratch_malloc dev ''a_or_w'' a_or_w_bytes (\<lambda>p. f_a_or_w_update (\<lambda>_. p))))
                 (scratch_malloc dev ''ai_or_v_new'' ai_or_v_new_bytes (\<lambda>p. f_ai_or_v_new_update (\<lambda>_. p))))
                 (scratch_malloc dev ''chunk_state'' chunk_state_bytes (\<lambda>p. f_chunk_state_update (\<lambda>_. p))))
                 (\<lambda>s h. (True, s\<lparr>f_scratch_tokens := tokens\<rparr>, h))
        | _ \<Rightarrow> (False, fla_set_error_text (Some ''FLA chunk-GDN scratch size overflow'') s, h))"

section \<open>Kernels\<close>

text \<open>The loop of \<open>load_kernels\<close> from an index; its stage buffer has 256 bytes.\<close>

fun load_kernels_from ::
  "hip \<Rightarrow> string \<Rightarrow> nat \<Rightarrow> kernel_spec list \<Rightarrow> fla_state \<Rightarrow> hip_hist \<Rightarrow> bool \<times> fla_state \<times> hip_hist" where
  "load_kernels_from dev directory index [] s h = (True, s, h)"
| "load_kernels_from dev directory index (spec # specs) s h =
     (let path = directory @ [CHR 0x5C] @ ks_file spec
      in if length path \<ge> 1400 then (False, fla_set_error_text (Some ''FLA chunk-GDN kernel path is too long'') s, h)
         else
           let (r, h) = ask (answers dev) (ModuleLoad path) h
           in if \<not> hip_ok r
              then (False, fla_set_error dev (c_copy 256 (''hipModuleLoad('' @ ks_file spec @ '')'')) (hip_status r) s, h)
              else
                let s = s\<lparr>f_objects := (f_objects s)[index := (f_objects s ! index)\<lparr>co_module := hip_out r\<rparr>]\<rparr>;
                    (r, h) = ask (answers dev) (ModuleGetFunction (co_module (f_objects s ! index)) (ks_symbol spec)) h
                in if \<not> hip_ok r
                   then (False, fla_set_error dev (c_copy 256 (''hipModuleGetFunction('' @ ks_symbol spec @ '')''))
                                  (hip_status r) s, h)
                   else load_kernels_from dev directory (Suc index) specs
                          (s\<lparr>f_objects := (f_objects s)[index := (f_objects s ! index)\<lparr>co_function := hip_out r\<rparr>]\<rparr>) h)"

definition load_kernels :: "hip \<Rightarrow> string \<Rightarrow> fla_state \<Rightarrow> hip_hist \<Rightarrow> bool \<times> fla_state \<times> hip_hist" where
  "load_kernels dev directory s h = load_kernels_from dev directory 0 kKernelSpecs s h"

definition fla_launch ::
  "hip \<Rightarrow> kernel_index \<Rightarrow> u32 \<times> u32 \<times> u32 \<Rightarrow> u64 \<Rightarrow> kernel_arg list \<Rightarrow> fla_state \<Rightarrow> hip_hist
     \<Rightarrow> bool \<times> fla_state \<times> hip_hist" where
  "fla_launch dev index dims st arguments s h =
     (let slot = kernel_slot index;
          spec = kKernelSpecs ! slot;
          (r, h) = ask (answers dev)
            (ModuleLaunchKernel (co_function (f_objects s ! slot))
               \<lparr>grid = dims, block = (ks_threads spec, 1, 1), shared_bytes = ks_shared spec, stream = st\<rparr>
               arguments) h
      in if \<not> hip_ok r
         then (False, fla_set_error dev (c_copy 256 (''hipModuleLaunchKernel('' @ ks_symbol spec @ '')''))
                        (hip_status r) s, h)
         else (True, s, h))"

text \<open>A \<open>hipMemsetAsync\<close> to zero with its error path.\<close>

definition fla_memset ::
  "hip \<Rightarrow> string \<Rightarrow> u64 \<Rightarrow> u64 \<Rightarrow> u64 \<Rightarrow> fla_state \<Rightarrow> hip_hist \<Rightarrow> bool \<times> fla_state \<times> hip_hist" where
  "fla_memset dev name pointer bytes st s h =
     (let (r, h) = ask (answers dev) (MemsetAsync pointer 0 bytes st) h
      in if \<not> hip_ok r then (False, fla_set_error dev (''hipMemsetAsync('' @ name @ '')'') (hip_status r) s, h)
         else (True, s, h))"

definition fla_supported_tokens :: "int \<Rightarrow> bool" where
  "fla_supported_tokens tokens \<longleftrightarrow> tokens = 64 \<or> tokens = 8192 \<or> tokens = 16384 \<or> tokens = 17408 \<or>
     tokens = 32768 \<or> tokens = 65536"


section \<open>One segment\<close>

record fla_surface =
  fs_postconv :: u64
  fs_gate :: u64
  fs_output :: u64
  fs_final_state :: u64
  fs_stream :: u64

text \<open>The addresses \<open>launch_segment_async\<close> forms inside the scratch blocks.\<close>

record fla_views =
  fv_q :: u64
  fv_k :: u64
  fv_v :: u64
  fv_g_cumsum :: u64
  fv_beta :: u64
  fv_a :: u64
  fv_a_inverse :: u64
  fv_w :: u64
  fv_v_new :: u64
  fv_u :: u64

definition segment_views :: "int \<Rightarrow> fla_state \<Rightarrow> fla_views" where
  "segment_views tokens s =
     (let q = f_compact_qkv s;
          k = q + of_int tokens * fla_kQkHeads * fla_kKeyDim * 2;
          v = k + of_int tokens * fla_kQkHeads * fla_kKeyDim * 2
      in \<lparr>fv_q = q, fv_k = k, fv_v = v, fv_g_cumsum = f_gate_and_beta s,
          fv_beta = f_gate_and_beta s + of_int tokens * fla_kValueHeads * 4,
          fv_a = f_a_or_w s, fv_a_inverse = f_ai_or_v_new s, fv_w = f_a_or_w s, fv_v_new = f_ai_or_v_new s,
          fv_u = v\<rparr>)"

text \<open>
  \<open>launch_segment_async\<close>: the kernels in order, each a step that may end the function. First the
  inputs and the matrices of the chunks, then their inverses, the state and the output.
\<close>

definition segment_input_steps ::
  "hip \<Rightarrow> fla_surface \<Rightarrow> int \<Rightarrow> bool \<Rightarrow> fla_state \<Rightarrow> hip_hist \<Rightarrow> bool \<times> fla_state \<times> hip_hist" where
  "segment_input_steps dev a tokens reset_state s h =
     (let st = fs_stream a;
          w = segment_views tokens s;
          chunks = of_int (tokens div fla_kChunk);
          tail = [Int32 tokens, Pointer nullptr, Pointer nullptr]
      in and_then (and_then (and_then (and_then
           (if reset_state
            then fla_memset dev ''initial_state'' (fs_final_state a) (fla_kStateElements * 4) st s h
            else (True, s, h))
           (fla_launch dev KQkL2Norm
              (ucast ((of_int tokens * fla_kQkHeads + 32 - 1) div 32 :: u64), 1, 1) st
              ([Pointer (fs_postconv a), Pointer (fv_q w), Pointer (fv_k w)] @ tail)))
           (fla_launch dev KVBetaCopy (ucast (of_int tokens * fla_kValueHeads :: u64), 1, 1) st
              ([Pointer (fs_postconv a), Pointer (fs_gate a), Pointer (fv_v w), Pointer (fv_beta w)] @ tail)))
           (fla_launch dev KGateCumsum (chunks, 32, 1) st
              ([Pointer (fs_gate a), Pointer (fv_g_cumsum w)] @ tail)))
           (fla_launch dev KScaledDotKkt (chunks, 32, 1) st
              ([Pointer (fv_k w), Pointer (fv_beta w), Pointer (fv_g_cumsum w), Pointer (fv_a w)] @ tail)))"

definition segment_output_steps ::
  "hip \<Rightarrow> fla_surface \<Rightarrow> int \<Rightarrow> fla_state \<Rightarrow> hip_hist \<Rightarrow> bool \<times> fla_state \<times> hip_hist" where
  "segment_output_steps dev a tokens s h =
     (let st = fs_stream a;
          w = segment_views tokens s;
          chunks = of_int (tokens div fla_kChunk);
          tail = [Int32 tokens, Pointer nullptr, Pointer nullptr]
      in and_then (and_then (and_then (and_then
           (fla_memset dev ''a_inverse_bf16'' (fv_a_inverse w)
              (of_int tokens * fla_kValueHeads * of_int fla_kChunk * 2) st s h)
           (fla_launch dev KSolveTril64 (chunks, 32, 1) st
              ([Pointer (fv_a w), Pointer (fv_a_inverse w)] @ tail)))
           (fla_launch dev KRecomputeWU (chunks, 32, 1) st
              ([Pointer (fv_k w), Pointer (fv_v w), Pointer (fv_beta w), Pointer (fv_w w), Pointer (fv_u w),
                Pointer (fv_a_inverse w), Pointer (fv_g_cumsum w)] @ tail)))
           (fla_launch dev KChunkState (8, 32, 1) st
              ([Pointer (fv_k w), Pointer (fv_u w), Pointer (fv_w w), Pointer (fv_v_new w), Pointer (fv_g_cumsum w),
                Pointer (fs_final_state a), Pointer (f_chunk_state s), Pointer (fs_final_state a)] @ tail)))
           (fla_launch dev KChunkOutput (4, chunks, 32) st
              ([Pointer (fv_q w), Pointer (fv_k w), Pointer (fv_v_new w), Pointer (f_chunk_state s),
                Pointer (fv_g_cumsum w), Pointer (fs_output a)] @ tail)))"

definition launch_segment_steps ::
  "hip \<Rightarrow> fla_surface \<Rightarrow> int \<Rightarrow> bool \<Rightarrow> fla_state \<Rightarrow> hip_hist \<Rightarrow> bool \<times> fla_state \<times> hip_hist" where
  "launch_segment_steps dev a tokens reset_state s h =
     and_then (segment_input_steps dev a tokens reset_state s h) (segment_output_steps dev a tokens)"

definition launch_segment_async ::
  "hip \<Rightarrow> fla_surface \<Rightarrow> int \<Rightarrow> bool \<Rightarrow> fla_state \<Rightarrow> hip_hist \<Rightarrow> bool \<times> fla_state \<times> hip_hist" where
  "launch_segment_async dev a tokens reset_state s h =
     and_then (and_then (ensure_scratch dev tokens s h) (launch_segment_steps dev a tokens reset_state))
       (\<lambda>s h. (True, s\<lparr>f_error := []\<rparr>, h))"

section \<open>The pipeline and the exported functions\<close>

text \<open>The surfaces at a token offset, in bytes.\<close>

definition surface_at :: "int \<Rightarrow> fla_surface \<Rightarrow> fla_surface" where
  "surface_at token_offset a =
     a\<lparr>fs_postconv := fs_postconv a + of_int token_offset * fla_kQkvRows * 4,
       fs_gate := fs_gate a + of_int token_offset * fla_kGateRows * 4,
       fs_output := fs_output a + of_int token_offset * fla_kValueFeatures * 4\<rparr>"

text \<open>
  The loop over segments. The source would not stop for a segment of no tokens; the shapes it
  accepts have none, and the model ends there.
\<close>

function launch_segments ::
  "hip \<Rightarrow> fla_surface \<Rightarrow> int \<Rightarrow> int \<Rightarrow> int \<Rightarrow> fla_state \<Rightarrow> hip_hist \<Rightarrow> bool \<times> fla_state \<times> hip_hist" where
  "launch_segments dev a segment_tokens tokens token_offset s h =
     (if token_offset < tokens \<and> 0 < segment_tokens
      then and_then (launch_segment_async dev (surface_at token_offset a) segment_tokens (token_offset = 0) s h)
             (launch_segments dev a segment_tokens tokens (token_offset + segment_tokens))
      else (True, s, h))"
  by pat_completeness auto
termination
  by (relation "measure (\<lambda>(dev, a, seg, tokens, off, s, h). nat (tokens - off))") auto

declare launch_segments.simps [simp del]

definition launch_pipeline_async ::
  "hip \<Rightarrow> fla_surface \<Rightarrow> int \<Rightarrow> int \<Rightarrow> fla_state \<Rightarrow> hip_hist \<Rightarrow> int \<times> fla_state \<times> hip_hist" where
  "launch_pipeline_async dev a gate_values_are_decay tokens s h =
     (if \<not> f_prepared s \<or> fs_postconv a = nullptr \<or> fs_gate a = nullptr \<or> fs_output a = nullptr \<or>
         fs_final_state a = nullptr \<or> \<not> fla_supported_tokens tokens \<or> tokens mod fla_kChunk \<noteq> 0 \<or>
         gate_values_are_decay \<noteq> 0
      then (0, fla_set_error_text (Some (''FLA chunk-GDN launch requires a supported multiple-of-64 shape, '' @
                 ''raw log gates, and non-null surfaces'')) s, h)
      else
        let segment_tokens = (if tokens = 65536 then fla_kQ65536SegmentTokens else tokens);
            (ok, s, h) = launch_segments dev a segment_tokens tokens 0 s h
        in if \<not> ok then (0, s, h) else (1, s\<lparr>f_error := []\<rparr>, h))"

definition launch_pipeline_synchronous ::
  "hip \<Rightarrow> fla_surface \<Rightarrow> int \<Rightarrow> int \<Rightarrow> fla_state \<Rightarrow> hip_hist \<Rightarrow> int \<times> fla_state \<times> hip_hist" where
  "launch_pipeline_synchronous dev a gate_values_are_decay tokens s h =
     (let (result, s, h) = launch_pipeline_async dev a gate_values_are_decay tokens s h
      in if result = 0 then (0, s, h)
         else
           let (r, h) = ask (answers dev) (StreamSynchronize (fs_stream a)) h
           in if \<not> hip_ok r then (0, fla_set_error dev ''hipStreamSynchronize(fla_chunk_gdn)'' (hip_status r) s, h)
              else (1, s\<lparr>f_error := []\<rparr>, h))"

definition fla_prepare :: "hip \<Rightarrow> string option \<Rightarrow> fla_state \<Rightarrow> hip_hist \<Rightarrow> int \<times> fla_state \<times> hip_hist" where
  "fla_prepare dev kernel_dir s h =
     (case kernel_dir of
        None \<Rightarrow> (0, fla_set_error_text (Some ''FLA chunk-GDN kernel directory is empty'') s, h)
      | Some d \<Rightarrow>
          if d = [] then (0, fla_set_error_text (Some ''FLA chunk-GDN kernel directory is empty'') s, h)
          else if f_prepared s \<and> f_kernel_dir s = d then (1, s, h)
          else
            let (s, h) = fla_release_state dev s h;
                s = s\<lparr>f_kernel_dir := c_copy 1024 d\<rparr>;
                (ok, s, h) = load_kernels dev d s h
            in if \<not> ok
               then let prepare_error = f_error s;
                        (s, h) = fla_release_state dev s h
                    in (0, fla_set_error_text (Some prepare_error) s, h)
               else (1, s\<lparr>f_prepared := True, f_error := []\<rparr>, h))"

text \<open>The shapes for which \<open>QRT_DEFINE_FLA_GDN_LAUNCH\<close> defines the two launch functions.\<close>

datatype fla_shape = F64 | F8192 | F16384 | F17408 | F32768 | F65536

fun fla_shape_tokens :: "fla_shape \<Rightarrow> int" where
  "fla_shape_tokens F64 = 64"
| "fla_shape_tokens F8192 = 8192"
| "fla_shape_tokens F16384 = 16384"
| "fla_shape_tokens F17408 = 17408"
| "fla_shape_tokens F32768 = 32768"
| "fla_shape_tokens F65536 = 65536"

definition fla_shape_launch_async ::
  "fla_shape \<Rightarrow> hip \<Rightarrow> fla_surface \<Rightarrow> int \<Rightarrow> fla_state \<Rightarrow> hip_hist \<Rightarrow> int \<times> fla_state \<times> hip_hist" where
  "fla_shape_launch_async sh dev a decay = launch_pipeline_async dev a decay (fla_shape_tokens sh)"

definition fla_shape_launch ::
  "fla_shape \<Rightarrow> hip \<Rightarrow> fla_surface \<Rightarrow> int \<Rightarrow> fla_state \<Rightarrow> hip_hist \<Rightarrow> int \<times> fla_state \<times> hip_hist" where
  "fla_shape_launch sh dev a decay = launch_pipeline_synchronous dev a decay (fla_shape_tokens sh)"

definition fla_scratch_bytes :: "int \<Rightarrow> u64" where
  "fla_scratch_bytes tokens =
     (let scratch_tokens = (if tokens = 65536 then fla_kQ65536SegmentTokens else tokens)
      in if scratch_tokens > 0 then of_int scratch_tokens * kScratchBytesPerToken else 0)"

definition fla_last_error :: "fla_state \<Rightarrow> string" where
  "fla_last_error s = f_error s"

definition fla_release :: "hip \<Rightarrow> fla_state \<Rightarrow> hip_hist \<Rightarrow> fla_state \<times> hip_hist" where
  "fla_release dev s h = fla_release_state dev s h"

datatype fla_op =
    FPrepare "string option"
  | FLaunchAsync fla_shape fla_surface int
  | FLaunch fla_shape fla_surface int
  | FRelease

fun fla_exec :: "hip \<Rightarrow> fla_op \<Rightarrow> fla_state \<Rightarrow> hip_hist \<Rightarrow> int \<times> fla_state \<times> hip_hist" where
  "fla_exec dev (FPrepare d) s h = fla_prepare dev d s h"
| "fla_exec dev (FLaunchAsync sh a decay) s h = fla_shape_launch_async sh dev a decay s h"
| "fla_exec dev (FLaunch sh a decay) s h = fla_shape_launch sh dev a decay s h"
| "fla_exec dev FRelease s h = (case fla_release dev s h of (s, h) \<Rightarrow> (0, s, h))"


section \<open>The invariant\<close>

definition scratch_pointers :: "fla_state \<Rightarrow> u64 list" where
  "scratch_pointers s = [f_compact_qkv s, f_gate_and_beta s, f_a_or_w s, f_ai_or_v_new s, f_chunk_state s]"

definition scratch_sizes :: "int \<Rightarrow> u64 list" where
  "scratch_sizes tokens = map (\<lambda>n. of_int tokens * n)
     [kCompactQkvBytesPerToken, kGateAndBetaBytesPerToken, kAOrWBytesPerToken, kAiOrVNewBytesPerToken,
      kChunkStateBytesPerToken]"

text \<open>Everything but the scratch blocks: the code objects, whose functions are all live once prepared.\<close>

definition fla_core :: "fla_state \<Rightarrow> hip_hist \<Rightarrow> bool" where
  "fla_core s h \<longleftrightarrow> orderly h \<and> objects_ok (f_objects s) h \<and> length (f_objects s) = 8 \<and>
     (f_prepared s \<longrightarrow> (\<forall>c \<in> set (f_objects s). (co_module c, co_function c) \<in> live_functions h))"

text \<open>Either no scratch, or all five blocks for the recorded number of tokens.\<close>

definition scratch_ok :: "fla_state \<Rightarrow> hip_hist \<Rightarrow> bool" where
  "scratch_ok s h \<longleftrightarrow> blocks_ok (zip (scratch_pointers s) (scratch_sizes (f_scratch_tokens s))) h \<and>
     (if f_scratch_tokens s = 0 then \<forall>p \<in> set (scratch_pointers s). p = nullptr
      else 0 < f_scratch_tokens s \<and> nullptr \<notin> set (scratch_pointers s))"

definition fla_inv :: "fla_state \<Rightarrow> hip_hist \<Rightarrow> bool" where
  "fla_inv s h \<longleftrightarrow> fla_core s h \<and> scratch_ok s h"

lemma fla_error_simps [simp]:
  "f_objects (fla_set_error_text m s) = f_objects s" "f_objects (fla_set_error dev stage status s) = f_objects s"
  "f_prepared (fla_set_error_text m s) = f_prepared s" "f_prepared (fla_set_error dev stage status s) = f_prepared s"
  "scratch_pointers (fla_set_error_text m s) = scratch_pointers s"
  "scratch_pointers (fla_set_error dev stage status s) = scratch_pointers s"
  "f_scratch_tokens (fla_set_error_text m s) = f_scratch_tokens s"
  "f_scratch_tokens (fla_set_error dev stage status s) = f_scratch_tokens s"
  "scratch_pointers (s\<lparr>f_error := e\<rparr>) = scratch_pointers s"
  "scratch_pointers (s\<lparr>f_scratch_tokens := n\<rparr>) = scratch_pointers s"
  "scratch_pointers (s\<lparr>f_objects := os\<rparr>) = scratch_pointers s"
  "scratch_pointers (s\<lparr>f_prepared := b\<rparr>) = scratch_pointers s"
  "scratch_pointers (s\<lparr>f_kernel_dir := d\<rparr>) = scratch_pointers s"
  by (simp_all add: fla_set_error_text_def fla_set_error_def scratch_pointers_def)

text \<open>What the invariant reads of the state.\<close>

lemma fla_inv_cong:
  assumes "f_objects s' = f_objects s" "f_prepared s' = f_prepared s" "scratch_pointers s' = scratch_pointers s"
    "f_scratch_tokens s' = f_scratch_tokens s"
  shows "fla_inv s' h = fla_inv s h"
  by (simp add: fla_inv_def fla_core_def scratch_ok_def assms)

lemma fla_inv_error [simp]:
  "fla_inv (fla_set_error_text m s) h = fla_inv s h" "fla_inv (fla_set_error dev stage status s) h = fla_inv s h"
  "fla_inv (s\<lparr>f_error := e\<rparr>) h = fla_inv s h" "fla_inv (s\<lparr>f_kernel_dir := d\<rparr>) h = fla_inv s h"
  by (rule fla_inv_cong; simp)+

lemma fla_core_cong:
  "f_objects s' = f_objects s \<Longrightarrow> f_prepared s' = f_prepared s \<Longrightarrow> fla_core s' h = fla_core s h"
  by (simp add: fla_core_def)

lemma fla_core_history:
  assumes "fla_core s h" "orderly h'" "live_modules h' = live_modules h" "live_functions h' = live_functions h"
  shows "fla_core s h'"
  using assms(1,2) unfolding fla_core_def objects_ok_neutral [OF assms(3,4)] assms(4) by blast

lemma fla_inv_call:
  assumes "fla_inv s h" "call_ok h c" "live_modules ((c, r) # h) = live_modules h"
    "live_functions ((c, r) # h) = live_functions h" "live_blocks ((c, r) # h) = live_blocks h"
  shows "fla_inv s ((c, r) # h)"
proof -
  have "fla_core s ((c, r) # h)"
    by (rule fla_core_history [OF _ _ assms(3,4)]) (use assms(1,2) in \<open>simp_all add: fla_inv_def fla_core_def\<close>)
  moreover have "scratch_ok s ((c, r) # h)"
    using assms(1) unfolding fla_inv_def scratch_ok_def blocks_ok_neutral [OF assms(5)] by blast
  ultimately show ?thesis by (simp add: fla_inv_def)
qed

lemma length_scratch [simp]: "length (scratch_pointers s) = 5" "length (scratch_sizes n) = 5"
  by (simp_all add: scratch_pointers_def scratch_sizes_def)

lemma fla_release_scratch_inv:
  assumes core: "fla_core s h" and blocks: "blocks_ok (zip (scratch_pointers s) (scratch_sizes n)) h"
    and rel: "fla_release_scratch dev s h = (s', h')"
  shows "fla_inv s' h'" "f_objects s' = f_objects s" "f_prepared s' = f_prepared s" "live_blocks h' = {}"
    "f_scratch_tokens s' = 0" "scratch_pointers s' = replicate 5 nullptr" "live_modules h' = live_modules h"
    "live_functions h' = live_functions h" "f_kernel_dir s' = f_kernel_dir s" "f_error s' = f_error s"
proof -
  let ?ps = "[f_chunk_state s, f_ai_or_v_new s, f_a_or_w s, f_gate_and_beta s, f_compact_qkv s]"
  have "map fst (zip (scratch_pointers s) (scratch_sizes n)) = scratch_pointers s"
    by (rule map_fst_zip) simp
  then have "mset ?ps = mset (map fst (zip (scratch_pointers s) (scratch_sizes n)))"
    by (simp add: scratch_pointers_def)
  note F = blocks_ok_free [OF blocks this]
  have h': "h' = free_blocks dev ?ps h" and s': "s' = s\<lparr>f_compact_qkv := nullptr, f_gate_and_beta := nullptr,
      f_a_or_w := nullptr, f_ai_or_v_new := nullptr, f_chunk_state := nullptr, f_scratch_tokens := 0\<rparr>"
    using rel unfolding fla_release_scratch_def by blast+
  have "orderly h" using core by (simp add: fla_core_def)
  then have o: "orderly h'" and l: "live_blocks h' = {}" unfolding h' using F by blast+
  show live: "live_modules h' = live_modules h" "live_functions h' = live_functions h"
    unfolding h' by (simp_all only: free_blocks_live)
  show st: "f_objects s' = f_objects s" "f_prepared s' = f_prepared s" "f_scratch_tokens s' = 0"
    "scratch_pointers s' = replicate 5 nullptr" "f_kernel_dir s' = f_kernel_dir s" "f_error s' = f_error s"
    by (simp_all add: s' scratch_pointers_def eval_nat_numeral)
  have "fla_core s' h'"
    using fla_core_history [OF core o live] fla_core_cong [OF st(1,2)] by simp
  moreover have "scratch_ok s' h'"
    unfolding scratch_ok_def st(3,4) using l by (auto intro!: blocks_ok_none dest: set_zip_leftD)
  ultimately show "fla_inv s' h'" by (simp add: fla_inv_def)
  show "live_blocks h' = {}" by (rule l)
qed

text \<open>During \<open>ensure_scratch\<close> the first \<open>k\<close> blocks are allocated for \<open>n\<close> tokens.\<close>

definition fla_allocating :: "int \<Rightarrow> nat \<Rightarrow> fla_state \<Rightarrow> hip_hist \<Rightarrow> bool" where
  "fla_allocating n k s h \<longleftrightarrow> fla_core s h \<and> blocks_ok (zip (scratch_pointers s) (scratch_sizes n)) h \<and>
     (\<forall>j<5. scratch_pointers s ! j = nullptr \<longleftrightarrow> k \<le> j)"

definition alloc_outcome :: "int \<Rightarrow> nat \<Rightarrow> fla_state \<Rightarrow> bool \<times> fla_state \<times> hip_hist \<Rightarrow> bool" where
  "alloc_outcome n k s0 r \<longleftrightarrow> (case r of (ok, s, h) \<Rightarrow>
     (if ok then fla_allocating n k s h else fla_inv s h) \<and> f_objects s = f_objects s0 \<and> f_prepared s = f_prepared s0)"

lemma alloc_outcome_and_then:
  assumes "alloc_outcome n k s0 r"
    and "\<And>s h. fla_allocating n k s h \<Longrightarrow> f_objects s = f_objects s0 \<Longrightarrow> f_prepared s = f_prepared s0 \<Longrightarrow>
      alloc_outcome n (Suc k) s0 (f s h)"
  shows "alloc_outcome n (Suc k) s0 (and_then r f)"
  using assms by (cases r) (auto simp: and_then_def alloc_outcome_def)

lemma scratch_malloc_outcome:
  assumes dev: "hip_sound dev" and al: "fla_allocating n k s h" and k: "k < 5" "bytes = scratch_sizes n ! k"
    and s0: "f_objects s = f_objects s0" "f_prepared s = f_prepared s0"
    and put: "\<And>p s. scratch_pointers (put p s) = (scratch_pointers s)[k := p]"
      "\<And>p s. f_objects (put p s) = f_objects s" "\<And>p s. f_prepared (put p s) = f_prepared s"
  shows "alloc_outcome n (Suc k) s0 (scratch_malloc dev name bytes put s h)"
proof -
  let ?r = "answers dev h (Malloc bytes)"
  let ?h = "(Malloc bytes, ?r) # h"
  have A: "fla_core s h" "blocks_ok (zip (scratch_pointers s) (scratch_sizes n)) h"
    "\<forall>j<5. scratch_pointers s ! j = nullptr \<longleftrightarrow> k \<le> j"
    using al by (simp_all add: fla_allocating_def)
  have core: "fla_core s ?h"
    by (rule fla_core_history [OF A(1)]) (use A(1) in \<open>simp_all add: fla_core_def\<close>)
  show ?thesis
  proof (cases "hip_ok ?r")
    case True
    note p = hip_soundD(3,4) [OF dev True]
    have null: "scratch_pointers s ! k = nullptr" using A(3) k(1) by blast
    have "blocks_ok ((zip (scratch_pointers s) (scratch_sizes n))[k := (hip_out ?r, bytes)]) ?h"
      by (rule blocks_ok_malloc [OF A(2) _ _ p True refl]) (simp_all add: k null)
    moreover have "(zip (scratch_pointers s) (scratch_sizes n))[k := (hip_out ?r, bytes)]
        = zip ((scratch_pointers s)[k := hip_out ?r]) (scratch_sizes n)"
      unfolding update_zip k(2) by simp
    moreover have "fla_core (put (hip_out ?r) s) ?h"
      using core fla_core_cong [OF put(2,3)] by simp
    moreover have "\<forall>j<5. scratch_pointers (put (hip_out ?r) s) ! j = nullptr \<longleftrightarrow> Suc k \<le> j"
      using A(3) p(1) k(1) by (auto simp: put(1) nth_list_update)
    ultimately have "fla_allocating n (Suc k) (put (hip_out ?r) s) ?h"
      by (simp add: fla_allocating_def put(1))
    then show ?thesis
      using True s0 by (simp add: scratch_malloc_def ask_def alloc_outcome_def put)
  next
    case False
    let ?s = "fla_set_error dev (''hipMalloc('' @ name @ '')'') (hip_status ?r) s"
    have c: "fla_core ?s ?h" using core fla_core_cong [of ?s s] by simp
    have b: "blocks_ok (zip (scratch_pointers ?s) (scratch_sizes n)) ?h"
      using A(2) False by (simp add: blocks_ok_def)
    obtain s' h' where rel: "fla_release_scratch dev ?s ?h = (s', h')" by (cases "fla_release_scratch dev ?s ?h")
    note R = fla_release_scratch_inv [OF c b rel]
    have "scratch_malloc dev name bytes put s h = (False, s', h')"
      using False rel by (simp add: scratch_malloc_def ask_def)
    with R(1-3) s0 show ?thesis by (simp add: alloc_outcome_def)
  qed
qed


lemma checked_bytes_SomeD:
  "checked_bytes tokens n = Some b \<Longrightarrow> 0 < tokens \<and> b = of_int tokens * n"
  by (simp add: checked_bytes_def split: if_splits)

lemma scratch_sizes_nth:
  "scratch_sizes n ! 0 = of_int n * kCompactQkvBytesPerToken"
  "scratch_sizes n ! Suc 0 = of_int n * kGateAndBetaBytesPerToken"
  "scratch_sizes n ! Suc (Suc 0) = of_int n * kAOrWBytesPerToken"
  "scratch_sizes n ! Suc (Suc (Suc 0)) = of_int n * kAiOrVNewBytesPerToken"
  "scratch_sizes n ! Suc (Suc (Suc (Suc 0))) = of_int n * kChunkStateBytesPerToken"
  by (simp_all add: scratch_sizes_def)

definition scratch_allocation :: "hip \<Rightarrow> int \<Rightarrow> fla_state \<Rightarrow> hip_hist \<Rightarrow> bool \<times> fla_state \<times> hip_hist" where
  "scratch_allocation dev n s h =
     and_then (and_then (and_then (and_then
       (scratch_malloc dev ''compact_qkv'' (of_int n * kCompactQkvBytesPerToken) (\<lambda>p. f_compact_qkv_update (\<lambda>_. p)) s h)
       (scratch_malloc dev ''gate_and_beta'' (of_int n * kGateAndBetaBytesPerToken) (\<lambda>p. f_gate_and_beta_update (\<lambda>_. p))))
       (scratch_malloc dev ''a_or_w'' (of_int n * kAOrWBytesPerToken) (\<lambda>p. f_a_or_w_update (\<lambda>_. p))))
       (scratch_malloc dev ''ai_or_v_new'' (of_int n * kAiOrVNewBytesPerToken) (\<lambda>p. f_ai_or_v_new_update (\<lambda>_. p))))
       (scratch_malloc dev ''chunk_state'' (of_int n * kChunkStateBytesPerToken) (\<lambda>p. f_chunk_state_update (\<lambda>_. p)))"

lemma scratch_allocation_outcome:
  assumes dev: "hip_sound dev" and al: "fla_allocating n 0 s h"
  shows "alloc_outcome n (Suc (Suc (Suc (Suc (Suc 0))))) s (scratch_allocation dev n s h)"
  unfolding scratch_allocation_def
  by (intro alloc_outcome_and_then scratch_malloc_outcome [OF dev] al)
    (simp_all add: scratch_pointers_def scratch_sizes_nth)

lemma ensure_scratch_cases:
  assumes "ensure_scratch dev n s h = (ok, s', h')"
  obtains (kept) "ok" "s' = s" "h' = h" "f_scratch_tokens s = n" "nullptr \<notin> set (scratch_pointers s)"
  | (refused) m where "\<not> ok" "s' = fla_set_error_text m s" "h' = h"
  | (allocated) s1 h1 where "0 < n" "fla_release_scratch dev s h = (s1, h1)"
      "and_then (scratch_allocation dev n s1 h1) (\<lambda>s h. (True, s\<lparr>f_scratch_tokens := n\<rparr>, h)) = (ok, s', h')"
proof (cases "f_scratch_tokens s = n \<and> f_compact_qkv s \<noteq> nullptr \<and> f_gate_and_beta s \<noteq> nullptr \<and>
     f_a_or_w s \<noteq> nullptr \<and> f_ai_or_v_new s \<noteq> nullptr \<and> f_chunk_state s \<noteq> nullptr")
  case True
  then have "nullptr \<notin> set (scratch_pointers s)" by (auto simp: scratch_pointers_def)
  with True show ?thesis using assms kept by (simp add: ensure_scratch_def)
next
  case reuse: False
  let ?all = "\<lambda>x. checked_bytes n x"
  show ?thesis
  proof (cases "?all kCompactQkvBytesPerToken = None \<or> ?all kGateAndBetaBytesPerToken = None \<or>
      ?all kAOrWBytesPerToken = None \<or> ?all kAiOrVNewBytesPerToken = None \<or> ?all kChunkStateBytesPerToken = None")
    case True
    then show ?thesis
      using assms reuse refused by (auto simp: ensure_scratch_def split: option.splits)
  next
    case False
    obtain s1 h1 where rel: "fla_release_scratch dev s h = (s1, h1)" by (cases "fla_release_scratch dev s h")
    from False obtain a b c d e where S: "?all kCompactQkvBytesPerToken = Some a" "?all kGateAndBetaBytesPerToken = Some b"
      "?all kAOrWBytesPerToken = Some c" "?all kAiOrVNewBytesPerToken = Some d" "?all kChunkStateBytesPerToken = Some e"
      by auto
    note V = S [THEN checked_bytes_SomeD, THEN conjunct2]
    have "and_then (scratch_allocation dev n s1 h1) (\<lambda>s h. (True, s\<lparr>f_scratch_tokens := n\<rparr>, h)) = (ok, s', h')"
      using assms unfolding ensure_scratch_def if_not_P [OF reuse] S rel prod.case option.case Let_def V scratch_allocation_def .
    then show ?thesis using allocated checked_bytes_SomeD [OF S(1)] rel by blast
  qed
qed

lemma ensure_scratch_inv:
  assumes dev: "hip_sound dev" and inv: "fla_inv s h" and run: "ensure_scratch dev n s h = (ok, s', h')"
  shows "fla_inv s' h' \<and> f_objects s' = f_objects s \<and> f_prepared s' = f_prepared s \<and>
    (ok \<longrightarrow> f_scratch_tokens s' = n \<and> nullptr \<notin> set (scratch_pointers s'))"
  using run
proof (cases rule: ensure_scratch_cases)
  case (allocated s1 h1)
  have "fla_core s h" "blocks_ok (zip (scratch_pointers s) (scratch_sizes (f_scratch_tokens s))) h"
    using inv by (simp_all add: fla_inv_def scratch_ok_def)
  note R = fla_release_scratch_inv [OF this allocated(2)]
  have "fla_core s1 h1" using R(1) by (simp add: fla_inv_def)
  then have "fla_allocating n 0 s1 h1"
    using R(4) unfolding fla_allocating_def R(6) by (auto intro!: blocks_ok_none dest: set_zip_leftD)
  note out = scratch_allocation_outcome [OF dev this]
  obtain ok2 s2 h2 where e: "scratch_allocation dev n s1 h1 = (ok2, s2, h2)"
    by (cases "scratch_allocation dev n s1 h1")
  show ?thesis
  proof (cases ok2)
    case True
    with out e have al: "fla_allocating n 5 s2 h2" "f_objects s2 = f_objects s1" "f_prepared s2 = f_prepared s1"
      by (simp_all add: alloc_outcome_def eval_nat_numeral)
    have "nullptr \<notin> set (scratch_pointers s2)"
      using al(1) by (auto simp: fla_allocating_def in_set_conv_nth)
    moreover have "fla_core (s2\<lparr>f_scratch_tokens := n\<rparr>) h2"
      using al(1) by (simp add: fla_allocating_def fla_core_def)
    moreover have "ok" "s' = s2\<lparr>f_scratch_tokens := n\<rparr>" "h' = h2"
      using True e allocated(3) by (simp_all add: and_then_def)
    ultimately show ?thesis
      using allocated(1) al R(2,3) by (simp add: fla_inv_def scratch_ok_def fla_allocating_def)
  next
    case False
    with out e allocated(3) R(2,3) show ?thesis by (simp add: alloc_outcome_def and_then_def)
  qed
qed (use inv in simp_all)

section \<open>Loading and launching keep the invariant\<close>

definition fla_loading :: "nat \<Rightarrow> fla_state \<Rightarrow> hip_hist \<Rightarrow> bool" where
  "fla_loading k s h \<longleftrightarrow> fla_inv s h \<and> \<not> f_prepared s \<and>
     (\<forall>j<8. if j < k then (co_module (f_objects s ! j), co_function (f_objects s ! j)) \<in> live_functions h
            else f_objects s ! j = no_object)"

lemma fla_inv_objects:
  assumes "fla_inv s h" "\<not> f_prepared s" "objects_ok os h'" "length os = 8" "orderly h'" "live_blocks h' = live_blocks h"
  shows "fla_inv (s\<lparr>f_objects := os\<rparr>) h'"
  using assms blocks_ok_neutral [OF assms(6)] by (simp add: fla_inv_def fla_core_def scratch_ok_def)

lemma fla_load_module:
  assumes dev: "hip_sound dev" and ld: "fla_loading k s h" and k: "k < 8"
    and r: "hip_ok (answers dev h (ModuleLoad path))"
  defines "h1 \<equiv> (ModuleLoad path, answers dev h (ModuleLoad path)) # h"
    and "s1 \<equiv> s\<lparr>f_objects := (f_objects s)[k := (f_objects s ! k)\<lparr>co_module := hip_out (answers dev h (ModuleLoad path))\<rparr>]\<rparr>"
  shows "fla_inv s1 h1" "co_module (f_objects s1 ! k) \<in> live_modules h1" "co_module (f_objects s1 ! k) \<noteq> nullptr"
    "\<not> f_prepared s1" "length (f_objects s1) = 8"
proof -
  let ?m = "hip_out (answers dev h (ModuleLoad path))"
  have I: "fla_inv s h" "\<not> f_prepared s" "f_objects s ! k = no_object"
    using ld k by (auto simp: fla_loading_def)
  have len: "length (f_objects s) = 8" "orderly h" "objects_ok (f_objects s) h"
    using I(1) by (simp_all add: fla_inv_def fla_core_def)
  have m: "?m \<noteq> nullptr" "?m \<notin> live_modules h" using hip_soundD(1,2) [OF dev r] by blast+
  have "(f_objects s ! k)\<lparr>co_module := ?m\<rparr> = \<lparr>co_module = ?m, co_function = nullptr\<rparr>"
    by (simp add: I(3) no_object_def)
  moreover have "objects_ok ((f_objects s)[k := \<lparr>co_module = ?m, co_function = nullptr\<rparr>]) h1"
    unfolding h1_def by (rule objects_ok_load [OF len(3) _ _ m r refl]) (simp_all add: len k I(3) no_object_def)
  ultimately show "fla_inv s1 h1"
    unfolding s1_def using len by (intro fla_inv_objects [OF I(1,2)]) (simp_all add: h1_def)
  show "co_module (f_objects s1 ! k) \<in> live_modules h1" "co_module (f_objects s1 ! k) \<noteq> nullptr"
    "\<not> f_prepared s1" "length (f_objects s1) = 8"
    using r m k len I by (simp_all add: s1_def h1_def)
qed

lemma load_kernels_from_inv:
  assumes dev: "hip_sound dev"
  shows "fla_loading k s h \<Longrightarrow> k + length specs = 8 \<Longrightarrow> load_kernels_from dev d k specs s h = (ok, s', h') \<Longrightarrow>
    fla_inv s' h' \<and> \<not> f_prepared s' \<and> (ok \<longrightarrow> fla_loading 8 s' h')"
proof (induction specs arbitrary: k s h)
  case Nil
  then show ?case by (auto simp: fla_loading_def)
next
  case (Cons sp specs)
  let ?path = "d @ [CHR 0x5C] @ ks_file sp"
  let ?r = "answers dev h (ModuleLoad ?path)"
  let ?h1 = "(ModuleLoad ?path, ?r) # h"
  let ?s1 = "s\<lparr>f_objects := (f_objects s)[k := (f_objects s ! k)\<lparr>co_module := hip_out ?r\<rparr>]\<rparr>"
  let ?call = "ModuleGetFunction (co_module (f_objects ?s1 ! k)) (ks_symbol sp)"
  let ?q = "answers dev ?h1 ?call"
  let ?h2 = "(?call, ?q) # ?h1"
  let ?s2 = "?s1\<lparr>f_objects := (f_objects ?s1)[k := (f_objects ?s1 ! k)\<lparr>co_function := hip_out ?q\<rparr>]\<rparr>"
  have k: "k < 8" using Cons.prems(2) by simp
  have I: "fla_inv s h" "\<not> f_prepared s" using Cons.prems(1) by (simp_all add: fla_loading_def)
  show ?case
  proof (cases "1400 \<le> length ?path \<or> \<not> hip_ok ?r")
    case True
    have "fla_inv s ?h1" if "\<not> hip_ok ?r"
      by (rule fla_inv_call [OF I(1)]) (use that in simp_all)
    with True Cons.prems(3) I show ?thesis by (auto simp: ask_def Let_def split: if_splits)
  next
    case False
    then have r: "hip_ok ?r" by simp
    note M = fla_load_module [OF dev Cons.prems(1) k r]
    show ?thesis
    proof (cases "hip_ok ?q")
      case nofunc: False
      have inv: "fla_inv ?s1 ?h2"
        by (rule fla_inv_call [OF M(1)]) (use M(2) nofunc in simp_all)
      have "load_kernels_from dev d k (sp # specs) s h = (False,
          fla_set_error dev (c_copy 256 (''hipModuleGetFunction('' @ ks_symbol sp @ '')'')) (hip_status ?q) ?s1, ?h2)"
        using False nofunc by (simp add: ask_def Let_def)
      then have e: "ok = False" "h' = ?h2"
        "s' = fla_set_error dev (c_copy 256 (''hipModuleGetFunction('' @ ks_symbol sp @ '')'')) (hip_status ?q) ?s1"
        unfolding Cons.prems(3) by (simp_all only: prod.inject)
      show ?thesis
        unfolding e fla_inv_error fla_error_simps using inv M(4) by blast
    next
      case func: True
      have eq: "load_kernels_from dev d k (sp # specs) s h = load_kernels_from dev d (Suc k) specs ?s2 ?h2"
        using False func by (simp add: ask_def Let_def)
      have ld: "fla_loading (Suc k) ?s2 ?h2"
      proof -
        have "objects_ok (f_objects ?s1) ?h1" "orderly ?h1"
          using M(1) by (simp_all add: fla_inv_def fla_core_def)
        then have "objects_ok ((f_objects ?s1)[k := (f_objects ?s1 ! k)\<lparr>co_function := hip_out ?q\<rparr>]) ?h2"
          using k M(3,5) func by (intro objects_ok_function) simp_all
        then have "fla_inv ?s2 ?h2"
          by (rule fla_inv_objects [OF M(1,4)]) (use M(2,5) \<open>orderly ?h1\<close> in simp_all)
        moreover have "live_functions ?h2 = insert (co_module (f_objects ?s1 ! k), hip_out ?q) (live_functions h)"
          using func by simp
        moreover have "length (f_objects s) = 8" using M(5) by simp
        ultimately show ?thesis
          using Cons.prems(1) M(4) k unfolding fla_loading_def
          by (auto simp: nth_list_update less_Suc_eq simp del: live_functions.simps)
      qed
      show ?thesis
        by (rule Cons.IH [OF ld _ Cons.prems(3) [unfolded eq]]) (use Cons.prems(2) in simp)
    qed
  qed
qed


lemma fla_release_state_inv:
  assumes inv: "fla_inv s h" and rel: "fla_release_state dev s h = (s', h')"
  shows "fla_inv s' h'" "s' = fla_initial" "live_modules h' = {}" "live_functions h' = {}" "live_blocks h' = {}"
proof -
  obtain s1 h1 where r1: "fla_release_scratch dev s h = (s1, h1)" by (cases "fla_release_scratch dev s h")
  have "fla_core s h" "blocks_ok (zip (scratch_pointers s) (scratch_sizes (f_scratch_tokens s))) h"
    using inv by (simp_all add: fla_inv_def scratch_ok_def)
  note R = fla_release_scratch_inv [OF this r1]
  have h': "h' = unload_modules dev (map co_module (f_objects s1)) h1" and s': "s' = fla_initial"
    using rel by (simp_all add: fla_release_state_def r1)
  have "objects_ok (f_objects s1) h1" "orderly h1" using R(1) by (simp_all add: fla_inv_def fla_core_def)
  note U = objects_ok_unload [OF this(1) refl this(2)]
  show l: "live_modules h' = {}" "live_functions h' = {}"
    unfolding h' by (rule U(2), rule U(3))
  show l2: "live_blocks h' = {}" "s' = fla_initial"
    unfolding h' by (simp_all only: unload_modules_live R(4) s')
  have "orderly h'" unfolding h' by (rule U)
  then show "fla_inv s' h'"
    using l l2 by (simp add: fla_inv_def fla_core_def scratch_ok_def objects_ok_none fla_initial_def scratch_pointers_def
        scratch_sizes_def blocks_ok_none)
qed

lemma fla_prepare_inv:
  assumes dev: "hip_sound dev" and inv: "fla_inv s h" and run: "fla_prepare dev kd s h = (r, s', h')"
  shows "fla_inv s' h'"
proof -
  consider (refuse) m where "s' = fla_set_error_text m s" "h' = h" | (same) "s' = s" "h' = h"
    | (load) d where "kd = Some d" "d \<noteq> []" "\<not> (f_prepared s \<and> f_kernel_dir s = d)"
    using run by (cases kd) (auto simp: fla_prepare_def split: if_splits)
  then show ?thesis
  proof cases
    case load
    obtain s1 h1 where rel: "fla_release_state dev s h = (s1, h1)" by (cases "fla_release_state dev s h")
    note R = fla_release_state_inv [OF inv rel]
    let ?s2 = "s1\<lparr>f_kernel_dir := c_copy 1024 d\<rparr>"
    have ld: "fla_loading 0 ?s2 h1"
      using R(1) by (simp add: fla_loading_def R(2)) (simp add: fla_initial_def)
    obtain ok s3 h3 where eq: "load_kernels dev d ?s2 h1 = (ok, s3, h3)" by (cases "load_kernels dev d ?s2 h1")
    have k: "fla_inv s3 h3 \<and> \<not> f_prepared s3 \<and> (ok \<longrightarrow> fla_loading 8 s3 h3)"
      by (rule load_kernels_from_inv [OF dev ld _ eq [unfolded load_kernels_def]]) (simp add: kKernelSpecs_def)
    obtain s4 h4 where rel2: "fla_release_state dev s3 h3 = (s4, h4)" by (cases "fla_release_state dev s3 h3")
    show ?thesis
    proof (cases ok)
      case True
      then have "fla_inv s3 h3" "fla_loading 8 s3 h3" using k by simp_all
      then have "fla_inv (s3\<lparr>f_prepared := True\<rparr>) h3"
        by (auto simp: fla_inv_def fla_core_def scratch_ok_def fla_loading_def in_set_conv_nth)
      moreover have "s' = s3\<lparr>f_prepared := True, f_error := []\<rparr>" "h' = h3"
        using run load True by (auto simp: fla_prepare_def rel eq)
      ultimately show ?thesis by simp
    next
      case False
      then have "s' = fla_set_error_text (Some (f_error s3)) s4" "h' = h4"
        using run load by (auto simp: fla_prepare_def rel eq rel2)
      then show ?thesis
        using fla_release_state_inv(1) [OF _ rel2] k by simp
    qed
  qed (use inv in simp_all)
qed

text \<open>A prepared provider: each step of a segment keeps the invariant and the code objects.\<close>

definition fla_running :: "bool \<times> fla_state \<times> hip_hist \<Rightarrow> bool" where
  "fla_running r \<longleftrightarrow> (case r of (ok, s, h) \<Rightarrow> fla_inv s h \<and> f_prepared s)"

lemma fla_running_and_then:
  assumes "fla_running r" "\<And>s h. fla_inv s h \<Longrightarrow> f_prepared s \<Longrightarrow> fla_running (f s h)"
  shows "fla_running (and_then r f)"
  using assms by (cases r) (auto simp: and_then_def fla_running_def)

lemma kernel_slot_less: "kernel_slot k < 8"
  by (cases k) simp_all

lemma fla_launch_running:
  assumes "fla_inv s h" "f_prepared s"
  shows "fla_running (fla_launch dev k dims st args s h)"
proof -
  let ?c = "f_objects s ! kernel_slot k"
  have "?c \<in> set (f_objects s)"
    using assms(1) kernel_slot_less [of k] by (simp add: fla_inv_def fla_core_def)
  then have "(co_module ?c, co_function ?c) \<in> live_functions h"
    using assms by (simp add: fla_inv_def fla_core_def)
  then have "co_function ?c \<in> snd ` live_functions h" by force
  then have "fla_inv s ((ModuleLaunchKernel (co_function ?c) ds args, q) # h)" for ds q
    by (intro fla_inv_call [OF assms(1)]) simp_all
  then show ?thesis
    using assms(2) by (simp add: fla_running_def fla_launch_def ask_def Let_def)
qed

lemma fla_memset_running:
  assumes "fla_inv s h" "f_prepared s"
  shows "fla_running (fla_memset dev nm p n st s h)"
proof -
  have "fla_inv s ((MemsetAsync p 0 n st, q) # h)" for q
    by (intro fla_inv_call [OF assms(1)]) simp_all
  then show ?thesis
    using assms(2) by (simp add: fla_running_def fla_memset_def ask_def Let_def)
qed

lemma launch_segment_running:
  assumes dev: "hip_sound dev" and inv: "fla_inv s h" "f_prepared s"
  shows "fla_running (launch_segment_async dev a n reset s h)"
proof -
  have steps: "fla_running (launch_segment_steps dev a n reset s h)" if "fla_inv s h" "f_prepared s" for s h
    unfolding launch_segment_steps_def segment_input_steps_def segment_output_steps_def Let_def
    by (intro fla_running_and_then fla_launch_running fla_memset_running)
      (use that fla_memset_running in \<open>simp_all add: fla_running_def\<close>)
  have "fla_running (ensure_scratch dev n s h)"
    using ensure_scratch_inv [OF dev inv(1), of n] inv(2)
    by (cases "ensure_scratch dev n s h") (auto simp: fla_running_def)
  then show ?thesis
    unfolding launch_segment_async_def by (intro fla_running_and_then steps) (simp_all add: fla_running_def)
qed

lemma launch_segments_running:
  assumes dev: "hip_sound dev"
  shows "fla_inv s h \<Longrightarrow> f_prepared s \<Longrightarrow> fla_running (launch_segments dev a seg n off s h)"
proof (induction "nat (n - off)" arbitrary: off s h rule: less_induct)
  case less
  show ?case
  proof (cases "off < n \<and> 0 < seg")
    case True
    then have "fla_running (launch_segments dev a seg n (off + seg) s h)" if "fla_inv s h" "f_prepared s" for s h
      using that by (intro less.hyps) simp_all
    with True less.prems show ?thesis
      using launch_segment_running [OF dev] by (simp add: launch_segments.simps [of dev a seg n off] fla_running_and_then)
  next
    case False
    then show ?thesis
      using less.prems unfolding launch_segments.simps [of dev a seg n off] if_not_P [OF False]
      by (simp add: fla_running_def)
  qed
qed

lemma launch_pipeline_inv:
  assumes dev: "hip_sound dev" and inv: "fla_inv s h"
    and run: "launch_pipeline_async dev a decay n s h = (r, s', h')"
  shows "fla_inv s' h'"
proof (cases "f_prepared s")
  case True
  obtain ok t k where l: "launch_segments dev a (if n = 65536 then fla_kQ65536SegmentTokens else n) n 0 s h = (ok, t, k)"
    by (cases "launch_segments dev a (if n = 65536 then fla_kQ65536SegmentTokens else n) n 0 s h")
  have "fla_inv t k"
    using launch_segments_running [OF dev inv True, of a "if n = 65536 then fla_kQ65536SegmentTokens else n" n 0]
    by (simp add: l fla_running_def)
  with run inv show ?thesis
    unfolding launch_pipeline_async_def Let_def l by (auto split: if_splits)
next
  case False
  with run inv show ?thesis by (auto simp: launch_pipeline_async_def)
qed

lemma fla_exec_inv:
  assumes dev: "hip_sound dev" and inv: "fla_inv s h" and run: "fla_exec dev c s h = (r, s', h')"
  shows "fla_inv s' h'"
proof (cases c)
  case (FLaunch sh a decay)
  obtain q t k where l: "launch_pipeline_async dev a decay (fla_shape_tokens sh) s h = (q, t, k)"
    by (cases "launch_pipeline_async dev a decay (fla_shape_tokens sh) s h")
  have t: "fla_inv t k" by (rule launch_pipeline_inv [OF dev inv l])
  then have "fla_inv t ((StreamSynchronize (fs_stream a), x) # k)" for x
    by (rule fla_inv_call) simp_all
  with t run FLaunch show ?thesis
    by (auto simp: fla_shape_launch_def launch_pipeline_synchronous_def l ask_def Let_def split: if_splits)
qed (use run fla_prepare_inv [OF dev inv] launch_pipeline_inv [OF dev inv] fla_release_state_inv(1) [OF inv] in
  \<open>auto simp: fla_shape_launch_async_def fla_release_def split: prod.splits\<close>)

interpretation fla: device_provider fla_exec FRelease fla_initial fla_inv
proof
  show "fla_inv fla_initial []"
    by (simp add: fla_inv_def fla_core_def scratch_ok_def objects_ok_none fla_initial_def scratch_pointers_def
        scratch_sizes_def blocks_ok_none)
  show "fla_inv s' h'" if "hip_sound dev" "fla_inv s h" "fla_exec dev c s h = (r, s', h')" for dev s h c r s' h'
    using that by (rule fla_exec_inv)
  show "orderly h" if "fla_inv s h" for s h
    using that by (simp add: fla_inv_def fla_core_def)
  show "s' = fla_initial \<and> live_modules h' = {} \<and> live_functions h' = {} \<and> live_blocks h' = {}"
    if "hip_sound dev" "fla_inv s h" "fla_exec dev FRelease s h = (r, s', h')" for dev s h r s' h'
    using that fla_release_state_inv(2-5) [OF that(2)] by (auto simp: fla_release_def split: prod.splits)
qed


section \<open>Device work\<close>

text \<open>The kernels and memory sets a history has issued, in order.\<close>

fun is_work :: "hip_call \<Rightarrow> bool" where
  "is_work (ModuleLaunchKernel f dims args) = True"
| "is_work (MemsetAsync p v n st) = True"
| "is_work _ = False"

definition device_work :: "hip_hist \<Rightarrow> hip_call list" where
  "device_work h = rev (filter is_work (map fst h))"

definition kernel_call :: "fla_state \<Rightarrow> kernel_index \<Rightarrow> u32 \<times> u32 \<times> u32 \<Rightarrow> u64 \<Rightarrow> kernel_arg list \<Rightarrow> hip_call" where
  "kernel_call s k dims st args =
     ModuleLaunchKernel (co_function (f_objects s ! kernel_slot k))
       \<lparr>grid = dims, block = (ks_threads (kKernelSpecs ! kernel_slot k), 1, 1),
        shared_bytes = ks_shared (kKernelSpecs ! kernel_slot k), stream = st\<rparr> args"

text \<open>
  The work of one segment of \<open>n\<close> tokens: normalise queries and keys, copy values, accumulate
  the gates, form and invert the chunk matrices, recompute, carry the state through the
  chunks and produce the output.
\<close>

definition segment_work :: "fla_state \<Rightarrow> fla_surface \<Rightarrow> int \<Rightarrow> bool \<Rightarrow> hip_call list" where
  "segment_work s a n reset =
     (let st = fs_stream a;
          qkv = f_compact_qkv s; gates = f_gate_and_beta s; aw = f_a_or_w s; av = f_ai_or_v_new s; cs = f_chunk_state s;
          keys = qkv + of_int n * 4096; vals = qkv + of_int n * 8192; beta = gates + of_int n * 128;
          raw = fs_postconv a; gt = fs_gate a; state = fs_final_state a; out = fs_output a;
          chunks = of_int (n div 64);
          args = (\<lambda>ps. map Pointer ps @ [Int32 n, Pointer nullptr, Pointer nullptr])
      in (if reset then [MemsetAsync state 0 2097152 st] else []) @
         [kernel_call s KQkL2Norm (ucast ((of_int n * 16 + 31) div 32 :: u64), 1, 1) st (args [raw, qkv, keys]),
          kernel_call s KVBetaCopy (ucast (of_int n * 32 :: u64), 1, 1) st (args [raw, gt, vals, beta]),
          kernel_call s KGateCumsum (chunks, 32, 1) st (args [gt, gates]),
          kernel_call s KScaledDotKkt (chunks, 32, 1) st (args [keys, beta, gates, aw]),
          MemsetAsync av 0 (of_int n * 4096) st,
          kernel_call s KSolveTril64 (chunks, 32, 1) st (args [aw, av]),
          kernel_call s KRecomputeWU (chunks, 32, 1) st (args [keys, vals, beta, aw, vals, av, gates]),
          kernel_call s KChunkState (8, 32, 1) st (args [keys, vals, aw, av, gates, state, cs, state]),
          kernel_call s KChunkOutput (4, chunks, 32) st (args [qkv, keys, av, cs, gates, out])])"

definition does :: "hip_call list \<Rightarrow> fla_state \<Rightarrow> hip_hist \<Rightarrow> bool \<times> fla_state \<times> hip_hist \<Rightarrow> bool" where
  "does cs s h r \<longleftrightarrow> (case r of (ok, s', h') \<Rightarrow> ok \<longrightarrow> s' = s \<and> device_work h' = device_work h @ cs)"

lemma does_and_then:
  assumes r: "does cs s h r" and f: "\<And>k. does ds s k (f s k)"
  shows "does (cs @ ds) s h (and_then r f)"
proof -
  obtain ok s1 h1 where e: "r = (ok, s1, h1)" by (cases r)
  obtain ok2 s2 h2 where g: "f s h1 = (ok2, s2, h2)" by (cases "f s h1")
  show ?thesis using r f [of h1] by (auto simp: does_def and_then_def e g)
qed

lemma does_eq: "does cs s h r \<Longrightarrow> ds = cs \<Longrightarrow> does ds s h r"
  by simp

lemma fla_launch_does: "does [kernel_call s k dims st args] s h (fla_launch dev k dims st args s h)"
  by (simp add: does_def fla_launch_def kernel_call_def ask_def Let_def device_work_def)

lemma fla_memset_does: "does [MemsetAsync p 0 n st] s h (fla_memset dev nm p n st s h)"
  by (simp add: does_def fla_memset_def ask_def Let_def device_work_def)

lemmas fla_constants = fla_kQkHeads_def fla_kValueHeads_def fla_kKeyDim_def fla_kChunk_def fla_kGateRows_def
  fla_kQkvRows_def fla_kValueFeatures_def fla_kStateElements_def fla_kQ65536SegmentTokens_def
  kCompactQkvBytesPerToken_def kGateAndBetaBytesPerToken_def kAOrWBytesPerToken_def kAiOrVNewBytesPerToken_def
  kChunkStateBytesPerToken_def kScratchBytesPerToken_def

lemma reset_does:
  "does (if reset then [MemsetAsync p 0 n st] else []) s h
     (if reset then fla_memset dev nm p n st s h else (True, s, h))"
  using fla_memset_does by (simp add: does_def)

lemma launch_segment_steps_does: "does (segment_work s a n reset) s h (launch_segment_steps dev a n reset s h)"
  unfolding launch_segment_steps_def segment_input_steps_def segment_output_steps_def Let_def
  by (rule does_eq, (rule does_and_then reset_does fla_launch_does fla_memset_does)+)
    (simp add: segment_work_def segment_views_def fla_constants Let_def algebra_simps)

lemma device_work_simps [simp]:
  "device_work ((c, r) # h) = (if is_work c then device_work h @ [c] else device_work h)"
  by (simp add: device_work_def)

lemma free_blocks_work [simp]: "device_work (free_blocks dev ps h) = device_work h"
  by (induction ps arbitrary: h) (simp_all add: hip_tell_eq)

lemma fla_release_scratch_work: "device_work (snd (fla_release_scratch dev s h)) = device_work h"
  unfolding fla_release_scratch_def snd_conv by (rule free_blocks_work)

lemma scratch_malloc_work: "device_work (snd (snd (scratch_malloc dev nm n put s h))) = device_work h"
  unfolding scratch_malloc_def ask_def Let_def prod.case
  using fla_release_scratch_work by (simp add: case_prod_beta)

lemma and_then_work:
  "(\<And>t k. device_work (snd (snd (f t k))) = device_work k) \<Longrightarrow>
     device_work (snd (snd (and_then r f))) = device_work (snd (snd r))"
  by (cases r) (simp add: and_then_def)

lemma scratch_allocation_work: "device_work (snd (snd (scratch_allocation dev n s h))) = device_work h"
  unfolding scratch_allocation_def by (simp add: and_then_work scratch_malloc_work)

lemma ensure_scratch_work:
  assumes "ensure_scratch dev n s h = (ok, s', h')"
  shows "device_work h' = device_work h"
  using assms
proof (cases rule: ensure_scratch_cases)
  case (allocated s1 h1)
  have "device_work (snd (snd (and_then (scratch_allocation dev n s1 h1)
      (\<lambda>s h. (True, s\<lparr>f_scratch_tokens := n\<rparr>, h))))) = device_work h1"
    by (simp add: and_then_work scratch_allocation_work)
  with allocated(3) fla_release_scratch_work [of dev s h] show ?thesis
    unfolding allocated(2) by simp
qed simp_all

text \<open>The scratch blocks are those of a segment of \<open>n\<close> tokens.\<close>

definition fla_ready :: "int \<Rightarrow> fla_state \<Rightarrow> bool" where
  "fla_ready n s \<longleftrightarrow> f_scratch_tokens s = n \<and> nullptr \<notin> set (scratch_pointers s)"

lemma ensure_scratch_ready: "fla_ready n s \<Longrightarrow> ensure_scratch dev n s h = (True, s, h)"
  by (auto simp: ensure_scratch_def fla_ready_def scratch_pointers_def)

lemma segment_work_cong:
  assumes "f_objects s' = f_objects s" "scratch_pointers s' = scratch_pointers s"
  shows "segment_work s' a n reset = segment_work s a n reset"
proof -
  have "f_compact_qkv s' = f_compact_qkv s" "f_gate_and_beta s' = f_gate_and_beta s" "f_a_or_w s' = f_a_or_w s"
    "f_ai_or_v_new s' = f_ai_or_v_new s" "f_chunk_state s' = f_chunk_state s"
    using assms(2) by (simp_all add: scratch_pointers_def)
  then show ?thesis
    unfolding segment_work_def kernel_call_def by (simp only: assms(1))
qed

lemma launch_segment_async_work:
  assumes dev: "hip_sound dev" and inv: "fla_inv s h"
    and run: "launch_segment_async dev a n reset s h = (True, s', h')"
  shows "device_work h' = device_work h @ segment_work s' a n reset" "fla_ready n s'"
    "f_objects s' = f_objects s" "f_prepared s' = f_prepared s"
    "fla_ready n s \<Longrightarrow> scratch_pointers s' = scratch_pointers s"
proof -
  obtain s1 h1 where e: "ensure_scratch dev n s h = (True, s1, h1)"
    and st: "and_then (launch_segment_steps dev a n reset s1 h1) (\<lambda>s h. (True, s\<lparr>f_error := []\<rparr>, h)) = (True, s', h')"
    using run unfolding launch_segment_async_def
    by (cases "ensure_scratch dev n s h") (auto simp: and_then_def split: if_splits prod.splits)
  obtain s2 where l: "launch_segment_steps dev a n reset s1 h1 = (True, s2, h')" and s': "s' = s2\<lparr>f_error := []\<rparr>"
    using st by (cases "launch_segment_steps dev a n reset s1 h1") (auto simp: and_then_def split: if_splits)
  have w: "s2 = s1" "device_work h' = device_work h1 @ segment_work s1 a n reset"
    using launch_segment_steps_does [of s1 a n reset h1 dev] by (simp_all add: l does_def)
  note E = ensure_scratch_inv [OF dev inv e]
  have same: "f_objects s' = f_objects s1" "scratch_pointers s' = scratch_pointers s1"
    "f_scratch_tokens s' = f_scratch_tokens s1" "f_prepared s' = f_prepared s1"
    by (simp_all add: s' w(1))
  show "device_work h' = device_work h @ segment_work s' a n reset"
    using w(2) ensure_scratch_work [OF e] segment_work_cong [OF same(1,2)] by simp
  show "fla_ready n s'" "f_objects s' = f_objects s" "f_prepared s' = f_prepared s"
    using E by (simp_all add: fla_ready_def same)
  show "scratch_pointers s' = scratch_pointers s" if "fla_ready n s"
    using ensure_scratch_ready [OF that, of dev h] e same(2) by simp
qed

definition segments_work :: "fla_state \<Rightarrow> fla_surface \<Rightarrow> int \<Rightarrow> int \<Rightarrow> nat \<Rightarrow> hip_call list" where
  "segments_work s a seg off m =
     concat (map (\<lambda>i. segment_work s (surface_at (off + int i * seg) a) seg (off + int i * seg = 0)) [0..<m])"

lemma segments_work_Suc:
  "segments_work s a seg off (Suc m) =
     segment_work s (surface_at off a) seg (off = 0) @ segments_work s a seg (off + seg) m"
  unfolding segments_work_def upt_conv_Cons [OF zero_less_Suc] map_Suc_upt [symmetric]
  by (simp add: comp_def algebra_simps)

lemma launch_segments_work:
  assumes dev: "hip_sound dev" and seg: "0 < seg"
  shows "fla_inv s h \<Longrightarrow> f_prepared s \<Longrightarrow> n = off + int m * seg \<Longrightarrow> m = 0 \<longrightarrow> fla_ready seg s \<Longrightarrow>
     launch_segments dev a seg n off s h = (True, s', h') \<Longrightarrow>
     device_work h' = device_work h @ segments_work s' a seg off m \<and> fla_ready seg s' \<and> f_objects s' = f_objects s \<and>
     (fla_ready seg s \<longrightarrow> scratch_pointers s' = scratch_pointers s)"
proof (induction m arbitrary: off s h)
  case 0
  then show ?case by (simp add: launch_segments.simps [of dev a seg off off] segments_work_def)
next
  case (Suc m)
  have "0 \<le> int m * seg" using seg by simp
  moreover have "n = off + (seg + int m * seg)" using Suc.prems(3) by (simp add: algebra_simps)
  ultimately have "off < n" using seg by linarith
  then have eq: "launch_segments dev a seg n off s h = and_then (launch_segment_async dev (surface_at off a) seg (off = 0) s h)
      (launch_segments dev a seg n (off + seg))"
    using seg by (simp add: launch_segments.simps [of dev a seg n off])
  obtain s1 h1 where s1: "launch_segment_async dev (surface_at off a) seg (off = 0) s h = (True, s1, h1)"
    and rest: "launch_segments dev a seg n (off + seg) s1 h1 = (True, s', h')"
    using Suc.prems(5) unfolding eq
    by (cases "launch_segment_async dev (surface_at off a) seg (off = 0) s h") (auto simp: and_then_def split: if_splits)
  note W = launch_segment_async_work [OF dev Suc.prems(1) s1]
  have inv: "fla_inv s1 h1"
    using launch_segment_running [OF dev Suc.prems(1,2), of "surface_at off a" seg "off = 0"] by (simp add: s1 fla_running_def)
  have IH: "device_work h' = device_work h1 @ segments_work s' a seg (off + seg) m" "fla_ready seg s'"
    "f_objects s' = f_objects s1" "scratch_pointers s' = scratch_pointers s1"
    using Suc.IH [OF inv _ _ _ rest] W Suc.prems(2,3) by (simp_all add: algebra_simps)
  have "segment_work s1 (surface_at off a) seg (off = 0) = segment_work s' (surface_at off a) seg (off = 0)"
    using IH(3,4) by (intro segment_work_cong) simp_all
  then show ?case
    using W IH by (simp add: segments_work_Suc)
qed


section \<open>Properties\<close>

text \<open>A range of bytes lies inside a live block.\<close>

definition inside :: "hip_hist \<Rightarrow> u64 \<Rightarrow> nat \<Rightarrow> bool" where
  "inside h p len \<longleftrightarrow> (\<exists>b \<in> live_blocks h. unat (p - fst b) + len \<le> unat (snd b))"

lemma unat_scaled:
  assumes "0 \<le> n" "n < 2147483648" "c < 4294967296"
  shows "unat (of_int n * of_nat c :: u64) = nat n * c"
proof -
  have "nat n * c < 2147483648 * 4294967296"
    using assms by (intro mult_strict_mono) simp_all
  moreover have "(of_int n * of_nat c :: u64) = of_nat (nat n * c)"
    using assms(1) by simp
  ultimately show ?thesis by (simp add: unat_of_nat_small del: of_nat_mult)
qed

lemma unat_scaled_numeral:
  assumes "0 \<le> n" "n < 2147483648" "numeral c < (4294967296 :: nat)"
  shows "unat (of_int n * numeral c :: u64) = nat n * numeral c"
  using unat_scaled [OF assms(1,2), of "numeral c"] assms(3) by simp

lemma insideI:
  assumes "(b, sz) \<in> live_blocks h" "p = b + off" "unat off + len \<le> unat sz"
  shows "inside h p len"
  unfolding inside_def using assms by (intro bexI [of _ "(b, sz)"]) simp_all

lemma segment_views_simps:
  "fv_q (segment_views n s) = f_compact_qkv s" "fv_k (segment_views n s) = f_compact_qkv s + of_int n * 4096"
  "fv_v (segment_views n s) = f_compact_qkv s + of_int n * 8192" "fv_g_cumsum (segment_views n s) = f_gate_and_beta s"
  "fv_beta (segment_views n s) = f_gate_and_beta s + of_int n * 128" "fv_a (segment_views n s) = f_a_or_w s"
  "fv_a_inverse (segment_views n s) = f_ai_or_v_new s" "fv_w (segment_views n s) = f_a_or_w s"
  "fv_v_new (segment_views n s) = f_ai_or_v_new s"
  by (simp_all add: segment_views_def fla_constants Let_def)

lemma scratch_layout:
  assumes "hip_sound dev" "fla_inv s h" "ensure_scratch dev n s h = (True, s', h')" "n < 2147483648" "n \<noteq> 65536"
  shows "inside h' (fv_q (segment_views n s')) (nat n * 16 * 128 * 2)"
    and "inside h' (fv_k (segment_views n s')) (nat n * 16 * 128 * 2)"
    and "inside h' (fv_v (segment_views n s')) (nat n * 32 * 128 * 2)"
    and "inside h' (fv_g_cumsum (segment_views n s')) (nat n * 32 * 4)"
    and "inside h' (fv_beta (segment_views n s')) (nat n * 32 * 2)"
    and "inside h' (fv_a (segment_views n s')) (nat n * 32 * 64 * 4)"
    and "inside h' (fv_a_inverse (segment_views n s')) (nat n * 32 * 64 * 2)"
    and "inside h' (fv_w (segment_views n s')) (nat n * 32 * 128 * 2)"
    and "inside h' (fv_v_new (segment_views n s')) (nat n * 32 * 128 * 2)"
    and "inside h' (f_chunk_state s') (nat n div 64 * 32 * 128 * 128 * 2)"
    and "unat (fv_k (segment_views n s') - fv_q (segment_views n s')) = nat n * 16 * 128 * 2"
    and "unat (fv_v (segment_views n s') - fv_k (segment_views n s')) = nat n * 16 * 128 * 2"
    and "unat (fv_beta (segment_views n s') - fv_g_cumsum (segment_views n s')) = nat n * 32 * 4"
    and "(\<Sum>b \<in> live_blocks h'. unat (snd b)) = unat (fla_scratch_bytes n)"
proof -
  note E = ensure_scratch_inv [OF assms(1-3)]
  have ok: "scratch_ok s' h'" and tok: "f_scratch_tokens s' = n" and nn: "nullptr \<notin> set (scratch_pointers s')"
    using E by (simp_all add: fla_inv_def)
  have n: "0 \<le> n" using ok tok by (auto simp: scratch_ok_def split: if_splits)
  note U = unat_scaled_numeral [OF n assms(4)]
  let ?Z = "zip (scratch_pointers s') (scratch_sizes n)"
  have B: "blocks_ok ?Z h'" using ok by (simp add: scratch_ok_def tok)
  have "\<forall>b \<in> set ?Z. fst b \<noteq> nullptr" using nn by (auto dest: set_zip_leftD)
  then have "live_blocks h' = set ?Z" using B by (auto simp: blocks_ok_def)
  then have live: "live_blocks h' = {(f_compact_qkv s', of_int n * 16384), (f_gate_and_beta s', of_int n * 192),
      (f_a_or_w s', of_int n * 8192), (f_ai_or_v_new s', of_int n * 8192), (f_chunk_state s', of_int n * 16384)}"
    by (simp add: scratch_pointers_def scratch_sizes_def fla_constants)
  have "map fst ?Z = scratch_pointers s'" by (rule map_fst_zip) simp
  moreover have "filter (\<lambda>m. m \<noteq> nullptr) (scratch_pointers s') = scratch_pointers s'"
    using nn by (auto simp: filter_id_conv)
  ultimately have dist: "distinct (scratch_pointers s')"
    using B unfolding blocks_ok_def nonnull_distinct_def by metis
  note S = segment_views_simps live U
  show "inside h' (fv_q (segment_views n s')) (nat n * 16 * 128 * 2)"
    by (rule insideI [of "f_compact_qkv s'" "of_int n * 16384" _ _ 0]) (simp_all add: S)
  show "inside h' (fv_k (segment_views n s')) (nat n * 16 * 128 * 2)"
    by (rule insideI [of "f_compact_qkv s'" "of_int n * 16384" _ _ "of_int n * 4096"]) (simp_all add: S)
  show "inside h' (fv_v (segment_views n s')) (nat n * 32 * 128 * 2)"
    by (rule insideI [of "f_compact_qkv s'" "of_int n * 16384" _ _ "of_int n * 8192"]) (simp_all add: S)
  show "inside h' (fv_g_cumsum (segment_views n s')) (nat n * 32 * 4)"
    by (rule insideI [of "f_gate_and_beta s'" "of_int n * 192" _ _ 0]) (simp_all add: S)
  show "inside h' (fv_beta (segment_views n s')) (nat n * 32 * 2)"
    by (rule insideI [of "f_gate_and_beta s'" "of_int n * 192" _ _ "of_int n * 128"]) (simp_all add: S)
  show "inside h' (fv_a (segment_views n s')) (nat n * 32 * 64 * 4)"
    by (rule insideI [of "f_a_or_w s'" "of_int n * 8192" _ _ 0]) (simp_all add: S)
  show "inside h' (fv_a_inverse (segment_views n s')) (nat n * 32 * 64 * 2)"
    by (rule insideI [of "f_ai_or_v_new s'" "of_int n * 8192" _ _ 0]) (simp_all add: S)
  show "inside h' (fv_w (segment_views n s')) (nat n * 32 * 128 * 2)"
    by (rule insideI [of "f_a_or_w s'" "of_int n * 8192" _ _ 0]) (simp_all add: S)
  show "inside h' (fv_v_new (segment_views n s')) (nat n * 32 * 128 * 2)"
    by (rule insideI [of "f_ai_or_v_new s'" "of_int n * 8192" _ _ 0]) (simp_all add: S)
  show "inside h' (f_chunk_state s') (nat n div 64 * 32 * 128 * 128 * 2)"
    by (rule insideI [of "f_chunk_state s'" "of_int n * 16384" _ _ 0]) (simp_all add: S)
  show "unat (fv_k (segment_views n s') - fv_q (segment_views n s')) = nat n * 16 * 128 * 2"
    and "unat (fv_v (segment_views n s') - fv_k (segment_views n s')) = nat n * 16 * 128 * 2"
    and "unat (fv_beta (segment_views n s') - fv_g_cumsum (segment_views n s')) = nat n * 32 * 4"
    by (simp_all add: segment_views_simps U flip: right_diff_distrib)
  show "(\<Sum>b \<in> live_blocks h'. unat (snd b)) = unat (fla_scratch_bytes n)"
    using dist n assms(5) by (simp add: live U scratch_pointers_def fla_scratch_bytes_def fla_constants)
qed

text \<open>C28. After the scratch for \<open>n\<close> tokens is there, each of the ten arrays a segment uses lies inside one of the
  five device blocks: queries and keys of 16 heads and values of 32 heads one after the other in the first,
  cumulated gates and betas in the second, the chunk matrices and their inverses, the recomputed keys and the
  new values in the next two, and one 128 by 128 state per chunk and head in the last. The blocks together
  take exactly the number of bytes the provider reports.\<close>

theorem fla_scratch_fits:
  assumes "hip_sound dev" "fla_inv s h" "ensure_scratch dev n s h = (True, s', h')" "n < 2147483648" "n \<noteq> 65536"
  shows "inside h' (fv_q (segment_views n s')) (nat n * 16 * 128 * 2) \<and>
    inside h' (fv_k (segment_views n s')) (nat n * 16 * 128 * 2) \<and>
    inside h' (fv_v (segment_views n s')) (nat n * 32 * 128 * 2) \<and>
    inside h' (fv_g_cumsum (segment_views n s')) (nat n * 32 * 4) \<and>
    inside h' (fv_beta (segment_views n s')) (nat n * 32 * 2) \<and>
    inside h' (fv_a (segment_views n s')) (nat n * 32 * 64 * 4) \<and>
    inside h' (fv_a_inverse (segment_views n s')) (nat n * 32 * 64 * 2) \<and>
    inside h' (fv_w (segment_views n s')) (nat n * 32 * 128 * 2) \<and>
    inside h' (fv_v_new (segment_views n s')) (nat n * 32 * 128 * 2) \<and>
    inside h' (f_chunk_state s') (nat n div 64 * 32 * 128 * 128 * 2) \<and>
    unat (fv_k (segment_views n s') - fv_q (segment_views n s')) = nat n * 16 * 128 * 2 \<and>
    unat (fv_v (segment_views n s') - fv_k (segment_views n s')) = nat n * 16 * 128 * 2 \<and>
    unat (fv_beta (segment_views n s') - fv_g_cumsum (segment_views n s')) = nat n * 32 * 4 \<and>
    ((\<Sum>b \<in> live_blocks h'. unat (snd b)) = unat (fla_scratch_bytes n))"
  by (intro conjI scratch_layout [OF assms])


lemma fla_initial_inv: "fla_inv fla_initial []"
  by (rule fla.inv_start)

lemma eight_objects: "replicate 8 c = [c, c, c, c, c, c, c, c]"
  by (simp add: eval_nat_numeral)

lemmas fla_example_defs =
  fla_prepare_def fla_release_state_def fla_release_scratch_def fla_initial_def no_object_def load_kernels_def
  kKernelSpecs_def and_then_def ask_def good_device_def nullptr_def hipSuccess_def ensure_scratch_def
  checked_bytes_def scratch_malloc_def launch_segment_async_def launch_segment_steps_def segment_input_steps_def segment_output_steps_def fla_launch_def
  fla_memset_def launch_pipeline_async_def launch_segments.simps [of _ _ 64 64 0] launch_segments.simps [of _ _ 64 64 64]
  fla_supported_tokens_def fla_shape_launch_async_def hip_tell_eq fla_release_def fla_constants eight_objects


theorem fla_scratch_fits_witness:
  "\<exists>s' h'. ensure_scratch good_device 64 fla_initial [] = (True, s', h') \<and>
     inside h' (fv_v (segment_views 64 s')) (64 * 32 * 128 * 2) \<and>
     (\<Sum>b \<in> live_blocks h'. unat (snd b)) = unat (fla_scratch_bytes 64)"
proof -
  obtain ok s' h' where run: "ensure_scratch good_device 64 fla_initial [] = (ok, s', h')"
    by (cases "ensure_scratch good_device 64 fla_initial []")
  have "fst (ensure_scratch good_device 64 fla_initial [])"
    by (simp add: fla_example_defs)
  then have ok: "ok = True" using run by simp
  show ?thesis
    using fla_scratch_fits [OF good_device_sound fla_initial_inv run [unfolded ok]] run ok by simp
qed

text \<open>C27. A launch that returns 1 has issued exactly the work of its segments, in order and over surfaces that
  advance by one segment each: the final state is cleared once, before the first kernel, and every segment runs
  the eight kernels of the chunked algorithm over the same scratch. The 65536-token shape runs as 64 segments of
  1024 tokens, every other shape as one segment.\<close>

theorem fla_pipeline_issues:
  assumes "hip_sound dev" "fla_inv s h" "fla_exec dev (FLaunchAsync sh a decay) s h = (1, s', h')"
  shows "\<exists>m. int m * (if sh = F65536 then 1024 else fla_shape_tokens sh) = fla_shape_tokens sh \<and>
     device_work h' = device_work h @ concat (map (\<lambda>i.
       segment_work s' (surface_at (int i * (if sh = F65536 then 1024 else fla_shape_tokens sh)) a)
         (if sh = F65536 then 1024 else fla_shape_tokens sh) (i = 0)) [0..<m]) \<and>
     f_objects s' = f_objects s"
proof -
  define n where "n = fla_shape_tokens sh"
  define seg where "seg = (if sh = F65536 then 1024 else n)"
  define m :: nat where "m = (if sh = F65536 then 64 else 1)"
  have seg: "0 < seg" "n = 0 + int m * seg" "m \<noteq> 0" "(if n = 65536 then fla_kQ65536SegmentTokens else n) = seg"
    by (cases sh; simp add: seg_def n_def m_def fla_constants)+
  have run: "launch_pipeline_async dev a decay n s h = (1, s', h')"
    using assms(3) by (simp add: fla_shape_launch_async_def n_def)
  then have prep: "f_prepared s" by (auto simp: launch_pipeline_async_def split: if_splits)
  obtain t where l: "launch_segments dev a seg n 0 s h = (True, t, h')" and t: "s' = t\<lparr>f_error := []\<rparr>"
    using run unfolding launch_pipeline_async_def Let_def seg(4)
    by (cases "launch_segments dev a seg n 0 s h") (auto split: if_splits)
  have W: "device_work h' = device_work h @ segments_work t a seg 0 m" "f_objects t = f_objects s"
    using launch_segments_work [OF assms(1) seg(1) assms(2) prep seg(2) _ l] seg(3) by simp_all
  have "segment_work t b seg r = segment_work s' b seg r" for b r
    by (rule segment_work_cong) (simp_all add: t)
  then have "device_work h' = device_work h @ concat (map (\<lambda>i. segment_work s' (surface_at (int i * seg) a) seg (i = 0)) [0..<m])"
    using W(1) seg(1) by (simp add: segments_work_def)
  moreover have "f_objects s' = f_objects s" using W(2) t by simp
  ultimately show ?thesis
    using seg(2) unfolding seg_def n_def by (intro exI [of _ m]) simp
qed

definition example_fla_surface :: fla_surface where
  "example_fla_surface = \<lparr>fs_postconv = 4096, fs_gate = 8192, fs_output = 12288, fs_final_state = 16384, fs_stream = 0\<rparr>"

lemma good_device_load:
  assumes "\<forall>x \<in> live_modules h. unat x \<le> 1048576 * length h" "length h < 4294967296"
  shows "hip_ok (answers good_device h (ModuleLoad path))"
    and "unat (hip_out (answers good_device h (ModuleLoad path))) = 1048576 * Suc (length h)"
proof -
  have u: "unat (of_nat (1048576 * Suc (length h)) :: u64) = 1048576 * Suc (length h)"
    using assms(2) by (intro unat_of_nat_small) simp
  then have "(of_nat (1048576 * Suc (length h)) :: u64) \<notin> live_modules h" using assms(1) by force
  moreover have "(of_nat (1048576 * Suc (length h)) :: u64) \<noteq> nullptr"
    using u by (metis nullptr_def unat_0 mult_is_0 nat.distinct(2) zero_neq_numeral)
  ultimately show "hip_ok (answers good_device h (ModuleLoad path))"
    unfolding good_device_def Let_def by simp
  show "unat (hip_out (answers good_device h (ModuleLoad path))) = 1048576 * Suc (length h)"
    using u unfolding good_device_def Let_def by simp
qed

lemma load_kernels_good:
  assumes "load_kernels_from good_device d k specs s h = (ok, s', h')"
    and "\<forall>x \<in> live_modules h. unat x \<le> 1048576 * length h" "length h + 2 * length specs < 4294967296"
    and "\<forall>sp \<in> set specs. length d + 1 + length (ks_file sp) < 1400"
  shows "ok \<and> length h' = length h + 2 * length specs \<and> f_scratch_tokens s' = f_scratch_tokens s"
  using assms
proof (induction specs arbitrary: k s h)
  case (Cons sp specs)
  let ?path = "d @ [CHR 0x5C] @ ks_file sp"
  let ?r = "answers good_device h (ModuleLoad ?path)"
  let ?h1 = "(ModuleLoad ?path, ?r) # h"
  let ?s1 = "s\<lparr>f_objects := (f_objects s)[k := (f_objects s ! k)\<lparr>co_module := hip_out ?r\<rparr>]\<rparr>"
  let ?call = "ModuleGetFunction (co_module (f_objects ?s1 ! k)) (ks_symbol sp)"
  let ?q = "answers good_device ?h1 ?call"
  let ?s2 = "?s1\<lparr>f_objects := (f_objects ?s1)[k := (f_objects ?s1 ! k)\<lparr>co_function := hip_out ?q\<rparr>]\<rparr>"
  note G = good_device_load [OF Cons.prems(2), of ?path]
  have ok: "hip_ok ?r" "hip_ok ?q" "\<not> 1400 \<le> length ?path"
    using G(1) Cons.prems(3,4) by (simp_all add: good_device_def)
  have step: "load_kernels_from good_device d k (sp # specs) s h = load_kernels_from good_device d (Suc k) specs ?s2 ((?call, ?q) # ?h1)"
    using ok by (simp add: ask_def Let_def)
  have "\<forall>x \<in> live_modules ((?call, ?q) # ?h1). unat x \<le> 1048576 * length ((?call, ?q) # ?h1)"
    using Cons.prems(2,3) G(2) ok(1) by fastforce
  then have "ok \<and> length h' = length ((?call, ?q) # ?h1) + 2 * length specs \<and> f_scratch_tokens s' = f_scratch_tokens ?s2"
    using Cons.prems(3,4) by (intro Cons.IH [OF Cons.prems(1) [unfolded step]]) simp_all
  then show ?case by simp
qed simp

lemma fla_example_prepared:
  obtains s h where "fla_prepare good_device (Some ''k'') fla_initial [] = (1, s, h)" "fla_inv s h" "f_prepared s"
    "f_scratch_tokens s = 0" "length h = 16"
proof -
  have rel: "fla_release_state good_device fla_initial [] = (fla_initial, [])"
    by (simp add: fla_release_state_def fla_release_scratch_def fla_initial_def no_object_def eight_objects)
  obtain ok s h where k: "load_kernels good_device ''k'' (fla_initial\<lparr>f_kernel_dir := c_copy 1024 ''k''\<rparr>) [] = (ok, s, h)"
    by (cases "load_kernels good_device ''k'' (fla_initial\<lparr>f_kernel_dir := c_copy 1024 ''k''\<rparr>) []")
  have L: "ok \<and> length h = length ([] :: hip_hist) + 2 * length kKernelSpecs \<and>
      f_scratch_tokens s = f_scratch_tokens (fla_initial\<lparr>f_kernel_dir := c_copy 1024 ''k''\<rparr>)"
    by (rule load_kernels_good [OF k [unfolded load_kernels_def]]) (simp_all add: kKernelSpecs_def)
  have "fla_prepare good_device (Some ''k'') fla_initial [] = (1, s\<lparr>f_prepared := True, f_error := []\<rparr>, h)"
    using L k by (simp add: fla_prepare_def rel) (simp add: fla_initial_def)
  moreover from this have "fla_inv (s\<lparr>f_prepared := True, f_error := []\<rparr>) h"
    by (rule fla_prepare_inv [OF good_device_sound fla_initial_inv])
  moreover have "f_scratch_tokens s = 0" "length h = 16"
    using L by (simp_all add: fla_initial_def kKernelSpecs_def)
  ultimately show ?thesis by (intro that [of "s\<lparr>f_prepared := True, f_error := []\<rparr>" h]) simp_all
qed

theorem fla_pipeline_issues_witness:
  "\<exists>s h s' h'. fla_prepare good_device (Some ''k'') fla_initial [] = (1, s, h) \<and>
     fla_exec good_device (FLaunchAsync F64 example_fla_surface 0) s h = (1, s', h') \<and>
     device_work h' = device_work h @ segment_work s' example_fla_surface 64 True"
proof -
  obtain s h where p: "fla_prepare good_device (Some ''k'') fla_initial [] = (1, s, h)" "fla_inv s h" "f_prepared s"
    "f_scratch_tokens s = 0" "length h = 16"
    by (rule fla_example_prepared)
  have null: "f_compact_qkv s = nullptr" "f_gate_and_beta s = nullptr" "f_a_or_w s = nullptr"
    "f_ai_or_v_new s = nullptr" "f_chunk_state s = nullptr" and blocks: "live_blocks h = {}"
    using p(2,4) by (auto simp: fla_inv_def scratch_ok_def scratch_pointers_def blocks_ok_def scratch_sizes_def)
  obtain r s' h' where run: "fla_exec good_device (FLaunchAsync F64 example_fla_surface 0) s h = (r, s', h')"
    by (cases "fla_exec good_device (FLaunchAsync F64 example_fla_surface 0) s h")
  have "fst (fla_exec good_device (FLaunchAsync F64 example_fla_surface 0) s h) = 1"
    using p(3-5) null blocks
    by (simp add: fla_example_defs example_fla_surface_def Let_def surface_at_def segment_views_def)
  with run have r: "r = 1" by simp
  obtain m where m: "int m * 64 = 64" "device_work h' = device_work h @ concat (map (\<lambda>i.
      segment_work s' (surface_at (int i * 64) example_fla_surface) 64 (i = 0)) [0..<m])"
    using fla_pipeline_issues [OF good_device_sound p(2) run [unfolded r]] by auto
  have "surface_at 0 example_fla_surface = example_fla_surface" by (simp add: surface_at_def)
  moreover have "m = 1" using m(1) by simp
  ultimately have "device_work h' = device_work h @ segment_work s' example_fla_surface 64 True"
    using m(2) by simp
  with p(1) run r show ?thesis by blast
qed

section \<open>Device memory in use\<close>

text \<open>
  The addresses a launch may touch besides its scratch: the caller's surfaces, from the token a segment starts at,
  and the caller's final state.
\<close>

definition surface_pointers :: "fla_surface \<Rightarrow> u64 set" where
  "surface_pointers a = insert (fs_final_state a)
     (\<Union>off \<in> {0..<65536}. {fs_postconv (surface_at off a), fs_gate (surface_at off a), fs_output (surface_at off a)})"

fun op_surface :: "fla_op \<Rightarrow> u64 set" where
  "op_surface (FLaunchAsync sh a decay) = surface_pointers a"
| "op_surface (FLaunch sh a decay) = surface_pointers a"
| "op_surface _ = {}"

text \<open>
  Every pointer a kernel was given was null, one of \<open>A\<close> or inside a block that was live at that
  moment, and every range set to zero started at one of \<open>A\<close> or lay inside such a block.
\<close>

fun uses_live :: "u64 set \<Rightarrow> hip_hist \<Rightarrow> bool" where
  "uses_live A [] = True"
| "uses_live A ((ModuleLaunchKernel f dims args, r) # h) \<longleftrightarrow>
     (\<forall>p. Pointer p \<in> set args \<longrightarrow> p = nullptr \<or> p \<in> A \<or> inside h p 1) \<and> uses_live A h"
| "uses_live A ((MemsetAsync p v n st, r) # h) \<longleftrightarrow> (p \<in> A \<or> inside h p (unat n)) \<and> uses_live A h"
| "uses_live A (_ # h) = uses_live A h"

lemma uses_live_free [simp]: "uses_live A (free_blocks dev ps h) = uses_live A h"
  by (induction ps arbitrary: h) (simp_all add: hip_tell_eq)

lemma uses_live_unload [simp]: "uses_live A (unload_modules dev ms h) = uses_live A h"
  by (induction ms arbitrary: h) (simp_all add: hip_tell_eq)

lemma uses_live_release:
  "fla_release_scratch dev s h = (s', h') \<Longrightarrow> uses_live A h' = uses_live A h"
  "fla_release_state dev s h = (s', h') \<Longrightarrow> uses_live A h' = uses_live A h"
  by (auto simp: fla_release_scratch_def fla_release_state_def Let_def simp del: free_blocks.simps unload_modules.simps)

lemma uses_live_malloc: "scratch_malloc dev name bytes put s h = (ok, s', h') \<Longrightarrow> uses_live A h' = uses_live A h"
  by (auto simp: scratch_malloc_def ask_def Let_def uses_live_release(1) split: if_splits prod.splits)

lemma uses_live_allocation:
  assumes "scratch_allocation dev n s h = (ok, s', h')"
  shows "uses_live A h' = uses_live A h"
  using assms unfolding scratch_allocation_def
  by (auto simp: and_then_def uses_live_malloc split: prod.splits if_splits)

lemma uses_live_ensure:
  assumes "ensure_scratch dev n s h = (ok, s', h')"
  shows "uses_live A h' = uses_live A h"
  using assms
proof (cases rule: ensure_scratch_cases)
  case (allocated s1 h1)
  then show ?thesis
    using uses_live_release(1) [OF allocated(2)] uses_live_allocation
    by (fastforce simp: and_then_def split: prod.splits if_splits)
qed simp_all

lemma uses_live_load:
  "load_kernels_from dev d k specs s h = (ok, s', h') \<Longrightarrow> uses_live A h' = uses_live A h"
proof (induction specs arbitrary: k s h)
  case (Cons sp specs)
  show ?case using Cons.prems by (auto simp: ask_def Let_def split: if_splits dest!: Cons.IH)
qed simp

lemma uses_live_prepare:
  "fla_prepare dev kd s h = (r, s', h') \<Longrightarrow> uses_live A h' = uses_live A h"
  by (auto simp: fla_prepare_def load_kernels_def Let_def uses_live_release(2) uses_live_load split: option.splits if_splits prod.splits)

text \<open>Once the scratch is there, its views stay inside live blocks for as long as the state is kept.\<close>

lemma scratch_inside:
  assumes dev: "hip_sound dev" and inv: "fla_inv s h" and n: "f_scratch_tokens s = n" "nullptr \<notin> set (scratch_pointers s)"
    and small: "64 \<le> n" "n < 2147483648" "n \<noteq> 65536"
  shows "inside h (fv_q (segment_views n s)) 1" "inside h (fv_k (segment_views n s)) 1" "inside h (fv_v (segment_views n s)) 1"
    "inside h (fv_u (segment_views n s)) 1"
    "inside h (fv_g_cumsum (segment_views n s)) 1" "inside h (fv_beta (segment_views n s)) 1" "inside h (fv_a (segment_views n s)) 1"
    "inside h (fv_a_inverse (segment_views n s)) 1" "inside h (fv_w (segment_views n s)) 1" "inside h (fv_v_new (segment_views n s)) 1"
    "inside h (f_chunk_state s) 1" "inside h (fv_a_inverse (segment_views n s)) (nat n * 32 * 64 * 2)"
proof -
  have "ensure_scratch dev n s h = (True, s, h)"
    using n by (auto simp: ensure_scratch_def scratch_pointers_def)
  note L = scratch_layout(1-10) [OF dev inv this small(2,3)]
  have one: "inside h p 1" if "inside h p m" "1 \<le> m" for p m
    using that unfolding inside_def by (meson add_left_mono order_trans)
  have u: "fv_u (segment_views n s) = fv_v (segment_views n s)" by (simp add: segment_views_def Let_def)
  have pos: "1 \<le> nat n" "1 \<le> nat n div 64" using small(1) by simp_all
  show "inside h (fv_q (segment_views n s)) 1" "inside h (fv_k (segment_views n s)) 1" "inside h (fv_v (segment_views n s)) 1"
    "inside h (fv_u (segment_views n s)) 1"
    "inside h (fv_g_cumsum (segment_views n s)) 1" "inside h (fv_beta (segment_views n s)) 1" "inside h (fv_a (segment_views n s)) 1"
    "inside h (fv_a_inverse (segment_views n s)) 1" "inside h (fv_w (segment_views n s)) 1" "inside h (fv_v_new (segment_views n s)) 1"
    "inside h (f_chunk_state s) 1" "inside h (fv_a_inverse (segment_views n s)) (nat n * 32 * 64 * 2)"
    unfolding u by (rule L(7) | (rule one, rule L, use pos in simp))+
qed

text \<open>A step of a segment on the scratch of the state \<open>s\<close>: whether or not it succeeds, it used live memory only.\<close>

definition fla_using :: "u64 set \<Rightarrow> fla_state \<Rightarrow> bool \<times> fla_state \<times> hip_hist \<Rightarrow> bool" where
  "fla_using A s r \<longleftrightarrow> (case r of (ok, s', h) \<Rightarrow> fla_inv s' h \<and> f_prepared s' \<and> uses_live A h \<and> (ok \<longrightarrow> s' = s))"

lemma fla_using_and_then:
  assumes "fla_using A s r" "\<And>h. fla_inv s h \<Longrightarrow> f_prepared s \<Longrightarrow> uses_live A h \<Longrightarrow> fla_using A s (f s h)"
  shows "fla_using A s (and_then r f)"
proof -
  obtain ok t h where r: "r = (ok, t, h)" by (cases r)
  show ?thesis using assms(1) assms(2) [of h] unfolding r by (cases ok) (auto simp: and_then_def fla_using_def)
qed

lemma fla_launch_using:
  assumes "fla_inv s h" "f_prepared s" "uses_live A h"
    and "\<And>p. Pointer p \<in> set args \<Longrightarrow> p = nullptr \<or> p \<in> A \<or> inside h p 1"
  shows "fla_using A s (fla_launch dev k dims st args s h)"
  using fla_launch_running [OF assms(1,2), of dev k dims st args] assms(2-)
  by (auto simp: fla_using_def fla_running_def fla_launch_def ask_def Let_def split: if_splits)

lemma fla_memset_using:
  assumes "fla_inv s h" "f_prepared s" "uses_live A h" "p \<in> A \<or> inside h p (unat n)"
  shows "fla_using A s (fla_memset dev nm p n st s h)"
  using fla_memset_running [OF assms(1,2), of dev nm p n st] assms(2-)
  by (auto simp: fla_using_def fla_running_def fla_memset_def ask_def Let_def split: if_splits)

lemma segment_using:
  assumes dev: "hip_sound dev" and inv: "fla_inv s h" "f_prepared s" "uses_live A h"
    and n: "f_scratch_tokens s = n" "nullptr \<notin> set (scratch_pointers s)" "64 \<le> n" "n < 2147483648" "n \<noteq> 65536"
    and A: "fs_postconv a \<in> A" "fs_gate a \<in> A" "fs_output a \<in> A" "fs_final_state a \<in> A"
  shows "fla_using A s (launch_segment_steps dev a n reset s h)"
proof -
  note S = scratch_inside [OF dev _ n, unfolded One_nat_def]
  have inverse: "inside k (fv_a_inverse (segment_views n s)) (nat n * 4096)" if "fla_inv s k" for k
    using S(12) [OF that] by (simp add: ac_simps)
  have "(of_int n * fla_kValueHeads * of_int fla_kChunk * 2 :: u64) = of_int n * of_nat 4096"
    by (simp add: fla_constants)
  then have zero: "unat (of_int n * fla_kValueHeads * of_int fla_kChunk * 2 :: u64) = nat n * 4096"
    using unat_scaled [of n 4096] n(3,4) by simp
  have idle: "fla_using A s (True, s, k)" if "fla_inv s k" "uses_live A k" for k
    using that inv(2) by (simp add: fla_using_def)
  have input: "fla_using A s (segment_input_steps dev a n reset s h)"
    unfolding segment_input_steps_def Let_def
    by (intro fla_using_and_then)
      (use inv A idle in \<open>auto intro!: fla_launch_using fla_memset_using simp: S\<close>)
  have out: "fla_using A s (segment_output_steps dev a n s k)" if "fla_inv s k" "uses_live A k" for k
    unfolding segment_output_steps_def Let_def
    by (intro fla_using_and_then)
      (use inv(2) that A zero in \<open>auto intro!: fla_launch_using fla_memset_using simp: S inverse\<close>)
  show ?thesis
    unfolding launch_segment_steps_def by (rule fla_using_and_then [OF input]) (rule out)
qed

lemma launch_segment_uses_live:
  assumes dev: "hip_sound dev" and inv: "fla_inv s h" "f_prepared s" "uses_live A h"
    and n: "64 \<le> n" "n < 2147483648" "n \<noteq> 65536"
    and A: "fs_postconv a \<in> A" "fs_gate a \<in> A" "fs_output a \<in> A" "fs_final_state a \<in> A"
    and run: "launch_segment_async dev a n reset s h = (ok, s', h')"
  shows "uses_live A h'"
proof -
  obtain ok1 s1 h1 where e: "ensure_scratch dev n s h = (ok1, s1, h1)" by (cases "ensure_scratch dev n s h")
  note E = ensure_scratch_inv [OF dev inv(1) e] and U = uses_live_ensure [OF e, of A]
  show ?thesis
  proof (cases ok1)
    case True
    have "fla_using A s1 (launch_segment_steps dev a n reset s1 h1)"
      using E True inv(2,3) U by (intro segment_using [OF dev _ _ _ _ _ n A]) simp_all
    then show ?thesis
      using run e True unfolding launch_segment_async_def
      by (auto simp: and_then_def fla_using_def split: prod.splits if_splits)
  next
    case False
    then show ?thesis
      using run e U inv(3) by (auto simp: launch_segment_async_def and_then_def)
  qed
qed

lemma launch_segments_uses_live:
  assumes dev: "hip_sound dev" and seg: "64 \<le> seg" "seg < 2147483648" "seg \<noteq> 65536" and n: "n \<le> 65536"
    and A: "surface_pointers a \<subseteq> A"
  shows "fla_inv s h \<Longrightarrow> f_prepared s \<Longrightarrow> uses_live A h \<Longrightarrow> 0 \<le> off \<Longrightarrow>
    launch_segments dev a seg n off s h = (ok, s', h') \<Longrightarrow> uses_live A h'"
proof (induction "nat (n - off)" arbitrary: off s h rule: less_induct)
  case less
  show ?case
  proof (cases "off < n \<and> 0 < seg")
    case True
    obtain ok1 s1 h1 where e: "launch_segment_async dev (surface_at off a) seg (off = 0) s h = (ok1, s1, h1)"
      by (cases "launch_segment_async dev (surface_at off a) seg (off = 0) s h")
    have off: "off \<in> {0..<65536}" using True less.prems(4) n by simp
    then have "fs_postconv (surface_at off a) \<in> surface_pointers a" "fs_gate (surface_at off a) \<in> surface_pointers a"
      "fs_output (surface_at off a) \<in> surface_pointers a"
      unfolding surface_pointers_def by blast+
    moreover have "fs_final_state (surface_at off a) \<in> surface_pointers a" by (simp add: surface_pointers_def surface_at_def)
    ultimately have "fs_postconv (surface_at off a) \<in> A" "fs_gate (surface_at off a) \<in> A" "fs_output (surface_at off a) \<in> A"
      "fs_final_state (surface_at off a) \<in> A" using A by blast+
    from launch_segment_uses_live [OF dev less.prems(1-3) seg this e] have u: "uses_live A h1" .
    have R: "fla_inv s1 h1" "f_prepared s1"
      using launch_segment_running [OF dev less.prems(1,2), of "surface_at off a" seg "off = 0"] e by (simp_all add: fla_running_def)
    have rest: "and_then (ok1, s1, h1) (launch_segments dev a seg n (off + seg)) = (ok, s', h')"
      using less.prems(5) True e by (simp add: launch_segments.simps [of dev a seg n off])
    show ?thesis
    proof (cases ok1)
      case ok: True
      have "launch_segments dev a seg n (off + seg) s1 h1 = (ok, s', h')" using rest ok by (simp add: and_then_def)
      from less.hyps [OF _ R u _ this] show ?thesis using True less.prems(4) by simp
    next
      case False
      then show ?thesis using rest u by (simp add: and_then_def)
    qed
  next
    case False
    then show ?thesis using less.prems(3,5) unfolding launch_segments.simps [of dev a seg n off] if_not_P [OF False] by simp
  qed
qed

lemma launch_pipeline_uses_live:
  assumes dev: "hip_sound dev" and inv: "fla_inv s h" "uses_live A h" and A: "surface_pointers a \<subseteq> A"
    and run: "launch_pipeline_async dev a decay (fla_shape_tokens sh) s h = (r, s', h')"
  shows "uses_live A h'"
proof (cases "f_prepared s")
  case True
  define n where "n = fla_shape_tokens sh"
  define seg where "seg = (if n = 65536 then fla_kQ65536SegmentTokens else n)"
  have seg: "64 \<le> seg" "seg < 2147483648" "seg \<noteq> 65536" "n \<le> 65536"
    by (cases sh; simp add: seg_def n_def fla_constants)+
  obtain ok t k where l: "launch_segments dev a seg n 0 s h = (ok, t, k)" by (cases "launch_segments dev a seg n 0 s h")
  from launch_segments_uses_live [OF dev seg A inv(1) True inv(2) _ l] have "uses_live A k" by simp
  with run inv(2) l show ?thesis
    unfolding launch_pipeline_async_def n_def [symmetric] seg_def [symmetric] Let_def by (auto split: if_splits)
next
  case False
  with run inv(2) show ?thesis by (auto simp: launch_pipeline_async_def)
qed

lemma fla_exec_uses_live:
  assumes dev: "hip_sound dev" and inv: "fla_inv s h" "uses_live A h" "op_surface op \<subseteq> A"
    and run: "fla_exec dev op s h = (r, s', h')"
  shows "uses_live A h'"
proof (cases op)
  case (FPrepare d)
  then show ?thesis using run uses_live_prepare inv(2) by simp
next
  case (FLaunchAsync sh a decay)
  then show ?thesis
    using run inv(3) launch_pipeline_uses_live [OF dev inv(1,2)] by (simp add: fla_shape_launch_async_def)
next
  case (FLaunch sh a decay)
  obtain q t k where l: "launch_pipeline_async dev a decay (fla_shape_tokens sh) s h = (q, t, k)"
    by (cases "launch_pipeline_async dev a decay (fla_shape_tokens sh) s h")
  have "uses_live A k" using FLaunch inv(3) by (intro launch_pipeline_uses_live [OF dev inv(1,2) _ l]) simp
  then show ?thesis
    using run FLaunch l by (auto simp: fla_shape_launch_def launch_pipeline_synchronous_def ask_def Let_def split: if_splits)
next
  case FRelease
  then show ?thesis using run uses_live_release(2) inv(2) by (auto simp: fla_release_def split: prod.splits)
qed

lemma session_uses_live:
  assumes dev: "hip_sound dev"
  shows "fla_inv s h \<Longrightarrow> uses_live A h \<Longrightarrow> \<Union> (op_surface ` set ops) \<subseteq> A \<Longrightarrow> run_ops fla_exec dev ops s h = (s', h') \<Longrightarrow> uses_live A h'"
proof (induction ops arbitrary: s h)
  case (Cons op ops)
  obtain r t k where c: "fla_exec dev op s h = (r, t, k)" by (cases "fla_exec dev op s h")
  have "op_surface op \<subseteq> A" "\<Union> (op_surface ` set ops) \<subseteq> A" using Cons.prems(3) by simp_all
  from Cons.IH [OF fla.inv_exec [OF dev Cons.prems(1) c] fla_exec_uses_live [OF dev Cons.prems(1,2) this(1) c] this(2)]
  show ?case using Cons.prems(4) c by simp
qed simp

text \<open>C29. Whatever sequence of exported functions of the chunked gated-delta-net provider a client calls and
  whatever the HIP runtime answers: every module unloaded and every function looked up or launched is live, and no
  device block is freed twice; every pointer given to a kernel is null, one of the client's surfaces or inside a device block that
  is live at that moment, and every range set to zero is the client's final state or lies inside such a
  block; and after the final release no module and no device block is left.\<close>

theorem fla_session_safe:
  assumes "hip_sound dev" "run_ops fla_exec dev (ops @ [FRelease]) fla_initial [] = (s, h)"
  shows "orderly h \<and> uses_live (\<Union> (op_surface ` set ops)) h \<and>
    s = fla_initial \<and> live_modules h = {} \<and> live_functions h = {} \<and> live_blocks h = {}"
  using fla.session_safe [OF assms] session_uses_live [OF assms(1) fla.inv_start _ _ assms(2), of "\<Union> (op_surface ` set ops)"] by simp

theorem fla_session_safe_witness:
  "\<exists>s h. run_ops fla_exec good_device ([FPrepare (Some ''k''), FLaunch F64 example_fla_surface 0] @ [FRelease])
       fla_initial [] = (s, h) \<and> orderly h \<and> uses_live (surface_pointers example_fla_surface) h \<and> live_modules h = {} \<and> live_blocks h = {}"
proof -
  obtain s h where run: "run_ops fla_exec good_device
      ([FPrepare (Some ''k''), FLaunch F64 example_fla_surface 0] @ [FRelease]) fla_initial [] = (s, h)"
    by (cases "run_ops fla_exec good_device
      ([FPrepare (Some ''k''), FLaunch F64 example_fla_surface 0] @ [FRelease]) fla_initial []")
  from fla_session_safe [OF good_device_sound this] this show ?thesis by auto
qed

end
