(* ===== verification/Ck_Fmha.thy ===== *)
theory Ck_Fmha
  imports Hip_Platform Bf16
begin

text \<open>
  The attention provider of \<^verbatim>\<open>native/providers/ck_fmha/qrt_ck_fmha_q8192_provider.cpp\<close>: three device blocks for
  queries, keys and values, the kernel that packs them from single precision, and the launches of the
  generated attention kernel, whole, by suffix, or in chunks of 8192 queries. The generated kernel is not
  part of the repository: its calls are recorded, and what a mask admits is a parameter of the property that
  needs it. The mutex around the state has no counterpart in a sequence of calls.
\<close>

section \<open>Constants and state\<close>

definition ck_kPrefillChunkTokens :: nat where
  "ck_kPrefillChunkTokens = 8192"

definition ck_kQueryFeatures :: nat where
  "ck_kQueryFeatures = 16 * 256"

definition ck_kKvFeatures :: nat where
  "ck_kKvFeatures = 2 * 256"

definition ck_kPackedRows :: nat where
  "ck_kPackedRows = 2 * ck_kQueryFeatures + 2 * ck_kKvFeatures"

definition ck_kThreads :: u32 where
  "ck_kThreads = 256"

record ck_state =
  ck_q :: u64
  ck_k :: u64
  ck_v :: u64
  ck_capacity_tokens :: u32

definition ck_initial :: ck_state where
  "ck_initial = \<lparr>ck_q = nullptr, ck_k = nullptr, ck_v = nullptr, ck_capacity_tokens = 0\<rparr>"

section \<open>Packing\<close>

record qkv_arrays =
  qa_q :: "bf16 list"
  qa_k :: "bf16 list"
  qa_v :: "bf16 list"

text \<open>One thread of \<open>pack_qkv_kernel\<close>, with \<open>size_t\<close> arithmetic.\<close>

definition pack_qkv_kernel :: "f32 list \<Rightarrow> u32 \<Rightarrow> u32 \<Rightarrow> u32 \<Rightarrow> u32 \<Rightarrow> qkv_arrays \<Rightarrow> qkv_arrays" where
  "pack_qkv_kernel packed tokens blockIdx blockDim threadIdx a =
     (let index = ucast blockIdx * ucast blockDim + ucast threadIdx :: u64;
          q_elements = ucast tokens * of_nat ck_kQueryFeatures;
          kv_elements = ucast tokens * of_nat ck_kKvFeatures
      in if index < q_elements
         then let token = index div of_nat ck_kQueryFeatures;
                  feature = index - token * of_nat ck_kQueryFeatures
              in a\<lparr>qa_q := (qa_q a)[unat index := ck_f32_to_bf16 (packed ! unat (token * of_nat ck_kPackedRows + feature))]\<rparr>
         else
           let kv_index = index - q_elements
           in if kv_index \<ge> 2 * kv_elements then a
              else
                let token = (kv_index mod kv_elements) div of_nat ck_kKvFeatures;
                    feature = (kv_index mod kv_elements) - token * of_nat ck_kKvFeatures
                in if kv_index < kv_elements
                   then a\<lparr>qa_k := (qa_k a)[unat kv_index :=
                          ck_f32_to_bf16 (packed ! unat (token * of_nat ck_kPackedRows + 2 * of_nat ck_kQueryFeatures + feature))]\<rparr>
                   else let value_index = kv_index - kv_elements
                        in a\<lparr>qa_v := (qa_v a)[unat value_index :=
                             ck_f32_to_bf16 (packed ! unat (token * of_nat ck_kPackedRows + 2 * of_nat ck_kQueryFeatures +
                               of_nat ck_kKvFeatures + feature))]\<rparr>)"

section \<open>Preparing\<close>

definition ck_supported_tokens :: "u32 \<Rightarrow> bool" where
  "ck_supported_tokens tokens \<longleftrightarrow> tokens = 8192 \<or> tokens = 16384 \<or> tokens = 32768 \<or> tokens = 65536 \<or>
     tokens = 129536 \<or> tokens = 130560 \<or> tokens = 131071 \<or> tokens = 131072 \<or> tokens = 131073 \<or>
     tokens = 262143 \<or> tokens = 262144"

text \<open>\<open>hipFree\<close> of values, keys and queries in turn, null or not.\<close>

definition ck_free_all :: "hip \<Rightarrow> ck_state \<Rightarrow> hip_hist \<Rightarrow> hip_hist" where
  "ck_free_all dev s h = hip_tell dev (Free (ck_q s)) (hip_tell dev (Free (ck_k s)) (hip_tell dev (Free (ck_v s)) h))"

definition ck_prepare_locked :: "hip \<Rightarrow> u32 \<Rightarrow> ck_state \<Rightarrow> hip_hist \<Rightarrow> int \<times> ck_state \<times> hip_hist" where
  "ck_prepare_locked dev tokens s h =
     (if \<not> ck_supported_tokens tokens then (hipErrorInvalidValue, s, h)
      else if ck_q s \<noteq> nullptr \<and> ck_k s \<noteq> nullptr \<and> ck_v s \<noteq> nullptr \<and> ck_capacity_tokens s \<ge> tokens
      then (hipSuccess, s, h)
      else
        let q_bytes = ucast tokens * of_nat ck_kQueryFeatures * 2;
            kv_bytes = ucast tokens * of_nat ck_kKvFeatures * 2;
            nxt = ck_initial;
            (r, h) = ask (answers dev) (Malloc q_bytes) h;
            status = hip_status r;
            nxt = (if status = hipSuccess then nxt\<lparr>ck_q := hip_out r\<rparr> else nxt);
            (status, nxt, h) =
              (if status = hipSuccess
               then let (r, h) = ask (answers dev) (Malloc kv_bytes) h
                    in (hip_status r, if hip_ok r then nxt\<lparr>ck_k := hip_out r\<rparr> else nxt, h)
               else (status, nxt, h));
            (status, nxt, h) =
              (if status = hipSuccess
               then let (r, h) = ask (answers dev) (Malloc kv_bytes) h
                    in (hip_status r, if hip_ok r then nxt\<lparr>ck_v := hip_out r\<rparr> else nxt, h)
               else (status, nxt, h))
        in if status \<noteq> hipSuccess then (status, s, ck_free_all dev nxt h)
           else (hipSuccess, nxt\<lparr>ck_capacity_tokens := tokens\<rparr>, ck_free_all dev s h))"

section \<open>Launching attention\<close>

definition set_head_partition_fields :: "hip \<Rightarrow> u32 \<Rightarrow> (u32 \<times> u32) option" where
  "set_head_partition_fields dev query_heads = (if has_head_partition dev then Some (query_heads, 0) else None)"

definition ck_traits :: "mask_enum \<Rightarrow> fmha_traits" where
  "ck_traits mask_type =
     \<lparr>ft_hdim_q = 256, ft_hdim_v = 256, ft_data_type = ''bf16'', ft_is_group_mode = False, ft_is_v_rowmajor = True,
      ft_has_logits_soft_cap = False, ft_mask_type = mask_type, ft_has_bias = False, ft_has_lse = False,
      ft_has_dropout = False, ft_has_qscale = False, ft_skip_min_seqlen_q = False, ft_has_sink = False\<rparr>"

text \<open>The scale is 1/16 in single precision.\<close>

definition ck_args :: "hip \<Rightarrow> u64 \<Rightarrow> u64 \<Rightarrow> u64 \<Rightarrow> u64 \<Rightarrow> u32 \<Rightarrow> u32 \<Rightarrow> mask_enum \<Rightarrow> fmha_args" where
  "ck_args dev q k v output query_tokens kv_tokens mask_type =
     \<lparr>fa_q_ptr = q, fa_k_ptr = k, fa_v_ptr = v, fa_o_ptr = output, fa_seqlen_q = query_tokens, fa_seqlen_k = kv_tokens,
      fa_batch = 1, fa_max_seqlen_q = query_tokens, fa_hdim_q = 256, fa_hdim_v = 256, fa_nhead_q = 16, fa_nhead_k = 2,
      fa_head_partition = set_head_partition_fields dev 16, fa_scale_s = 0x3d800000, fa_logits_soft_cap = 0,
      fa_stride_q = of_nat ck_kQueryFeatures, fa_stride_k = of_nat ck_kKvFeatures, fa_stride_v = of_nat ck_kKvFeatures,
      fa_stride_o = of_nat ck_kQueryFeatures, fa_nhead_stride_q = 256, fa_nhead_stride_k = 256, fa_nhead_stride_v = 256,
      fa_nhead_stride_o = 256, fa_batch_stride_q = query_tokens * of_nat ck_kQueryFeatures,
      fa_batch_stride_k = kv_tokens * of_nat ck_kKvFeatures, fa_batch_stride_v = kv_tokens * of_nat ck_kKvFeatures,
      fa_batch_stride_o = query_tokens * of_nat ck_kQueryFeatures, fa_window_size_left = - 1, fa_window_size_right = 0,
      fa_sink_size = 0, fa_mask_type = mask_type, fa_min_seqlen_q = query_tokens, fa_p_drop = 0, fa_s_randval = False,
      fa_drop_seed_offset = (0, 0)\<rparr>"

definition launch_bf16_attention ::
  "hip \<Rightarrow> u64 \<Rightarrow> u64 \<Rightarrow> u64 \<Rightarrow> u64 \<Rightarrow> u64 \<Rightarrow> u32 \<Rightarrow> u32 \<Rightarrow> mask_enum \<Rightarrow> hip_hist \<Rightarrow> int \<times> hip_hist" where
  "launch_bf16_attention dev q k v output st query_tokens kv_tokens mask_type h =
     (if q = nullptr \<or> k = nullptr \<or> v = nullptr \<or> output = nullptr \<or> query_tokens = 0 \<or> kv_tokens = 0 \<or>
         (mask_type \<noteq> Mask_Top_Left \<and> mask_type \<noteq> Mask_Bottom_Right)
      then (hipErrorInvalidValue, h)
      else
        let (r, h) = ask (answers dev)
              (FmhaFwd (ck_traits mask_type) (ck_args dev q k v output query_tokens kv_tokens mask_type) st) h
        in if hip_negative r then (hipErrorInvalidValue, h)
           else let (r, h) = ask (answers dev) GetLastHipError h in (hip_status r, h))"

definition launch_bf16_qkv :: "hip \<Rightarrow> u64 \<Rightarrow> u64 \<Rightarrow> u64 \<Rightarrow> u64 \<Rightarrow> u64 \<Rightarrow> u32 \<Rightarrow> hip_hist \<Rightarrow> int \<times> hip_hist" where
  "launch_bf16_qkv dev q k v output st tokens h =
     (if \<not> ck_supported_tokens tokens then (hipErrorInvalidValue, h)
      else launch_bf16_attention dev q k v output st tokens tokens Mask_Top_Left h)"

text \<open>The loop over chunks; the accepted token counts keep \<open>unsigned int\<close> arithmetic from wrapping around.\<close>

function chunk_loop :: "hip \<Rightarrow> u64 \<Rightarrow> u64 \<Rightarrow> u64 \<Rightarrow> u64 \<Rightarrow> u64 \<Rightarrow> nat \<Rightarrow> nat \<Rightarrow> hip_hist \<Rightarrow> int \<times> hip_hist" where
  "chunk_loop dev q k v output st tokens query_start h =
     (if query_start < tokens
      then
        let query_tokens = (if tokens - query_start < ck_kPrefillChunkTokens then tokens - query_start
                            else ck_kPrefillChunkTokens);
            query_offset = of_nat query_start * of_nat ck_kQueryFeatures;
            kv_tokens = query_start + query_tokens;
            (status, h) = launch_bf16_attention dev (q + query_offset * 2) k v (output + query_offset * 4) st
                            (of_nat query_tokens) (of_nat kv_tokens) Mask_Bottom_Right h
        in if status \<noteq> hipSuccess then (status, h)
           else chunk_loop dev q k v output st tokens (query_start + ck_kPrefillChunkTokens) h
      else (hipSuccess, h))"
  by pat_completeness auto
termination
  by (relation "measure (\<lambda>(dev, q, k, v, output, st, tokens, query_start, h). tokens - query_start)")
    (auto simp: ck_kPrefillChunkTokens_def)

declare chunk_loop.simps [simp del]

definition launch_bf16_long_chunk8192 ::
  "hip \<Rightarrow> u64 \<Rightarrow> u64 \<Rightarrow> u64 \<Rightarrow> u64 \<Rightarrow> u64 \<Rightarrow> u32 \<Rightarrow> hip_hist \<Rightarrow> int \<times> hip_hist" where
  "launch_bf16_long_chunk8192 dev q k v output st tokens h =
     (if q = nullptr \<or> k = nullptr \<or> v = nullptr \<or> output = nullptr \<or>
         tokens \<notin> {65536, 129536, 130560, 131071, 131072, 131073, 262143, 262144}
      then (hipErrorInvalidValue, h)
      else chunk_loop dev q k v output st (unat tokens) 0 h)"

definition launch_bf16_long_tile8192 ::
  "hip \<Rightarrow> u64 \<Rightarrow> u64 \<Rightarrow> u64 \<Rightarrow> u64 \<Rightarrow> u32 \<Rightarrow> u64 \<Rightarrow> u32 \<Rightarrow> hip_hist \<Rightarrow> int \<times> hip_hist" where
  "launch_bf16_long_tile8192 dev q_tile k v output_tile query_start st total_tokens h =
     (if q_tile = nullptr \<or> k = nullptr \<or> v = nullptr \<or> output_tile = nullptr \<or>
         total_tokens \<notin> {129536, 131072, 131073, 262143, 262144} \<or>
         query_start \<ge> total_tokens \<or> query_start mod of_nat ck_kPrefillChunkTokens \<noteq> 0
      then (hipErrorInvalidValue, h)
      else
        let remaining_tokens = total_tokens - query_start;
            query_tokens = (if remaining_tokens < of_nat ck_kPrefillChunkTokens then remaining_tokens
                            else of_nat ck_kPrefillChunkTokens)
        in launch_bf16_attention dev q_tile k v output_tile st query_tokens (query_start + query_tokens)
             Mask_Bottom_Right h)"

text \<open>The number of blocks of the packing kernel.\<close>

definition pack_grid :: "u32 \<Rightarrow> u32" where
  "pack_grid tokens =
     (let q_elements = ucast tokens * of_nat ck_kQueryFeatures :: u64;
          kv_elements = ucast tokens * of_nat ck_kKvFeatures;
          packed_elements = q_elements + 2 * kv_elements
      in ucast ((packed_elements + ucast ck_kThreads - 1) div ucast ck_kThreads))"

definition launch_f32_packed :: "hip \<Rightarrow> u64 \<Rightarrow> u64 \<Rightarrow> u64 \<Rightarrow> u32 \<Rightarrow> ck_state \<Rightarrow> hip_hist \<Rightarrow> int \<times> ck_state \<times> hip_hist" where
  "launch_f32_packed dev packed_qkv output st tokens s h =
     (if packed_qkv = nullptr \<or> output = nullptr \<or> \<not> ck_supported_tokens tokens then (hipErrorInvalidValue, s, h)
      else
        let (status, s, h) = ck_prepare_locked dev tokens s h
        in if status \<noteq> hipSuccess then (status, s, h)
           else
             let h = hip_tell dev (LaunchKernelGGL ''pack_qkv_kernel''
                       \<lparr>grid = (pack_grid tokens, 1, 1),
                        block = (ck_kThreads, 1, 1), shared_bytes = 0, stream = st\<rparr>
                       [Pointer packed_qkv, Pointer (ck_q s), Pointer (ck_k s), Pointer (ck_v s), UInt32 tokens]) h;
                 (r, h) = ask (answers dev) GetLastHipError h
             in if \<not> hip_ok r then (hip_status r, s, h)
                else let (status, h) = launch_bf16_qkv dev (ck_q s) (ck_k s) (ck_v s) output st tokens h
                     in (status, s, h))"

section \<open>Exported functions\<close>

definition ck_q8192_prepare :: "hip \<Rightarrow> ck_state \<Rightarrow> hip_hist \<Rightarrow> int \<times> ck_state \<times> hip_hist" where
  "ck_q8192_prepare dev s h = ck_prepare_locked dev 8192 s h"

definition ck_q129536_tile8192_bf16_launch :: "hip \<Rightarrow> u64 \<Rightarrow> u64 \<Rightarrow> u64 \<Rightarrow> u64 \<Rightarrow> u32 \<Rightarrow> u64 \<Rightarrow> hip_hist \<Rightarrow> int \<times> hip_hist" where
  "ck_q129536_tile8192_bf16_launch dev q_tile k v output_tile query_start st h =
     launch_bf16_long_tile8192 dev q_tile k v output_tile query_start st 129536 h"

definition ck_q131072_tile8192_bf16_launch :: "hip \<Rightarrow> u64 \<Rightarrow> u64 \<Rightarrow> u64 \<Rightarrow> u64 \<Rightarrow> u32 \<Rightarrow> u64 \<Rightarrow> hip_hist \<Rightarrow> int \<times> hip_hist" where
  "ck_q131072_tile8192_bf16_launch dev q_tile k v output_tile query_start st h =
     launch_bf16_long_tile8192 dev q_tile k v output_tile query_start st 131072 h"

definition ck_q131073_tile8192_bf16_launch :: "hip \<Rightarrow> u64 \<Rightarrow> u64 \<Rightarrow> u64 \<Rightarrow> u64 \<Rightarrow> u32 \<Rightarrow> u64 \<Rightarrow> hip_hist \<Rightarrow> int \<times> hip_hist" where
  "ck_q131073_tile8192_bf16_launch dev q_tile k v output_tile query_start st h =
     launch_bf16_long_tile8192 dev q_tile k v output_tile query_start st 131073 h"

definition ck_q262143_tile8192_bf16_launch :: "hip \<Rightarrow> u64 \<Rightarrow> u64 \<Rightarrow> u64 \<Rightarrow> u64 \<Rightarrow> u32 \<Rightarrow> u64 \<Rightarrow> hip_hist \<Rightarrow> int \<times> hip_hist" where
  "ck_q262143_tile8192_bf16_launch dev q_tile k v output_tile query_start st h =
     launch_bf16_long_tile8192 dev q_tile k v output_tile query_start st 262143 h"

definition ck_q8192_f32_launch :: "hip \<Rightarrow> u64 \<Rightarrow> u64 \<Rightarrow> u64 \<Rightarrow> ck_state \<Rightarrow> hip_hist \<Rightarrow> int \<times> ck_state \<times> hip_hist" where
  "ck_q8192_f32_launch dev packed_qkv output st s h = launch_f32_packed dev packed_qkv output st 8192 s h"

definition ck_q8192_bf16_launch :: "hip \<Rightarrow> u64 \<Rightarrow> u64 \<Rightarrow> u64 \<Rightarrow> u64 \<Rightarrow> u64 \<Rightarrow> hip_hist \<Rightarrow> int \<times> hip_hist" where
  "ck_q8192_bf16_launch dev q k v output st h = launch_bf16_qkv dev q k v output st 8192 h"

definition ck_dynamic_bf16_launch :: "hip \<Rightarrow> u64 \<Rightarrow> u64 \<Rightarrow> u64 \<Rightarrow> u64 \<Rightarrow> u64 \<Rightarrow> u32 \<Rightarrow> hip_hist \<Rightarrow> int \<times> hip_hist" where
  "ck_dynamic_bf16_launch dev q k v output st tokens h =
     (if tokens = 0 \<or> tokens > 262144 then (hipErrorInvalidValue, h)
      else launch_bf16_attention dev q k v output st tokens tokens Mask_Top_Left h)"

definition ck_q16384_f32_launch :: "hip \<Rightarrow> u64 \<Rightarrow> u64 \<Rightarrow> u64 \<Rightarrow> ck_state \<Rightarrow> hip_hist \<Rightarrow> int \<times> ck_state \<times> hip_hist" where
  "ck_q16384_f32_launch dev packed_qkv output st s h = launch_f32_packed dev packed_qkv output st 16384 s h"

definition ck_q16384_bf16_launch :: "hip \<Rightarrow> u64 \<Rightarrow> u64 \<Rightarrow> u64 \<Rightarrow> u64 \<Rightarrow> u64 \<Rightarrow> hip_hist \<Rightarrow> int \<times> hip_hist" where
  "ck_q16384_bf16_launch dev q k v output st h = launch_bf16_qkv dev q k v output st 16384 h"

definition ck_q17408_bf16_launch :: "hip \<Rightarrow> u64 \<Rightarrow> u64 \<Rightarrow> u64 \<Rightarrow> u64 \<Rightarrow> u64 \<Rightarrow> hip_hist \<Rightarrow> int \<times> hip_hist" where
  "ck_q17408_bf16_launch dev q k v output st h =
     launch_bf16_attention dev q k v output st 17408 17408 Mask_Top_Left h"

definition ck_q1024_kv17408_suffix_bf16_launch :: "hip \<Rightarrow> u64 \<Rightarrow> u64 \<Rightarrow> u64 \<Rightarrow> u64 \<Rightarrow> u64 \<Rightarrow> hip_hist \<Rightarrow> int \<times> hip_hist" where
  "ck_q1024_kv17408_suffix_bf16_launch dev q k v output st h =
     launch_bf16_attention dev q k v output st 1024 17408 Mask_Bottom_Right h"

definition ck_q32768_f32_launch :: "hip \<Rightarrow> u64 \<Rightarrow> u64 \<Rightarrow> u64 \<Rightarrow> ck_state \<Rightarrow> hip_hist \<Rightarrow> int \<times> ck_state \<times> hip_hist" where
  "ck_q32768_f32_launch dev packed_qkv output st s h = launch_f32_packed dev packed_qkv output st 32768 s h"

definition ck_q32768_bf16_launch :: "hip \<Rightarrow> u64 \<Rightarrow> u64 \<Rightarrow> u64 \<Rightarrow> u64 \<Rightarrow> u64 \<Rightarrow> hip_hist \<Rightarrow> int \<times> hip_hist" where
  "ck_q32768_bf16_launch dev q k v output st h = launch_bf16_qkv dev q k v output st 32768 h"

definition ck_q65536_f32_launch :: "hip \<Rightarrow> u64 \<Rightarrow> u64 \<Rightarrow> u64 \<Rightarrow> ck_state \<Rightarrow> hip_hist \<Rightarrow> int \<times> ck_state \<times> hip_hist" where
  "ck_q65536_f32_launch dev packed_qkv output st s h = launch_f32_packed dev packed_qkv output st 65536 s h"

definition ck_q65536_bf16_launch :: "hip \<Rightarrow> u64 \<Rightarrow> u64 \<Rightarrow> u64 \<Rightarrow> u64 \<Rightarrow> u64 \<Rightarrow> hip_hist \<Rightarrow> int \<times> hip_hist" where
  "ck_q65536_bf16_launch dev q k v output st h = launch_bf16_qkv dev q k v output st 65536 h"

definition ck_q65536_chunk8192_bf16_launch :: "hip \<Rightarrow> u64 \<Rightarrow> u64 \<Rightarrow> u64 \<Rightarrow> u64 \<Rightarrow> u64 \<Rightarrow> hip_hist \<Rightarrow> int \<times> hip_hist" where
  "ck_q65536_chunk8192_bf16_launch dev q k v output st h = launch_bf16_long_chunk8192 dev q k v output st 65536 h"

definition ck_q130560_chunk8192_bf16_launch :: "hip \<Rightarrow> u64 \<Rightarrow> u64 \<Rightarrow> u64 \<Rightarrow> u64 \<Rightarrow> u64 \<Rightarrow> hip_hist \<Rightarrow> int \<times> hip_hist" where
  "ck_q130560_chunk8192_bf16_launch dev q k v output st h = launch_bf16_long_chunk8192 dev q k v output st 130560 h"

definition ck_q129536_chunk8192_bf16_launch :: "hip \<Rightarrow> u64 \<Rightarrow> u64 \<Rightarrow> u64 \<Rightarrow> u64 \<Rightarrow> u64 \<Rightarrow> hip_hist \<Rightarrow> int \<times> hip_hist" where
  "ck_q129536_chunk8192_bf16_launch dev q k v output st h = launch_bf16_long_chunk8192 dev q k v output st 129536 h"

definition ck_q131071_chunk8192_bf16_launch :: "hip \<Rightarrow> u64 \<Rightarrow> u64 \<Rightarrow> u64 \<Rightarrow> u64 \<Rightarrow> u64 \<Rightarrow> hip_hist \<Rightarrow> int \<times> hip_hist" where
  "ck_q131071_chunk8192_bf16_launch dev q k v output st h = launch_bf16_long_chunk8192 dev q k v output st 131071 h"

definition ck_q131072_chunk8192_bf16_launch :: "hip \<Rightarrow> u64 \<Rightarrow> u64 \<Rightarrow> u64 \<Rightarrow> u64 \<Rightarrow> u64 \<Rightarrow> hip_hist \<Rightarrow> int \<times> hip_hist" where
  "ck_q131072_chunk8192_bf16_launch dev q k v output st h = launch_bf16_long_chunk8192 dev q k v output st 131072 h"

definition ck_q131073_chunk8192_bf16_launch :: "hip \<Rightarrow> u64 \<Rightarrow> u64 \<Rightarrow> u64 \<Rightarrow> u64 \<Rightarrow> u64 \<Rightarrow> hip_hist \<Rightarrow> int \<times> hip_hist" where
  "ck_q131073_chunk8192_bf16_launch dev q k v output st h = launch_bf16_long_chunk8192 dev q k v output st 131073 h"

definition ck_q262143_chunk8192_bf16_launch :: "hip \<Rightarrow> u64 \<Rightarrow> u64 \<Rightarrow> u64 \<Rightarrow> u64 \<Rightarrow> u64 \<Rightarrow> hip_hist \<Rightarrow> int \<times> hip_hist" where
  "ck_q262143_chunk8192_bf16_launch dev q k v output st h = launch_bf16_long_chunk8192 dev q k v output st 262143 h"

definition ck_q262144_chunk8192_bf16_launch :: "hip \<Rightarrow> u64 \<Rightarrow> u64 \<Rightarrow> u64 \<Rightarrow> u64 \<Rightarrow> u64 \<Rightarrow> hip_hist \<Rightarrow> int \<times> hip_hist" where
  "ck_q262144_chunk8192_bf16_launch dev q k v output st h = launch_bf16_long_chunk8192 dev q k v output st 262144 h"

definition ck_q262144_tile8192_bf16_launch :: "hip \<Rightarrow> u64 \<Rightarrow> u64 \<Rightarrow> u64 \<Rightarrow> u64 \<Rightarrow> u32 \<Rightarrow> u64 \<Rightarrow> hip_hist \<Rightarrow> int \<times> hip_hist" where
  "ck_q262144_tile8192_bf16_launch dev q_tile k v output_tile query_start st h =
     launch_bf16_long_tile8192 dev q_tile k v output_tile query_start st 262144 h"

definition ck_release :: "hip \<Rightarrow> ck_state \<Rightarrow> hip_hist \<Rightarrow> int \<times> ck_state \<times> hip_hist" where
  "ck_release dev s h = (hipSuccess, ck_initial, ck_free_all dev s h)"

text \<open>The exported interface by shape.\<close>

datatype ck_f32_shape = P8192 | P16384 | P32768 | P65536

datatype ck_bf16_shape = B8192 | B16384 | B17408 | B32768 | B65536 | BSuffix1024 | BDynamic u32

datatype ck_chunk_shape = C65536 | C129536 | C130560 | C131071 | C131072 | C131073 | C262143 | C262144

datatype ck_tile_shape = T129536 | T131072 | T131073 | T262143 | T262144

datatype ck_op =
    CkPrepare
  | CkF32 ck_f32_shape u64 u64 u64
  | CkBf16 ck_bf16_shape u64 u64 u64 u64 u64
  | CkChunk ck_chunk_shape u64 u64 u64 u64 u64
  | CkTile ck_tile_shape u64 u64 u64 u64 u32 u64
  | CkRelease

fun ck_bf16_call :: "ck_bf16_shape \<Rightarrow> hip \<Rightarrow> u64 \<Rightarrow> u64 \<Rightarrow> u64 \<Rightarrow> u64 \<Rightarrow> u64 \<Rightarrow> hip_hist \<Rightarrow> int \<times> hip_hist" where
  "ck_bf16_call B8192 dev q k v output st h = ck_q8192_bf16_launch dev q k v output st h"
| "ck_bf16_call B16384 dev q k v output st h = ck_q16384_bf16_launch dev q k v output st h"
| "ck_bf16_call B17408 dev q k v output st h = ck_q17408_bf16_launch dev q k v output st h"
| "ck_bf16_call B32768 dev q k v output st h = ck_q32768_bf16_launch dev q k v output st h"
| "ck_bf16_call B65536 dev q k v output st h = ck_q65536_bf16_launch dev q k v output st h"
| "ck_bf16_call BSuffix1024 dev q k v output st h = ck_q1024_kv17408_suffix_bf16_launch dev q k v output st h"
| "ck_bf16_call (BDynamic tokens) dev q k v output st h = ck_dynamic_bf16_launch dev q k v output st tokens h"

fun ck_chunk_call :: "ck_chunk_shape \<Rightarrow> hip \<Rightarrow> u64 \<Rightarrow> u64 \<Rightarrow> u64 \<Rightarrow> u64 \<Rightarrow> u64 \<Rightarrow> hip_hist \<Rightarrow> int \<times> hip_hist" where
  "ck_chunk_call C65536 dev q k v output st h = ck_q65536_chunk8192_bf16_launch dev q k v output st h"
| "ck_chunk_call C129536 dev q k v output st h = ck_q129536_chunk8192_bf16_launch dev q k v output st h"
| "ck_chunk_call C130560 dev q k v output st h = ck_q130560_chunk8192_bf16_launch dev q k v output st h"
| "ck_chunk_call C131071 dev q k v output st h = ck_q131071_chunk8192_bf16_launch dev q k v output st h"
| "ck_chunk_call C131072 dev q k v output st h = ck_q131072_chunk8192_bf16_launch dev q k v output st h"
| "ck_chunk_call C131073 dev q k v output st h = ck_q131073_chunk8192_bf16_launch dev q k v output st h"
| "ck_chunk_call C262143 dev q k v output st h = ck_q262143_chunk8192_bf16_launch dev q k v output st h"
| "ck_chunk_call C262144 dev q k v output st h = ck_q262144_chunk8192_bf16_launch dev q k v output st h"

fun ck_tile_call :: "ck_tile_shape \<Rightarrow> hip \<Rightarrow> u64 \<Rightarrow> u64 \<Rightarrow> u64 \<Rightarrow> u64 \<Rightarrow> u32 \<Rightarrow> u64 \<Rightarrow> hip_hist \<Rightarrow> int \<times> hip_hist" where
  "ck_tile_call T129536 dev q k v output qs st h = ck_q129536_tile8192_bf16_launch dev q k v output qs st h"
| "ck_tile_call T131072 dev q k v output qs st h = ck_q131072_tile8192_bf16_launch dev q k v output qs st h"
| "ck_tile_call T131073 dev q k v output qs st h = ck_q131073_tile8192_bf16_launch dev q k v output qs st h"
| "ck_tile_call T262143 dev q k v output qs st h = ck_q262143_tile8192_bf16_launch dev q k v output qs st h"
| "ck_tile_call T262144 dev q k v output qs st h = ck_q262144_tile8192_bf16_launch dev q k v output qs st h"

fun ck_exec :: "hip \<Rightarrow> ck_op \<Rightarrow> ck_state \<Rightarrow> hip_hist \<Rightarrow> int \<times> ck_state \<times> hip_hist" where
  "ck_exec dev CkPrepare s h = ck_q8192_prepare dev s h"
| "ck_exec dev (CkF32 sh packed output st) s h =
     (case sh of
        P8192 \<Rightarrow> ck_q8192_f32_launch dev packed output st s h
      | P16384 \<Rightarrow> ck_q16384_f32_launch dev packed output st s h
      | P32768 \<Rightarrow> ck_q32768_f32_launch dev packed output st s h
      | P65536 \<Rightarrow> ck_q65536_f32_launch dev packed output st s h)"
| "ck_exec dev (CkBf16 sh q k v output st) s h =
     (case ck_bf16_call sh dev q k v output st h of (status, h) \<Rightarrow> (status, s, h))"
| "ck_exec dev (CkChunk sh q k v output st) s h =
     (case ck_chunk_call sh dev q k v output st h of (status, h) \<Rightarrow> (status, s, h))"
| "ck_exec dev (CkTile sh q k v output qs st) s h =
     (case ck_tile_call sh dev q k v output qs st h of (status, h) \<Rightarrow> (status, s, h))"
| "ck_exec dev CkRelease s h = ck_release dev s h"


section \<open>The packing kernel\<close>

lemmas ck_constants = ck_kPrefillChunkTokens_def ck_kQueryFeatures_def ck_kKvFeatures_def ck_kPackedRows_def ck_kThreads_def

text \<open>The kernel in unbounded arithmetic: thread \<open>n\<close> of \<open>T\<close> tokens.\<close>

definition pack_value_q :: "f32 list \<Rightarrow> nat \<Rightarrow> bf16" where
  "pack_value_q packed i = ck_f32_to_bf16 (packed ! (i div 4096 * 9216 + i mod 4096))"

definition pack_value_k :: "f32 list \<Rightarrow> nat \<Rightarrow> bf16" where
  "pack_value_k packed i = ck_f32_to_bf16 (packed ! (i div 512 * 9216 + 8192 + i mod 512))"

definition pack_value_v :: "f32 list \<Rightarrow> nat \<Rightarrow> bf16" where
  "pack_value_v packed i = ck_f32_to_bf16 (packed ! (i div 512 * 9216 + 8704 + i mod 512))"

definition pack_step :: "f32 list \<Rightarrow> nat \<Rightarrow> nat \<Rightarrow> qkv_arrays \<Rightarrow> qkv_arrays" where
  "pack_step packed T n a =
     (if n < T * 4096 then a\<lparr>qa_q := (qa_q a)[n := pack_value_q packed n]\<rparr>
      else if n < T * 4608 then a\<lparr>qa_k := (qa_k a)[n - T * 4096 := pack_value_k packed (n - T * 4096)]\<rparr>
      else if n < T * 5120 then a\<lparr>qa_v := (qa_v a)[n - T * 4608 := pack_value_v packed (n - T * 4608)]\<rparr>
      else a)"

lemma unat_index:
  "unat (ucast (b :: u32) * 256 + ucast (t :: u32) :: u64) = unat b * 256 + unat t"
proof -
  have "unat b * 256 + unat t < 2 ^ 64"
    using unat_u32_lt [of b] unat_u32_lt [of t] by simp
  then show ?thesis
    by (simp add: word_nat)
qed

lemma unat_ucast_mult:
  assumes "unat (x :: u32) * c < 2 ^ 64" "c < 2 ^ 64"
  shows "unat (ucast x * of_nat c :: u64) = unat x * c"
  using assms unat_u32_lt [of x] by (simp add: word_nat unsigned_of_nat take_bit_nat_eq_self)

lemma unat_div_nat: "unat ((x :: u64) div of_nat c) = unat x div c" if "c < 2 ^ 64"
  using that by (simp add: unat_div unsigned_of_nat take_bit_nat_eq_self)

lemma unat_sub_nat: "y \<le> x \<Longrightarrow> unat ((x :: u64) - y) = unat x - unat y"
  by (simp add: unat_sub_if_size word_le_nat_alt)

lemma unat_mult_small: "unat (x :: u64) * unat y < 2 ^ 64 \<Longrightarrow> unat (x * y) = unat x * unat y"
  by (simp add: word_nat)

lemma unat_add_small: "unat (x :: u64) + unat y < 2 ^ 64 \<Longrightarrow> unat (x + y) = unat x + unat y"
  by (simp add: word_nat)

lemma source_index:
  assumes x: "unat (x :: u64) < 2199023255552" and c: "c = 512 \<or> c = 4096" and d: "d \<le> 8704"
  shows "unat (x div of_nat c * of_nat 9216 + of_nat d + (x - x div of_nat c * of_nat c))
    = unat x div c * 9216 + d + unat x mod c"
proof -
  have uc: "unat (of_nat c :: u64) = c" "unat (of_nat 9216 :: u64) = 9216" "unat (of_nat d :: u64) = d"
    using c d by (auto intro!: unat_of_nat_small)
  have q: "unat (x div of_nat c) = unat x div c" by (simp add: unat_div uc)
  have small: "unat x div c < 4294967296" using x c by auto
  have m: "unat x div c * c \<le> unat x" by simp
  have "unat x div c * c < 2 ^ 64" using m x by (rule order_le_less_trans [OF _ order_less_trans]) simp
  then have qc: "unat (x div of_nat c * of_nat c) = unat x div c * c"
    by (subst unat_mult_small) (simp_all add: q uc)
  then have f: "unat (x - x div of_nat c * of_nat c) = unat x mod c"
    using m by (subst unat_sub_nat) (simp_all add: word_le_nat_alt minus_div_mult_eq_mod)
  have "unat x mod c < 4096" using c by auto
  then show ?thesis
    using small d by (simp add: unat_add_small unat_mult_small q uc f del: of_nat_numeral)
qed


lemma pack_kernel_step:
  assumes T: "unat tokens \<le> 262144"
  shows "pack_qkv_kernel packed tokens b 256 t a = pack_step packed (unat tokens) (unat b * 256 + unat t) a"
proof -
  define x :: u64 where "x = ucast b * 256 + ucast t"
  define q :: u64 where "q = ucast tokens * of_nat 4096"
  define kv :: u64 where "kv = ucast tokens * of_nat 512"
  define n where "n = unat b * 256 + unat t"
  let ?T = "unat tokens"
  have x: "unat x = n" by (simp add: x_def n_def unat_index)
  have n: "n < 2199023255552"
    using unat_u32_lt [of b] unat_u32_lt [of t] by (simp add: n_def)
  have nx: "unat x < 2199023255552" using n x by simp
  have q: "unat q = ?T * 4096" unfolding q_def using T by (intro unat_ucast_mult) simp_all
  have kv: "unat kv = ?T * 512" unfolding kv_def using T by (intro unat_ucast_mult) simp_all
  have kv2: "unat (2 * kv) = ?T * 1024"
    using T kv by (subst unat_mult_small) simp_all
  have C: "ucast b * ucast (256 :: u32) + ucast t = x" "ucast tokens * of_nat ck_kQueryFeatures = q"
    "ucast tokens * of_nat ck_kKvFeatures = kv" "of_nat ck_kQueryFeatures = (4096 :: u64)"
    "of_nat ck_kKvFeatures = (512 :: u64)" "of_nat ck_kPackedRows = (9216 :: u64)"
    by (simp_all add: x_def q_def kv_def ck_constants)
  have S: "unat (y div 4096 * 9216 + (y - y div 4096 * 4096)) = unat y div 4096 * 9216 + unat y mod 4096"
    "unat (y div 512 * 9216 + 8192 + (y - y div 512 * 512)) = unat y div 512 * 9216 + 8192 + unat y mod 512"
    "unat (y div 512 * 9216 + 8704 + (y - y div 512 * 512)) = unat y div 512 * 9216 + 8704 + unat y mod 512"
    if "unat y < 2199023255552" for y :: u64
    using source_index [OF that, of 4096 0] source_index [OF that, of 512 8192] source_index [OF that, of 512 8704]
    by simp_all
  have eq: "pack_qkv_kernel packed tokens b 256 t a =
     (if x < q then a\<lparr>qa_q := (qa_q a)[unat x := ck_f32_to_bf16 (packed ! unat (x div 4096 * 9216 + (x - x div 4096 * 4096)))]\<rparr>
      else if x - q \<ge> 2 * kv then a
      else let y = (x - q) mod kv
           in if x - q < kv
              then a\<lparr>qa_k := (qa_k a)[unat (x - q) := ck_f32_to_bf16 (packed ! unat (y div 512 * 9216 + 8192 + (y - y div 512 * 512)))]\<rparr>
              else a\<lparr>qa_v := (qa_v a)[unat (x - q - kv) := ck_f32_to_bf16 (packed ! unat (y div 512 * 9216 + 8704 + (y - y div 512 * 512)))]\<rparr>)"
    unfolding pack_qkv_kernel_def Let_def C(1-3) unfolding C(4-6) by simp
  show ?thesis
  proof (cases "x < q")
    case True
    then have "n < ?T * 4096" by (simp add: word_less_nat_alt x q)
    with True show ?thesis
      unfolding eq n_def [symmetric] S(1) [OF nx] x by (simp add: pack_step_def pack_value_q_def)
  next
    case False
    then have nq: "?T * 4096 \<le> n" by (simp add: word_less_nat_alt x q)
    have xq: "unat (x - q) = n - ?T * 4096"
      using False by (subst unat_sub_nat) (simp_all add: x q)
    consider (out) "x - q \<ge> 2 * kv" | (key) "x - q < kv" "\<not> x - q \<ge> 2 * kv" | (val) "\<not> x - q < kv" "\<not> x - q \<ge> 2 * kv"
      by blast
    then show ?thesis
    proof cases
      case out
      then have "?T * 1024 \<le> n - ?T * 4096" by (simp add: word_le_nat_alt xq kv2)
      then have "\<not> n < ?T * 5120" using nq by linarith
      with out False nq show ?thesis unfolding eq n_def [symmetric] by (simp add: pack_step_def)
    next
      case key
      then have m: "n - ?T * 4096 < ?T * 512" by (simp add: word_less_nat_alt xq kv)
      then have y: "unat ((x - q) mod kv) = n - ?T * 4096" by (simp add: unat_mod xq kv)
      from m nq n have b: "n < ?T * 4608" "unat ((x - q) mod kv) < 2199023255552" by (simp_all add: y)
      from key False nq b(1) show ?thesis
        unfolding eq n_def [symmetric] Let_def S(2) [OF b(2)] y xq by (simp add: pack_step_def pack_value_k_def)
    next
      case val
      then have m: "?T * 512 \<le> n - ?T * 4096" "n - ?T * 4096 < ?T * 1024"
        by (simp_all add: word_less_nat_alt word_le_nat_alt xq kv kv2)
      have "(n - ?T * 4096) mod (?T * 512) = (n - ?T * 4096 - ?T * 512) mod (?T * 512)"
        by (rule le_mod_geq [OF m(1)])
      also have "\<dots> = n - ?T * 4096 - ?T * 512" by (rule mod_less) (use m in linarith)
      finally have y: "unat ((x - q) mod kv) = n - ?T * 4608"
        using m nq by (simp add: unat_mod xq kv)
      have w: "unat (x - q - kv) = n - ?T * 4608"
        using val(1) m by (subst unat_sub_nat) (simp_all add: xq kv)
      from m nq n have b: "n < ?T * 5120" "\<not> n < ?T * 4608" "unat ((x - q) mod kv) < 2199023255552" by (simp_all add: y)
      from val False nq b(1,2) show ?thesis
        unfolding eq n_def [symmetric] Let_def S(3) [OF b(3)] y w by (simp add: pack_step_def pack_value_v_def)
    qed
  qed
qed

text \<open>A run of threads, in any order, sets exactly the cells of its threads.\<close>

lemma pack_step_lengths:
  "length (qa_q (fold (pack_step packed T) ns a)) = length (qa_q a)"
  "length (qa_k (fold (pack_step packed T) ns a)) = length (qa_k a)"
  "length (qa_v (fold (pack_step packed T) ns a)) = length (qa_v a)"
  by (induction ns arbitrary: a) (simp_all add: pack_step_def)

lemma pack_steps_q:
  assumes "i < T * 4096"
  shows "length (qa_q a) = T * 4096 \<Longrightarrow>
    qa_q (fold (pack_step packed T) ns a) ! i = (if i \<in> set ns then pack_value_q packed i else qa_q a ! i)"
  using assms by (induction ns arbitrary: a) (auto simp: pack_step_def nth_list_update)

lemma pack_steps_k:
  assumes "i < T * 512"
  shows "length (qa_k a) = T * 512 \<Longrightarrow>
    qa_k (fold (pack_step packed T) ns a) ! i = (if T * 4096 + i \<in> set ns then pack_value_k packed i else qa_k a ! i)"
  using assms by (induction ns arbitrary: a) (auto simp: pack_step_def nth_list_update)

lemma pack_steps_v:
  assumes "i < T * 512"
  shows "length (qa_v a) = T * 512 \<Longrightarrow>
    qa_v (fold (pack_step packed T) ns a) ! i = (if T * 4608 + i \<in> set ns then pack_value_v packed i else qa_v a ! i)"
  using assms by (induction ns arbitrary: a) (auto simp: pack_step_def nth_list_update)

lemma pack_steps_all:
  assumes a: "length (qa_q a) = T * 4096" "length (qa_k a) = T * 512" "length (qa_v a) = T * 512"
    and ns: "{..<T * 5120} \<subseteq> set ns"
  shows "fold (pack_step packed T) ns a =
    \<lparr>qa_q = map (pack_value_q packed) [0..<T * 4096], qa_k = map (pack_value_k packed) [0..<T * 512],
     qa_v = map (pack_value_v packed) [0..<T * 512]\<rparr>"
proof -
  let ?r = "fold (pack_step packed T) ns a"
  have m: "j \<in> set ns" if "j < T * 5120" for j using ns that by auto
  have "qa_q ?r = map (pack_value_q packed) [0..<T * 4096]"
    by (rule nth_equalityI) (simp_all add: pack_step_lengths a pack_steps_q m)
  moreover have "qa_k ?r = map (pack_value_k packed) [0..<T * 512]"
    by (rule nth_equalityI) (simp_all add: pack_step_lengths a pack_steps_k m)
  moreover have "qa_v ?r = map (pack_value_v packed) [0..<T * 512]"
    by (rule nth_equalityI) (simp_all add: pack_step_lengths a pack_steps_v m)
  ultimately show ?thesis by (cases ?r) simp
qed

lemma pack_grid_eq:
  assumes T: "unat tokens \<le> 262144"
  shows "unat (pack_grid tokens) = unat tokens * 20"
proof -
  let ?T = "unat tokens"
  have q: "unat (ucast tokens * of_nat 4096 :: u64) = ?T * 4096" using T by (intro unat_ucast_mult) simp_all
  have kv: "unat (ucast tokens * of_nat 512 :: u64) = ?T * 512" using T by (intro unat_ucast_mult) simp_all
  let ?p = "ucast tokens * of_nat 4096 + 2 * (ucast tokens * of_nat 512) + 256 - 1 :: u64"
  have "?p = ucast tokens * of_nat 4096 + 2 * (ucast tokens * of_nat 512) + 255" by simp
  also have "unat \<dots> = ?T * 5120 + 255"
    using T q kv by (simp add: unat_add_small unat_mult_small del: of_nat_numeral)
  finally have "unat (?p div 256) = ?T * 20" by (simp add: unat_div)
  then show ?thesis
    unfolding pack_grid_def Let_def ck_constants using T by (simp add: word_nat)
qed


section \<open>Chunked attention\<close>

text \<open>The argument records of the attention calls of a history, in order.\<close>

fun fmha_of :: "hip_call \<Rightarrow> fmha_args list" where
  "fmha_of (FmhaFwd traits args st) = [args]"
| "fmha_of _ = []"

definition fmha_calls :: "hip_hist \<Rightarrow> fmha_args list" where
  "fmha_calls h = concat (map fmha_of (rev (map fst h)))"

text \<open>
  The pairs of query and key rows that a call scores, by the addresses of the query, key and
  value rows and of the output row the query is accumulated into. \<open>allows\<close> says which pairs of
  row numbers a mask admits, given the numbers of query and key rows.
\<close>

type_synonym mask_semantics = "mask_enum \<Rightarrow> nat \<Rightarrow> nat \<Rightarrow> nat \<Rightarrow> nat \<Rightarrow> bool"

definition scored :: "mask_semantics \<Rightarrow> fmha_args \<Rightarrow> (u64 \<times> u64 \<times> u64 \<times> u64) set" where
  "scored allows a =
     (\<lambda>(i, j). (fa_q_ptr a + of_nat i * ucast (fa_stride_q a) * 2, fa_k_ptr a + of_nat j * ucast (fa_stride_k a) * 2,
        fa_v_ptr a + of_nat j * ucast (fa_stride_v a) * 2, fa_o_ptr a + of_nat i * ucast (fa_stride_o a) * 4)) `
     {(i, j). i < unat (fa_seqlen_q a) \<and> j < unat (fa_seqlen_k a) \<and>
        allows (fa_mask_type a) (unat (fa_seqlen_q a)) (unat (fa_seqlen_k a)) i j}"

text \<open>What the generated kernel documents for its causal masks: the diagonal starts at the first or ends at the last key.\<close>

definition causal_masks :: "mask_semantics \<Rightarrow> bool" where
  "causal_masks allows \<longleftrightarrow>
     (\<forall>sq sk i j. i < sq \<and> j < sk \<longrightarrow>
        (allows Mask_Top_Left sq sk i j \<longleftrightarrow> j \<le> i) \<and>
        (allows Mask_Bottom_Right sq sk i j \<longleftrightarrow> int j \<le> int i + (int sk - int sq)))"

definition pair_at :: "u64 \<Rightarrow> u64 \<Rightarrow> u64 \<Rightarrow> u64 \<Rightarrow> nat \<Rightarrow> nat \<Rightarrow> u64 \<times> u64 \<times> u64 \<times> u64" where
  "pair_at q k v output i j = (q + of_nat i * 8192, k + of_nat j * 1024, v + of_nat j * 1024, output + of_nat i * 16384)"

lemma fmha_calls_Cons [simp]: "fmha_calls ((c, r) # h) = fmha_calls h @ fmha_of c"
  by (simp add: fmha_calls_def)

lemma ck_args_simps [simp]:
  "fa_q_ptr (ck_args dev q k v out sq sk mk) = q" "fa_k_ptr (ck_args dev q k v out sq sk mk) = k"
  "fa_v_ptr (ck_args dev q k v out sq sk mk) = v" "fa_o_ptr (ck_args dev q k v out sq sk mk) = out"
  "fa_seqlen_q (ck_args dev q k v out sq sk mk) = sq" "fa_seqlen_k (ck_args dev q k v out sq sk mk) = sk"
  "fa_mask_type (ck_args dev q k v out sq sk mk) = mk"
  "fa_stride_q (ck_args dev q k v out sq sk mk) = 4096" "fa_stride_k (ck_args dev q k v out sq sk mk) = 512"
  "fa_stride_v (ck_args dev q k v out sq sk mk) = 512" "fa_stride_o (ck_args dev q k v out sq sk mk) = 4096"
  by (simp_all add: ck_args_def ck_constants)

lemma scored_ck_args:
  "scored allows (ck_args dev q k v output sq sk mk) =
     (\<lambda>(i, j). pair_at q k v output i j) ` {(i, j). i < unat sq \<and> j < unat sk \<and> allows mk (unat sq) (unat sk) i j}"
  unfolding scored_def by (simp add: pair_at_def mult.commute)

lemma pair_at_shift:
  "pair_at (q + of_nat s * of_nat ck_kQueryFeatures * 2) k v (output + of_nat s * of_nat ck_kQueryFeatures * 4) i j
     = pair_at q k v output (s + i) j"
  by (simp add: pair_at_def ck_constants algebra_simps)

lemma scored_bottom_right:
  assumes "causal_masks allows" "n \<le> 8192" "s + n \<le> 262144"
  shows "scored allows (ck_args dev (q + of_nat s * of_nat ck_kQueryFeatures * 2) k v
       (output + of_nat s * of_nat ck_kQueryFeatures * 4) (of_nat n) (of_nat (s + n)) Mask_Bottom_Right)
     = (\<lambda>(i, j). pair_at q k v output i j) ` {(i, j). s \<le> i \<and> i < s + n \<and> j \<le> i}"
proof -
  have u: "unat (of_nat n :: u32) = n" "unat (of_nat (s + n) :: u32) = s + n"
    using assms(2,3) by (intro unat_of_nat_small; simp)+
  have al: "allows Mask_Bottom_Right n (s + n) i j \<longleftrightarrow> j \<le> s + i" if "i < n" "j < s + n" for i j
  proof -
    have "allows Mask_Bottom_Right n (s + n) i j \<longleftrightarrow> int j \<le> int i + (int (s + n) - int n)"
      using assms(1) that unfolding causal_masks_def by blast
    then show ?thesis by auto
  qed
  have dom: "{(i, j). i < n \<and> j < s + n \<and> allows Mask_Bottom_Right n (s + n) i j} = {(i, j). i < n \<and> j \<le> s + i}"
    using al by auto
  have shift: "{(i, j). s \<le> i \<and> i < s + n \<and> j \<le> i} = (\<lambda>(i, j). (s + i, j)) ` {(i, j). i < n \<and> j \<le> s + i}"
    (is "?L = ?f ` ?R")
  proof
    show "?L \<subseteq> ?f ` ?R"
    proof
      fix x
      assume "x \<in> ?L"
      then obtain i j where x: "x = (i, j)" "s \<le> i" "i < s + n" "j \<le> i" by auto
      then have "x = ?f (i - s, j)" "(i - s, j) \<in> ?R" by auto
      then show "x \<in> ?f ` ?R" by (rule image_eqI)
    qed
  qed auto
  show ?thesis
    unfolding scored_ck_args u dom shift image_image
    by (intro image_cong refl) (simp add: pair_at_shift split: prod.split)
qed

lemma scored_top_left:
  assumes "causal_masks allows"
  shows "scored allows (ck_args dev q k v output n n Mask_Top_Left)
     = (\<lambda>(i, j). pair_at q k v output i j) ` {(i, j). 0 \<le> i \<and> i < unat n \<and> j \<le> i}"
proof -
  have "allows Mask_Top_Left (unat n) (unat n) i j \<longleftrightarrow> j \<le> i" if "i < unat n" "j < unat n" for i j
    using assms that unfolding causal_masks_def by blast
  then have "{(i, j). i < unat n \<and> j < unat n \<and> allows Mask_Top_Left (unat n) (unat n) i j}
      = {(i, j). 0 \<le> i \<and> i < unat n \<and> j \<le> i}" by auto
  then show ?thesis unfolding scored_ck_args by simp
qed

lemma attention_success:
  assumes "launch_bf16_attention dev q k v output st sq sk mk h = (hipSuccess, h')"
  shows "fmha_calls h' = fmha_calls h @ [ck_args dev q k v output sq sk mk]"
  using assms
  by (auto simp: launch_bf16_attention_def ask_def Let_def hipErrorInvalidValue_def hipSuccess_def split: if_splits)

lemma chunk_loop_calls:
  assumes allows: "causal_masks allows" and T: "T \<le> 262144"
  shows "chunk_loop dev q k v output st T s h = (hipSuccess, h') \<Longrightarrow>
     \<exists>as. fmha_calls h' = fmha_calls h @ as \<and>
       (\<Union>a \<in> set as. scored allows a) = (\<lambda>(i, j). pair_at q k v output i j) ` {(i, j). s \<le> i \<and> i < T \<and> j \<le> i} \<and>
       (\<Sum>a\<leftarrow>as. unat (fa_seqlen_q a)) = T - s"
proof (induction "T - s" arbitrary: s h rule: less_induct)
  case less
  show ?case
  proof (cases "s < T")
    case False
    then have "h' = h" using less.prems by (simp add: chunk_loop.simps [of dev q k v "output" st T s])
    with False show ?thesis by (intro exI [of _ "[]"]) auto
  next
    case True
    define n where "n = (if T - s < 8192 then T - s else 8192)"
    have n: "n \<le> 8192" "0 < n" "s + n \<le> T" "n = 8192 \<or> s + n = T" using True by (auto simp: n_def)
    let ?q = "q + of_nat s * of_nat ck_kQueryFeatures * 2" and ?o = "output + of_nat s * of_nat ck_kQueryFeatures * 4"
    obtain status h1 where att: "launch_bf16_attention dev ?q k v ?o st (of_nat n) (of_nat (s + n)) Mask_Bottom_Right h = (status, h1)"
      by (cases "launch_bf16_attention dev ?q k v ?o st (of_nat n) (of_nat (s + n)) Mask_Bottom_Right h")
    have step: "chunk_loop dev q k v output st T s h =
        (if status \<noteq> hipSuccess then (status, h1) else chunk_loop dev q k v output st T (s + 8192) h1)"
      using True att unfolding chunk_loop.simps [of dev q k v "output" st T s] ck_kPrefillChunkTokens_def n_def
      by (simp add: Let_def mult.assoc)
    have ok: "status = hipSuccess" and rest: "chunk_loop dev q k v output st T (s + 8192) h1 = (hipSuccess, h')"
      using less.prems unfolding step by (simp_all split: if_splits)
    have "T - (s + 8192) < T - s" using True by linarith
    from less.hyps [OF this rest] obtain as where as: "fmha_calls h' = fmha_calls h1 @ as"
      "(\<Union>a \<in> set as. scored allows a) = (\<lambda>(i, j). pair_at q k v output i j) ` {(i, j). s + 8192 \<le> i \<and> i < T \<and> j \<le> i}"
      "(\<Sum>a\<leftarrow>as. unat (fa_seqlen_q a)) = T - (s + 8192)"
      by blast
    let ?a = "ck_args dev ?q k v ?o (of_nat n) (of_nat (s + n)) Mask_Bottom_Right"
    have "{(i, j). s \<le> i \<and> i < T \<and> j \<le> i} = {(i, j). s \<le> i \<and> i < s + n \<and> j \<le> i} \<union> {(i, j). s + 8192 \<le> i \<and> i < T \<and> j \<le> i}"
      using n by auto
    then have "(\<Union>a \<in> set (?a # as). scored allows a) = (\<lambda>(i, j). pair_at q k v output i j) ` {(i, j). s \<le> i \<and> i < T \<and> j \<le> i}"
      using scored_bottom_right [OF allows n(1), of s dev q k v "output"] as(2) n(3) T by (simp add: image_Un)
    moreover have "fmha_calls h' = fmha_calls h @ ?a # as"
      using attention_success [OF att [unfolded ok]] as(1) by simp
    moreover have "unat (fa_seqlen_q ?a) = n" using n(1) by (simp add: unat_of_nat_small)
    then have "(\<Sum>a\<leftarrow>?a # as. unat (fa_seqlen_q a)) = T - s"
      using as(3) n by auto
    ultimately show ?thesis by blast
  qed
qed


section \<open>The invariant\<close>

text \<open>Either nothing is allocated, or the three blocks hold the recorded number of tokens.\<close>

definition ck_blocks :: "ck_state \<Rightarrow> (u64 \<times> u64) list" where
  "ck_blocks s =
     [(ck_q s, ucast (ck_capacity_tokens s) * of_nat ck_kQueryFeatures * 2),
      (ck_k s, ucast (ck_capacity_tokens s) * of_nat ck_kKvFeatures * 2),
      (ck_v s, ucast (ck_capacity_tokens s) * of_nat ck_kKvFeatures * 2)]"

definition ck_inv :: "ck_state \<Rightarrow> hip_hist \<Rightarrow> bool" where
  "ck_inv s h \<longleftrightarrow> orderly h \<and> live_modules h = {} \<and> live_functions h = {} \<and>
     (if ck_capacity_tokens s = 0 then s = ck_initial \<and> live_blocks h = {}
      else nullptr \<notin> {ck_q s, ck_k s, ck_v s} \<and> distinct [ck_q s, ck_k s, ck_v s] \<and> live_blocks h = set (ck_blocks s))"

lemma ck_free_all_live:
  "live_blocks (ck_free_all dev s h) = {x \<in> live_blocks h. fst x \<notin> {ck_q s, ck_k s, ck_v s}}"
  "live_modules (ck_free_all dev s h) = live_modules h" "live_functions (ck_free_all dev s h) = live_functions h"
  by (auto simp: ck_free_all_def hip_tell_eq)

lemma ck_free_all_orderly:
  assumes "orderly h"
    and "\<And>p. p \<in> {ck_q s, ck_k s, ck_v s} \<Longrightarrow> p \<noteq> nullptr \<Longrightarrow> p \<in> fst ` live_blocks h"
    and "nonnull_distinct [ck_v s, ck_k s, ck_q s]"
  shows "orderly (ck_free_all dev s h)"
proof -
  have v: "ck_v s = nullptr \<or> ck_v s \<in> fst ` live_blocks h" and k: "ck_k s = nullptr \<or> ck_k s \<in> fst ` live_blocks h"
    and q: "ck_q s = nullptr \<or> ck_q s \<in> fst ` live_blocks h"
    using assms(2) by auto
  have d: "ck_k s = nullptr \<or> ck_k s \<noteq> ck_v s" "ck_q s = nullptr \<or> ck_q s \<noteq> ck_v s" "ck_q s = nullptr \<or> ck_q s \<noteq> ck_k s"
    using assms(3) by (auto simp: nonnull_distinct_def split: if_splits)
  have keep: "p \<in> fst ` {x \<in> B. fst x \<noteq> r}" if "p \<in> fst ` B" "p \<noteq> r" for p r :: u64 and B :: "(u64 \<times> u64) set"
    using that by force
  show ?thesis
    using assms(1) v k q d by (auto simp: ck_free_all_def hip_tell_eq intro!: keep)
qed


lemma ck_inv_blocks: "ck_inv s h \<Longrightarrow> x \<in> live_blocks h \<Longrightarrow> fst x \<noteq> nullptr"
  by (auto simp: ck_inv_def ck_blocks_def split: if_splits)

text \<open>Freeing what was just allocated brings back the old blocks.\<close>

lemma ck_undo:
  assumes inv: "ck_inv s h" and o: "orderly h'" and m: "live_modules h' = live_modules h" "live_functions h' = live_functions h"
    and b: "live_blocks h' = live_blocks h \<union> N" "fst ` N = {ck_q n, ck_k n, ck_v n} - {nullptr}"
    and fresh: "fst ` N \<inter> fst ` live_blocks h = {}" and d: "nonnull_distinct [ck_v n, ck_k n, ck_q n]"
  shows "ck_inv s (ck_free_all dev n h')"
proof -
  have o': "orderly (ck_free_all dev n h')"
    by (rule ck_free_all_orderly [OF o _ d]) (use b in blast)
  have lb: "live_blocks (ck_free_all dev n h') = live_blocks h"
  proof -
    have "x \<notin> N \<longrightarrow> fst x \<notin> {ck_q n, ck_k n, ck_v n}" if "x \<in> live_blocks h" for x
      using that fresh b(2) ck_inv_blocks [OF inv that] by blast
    moreover have "fst x \<in> {ck_q n, ck_k n, ck_v n}" if "x \<in> N" for x
      using that b(2) by blast
    moreover have "live_blocks h \<inter> N = {}" using fresh by blast
    ultimately show ?thesis unfolding ck_free_all_live b(1) by blast
  qed
  show ?thesis
    using inv o' unfolding ck_inv_def lb unfolding ck_free_all_live m by blast
qed

lemma ck_prepare_cases:
  assumes "ck_prepare_locked dev tokens s h = (status, s', h')"
  defines "qb \<equiv> ucast tokens * of_nat ck_kQueryFeatures * 2"
    and "kb \<equiv> ucast tokens * of_nat ck_kKvFeatures * 2"
  defines "r1 \<equiv> answers dev h (Malloc qb)"
  defines "h1 \<equiv> (Malloc qb, r1) # h"
  defines "r2 \<equiv> answers dev h1 (Malloc kb)"
  defines "h2 \<equiv> (Malloc kb, r2) # h1"
  defines "r3 \<equiv> answers dev h2 (Malloc kb)"
  defines "h3 \<equiv> (Malloc kb, r3) # h2"
  obtains (unsupported) "\<not> ck_supported_tokens tokens" "status = hipErrorInvalidValue" "s' = s" "h' = h"
  | (kept) "ck_supported_tokens tokens" "status = hipSuccess" "s' = s" "h' = h" "ck_q s \<noteq> nullptr" "ck_capacity_tokens s \<ge> tokens"
  | (no_q) "\<not> hip_ok r1" "status = hip_status r1" "s' = s" "h' = ck_free_all dev ck_initial h1"
  | (no_k) "hip_ok r1" "\<not> hip_ok r2" "status = hip_status r2" "s' = s"
      "h' = ck_free_all dev (ck_initial\<lparr>ck_q := hip_out r1\<rparr>) h2"
  | (no_v) "hip_ok r1" "hip_ok r2" "\<not> hip_ok r3" "status = hip_status r3" "s' = s"
      "h' = ck_free_all dev (ck_initial\<lparr>ck_q := hip_out r1, ck_k := hip_out r2\<rparr>) h3"
  | (fresh) "ck_supported_tokens tokens" "hip_ok r1" "hip_ok r2" "hip_ok r3" "status = hipSuccess"
      "s' = \<lparr>ck_q = hip_out r1, ck_k = hip_out r2, ck_v = hip_out r3, ck_capacity_tokens = tokens\<rparr>"
      "h' = ck_free_all dev s h3"
proof (cases "\<not> ck_supported_tokens tokens \<or>
    (ck_q s \<noteq> nullptr \<and> ck_k s \<noteq> nullptr \<and> ck_v s \<noteq> nullptr \<and> ck_capacity_tokens s \<ge> tokens)")
  case True
  then show ?thesis using assms(1) unsupported kept by (auto simp: ck_prepare_locked_def split: if_splits)
next
  case False
  note defs = Let_def ask_def h1_def h2_def h3_def r1_def r2_def r3_def qb_def kb_def ck_initial_def
  consider (1) "\<not> hip_ok r1" | (2) "hip_ok r1" "\<not> hip_ok r2" | (3) "hip_ok r1" "hip_ok r2" "\<not> hip_ok r3"
    | (4) "hip_ok r1" "hip_ok r2" "hip_ok r3" by blast
  then show ?thesis
  proof cases
    case 1
    then have "ck_prepare_locked dev tokens s h = (hip_status r1, s, ck_free_all dev ck_initial h1)"
      using False by (simp add: ck_prepare_locked_def defs)
    with 1 assms(1) show ?thesis by (intro no_q) simp_all
  next
    case 2
    then have "ck_prepare_locked dev tokens s h = (hip_status r2, s, ck_free_all dev (ck_initial\<lparr>ck_q := hip_out r1\<rparr>) h2)"
      using False by (simp add: ck_prepare_locked_def defs)
    with 2 assms(1) show ?thesis by (intro no_k) simp_all
  next
    case 3
    then have "ck_prepare_locked dev tokens s h =
        (hip_status r3, s, ck_free_all dev (ck_initial\<lparr>ck_q := hip_out r1, ck_k := hip_out r2\<rparr>) h3)"
      using False by (simp add: ck_prepare_locked_def defs)
    with 3 assms(1) show ?thesis by (intro no_v) simp_all
  next
    case 4
    then have "ck_prepare_locked dev tokens s h = (hipSuccess,
        \<lparr>ck_q = hip_out r1, ck_k = hip_out r2, ck_v = hip_out r3, ck_capacity_tokens = tokens\<rparr>, ck_free_all dev s h3)"
      using False by (auto simp add: ck_prepare_locked_def defs)
    with 4 False assms(1) show ?thesis by (intro fresh) simp_all
  qed
qed

lemma ck_malloc:
  assumes "hip_sound dev" "hip_ok (answers dev h (Malloc n))"
  shows "hip_out (answers dev h (Malloc n)) \<noteq> nullptr"
    and "hip_out (answers dev h (Malloc n)) \<notin> fst ` live_blocks h"
    and "live_blocks ((Malloc n, answers dev h (Malloc n)) # h) = insert (hip_out (answers dev h (Malloc n)), n) (live_blocks h)"
  using hip_soundD(3,4) [OF assms] assms(2) by simp_all

lemma ck_prepare_inv:
  assumes dev: "hip_sound dev" and inv: "ck_inv s h" and run: "ck_prepare_locked dev tokens s h = (status, s', h')"
  shows "ck_inv s' h' \<and> (status = hipSuccess \<longrightarrow> ck_q s' \<noteq> nullptr \<and> ck_capacity_tokens s' \<ge> tokens)"
proof -
  define qb :: u64 where "qb = ucast tokens * of_nat ck_kQueryFeatures * 2"
  define kb :: u64 where "kb = ucast tokens * of_nat ck_kKvFeatures * 2"
  define r1 where "r1 = answers dev h (Malloc qb)"
  define h1 where "h1 = (Malloc qb, r1) # h"
  define r2 where "r2 = answers dev h1 (Malloc kb)"
  define h2 where "h2 = (Malloc kb, r2) # h1"
  define r3 where "r3 = answers dev h2 (Malloc kb)"
  define h3 where "h3 = (Malloc kb, r3) # h2"
  note C = ck_prepare_cases [OF run, folded qb_def kb_def, folded r1_def, folded h1_def, folded r2_def, folded h2_def,
      folded r3_def, folded h3_def, case_names unsupported kept no_q no_k no_v fresh]
  have o: "orderly h" "live_modules h = {}" "live_functions h = {}" using inv by (simp_all add: ck_inv_def)
  have hs: "orderly h1" "orderly h2" "orderly h3" "live_modules h1 = {}" "live_modules h2 = {}" "live_modules h3 = {}"
    "live_functions h1 = {}" "live_functions h2 = {}" "live_functions h3 = {}"
    using o by (simp_all add: h1_def h2_def h3_def)
  have err: "status \<noteq> hipSuccess" if "\<not> hip_ok r" "status = hip_status r" for r using that by simp
  note M1 = ck_malloc [OF dev, of h qb, folded r1_def, folded h1_def]
  note M2 = ck_malloc [OF dev, of h1 kb, folded r2_def, folded h2_def]
  note M3 = ck_malloc [OF dev, of h2 kb, folded r3_def, folded h3_def]
  show ?thesis
  proof (cases rule: C)
    case no_q
    have "live_blocks h1 = live_blocks h \<union> {}" using no_q(1) by (simp add: h1_def)
    then have "ck_inv s h'" unfolding no_q(4)
      by (intro ck_undo [OF inv hs(1), of "{}"]) (auto simp: hs o ck_initial_def nonnull_distinct_def)
    then show ?thesis using no_q err by simp
  next
    case no_k
    note m = M1 [OF no_k(1)]
    have "live_blocks h2 = live_blocks h \<union> {(hip_out r1, qb)}" using no_k(2) m(3) by (simp add: h2_def)
    then have "ck_inv s h'" unfolding no_k(5)
      by (intro ck_undo [OF inv hs(2), of "{(hip_out r1, qb)}"]) (use m(1,2) in \<open>auto simp: hs o ck_initial_def nonnull_distinct_def intro: rev_image_eqI\<close>)
    then show ?thesis using no_k err by simp
  next
    case no_v
    note m = M1 [OF no_v(1)] M2 [OF no_v(2)]
    have "live_blocks h3 = live_blocks h \<union> {(hip_out r1, qb), (hip_out r2, kb)}"
      using no_v(3) m(3,6) by (auto simp: h3_def)
    then have "ck_inv s h'" unfolding no_v(6)
      by (intro ck_undo [OF inv hs(3), of "{(hip_out r1, qb), (hip_out r2, kb)}"]) (use m in \<open>auto simp: hs o ck_initial_def nonnull_distinct_def intro: rev_image_eqI\<close>)
    then show ?thesis using no_v err by simp
  next
    case fresh
    note m = M1 [OF fresh(2)] M2 [OF fresh(3)] M3 [OF fresh(4)]
    have tok: "tokens \<noteq> 0" using fresh(1) by (auto simp: ck_supported_tokens_def)
    have lb: "live_blocks h3 = live_blocks h \<union> set (ck_blocks s')"
      using m(3,6,9) by (auto simp: fresh(6) ck_blocks_def qb_def kb_def)
    have old: "fst x \<in> {ck_q s, ck_k s, ck_v s}" if "x \<in> live_blocks h" for x
      using inv that by (auto simp: ck_inv_def ck_blocks_def split: if_splits)
    have ptrs: "p \<in> fst ` live_blocks h" if "p \<in> {ck_q s, ck_k s, ck_v s}" "p \<noteq> nullptr" for p
      using inv that by (auto simp: ck_inv_def ck_blocks_def ck_initial_def split: if_splits)
    have "orderly (ck_free_all dev s h3)"
    proof (rule ck_free_all_orderly [OF hs(3)])
      show "p \<in> fst ` live_blocks h3" if "p \<in> {ck_q s, ck_k s, ck_v s}" "p \<noteq> nullptr" for p
        using ptrs [OF that] by (auto simp: lb)
      show "nonnull_distinct [ck_v s, ck_k s, ck_q s]"
        using inv by (auto simp: ck_inv_def nonnull_distinct_def ck_initial_def split: if_splits)
    qed
    moreover have "live_blocks (ck_free_all dev s h3) = set (ck_blocks s')"
    proof -
      have "fst x \<notin> {ck_q s, ck_k s, ck_v s}" if "x \<in> set (ck_blocks s')" for x
        using that m ptrs by (auto simp: fresh(6) ck_blocks_def)
      then show ?thesis unfolding ck_free_all_live lb using old by blast
    qed
    ultimately have "ck_inv s' h'"
      unfolding fresh(7) ck_inv_def using m tok hs by (auto simp: ck_free_all_live(2,3) fresh(6))
    then show ?thesis using m(1) by (simp add: fresh(6))
  qed (use inv in \<open>simp_all add: hipErrorInvalidValue_def hipSuccess_def\<close>)
qed


lemma ck_inv_call:
  assumes "ck_inv s h" "call_ok h c" "live_modules ((c, r) # h) = live_modules h"
    "live_functions ((c, r) # h) = live_functions h" "live_blocks ((c, r) # h) = live_blocks h"
  shows "ck_inv s ((c, r) # h)"
  using assms(1,2) unfolding ck_inv_def assms(3-5) orderly.simps fst_conv by blast

lemma attention_inv:
  assumes inv: "ck_inv s h" and run: "launch_bf16_attention dev q k v out st sq sk mk h = (status, h')"
  shows "ck_inv s h'"
proof -
  have a: "ck_inv s ((FmhaFwd tr ar st', r) # h)" for tr ar st' r
    by (rule ck_inv_call [OF inv]) simp_all
  have b: "ck_inv s ((GetLastHipError, x) # (FmhaFwd tr ar st', r) # h)" for tr ar st' r x
    by (rule ck_inv_call [OF a]) simp_all
  show ?thesis
    using run inv a b by (auto simp: launch_bf16_attention_def ask_def Let_def split: if_splits)
qed

lemma chunk_loop_inv:
  "ck_inv s h \<Longrightarrow> chunk_loop dev q k v out st T qs h = (status, h') \<Longrightarrow> ck_inv s h'"
proof (induction "T - qs" arbitrary: qs h rule: less_induct)
  case less
  show ?case
  proof (cases "qs < T")
    case True
    define n where "n = (if T - qs < ck_kPrefillChunkTokens then T - qs else ck_kPrefillChunkTokens)"
    obtain s1 h1 where a: "launch_bf16_attention dev (q + of_nat qs * of_nat ck_kQueryFeatures * 2) k v
        (out + of_nat qs * of_nat ck_kQueryFeatures * 4) st (of_nat n) (of_nat (qs + n)) Mask_Bottom_Right h = (s1, h1)"
      by (cases "launch_bf16_attention dev (q + of_nat qs * of_nat ck_kQueryFeatures * 2) k v
        (out + of_nat qs * of_nat ck_kQueryFeatures * 4) st (of_nat n) (of_nat (qs + n)) Mask_Bottom_Right h")
    have i: "ck_inv s h1" by (rule attention_inv [OF less.prems(1) a])
    have step: "chunk_loop dev q k v out st T qs h =
        (if s1 \<noteq> hipSuccess then (s1, h1) else chunk_loop dev q k v out st T (qs + ck_kPrefillChunkTokens) h1)"
      unfolding chunk_loop.simps [of dev q k v out st T qs] Let_def n_def [symmetric] a prod.case using True by simp
    have lt: "T - (qs + ck_kPrefillChunkTokens) < T - qs" using True by (simp add: ck_kPrefillChunkTokens_def)
    show ?thesis
      using less.prems(2) i less.hyps [OF lt i] unfolding step by (auto split: if_splits)
  next
    case False
    then show ?thesis using less.prems by (simp add: chunk_loop.simps [of dev q k v out st T qs])
  qed
qed

lemma launch_f32_packed_inv:
  assumes dev: "hip_sound dev" and inv: "ck_inv s h" and run: "launch_f32_packed dev p out st n s h = (status, s', h')"
  shows "ck_inv s' h'"
proof (cases "p = nullptr \<or> out = nullptr \<or> \<not> ck_supported_tokens n")
  case True
  then show ?thesis using run inv by (auto simp: launch_f32_packed_def)
next
  case False
  obtain status1 s1 h1 where prep: "ck_prepare_locked dev n s h = (status1, s1, h1)"
    by (cases "ck_prepare_locked dev n s h")
  have i: "ck_inv s1 h1" using ck_prepare_inv [OF dev inv prep] by blast
  have g: "ck_inv s1 ((LaunchKernelGGL nm dims args, r) # h1)" for nm dims args r
    by (rule ck_inv_call [OF i]) simp_all
  have e: "ck_inv s1 ((GetLastHipError, x) # (LaunchKernelGGL nm dims args, r) # h1)" for nm dims args r x
    by (rule ck_inv_call [OF g]) simp_all
  have l: "ck_inv s1 k'" if "launch_bf16_qkv dev q k v out st n kk = (x, k')" "ck_inv s1 kk" for q k v kk x k'
    using that attention_inv [OF that(2)] by (auto simp: launch_bf16_qkv_def split: if_splits)
  show ?thesis
    using run False i e l unfolding launch_f32_packed_def prep Let_def hip_tell_eq ask_def prod.case
    by (auto split: if_splits prod.splits)
qed

lemmas ck_exports =
  ck_q8192_prepare_def ck_q129536_tile8192_bf16_launch_def ck_q131072_tile8192_bf16_launch_def
  ck_q131073_tile8192_bf16_launch_def ck_q262143_tile8192_bf16_launch_def ck_q262144_tile8192_bf16_launch_def
  ck_q8192_f32_launch_def ck_q8192_bf16_launch_def ck_dynamic_bf16_launch_def ck_q16384_f32_launch_def
  ck_q16384_bf16_launch_def ck_q17408_bf16_launch_def ck_q1024_kv17408_suffix_bf16_launch_def ck_q32768_f32_launch_def
  ck_q32768_bf16_launch_def ck_q65536_f32_launch_def ck_q65536_bf16_launch_def ck_q65536_chunk8192_bf16_launch_def
  ck_q130560_chunk8192_bf16_launch_def ck_q129536_chunk8192_bf16_launch_def ck_q131071_chunk8192_bf16_launch_def
  ck_q131072_chunk8192_bf16_launch_def ck_q131073_chunk8192_bf16_launch_def ck_q262143_chunk8192_bf16_launch_def
  ck_q262144_chunk8192_bf16_launch_def

lemma ck_launch_inv:
  assumes inv: "ck_inv s h"
  shows "ck_bf16_call bsh dev q k v out st h = (status, h') \<Longrightarrow> ck_inv s h'"
    and "ck_chunk_call csh dev q k v out st h = (status, h') \<Longrightarrow> ck_inv s h'"
    and "ck_tile_call tsh dev q k v out qs st h = (status, h') \<Longrightarrow> ck_inv s h'"
proof -
  note A = attention_inv [OF inv]
  have q: "launch_bf16_qkv dev q k v out st n h = (status, h') \<Longrightarrow> ck_inv s h'" for n
    using inv A by (auto simp: launch_bf16_qkv_def split: if_splits)
  have c: "launch_bf16_long_chunk8192 dev q k v out st n h = (status, h') \<Longrightarrow> ck_inv s h'" for n
    using inv chunk_loop_inv [OF inv] by (auto simp: launch_bf16_long_chunk8192_def split: if_splits)
  have t: "launch_bf16_long_tile8192 dev q k v out qs st n h = (status, h') \<Longrightarrow> ck_inv s h'" for n
    using inv A unfolding launch_bf16_long_tile8192_def Let_def by (auto split: if_splits)
  show "ck_bf16_call bsh dev q k v out st h = (status, h') \<Longrightarrow> ck_inv s h'"
    using inv A q by (cases bsh) (auto simp: ck_exports split: if_splits)
  show "ck_chunk_call csh dev q k v out st h = (status, h') \<Longrightarrow> ck_inv s h'"
    using c by (cases csh) (auto simp: ck_exports)
  show "ck_tile_call tsh dev q k v out qs st h = (status, h') \<Longrightarrow> ck_inv s h'"
    using t by (cases tsh) (auto simp: ck_exports)
qed

lemma ck_release_inv:
  assumes "ck_inv s h"
  shows "ck_inv ck_initial (ck_free_all dev s h)" "live_blocks (ck_free_all dev s h) = {}"
proof -
  show lb: "live_blocks (ck_free_all dev s h) = {}"
    using assms by (auto simp: ck_free_all_live ck_inv_def ck_blocks_def split: if_splits)
  have "orderly (ck_free_all dev s h)"
    using assms by (intro ck_free_all_orderly)
      (auto simp: ck_inv_def ck_blocks_def ck_initial_def nonnull_distinct_def split: if_splits)
  with lb assms show "ck_inv ck_initial (ck_free_all dev s h)"
    by (simp add: ck_inv_def ck_free_all_live(2,3)) (simp add: ck_initial_def)
qed

lemma ck_exec_inv:
  assumes dev: "hip_sound dev" and inv: "ck_inv s h" and run: "ck_exec dev c s h = (r, s', h')"
  shows "ck_inv s' h'"
proof (cases c)
  case (CkF32 sh p out st)
  then show ?thesis
    using run launch_f32_packed_inv [OF dev inv] by (cases sh) (auto simp: ck_exports)
next
  case CkRelease
  then show ?thesis using run ck_release_inv(1) [OF inv] by (auto simp: ck_release_def)
qed (use run ck_prepare_inv [OF dev inv] ck_launch_inv [OF inv] in \<open>auto simp: ck_q8192_prepare_def split: prod.splits\<close>)

interpretation ck: device_provider ck_exec CkRelease ck_initial ck_inv
proof
  show "ck_inv ck_initial []" by (simp add: ck_inv_def) (simp add: ck_initial_def)
  show "ck_inv s' h'" if "hip_sound dev" "ck_inv s h" "ck_exec dev c s h = (r, s', h')" for dev s h c r s' h'
    using that by (rule ck_exec_inv)
  show "orderly h" if "ck_inv s h" for s h
    using that by (simp add: ck_inv_def)
  show "s' = ck_initial \<and> live_modules h' = {} \<and> live_functions h' = {} \<and> live_blocks h' = {}"
    if "hip_sound dev" "ck_inv s h" "ck_exec dev CkRelease s h = (r, s', h')" for dev s h r s' h'
    using that(2,3) ck_release_inv(2) [OF that(2)] by (auto simp: ck_release_def ck_free_all_live(2,3) ck_inv_def)
qed


section \<open>Properties\<close>

text \<open>C19. The chunked launch of a long prompt scores exactly the pairs of rows that a single causal launch over all its
  tokens scores, into the same output rows, and its chunks have as many query rows together as there are
  tokens, so that no row is computed twice. The hypothesis on the masks is the alignment of the causal diagonal
  that the generated kernel documents.\<close>

theorem chunked_attention_is_causal:
  assumes "causal_masks allows" "launch_bf16_long_chunk8192 dev q k v output st tokens h = (hipSuccess, h')"
  shows "\<exists>as. fmha_calls h' = fmha_calls h @ as \<and>
     (\<Union>a \<in> set as. scored allows a) = scored allows (ck_args dev q k v output tokens tokens Mask_Top_Left) \<and>
     (\<Sum>a\<leftarrow>as. unat (fa_seqlen_q a)) = unat tokens"
proof -
  have run: "chunk_loop dev q k v output st (unat tokens) 0 h = (hipSuccess, h')" and T: "unat tokens \<le> 262144"
    using assms(2) by (auto simp: launch_bf16_long_chunk8192_def hipSuccess_def hipErrorInvalidValue_def split: if_splits)
  from chunk_loop_calls [OF assms(1) T run] show ?thesis
    unfolding scored_top_left [OF assms(1)] by simp
qed

definition causal_alignment :: mask_semantics where
  "causal_alignment m sq sk i j =
     (case m of Mask_Top_Left \<Rightarrow> j \<le> i | Mask_Bottom_Right \<Rightarrow> int j \<le> int i + (int sk - int sq) | Mask_Other _ \<Rightarrow> False)"

lemma causal_alignment_ok: "causal_masks causal_alignment"
  by (simp add: causal_masks_def causal_alignment_def)

lemma chunk_example: "fst (launch_bf16_long_chunk8192 good_device 4096 8192 12288 16384 0 65536 []) = hipSuccess"
  by (simp add: launch_bf16_long_chunk8192_def launch_bf16_attention_def ask_def good_device_def nullptr_def ck_constants
    chunk_loop.simps [of _ _ _ _ _ _ 65536 0] chunk_loop.simps [of _ _ _ _ _ _ 65536 8192]
    chunk_loop.simps [of _ _ _ _ _ _ 65536 16384] chunk_loop.simps [of _ _ _ _ _ _ 65536 24576]
    chunk_loop.simps [of _ _ _ _ _ _ 65536 32768] chunk_loop.simps [of _ _ _ _ _ _ 65536 40960]
    chunk_loop.simps [of _ _ _ _ _ _ 65536 49152] chunk_loop.simps [of _ _ _ _ _ _ 65536 57344]
    chunk_loop.simps [of _ _ _ _ _ _ 65536 65536])

theorem chunked_attention_is_causal_witness:
  "\<exists>h' as. causal_masks causal_alignment \<and>
     launch_bf16_long_chunk8192 good_device 4096 8192 12288 16384 0 65536 [] = (hipSuccess, h') \<and>
     fmha_calls h' = as \<and> (\<Sum>a\<leftarrow>as. unat (fa_seqlen_q a)) = 65536 \<and>
     (\<Union>a \<in> set as. scored causal_alignment a) =
       scored causal_alignment (ck_args good_device 4096 8192 12288 16384 65536 65536 Mask_Top_Left)"
proof -
  obtain r h' where run: "launch_bf16_long_chunk8192 good_device 4096 8192 12288 16384 0 65536 [] = (r, h')"
    by (cases "launch_bf16_long_chunk8192 good_device 4096 8192 12288 16384 0 65536 []")
  then have r: "r = hipSuccess" using chunk_example by simp
  from chunked_attention_is_causal [OF causal_alignment_ok run [unfolded r]] causal_alignment_ok run r show ?thesis
    by (auto simp: fmha_calls_def)
qed

text \<open>C20. The packing kernel, run once for every thread of the grid the provider launches, in any order, fills the three
  arrays completely: each query, key and value is the rounded single-precision number of its token and feature,
  taken from the packed rows of 9216 numbers that hold the queries, the gates, the keys and the values; nothing
  depends on what the arrays held before, and no thread writes outside them.\<close>

theorem pack_qkv_fills:
  assumes "unat tokens \<le> 262144" "length packed = unat tokens * 9216"
    and "length (qa_q a) = unat tokens * 4096" "length (qa_k a) = unat tokens * 512" "length (qa_v a) = unat tokens * 512"
    and "set threads = {(b, t). unat b < unat (pack_grid tokens) \<and> unat t < 256}"
  shows "fold (\<lambda>(b, t). pack_qkv_kernel packed tokens b 256 t) threads a =
    \<lparr>qa_q = map (\<lambda>i. ck_f32_to_bf16 (packed ! (i div 4096 * 9216 + i mod 4096))) [0..<unat tokens * 4096],
     qa_k = map (\<lambda>i. ck_f32_to_bf16 (packed ! (i div 512 * 9216 + 8192 + i mod 512))) [0..<unat tokens * 512],
     qa_v = map (\<lambda>i. ck_f32_to_bf16 (packed ! (i div 512 * 9216 + 8704 + i mod 512))) [0..<unat tokens * 512]\<rparr>"
proof -
  let ?T = "unat tokens" and ?n = "\<lambda>(b :: u32, t :: u32). unat b * 256 + unat t"
  have "{..<?T * 5120} \<subseteq> set (map ?n threads)"
  proof
    fix j
    assume j: "j \<in> {..<?T * 5120}"
    then have d: "j div 256 < ?T * 20" by auto
    have u: "unat (of_nat (j div 256) :: u32) = j div 256" "unat (of_nat (j mod 256) :: u32) = j mod 256"
      using d assms(1) by (auto intro!: unat_of_nat_small)
    have "(of_nat (j div 256), of_nat (j mod 256)) \<in> set threads"
      using d by (simp add: assms(6) pack_grid_eq [OF assms(1)] u)
    moreover have "?n (of_nat (j div 256), of_nat (j mod 256)) = j" by (simp add: u)
    ultimately show "j \<in> set (map ?n threads)" by force
  qed
  note all = pack_steps_all [OF assms(3-5) this, of packed]
  have "fold (\<lambda>(b, t). pack_qkv_kernel packed tokens b 256 t) threads a = fold (pack_step packed ?T) (map ?n threads) a"
    unfolding fold_map by (intro fold_cong refl) (auto simp: pack_kernel_step [OF assms(1)])
  then show ?thesis
    unfolding all pack_value_q_def pack_value_k_def pack_value_v_def .
qed

definition example_threads :: "(u32 \<times> u32) list" where
  "example_threads = List.product (map of_nat [0..<20]) (map of_nat [0..<256])"

lemma set_words_below: "n \<le> 2 ^ 32 \<Longrightarrow> set (map of_nat [0..<n] :: u32 list) = {x. unat x < n}"
proof -
  assume n: "n \<le> 2 ^ 32"
  have "x \<in> of_nat ` {0..<n}" if "unat x < n" for x :: u32
    using that by (intro image_eqI [of _ _ "unat x"]) simp_all
  moreover have "unat (of_nat i :: u32) < n" if "i < n" for i
    using that n by (simp add: unat_of_nat_small)
  ultimately show ?thesis by auto
qed

lemma set_example_threads: "set example_threads = {(b, t). unat b < 20 \<and> unat t < 256}"
proof -
  have "set (map of_nat [0..<20] :: u32 list) = {x. unat x < 20}" "set (map of_nat [0..<256] :: u32 list) = {x. unat x < 256}"
    by (rule set_words_below; simp)+
  then show ?thesis unfolding example_threads_def set_product by simp
qed

theorem pack_qkv_fills_witness:
  "\<exists>a. fold (\<lambda>(b, t). pack_qkv_kernel (replicate 9216 0x3f800000) 1 b 256 t) example_threads
       \<lparr>qa_q = replicate 4096 0, qa_k = replicate 512 0, qa_v = replicate 512 0\<rparr> = a \<and>
     qa_q a ! 4095 = 0x3f80 \<and> qa_v a ! 511 = 0x3f80 \<and> length (qa_k a) = 512"
proof -
  have "set example_threads = {(b, t). unat b < unat (pack_grid 1) \<and> unat t < 256}"
    by (simp add: set_example_threads pack_grid_eq)
  from pack_qkv_fills [of 1 "replicate 9216 0x3f800000"
      "\<lparr>qa_q = replicate 4096 0, qa_k = replicate 512 0, qa_v = replicate 512 0\<rparr>" example_threads, OF _ _ _ _ _ this]
  show ?thesis
    by (simp add: ck_f32_to_bf16_def)
qed

text \<open>C34. Whatever sequence of exported functions of the attention provider a client calls and whatever the HIP runtime
  and the generated kernel answer, no device block is freed that is not live, and after the final release none is
  left.\<close>

theorem ck_session_safe:
  assumes "hip_sound dev" "run_ops ck_exec dev (ops @ [CkRelease]) ck_initial [] = (s, h)"
  shows "orderly h \<and> s = ck_initial \<and> live_blocks h = {}"
  using ck.session_safe [OF assms] by blast

theorem ck_session_safe_witness:
  "\<exists>s h. run_ops ck_exec good_device ([CkPrepare, CkF32 P8192 4096 8192 0] @ [CkRelease]) ck_initial [] = (s, h) \<and>
     orderly h \<and> live_blocks h = {} \<and> length h = 13"
proof -
  obtain s h where run: "run_ops ck_exec good_device ([CkPrepare, CkF32 P8192 4096 8192 0] @ [CkRelease]) ck_initial [] = (s, h)"
    by (cases "run_ops ck_exec good_device ([CkPrepare, CkF32 P8192 4096 8192 0] @ [CkRelease]) ck_initial []")
  have "length (snd (run_ops ck_exec good_device ([CkPrepare, CkF32 P8192 4096 8192 0] @ [CkRelease]) ck_initial [])) = 13"
    by (simp add: ck_exports ck_prepare_locked_def ck_supported_tokens_def ck_initial_def ask_def good_device_def nullptr_def
        hipSuccess_def ck_free_all_def hip_tell_eq launch_f32_packed_def launch_bf16_qkv_def launch_bf16_attention_def
        ck_release_def Let_def)
  with run ck_session_safe [OF good_device_sound run] show ?thesis by auto
qed

end
