(* ===== verification/Request_Serialization.thy ===== *)
theory Request_Serialization
  imports QRT_Prelude
begin

text \<open>
  The per-engine request serialization of \<^verbatim>\<open>native/src/qrt.c\<close>
  (\<open>qrt_engine_request_serialization_acquire\<close>, \<open>_release\<close> and \<open>_snapshot_v1\<close>): a recursive critical
  section with an owner, a recursion depth, and a ticket per outermost request. The fields have the
  widths of the source.

  A thread that has to wait takes no step; what the code reads while it waits, the clock and whether
  \<open>TryEnterCriticalSection\<close> failed, are arguments of the step that enters.
\<close>

section \<open>State\<close>

text \<open>The Windows critical section: its owner and how often the owner has entered it.\<close>

record critical_section =
  cs_owner :: "u32 option"
  cs_entries :: nat

text \<open>The fields \<open>request_serialization_\<dots>\<close> of the engine.\<close>

record serialization =
  rs_mutex :: critical_section
  rs_initialized :: bool
  rs_owner_thread_id :: u32
  rs_recursion_depth :: u32
  rs_active_top_level_calls :: u32
  rs_maximum_active_top_level_calls :: u32
  rs_current_operation :: u32
  rs_ticket_clock :: u64
  rs_current_ticket :: u64
  rs_last_completed_ticket :: u64
  rs_acquisition_count :: u64
  rs_completion_count :: u64
  rs_contended_acquisition_count :: u64
  rs_recursive_acquisition_count :: u64
  rs_completion_order_violation_count :: u64
  rs_total_wait_ns :: u64
  rs_maximum_wait_ns :: u64
  rs_ordinary_request_count :: u64
  rs_prefix_request_count :: u64
  rs_prefix_fallback_request_count :: u64
  rs_prefix_reset_count :: u64
  rs_stream_request_count :: u64

record guard =
  g_ticket :: u64
  g_locked :: bool
  g_outermost :: bool

text \<open>After \<open>calloc\<close> of the engine and \<open>InitializeCriticalSection\<close>.\<close>

definition new_serialization :: serialization where
  "new_serialization =
     \<lparr>rs_mutex = \<lparr>cs_owner = None, cs_entries = 0\<rparr>, rs_initialized = True, rs_owner_thread_id = 0,
      rs_recursion_depth = 0, rs_active_top_level_calls = 0, rs_maximum_active_top_level_calls = 0,
      rs_current_operation = 0, rs_ticket_clock = 0, rs_current_ticket = 0, rs_last_completed_ticket = 0,
      rs_acquisition_count = 0, rs_completion_count = 0, rs_contended_acquisition_count = 0,
      rs_recursive_acquisition_count = 0, rs_completion_order_violation_count = 0, rs_total_wait_ns = 0,
      rs_maximum_wait_ns = 0, rs_ordinary_request_count = 0, rs_prefix_request_count = 0,
      rs_prefix_fallback_request_count = 0, rs_prefix_reset_count = 0, rs_stream_request_count = 0\<rparr>"

definition empty_guard :: guard where
  "empty_guard = \<lparr>g_ticket = 0, g_locked = False, g_outermost = False\<rparr>"

definition can_enter :: "u32 \<Rightarrow> critical_section \<Rightarrow> bool" where
  "can_enter thread c \<longleftrightarrow> cs_owner c = None \<or> cs_owner c = Some thread"

definition enter :: "u32 \<Rightarrow> critical_section \<Rightarrow> critical_section" where
  "enter thread c = \<lparr>cs_owner = Some thread, cs_entries = cs_entries c + 1\<rparr>"

definition leave :: "critical_section \<Rightarrow> critical_section" where
  "leave c = (if cs_entries c \<le> 1 then \<lparr>cs_owner = None, cs_entries = 0\<rparr> else c\<lparr>cs_entries := cs_entries c - 1\<rparr>)"

section \<open>Operations\<close>

definition OPERATION_ORDINARY :: u32 where "OPERATION_ORDINARY = 1"
definition OPERATION_PREFIX :: u32 where "OPERATION_PREFIX = 2"
definition OPERATION_PREFIX_FALLBACK :: u32 where "OPERATION_PREFIX_FALLBACK = 3"
definition OPERATION_PREFIX_RESET :: u32 where "OPERATION_PREFIX_RESET = 4"
definition OPERATION_STREAM :: u32 where "OPERATION_STREAM = 5"

lemmas operations = OPERATION_ORDINARY_def OPERATION_PREFIX_def OPERATION_PREFIX_FALLBACK_def
  OPERATION_PREFIX_RESET_def OPERATION_STREAM_def

definition count_violation :: "serialization \<Rightarrow> serialization" where
  "count_violation s = s\<lparr>rs_completion_order_violation_count := rs_completion_order_violation_count s + 1\<rparr>"

definition count_operation :: "u32 \<Rightarrow> serialization \<Rightarrow> serialization" where
  "count_operation op s =
     (if op = OPERATION_ORDINARY then s\<lparr>rs_ordinary_request_count := rs_ordinary_request_count s + 1\<rparr>
      else if op = OPERATION_PREFIX then s\<lparr>rs_prefix_request_count := rs_prefix_request_count s + 1\<rparr>
      else if op = OPERATION_PREFIX_FALLBACK then s\<lparr>rs_prefix_fallback_request_count := rs_prefix_fallback_request_count s + 1\<rparr>
      else if op = OPERATION_PREFIX_RESET then s\<lparr>rs_prefix_reset_count := rs_prefix_reset_count s + 1\<rparr>
      else if op = OPERATION_STREAM then s\<lparr>rs_stream_request_count := rs_stream_request_count s + 1\<rparr>
      else count_violation s)"

text \<open>
  \<open>qrt_engine_request_serialization_acquire\<close> by a thread that can enter. \<open>None\<close> is the return value 0,
  which leaves the guard cleared. \<open>contended\<close> and \<open>wait_ns\<close> are what the attempt measured.
\<close>

definition serialization_acquire ::
  "u32 \<Rightarrow> u32 \<Rightarrow> bool \<Rightarrow> u64 \<Rightarrow> serialization \<Rightarrow> (guard \<times> serialization) option" where
  "serialization_acquire thread op contended wait_ns s =
     (if \<not> rs_initialized s then None
      else
        let s = s\<lparr>rs_mutex := enter thread (rs_mutex s)\<rparr>;
            guard = empty_guard\<lparr>g_locked := True\<rparr>
        in if rs_owner_thread_id s = thread \<and> rs_recursion_depth s \<noteq> 0
           then Some (guard, s\<lparr>rs_recursion_depth := rs_recursion_depth s + 1,
                               rs_recursive_acquisition_count := rs_recursive_acquisition_count s + 1\<rparr>)
           else
             let s = (if rs_owner_thread_id s \<noteq> 0 \<or> rs_recursion_depth s \<noteq> 0 \<or> rs_active_top_level_calls s \<noteq> 0 \<or>
                         rs_current_ticket s \<noteq> 0 \<or> rs_current_operation s \<noteq> 0
                      then count_violation s else s);
                 s = s\<lparr>rs_owner_thread_id := thread, rs_recursion_depth := 1, rs_active_top_level_calls := 1\<rparr>;
                 s = (if rs_maximum_active_top_level_calls s < 1
                      then s\<lparr>rs_maximum_active_top_level_calls := 1\<rparr> else s);
                 s = s\<lparr>rs_current_operation := op, rs_ticket_clock := rs_ticket_clock s + 1\<rparr>;
                 guard = guard\<lparr>g_ticket := rs_ticket_clock s\<rparr>;
                 s = s\<lparr>rs_current_ticket := g_ticket guard, rs_acquisition_count := rs_acquisition_count s + 1\<rparr>;
                 s = (if contended
                      then s\<lparr>rs_contended_acquisition_count := rs_contended_acquisition_count s + 1\<rparr> else s);
                 s = s\<lparr>rs_total_wait_ns := rs_total_wait_ns s + wait_ns\<rparr>;
                 s = (if wait_ns > rs_maximum_wait_ns s then s\<lparr>rs_maximum_wait_ns := wait_ns\<rparr> else s);
                 s = count_operation op s
             in Some (guard\<lparr>g_outermost := True\<rparr>, s))"

text \<open>\<open>qrt_engine_request_serialization_release\<close>; the guard is cleared and not used again.\<close>

definition serialization_release :: "u32 \<Rightarrow> guard \<Rightarrow> serialization \<Rightarrow> serialization" where
  "serialization_release thread guard s =
     (if \<not> g_locked guard then s
      else if rs_owner_thread_id s \<noteq> thread \<or> rs_recursion_depth s = 0
      then let s = count_violation s in s\<lparr>rs_mutex := leave (rs_mutex s)\<rparr>
      else if \<not> g_outermost guard
      then s\<lparr>rs_recursion_depth := rs_recursion_depth s - 1, rs_mutex := leave (rs_mutex s)\<rparr>
      else
        let s = (if rs_recursion_depth s \<noteq> 1 \<or> rs_active_top_level_calls s \<noteq> 1 \<or>
                    rs_current_ticket s \<noteq> g_ticket guard \<or> g_ticket guard \<noteq> rs_last_completed_ticket s + 1
                 then count_violation s else s)
        in s\<lparr>rs_completion_count := rs_completion_count s + 1,
             rs_last_completed_ticket := g_ticket guard,
             rs_owner_thread_id := 0,
             rs_recursion_depth := 0,
             rs_active_top_level_calls := 0,
             rs_current_operation := 0,
             rs_current_ticket := 0,
             rs_mutex := leave (rs_mutex s)\<rparr>)"

text \<open>
  The verdict of \<open>qrt_engine_request_serialization_snapshot_v1\<close> on a ready engine, taken inside the critical
  section; the counters it copies out are those of the state.
\<close>

definition serialization_snapshot :: "serialization \<Rightarrow> bool" where
  "serialization_snapshot s \<longleftrightarrow>
     rs_initialized s \<and>
     \<not> (rs_active_top_level_calls s > 1 \<or> rs_maximum_active_top_level_calls s > 1 \<or>
        rs_recursion_depth s \<noteq> 0 \<or> rs_current_operation s \<noteq> 0 \<or> rs_current_ticket s \<noteq> 0 \<or>
        rs_completion_count s \<noteq> rs_acquisition_count s \<or>
        rs_last_completed_ticket s \<noteq> rs_ticket_clock s \<or>
        rs_ordinary_request_count s + rs_prefix_request_count s + rs_prefix_fallback_request_count s +
          rs_prefix_reset_count s + rs_stream_request_count s \<noteq> rs_acquisition_count s)"

section \<open>Threads\<close>

text \<open>
  The clients hold their guards in local variables of nested C functions, innermost first: a thread
  releases the guard it acquired last. A guard lives in a stack frame, so a thread never
  holds more than 32 bits can count. \<open>finished\<close> records the tickets of completed outermost requests, \<open>started\<close> the operation, the
  contention and the waiting time of every outermost request, latest first, and \<open>nested\<close> counts the acquisitions inside a request.
\<close>

record client_state =
  engine_lock :: serialization
  open_guards :: "u32 \<Rightarrow> guard list"
  finished :: "u64 list"
  started :: "(u32 \<times> bool \<times> u64) list"
  nested :: nat

inductive client_step :: "client_state \<Rightarrow> client_state \<Rightarrow> bool" where
  acquire: "thread \<noteq> 0 \<Longrightarrow> can_enter thread (rs_mutex (engine_lock c)) \<Longrightarrow>
    op \<in> {OPERATION_ORDINARY, OPERATION_PREFIX, OPERATION_PREFIX_FALLBACK, OPERATION_PREFIX_RESET, OPERATION_STREAM} \<Longrightarrow>
    length (open_guards c thread) < 2 ^ 32 - 1 \<Longrightarrow>
    serialization_acquire thread op contended wait_ns (engine_lock c) = Some (guard, s) \<Longrightarrow>
    client_step c (c\<lparr>engine_lock := s, open_guards := (open_guards c)(thread := guard # open_guards c thread),
                     started := (if g_outermost guard then (op, contended, wait_ns) # started c else started c),
                     nested := (if g_outermost guard then nested c else nested c + 1)\<rparr>)"
| release: "open_guards c thread = guard # guards \<Longrightarrow>
    client_step c (c\<lparr>engine_lock := serialization_release thread guard (engine_lock c),
                     open_guards := (open_guards c)(thread := guards),
                     finished := (if g_outermost guard then finished c @ [g_ticket guard] else finished c)\<rparr>)"

inductive_cases client_stepE: "client_step c d"

definition client_start :: "client_state \<Rightarrow> bool" where
  "client_start c \<longleftrightarrow> c = \<lparr>engine_lock = new_serialization, open_guards = (\<lambda>_. []), finished = [], started = [], nested = 0\<rparr>"

section \<open>Invariant\<close>

definition operation_total :: "serialization \<Rightarrow> u64" where
  "operation_total s = rs_ordinary_request_count s + rs_prefix_request_count s + rs_prefix_fallback_request_count s +
     rs_prefix_reset_count s + rs_stream_request_count s"

text \<open>The bookkeeping when no request is open, and when \<open>thread\<close> holds \<open>guards\<close>.\<close>

definition lock_idle :: "serialization \<Rightarrow> bool" where
  "lock_idle s \<longleftrightarrow>
     rs_mutex s = \<lparr>cs_owner = None, cs_entries = 0\<rparr> \<and> rs_owner_thread_id s = 0 \<and> rs_recursion_depth s = 0 \<and>
     rs_active_top_level_calls s = 0 \<and> rs_current_operation s = 0 \<and> rs_current_ticket s = 0 \<and>
     rs_last_completed_ticket s = rs_ticket_clock s \<and> rs_completion_count s = rs_acquisition_count s"

definition lock_held :: "u32 \<Rightarrow> guard list \<Rightarrow> serialization \<Rightarrow> bool" where
  "lock_held thread guards s \<longleftrightarrow>
     thread \<noteq> 0 \<and> guards \<noteq> [] \<and> length guards < 2 ^ 32 \<and>
     rs_mutex s = \<lparr>cs_owner = Some thread, cs_entries = length guards\<rparr> \<and> rs_owner_thread_id s = thread \<and>
     rs_recursion_depth s = of_nat (length guards) \<and> rs_active_top_level_calls s = 1 \<and> rs_current_operation s \<noteq> 0 \<and>
     rs_current_ticket s = rs_ticket_clock s \<and> rs_ticket_clock s = rs_last_completed_ticket s + 1 \<and>
     rs_acquisition_count s = rs_completion_count s + 1 \<and>
     (\<forall>g \<in> set guards. g_locked g) \<and> (\<forall>g \<in> set (butlast guards). \<not> g_outermost g) \<and>
     g_outermost (last guards) \<and> g_ticket (last guards) = rs_ticket_clock s"

definition lock_common :: "serialization \<Rightarrow> bool" where
  "lock_common s \<longleftrightarrow>
     rs_initialized s \<and> rs_completion_order_violation_count s = 0 \<and> rs_maximum_active_top_level_calls s \<le> 1 \<and>
     operation_total s = rs_acquisition_count s \<and> rs_acquisition_count s = rs_ticket_clock s"

definition ticket_order :: "u64 list \<Rightarrow> bool" where
  "ticket_order ts \<longleftrightarrow> ts = map (\<lambda>n. of_nat (Suc n)) [0..<length ts]"

lemma ticket_order_append: "ticket_order ts \<Longrightarrow> t = of_nat (Suc (length ts)) \<Longrightarrow> ticket_order (ts @ [t])"
  by (simp add: ticket_order_def)

text \<open>Every counter of acquisitions is what the requests so far add up to.\<close>

definition requests_of :: "u32 \<Rightarrow> (u32 \<times> bool \<times> u64) list \<Rightarrow> u64" where
  "requests_of op rs = of_nat (length (filter (\<lambda>(p, _, _). p = op) rs))"

definition counters_ok :: "serialization \<Rightarrow> (u32 \<times> bool \<times> u64) list \<Rightarrow> nat \<Rightarrow> bool" where
  "counters_ok s rs n \<longleftrightarrow>
     rs_acquisition_count s = of_nat (length rs) \<and>
     rs_recursive_acquisition_count s = of_nat n \<and>
     rs_contended_acquisition_count s = of_nat (length (filter (\<lambda>(_, contended, _). contended) rs)) \<and>
     rs_total_wait_ns s = sum_list (map (\<lambda>(_, _, wait_ns). wait_ns) rs) \<and>
     rs_maximum_wait_ns s = foldr max (map (\<lambda>(_, _, wait_ns). wait_ns) rs) 0 \<and>
     rs_ordinary_request_count s = requests_of OPERATION_ORDINARY rs \<and>
     rs_prefix_request_count s = requests_of OPERATION_PREFIX rs \<and>
     rs_prefix_fallback_request_count s = requests_of OPERATION_PREFIX_FALLBACK rs \<and>
     rs_prefix_reset_count s = requests_of OPERATION_PREFIX_RESET rs \<and>
     rs_stream_request_count s = requests_of OPERATION_STREAM rs"

definition client_inv :: "client_state \<Rightarrow> bool" where
  "client_inv c \<longleftrightarrow>
     lock_common (engine_lock c) \<and> counters_ok (engine_lock c) (started c) (nested c) \<and>
     ticket_order (finished c) \<and>
     rs_last_completed_ticket (engine_lock c) = of_nat (length (finished c)) \<and>
     ((\<forall>t. open_guards c t = []) \<and> lock_idle (engine_lock c) \<or>
      (\<exists>t. lock_held t (open_guards c t) (engine_lock c) \<and> (\<forall>u. u \<noteq> t \<longrightarrow> open_guards c u = [])))"

lemma count_operation_total:
  assumes "op \<in> {OPERATION_ORDINARY, OPERATION_PREFIX, OPERATION_PREFIX_FALLBACK, OPERATION_PREFIX_RESET, OPERATION_STREAM}"
  shows "operation_total (count_operation op s) = operation_total s + 1"
    and "rs_completion_order_violation_count (count_operation op s) = rs_completion_order_violation_count s"
  using assms by (auto simp: count_operation_def operation_total_def operations)

lemma count_operation_keeps [simp]:
  "rs_mutex (count_operation op s) = rs_mutex s"
  "rs_initialized (count_operation op s) = rs_initialized s"
  "rs_owner_thread_id (count_operation op s) = rs_owner_thread_id s"
  "rs_recursion_depth (count_operation op s) = rs_recursion_depth s"
  "rs_active_top_level_calls (count_operation op s) = rs_active_top_level_calls s"
  "rs_maximum_active_top_level_calls (count_operation op s) = rs_maximum_active_top_level_calls s"
  "rs_current_operation (count_operation op s) = rs_current_operation s"
  "rs_ticket_clock (count_operation op s) = rs_ticket_clock s"
  "rs_current_ticket (count_operation op s) = rs_current_ticket s"
  "rs_last_completed_ticket (count_operation op s) = rs_last_completed_ticket s"
  "rs_acquisition_count (count_operation op s) = rs_acquisition_count s"
  "rs_completion_count (count_operation op s) = rs_completion_count s"
  by (simp_all add: count_operation_def count_violation_def)

text \<open>A first acquisition takes the next ticket; a nested one only counts.\<close>

lemma acquire_idle:
  assumes "serialization_acquire thread op contended wait_ns s = Some (guard, s')" "lock_idle s" "lock_common s" "thread \<noteq> 0"
    and op: "op \<in> {OPERATION_ORDINARY, OPERATION_PREFIX, OPERATION_PREFIX_FALLBACK, OPERATION_PREFIX_RESET, OPERATION_STREAM}"
  shows "lock_held thread [guard] s' \<and> lock_common s' \<and> rs_last_completed_ticket s' = rs_last_completed_ticket s"
proof -
  have "op \<noteq> 0" using op by (auto simp: operations)
  moreover have "operation_total (s\<lparr>rs_mutex := m, rs_owner_thread_id := t, rs_recursion_depth := d, rs_active_top_level_calls := a,
      rs_maximum_active_top_level_calls := x, rs_current_operation := p, rs_ticket_clock := k, rs_current_ticket := c,
      rs_acquisition_count := q, rs_contended_acquisition_count := n, rs_total_wait_ns := w, rs_maximum_wait_ns := v\<rparr>)
    = operation_total s" for m t d a x p k c q n w v by (simp add: operation_total_def)
  ultimately show ?thesis
    using assms(1-4) count_operation_total [OF op]
    by (auto simp: serialization_acquire_def Let_def lock_idle_def lock_common_def lock_held_def empty_guard_def enter_def
        operation_total_def split: if_splits)
qed

lemma acquire_held:
  assumes "serialization_acquire thread op contended wait_ns s = Some (guard, s')" "lock_held thread guards s" "lock_common s"
    and "length guards < 2 ^ 32 - 1"
  shows "lock_held thread (guard # guards) s' \<and> lock_common s' \<and> rs_last_completed_ticket s' = rs_last_completed_ticket s"
proof -
  have "unat (rs_recursion_depth s) = length guards"
    using assms(2) by (simp add: lock_held_def unsigned_of_nat take_bit_nat_eq_self)
  then have "rs_recursion_depth s \<noteq> 0" using assms(2) by (auto simp: lock_held_def)
  then show ?thesis
    using assms
    by (auto simp: serialization_acquire_def Let_def lock_common_def lock_held_def empty_guard_def enter_def
        operation_total_def split: if_splits)
qed

text \<open>Releasing an inner guard keeps the request open; releasing the outermost one completes it.\<close>

lemma release_held:
  assumes "lock_held thread (guard # guards) s" "lock_common s"
  defines "s' \<equiv> serialization_release thread guard s"
  shows "lock_common s' \<and>
    (if guards = [] then lock_idle s' \<and> rs_last_completed_ticket s' = rs_last_completed_ticket s + 1 \<and>
       g_outermost guard \<and> g_ticket guard = rs_last_completed_ticket s + 1
     else lock_held thread guards s' \<and> rs_last_completed_ticket s' = rs_last_completed_ticket s \<and> \<not> g_outermost guard)"
proof -
  have d: "unat (rs_recursion_depth s) = Suc (length guards)"
    using assms(1) by (simp only: lock_held_def unsigned_of_nat length_Cons) (simp add: take_bit_nat_eq_self)
  then have "rs_recursion_depth s \<noteq> 0" by auto
  moreover have "rs_recursion_depth s = 1 \<longleftrightarrow> guards = []"
    using d by (auto simp: word_unat_eq_iff)
  moreover have "rs_recursion_depth s - 1 = of_nat (length guards)"
    using assms(1) by (simp add: lock_held_def)
  ultimately show ?thesis
    using assms(1,2)
    by (auto simp: s'_def serialization_release_def Let_def lock_common_def lock_held_def lock_idle_def leave_def
        operation_total_def)
qed

lemma count_operation_counts:
  "rs_ordinary_request_count (count_operation op s) = rs_ordinary_request_count s + (if op = OPERATION_ORDINARY then 1 else 0)"
  "rs_prefix_request_count (count_operation op s) = rs_prefix_request_count s + (if op = OPERATION_PREFIX then 1 else 0)"
  "rs_prefix_fallback_request_count (count_operation op s) = rs_prefix_fallback_request_count s + (if op = OPERATION_PREFIX_FALLBACK then 1 else 0)"
  "rs_prefix_reset_count (count_operation op s) = rs_prefix_reset_count s + (if op = OPERATION_PREFIX_RESET then 1 else 0)"
  "rs_stream_request_count (count_operation op s) = rs_stream_request_count s + (if op = OPERATION_STREAM then 1 else 0)"
  "rs_recursive_acquisition_count (count_operation op s) = rs_recursive_acquisition_count s"
  "rs_contended_acquisition_count (count_operation op s) = rs_contended_acquisition_count s"
  "rs_total_wait_ns (count_operation op s) = rs_total_wait_ns s"
  "rs_maximum_wait_ns (count_operation op s) = rs_maximum_wait_ns s"
  by (simp_all add: count_operation_def count_violation_def operations)

lemma counters_acquire:
  assumes "serialization_acquire thread op contended wait_ns s = Some (guard, s')" "counters_ok s rs n"
  shows "counters_ok s' (if g_outermost guard then (op, contended, wait_ns) # rs else rs) (if g_outermost guard then n else n + 1)"
proof (cases "rs_owner_thread_id s = thread \<and> rs_recursion_depth s \<noteq> 0")
  case True
  then show ?thesis
    using assms by (auto simp: serialization_acquire_def counters_ok_def empty_guard_def Let_def split: if_splits)
next
  case False
  let ?m = "s\<lparr>rs_mutex := enter thread (rs_mutex s)\<rparr>"
  define b where "b = (if rs_owner_thread_id ?m \<noteq> 0 \<or> rs_recursion_depth ?m \<noteq> 0 \<or> rs_active_top_level_calls ?m \<noteq> 0 \<or>
    rs_current_ticket ?m \<noteq> 0 \<or> rs_current_operation ?m \<noteq> 0 then count_violation ?m else ?m)"
  have b: "counters_ok b rs n" using assms(2) by (simp add: b_def counters_ok_def count_violation_def)
  from assms(1) False have "g_outermost guard" and s': "s' = count_operation op
     (let s = b\<lparr>rs_owner_thread_id := thread, rs_recursion_depth := 1, rs_active_top_level_calls := 1\<rparr>;
          s = (if rs_maximum_active_top_level_calls s < 1 then s\<lparr>rs_maximum_active_top_level_calls := 1\<rparr> else s);
          s = s\<lparr>rs_current_operation := op, rs_ticket_clock := rs_ticket_clock s + 1\<rparr>;
          s = s\<lparr>rs_current_ticket := rs_ticket_clock s, rs_acquisition_count := rs_acquisition_count s + 1\<rparr>;
          s = (if contended then s\<lparr>rs_contended_acquisition_count := rs_contended_acquisition_count s + 1\<rparr> else s);
          s = s\<lparr>rs_total_wait_ns := rs_total_wait_ns s + wait_ns\<rparr>
      in if wait_ns > rs_maximum_wait_ns s then s\<lparr>rs_maximum_wait_ns := wait_ns\<rparr> else s)"
    unfolding serialization_acquire_def b_def by (auto simp: empty_guard_def Let_def split: if_splits)
  then show ?thesis
    using b unfolding s' Let_def
    by (auto simp: counters_ok_def count_operation_counts requests_of_def max_def)
qed

lemma counters_release: "counters_ok (serialization_release thread guard s) rs n \<longleftrightarrow> counters_ok s rs n"
  by (simp add: serialization_release_def counters_ok_def count_violation_def Let_def)

lemma client_inv_acquire:
  assumes "client_inv c" "thread \<noteq> 0" "can_enter thread (rs_mutex (engine_lock c))"
    and "op \<in> {OPERATION_ORDINARY, OPERATION_PREFIX, OPERATION_PREFIX_FALLBACK, OPERATION_PREFIX_RESET, OPERATION_STREAM}"
    and "length (open_guards c thread) < 2 ^ 32 - 1"
    and acq: "serialization_acquire thread op contended wait_ns (engine_lock c) = Some (guard, s)"
  shows "client_inv (c\<lparr>engine_lock := s, open_guards := (open_guards c)(thread := guard # open_guards c thread),
    started := (if g_outermost guard then (op, contended, wait_ns) # started c else started c),
    nested := (if g_outermost guard then nested c else nested c + 1)\<rparr>)" (is "client_inv ?d")
proof -
  have counters: "counters_ok (engine_lock ?d) (started ?d) (nested ?d)" using counters_acquire [OF acq] assms(1) by (simp add: client_inv_def)
  have common: "lock_common (engine_lock c)" using assms(1) by (simp add: client_inv_def)
  consider (idle) "\<forall>t. open_guards c t = []" "lock_idle (engine_lock c)"
    | (held) t where "lock_held t (open_guards c t) (engine_lock c)" "\<forall>u. u \<noteq> t \<longrightarrow> open_guards c u = []"
    using assms(1) by (auto simp: client_inv_def)
  then show ?thesis
  proof cases
    case idle
    from acquire_idle [OF acq idle(2) common assms(2,4)] idle assms(1) counters
    show ?thesis by (auto simp: client_inv_def intro!: exI [of _ thread])
  next
    case held
    then have "t = thread" using assms(3) by (simp add: lock_held_def can_enter_def)
    with acquire_held [OF acq _ common assms(5)] held assms(1) counters
    show ?thesis by (auto simp: client_inv_def intro!: exI [of _ thread])
  qed
qed

lemma client_inv_release:
  assumes "client_inv c" and top: "open_guards c thread = guard # guards"
  shows "client_inv (c\<lparr>engine_lock := serialization_release thread guard (engine_lock c),
      open_guards := (open_guards c)(thread := guards),
      finished := (if g_outermost guard then finished c @ [g_ticket guard] else finished c)\<rparr>)"
proof -
  from assms obtain t where t: "lock_held t (open_guards c t) (engine_lock c)" "\<forall>u. u \<noteq> t \<longrightarrow> open_guards c u = []"
    by (auto simp: client_inv_def)
  with top have "t = thread" by force
  with t top have held: "lock_held thread (guard # guards) (engine_lock c)" and others: "\<forall>u. u \<noteq> thread \<longrightarrow> open_guards c u = []"
    by auto
  have counters: "counters_ok (serialization_release thread guard (engine_lock c)) (started c) (nested c)"
    using counters_release assms(1) by (simp add: client_inv_def)
  have common: "lock_common (engine_lock c)"
    and fin: "ticket_order (finished c)"
    and last: "rs_last_completed_ticket (engine_lock c) = of_nat (length (finished c))"
    using assms(1) by (simp_all add: client_inv_def)
  show ?thesis
    using release_held [OF held common] others fin last counters
    by (cases "guards = []") (auto simp: client_inv_def intro!: exI [of _ thread] ticket_order_append)
qed

interpretation request_lock: invariant_system client_start client_step client_inv
proof
  fix c
  assume "client_start c"
  then show "client_inv c"
    by (simp add: client_start_def client_inv_def lock_common_def lock_idle_def new_serialization_def operation_total_def ticket_order_def
        counters_ok_def requests_of_def)
next
  fix c d
  assume "client_inv c" and step: "client_step c d"
  from step show "client_inv d"
  proof cases
    case (acquire thread op contended wait_ns guard s)
    with client_inv_acquire [OF \<open>client_inv c\<close>] show ?thesis by blast
  next
    case (release thread guard guards)
    with client_inv_release [OF \<open>client_inv c\<close>] show ?thesis by blast
  qed
qed

section \<open>What serialization guarantees\<close>

text \<open>C11. However the threads interleave and nest the requests that take the serialization: at most one thread is inside such a request, its
  recursion depth and the owner are recorded, requests complete in the order of their tickets,
  one after the other without gaps, the code never counts a violation of the completion order, and every counter adds up: acquisitions,
  completions, nested and contended acquisitions, waiting times, and the requests of each kind.\<close>

theorem requests_serialized:
  assumes "reach client_start client_step c"
  shows "(open_guards c t \<noteq> [] \<longrightarrow> open_guards c u \<noteq> [] \<longrightarrow> t = u) \<and>
    (open_guards c t \<noteq> [] \<longrightarrow> rs_owner_thread_id (engine_lock c) = t \<and>
       unat (rs_recursion_depth (engine_lock c)) = length (open_guards c t) \<and>
       g_ticket (last (open_guards c t)) = of_nat (Suc (length (finished c)))) \<and>
    ticket_order (finished c) \<and>
    rs_completion_order_violation_count (engine_lock c) = 0 \<and>
    rs_completion_count (engine_lock c) = of_nat (length (finished c)) \<and>
    counters_ok (engine_lock c) (started c) (nested c)"
proof -
  have inv: "client_inv c" by (rule request_lock.inv_reach [OF assms])
  then have fin: "ticket_order (finished c)"
    and zero: "rs_completion_order_violation_count (engine_lock c) = 0"
    and last: "rs_last_completed_ticket (engine_lock c) = of_nat (length (finished c))"
    by (simp_all add: client_inv_def lock_common_def)
  have counts: "counters_ok (engine_lock c) (started c) (nested c)" "rs_completion_count (engine_lock c) = of_nat (length (finished c))"
    using inv by (auto simp: client_inv_def lock_common_def lock_idle_def lock_held_def)
  consider "\<forall>t. open_guards c t = []"
    | v where "lock_held v (open_guards c v) (engine_lock c)" "\<forall>w. w \<noteq> v \<longrightarrow> open_guards c w = []"
    using inv by (auto simp: client_inv_def)
  then show ?thesis
  proof cases
    case 1
    then show ?thesis using zero fin counts by simp
  next
    case 2
    then have "unat (rs_recursion_depth (engine_lock c)) = length (open_guards c v)"
      by (simp add: lock_held_def unsigned_of_nat take_bit_nat_eq_self)
    moreover have "rs_owner_thread_id (engine_lock c) = v"
      and "g_ticket (last (open_guards c v)) = of_nat (Suc (length (finished c)))"
      using 2(1) last by (simp_all add: lock_held_def)
    moreover have "open_guards c x \<noteq> [] \<Longrightarrow> x = v" for x using 2(2) by blast
    ultimately show ?thesis
      using zero fin counts by metis
  qed
qed

text \<open>A thread with one open stream request.\<close>

definition example_client :: client_state where
  "example_client =
     \<lparr>engine_lock = snd (the (serialization_acquire 7 OPERATION_STREAM False 0 new_serialization)),
      open_guards = (\<lambda>_. [])(7 := [fst (the (serialization_acquire 7 OPERATION_STREAM False 0 new_serialization))]),
      finished = [], started = [(OPERATION_STREAM, False, 0)], nested = 0\<rparr>"

lemma example_client_reach: "reach client_start client_step example_client"
proof (rule reach_step)
  let ?c = "\<lparr>engine_lock = new_serialization, open_guards = (\<lambda>_. []), finished = [], started = [], nested = 0\<rparr>"
  let ?a = "serialization_acquire 7 OPERATION_STREAM False 0 new_serialization"
  show "reach client_start client_step ?c" by (rule reach_initial) (simp add: client_start_def)
  have "?a = Some (fst (the ?a), snd (the ?a))"
    by (simp add: serialization_acquire_def new_serialization_def Let_def)
  then have "client_step ?c (?c\<lparr>engine_lock := snd (the ?a), open_guards := (open_guards ?c)(7 := fst (the ?a) # open_guards ?c 7),
      started := (if g_outermost (fst (the ?a)) then (OPERATION_STREAM, False, 0) # started ?c else started ?c),
      nested := (if g_outermost (fst (the ?a)) then nested ?c else nested ?c + 1)\<rparr>)"
    by (intro client_step.acquire) (simp_all add: new_serialization_def can_enter_def)
  moreover have "g_outermost (fst (the ?a))" by (simp add: serialization_acquire_def new_serialization_def Let_def)
  ultimately show "client_step ?c example_client" by (simp add: example_client_def)
qed

theorem requests_serialized_witness:
  "open_guards example_client 7 \<noteq> [] \<and> rs_owner_thread_id (engine_lock example_client) = 7 \<and>
   unat (rs_recursion_depth (engine_lock example_client)) = 1 \<and> rs_stream_request_count (engine_lock example_client) = 1 \<and>
   rs_prefix_request_count (engine_lock example_client) = 0"
proof -
  have "open_guards example_client 7 \<noteq> []" "length (open_guards example_client 7) = 1"
    "requests_of OPERATION_STREAM (started example_client) = 1" "requests_of OPERATION_PREFIX (started example_client) = 0"
    by (simp_all add: example_client_def requests_of_def operations)
  with requests_serialized [OF example_client_reach, of 7 7] show ?thesis by (simp add: counters_ok_def)
qed

text \<open>The diagnostic snapshot, by a thread that can enter the critical section, reports success exactly when
  that thread has no request of its own open, that is, exactly when the engine is idle.\<close>

theorem snapshot_detects_idle:
  assumes "reach client_start client_step c" "can_enter t (rs_mutex (engine_lock c))"
  shows "serialization_snapshot (engine_lock c) \<longleftrightarrow> open_guards c t = []"
proof -
  have inv: "client_inv c" by (rule request_lock.inv_reach [OF assms(1)])
  then have common: "lock_common (engine_lock c)" by (simp add: client_inv_def)
  consider "\<forall>t. open_guards c t = []" "lock_idle (engine_lock c)"
    | v where "lock_held v (open_guards c v) (engine_lock c)"
    using inv by (auto simp: client_inv_def)
  then show ?thesis
  proof cases
    case 1
    with common show ?thesis
      by (auto simp: serialization_snapshot_def lock_idle_def lock_common_def operation_total_def word_less_nat_alt word_le_nat_alt)
  next
    case 2
    then have "t = v" using assms(2) by (simp add: lock_held_def can_enter_def)
    with 2 show ?thesis
      by (auto simp: serialization_snapshot_def lock_held_def)
  qed
qed

theorem snapshot_detects_idle_witness: "\<not> serialization_snapshot (engine_lock example_client)"
proof -
  have "can_enter 7 (rs_mutex (engine_lock example_client))"
    by (simp add: example_client_def serialization_acquire_def new_serialization_def Let_def can_enter_def enter_def
        count_operation_def operations)
  from snapshot_detects_idle [OF example_client_reach this] show ?thesis by (simp add: example_client_def)
qed

end
