(* ===== verification/Core_Platform.thy ===== *)
theory Core_Platform
  imports QRT_Prelude "HOL-Library.Multiset"
begin

text \<open>
  What \<^verbatim>\<open>native/src/qrt.c\<close> and \<^verbatim>\<open>native/src/qrt_server_bridge.c\<close> use of the C library and of Windows:
  the heap, buffered files, file mappings, libraries and the clock answer through an environment, and every
  call is recorded. The resources that a history has acquired and not given back are read off it.
  Also here: the FNV-1a hash, little-endian bytes, C strings and the status codes.
\<close>

section \<open>Calls\<close>

datatype core_call =
    CMalloc u64
  | CCalloc u64 u64
  | CRealloc u64 u64
  | CFree u64
  | Fopen string
  | FseekEnd u64
  | Ftell u64
  | FseekSet u64 u64
  | Fread u64 u64
  | Fclose u64
  | OpenFileA string
  | SizeOfFile u64
  | OpenMapping u64
  | MapView u64 u64
  | UnmapView u64
  | CloseObject u64
  | CreateEvent
  | ReadFileAt u64 u64 u64
  | LastErrorIsPending
  | OverlappedResult u64

text \<open>
  An answer: a success flag, a pointer, handle or size, a signed number, and the bytes read or mapped.
\<close>

record core_reply =
  c_ok :: bool
  c_num :: u64
  c_int :: int
  c_bytes :: "u8 list"

type_synonym core_env = "(core_call, core_reply) environment"
type_synonym core_hist = "(core_call, core_reply) history"

definition core_tell :: "core_env \<Rightarrow> core_call \<Rightarrow> core_hist \<Rightarrow> core_hist" where
  "core_tell env c h = snd (ask env c h)"

text \<open>\<open>free\<close> of a pointer that may be null.\<close>

definition c_free :: "core_env \<Rightarrow> u64 \<Rightarrow> core_hist \<Rightarrow> core_hist" where
  "c_free env p h = (if p = nullptr then h else core_tell env (CFree p) h)"

definition invalid_file :: u64 where
  "invalid_file = - 1"

section \<open>Resources\<close>

datatype core_resource = HeapBlock u64 | CFile u64 | FileObject u64 | FileView u64

fun core_acquired_by :: "core_call \<times> core_reply \<Rightarrow> core_resource multiset" where
  "core_acquired_by (CMalloc _, r) = (if c_num r = nullptr then {#} else {#HeapBlock (c_num r)#})"
| "core_acquired_by (CCalloc _ _, r) = (if c_num r = nullptr then {#} else {#HeapBlock (c_num r)#})"
| "core_acquired_by (CRealloc _ _, r) = (if c_num r = nullptr then {#} else {#HeapBlock (c_num r)#})"
| "core_acquired_by (Fopen _, r) = (if c_num r = nullptr then {#} else {#CFile (c_num r)#})"
| "core_acquired_by (OpenFileA _, r) = (if c_num r = invalid_file then {#} else {#FileObject (c_num r)#})"
| "core_acquired_by (OpenMapping _, r) = (if c_num r = nullptr then {#} else {#FileObject (c_num r)#})"
| "core_acquired_by (CreateEvent, r) = (if c_num r = nullptr then {#} else {#FileObject (c_num r)#})"
| "core_acquired_by (MapView _ _, r) = (if c_num r = nullptr then {#} else {#FileView (c_num r)#})"
| "core_acquired_by _ = {#}"

text \<open>A successful \<open>realloc\<close> gives its old block back.\<close>

fun core_released_by :: "core_call \<times> core_reply \<Rightarrow> core_resource multiset" where
  "core_released_by (CFree p, _) = {#HeapBlock p#}"
| "core_released_by (CRealloc p _, r) = (if c_num r = nullptr \<or> p = nullptr then {#} else {#HeapBlock p#})"
| "core_released_by (Fclose f, _) = {#CFile f#}"
| "core_released_by (UnmapView a, _) = {#FileView a#}"
| "core_released_by (CloseObject f, _) = {#FileObject f#}"
| "core_released_by _ = {#}"

text \<open>\<open>core_owns h R\<close>: everything acquired in \<open>h\<close> has been given back, once, except \<open>R\<close>.\<close>

definition core_owns :: "core_hist \<Rightarrow> core_resource multiset \<Rightarrow> bool" where
  "core_owns h R \<longleftrightarrow> (\<Sum>e\<leftarrow>h. core_acquired_by e) = (\<Sum>e\<leftarrow>h. core_released_by e) + R"

definition block_resource :: "u64 \<Rightarrow> core_resource multiset" where
  "block_resource p = (if p = nullptr then {#} else {#HeapBlock p#})"

lemma core_owns_Nil [simp]: "core_owns [] R \<longleftrightarrow> R = {#}"
  by (auto simp: core_owns_def)

lemma core_owns_acquire:
  "core_released_by e = {#} \<Longrightarrow> core_owns h R \<Longrightarrow> core_owns (e # h) (core_acquired_by e + R)"
  by (simp add: core_owns_def)

lemma core_owns_release:
  "core_acquired_by e = {#} \<Longrightarrow> core_owns (e # h) R \<longleftrightarrow> core_owns h (core_released_by e + R)"
  by (simp add: core_owns_def ac_simps)

lemma core_owns_neutral:
  "core_acquired_by e = {#} \<Longrightarrow> core_released_by e = {#} \<Longrightarrow> core_owns (e # h) R \<longleftrightarrow> core_owns h R"
  by (simp add: core_owns_def)

lemma core_owns_free [simp]:
  "core_owns (core_tell env (CFree p) h) R \<longleftrightarrow> core_owns h (add_mset (HeapBlock p) R)"
  "core_owns (core_tell env (Fclose f) h) R \<longleftrightarrow> core_owns h (add_mset (CFile f) R)"
  "core_owns (core_tell env (UnmapView a) h) R \<longleftrightarrow> core_owns h (add_mset (FileView a) R)"
  "core_owns (core_tell env (CloseObject f) h) R \<longleftrightarrow> core_owns h (add_mset (FileObject f) R)"
  by (simp_all add: core_tell_def core_owns_release)

lemma core_owns_c_free [simp]: "core_owns (c_free env p h) R \<longleftrightarrow> core_owns h (block_resource p + R)"
  by (simp add: c_free_def block_resource_def)

lemma core_owns_realloc:
  "core_owns h (block_resource p + R) \<Longrightarrow> c_num r \<noteq> nullptr \<Longrightarrow>
     core_owns ((CRealloc p n, r) # h) (block_resource (c_num r) + R)"
  "c_num r = nullptr \<Longrightarrow> core_owns ((CRealloc p n, r) # h) R \<longleftrightarrow> core_owns h R"
  by (auto simp: core_owns_def block_resource_def)

lemma core_owns_calloc:
  "core_owns h R \<Longrightarrow> core_owns ((CCalloc m n, r) # h) (block_resource (c_num r) + R)"
  by (auto simp: core_owns_def block_resource_def)

lemma core_owns_malloc:
  "core_owns h R \<Longrightarrow> core_owns ((CMalloc n, r) # h) (block_resource (c_num r) + R)"
  by (auto simp: core_owns_def block_resource_def)

text \<open>
  A 64-bit Windows process has an address space of \<open>2 ^ 47\<close> bytes: a larger request is refused.
\<close>

definition heap_bounded :: "core_env \<Rightarrow> bool" where
  "heap_bounded env \<longleftrightarrow>
     (\<forall>h p n. c_num (env h (CRealloc p n)) \<noteq> nullptr \<longrightarrow> unat n \<le> 2 ^ 47)"

section \<open>Status codes\<close>

datatype qrt_status =
    STATUS_OK
  | STATUS_INVALID_ARGUMENT
  | STATUS_OUT_OF_MEMORY
  | STATUS_NOT_IMPLEMENTED
  | STATUS_UNSUPPORTED
  | STATUS_IO_ERROR
  | STATUS_PARSE_ERROR

definition qrt_strerror :: "qrt_status \<Rightarrow> string" where
  "qrt_strerror st = (case st of
     STATUS_OK \<Rightarrow> ''ok''
   | STATUS_INVALID_ARGUMENT \<Rightarrow> ''invalid_argument''
   | STATUS_OUT_OF_MEMORY \<Rightarrow> ''out_of_memory''
   | STATUS_NOT_IMPLEMENTED \<Rightarrow> ''not_implemented''
   | STATUS_UNSUPPORTED \<Rightarrow> ''unsupported''
   | STATUS_IO_ERROR \<Rightarrow> ''io_error''
   | STATUS_PARSE_ERROR \<Rightarrow> ''parse_error'')"

section \<open>Bytes and hashes\<close>

definition fnv_step :: "u64 \<Rightarrow> u8 \<Rightarrow> u64" where
  "fnv_step hash b = (hash XOR ucast b) * 1099511628211"

definition fnv1a64_update_bytes :: "u64 \<Rightarrow> u8 list \<Rightarrow> u64" where
  "fnv1a64_update_bytes hash bs = foldl fnv_step hash bs"

definition fnv1a64_bytes :: "u8 list \<Rightarrow> u64" where
  "fnv1a64_bytes bs = fnv1a64_update_bytes 1469598103934665603 bs"

text \<open>The bytes of a little-endian integer, least significant first, and of a C string.\<close>

definition le_bytes :: "nat \<Rightarrow> u64 \<Rightarrow> u8 list" where
  "le_bytes n w = map (\<lambda>i. ucast (drop_bit (8 * i) w)) [0..<n]"

definition byte_of_char :: "char \<Rightarrow> u8" where
  "byte_of_char c = of_nat (of_char c)"

definition string_bytes :: "string \<Rightarrow> u8 list" where
  "string_bytes s = map byte_of_char s"

definition token_bytes :: "u32 list \<Rightarrow> u8 list" where
  "token_bytes ts = concat (map (\<lambda>t. le_bytes 4 (ucast t)) ts)"

end
