(* ===== verification/Safetensors_Json.thy ===== *)
theory Safetensors_Json
  imports Core_Platform
begin

text \<open>
  The JSON scanner of \<^verbatim>\<open>native/src/qrt.c\<close> that reads the model index and the headers of the safetensors
  shards. A C string is the list of its characters up to the terminating zero, and a pointer into a string is the rest of
  the string from there on; of two pointers into one string the one with the shorter rest is the later. The results of
  the C functions that return 0 or a null pointer on failure are \<open>None\<close> there.
\<close>

section \<open>C library\<close>

definition quote :: char where "quote = CHR 0x22"
definition backslash_char :: char where "backslash_char = CHR 0x5C"

fun strstr :: "string \<Rightarrow> string \<Rightarrow> string option" where
  "strstr hay pat =
     (if take (length pat) hay = pat then Some hay else case hay of [] \<Rightarrow> None | _ # rest \<Rightarrow> strstr rest pat)"

declare strstr.simps [simp del]

definition strchr :: "string \<Rightarrow> char \<Rightarrow> string option" where
  "strchr s c = (case dropWhile (\<lambda>x. x \<noteq> c) s of [] \<Rightarrow> None | rest \<Rightarrow> Some rest)"

definition is_space :: "char \<Rightarrow> bool" where
  "is_space c \<longleftrightarrow> c \<in> {CHR '' '', CHR 0x09, CHR 0x0A, CHR 0x0B, CHR 0x0C, CHR 0x0D}"

definition is_digit :: "char \<Rightarrow> bool" where
  "is_digit c \<longleftrightarrow> 48 \<le> (of_char c :: nat) \<and> (of_char c :: nat) \<le> 57"

definition digits_value :: "string \<Rightarrow> nat" where
  "digits_value ds = foldl (\<lambda>n c. 10 * n + (of_char c - 48)) 0 ds"

text \<open>
  \<open>strtoull(s, &end, 10)\<close>: the value and the end pointer. White space and a sign are skipped; without a digit
  the end is the start; a value that does not fit becomes \<open>ULLONG_MAX\<close>.
\<close>

definition strtoull :: "string \<Rightarrow> u64 \<times> string" where
  "strtoull s =
     (let t = dropWhile is_space s;
          (negative, t) = (case t of c # u \<Rightarrow> if c = CHR ''-'' then (True, u) else if c = CHR ''+'' then (False, u) else (False, t)
                           | [] \<Rightarrow> (False, t));
          n = digits_value (takeWhile is_digit t)
      in if takeWhile is_digit t = [] then (0, s)
         else (if n \<ge> 2 ^ 64 then - 1 else if negative then - of_nat n else of_nat n, dropWhile is_digit t))"

section \<open>Scanning\<close>

definition is_json_ws :: "char \<Rightarrow> bool" where
  "is_json_ws c \<longleftrightarrow> c = CHR '' '' \<or> c = CHR 0x0A \<or> c = CHR 0x0D \<or> c = CHR 0x09"

definition json_skip_ws :: "string \<Rightarrow> string" where
  "json_skip_ws s = dropWhile is_json_ws s"

definition quoted :: "string \<Rightarrow> string" where
  "quoted key = quote # key @ [quote]"

definition json_find_key :: "string \<Rightarrow> string \<Rightarrow> string option" where
  "json_find_key json key = (if length key + 3 > 128 then None else strstr json (quoted key))"

definition json_read_u64 :: "string \<Rightarrow> string \<Rightarrow> u64 option" where
  "json_read_u64 json key =
     (case json_find_key json key of
        None \<Rightarrow> None
      | Some cursor \<Rightarrow>
          (case strchr cursor CHR '':'' of
             None \<Rightarrow> None
           | Some cursor \<Rightarrow>
               let cursor = json_skip_ws (tl cursor)
               in if cursor = [] \<or> \<not> is_digit (hd cursor) then None
                  else let (value, rest) = strtoull cursor in if rest = cursor then None else Some value))"

text \<open>The number of occurrences of a token; an empty token would be found for ever.\<close>

partial_function (option) json_count_token :: "string \<Rightarrow> string \<Rightarrow> nat \<Rightarrow> nat option" where
  "json_count_token json token n =
     (case strstr json token of
        None \<Rightarrow> Some n
      | Some cursor \<Rightarrow> json_count_token (drop (length token) cursor) token (n + 1))"

text \<open>
  The loop of \<open>qrt_json_parse_string\<close> after the opening quote: all decoded characters, and the rest after the
  closing quote.
\<close>

fun scan_string :: "string \<Rightarrow> (string \<times> string) option" where
  "scan_string [] = None"
| "scan_string (c # p) =
     (if c = quote then Some ([], p)
      else if c = backslash_char
      then (case p of [] \<Rightarrow> map_option (\<lambda>(v, r). (c # v, r)) (scan_string p)
            | d # p \<Rightarrow> map_option (\<lambda>(v, r). (d # v, r)) (scan_string p))
      else map_option (\<lambda>(v, r). (c # v, r)) (scan_string p))"

text \<open>The value that fits into a buffer of the given capacity, and the cursor behind the string.\<close>

definition json_parse_string :: "nat \<Rightarrow> string \<Rightarrow> (string \<times> string) option" where
  "json_parse_string capacity cursor =
     (case json_skip_ws cursor of
        [] \<Rightarrow> None
      | c # p \<Rightarrow> if c \<noteq> quote then None
                else map_option (\<lambda>(v, r). (take (capacity - 1) v, r)) (scan_string p))"

fun skip_string_body :: "bool \<Rightarrow> string \<Rightarrow> string option" where
  "skip_string_body escaped [] = None"
| "skip_string_body escaped (c # p) =
     (if escaped then skip_string_body False p
      else if c = backslash_char then skip_string_body True p
      else if c = quote then Some p
      else skip_string_body False p)"

fun skip_nested :: "int \<Rightarrow> bool \<Rightarrow> bool \<Rightarrow> string \<Rightarrow> string option" where
  "skip_nested depth in_string escaped [] = None"
| "skip_nested depth in_string escaped (c # p) =
     (if in_string
      then if escaped then skip_nested depth True False p
           else if c = backslash_char then skip_nested depth True True p
           else if c = quote then skip_nested depth False False p
           else skip_nested depth True False p
      else if c = quote then skip_nested depth True escaped p
      else if c = CHR ''{'' \<or> c = CHR ''['' then skip_nested (depth + 1) False escaped p
      else if c = CHR ''}'' \<or> c = CHR '']''
      then if depth - 1 = 0 then Some p else if depth - 1 < 0 then None else skip_nested (depth - 1) False escaped p
      else skip_nested depth False escaped p)"

definition json_skip_value :: "string \<Rightarrow> string option" where
  "json_skip_value cursor =
     (let p = json_skip_ws cursor
      in case p of
           [] \<Rightarrow> Some p
         | c # q \<Rightarrow>
             if c = quote then skip_string_body False q
             else if c = CHR ''{'' \<or> c = CHR ''['' then skip_nested 0 False False p
             else Some (dropWhile (\<lambda>x. x \<noteq> CHR '','' \<and> x \<noteq> CHR ''}'' \<and> x \<noteq> CHR '']'') p))"

text \<open>\<open>qrt_find_token_until\<close>; \<open>n\<close> is the number of characters from the cursor to the end pointer.\<close>

fun find_token_within :: "nat \<Rightarrow> string \<Rightarrow> string \<Rightarrow> string option" where
  "find_token_within n cursor token =
     (if length token \<le> n
      then if take (length token) cursor = token then Some cursor
           else (case n of 0 \<Rightarrow> None | Suc m \<Rightarrow> find_token_within m (tl cursor) token)
      else None)"

declare find_token_within.simps [simp del]

definition find_token_until :: "string \<Rightarrow> string \<Rightarrow> string \<Rightarrow> string option" where
  "find_token_until start stop token =
     (if length start < length stop then None else find_token_within (length start - length stop) start token)"

text \<open>Pointers at or behind \<open>stop\<close>, and strictly behind it.\<close>

definition at_end :: "string \<Rightarrow> string \<Rightarrow> bool" where
  "at_end cursor stop \<longleftrightarrow> length cursor \<le> length stop"

definition past_end :: "string \<Rightarrow> string \<Rightarrow> bool" where
  "past_end cursor stop \<longleftrightarrow> length cursor < length stop"

definition starts_char :: "char \<Rightarrow> string \<Rightarrow> bool" where
  "starts_char c s \<longleftrightarrow> s \<noteq> [] \<and> hd s = c"

definition json_read_data_offsets_until :: "string \<Rightarrow> string \<Rightarrow> (u64 \<times> u64) option" where
  "json_read_data_offsets_until start stop =
     (case find_token_until start stop (quoted ''data_offsets'') of
        None \<Rightarrow> None
      | Some cursor \<Rightarrow>
          (case strchr cursor CHR '':'' of
             None \<Rightarrow> None
           | Some cursor \<Rightarrow>
               if at_end cursor stop then None
               else
                 let cursor = json_skip_ws (tl cursor)
                 in if at_end cursor stop \<or> \<not> starts_char CHR ''['' cursor then None
                    else
                      let cursor = json_skip_ws (tl cursor);
                          (begin_value, parse_end) = strtoull cursor
                      in if parse_end = cursor \<or> past_end parse_end stop then None
                         else
                           let cursor = json_skip_ws parse_end
                           in if at_end cursor stop \<or> \<not> starts_char CHR '','' cursor then None
                              else
                                let cursor = json_skip_ws (tl cursor);
                                    (end_value, parse_end) = strtoull cursor
                                in if parse_end = cursor \<or> past_end parse_end stop \<or> end_value < begin_value then None
                                   else Some (begin_value, end_value)))"

section \<open>The index and the headers\<close>

definition QRT_LOAD_MAX_SHARDS :: nat where "QRT_LOAD_MAX_SHARDS = 128"
definition QRT_LOAD_PATH_CAPACITY :: nat where "QRT_LOAD_PATH_CAPACITY = 1024"
definition QRT_LOAD_JSON_STRING_CAPACITY :: nat where "QRT_LOAD_JSON_STRING_CAPACITY = 512"

lemmas load_limits = QRT_LOAD_MAX_SHARDS_def QRT_LOAD_PATH_CAPACITY_def QRT_LOAD_JSON_STRING_CAPACITY_def

definition add_unique_shard :: "string list \<Rightarrow> string \<Rightarrow> string list option" where
  "add_unique_shard shards filename =
     (if filename = [] then None
      else if filename \<in> set shards then Some shards
      else if length shards \<ge> QRT_LOAD_MAX_SHARDS \<or> length filename + 1 > QRT_LOAD_PATH_CAPACITY then None
      else Some (shards @ [filename]))"

text \<open>Each scanner moves forward.\<close>

lemma length_json_skip_ws: "length (json_skip_ws s) \<le> length s"
  by (simp add: json_skip_ws_def length_dropWhile_le)

lemma scan_string_shorter: "scan_string p = Some (v, r) \<Longrightarrow> length r < length p"
proof (induction p arbitrary: v r rule: scan_string.induct)
  case (2 c p)
  then show ?case
    by (cases p) (fastforce split: if_splits)+
qed simp

lemma json_parse_string_shorter: "json_parse_string n s = Some (v, r) \<Longrightarrow> length r < length s"
  using length_json_skip_ws [of s]
  by (auto simp: json_parse_string_def split: list.splits if_splits dest!: scan_string_shorter)

lemma json_parse_string_forward: "json_parse_string n s = Some pr \<Longrightarrow> (v, r) = pr \<Longrightarrow> length r < length s"
  using json_parse_string_shorter by metis

lemma skip_string_body_shorter: "skip_string_body b p = Some r \<Longrightarrow> length r < length p"
  by (induction b p rule: skip_string_body.induct) (auto split: if_splits)

lemma skip_nested_shorter: "skip_nested d i b p = Some r \<Longrightarrow> length r < length p"
  by (induction d i b p rule: skip_nested.induct) (auto split: if_splits)

lemma json_skip_value_shorter: "json_skip_value s = Some r \<Longrightarrow> length r \<le> length s"
proof -
  assume run: "json_skip_value s = Some r"
  have "length r \<le> length (json_skip_ws s)"
  proof (cases "json_skip_ws s")
    case Nil
    then show ?thesis using run by (simp add: json_skip_value_def)
  next
    case (Cons c q)
    let ?more = "\<lambda>x. x \<noteq> CHR '','' \<and> x \<noteq> CHR ''}'' \<and> x \<noteq> CHR '']''"
    have "skip_string_body False q = Some r \<or> skip_nested 0 False False (c # q) = Some r \<or> r = dropWhile ?more (c # q)"
      using run unfolding json_skip_value_def Let_def Cons list.case by (simp only: split: if_splits) blast+
    moreover have "length (dropWhile ?more (c # q)) \<le> length (c # q)" by (rule length_dropWhile_le)
    ultimately show ?thesis
      unfolding Cons using skip_string_body_shorter [of False q r] skip_nested_shorter [of 0 False False "c # q" r]
      by (elim disjE) simp_all
  qed
  then show ?thesis using length_json_skip_ws [of s] by simp
qed

text \<open>
  The loop of \<open>qrt_parse_weight_map\<close>: the tensor count and the distinct shards in the order of their first
  occurrence.
\<close>

function weight_map_loop :: "nat \<Rightarrow> string list \<Rightarrow> string \<Rightarrow> (nat \<times> string list) option" where
  "weight_map_loop tensor_count shards cursor =
     (let cursor = json_skip_ws cursor
      in if starts_char CHR ''}'' cursor then Some (tensor_count, shards)
         else
           case json_parse_string QRT_LOAD_JSON_STRING_CAPACITY cursor of
             None \<Rightarrow> None
           | Some (key, cursor) \<Rightarrow>
               let cursor = json_skip_ws cursor
               in if \<not> starts_char CHR '':'' cursor then None
                  else
                    case json_parse_string QRT_LOAD_JSON_STRING_CAPACITY (tl cursor) of
                      None \<Rightarrow> None
                    | Some (filename, cursor) \<Rightarrow>
                        (case add_unique_shard shards filename of
                           None \<Rightarrow> None
                         | Some shards \<Rightarrow>
                             let cursor = json_skip_ws cursor
                             in if starts_char CHR '','' cursor then weight_map_loop (tensor_count + 1) shards (tl cursor)
                                else if \<not> starts_char CHR ''}'' cursor then None
                                else weight_map_loop (tensor_count + 1) shards cursor))"
  by auto
termination
proof (relation "measure (\<lambda>(n, shards, cursor). length cursor)", goal_cases)
  case (2 n shards cursor s1 pr key c1 c2 pr2 filename c3 shards' c4)
  show ?case
    using json_parse_string_forward [OF 2(3,4)] json_parse_string_forward [OF 2(7,8)] 2(1,5,10)
      length_json_skip_ws [of cursor] length_json_skip_ws [of c1] length_json_skip_ws [of c3]
    by simp
next
  case (3 n shards cursor s1 pr key c1 c2 pr2 filename c3 shards' c4)
  show ?case
    using json_parse_string_forward [OF 3(3,4)] json_parse_string_forward [OF 3(7,8)] 3(1,5,10)
      length_json_skip_ws [of cursor] length_json_skip_ws [of c1] length_json_skip_ws [of c3]
    by simp
qed simp

declare weight_map_loop.simps [simp del]

definition parse_weight_map :: "string \<Rightarrow> (nat \<times> string list) option" where
  "parse_weight_map index_json =
     (case json_find_key index_json ''weight_map'' of
        None \<Rightarrow> None
      | Some cursor \<Rightarrow> (case strchr cursor CHR ''{'' of None \<Rightarrow> None | Some brace \<Rightarrow> weight_map_loop 0 [] (tl brace)))"

text \<open>\<open>qrt_read_le64\<close>: from the last byte down, shifted and joined.\<close>

definition read_le64 :: "u8 list \<Rightarrow> u64" where
  "read_le64 bs = foldl (\<lambda>value b. push_bit 8 value OR ucast b) 0 (rev (take 8 bs))"

definition find_shard_for_tensor :: "string \<Rightarrow> string \<Rightarrow> nat \<Rightarrow> string option" where
  "find_shard_for_tensor index_json tensor_name capacity =
     (if capacity = 0 \<or> length tensor_name + 3 > QRT_LOAD_JSON_STRING_CAPACITY then None
      else
        case strstr index_json (quoted tensor_name) of
          None \<Rightarrow> None
        | Some key_pos \<Rightarrow>
            (case strchr (drop (length (quoted tensor_name)) key_pos) CHR '':'' of
               None \<Rightarrow> None
             | Some cursor \<Rightarrow> map_option fst (json_parse_string capacity (tl cursor))))"

definition find_tensor_offsets :: "string \<Rightarrow> string \<Rightarrow> (u64 \<times> u64) option" where
  "find_tensor_offsets header_json tensor_name =
     (if length tensor_name + 3 > QRT_LOAD_JSON_STRING_CAPACITY then None
      else
        case strstr header_json (quoted tensor_name) of
          None \<Rightarrow> None
        | Some key_pos \<Rightarrow>
            (case strchr (drop (length (quoted tensor_name)) key_pos) CHR '':'' of
               None \<Rightarrow> None
             | Some cursor \<Rightarrow>
                 let value_start = json_skip_ws (tl cursor)
                 in case json_skip_value value_start of
                      None \<Rightarrow> None
                    | Some value_end \<Rightarrow> json_read_data_offsets_until value_start value_end))"

section \<open>What a writer of safetensors produces\<close>

definition join_comma :: "string list \<Rightarrow> string" where
  "join_comma ss = concat (case ss of [] \<Rightarrow> [] | s # rest \<Rightarrow> s # map (\<lambda>r. CHR '','' # r) rest)"

record tensor_info =
  ti_name :: string
  ti_dtype :: string
  ti_shape :: "nat list"
  ti_begin :: nat
  ti_end :: nat

definition print_value :: "tensor_info \<Rightarrow> string" where
  "print_value t =
     ''{'' @ quoted ''dtype'' @ '':'' @ quoted (ti_dtype t) @ '','' @ quoted ''shape'' @ '':['' @
     join_comma (map decimal (ti_shape t)) @ ''],'' @ quoted ''data_offsets'' @ '':['' @
     decimal (ti_begin t) @ '','' @ decimal (ti_end t) @ '']}''"

definition print_tensor :: "tensor_info \<Rightarrow> string" where
  "print_tensor t = quoted (ti_name t) @ '':'' @ print_value t"

definition print_header :: "tensor_info list \<Rightarrow> string" where
  "print_header ts = ''{'' @ join_comma (map print_tensor ts) @ ''}''"

text \<open>Names of tensors and types use none of the characters of JSON's own syntax.\<close>

definition plain :: "string \<Rightarrow> bool" where
  "plain s \<longleftrightarrow> (\<forall>c \<in> set s. c \<notin> {quote, backslash_char, CHR '':'', CHR '','', CHR ''{'', CHR ''}'', CHR ''['', CHR '']''})"

definition tensor_ok :: "tensor_info \<Rightarrow> bool" where
  "tensor_ok t \<longleftrightarrow> plain (ti_name t) \<and> plain (ti_dtype t) \<and> ti_begin t \<le> ti_end t \<and> ti_end t < 2 ^ 64"

lemma quote_neq [simp]:
  "quote \<noteq> CHR '':''" "quote \<noteq> CHR '',''" "quote \<noteq> CHR ''{''" "quote \<noteq> CHR ''}''" "quote \<noteq> CHR ''[''" "quote \<noteq> CHR '']''"
  "CHR '':'' \<noteq> quote" "CHR '','' \<noteq> quote" "CHR ''{'' \<noteq> quote" "CHR ''}'' \<noteq> quote" "CHR ''['' \<noteq> quote" "CHR '']'' \<noteq> quote"
  by (simp_all add: quote_def)

lemma join_comma_simps [simp]:
  "join_comma [] = []" "join_comma (s # ss) = s @ concat (map (\<lambda>r. CHR '','' # r) ss)"
  by (simp_all add: join_comma_def)

section \<open>Searching quoted strings\<close>

lemma strstr_skip: "quote \<notin> set s \<Longrightarrow> strstr (s @ rest) (quoted name) = strstr rest (quoted name)"
proof (induction s)
  case (Cons c s)
  then have "take (length (quoted name)) ((c # s) @ rest) \<noteq> quoted name" by (auto simp: quoted_def)
  with Cons show ?case by (simp add: strstr.simps [of "c # s @ rest"])
qed simp

lemma take_segment:
  "quote \<notin> set s \<Longrightarrow> quote \<notin> set name \<Longrightarrow> take (Suc (length name)) (s @ quote # rest) = name @ [quote] \<longleftrightarrow> s = name"
proof (induction s arbitrary: name)
  case Nil
  then show ?case by (cases name) auto
next
  case (Cons c s)
  then show ?case by (cases name) auto
qed

text \<open>A quoted string is either the one searched for, or its closing quote is where the search goes on.\<close>

lemma strstr_segment:
  assumes "quote \<notin> set s" "quote \<notin> set name"
  shows "strstr (quote # s @ quote # rest) (quoted name) =
    (if s = name then Some (quote # s @ quote # rest) else strstr (quote # rest) (quoted name))"
proof -
  have "take (length (quoted name)) (quote # s @ quote # rest) = quoted name \<longleftrightarrow> s = name"
    using take_segment [OF assms] by (simp add: quoted_def)
  then show ?thesis
    using strstr_skip [OF assms(1), of "quote # rest" name] by (simp add: strstr.simps [of "quote # s @ quote # rest"])
qed

lemma strstr_no_quote: "quote \<notin> set s \<Longrightarrow> strstr s (quoted name) = None"
  using strstr_skip [of s "[]" name] by (simp add: strstr.simps [of "[]"] quoted_def)

lemma strstr_last_quote:
  assumes "quote \<notin> set s" "quote \<notin> set name"
  shows "strstr (quote # s) (quoted name) = None"
proof -
  have "take (length (quoted name)) (quote # s) \<noteq> quoted name"
    using assms(1) by (auto simp: quoted_def dest!: arg_cong [of _ _ set] dest: in_set_takeD)
  then show ?thesis using strstr_no_quote [OF assms(1)] by (simp add: strstr.simps [of "quote # s"])
qed

lemma find_token_within_take:
  "find_token_within (length a) (a @ b) tok = map_option (\<lambda>x. x @ b) (strstr a tok)"
proof (induction a)
  case Nil
  show ?case by (simp add: find_token_within.simps strstr.simps [of "[]"])
next
  case (Cons c a)
  show ?case
  proof (cases "length tok \<le> length (c # a)")
    case True
    then have "take (length tok) (c # a @ b) = take (length tok) (c # a)" by (cases tok) auto
    with True show ?thesis
      using Cons by (simp add: find_token_within.simps [of "Suc (length a)"] strstr.simps [of "c # a"])
  next
    case False
    then have "strstr s tok = None" if "length s \<le> length (c # a)" for s
      using that by (induction s) (auto simp: strstr.simps dest!: arg_cong [of _ _ length])
    with False show ?thesis by (simp add: find_token_within.simps [of "Suc (length a)"])
  qed
qed

section \<open>Numbers\<close>

lemma digit_char: "d < 10 \<Longrightarrow> (of_char (char_of (48 + d) :: char) :: nat) = 48 + d"
  by simp

lemma is_digit_char: "d < 10 \<Longrightarrow> is_digit (char_of (48 + d :: nat))"
  by (simp add: is_digit_def)

lemma decimal_digits: "list_all is_digit (decimal n)"
proof (induction n rule: decimal.induct)
  case (1 n)
  then show ?case
    using is_digit_char [of n] is_digit_char [of "n mod 10"] by (simp add: decimal.simps [of n])
qed

lemma decimal_nonempty [simp]: "decimal n \<noteq> []"
  by (subst decimal.simps) simp

lemma digits_value_snoc: "digits_value (ds @ [c]) = 10 * digits_value ds + (of_char c - 48)"
  by (simp add: digits_value_def)

lemma digits_value_decimal [simp]: "digits_value (decimal n) = n"
proof (induction n rule: decimal.induct)
  case (1 n)
  show ?case
  proof (cases "n < 10")
    case True
    then show ?thesis by (simp add: decimal.simps [of n] digits_value_def)
  next
    case False
    with 1 have "digits_value (decimal (n div 10)) = n div 10" by simp
    then show ?thesis using False by (simp add: decimal.simps [of n] digits_value_snoc)
  qed
qed

lemma digit_set: "c \<in> set (decimal n) \<Longrightarrow> is_digit c"
  using decimal_digits [of n] by (simp add: list_all_iff)

lemma digit_not_special:
  "is_digit c \<Longrightarrow> \<not> is_space c \<and> \<not> is_json_ws c \<and> c \<noteq> CHR ''-'' \<and> c \<noteq> CHR ''+'' \<and> c \<noteq> quote \<and> c \<noteq> CHR ''{'' \<and>
    c \<noteq> CHR ''}'' \<and> c \<noteq> CHR ''['' \<and> c \<noteq> CHR '']'' \<and> c \<noteq> CHR '':'' \<and> c \<noteq> CHR '',''"
  by (auto simp: is_digit_def is_space_def is_json_ws_def quote_def)

lemma strtoull_decimal:
  assumes "n < 2 ^ 64" "rest = [] \<or> \<not> is_digit (hd rest)"
  shows "strtoull (decimal n @ rest) = (of_nat n, rest)"
proof -
  obtain c cs where d: "decimal n = c # cs" by (cases "decimal n") auto
  have c: "is_digit c" using digit_set [of c n] d by simp
  have all: "\<forall>x \<in> set (decimal n). is_digit x" using digit_set by blast
  have "takeWhile is_digit rest = []" "dropWhile is_digit rest = rest" using assms(2) by (cases rest; simp)+
  then have "takeWhile is_digit (decimal n @ rest) = decimal n" "dropWhile is_digit (decimal n @ rest) = rest"
    using all by (simp_all add: takeWhile_append2 dropWhile_append2)
  moreover have "dropWhile is_space (decimal n @ rest) = decimal n @ rest"
    using digit_not_special [OF c] by (simp add: d)
  moreover have "(case decimal n @ rest of c # u \<Rightarrow> if c = CHR ''-'' then (True, u) else if c = CHR ''+'' then (False, u)
      else (False, decimal n @ rest) | [] \<Rightarrow> (False, decimal n @ rest)) = (False, decimal n @ rest)"
    using digit_not_special [OF c] by (simp add: d)
  ultimately show ?thesis
    using assms(1) by (simp add: strtoull_def Let_def)
qed

lemma skip_ws_decimal [simp]: "json_skip_ws (decimal n @ rest) = decimal n @ rest"
proof -
  obtain c cs where "decimal n = c # cs" by (cases "decimal n") auto
  then show ?thesis using digit_set [of c n] digit_not_special by (simp add: json_skip_ws_def)
qed

lemma json_skip_ws_syntax [simp]:
  "json_skip_ws (CHR ''{'' # s) = CHR ''{'' # s" "json_skip_ws (CHR ''}'' # s) = CHR ''}'' # s"
  "json_skip_ws (CHR ''['' # s) = CHR ''['' # s" "json_skip_ws (CHR '','' # s) = CHR '','' # s"
  "json_skip_ws (CHR '':'' # s) = CHR '':'' # s" "json_skip_ws (quote # s) = quote # s"
  by (simp_all add: json_skip_ws_def is_json_ws_def quote_def)

section \<open>Skipping values\<close>

lemma skip_nested_plain:
  "set s \<inter> {quote, CHR ''{'', CHR ''}'', CHR ''['', CHR '']''} = {} \<Longrightarrow> skip_nested d False e (s @ rest) = skip_nested d False e rest"
  by (induction s) auto

lemma skip_nested_in_string:
  "quote \<notin> set s \<Longrightarrow> backslash_char \<notin> set s \<Longrightarrow> skip_nested d True False (s @ quote # rest) = skip_nested d False False rest"
proof (induction s)
  case Nil
  show ?case by (simp add: quote_def backslash_char_def)
qed auto

lemma skip_nested_quoted:
  "quote \<notin> set s \<Longrightarrow> backslash_char \<notin> set s \<Longrightarrow> skip_nested d False False (quoted s @ rest) = skip_nested d False False rest"
  by (simp add: quoted_def skip_nested_in_string)

lemma skip_nested_syntax:
  "skip_nested d False e (CHR ''{'' # s) = skip_nested (d + 1) False e s"
  "skip_nested d False e (CHR ''['' # s) = skip_nested (d + 1) False e s"
  "1 < d \<Longrightarrow> skip_nested d False e (CHR ''}'' # s) = skip_nested (d - 1) False e s"
  "1 < d \<Longrightarrow> skip_nested d False e (CHR '']'' # s) = skip_nested (d - 1) False e s"
  "skip_nested 1 False e (CHR ''}'' # s) = Some s"
  "skip_nested d False e (CHR '':'' # s) = skip_nested d False e s"
  "skip_nested d False e (CHR '','' # s) = skip_nested d False e s"
  by simp_all

lemma plain_quote: "plain s \<Longrightarrow> quote \<notin> set s \<and> backslash_char \<notin> set s"
  by (auto simp: plain_def)

lemma field_names_plain:
  "quote \<notin> set ''dtype''" "quote \<notin> set ''shape''" "quote \<notin> set ''data_offsets''"
  "backslash_char \<notin> set ''dtype''" "backslash_char \<notin> set ''shape''" "backslash_char \<notin> set ''data_offsets''"
  by (simp_all add: quote_def backslash_char_def)

lemma digits_and_commas:
  "c \<in> set (join_comma (map decimal ns)) \<Longrightarrow> is_digit c \<or> c = CHR '',''"
  by (cases ns) (auto dest: digit_set split: if_splits)

lemma skip_nested_numbers:
  "skip_nested d False e (join_comma (map decimal ns) @ rest) = skip_nested d False e rest"
  "skip_nested d False e (decimal n @ rest) = skip_nested d False e rest"
  by (rule skip_nested_plain, auto dest!: digits_and_commas digit_set digit_not_special)+

lemma skip_value_print [simp]:
  assumes "plain (ti_dtype t)"
  shows "json_skip_value (print_value t @ rest) = Some rest"
proof -
  have "json_skip_value (print_value t @ rest) = skip_nested 0 False False (print_value t @ rest)"
    by (simp add: json_skip_value_def Let_def print_value_def)
  also have "\<dots> = Some rest"
    using plain_quote [OF assms] field_names_plain
    by (simp add: print_value_def skip_nested_quoted skip_nested_numbers skip_nested_syntax del: skip_nested.simps)
  finally show ?thesis .
qed

section \<open>Finding a tensor in a header\<close>

lemma strstr_quoted:
  "quote \<notin> set s \<Longrightarrow> quote \<notin> set n \<Longrightarrow>
     strstr (quoted s @ r) (quoted n) = (if s = n then Some (quoted s @ r) else strstr (quote # r) (quoted n))"
  using strstr_segment [of s n r] by (simp add: quoted_def)

lemma strstr_between:
  "quote \<notin> set b \<Longrightarrow> quote \<notin> set n \<Longrightarrow> b \<noteq> n \<Longrightarrow>
     strstr (quote # b @ quoted s @ r) (quoted n) = strstr (quoted s @ r) (quoted n)"
  using strstr_segment [of b n "s @ quote # r"] by (simp add: quoted_def)

text \<open>The fields of one tensor, with any text between the strings.\<close>

lemma strstr_fields:
  assumes "quote \<notin> set n" "\<forall>s \<in> {s1, s2, s3, s4, s5, a1, a2, a3, a4}. quote \<notin> set s" "n \<notin> {s2, s3, s4, s5, a1, a2, a3, a4}"
  shows "strstr (quoted s1 @ a1 @ quoted s2 @ a2 @ quoted s3 @ a3 @ quoted s4 @ a4 @ quoted s5 @ r) (quoted n) =
    (if s1 = n then Some (quoted s1 @ a1 @ quoted s2 @ a2 @ quoted s3 @ a3 @ quoted s4 @ a4 @ quoted s5 @ r)
     else strstr (quote # r) (quoted n))"
  using assms by (auto simp: strstr_quoted strstr_between)

definition offsets_text :: "tensor_info \<Rightarrow> string" where
  "offsets_text t = '':['' @ decimal (ti_begin t) @ '','' @ decimal (ti_end t) @ '']}''"

lemma print_value_fields:
  "print_value t = ''{'' @ quoted ''dtype'' @ '':'' @ quoted (ti_dtype t) @ '','' @ quoted ''shape'' @
     ('':['' @ join_comma (map decimal (ti_shape t)) @ ''],'') @ quoted ''data_offsets'' @ offsets_text t"
  by (simp add: print_value_def offsets_text_def)

lemma shape_no_quote: "quote \<notin> set ('':['' @ join_comma (map decimal ns) @ ''],'')"
  using digits_and_commas [of quote ns] digit_not_special [of quote] by auto

lemma plain_no_syntax: "plain n \<Longrightarrow> CHR '':'' \<notin> set n \<and> CHR '','' \<notin> set n"
  unfolding plain_def by blast

lemma plain_not_syntax: "plain n \<Longrightarrow> n \<noteq> CHR '':'' # s" "plain n \<Longrightarrow> n \<noteq> CHR '','' # s"
  by (drule plain_no_syntax, metis list.set_intros(1))+

lemma plain_neq: "plain n \<Longrightarrow> CHR '':'' \<in> set b \<Longrightarrow> b @ s \<noteq> n"
  by (drule plain_no_syntax) (metis Un_iff set_append)

definition name_free :: "string \<Rightarrow> tensor_info \<Rightarrow> bool" where
  "name_free n t \<longleftrightarrow> plain n \<and> n \<notin> {''dtype'', ''shape'', ''data_offsets'', ti_dtype t}"

lemma strstr_tensor:
  assumes "tensor_ok t" "name_free n t"
  shows "strstr (print_tensor t @ r) (quoted n) =
    (if ti_name t = n then Some (print_tensor t @ r) else strstr (quote # offsets_text t @ r) (quoted n))"
proof -
  let ?shape = "'':['' @ join_comma (map decimal (ti_shape t)) @ ''],''"
  have pr: "print_tensor t @ r = quoted (ti_name t) @ '':{'' @ quoted ''dtype'' @ '':'' @ quoted (ti_dtype t) @ '','' @
      quoted ''shape'' @ ?shape @ quoted ''data_offsets'' @ offsets_text t @ r"
    by (simp add: print_tensor_def print_value_fields)
  have "plain n" using assms(2) by (simp add: name_free_def)
  have syn: "\<forall>s \<in> {'':{'', '':'', '','', ?shape}. quote \<notin> set s"
    using shape_no_quote by (simp add: quote_def)
  have "n \<notin> {'':{'', '':'', '','', ?shape}" using plain_not_syntax [OF \<open>plain n\<close>] by simp
  then show ?thesis
    unfolding pr using assms syn field_names_plain
    by (subst strstr_fields) (auto simp: tensor_ok_def name_free_def dest: plain_quote)
qed

lemma strstr_tensors:
  assumes "\<forall>x \<in> set (pre @ t # post). tensor_ok x \<and> name_free n x" "\<forall>x \<in> set pre. ti_name x \<noteq> n" "ti_name t = n"
    and "quote \<notin> set b" "CHR '':'' \<in> set b"
  shows "strstr (quote # b @ concat (map (\<lambda>x. CHR '','' # print_tensor x) (pre @ t # post)) @ r) (quoted n) =
    Some (print_tensor t @ concat (map (\<lambda>x. CHR '','' # print_tensor x) post) @ r)"
  using assms(1,2,4,5)
proof (induction pre arbitrary: b)
  case Nil
  let ?rest = "concat (map (\<lambda>x. CHR '','' # print_tensor x) post) @ r"
  have n: "plain n" using Nil by (simp add: name_free_def)
  have "b @ '','' \<noteq> n" by (rule plain_neq [OF n Nil(4)])
  then have "strstr (quote # (b @ '','') @ quoted (ti_name t) @ '':'' @ print_value t @ ?rest) (quoted n) =
      strstr (quoted (ti_name t) @ '':'' @ print_value t @ ?rest) (quoted n)"
    using Nil(3) plain_quote [OF n] by (intro strstr_between) auto
  also have "\<dots> = Some (print_tensor t @ ?rest)"
    using strstr_tensor [of t n ?rest] Nil(1) assms(3) by (simp add: print_tensor_def)
  finally show ?case by (simp add: print_tensor_def)
next
  case (Cons x pre)
  let ?rest = "concat (map (\<lambda>x. CHR '','' # print_tensor x) (pre @ t # post)) @ r"
  have n: "plain n" using Cons by (simp add: name_free_def)
  have "b @ '','' \<noteq> n" by (rule plain_neq [OF n Cons(5)])
  then have "strstr (quote # (b @ '','') @ quoted (ti_name x) @ '':'' @ print_value x @ ?rest) (quoted n) =
      strstr (quoted (ti_name x) @ '':'' @ print_value x @ ?rest) (quoted n)"
    using Cons(4) plain_quote [OF n] by (intro strstr_between) auto
  also have "\<dots> = strstr (quote # offsets_text x @ ?rest) (quoted n)"
    using strstr_tensor [of x n ?rest] Cons(2,3) by (simp add: print_tensor_def)
  also have "quote \<notin> set (offsets_text x)"
    using digit_set digit_not_special by (fastforce simp: offsets_text_def)
  then have "strstr (quote # offsets_text x @ ?rest) (quoted n) =
      Some (print_tensor t @ concat (map (\<lambda>x. CHR '','' # print_tensor x) post) @ r)"
    using Cons(2,3) by (intro Cons.IH) (auto simp: offsets_text_def)
  finally show ?case by (simp add: print_tensor_def)
qed

lemma strstr_header:
  assumes "\<forall>x \<in> set (pre @ t # post). tensor_ok x \<and> name_free n x" "\<forall>x \<in> set pre. ti_name x \<noteq> n" "ti_name t = n"
  shows "strstr (print_header (pre @ t # post)) (quoted n) =
    Some (print_tensor t @ concat (map (\<lambda>x. CHR '','' # print_tensor x) post) @ ''}'')"
proof (cases pre)
  case Nil
  have "strstr (''{'' @ print_tensor t @ concat (map (\<lambda>x. CHR '','' # print_tensor x) post) @ ''}'') (quoted n) =
      strstr (print_tensor t @ concat (map (\<lambda>x. CHR '','' # print_tensor x) post) @ ''}'') (quoted n)"
    by (rule strstr_skip) simp
  then show ?thesis using assms strstr_tensor [of t n] by (simp add: Nil print_header_def comp_def)
next
  case (Cons x xs)
  let ?rest = "concat (map (\<lambda>x. CHR '','' # print_tensor x) (xs @ t # post)) @ ''}''"
  have "strstr (print_header (pre @ t # post)) (quoted n) = strstr (''{'' @ print_tensor x @ ?rest) (quoted n)"
    by (simp add: Cons print_header_def comp_def)
  also have "\<dots> = strstr (print_tensor x @ ?rest) (quoted n)" by (rule strstr_skip) simp
  also have "\<dots> = strstr (quote # offsets_text x @ ?rest) (quoted n)"
    using assms by (simp add: Cons strstr_tensor)
  also have "\<dots> = Some (print_tensor t @ concat (map (\<lambda>x. CHR '','' # print_tensor x) post) @ ''}'')"
    using assms digit_set digit_not_special by (intro strstr_tensors) (fastforce simp: Cons offsets_text_def)+
  finally show ?thesis .
qed

lemma strstr_fourth:
  assumes "quote \<notin> set n" "\<forall>s \<in> {s1, s2, s3, a1, a2, a3}. quote \<notin> set s \<and> s \<noteq> n"
  shows "strstr (quoted s1 @ a1 @ quoted s2 @ a2 @ quoted s3 @ a3 @ quoted n @ r) (quoted n) = Some (quoted n @ r)"
  using assms by (simp add: strstr_quoted strstr_between)

lemma strstr_data_offsets:
  assumes "plain (ti_dtype t)" "ti_dtype t \<noteq> ''data_offsets''"
  shows "strstr (print_value t) (quoted ''data_offsets'') = Some (quoted ''data_offsets'' @ offsets_text t)"
proof -
  let ?shape = "'':['' @ join_comma (map decimal (ti_shape t)) @ ''],''"
  have "strstr (print_value t) (quoted ''data_offsets'') =
      strstr (quoted ''dtype'' @ '':'' @ quoted (ti_dtype t) @ '','' @ quoted ''shape'' @ ?shape @
        quoted ''data_offsets'' @ offsets_text t) (quoted ''data_offsets'')"
    unfolding print_value_fields by (rule strstr_skip) simp
  also have "\<dots> = Some (quoted ''data_offsets'' @ offsets_text t)"
    using assms plain_quote [OF assms(1)] field_names_plain shape_no_quote [of "ti_shape t"]
    by (intro strstr_fourth) (simp_all add: quote_def)
  finally show ?thesis .
qed

lemma read_offsets_print:
  assumes "tensor_ok t" "ti_dtype t \<noteq> ''data_offsets''"
  shows "json_read_data_offsets_until (print_value t @ rest) rest = Some (of_nat (ti_begin t), of_nat (ti_end t))"
proof -
  have ok: "plain (ti_dtype t)" "ti_begin t \<le> ti_end t" "ti_end t < 2 ^ 64" using assms(1) by (simp_all add: tensor_ok_def)
  then have le: "\<not> (of_nat (ti_end t) :: u64) < of_nat (ti_begin t)"
    using unat_of_nat_small [of "ti_end t", where 'a = 64] unat_of_nat_small [of "ti_begin t", where 'a = 64]
    by (simp add: word_less_nat_alt)
  have find: "find_token_until (print_value t @ rest) rest (quoted ''data_offsets'') =
      Some (quoted ''data_offsets'' @ offsets_text t @ rest)"
    using find_token_within_take [of "print_value t" rest] strstr_data_offsets [OF ok(1) assms(2)]
    by (simp add: find_token_until_def)
  have chr: "strchr (quoted ''data_offsets'' @ offsets_text t @ rest) CHR '':'' = Some (offsets_text t @ rest)"
    by (simp add: strchr_def quoted_def quote_def offsets_text_def)
  have b: "strtoull (decimal (ti_begin t) @ CHR '','' # r) = (of_nat (ti_begin t), CHR '','' # r)"
    and e: "strtoull (decimal (ti_end t) @ CHR '']'' # r) = (of_nat (ti_end t), CHR '']'' # r)" for r
    using ok by (intro strtoull_decimal; simp add: is_digit_def)+
  show ?thesis
    unfolding json_read_data_offsets_until_def find option.case chr
    using le by (simp add: offsets_text_def at_end_def past_end_def starts_char_def b e Let_def)
qed

text \<open>The scanner that looks for a tensor by its quoted name finds the data offsets that the writer of the
  header gave it: for every header with distinct plain names, the first occurrence of the quoted
  name is the key, the value behind it ends where its braces close, and the two numbers are read back exactly.\<close>

lemma find_tensor_offsets_print:
  assumes "\<forall>x \<in> set ts. tensor_ok x \<and> ti_dtype x \<notin> {ti_name t, ''data_offsets''}" "distinct (map ti_name ts)" "t \<in> set ts"
    and "ti_name t \<notin> {''dtype'', ''shape'', ''data_offsets''}" "length (ti_name t) \<le> 509"
  shows "find_tensor_offsets (print_header ts) (ti_name t) = Some (of_nat (ti_begin t), of_nat (ti_end t))"
proof -
  obtain pre post where ts: "ts = pre @ t # post" using split_list [OF assms(3)] by blast
  let ?rest = "concat (map (\<lambda>x. CHR '','' # print_tensor x) post) @ ''}''"
  have ok: "tensor_ok t" "ti_dtype t \<noteq> ''data_offsets''" using assms(1,3) by auto
  have "\<forall>x \<in> set pre. ti_name x \<noteq> ti_name t" using assms(2) by (auto simp: ts) (metis imageI)
  moreover have "\<forall>x \<in> set (pre @ t # post). tensor_ok x \<and> name_free (ti_name t) x"
  proof
    fix x assume "x \<in> set (pre @ t # post)"
    then have "tensor_ok x \<and> ti_dtype x \<noteq> ti_name t" using assms(1) ts by blast
    then show "tensor_ok x \<and> name_free (ti_name t) x"
      using ok(1) assms(4) by (simp add: name_free_def tensor_ok_def eq_commute)
  qed
  ultimately have "strstr (print_header ts) (quoted (ti_name t)) = Some (print_tensor t @ ?rest)"
    unfolding ts by (intro strstr_header) simp_all
  moreover have "drop (length (quoted (ti_name t))) (print_tensor t @ ?rest) = '':'' @ print_value t @ ?rest"
    by (simp add: print_tensor_def)
  moreover have "strchr ('':'' @ print_value t @ ?rest) CHR '':'' = Some ('':'' @ print_value t @ ?rest)"
    by (simp add: strchr_def)
  moreover have "json_skip_ws (print_value t @ ?rest) = print_value t @ ?rest" by (simp add: print_value_def)
  moreover have "json_skip_value (print_value t @ ?rest) = Some ?rest"
    using ok by (intro skip_value_print) (simp add: tensor_ok_def)
  ultimately show ?thesis
    using read_offsets_print [OF ok, of ?rest] assms(5)
    by (simp add: find_tensor_offsets_def load_limits Let_def)
qed

definition example_tensors :: "tensor_info list" where
  "example_tensors =
     [\<lparr>ti_name = ''a.weight'', ti_dtype = ''BF16'', ti_shape = [2, 3], ti_begin = 0, ti_end = 12\<rparr>,
      \<lparr>ti_name = ''b.weight'', ti_dtype = ''BF16'', ti_shape = [4], ti_begin = 12, ti_end = 20\<rparr>]"

section \<open>The index of the model\<close>

definition print_pair :: "string \<times> string \<Rightarrow> string" where
  "print_pair p = quoted (fst p) @ '':'' @ quoted (snd p)"

definition print_index :: "nat \<Rightarrow> (string \<times> string) list \<Rightarrow> string" where
  "print_index total_size kvs =
     ''{'' @ quoted ''metadata'' @ '':{'' @ quoted ''total_size'' @ '':'' @ decimal total_size @ ''},'' @
     quoted ''weight_map'' @ '':{'' @ join_comma (map print_pair kvs) @ ''}}''"

definition pair_ok :: "string \<times> string \<Rightarrow> bool" where
  "pair_ok p \<longleftrightarrow> plain (fst p) \<and> plain (snd p) \<and> snd p \<noteq> [] \<and> length (snd p) < 512"

text \<open>The distinct elements in the order of their first occurrence.\<close>

definition first_occurrences :: "'a list \<Rightarrow> 'a list" where
  "first_occurrences xs = rev (remdups (rev xs))"

lemma first_occurrences_snoc:
  "first_occurrences (xs @ [x]) = (if x \<in> set xs then first_occurrences xs else first_occurrences xs @ [x])"
  by (simp add: first_occurrences_def)

lemma set_first_occurrences [simp]: "set (first_occurrences xs) = set xs"
  by (simp add: first_occurrences_def)

lemma first_occurrences_Nil [simp]: "first_occurrences [] = []"
  by (simp add: first_occurrences_def)

lemma length_first_occurrences: "length (first_occurrences xs) = card (set xs)"
  by (simp add: first_occurrences_def length_remdups_card_conv)

lemma scan_string_plain: "plain s \<Longrightarrow> scan_string (s @ quote # r) = Some (s, r)"
proof (induction s)
  case (Cons c s)
  then have "c \<noteq> quote" "c \<noteq> backslash_char" "plain s" by (simp_all add: plain_def)
  with Cons.IH show ?case by simp
qed simp

lemma parse_string_quoted: "plain s \<Longrightarrow> length s < n \<Longrightarrow> json_parse_string n (quoted s @ r) = Some (s, r)"
  by (simp add: json_parse_string_def quoted_def scan_string_plain)

lemma parse_string_key: "plain s \<Longrightarrow> json_parse_string n (quoted s @ r) = Some (take (n - 1) s, r)"
  by (simp add: json_parse_string_def quoted_def scan_string_plain)

lemma skip_ws_quoted [simp]: "json_skip_ws (quoted s @ r) = quoted s @ r"
  by (simp add: quoted_def)

lemma starts_char_simps [simp]: "starts_char c (d # s) \<longleftrightarrow> d = c" "\<not> starts_char c []"
  by (simp_all add: starts_char_def)

lemma not_brace_quoted [simp]: "\<not> starts_char CHR ''}'' (quoted s @ r)"
  by (simp add: starts_char_def quoted_def)

lemma weight_map_pair:
  assumes "pair_ok p" "c = CHR '','' \<or> c = CHR ''}''" "add_unique_shard shards (snd p) = Some shards'"
  shows "weight_map_loop n shards (print_pair p @ c # r) =
    weight_map_loop (n + 1) shards' (if c = CHR '','' then r else c # r)"
proof -
  have k: "json_parse_string QRT_LOAD_JSON_STRING_CAPACITY (quoted (fst p) @ s) = Some (take 511 (fst p), s)" for s
    using assms(1) by (simp add: parse_string_key pair_ok_def load_limits)
  have v: "json_parse_string QRT_LOAD_JSON_STRING_CAPACITY (quoted (snd p) @ s) = Some (snd p, s)" for s
    using assms(1) by (simp add: parse_string_quoted pair_ok_def load_limits)
  show ?thesis
    using assms(2,3)
    by (subst weight_map_loop.simps) (auto simp: print_pair_def Let_def k v)
qed

lemma weight_map_pairs:
  assumes "\<forall>p \<in> set kvs. pair_ok p" "card (set (map snd (done @ kvs))) \<le> QRT_LOAD_MAX_SHARDS"
    and "\<forall>p \<in> set kvs. length (snd p) + 1 \<le> QRT_LOAD_PATH_CAPACITY"
  shows "weight_map_loop (length done) (first_occurrences (map snd done)) (join_comma (map print_pair kvs) @ ''}'' @ r) =
    Some (length (done @ kvs), first_occurrences (map snd (done @ kvs)))"
  using assms
proof (induction kvs arbitrary: "done")
  case Nil
  show ?case by (subst weight_map_loop.simps) (simp add: Let_def)
next
  case (Cons p kvs)
  let ?shards = "first_occurrences (map snd done)" and ?new = "first_occurrences (map snd (done @ [p]))"
  have "card (set (map snd (done @ [p]))) \<le> QRT_LOAD_MAX_SHARDS"
    using Cons.prems(2) by (rule order.trans [rotated]) (rule card_mono, auto)
  then have room: "snd p \<notin> set (map snd done) \<Longrightarrow> length ?shards < QRT_LOAD_MAX_SHARDS"
    by (simp add: length_first_occurrences)
  have "snd p \<noteq> []" "length (snd p) + 1 \<le> QRT_LOAD_PATH_CAPACITY" using Cons.prems by (simp_all add: pair_ok_def)
  then have add: "add_unique_shard ?shards (snd p) = Some ?new"
    using room by (cases "snd p \<in> set (map snd done)") (simp_all add: add_unique_shard_def first_occurrences_snoc not_le)
  have IH: "weight_map_loop (length (done @ [p])) ?new (join_comma (map print_pair kvs) @ ''}'' @ r) =
      Some (length ((done @ [p]) @ kvs), first_occurrences (map snd ((done @ [p]) @ kvs)))"
    using Cons.prems by (intro Cons.IH) simp_all
  show ?case
  proof (cases kvs)
    case Nil
    then show ?thesis
      using IH weight_map_pair [OF _ _ add, of "CHR ''}''" "length done" r] Cons.prems(1) by simp
  next
    case (Cons q qs)
    have "weight_map_loop (length done) ?shards (print_pair p @ CHR '','' # join_comma (map print_pair kvs) @ ''}'' @ r) =
        weight_map_loop (length done + 1) ?new (join_comma (map print_pair kvs) @ ''}'' @ r)"
      using weight_map_pair [OF _ _ add, of "CHR '',''"] Cons.prems(1) by simp
    with IH show ?thesis by (simp add: Cons)
  qed
qed

lemma strstr_third:
  assumes "quote \<notin> set n" "\<forall>s \<in> {s1, s2, a1, a2}. quote \<notin> set s \<and> s \<noteq> n" "quote \<notin> set s3"
  shows "strstr (quoted s1 @ a1 @ quoted s2 @ a2 @ quoted s3 @ r) (quoted n) =
    (if s3 = n then Some (quoted n @ r) else strstr (quote # r) (quoted n))"
  using assms by (simp add: strstr_quoted strstr_between)

lemma index_front_plain:
  "quote \<notin> set ''metadata''" "quote \<notin> set ''total_size''" "quote \<notin> set ''weight_map''" "quote \<notin> set '':{''"
  "quote \<notin> set ('':'' @ decimal total_size @ ''},'')"
  using digit_set [of quote total_size] digit_not_special [of quote] by (auto simp: quote_def)

lemma strstr_index_front:
  assumes "plain n" "n \<notin> {''metadata'', ''total_size''}"
  shows "strstr (print_index total_size kvs) (quoted n) =
    (if n = ''weight_map'' then Some (quoted ''weight_map'' @ '':{'' @ join_comma (map print_pair kvs) @ ''}}'')
     else strstr (quote # '':{'' @ join_comma (map print_pair kvs) @ ''}}'') (quoted n))"
proof -
  let ?size = "'':'' @ decimal total_size @ ''},''" and ?r = "'':{'' @ join_comma (map print_pair kvs) @ ''}}''"
  have "strstr (print_index total_size kvs) (quoted n) =
      strstr (''{'' @ quoted ''metadata'' @ '':{'' @ quoted ''total_size'' @ ?size @ quoted ''weight_map'' @ ?r) (quoted n)"
    by (simp add: print_index_def)
  also have "\<dots> = strstr (quoted ''metadata'' @ '':{'' @ quoted ''total_size'' @ ?size @ quoted ''weight_map'' @ ?r) (quoted n)"
    by (rule strstr_skip) simp
  also have "\<dots> = (if ''weight_map'' = n then Some (quoted n @ ?r) else strstr (quote # ?r) (quoted n))"
  proof (rule strstr_third)
    show "quote \<notin> set n" using plain_quote [OF assms(1)] by simp
    show "\<forall>s \<in> {''metadata'', ''total_size'', '':{'', ?size}. quote \<notin> set s \<and> s \<noteq> n"
      using index_front_plain(1,2,4) index_front_plain(5) [of total_size] assms(2)
        plain_not_syntax(1) [OF assms(1), THEN not_sym] by auto
    show "quote \<notin> set ''weight_map''" by (rule index_front_plain(3))
  qed
  finally show ?thesis by auto
qed

text \<open>C26. The index is read back as it was written: the loop over the weight map counts every tensor and lists the
  distinct shard files in the order of their first occurrence.\<close>

theorem parse_weight_map_print:
  assumes "\<forall>p \<in> set kvs. pair_ok p" "card (set (map snd kvs)) \<le> 128"
  shows "parse_weight_map (print_index total_size kvs) = Some (length kvs, first_occurrences (map snd kvs))"
proof -
  let ?r = "'':{'' @ join_comma (map print_pair kvs) @ ''}}''"
  have "plain ''weight_map''" by (simp add: plain_def quote_def backslash_char_def)
  then have "json_find_key (print_index total_size kvs) ''weight_map'' = Some (quoted ''weight_map'' @ ?r)"
    using strstr_index_front [of "''weight_map''"] by (simp add: json_find_key_def)
  moreover have "strchr (quoted ''weight_map'' @ ?r) CHR ''{'' = Some (tl ?r)"
    by (simp add: strchr_def quoted_def quote_def)
  moreover have "weight_map_loop 0 [] (tl (tl ?r)) = Some (length kvs, first_occurrences (map snd kvs))"
    using weight_map_pairs [of kvs "[]" "''}''"] assms by (fastforce simp: load_limits pair_ok_def)
  ultimately show ?thesis by (simp add: parse_weight_map_def)
qed

theorem parse_weight_map_print_witness:
  "parse_weight_map (print_index 20 [(''a'', ''s1''), (''b'', ''s2''), (''c'', ''s1'')]) = Some (3, [''s1'', ''s2''])"
  using parse_weight_map_print [of "[(''a'', ''s1''), (''b'', ''s2''), (''c'', ''s1'')]" 20]
  by (simp add: pair_ok_def plain_def quote_def backslash_char_def first_occurrences_def card_insert_if numeral_3_eq_3)

lemma strstr_pair:
  assumes "pair_ok p" "plain n" "snd p \<noteq> n" "b @ s \<noteq> n" "quote \<notin> set (b @ s)"
  shows "strstr (quote # (b @ s) @ print_pair p @ r) (quoted n) =
    (if fst p = n then Some (print_pair p @ r) else strstr (quote # r) (quoted n))"
proof -
  have q: "quote \<notin> set n" "quote \<notin> set (fst p)" "quote \<notin> set (snd p)"
    using assms(1,2) by (auto simp: pair_ok_def dest: plain_quote)
  have "strstr (quote # (b @ s) @ quoted (fst p) @ '':'' @ quoted (snd p) @ r) (quoted n) =
      strstr (quoted (fst p) @ '':'' @ quoted (snd p) @ r) (quoted n)"
    by (rule strstr_between [OF assms(5) q(1) assms(4)])
  also have "\<dots> = (if fst p = n then Some (quoted (fst p) @ '':'' @ quoted (snd p) @ r)
      else strstr (quote # '':'' @ quoted (snd p) @ r) (quoted n))"
    by (rule strstr_quoted [OF q(2,1)])
  also have "strstr (quote # '':'' @ quoted (snd p) @ r) (quoted n) = strstr (quoted (snd p) @ r) (quoted n)"
    using plain_not_syntax(1) [OF assms(2), THEN not_sym] by (intro strstr_between q) simp_all
  also have "\<dots> = strstr (quote # r) (quoted n)" using assms(3) by (simp add: strstr_quoted [OF q(3,1)])
  finally show ?thesis by (simp add: print_pair_def)
qed

lemma strstr_pairs:
  assumes "\<forall>x \<in> set (pre @ p # post). pair_ok x \<and> snd x \<noteq> n" "\<forall>x \<in> set pre. fst x \<noteq> n" "fst p = n" "plain n"
  shows "strstr (quote # concat (map (\<lambda>x. CHR '','' # print_pair x) (pre @ p # post)) @ r) (quoted n) =
    Some (print_pair p @ concat (map (\<lambda>x. CHR '','' # print_pair x) post) @ r)"
  using assms(1,2)
proof (induction pre)
  case Nil
  then show ?case
    using strstr_pair [of p n "[]" "'',''"] assms(3,4) plain_not_syntax(2) [OF assms(4), THEN not_sym] by simp
next
  case (Cons x pre)
  then show ?case
    using strstr_pair [of x n "[]" "'',''"] assms(4) plain_not_syntax(2) [OF assms(4), THEN not_sym] by simp
qed

lemma strstr_index:
  assumes "\<forall>x \<in> set (pre @ p # post). pair_ok x \<and> snd x \<noteq> n" "\<forall>x \<in> set pre. fst x \<noteq> n" "fst p = n" "plain n"
    and "n \<notin> {''metadata'', ''total_size'', ''weight_map''}"
  shows "strstr (print_index total_size (pre @ p # post)) (quoted n) =
    Some (print_pair p @ concat (map (\<lambda>x. CHR '','' # print_pair x) post) @ ''}}'')"
proof -
  have front: "strstr (print_index total_size (pre @ p # post)) (quoted n) =
      strstr (quote # '':{'' @ join_comma (map print_pair (pre @ p # post)) @ ''}}'') (quoted n)"
    using strstr_index_front [OF assms(4)] assms(5) by simp
  have colon: "'':{'' \<noteq> n" using plain_not_syntax(1) [OF assms(4), THEN not_sym] by simp
  show ?thesis
  proof (cases pre)
    case Nil
    then show ?thesis
      using front strstr_pair [of p n "'':''" "''{''"] assms colon by (simp add: comp_def)
  next
    case (Cons x xs)
    then show ?thesis
      using front strstr_pair [of x n "'':''" "''{''"] strstr_pairs [of xs p post n "''}}''"] assms colon by (simp add: comp_def)
  qed
qed

text \<open>Looking a tensor up in the index returns the shard file that holds it.\<close>

lemma find_shard_for_tensor_print:
  assumes "\<forall>x \<in> set kvs. pair_ok x \<and> snd x \<noteq> n" "distinct (map fst kvs)" "(n, shard) \<in> set kvs" "plain n"
    and "n \<notin> {''metadata'', ''total_size'', ''weight_map''}" "length n \<le> 509" "length shard < capacity"
  shows "find_shard_for_tensor (print_index total_size kvs) n capacity = Some shard"
proof -
  obtain pre post where kvs: "kvs = pre @ (n, shard) # post" using split_list [OF assms(3)] by blast
  let ?r = "concat (map (\<lambda>x. CHR '','' # print_pair x) post) @ ''}}''"
  have "\<forall>x \<in> set pre. fst x \<noteq> n" using assms(2) by (auto simp: kvs)
  then have "strstr (print_index total_size kvs) (quoted n) = Some (print_pair (n, shard) @ ?r)"
    unfolding kvs using assms(1,4,5) by (intro strstr_index) (simp_all add: kvs)
  moreover have "drop (length (quoted n)) (print_pair (n, shard) @ ?r) = '':'' @ quoted shard @ ?r" by (simp add: print_pair_def)
  moreover have "strchr ('':'' @ quoted shard @ ?r) CHR '':'' = Some ('':'' @ quoted shard @ ?r)" by (simp add: strchr_def)
  moreover have "plain shard" using assms(1,3) by (fastforce simp: pair_ok_def)
  ultimately show ?thesis
    using assms(6,7) parse_string_quoted [of shard capacity ?r] by (simp add: find_shard_for_tensor_def load_limits)
qed

section \<open>Counting tokens and reading lengths\<close>

lemma strstr_suffix: "strstr s p = Some r \<Longrightarrow> length p \<le> length r \<and> length r \<le> length s"
proof (induction s)
  case Nil
  then show ?case by (simp add: strstr.simps [of "[]"] split: if_splits)
next
  case (Cons c s)
  then show ?case
    by (auto simp: strstr.simps [of "c # s"] dest!: arg_cong [of _ _ length] split: if_splits)
qed

text \<open>The counting loop ends for every token that is not empty.\<close>

lemma json_count_token_returns:
  assumes "token \<noteq> []"
  shows "\<exists>m. json_count_token json token n = Some m"
proof (induction "length json" arbitrary: json n rule: less_induct)
  case less
  show ?case
  proof (cases "strstr json token")
    case None
    then show ?thesis by (simp add: json_count_token.simps [of json])
  next
    case (Some r)
    then have "length (drop (length token) r) < length json"
      using strstr_suffix [OF Some] assms by (cases token) auto
    from less [OF this] Some show ?thesis by (simp add: json_count_token.simps [of json])
  qed
qed

text \<open>The eight-byte length is read as the writer stored it.\<close>

lemma fold_le_bytes:
  "k \<le> 8 \<Longrightarrow> foldr (\<lambda>i value. push_bit 8 value OR ucast (ucast (drop_bit (8 * i) w) :: u8)) [k..<8] 0 = drop_bit (8 * k) (w :: u64)"
proof (induction "8 - k" arbitrary: k)
  case 0
  then show ?case by (auto intro!: bit_word_eqI simp: bit_simps dest: bit_imp_le_length)
next
  case (Suc d)
  then have ih: "foldr (\<lambda>i value. push_bit 8 value OR ucast (ucast (drop_bit (8 * i) w) :: u8)) [Suc k..<8] 0 =
      drop_bit (8 * Suc k) w"
    by (intro Suc.hyps(1)) auto
  have split: "push_bit 8 (drop_bit (8 * Suc k) w) OR ucast (ucast (drop_bit (8 * k) w) :: u8) = drop_bit (8 * k) w"
    by (rule bit_word_eqI) (auto simp: bit_simps algebra_simps dest: bit_imp_le_length)
  have "[k..<8] = k # [Suc k..<8]" using Suc.hyps(2) by (intro upt_conv_Cons) simp
  then show ?case using ih split by simp
qed

lemma read_le64_le_bytes: "read_le64 (le_bytes 8 w) = w"
  using fold_le_bytes [of 0 w] by (simp add: read_le64_def le_bytes_def foldl_conv_foldr foldr_map comp_def)

end
