(* ===== verification/Weight_Cache.thy ===== *)
theory Weight_Cache
  imports Core_Platform
begin

unbundle bit_operations_syntax

text \<open>
  The resident weight cache of \<^verbatim>\<open>native/src/qrt.c\<close>: an array of entries that only grows, found by tensor
  name and element count through an open-addressing hash index that the code drops whenever it cannot be kept, in
  which case it scans the array. \<open>size_t\<close> values are 64-bit words; the array of entries is the list of its first
  \<open>entry_count\<close> elements, and a hash index is the list of its slots.
\<close>

section \<open>State\<close>

record weight_entry =
  we_tensor_name :: u64
  we_name :: string
  we_data :: u64
  we_elements :: u64
  we_bytes :: u64
  we_key_hash :: u64
  we_fnv1a64 :: u64
  we_hit_count :: u64

record weight_cache =
  wc_enabled :: bool
  wc_entries_ptr :: u64
  wc_entries :: "weight_entry list"
  wc_entry_capacity :: u64
  wc_slots_ptr :: u64
  wc_slots :: "u64 list"
  wc_index_capacity :: u64
  wc_bytes :: u64
  wc_hit_count :: u64
  wc_hit_bytes :: u64
  wc_store_failure_count :: u64
  wc_index_lookup_count :: u64
  wc_index_probe_count :: u64
  wc_index_fallback_count :: u64

definition empty_weight_cache :: "bool \<Rightarrow> weight_cache" where
  "empty_weight_cache enabled =
     \<lparr>wc_enabled = enabled, wc_entries_ptr = nullptr, wc_entries = [], wc_entry_capacity = 0, wc_slots_ptr = nullptr,
      wc_slots = [], wc_index_capacity = 0, wc_bytes = 0, wc_hit_count = 0, wc_hit_bytes = 0,
      wc_store_failure_count = 0, wc_index_lookup_count = 0, wc_index_probe_count = 0, wc_index_fallback_count = 0\<rparr>"

text \<open>\<open>sizeof(qrt_resident_weight_cache_entry_t)\<close>\<close>

definition weight_entry_size :: u64 where
  "weight_entry_size = 56"

definition entry_count :: "weight_cache \<Rightarrow> u64" where
  "entry_count wc = of_nat (length (wc_entries wc))"

definition drop_index :: "core_env \<Rightarrow> weight_cache \<Rightarrow> core_hist \<Rightarrow> weight_cache \<times> core_hist" where
  "drop_index env wc h =
     (wc\<lparr>wc_slots_ptr := nullptr, wc_slots := [], wc_index_capacity := 0\<rparr>, c_free env (wc_slots_ptr wc) h)"

text \<open>\<open>qrt_engine_free_resident_weight_cache\<close>\<close>

definition free_entry :: "core_env \<Rightarrow> core_hist \<Rightarrow> weight_entry \<Rightarrow> core_hist" where
  "free_entry env h e = c_free env (we_data e) (c_free env (we_tensor_name e) h)"

definition free_resident_weight_cache :: "core_env \<Rightarrow> weight_cache \<Rightarrow> core_hist \<Rightarrow> weight_cache \<times> core_hist" where
  "free_resident_weight_cache env wc h =
     (if wc_entries_ptr wc = nullptr then drop_index env wc h
      else let h = foldl (free_entry env) h (wc_entries wc);
               h = c_free env (wc_entries_ptr wc) h;
               h = c_free env (wc_slots_ptr wc) h
           in (wc\<lparr>wc_entries_ptr := nullptr, wc_entries := [], wc_entry_capacity := 0, wc_slots_ptr := nullptr,
                  wc_slots := [], wc_index_capacity := 0, wc_bytes := 0\<rparr>, h))"

section \<open>The hash index\<close>

definition resident_weight_cache_key_hash :: "string \<Rightarrow> u64 \<Rightarrow> u64" where
  "resident_weight_cache_key_hash name elements =
     fnv1a64_update_bytes (fnv1a64_update_bytes 1469598103934665603 (string_bytes name @ [0])) (le_bytes 8 elements)"

text \<open>
  The probe loop of \<open>qrt_engine_resident_weight_cache_index_insert_raw\<close> with the number of probes left.
\<close>

fun insert_probe :: "nat \<Rightarrow> u64 \<Rightarrow> u64 \<Rightarrow> u64 \<Rightarrow> u64 list \<Rightarrow> u64 list option" where
  "insert_probe 0 msk value slot slots = None"
| "insert_probe (Suc n) msk value slot slots =
     (let stored = slots ! unat slot
      in if stored = 0 \<or> stored = value then Some (slots[unat slot := value])
         else insert_probe n msk value ((slot + 1) AND msk) slots)"

definition index_insert_raw :: "weight_cache \<Rightarrow> nat \<Rightarrow> weight_cache option" where
  "index_insert_raw wc i =
     (if wc_slots_ptr wc = nullptr \<or> wc_index_capacity wc = 0 \<or> i \<ge> length (wc_entries wc) then None
      else
        let entry = wc_entries wc ! i
        in if we_tensor_name entry = nullptr \<or> we_elements entry = 0 then None
           else
             let msk = wc_index_capacity wc - 1;
                 slot = we_key_hash entry AND msk
             in map_option (\<lambda>slots. wc\<lparr>wc_slots := slots\<rparr>)
                  (insert_probe (unat (wc_index_capacity wc)) msk (of_nat i + 1) slot (wc_slots wc)))"

text \<open>
  \<open>while (capacity < target_entry_count * 2u)\<close>, from 64 doubled: the capacity is \<open>2 ^ k\<close>. \<open>None\<close> is the
  return when it would exceed half of \<open>SIZE_MAX\<close>.
\<close>

function grow_capacity :: "nat \<Rightarrow> nat \<Rightarrow> nat option" where
  "grow_capacity k goal =
     (if 2 ^ k < goal then (if 2 ^ k > (2 ^ 64 - 1 :: nat) div 2 then None else grow_capacity (Suc k) goal)
      else Some (2 ^ k))"
  by auto
termination
proof (relation "measure (\<lambda>(k, goal). 64 - k)")
  fix k goal :: nat
  assume "\<not> 2 ^ k > (2 ^ 64 - 1 :: nat) div 2"
  then have "(2::nat) ^ k < 2 ^ 64" by simp
  then have "k < 64" by (rule power_less_imp_less_exp [rotated]) simp
  then show "((Suc k, goal), (k, goal)) \<in> measure (\<lambda>(k, goal). 64 - k)" by simp
qed simp

declare grow_capacity.simps [simp del]

text \<open>The loop that inserts all entries; the flag tells whether it reached the end.\<close>

fun insert_all :: "nat list \<Rightarrow> weight_cache \<Rightarrow> bool \<times> weight_cache" where
  "insert_all [] wc = (True, wc)"
| "insert_all (i # is) wc = (case index_insert_raw wc i of None \<Rightarrow> (False, wc) | Some wc \<Rightarrow> insert_all is wc)"

definition rebuild_index :: "core_env \<Rightarrow> weight_cache \<Rightarrow> u64 \<Rightarrow> core_hist \<Rightarrow> bool \<times> weight_cache \<times> core_hist" where
  "rebuild_index env wc target h =
     (case grow_capacity 6 (unat (target * 2)) of
        None \<Rightarrow> (False, wc, h)
      | Some capacity \<Rightarrow>
          let (r, h) = ask env (CCalloc (of_nat capacity) 8) h
          in if c_num r = nullptr then (False, wc, h)
             else
               let h = c_free env (wc_slots_ptr wc) h;
                   wc = wc\<lparr>wc_slots_ptr := c_num r, wc_slots := replicate capacity 0, wc_index_capacity := of_nat capacity\<rparr>;
                   (ok, wc) = insert_all [0..<length (wc_entries wc)] wc
               in if ok then (True, wc, h)
                  else let (wc, h) = drop_index env wc h in (False, wc, h))"

definition note_entry_added :: "core_env \<Rightarrow> weight_cache \<Rightarrow> nat \<Rightarrow> core_hist \<Rightarrow> bool \<times> weight_cache \<times> core_hist" where
  "note_entry_added env wc i h =
     (if i \<ge> length (wc_entries wc) then (False, wc, h)
      else
        let target = of_nat i + 1
        in if wc_slots_ptr wc = nullptr \<or> wc_index_capacity wc < target * 2 then rebuild_index env wc target h
           else case index_insert_raw wc i of
                  Some wc \<Rightarrow> (True, wc, h)
                | None \<Rightarrow> let (wc, h) = drop_index env wc h in (False, wc, h))"

section \<open>Lookup\<close>

definition entry_matches :: "u64 \<Rightarrow> string \<Rightarrow> u64 \<Rightarrow> weight_entry \<Rightarrow> bool" where
  "entry_matches key_hash name elements e \<longleftrightarrow>
     we_key_hash e = key_hash \<and> we_elements e = elements \<and> we_tensor_name e \<noteq> nullptr \<and> we_name e = name"

text \<open>The probe loop of \<open>qrt_engine_find_resident_weight_cache_entry\<close>; the second result counts the probes.\<close>

fun find_probe ::
  "nat \<Rightarrow> weight_entry list \<Rightarrow> u64 list \<Rightarrow> u64 \<Rightarrow> u64 \<Rightarrow> string \<Rightarrow> u64 \<Rightarrow> u64 \<Rightarrow> u64 \<Rightarrow> nat option \<times> u64" where
  "find_probe 0 entries slots msk key_hash name elements slot probes = (None, probes)"
| "find_probe (Suc n) entries slots msk key_hash name elements slot probes =
     (let stored = slots ! unat slot;
          probes = probes + 1
      in if stored = 0 then (None, probes)
         else
           let index = unat (stored - 1)
           in if index < length entries \<and> entry_matches key_hash name elements (entries ! index)
              then (Some index, probes)
              else find_probe n entries slots msk key_hash name elements ((slot + 1) AND msk) probes)"

text \<open>The scan that the code falls back to.\<close>

fun find_scan :: "nat \<Rightarrow> weight_entry list \<Rightarrow> u64 \<Rightarrow> string \<Rightarrow> u64 \<Rightarrow> nat option" where
  "find_scan i [] key_hash name elements = None"
| "find_scan i (e # es) key_hash name elements =
     (if entry_matches key_hash name elements e then Some i else find_scan (Suc i) es key_hash name elements)"

definition find_weight_entry :: "weight_cache \<Rightarrow> string \<Rightarrow> u64 \<Rightarrow> nat option \<times> weight_cache" where
  "find_weight_entry wc name elements =
     (let key_hash = resident_weight_cache_key_hash name elements
      in if wc_slots_ptr wc \<noteq> nullptr \<and> wc_index_capacity wc > 0
         then
           let msk = wc_index_capacity wc - 1;
               slot = key_hash AND msk;
               (found, probes) = find_probe (unat (wc_index_capacity wc)) (wc_entries wc) (wc_slots wc) msk key_hash name
                                   elements slot (wc_index_probe_count wc)
           in (found, wc\<lparr>wc_index_lookup_count := wc_index_lookup_count wc + 1, wc_index_probe_count := probes\<rparr>)
         else (find_scan 0 (wc_entries wc) key_hash name elements,
               wc\<lparr>wc_index_fallback_count := wc_index_fallback_count wc + 1\<rparr>))"

text \<open>
  \<open>qrt_try_resident_weight_cache_view\<close> with all pointers given: the data, its hash and the bytes
  added to the caller's counter, or \<open>None\<close> for the return value 0.
\<close>

definition try_weight_view :: "weight_cache \<Rightarrow> string \<Rightarrow> u64 \<Rightarrow> (u64 \<times> u64 \<times> u64) option \<times> weight_cache" where
  "try_weight_view wc key weight_bytes =
     (if weight_bytes = 0 \<or> weight_bytes mod 2 \<noteq> 0 \<or> \<not> wc_enabled wc then (None, wc)
      else
        let elements = weight_bytes div 2;
            (found, wc) = find_weight_entry wc key elements
        in case found of
             None \<Rightarrow> (None, wc)
           | Some i \<Rightarrow>
               let e = wc_entries wc ! i
               in (Some (we_data e, we_fnv1a64 e, weight_bytes),
                   wc\<lparr>wc_entries := (wc_entries wc)[i := e\<lparr>we_hit_count := we_hit_count e + 1\<rparr>],
                      wc_hit_count := wc_hit_count wc + 1,
                      wc_hit_bytes := wc_hit_bytes wc + weight_bytes\<rparr>))"

section \<open>Store\<close>

text \<open>Growing the array: \<open>None\<close> when the doubled capacity wraps or the heap refuses.\<close>

definition grow_entries :: "core_env \<Rightarrow> weight_cache \<Rightarrow> core_hist \<Rightarrow> weight_cache option \<times> core_hist" where
  "grow_entries env wc h =
     (if entry_count wc = wc_entry_capacity wc
      then
        let new_capacity = (if wc_entry_capacity wc = 0 then 64 else wc_entry_capacity wc * 2)
        in if new_capacity < wc_entry_capacity wc then (None, h)
           else
             let (r, h) = ask env (CRealloc (wc_entries_ptr wc) (new_capacity * weight_entry_size)) h
             in if c_num r = nullptr then (None, h)
                else (Some (wc\<lparr>wc_entries_ptr := c_num r, wc_entry_capacity := new_capacity\<rparr>), h)
      else (Some wc, h))"

definition store_weight ::
  "core_env \<Rightarrow> weight_cache \<Rightarrow> u64 \<Rightarrow> string \<Rightarrow> u64 \<Rightarrow> u64 \<Rightarrow> u64 \<Rightarrow> u64 \<Rightarrow> core_hist \<Rightarrow> bool \<times> weight_cache \<times> core_hist" where
  "store_weight env wc name_ptr name data elements bytes hash h =
     (if name_ptr = nullptr \<or> data = nullptr \<or> elements = 0 \<or> bytes = 0 \<or> \<not> wc_enabled wc then (False, wc, h)
      else
        let (grown, h) = grow_entries env wc h
        in case grown of
             None \<Rightarrow> (False, wc\<lparr>wc_store_failure_count := wc_store_failure_count wc + 1\<rparr>, h)
           | Some wc \<Rightarrow>
               let entry = \<lparr>we_tensor_name = name_ptr, we_name = name, we_data = data, we_elements = elements,
                            we_bytes = bytes, we_key_hash = resident_weight_cache_key_hash name elements,
                            we_fnv1a64 = hash, we_hit_count = 0\<rparr>;
                   wc = wc\<lparr>wc_entries := wc_entries wc @ [entry], wc_bytes := wc_bytes wc + bytes\<rparr>;
                   (indexed, wc, h) = note_entry_added env wc (length (wc_entries wc) - 1) h
               in (True,
                   if indexed then wc else wc\<lparr>wc_store_failure_count := wc_store_failure_count wc + 1\<rparr>, h))"

section \<open>Invariant\<close>

text \<open>The slot that the \<open>p\<close>-th probe for a hash looks at, in an index of \<open>2 ^ k\<close> slots.\<close>

definition probe_slot :: "nat \<Rightarrow> u64 \<Rightarrow> nat \<Rightarrow> nat" where
  "probe_slot k hash p = (unat hash + p) mod 2 ^ k"

text \<open>
  The index covers the first \<open>m\<close> entries: every one of them is found by its probes, and the probes before
  it meet only earlier entries.
\<close>

definition index_covers :: "nat \<Rightarrow> nat \<Rightarrow> weight_entry list \<Rightarrow> u64 list \<Rightarrow> bool" where
  "index_covers k m entries slots \<longleftrightarrow>
     length slots = 2 ^ k \<and> m \<le> length entries \<and> length (filter (\<lambda>v. v \<noteq> 0) slots) = m \<and>
     (\<forall>v \<in> set slots. unat v \<le> m) \<and>
     (\<forall>i < m. \<exists>d < 2 ^ k. slots ! probe_slot k (we_key_hash (entries ! i)) d = of_nat (Suc i) \<and>
        (\<forall>p < d. let v = slots ! probe_slot k (we_key_hash (entries ! i)) p in v \<noteq> 0 \<and> unat v \<le> i))"

definition entry_ok :: "weight_entry \<Rightarrow> bool" where
  "entry_ok e \<longleftrightarrow> we_tensor_name e \<noteq> nullptr \<and> we_data e \<noteq> nullptr \<and> we_elements e \<noteq> 0 \<and>
     we_key_hash e = resident_weight_cache_key_hash (we_name e) (we_elements e)"

text \<open>
  How many entries lookups see: all of them without an index, the covered ones with it. An index that misses
  entries is too small for them, so that the next store tries to rebuild it.
\<close>

definition indexed :: "weight_cache \<Rightarrow> nat \<Rightarrow> bool" where
  "indexed wc m \<longleftrightarrow>
     (if wc_slots_ptr wc = nullptr then m = length (wc_entries wc)
      else \<exists>k. 0 < k \<and> k < 63 \<and> wc_index_capacity wc = 2 ^ k \<and> index_covers k m (wc_entries wc) (wc_slots wc) \<and>
             (m = length (wc_entries wc) \<or> 2 ^ k < 2 * length (wc_entries wc)))"

definition weights_wf :: "weight_cache \<Rightarrow> bool" where
  "weights_wf wc \<longleftrightarrow>
     length (wc_entries wc) \<le> unat (wc_entry_capacity wc) \<and> unat (wc_entry_capacity wc) * 56 \<le> 2 ^ 47 \<and>
     (wc_entries_ptr wc = nullptr \<longrightarrow> wc_entries wc = [] \<and> wc_entry_capacity wc = 0) \<and>
     (\<forall>e \<in> set (wc_entries wc). entry_ok e) \<and> (\<exists>m. indexed wc m)"

section \<open>Probing\<close>

lemma unat_pow2: "k < 64 \<Longrightarrow> unat (2 ^ k :: u64) = 2 ^ k"
  using unat_of_nat_small [of "2 ^ k", where 'a = 64] power_strict_increasing [of k 64 "2::nat"] by simp

lemma index_mask: "k < 64 \<Longrightarrow> (2 ^ k :: u64) - 1 = mask k"
  by (simp add: mask_eq_exp_minus_1)

lemma probe_first: "k < 64 \<Longrightarrow> unat (hash AND (2 ^ k - 1 :: u64)) = probe_slot k hash 0"
  by (simp add: unat_and_mask [OF index_mask] probe_slot_def)

lemma probe_next:
  assumes "k < 64" "unat slot = probe_slot k hash p"
  shows "unat ((slot + 1) AND (2 ^ k - 1 :: u64)) = probe_slot k hash (Suc p)"
proof -
  have "(2::nat) ^ k dvd 2 ^ 64" using assms(1) by (intro le_imp_power_dvd) simp
  then have "unat ((slot + 1) AND (2 ^ k - 1)) = (unat slot + 1) mod 2 ^ k"
    by (simp only: unat_and_mask [OF index_mask [OF assms(1)]] unat_add_mod) (simp add: mod_mod_cancel)
  then show ?thesis by (simp add: assms(2) probe_slot_def mod_Suc_eq)
qed

lemma probe_slot_less [simp]: "probe_slot k hash p < 2 ^ k"
  by (simp add: probe_slot_def)

text \<open>The probes visit every slot.\<close>

lemma probe_slot_surj:
  assumes "s < 2 ^ k"
  obtains p where "p < 2 ^ k" "probe_slot k hash p = s"
proof
  let ?a = "unat hash mod 2 ^ k"
  let ?p = "(s + 2 ^ k - ?a) mod 2 ^ k"
  have "?a \<le> s + 2 ^ k" by (rule order.trans [OF less_imp_le [OF mod_less_divisor]]) simp_all
  then have "(?a + (s + 2 ^ k - ?a)) mod 2 ^ k = s" using assms by simp
  then show "probe_slot k hash ?p = s"
    by (simp add: probe_slot_def mod_add_left_eq mod_add_right_eq)
  show "?p < 2 ^ k" by simp
qed

lemma find_probe_hit:
  assumes "k < 64" "unat slot = probe_slot k hash p" "p \<le> d" "d < p + n"
    and "\<And>q. p \<le> q \<Longrightarrow> q < d \<Longrightarrow> slots ! probe_slot k hash q \<noteq> 0 \<and>
      (let i = unat (slots ! probe_slot k hash q - 1) in i < length es \<longrightarrow> \<not> entry_matches hash name elements (es ! i))"
    and "slots ! probe_slot k hash d \<noteq> 0" "unat (slots ! probe_slot k hash d - 1) < length es"
    and "entry_matches hash name elements (es ! unat (slots ! probe_slot k hash d - 1))"
  shows "fst (find_probe n es slots (2 ^ k - 1) hash name elements slot probes) = Some (unat (slots ! probe_slot k hash d - 1))"
  using assms(2-5)
proof (induction n arbitrary: slot p probes)
  case (Suc n)
  show ?case
  proof (cases "p = d")
    case True
    then show ?thesis using Suc.prems(1) assms(6-8) by (simp add: Let_def)
  next
    case False
    then have "fst (find_probe n es slots (2 ^ k - 1) hash name elements ((slot + 1) AND (2 ^ k - 1)) (probes + 1)) =
        Some (unat (slots ! probe_slot k hash d - 1))"
      using Suc.prems probe_next [OF assms(1) Suc.prems(1)] by (intro Suc.IH [of _ "Suc p"]) auto
    then show ?thesis using Suc.prems(1) Suc.prems(4) [of p] False Suc.prems(2) by (auto simp: Let_def)
  qed
qed simp

lemma find_probe_miss:
  assumes "\<And>v. v \<in> set slots \<Longrightarrow> v \<noteq> 0 \<Longrightarrow> unat (v - 1) < length es \<Longrightarrow> \<not> entry_matches hash name elements (es ! unat (v - 1))"
    and "k < 64" "unat slot < 2 ^ k" "length slots = 2 ^ k"
  shows "fst (find_probe n es slots (2 ^ k - 1) hash name elements slot probes) = None"
  using assms(3)
proof (induction n arbitrary: slot probes)
  case (Suc n)
  have "unat ((slot + 1) AND (2 ^ k - 1)) < 2 ^ k"
    by (simp add: unat_and_mask [OF index_mask [OF assms(2)]])
  with Suc show ?case using assms(1) [of "slots ! unat slot"] assms(4) by (auto simp: Let_def)
qed simp

lemma insert_probe_free:
  assumes "k < 64" "unat slot = probe_slot k hash p" "p \<le> d" "d < p + n" "slots ! probe_slot k hash d = 0"
    and "\<And>q. p \<le> q \<Longrightarrow> q < d \<Longrightarrow> slots ! probe_slot k hash q \<noteq> 0 \<and> slots ! probe_slot k hash q \<noteq> v"
  shows "insert_probe n (2 ^ k - 1) v slot slots = Some (slots[probe_slot k hash d := v])"
  using assms(2-4,6)
proof (induction n arbitrary: slot p)
  case (Suc n)
  show ?case
  proof (cases "p = d")
    case True
    then show ?thesis using Suc.prems(1) assms(5) by (simp add: Let_def)
  next
    case False
    then have "insert_probe n (2 ^ k - 1) v ((slot + 1) AND (2 ^ k - 1)) slots = Some (slots[probe_slot k hash d := v])"
      using Suc.prems probe_next [OF assms(1) Suc.prems(1)] by (intro Suc.IH [of _ "Suc p"]) auto
    then show ?thesis using Suc.prems(1) Suc.prems(4) [of p] False Suc.prems(2) by (auto simp: Let_def)
  qed
qed simp

section \<open>Lookup finds what the scan finds\<close>

lemma find_scan_None: "find_scan j es hash name elements = None \<longleftrightarrow> (\<forall>e \<in> set es. \<not> entry_matches hash name elements e)"
  by (induction es arbitrary: j) auto

lemma find_scan_Some:
  "find_scan j es hash name elements = Some i \<Longrightarrow>
     j \<le> i \<and> i - j < length es \<and> entry_matches hash name elements (es ! (i - j)) \<and>
     (\<forall>q < i - j. \<not> entry_matches hash name elements (es ! q))"
proof (induction es arbitrary: j)
  case (Cons e es)
  show ?case
  proof (cases "entry_matches hash name elements e")
    case False
    with Cons.prems have IH: "Suc j \<le> i \<and> i - Suc j < length es \<and> entry_matches hash name elements (es ! (i - Suc j)) \<and>
        (\<forall>q < i - Suc j. \<not> entry_matches hash name elements (es ! q))"
      by (intro Cons.IH) simp
    then have "i - j = Suc (i - Suc j)" by arith
    with IH False show ?thesis by (auto simp: less_Suc_eq_0_disj)
  qed (use Cons.prems in simp)
qed simp

lemma find_scan_append:
  "find_scan j (xs @ ys) hash name elements =
     (case find_scan j xs hash name elements of Some i \<Rightarrow> Some i | None \<Rightarrow> find_scan (j + length xs) ys hash name elements)"
  by (induction xs arbitrary: j) (auto split: option.splits)

lemma small_successor: "i < 2 ^ 63 \<Longrightarrow> (of_nat (Suc i) :: u64) \<noteq> 0 \<and> unat ((of_nat (Suc i) :: u64) - 1) = i"
proof -
  assume i: "i < 2 ^ 63"
  then have u: "unat (of_nat (Suc i) :: u64) = Suc i" by (intro unat_of_nat_small) simp
  have "(of_nat (Suc i) :: u64) - 1 = of_nat i" by simp
  moreover have "unat (of_nat i :: u64) = i" using i by (intro unat_of_nat_small) simp
  ultimately show ?thesis using u by (metis nat.distinct(1) unat_0)
qed

lemma find_covered:
  assumes cov: "index_covers k m es slots" and k: "k < 64" and len: "length es < 2 ^ 63"
  shows "fst (find_probe (2 ^ k) es slots (2 ^ k - 1) hash name elements (hash AND (2 ^ k - 1)) probes) =
    find_scan 0 (take m es) hash name elements"
proof -
  have m: "m \<le> length es" and size: "length slots = 2 ^ k" and bound: "\<And>v. v \<in> set slots \<Longrightarrow> unat v \<le> m"
    using cov by (auto simp: index_covers_def)
  show ?thesis
  proof (cases "find_scan 0 (take m es) hash name elements")
    case None
    then have no: "i < m \<Longrightarrow> \<not> entry_matches hash name elements (es ! i)" for i
      using m nth_mem [of i "take m es"] by (auto simp: find_scan_None)
    have "fst (find_probe (2 ^ k) es slots (2 ^ k - 1) hash name elements (hash AND (2 ^ k - 1)) probes) = None"
    proof (rule find_probe_miss [OF _ k _ size])
      fix v assume v: "v \<in> set slots" "v \<noteq> 0"
      then have "unat (v - 1) = unat v - 1" by (simp add: unat_minus_one)
      moreover have "0 < unat v" using v(2) by (simp add: unat_gt_0)
      ultimately show "\<not> entry_matches hash name elements (es ! unat (v - 1))"
        using no bound [OF v(1)] by simp
    qed (simp add: probe_first [OF k])
    then show ?thesis using None by simp
  next
    case (Some i)
    from find_scan_Some [OF Some] m have i: "i < m" "entry_matches hash name elements (es ! i)"
      and first: "\<And>q. q < i \<Longrightarrow> \<not> entry_matches hash name elements (es ! q)" by auto
    then have "we_key_hash (es ! i) = hash" by (simp add: entry_matches_def)
    with cov i(1) obtain d where d: "d < 2 ^ k" "slots ! probe_slot k hash d = of_nat (Suc i)"
      and before: "\<And>p. p < d \<Longrightarrow> slots ! probe_slot k hash p \<noteq> 0 \<and> unat (slots ! probe_slot k hash p) \<le> i"
      unfolding index_covers_def Let_def by metis
    have s: "slots ! probe_slot k hash d \<noteq> 0" "unat (slots ! probe_slot k hash d - 1) = i"
      using small_successor [of i] d(2) i(1) m len by simp_all
    have "fst (find_probe (2 ^ k) es slots (2 ^ k - 1) hash name elements (hash AND (2 ^ k - 1)) probes) =
        Some (unat (slots ! probe_slot k hash d - 1))"
    proof (rule find_probe_hit [OF k probe_first [OF k]])
      fix q assume "0 \<le> q" "q < d"
      from before [OF this(2)] show "slots ! probe_slot k hash q \<noteq> 0 \<and>
        (let i = unat (slots ! probe_slot k hash q - 1) in i < length es \<longrightarrow> \<not> entry_matches hash name elements (es ! i))"
        using first by (auto simp: Let_def unat_minus_one) (metis Suc_pred less_eq_Suc_le unat_gt_0)
    qed (use s i m d in simp_all)
    then show ?thesis using Some s by simp
  qed
qed

lemma find_indexed:
  assumes "indexed wc m" "length (wc_entries wc) < 2 ^ 63"
  shows "fst (find_weight_entry wc name elements) =
    find_scan 0 (take m (wc_entries wc)) (resident_weight_cache_key_hash name elements) name elements"
proof (cases "wc_slots_ptr wc = nullptr")
  case True
  with assms(1) show ?thesis by (simp add: indexed_def find_weight_entry_def Let_def)
next
  case False
  with assms(1) obtain k where k: "k < 63" "wc_index_capacity wc = 2 ^ k" "index_covers k m (wc_entries wc) (wc_slots wc)"
    by (auto simp: indexed_def)
  then have "unat (wc_index_capacity wc) = 2 ^ k" by (simp add: unat_pow2)
  moreover from this have "wc_index_capacity wc > 0" by (metis power_not_zero unat_0 word_neq_0_conv zero_neq_numeral)
  moreover have "k < 64" using k(1) by simp
  ultimately show ?thesis
    using find_covered [OF k(3) _ assms(2)] k(2) False
    by (simp add: find_weight_entry_def Let_def case_prod_beta)
qed

section \<open>The index grows with the entries\<close>

lemma filter_update_zero:
  assumes "j < length xs" "xs ! j = (0 :: u64)" "v \<noteq> 0"
  shows "length (filter (\<lambda>x. x \<noteq> 0) (xs[j := v])) = Suc (length (filter (\<lambda>x. x \<noteq> 0) xs))"
proof -
  have "filter (\<lambda>x. x \<noteq> 0) xs = filter (\<lambda>x. x \<noteq> 0) (take j xs @ xs ! j # drop (Suc j) xs)"
    using assms(1) by (simp only: id_take_nth_drop [symmetric])
  then show ?thesis using assms by (simp add: upd_conv_take_nth_drop)
qed

lemma covers_insert:
  assumes cov: "index_covers k m es slots" and k: "k < 64" and m: "m < length es" "m < 2 ^ k" and small: "m < 2 ^ 63"
  shows "\<exists>slots'. insert_probe (2 ^ k) (2 ^ k - 1) (of_nat m + 1) (we_key_hash (es ! m) AND (2 ^ k - 1)) slots = Some slots' \<and>
    index_covers k (Suc m) es slots'"
proof -
  let ?h = "we_key_hash (es ! m)" and ?v = "of_nat (Suc m) :: u64"
  have size: "length slots = 2 ^ k" and cnt: "length (filter (\<lambda>v. v \<noteq> 0) slots) = m"
    and bound: "\<And>v. v \<in> set slots \<Longrightarrow> unat v \<le> m"
    using cov by (auto simp: index_covers_def)
  have "\<exists>s < 2 ^ k. slots ! s = 0"
  proof (rule ccontr)
    assume "\<not> ?thesis"
    then have "filter (\<lambda>v. v \<noteq> 0) slots = slots" by (auto simp: filter_id_conv in_set_conv_nth size)
    with cnt size m(2) show False by simp
  qed
  then obtain s where s: "s < 2 ^ k" "slots ! s = 0" by blast
  obtain p where p: "p < 2 ^ k" "probe_slot k ?h p = s" using probe_slot_surj [OF s(1)] by blast
  define d where "d = (LEAST d. slots ! probe_slot k ?h d = 0)"
  have d0: "slots ! probe_slot k ?h d = 0" unfolding d_def by (rule LeastI [of _ p]) (simp add: p s)
  have dp: "d \<le> p" unfolding d_def by (rule Least_le) (simp add: p s)
  have before: "slots ! probe_slot k ?h q \<noteq> 0" if "q < d" for q
    using that not_less_Least unfolding d_def by blast
  have in_set: "slots ! probe_slot k h q \<in> set slots" for h q by (simp add: size)
  have v: "unat ?v = Suc m" using small by (intro unat_of_nat_small) simp
  then have v0: "?v \<noteq> 0" by (metis nat.distinct(1) unat_0)
  let ?slots = "slots[probe_slot k ?h d := ?v]"
  have "insert_probe (2 ^ k) (2 ^ k - 1) ?v (?h AND (2 ^ k - 1)) slots = Some ?slots"
    using before d0 dp p(1) bound [OF in_set] v
    by (intro insert_probe_free [OF k probe_first [OF k]]) (auto, metis Suc_n_not_le_n)
  moreover have "index_covers k (Suc m) es ?slots"
    unfolding index_covers_def
  proof (intro conjI allI impI ballI)
    show "length (filter (\<lambda>v. v \<noteq> 0) ?slots) = Suc m" using filter_update_zero [OF _ d0 v0] size cnt by simp
    show "unat x \<le> Suc m" if "x \<in> set ?slots" for x
      using set_update_subset_insert [of slots "probe_slot k ?h d" ?v] that bound v by fastforce
  next
    fix i assume i: "i < Suc m"
    have same: "?slots ! probe_slot k h q = slots ! probe_slot k h q" if "slots ! probe_slot k h q \<noteq> 0" for h q
      using that d0 by (cases "probe_slot k h q = probe_slot k ?h d") auto
    show "\<exists>e < 2 ^ k. ?slots ! probe_slot k (we_key_hash (es ! i)) e = of_nat (Suc i) \<and>
        (\<forall>p < e. let v = ?slots ! probe_slot k (we_key_hash (es ! i)) p in v \<noteq> 0 \<and> unat v \<le> i)"
    proof (cases "i = m")
      case True
      show ?thesis
        using dp p(1) before same bound [OF in_set] by (intro exI [of _ d]) (auto simp: True size Let_def)
    next
      case False
      with i cov obtain e where e: "e < 2 ^ k" "slots ! probe_slot k (we_key_hash (es ! i)) e = of_nat (Suc i)"
        and pre: "\<And>p. p < e \<Longrightarrow> slots ! probe_slot k (we_key_hash (es ! i)) p \<noteq> 0 \<and>
          unat (slots ! probe_slot k (we_key_hash (es ! i)) p) \<le> i"
        unfolding index_covers_def Let_def by (metis less_antisym)
      have "of_nat (Suc i) \<noteq> (0 :: u64)" using small_successor [of i] i small by simp
      with e pre same show ?thesis by (intro exI [of _ e]) (auto simp: Let_def)
    qed
  qed (use m size in simp_all)
  ultimately show ?thesis by (metis of_nat_Suc add.commute)
qed

lemma index_insert_raw_covers:
  assumes "wc_slots_ptr wc \<noteq> nullptr" "wc_index_capacity wc = 2 ^ k" "k < 63"
    and "index_covers k m (wc_entries wc) (wc_slots wc)" "m < length (wc_entries wc)" "m < 2 ^ k"
    and "entry_ok (wc_entries wc ! m)"
  shows "\<exists>slots. index_insert_raw wc m = Some (wc\<lparr>wc_slots := slots\<rparr>) \<and> index_covers k (Suc m) (wc_entries wc) slots"
proof -
  have u: "unat (wc_index_capacity wc) = 2 ^ k" using assms(2,3) by (simp add: unat_pow2)
  then have "wc_index_capacity wc \<noteq> 0" by auto
  moreover have "m < 2 ^ 63" using assms(3,6) by (meson less_imp_le order.strict_trans2 one_le_numeral power_increasing)
  ultimately show ?thesis
    using covers_insert [OF assms(4) _ assms(5,6)] assms u by (auto simp: index_insert_raw_def entry_ok_def Let_def)
qed

lemma insert_all_covers:
  assumes "wc_slots_ptr wc \<noteq> nullptr" "wc_index_capacity wc = 2 ^ k" "k < 63" "length (wc_entries wc) \<le> 2 ^ k"
    and "\<forall>e \<in> set (wc_entries wc). entry_ok e" "index_covers k m (wc_entries wc) (wc_slots wc)"
  shows "\<exists>slots. insert_all [m..<length (wc_entries wc)] wc = (True, wc\<lparr>wc_slots := slots\<rparr>) \<and>
    index_covers k (length (wc_entries wc)) (wc_entries wc) slots"
  using assms
proof (induction "length (wc_entries wc) - m" arbitrary: m wc)
  case 0
  then have "m = length (wc_entries wc)" by (simp add: index_covers_def)
  with 0 show ?case by (intro exI [of _ "wc_slots wc"]) simp
next
  case (Suc n)
  then have m: "m < length (wc_entries wc)" by simp
  with Suc.prems obtain slots where one: "index_insert_raw wc m = Some (wc\<lparr>wc_slots := slots\<rparr>)"
      "index_covers k (Suc m) (wc_entries wc) slots"
    using index_insert_raw_covers [of wc k m] by auto
  have "\<exists>slots'. insert_all [Suc m..<length (wc_entries (wc\<lparr>wc_slots := slots\<rparr>))] (wc\<lparr>wc_slots := slots\<rparr>) =
      (True, wc\<lparr>wc_slots := slots\<rparr>\<lparr>wc_slots := slots'\<rparr>) \<and>
    index_covers k (length (wc_entries (wc\<lparr>wc_slots := slots\<rparr>))) (wc_entries (wc\<lparr>wc_slots := slots\<rparr>)) slots'"
    using Suc.hyps(2) Suc.prems one(2) m by (intro Suc.hyps(1)) auto
  with one(1) show ?case using m by (simp add: upt_conv_Cons)
qed

lemma covers_none: "index_covers k 0 es (replicate (2 ^ k) 0)"
  by (simp add: index_covers_def)

lemma grow_capacity_spec:
  assumes "k \<le> 62" "goal \<le> 2 ^ 62"
  shows "\<exists>j. grow_capacity k goal = Some (2 ^ j) \<and> k \<le> j \<and> j \<le> 62 \<and> goal \<le> 2 ^ j"
  using assms(1)
proof (induction "62 - k" arbitrary: k)
  case 0
  then show ?case using assms(2) by (intro exI [of _ 62]) (simp add: grow_capacity.simps [of 62])
next
  case (Suc n)
  show ?case
  proof (cases "2 ^ k < goal")
    case True
    have "(2::nat) ^ k \<le> 2 ^ 62" using Suc.prems by (intro power_increasing) simp_all
    then have "\<not> 2 ^ k > (2 ^ 64 - 1 :: nat) div 2" by simp
    moreover have "\<exists>j. grow_capacity (Suc k) goal = Some (2 ^ j) \<and> Suc k \<le> j \<and> j \<le> 62 \<and> goal \<le> 2 ^ j"
      using Suc.hyps(2) by (intro Suc.hyps(1)) auto
    ultimately show ?thesis using True by (auto simp: grow_capacity.simps [of k])
  qed (use Suc.prems in \<open>auto simp: grow_capacity.simps [of k] intro!: exI [of _ k]\<close>)
qed

text \<open>The number of entries that lookups see.\<close>

definition covered :: "weight_cache \<Rightarrow> nat" where
  "covered wc = (if wc_slots_ptr wc = nullptr then length (wc_entries wc) else length (filter (\<lambda>v. v \<noteq> 0) (wc_slots wc)))"

lemma indexed_covered: "indexed wc m \<Longrightarrow> m = covered wc"
  by (auto simp: indexed_def covered_def index_covers_def split: if_splits)

definition weight_resources :: "weight_cache \<Rightarrow> core_resource multiset" where
  "weight_resources wc = block_resource (wc_entries_ptr wc) + block_resource (wc_slots_ptr wc) +
     (\<Sum>e\<leftarrow>wc_entries wc. block_resource (we_tensor_name e) + block_resource (we_data e))"

text \<open>
  What updating the index after a store may do: the entries stay, every failure is a refused allocation, and
  after success the index covers every entry.
\<close>

definition index_updated ::
  "core_env \<Rightarrow> weight_cache \<Rightarrow> core_hist \<Rightarrow> bool \<Rightarrow> weight_cache \<Rightarrow> core_hist \<Rightarrow> bool" where
  "index_updated env wc h ok wc' h' \<longleftrightarrow>
     wc_entries wc' = wc_entries wc \<and> wc_entries_ptr wc' = wc_entries_ptr wc \<and>
     wc_entry_capacity wc' = wc_entry_capacity wc \<and> wc_enabled wc' = wc_enabled wc \<and>
     (\<exists>m. indexed wc' m) \<and> (ok \<longrightarrow> covered wc' = length (wc_entries wc')) \<and>
     (\<not> ok \<longrightarrow> wc' = wc \<and> (\<exists>m n. h' = (CCalloc m n, env h (CCalloc m n)) # h \<and> c_num (env h (CCalloc m n)) = nullptr)) \<and>
     (\<forall>R. core_owns h (weight_resources wc + R) \<longrightarrow> core_owns h' (weight_resources wc' + R))"

lemma rebuild_index_updates:
  assumes run: "rebuild_index env wc target h = (ok, wc', h')"
    and target: "unat target = length (wc_entries wc)" "length (wc_entries wc) < 2 ^ 60"
    and "\<forall>e \<in> set (wc_entries wc). entry_ok e" "\<exists>m. indexed wc m"
  shows "index_updated env wc h ok wc' h'"
proof -
  have "unat (target * 2) = 2 * length (wc_entries wc)"
    using target by (simp add: unat_mult_mod)
  then obtain j where j: "grow_capacity 6 (unat (target * 2)) = Some (2 ^ j)" "6 \<le> j" "j \<le> 62"
      "2 * length (wc_entries wc) \<le> 2 ^ j"
    using grow_capacity_spec [of 6 "unat (target * 2)"] target(2) by auto
  let ?c = "CCalloc (of_nat (2 ^ j)) 8"
  let ?r = "env h ?c"
  show ?thesis
  proof (cases "c_num ?r = nullptr")
    case True
    then show ?thesis
      using run j assms(5) by (auto simp: rebuild_index_def Let_def ask_def index_updated_def core_owns_neutral)
  next
    case False
    let ?h = "c_free env (wc_slots_ptr wc) ((?c, ?r) # h)"
    let ?w = "wc\<lparr>wc_slots_ptr := c_num ?r, wc_slots := replicate (2 ^ j) 0, wc_index_capacity := of_nat (2 ^ j)\<rparr>"
    obtain slots where all: "insert_all [0..<length (wc_entries ?w)] ?w = (True, ?w\<lparr>wc_slots := slots\<rparr>)"
        and cov: "index_covers j (length (wc_entries ?w)) (wc_entries ?w) slots"
      using insert_all_covers [of ?w j 0] False j assms(4) covers_none by auto
    then have res: "ok" "wc' = ?w\<lparr>wc_slots := slots\<rparr>" "h' = ?h"
      using run j(1) False by (auto simp: rebuild_index_def Let_def ask_def)
    have ix: "indexed wc' (length (wc_entries wc'))"
      using cov j(2,3) False by (auto simp: indexed_def res intro!: exI [of _ j])
    have "core_owns h' (weight_resources wc' + R)" if "core_owns h (weight_resources wc + R)" for R
    proof -
      have "core_owns ((?c, ?r) # h) (block_resource (c_num ?r) + (weight_resources wc + R))"
        by (rule core_owns_calloc [OF that])
      then show ?thesis by (simp add: res weight_resources_def ac_simps)
    qed
    then show ?thesis
      using ix indexed_covered [OF ix] res by (auto simp: index_updated_def)
  qed
qed

lemma index_covers_append: "index_covers k m es slots \<Longrightarrow> index_covers k m (es @ [e]) slots"
  by (auto simp: index_covers_def nth_append)

text \<open>The entry that was appended to a well-formed cache enters the index.\<close>

lemma note_entry_added_updates:
  assumes run: "note_entry_added env (wc\<lparr>wc_entries := wc_entries wc @ [e], wc_bytes := b\<rparr>) (length (wc_entries wc)) h = (ok, wc', h')"
    and ok: "\<forall>x \<in> set (wc_entries wc). entry_ok x" "entry_ok e" "indexed wc m" "length (wc_entries wc) < 2 ^ 60 - 1"
  shows "index_updated env (wc\<lparr>wc_entries := wc_entries wc @ [e], wc_bytes := b\<rparr>) h ok wc' h'"
proof -
  let ?w = "wc\<lparr>wc_entries := wc_entries wc @ [e], wc_bytes := b\<rparr>" and ?n = "length (wc_entries wc)"
  let ?t = "of_nat ?n + 1 :: u64"
  have "unat (of_nat (Suc ?n) :: u64) = Suc ?n" using ok(4) by (intro unat_of_nat_small) simp
  moreover have "of_nat (Suc ?n) = ?t" by (simp only: of_nat_Suc add.commute)
  ultimately have t: "unat ?t = Suc ?n" by (simp only:)
  have t2: "unat (?t * 2) = 2 * Suc ?n" using ok(4) by (simp only: unat_mult_mod t) simp
  show ?thesis
  proof (cases "wc_slots_ptr wc = nullptr \<or> wc_index_capacity wc < ?t * 2")
    case True
    then have "rebuild_index env ?w ?t h = (ok, wc', h')"
      using run by (simp add: note_entry_added_def Let_def)
    moreover have "\<exists>m. indexed ?w m"
    proof (cases "wc_slots_ptr wc = nullptr")
      case False
      with True have lt: "wc_index_capacity wc < ?t * 2" by simp
      from False ok(3) obtain k where k: "0 < k" "k < 63" "wc_index_capacity wc = 2 ^ k" "index_covers k m (wc_entries wc) (wc_slots wc)"
        by (auto simp: indexed_def)
      have "2 ^ k < 2 * Suc ?n" using lt t2 k(2,3) by (simp add: word_less_nat_alt unat_pow2)
      with False k index_covers_append [OF k(4)] have "indexed ?w m" by (auto simp: indexed_def intro!: exI [of _ k])
      then show ?thesis ..
    qed (simp add: indexed_def)
    ultimately show ?thesis
      using ok t by (intro rebuild_index_updates) auto
  next
    case False
    with ok(3) obtain k where k: "0 < k" "k < 63" "wc_index_capacity wc = 2 ^ k" "index_covers k m (wc_entries wc) (wc_slots wc)"
        "m = ?n \<or> 2 ^ k < 2 * ?n"
      by (auto simp: indexed_def)
    have "2 * Suc ?n \<le> 2 ^ k" using False t2 k(2,3) by (auto simp: word_less_nat_alt unat_pow2)
    with k(5) have m: "m = ?n" "?n < 2 ^ k" by auto
    obtain slots where ins: "index_insert_raw ?w ?n = Some (?w\<lparr>wc_slots := slots\<rparr>)"
        and cov: "index_covers k (Suc ?n) (wc_entries ?w) slots"
      using index_insert_raw_covers [of ?w k ?n] False k index_covers_append [OF k(4)] m ok(2) by auto
    with run False have res: "ok" "wc' = ?w\<lparr>wc_slots := slots\<rparr>" "h' = h"
      by (simp_all add: note_entry_added_def Let_def)
    have ix: "indexed wc' (Suc ?n)" using cov k False by (auto simp: indexed_def res intro!: exI [of _ k])
    show ?thesis
      using ix indexed_covered [OF ix] res by (auto simp: index_updated_def weight_resources_def)
  qed
qed

section \<open>Storing and viewing weights\<close>

lemma grow_entries_wf:
  assumes "weights_wf wc" "heap_bounded env" "grow_entries env wc h = (Some w, h')"
  shows "weights_wf w \<and> length (wc_entries w) < unat (wc_entry_capacity w) \<and>
    wc_entries w = wc_entries wc \<and> wc_enabled w = wc_enabled wc \<and> covered w = covered wc \<and>
    wc_slots_ptr w = wc_slots_ptr wc \<and> wc_entries_ptr w \<noteq> nullptr \<and>
    (core_owns h (weight_resources wc + R) \<longrightarrow> core_owns h' (weight_resources w + R))"
proof -
  let ?n = "length (wc_entries wc)" and ?c = "wc_entry_capacity wc"
  have wf: "?n \<le> unat ?c" "unat ?c * 56 \<le> 2 ^ 47" "wc_entries_ptr wc = nullptr \<Longrightarrow> ?c = 0"
    using assms(1) by (auto simp: weights_wf_def)
  then have small: "?n < 2 ^ 60" "unat ?c < 2 ^ 60" by simp_all
  then have n: "unat (entry_count wc) = ?n"
    unfolding entry_count_def by (intro unat_of_nat_small) simp
  show ?thesis
  proof (cases "entry_count wc = ?c")
    case False
    then have "?n \<noteq> unat ?c" using n by (auto simp: word_unat_eq_iff)
    with False assms(1,3) wf show ?thesis by (auto simp: grow_entries_def)
  next
    case True
    let ?new = "if ?c = 0 then 64 else ?c * 2"
    let ?call = "CRealloc (wc_entries_ptr wc) (?new * weight_entry_size)"
    have new: "unat ?new = (if ?c = 0 then 64 else unat ?c * 2)" using small by (simp add: unat_mult_mod)
    with small wf have bytes: "unat (?new * weight_entry_size) = unat ?new * 56"
      by (simp add: unat_mult_mod weight_entry_size_def)
    from True assms(3) have ok: "c_num (env h ?call) \<noteq> nullptr" and h': "h' = (?call, env h ?call) # h"
      and w: "w = wc\<lparr>wc_entries_ptr := c_num (env h ?call), wc_entry_capacity := ?new\<rparr>"
      by (auto simp: grow_entries_def Let_def ask_def split: if_splits)
    have "unat ?new * 56 \<le> 2 ^ 47" using assms(2) ok bytes unfolding heap_bounded_def by metis
    moreover have "?c \<noteq> 0 \<Longrightarrow> 0 < unat ?c" by (simp add: unat_gt_0)
    then have "?n < unat ?new" using new n True by auto
    moreover have "core_owns h' (weight_resources w + R)" if "core_owns h (weight_resources wc + R)"
    proof -
      let ?rest = "block_resource (wc_slots_ptr wc) +
        (\<Sum>e\<leftarrow>wc_entries wc. block_resource (we_tensor_name e) + block_resource (we_data e)) + R"
      have "core_owns h' (block_resource (c_num (env h ?call)) + ?rest)"
        unfolding h' by (rule core_owns_realloc(1) [OF _ ok]) (use that in \<open>simp add: weight_resources_def add.assoc\<close>)
      then show ?thesis by (simp add: w weight_resources_def add.assoc)
    qed
    moreover have "indexed w m \<longleftrightarrow> indexed wc m" for m by (simp add: w indexed_def)
    ultimately show ?thesis
      using assms(1) ok by (simp add: weights_wf_def w h' covered_def)
  qed
qed

lemma grow_entries_refused:
  assumes "weights_wf wc" "grow_entries env wc h = (None, h')"
  shows "\<exists>p n r. h' = (CRealloc p n, r) # h \<and> c_num r = nullptr"
proof -
  have "unat (wc_entry_capacity wc) < 2 ^ 60" using assms(1) by (simp add: weights_wf_def)
  then have "unat (wc_entry_capacity wc * 2) = unat (wc_entry_capacity wc) * 2" by (simp add: unat_mult_mod)
  then have "\<not> (if wc_entry_capacity wc = 0 then 64 else wc_entry_capacity wc * 2) < wc_entry_capacity wc"
    by (simp add: word_less_nat_alt)
  with assms(2) show ?thesis
    by (auto simp: grow_entries_def Let_def ask_def split: if_splits)
qed

text \<open>Every outcome of a store on a well-formed cache.\<close>

lemma store_weight_cases:
  assumes "weights_wf wc" "heap_bounded env" "store_weight env wc np name data elements bytes hash h = (ok, wc', h')"
  obtains (refused) "\<not> ok" "wc' = wc \<or> wc' = wc\<lparr>wc_store_failure_count := wc_store_failure_count wc + 1\<rparr>"
      "h' = h \<or> (\<exists>p n r. h' = (CRealloc p n, r) # h \<and> c_num r = nullptr)"
  | (stored) w h1 w' indexed e where "ok" "grow_entries env wc h = (Some w, h1)" "np \<noteq> nullptr" "data \<noteq> nullptr"
      "e = \<lparr>we_tensor_name = np, we_name = name, we_data = data, we_elements = elements, we_bytes = bytes,
            we_key_hash = resident_weight_cache_key_hash name elements, we_fnv1a64 = hash, we_hit_count = 0\<rparr>"
      "entry_ok e"
      "index_updated env (w\<lparr>wc_entries := wc_entries w @ [e], wc_bytes := wc_bytes w + bytes\<rparr>) h1 indexed w' h'"
      "wc' = (if indexed then w' else w'\<lparr>wc_store_failure_count := wc_store_failure_count w' + 1\<rparr>)"
proof (cases "np = nullptr \<or> data = nullptr \<or> elements = 0 \<or> bytes = 0 \<or> \<not> wc_enabled wc")
  case True
  then show ?thesis using assms(3) refused by (auto simp: store_weight_def)
next
  case False
  obtain g h1 where g: "grow_entries env wc h = (g, h1)" by fastforce
  show ?thesis
  proof (cases g)
    case None
    then show ?thesis
      using False assms(3) g refused grow_entries_refused [OF assms(1), of env h h1] by (auto simp: store_weight_def)
  next
    case (Some w)
    define e where "e = \<lparr>we_tensor_name = np, we_name = name, we_data = data, we_elements = elements, we_bytes = bytes,
            we_key_hash = resident_weight_cache_key_hash name elements, we_fnv1a64 = hash, we_hit_count = 0\<rparr>"
    let ?w = "w\<lparr>wc_entries := wc_entries w @ [e], wc_bytes := wc_bytes w + bytes\<rparr>"
    obtain ix w' h2 where n: "note_entry_added env ?w (length (wc_entries w)) h1 = (ix, w', h2)" by (metis prod_cases3)
    have wf: "weights_wf w" "length (wc_entries w) < unat (wc_entry_capacity w)"
      using grow_entries_wf [OF assms(1,2) g [unfolded Some], where R = "{#}"] by blast+
    then obtain m where m: "indexed w m" by (auto simp: weights_wf_def)
    have e: "entry_ok e" using False by (simp add: e_def entry_ok_def)
    have "index_updated env ?w h1 ix w' h2"
      using wf by (intro note_entry_added_updates [OF n _ e m]) (auto simp: weights_wf_def)
    then show ?thesis
      using False assms(3) g n e stored [of w h1 e ix w'] by (simp add: store_weight_def Let_def Some e_def)
  qed
qed

lemma index_updated_wf:
  assumes "index_updated env wc h ok wc' h'" "length (wc_entries wc) \<le> unat (wc_entry_capacity wc)"
    and "unat (wc_entry_capacity wc) * 56 \<le> 2 ^ 47" "wc_entries_ptr wc \<noteq> nullptr" "\<forall>e \<in> set (wc_entries wc). entry_ok e"
  shows "weights_wf wc'"
proof -
  have "wc_entries wc' = wc_entries wc" "wc_entry_capacity wc' = wc_entry_capacity wc" "wc_entries_ptr wc' = wc_entries_ptr wc"
    using assms(1) by (auto simp: index_updated_def)
  with assms show ?thesis by (auto simp: weights_wf_def index_updated_def)
qed

lemma failure_count_irrelevant [simp]:
  "weights_wf (wc\<lparr>wc_store_failure_count := n\<rparr>) \<longleftrightarrow> weights_wf wc"
  "covered (wc\<lparr>wc_store_failure_count := n\<rparr>) = covered wc"
  "weight_resources (wc\<lparr>wc_store_failure_count := n\<rparr>) = weight_resources wc"
  "indexed (wc\<lparr>wc_store_failure_count := n\<rparr>) m \<longleftrightarrow> indexed wc m"
  "fst (find_weight_entry (wc\<lparr>wc_store_failure_count := n\<rparr>) name elements) = fst (find_weight_entry wc name elements)"
  by (simp_all add: weights_wf_def covered_def weight_resources_def indexed_def find_weight_entry_def Let_def case_prod_beta)

lemma store_weight_outcome:
  assumes "weights_wf wc" "heap_bounded env" "store_weight env wc np name data elements bytes hash h = (ok, wc', h')"
    and "core_owns h (weight_resources wc + (block_resource np + block_resource data) + R)"
  shows "weights_wf wc' \<and>
    wc_entries wc' = wc_entries wc @
      (if ok then [\<lparr>we_tensor_name = np, we_name = name, we_data = data, we_elements = elements, we_bytes = bytes,
         we_key_hash = resident_weight_cache_key_hash name elements, we_fnv1a64 = hash, we_hit_count = 0\<rparr>] else []) \<and>
    core_owns h' (weight_resources wc' + (if ok then {#} else block_resource np + block_resource data) + R)"
  using assms(1-3)
proof (cases rule: store_weight_cases)
  case refused
  then show ?thesis using assms(1,4) by (auto simp: core_owns_realloc(2))
next
  case (stored w h1 w' ix e)
  let ?w = "w\<lparr>wc_entries := wc_entries w @ [e], wc_bytes := wc_bytes w + bytes\<rparr>"
  note G = grow_entries_wf [OF assms(1,2) stored(2), of "block_resource np + block_resource data + R"]
  have w: "wc_entries w = wc_entries wc" using G by auto
  have e': "wc_entries w' = wc_entries ?w"
    using stored(7) by (auto simp: index_updated_def)
  have wf: "weights_wf w'"
    using index_updated_wf [OF stored(7)] G stored(6) by (auto simp: weights_wf_def)
  have "core_owns h1 (weight_resources w + (block_resource np + block_resource data + R))"
    using G assms(4) by (simp add: add.assoc)
  then have "core_owns h1 (weight_resources ?w + R)"
    using stored(5) by (simp add: weight_resources_def ac_simps)
  then have own: "core_owns h' (weight_resources w' + R)" using stored(7) by (simp add: index_updated_def)
  show ?thesis using wf own e' w stored(1,5,8) by auto
qed

text \<open>C14. A store keeps the cache well-formed whatever the heap answers: it appends exactly the new entry and takes
  over the blocks of the name and the data, or it returns 0, keeps the entries and leaves both blocks to the
  caller. Nothing is leaked or freed twice. After a successful store the index covers every entry unless its
  allocation was refused.\<close>

theorem store_weight_keeps:
  assumes "weights_wf wc" "heap_bounded env" "store_weight env wc np name data elements bytes hash h = (ok, wc', h')"
    and "core_owns h (weight_resources wc + (block_resource np + block_resource data) + R)"
  shows "weights_wf wc' \<and>
    wc_entries wc' = wc_entries wc @
      (if ok then [\<lparr>we_tensor_name = np, we_name = name, we_data = data, we_elements = elements, we_bytes = bytes,
         we_key_hash = resident_weight_cache_key_hash name elements, we_fnv1a64 = hash, we_hit_count = 0\<rparr>] else []) \<and>
    core_owns h' (weight_resources wc' + (if ok then {#} else block_resource np + block_resource data) + R) \<and>
    (ok \<longrightarrow> covered wc' = length (wc_entries wc') \<or> (\<exists>m n r h''. h' = (CCalloc m n, r) # h'' \<and> c_num r = nullptr))"
proof -
  have "covered wc' = length (wc_entries wc') \<or> (\<exists>m n r h''. h' = (CCalloc m n, r) # h'' \<and> c_num r = nullptr)" if ok
    using assms(1-3)
  proof (cases rule: store_weight_cases)
    case (stored w h1 w' ix e)
    then show ?thesis by (auto simp: index_updated_def)
  qed (use that in simp)
  then show ?thesis using store_weight_outcome [OF assms] by blast
qed

text \<open>A heap that grants a small request, and one that refuses to enlarge an index.\<close>

definition example_heap :: "bool \<Rightarrow> core_env" where
  "example_heap calloc_ok h c =
     \<lparr>c_ok = True,
      c_num = (case c of CRealloc _ n \<Rightarrow> if unat n \<le> 2 ^ 47 then 4096 else nullptr
               | CCalloc _ _ \<Rightarrow> if calloc_ok then 8192 else nullptr | _ \<Rightarrow> nullptr),
      c_int = 0, c_bytes = []\<rparr>"

lemma example_heap_bounded: "heap_bounded (example_heap b)"
  by (simp add: heap_bounded_def example_heap_def)

lemma empty_weight_cache_wf: "weights_wf (empty_weight_cache b)"
  by (simp add: weights_wf_def empty_weight_cache_def indexed_def)

lemma example_store:
  obtains wc' h' where "store_weight (example_heap True) (empty_weight_cache True) 1 ''w'' 2 8 16 77 h = (True, wc', h')"
proof -
  have "fst (store_weight (example_heap True) (empty_weight_cache True) 1 ''w'' 2 8 16 77 h)"
    by (simp add: store_weight_def empty_weight_cache_def grow_entries_def entry_count_def Let_def ask_def example_heap_def
        nullptr_def weight_entry_size_def case_prod_beta)
  then show ?thesis
    using that by (metis (full_types) prod.collapse)
qed

theorem store_weight_keeps_witness:
  "\<exists>wc' h'. store_weight (example_heap True) (empty_weight_cache True) 1 ''w'' 2 8 16 77
       [(CMalloc 2, \<lparr>c_ok = True, c_num = 1, c_int = 0, c_bytes = []\<rparr>), (CMalloc 16, \<lparr>c_ok = True, c_num = 2, c_int = 0, c_bytes = []\<rparr>)]
       = (True, wc', h') \<and> length (wc_entries wc') = 1 \<and> core_owns h' (weight_resources wc')"
proof -
  let ?h = "[(CMalloc 2, \<lparr>c_ok = True, c_num = 1, c_int = 0, c_bytes = []\<rparr>),
    (CMalloc 16, \<lparr>c_ok = True, c_num = 2, c_int = 0, c_bytes = []\<rparr>)] :: core_hist"
  obtain wc' h' where run: "store_weight (example_heap True) (empty_weight_cache True) 1 ''w'' 2 8 16 77 ?h = (True, wc', h')"
    using example_store [of ?h] by metis
  have "core_owns ?h (weight_resources (empty_weight_cache True) + (block_resource 1 + block_resource 2) + {#})"
    by (simp add: core_owns_def weight_resources_def empty_weight_cache_def block_resource_def nullptr_def)
  from store_weight_keeps [OF empty_weight_cache_wf example_heap_bounded run this] run
  show ?thesis by (auto simp: empty_weight_cache_def)
qed

lemma weights_wf_small: "weights_wf wc \<Longrightarrow> length (wc_entries wc) < 2 ^ 60"
  by (auto simp: weights_wf_def)

lemma find_sees:
  assumes "weights_wf wc"
  shows "fst (find_weight_entry wc name elements) =
    find_scan 0 (take (covered wc) (wc_entries wc)) (resident_weight_cache_key_hash name elements) name elements"
proof -
  obtain m where m: "indexed wc m" using assms by (auto simp: weights_wf_def)
  then show ?thesis using find_indexed [OF m] indexed_covered [OF m] weights_wf_small [OF assms] by simp
qed

text \<open>Caches with a built index, for examples: the names are runs of the letter a.\<close>

lemma covers_all: "m \<le> length es \<Longrightarrow> k < 63 \<Longrightarrow> m \<le> 2 ^ k \<Longrightarrow> \<exists>slots. index_covers k m es slots"
proof (induction m)
  case 0
  then show ?case using covers_none by blast
next
  case (Suc m)
  then obtain slots where "index_covers k m es slots" by auto
  moreover have "m < 2 ^ 63"
  proof -
    have "(2::nat) ^ k \<le> 2 ^ 63" using Suc.prems(2) by (intro power_increasing) simp_all
    then show ?thesis using Suc.prems(3) by simp
  qed
  ultimately show ?case using covers_insert [of k m es slots] Suc.prems by auto
qed

definition example_entry :: "nat \<Rightarrow> weight_entry" where
  "example_entry i = \<lparr>we_tensor_name = 1, we_name = replicate (Suc i) CHR ''a'', we_data = 2, we_elements = 8, we_bytes = 16,
     we_key_hash = resident_weight_cache_key_hash (replicate (Suc i) CHR ''a'') 8, we_fnv1a64 = 77, we_hit_count = 0\<rparr>"

lemma example_cache:
  assumes "n \<le> 32"
  obtains wc where "weights_wf wc" "wc_slots_ptr wc \<noteq> nullptr" "wc_index_capacity wc = 64" "wc_entries wc = map example_entry [0..<n]"
    "wc_enabled wc" "wc_entry_capacity wc = 64"
proof -
  let ?es = "map example_entry [0..<n]"
  obtain slots where cov: "index_covers 6 n ?es slots" using covers_all [of n ?es 6] assms by auto
  let ?wc = "(empty_weight_cache True)\<lparr>wc_entries_ptr := 4096, wc_entries := ?es, wc_entry_capacity := 64,
    wc_slots_ptr := 8192, wc_slots := slots, wc_index_capacity := 64\<rparr>"
  have "indexed ?wc n" using cov by (auto simp: indexed_def nullptr_def intro!: exI [of _ 6])
  moreover have "entry_ok (example_entry i)" for i by (simp add: example_entry_def entry_ok_def nullptr_def)
  ultimately have "weights_wf ?wc" using assms by (auto simp: weights_wf_def nullptr_def)
  then show thesis by (rule that) (simp_all add: nullptr_def empty_weight_cache_def)
qed

text \<open>C15. The hash index answers like the scan it replaces: a lookup returns the first entry with the requested name and
  element count among the entries the index covers, duplicates and colliding hashes included, and nothing when
  there is none. Without an index, or with a complete one, these are all entries.\<close>

theorem find_weight_entry_scans:
  assumes "weights_wf wc"
  shows "fst (find_weight_entry wc name elements) =
      find_scan 0 (take (covered wc) (wc_entries wc)) (resident_weight_cache_key_hash name elements) name elements \<and>
    (fst (find_weight_entry wc name elements) = Some i \<longrightarrow>
       find_scan 0 (wc_entries wc) (resident_weight_cache_key_hash name elements) name elements = Some i) \<and>
    (wc_slots_ptr wc = nullptr \<or> 2 * of_nat (length (wc_entries wc)) \<le> wc_index_capacity wc \<longrightarrow>
       covered wc = length (wc_entries wc))"
proof -
  obtain m where m: "indexed wc m" using assms by (auto simp: weights_wf_def)
  let ?n = "length (wc_entries wc)" and ?scan = "\<lambda>es. find_scan 0 es (resident_weight_cache_key_hash name elements) name elements"
  have small: "?n < 2 ^ 60" by (rule weights_wf_small [OF assms])
  have eq: "fst (find_weight_entry wc name elements) = ?scan (take (covered wc) (wc_entries wc))"
    by (rule find_sees [OF assms])
  moreover have "?scan (wc_entries wc) = (case ?scan (take (covered wc) (wc_entries wc)) of Some i \<Rightarrow> Some i
      | None \<Rightarrow> find_scan (length (take (covered wc) (wc_entries wc))) (drop (covered wc) (wc_entries wc))
          (resident_weight_cache_key_hash name elements) name elements)"
    using find_scan_append [of 0 "take (covered wc) (wc_entries wc)" "drop (covered wc) (wc_entries wc)"
      "resident_weight_cache_key_hash name elements" name elements]
    by (simp only: append_take_drop_id add_0)
  moreover have "covered wc = ?n" if "wc_slots_ptr wc = nullptr \<or> 2 * of_nat ?n \<le> wc_index_capacity wc"
  proof (cases "wc_slots_ptr wc = nullptr")
    case False
    with m obtain k where k: "k < 63" "wc_index_capacity wc = 2 ^ k" "m = ?n \<or> 2 ^ k < 2 * ?n" by (auto simp: indexed_def)
    have "unat (of_nat ?n :: u64) = ?n" using small by (intro unat_of_nat_small) simp
    then have "unat (2 * of_nat ?n :: u64) = 2 * ?n" using small by (simp add: unat_mult_mod)
    with that False k(1,2) have "2 * ?n \<le> 2 ^ k" by (simp add: word_le_nat_alt unat_pow2)
    with k(3) indexed_covered [OF m] show ?thesis by simp
  qed (simp add: covered_def)
  ultimately show ?thesis by simp
qed

theorem find_weight_entry_scans_witness:
  "\<exists>wc. weights_wf wc \<and> wc_slots_ptr wc \<noteq> nullptr \<and> wc_index_capacity wc = 64 \<and> length (wc_entries wc) = 2 \<and> covered wc = 2 \<and>
     fst (find_weight_entry wc ''aa'' 8) = Some 1 \<and> fst (find_weight_entry wc ''b'' 8) = None"
proof -
  obtain wc where wc: "weights_wf wc" "wc_slots_ptr wc \<noteq> nullptr" "wc_index_capacity wc = 64" "wc_entries wc = map example_entry [0..<2]"
    using example_cache [of 2] by auto
  have e: "map example_entry [0..<2] = [example_entry 0, example_entry 1]" by (simp add: upt_conv_Cons)
  have "covered wc = 2" using find_weight_entry_scans [OF wc(1), THEN conjunct2, THEN conjunct2] by (simp add: wc(3,4))
  then have seen: "fst (find_weight_entry wc name 8) =
      find_scan 0 [example_entry 0, example_entry 1] (resident_weight_cache_key_hash name 8) name 8" for name
    using find_weight_entry_scans [OF wc(1), of name 8, THEN conjunct1] by (simp add: wc(4) e del: find_scan.simps)
  have "\<not> entry_matches k ''b'' 8 (example_entry i)" "\<not> entry_matches k ''aa'' 8 (example_entry 0)"
    "entry_matches (resident_weight_cache_key_hash ''aa'' 8) ''aa'' 8 (example_entry 1)" for k i
    by (simp_all add: entry_matches_def example_entry_def nullptr_def numeral_2_eq_2)
  then have "fst (find_weight_entry wc ''aa'' 8) = Some 1" "fst (find_weight_entry wc ''b'' 8) = None" by (simp_all add: seen)
  moreover have "length (wc_entries wc) = 2" by (simp add: wc(4))
  ultimately show ?thesis using wc(1-3) \<open>covered wc = 2\<close> by blast
qed

text \<open>What was stored is what a later view returns: after a successful store of a weight that was not found before,
  into an index that could be kept, viewing the same name and size gives the stored data and hash, and counts the hit.\<close>

theorem store_weight_view:
  assumes wf: "weights_wf wc" "heap_bounded env"
    and run: "store_weight env wc np name data elements bytes hash h = (True, wc', h')"
    and "fst (find_weight_entry wc name elements) = None" "covered wc = length (wc_entries wc)"
    and "covered wc' = length (wc_entries wc')" "unat elements < 2 ^ 63"
  shows "fst (try_weight_view wc' name (2 * elements)) = Some (data, hash, 2 * elements) \<and>
    wc_hit_count (snd (try_weight_view wc' name (2 * elements))) = wc_hit_count wc' + 1"
proof -
  let ?hash = "resident_weight_cache_key_hash name elements" and ?n = "length (wc_entries wc)"
  obtain w h1 w' ix e where st: "grow_entries env wc h = (Some w, h1)" "entry_ok e"
      "e = \<lparr>we_tensor_name = np, we_name = name, we_data = data, we_elements = elements, we_bytes = bytes,
            we_key_hash = ?hash, we_fnv1a64 = hash, we_hit_count = 0\<rparr>"
      "index_updated env (w\<lparr>wc_entries := wc_entries w @ [e], wc_bytes := wc_bytes w + bytes\<rparr>) h1 ix w' h'"
      "wc' = (if ix then w' else w'\<lparr>wc_store_failure_count := wc_store_failure_count w' + 1\<rparr>)"
    using store_weight_cases [OF wf run] by metis
  have G: "weights_wf w" "length (wc_entries w) < unat (wc_entry_capacity w)" "wc_entries w = wc_entries wc" "wc_entries_ptr w \<noteq> nullptr"
    using grow_entries_wf [OF wf st(1), where R = "{#}"] by blast+
  then have e': "wc_entries wc' = wc_entries wc @ [e]"
    using st(4,5) by (auto simp: index_updated_def)
  have "weights_wf w'" using index_updated_wf [OF st(4)] G st(2) by (auto simp: weights_wf_def)
  then have wf': "weights_wf wc'" using st(5) by simp
  have "find_scan 0 (wc_entries wc) ?hash name elements = None"
    using find_sees [OF wf(1), of name elements] assms(4,5) by simp
  then have found: "fst (find_weight_entry wc' name elements) = Some ?n"
    using find_sees [OF wf', of name elements] assms(6) st(2,3)
    by (simp add: e' find_scan_append entry_matches_def entry_ok_def)
  have "wc_enabled wc'"
    using run grow_entries_wf [OF wf st(1), where R = "{#}"] st(4,5)
    by (auto simp: index_updated_def store_weight_def split: if_splits)
  note en = this
  have two: "unat (2 * elements) = 2 * unat elements" using assms(7) by (simp add: unat_mult_mod)
  have "elements \<noteq> 0" using st(2,3) by (simp add: entry_ok_def)
  then have "2 * elements \<noteq> 0" "2 * elements mod 2 = 0" "2 * elements div 2 = elements"
    using two by (auto simp: word_unat_eq_iff unat_mod unat_div)
  moreover have "wc_entries (snd (find_weight_entry wc' name elements)) = wc_entries wc'"
    "wc_hit_count (snd (find_weight_entry wc' name elements)) = wc_hit_count wc'"
    by (simp_all add: find_weight_entry_def Let_def case_prod_beta)
  ultimately show ?thesis
    using found en e' st(3) by (simp add: try_weight_view_def Let_def case_prod_beta)
qed

theorem store_weight_view_witness:
  "\<exists>wc' h'. store_weight (example_heap True) (empty_weight_cache True) 1 ''w'' 2 8 16 77 [] = (True, wc', h') \<and>
     fst (try_weight_view wc' ''w'' 16) = Some (2, 77, 16)"
proof -
  obtain wc' h' where run: "store_weight (example_heap True) (empty_weight_cache True) 1 ''w'' 2 8 16 77 [] = (True, wc', h')"
    by (rule example_store)
  have none: "fst (find_weight_entry (empty_weight_cache True) ''w'' 8) = None"
    by (simp add: find_weight_entry_def empty_weight_cache_def)
  obtain w h1 w' ix e where "index_updated (example_heap True) (w\<lparr>wc_entries := wc_entries w @ [e], wc_bytes := wc_bytes w + 16\<rparr>) h1 ix w' h'"
      and w': "wc' = (if ix then w' else w'\<lparr>wc_store_failure_count := wc_store_failure_count w' + 1\<rparr>)"
    using store_weight_cases [OF empty_weight_cache_wf example_heap_bounded run] by metis
  moreover have "c_num (example_heap True g (CCalloc m n)) \<noteq> nullptr" for g m n
    by (simp add: example_heap_def nullptr_def)
  ultimately have "covered wc' = length (wc_entries wc')" by (auto simp: index_updated_def)
  then have "fst (try_weight_view wc' ''w'' (2 * 8)) = Some (2, 77, 2 * 8)"
    using store_weight_view [OF empty_weight_cache_wf example_heap_bounded run none]
    by (simp add: covered_def empty_weight_cache_def)
  with run show ?thesis by auto
qed

text \<open>A rebuild that is refused keeps the index it was to replace.\<close>

lemma note_entry_added_refused:
  assumes "\<And>g m n. c_num (env g (CCalloc m n)) = nullptr" "wc_index_capacity wc < 2 * of_nat (Suc i)" "i < length (wc_entries wc)"
  shows "\<exists>h'. note_entry_added env wc i h = (False, wc, h')"
proof -
  have "of_nat i + 1 = (of_nat (Suc i) :: u64)" by (simp add: add.commute)
  then have "wc_index_capacity wc < (of_nat i + 1) * 2" using assms(2) by (simp only: mult.commute)
  then show ?thesis
    using assms(1,3) by (simp add: note_entry_added_def rebuild_index_def Let_def ask_def split: option.splits)
qed

text \<open>C38. A store that cannot enlarge the hash index reports success, and yet lookups do not find the entry: the
  old index stays in use, while the scan that serves when there is no index would find it.\<close>

theorem stale_index_hides_weight:
  assumes wf: "weights_wf wc" "heap_bounded env"
    and run: "store_weight env wc np name data elements bytes hash h = (True, wc', h')"
    and full: "wc_slots_ptr wc \<noteq> nullptr" "wc_index_capacity wc < 2 * of_nat (Suc (length (wc_entries wc)))"
    and refused: "\<And>g m n. c_num (env g (CCalloc m n)) = nullptr"
    and new: "fst (find_weight_entry wc name elements) = None"
  shows "fst (find_weight_entry wc' name elements) = None \<and>
    find_scan 0 (wc_entries wc') (resident_weight_cache_key_hash name elements) name elements \<noteq> None"
proof -
  let ?hash = "resident_weight_cache_key_hash name elements"
  obtain w h1 where g: "grow_entries env wc h = (Some w, h1)"
    using run by (auto simp: store_weight_def split: if_splits option.splits prod.splits)
  define e where "e = \<lparr>we_tensor_name = np, we_name = name, we_data = data, we_elements = elements, we_bytes = bytes,
            we_key_hash = ?hash, we_fnv1a64 = hash, we_hit_count = 0\<rparr>"
  let ?w = "w\<lparr>wc_entries := wc_entries w @ [e], wc_bytes := wc_bytes w + bytes\<rparr>"
  have G: "weights_wf w" "wc_entries w = wc_entries wc" "covered w = covered wc" "wc_slots_ptr w = wc_slots_ptr wc"
      "length (wc_entries w) < unat (wc_entry_capacity w)" "wc_entries_ptr w \<noteq> nullptr"
    using grow_entries_wf [OF wf g, where R = "{#}"] by blast+
  have cap: "wc_index_capacity w = wc_index_capacity wc"
    using g by (auto simp: grow_entries_def Let_def ask_def split: if_splits)
  then obtain h2 where n: "note_entry_added env ?w (length (wc_entries w)) h1 = (False, ?w, h2)"
    using note_entry_added_refused [of env ?w "length (wc_entries w)" h1] refused full(2) G(2) by auto
  have np: "np \<noteq> nullptr" "data \<noteq> nullptr" "elements \<noteq> 0" using run by (auto simp: store_weight_def split: if_splits)
  then have e: "entry_ok e" by (simp add: e_def entry_ok_def)
  have wc': "wc' = ?w\<lparr>wc_store_failure_count := wc_store_failure_count w + 1\<rparr>"
    using run g n by (auto simp: store_weight_def Let_def e_def split: if_splits)
  obtain m where m: "indexed w m" using G(1) by (auto simp: weights_wf_def)
  have upd: "index_updated env ?w h1 False ?w h2"
    using G(1,5) by (intro note_entry_added_updates [OF n _ e m]) (auto simp: weights_wf_def)
  have "weights_wf ?w" using index_updated_wf [OF upd] G e by (auto simp: weights_wf_def)
  then have wf': "weights_wf wc'" by (simp add: wc')
  have cov: "covered wc' = covered wc" using G(3,4) full(1) by (simp add: wc' covered_def)
  have "m = covered wc" using indexed_covered [OF m] G(3) by simp
  moreover have "m \<le> length (wc_entries w)" using m by (auto simp: indexed_def index_covers_def split: if_splits)
  ultimately have le: "covered wc \<le> length (wc_entries wc)" using G(2) by simp
  have "wc_entries wc' = wc_entries wc @ [e]" by (simp add: wc' G(2))
  then have "take (covered wc') (wc_entries wc') = take (covered wc) (wc_entries wc)"
    using le by (simp add: cov)
  then have "fst (find_weight_entry wc' name elements) = None"
    using find_sees [OF wf', of name elements] find_sees [OF wf(1), of name elements] new by simp
  moreover have "entry_matches ?hash name elements e" using np by (simp add: e_def entry_matches_def)
  then have "find_scan 0 (wc_entries wc') ?hash name elements \<noteq> None"
    by (auto simp: find_scan_None wc')
  ultimately show ?thesis by simp
qed

theorem stale_index_hides_weight_witness:
  "\<exists>wc wc' h'. store_weight (example_heap False) wc 5 ''b'' 6 8 16 99 [] = (True, wc', h') \<and>
     length (wc_entries wc) = 32 \<and> wc_index_capacity wc = 64 \<and> fst (find_weight_entry wc' ''b'' 8) = None \<and>
     find_scan 0 (wc_entries wc') (resident_weight_cache_key_hash ''b'' 8) ''b'' 8 \<noteq> None"
proof -
  obtain wc where wc: "weights_wf wc" "wc_slots_ptr wc \<noteq> nullptr" "wc_index_capacity wc = 64" "wc_entries wc = map example_entry [0..<32]"
    "wc_enabled wc" "wc_entry_capacity wc = 64" using example_cache [of 32] by auto
  have "\<not> entry_matches hash ''b'' 8 (example_entry i)" for hash i by (simp add: example_entry_def entry_matches_def)
  then have "find_scan 0 (take (covered wc) (wc_entries wc)) (resident_weight_cache_key_hash ''b'' 8) ''b'' 8 = None"
    by (auto simp: find_scan_None wc(4) dest!: in_set_takeD)
  then have none: "fst (find_weight_entry wc ''b'' 8) = None" by (simp add: find_sees [OF wc(1)])
  have "fst (store_weight (example_heap False) wc 5 ''b'' 6 8 16 99 [])"
    by (simp add: store_weight_def wc grow_entries_def entry_count_def Let_def nullptr_def case_prod_beta)
  then obtain wc' h' where run: "store_weight (example_heap False) wc 5 ''b'' 6 8 16 99 [] = (True, wc', h')"
    by (metis (full_types) prod.collapse)
  moreover have "fst (find_weight_entry wc' ''b'' 8) = None \<and>
      find_scan 0 (wc_entries wc') (resident_weight_cache_key_hash ''b'' 8) ''b'' 8 \<noteq> None"
    using stale_index_hides_weight [OF wc(1) example_heap_bounded run wc(2) _ _ none]
    by (simp add: wc(3,4) nullptr_def example_heap_def)
  moreover have "length (wc_entries wc) = 32" by (simp add: wc(4))
  ultimately show ?thesis using wc(3) by blast
qed

text \<open>Freeing the cache gives back every block it owns, the names and data of all entries included, and nothing else,
  and leaves an empty cache.\<close>

lemma free_entries_owns:
  "core_owns (foldl (free_entry env) h es) R \<longleftrightarrow>
     core_owns h ((\<Sum>e\<leftarrow>es. block_resource (we_tensor_name e) + block_resource (we_data e)) + R)"
  by (induction es arbitrary: h) (simp_all add: free_entry_def ac_simps)

lemma free_resident_weight_cache_owns:
  assumes "weights_wf wc" "core_owns h (weight_resources wc + R)" "free_resident_weight_cache env wc h = (wc', h')"
  shows "core_owns h' R \<and> wc_entries wc' = [] \<and> weight_resources wc' = {#} \<and> weights_wf wc'"
  using assms
  by (auto simp: free_resident_weight_cache_def drop_index_def weights_wf_def weight_resources_def free_entries_owns Let_def
      indexed_def block_resource_def [of nullptr] ac_simps split: if_splits)

text \<open>A view only counts: the cache stays well-formed, with the same entries and blocks.\<close>

lemma index_covers_hashes:
  assumes "map we_key_hash es' = map we_key_hash es"
  shows "index_covers k m es' slots = index_covers k m es slots"
proof -
  have "length es' = length es" using assms by (rule map_eq_imp_length_eq)
  moreover have "we_key_hash (es' ! i) = we_key_hash (es ! i)" if "i < length es" for i
    using assms that calculation by (metis nth_map)
  ultimately show ?thesis by (auto simp: index_covers_def)
qed

definition same_weights :: "weight_cache \<Rightarrow> weight_cache \<Rightarrow> bool" where
  "same_weights wc' wc \<longleftrightarrow>
     map (we_hit_count_update (\<lambda>_. 0)) (wc_entries wc') = map (we_hit_count_update (\<lambda>_. 0)) (wc_entries wc) \<and>
     wc_enabled wc' = wc_enabled wc \<and> wc_entries_ptr wc' = wc_entries_ptr wc \<and> wc_entry_capacity wc' = wc_entry_capacity wc \<and>
     wc_slots_ptr wc' = wc_slots_ptr wc \<and> wc_slots wc' = wc_slots wc \<and> wc_index_capacity wc' = wc_index_capacity wc"

lemma same_weights_fields:
  assumes "same_weights wc' wc"
  shows "map we_key_hash (wc_entries wc') = map we_key_hash (wc_entries wc)"
    "map we_tensor_name (wc_entries wc') = map we_tensor_name (wc_entries wc)"
    "map we_data (wc_entries wc') = map we_data (wc_entries wc)"
    "map entry_ok (wc_entries wc') = map entry_ok (wc_entries wc)"
    "length (wc_entries wc') = length (wc_entries wc)"
proof -
  have *: "map f (wc_entries wc') = map f (wc_entries wc)" if "f \<circ> we_hit_count_update (\<lambda>_. 0) = f" for f :: "weight_entry \<Rightarrow> 'a"
    using assms that arg_cong [of _ _ "map f"] unfolding same_weights_def by (metis list.map_comp)
  show "map we_key_hash (wc_entries wc') = map we_key_hash (wc_entries wc)"
    "map we_tensor_name (wc_entries wc') = map we_tensor_name (wc_entries wc)"
    "map we_data (wc_entries wc') = map we_data (wc_entries wc)"
    "map entry_ok (wc_entries wc') = map entry_ok (wc_entries wc)"
    by (rule *, simp add: fun_eq_iff entry_ok_def)+
  then show "length (wc_entries wc') = length (wc_entries wc)" by (metis length_map)
qed

lemma same_weights_wf: "same_weights wc' wc \<Longrightarrow> weights_wf wc' = weights_wf wc"
proof -
  assume same: "same_weights wc' wc"
  note f = same_weights_fields [OF this]
  have "(\<forall>e \<in> set (wc_entries wc'). entry_ok e) = (\<forall>b \<in> set (map entry_ok (wc_entries wc')). b)" by simp
  also have "\<dots> = (\<forall>e \<in> set (wc_entries wc). entry_ok e)" unfolding f(4) by simp
  finally have ok: "(\<forall>e \<in> set (wc_entries wc'). entry_ok e) = (\<forall>e \<in> set (wc_entries wc). entry_ok e)" .
  have "indexed wc' m = indexed wc m" for m
    using same f(5) index_covers_hashes [OF f(1)] by (auto simp: indexed_def same_weights_def)
  moreover have "wc_entries wc' = [] \<longleftrightarrow> wc_entries wc = []" using f(5) by auto
  ultimately show ?thesis using same ok f(5) by (simp add: weights_wf_def same_weights_def)
qed

lemma same_weights_resources: "same_weights wc' wc \<Longrightarrow> weight_resources wc' = weight_resources wc"
proof -
  assume same: "same_weights wc' wc"
  note f = same_weights_fields [OF this]
  have "map (\<lambda>e. block_resource (we_tensor_name e) + block_resource (we_data e)) (wc_entries wc') =
      map (\<lambda>e. block_resource (we_tensor_name e) + block_resource (we_data e)) (wc_entries wc)"
    using f(2,3) by (auto simp: list_eq_iff_nth_eq)
  then show ?thesis using same by (simp add: weight_resources_def same_weights_def)
qed

lemma try_weight_view_keeps:
  assumes "weights_wf wc" "try_weight_view wc key n = (v, wc')"
  shows "same_weights wc' wc \<and>
    (case v of None \<Rightarrow> True | Some (data, hash, k) \<Rightarrow>
       k = n \<and> (\<exists>e \<in> set (wc_entries wc). we_name e = key \<and> we_elements e = n div 2 \<and> we_data e = data \<and> we_fnv1a64 e = hash))"
proof (cases "n = 0 \<or> n mod 2 \<noteq> 0 \<or> \<not> wc_enabled wc")
  case True
  then show ?thesis using assms(2) by (auto simp: try_weight_view_def same_weights_def)
next
  case False
  obtain found w where f: "find_weight_entry wc key (n div 2) = (found, w)" by fastforce
  have w: "same_weights w wc" "wc_entries w = wc_entries wc" "wc_enabled w = wc_enabled wc"
    using f by (auto simp: find_weight_entry_def Let_def same_weights_def split: if_splits prod.splits)
  show ?thesis
  proof (cases found)
    case None
    then show ?thesis using False assms(2) f w by (auto simp: try_weight_view_def Let_def)
  next
    case (Some i)
    have "find_scan 0 (take (covered wc) (wc_entries wc)) (resident_weight_cache_key_hash key (n div 2)) key (n div 2) = Some i"
      using find_sees [OF assms(1), of key "n div 2"] f Some by simp
    from find_scan_Some [OF this] have i: "i < length (wc_entries wc)" "we_name (wc_entries wc ! i) = key"
        "we_elements (wc_entries wc ! i) = n div 2"
      by (auto simp: entry_matches_def)
    let ?e = "wc_entries wc ! i"
    have run: "v = Some (we_data ?e, we_fnv1a64 ?e, n)"
      "wc' = w\<lparr>wc_entries := (wc_entries wc)[i := ?e\<lparr>we_hit_count := we_hit_count ?e + 1\<rparr>],
        wc_hit_count := wc_hit_count w + 1, wc_hit_bytes := wc_hit_bytes w + n\<rparr>"
      using False assms(2) f Some w(2) by (auto simp: try_weight_view_def Let_def)
    have "map (we_hit_count_update (\<lambda>_. 0)) ((wc_entries wc)[i := ?e\<lparr>we_hit_count := k\<rparr>]) =
        map (we_hit_count_update (\<lambda>_. 0)) (wc_entries wc)" for k
      using i(1) by (simp add: map_update list_update_same_conv)
    then have "same_weights wc' wc" using w(1) unfolding run(2) by (simp add: same_weights_def)
    moreover have "?e \<in> set (wc_entries wc)" using i(1) by simp
    ultimately show ?thesis using run(1) i(2,3) by auto
  qed
qed

end
