(* ===== verification/Model_Files.thy ===== *)
theory Model_Files
  imports Safetensors_Json Weight_Cache
begin

text \<open>
  The model files as \<^verbatim>\<open>native/src/qrt.c\<close> opens them (Windows branches): joining paths, reading a small file
  and the header of a safetensors shard, the manifest probe and the accounting of tensor bytes. A failure is the
  status with the stage and the message that the code writes. The clock only fills elapsed-time fields, which
  are left out.
\<close>

section \<open>Paths and small files\<close>

type_synonym failure = "qrt_status \<times> string \<times> string"

text \<open>\<open>qrt_path_join\<close>; \<open>None\<close> is the return value 0.\<close>

definition path_join :: "string \<Rightarrow> string \<Rightarrow> nat \<Rightarrow> string option" where
  "path_join dir name capacity =
     (if capacity = 0 then None
      else
        let separator = (if strchr dir backslash_char \<noteq> None then backslash_char else CHR ''/'');
            needs_separator = (dir \<noteq> [] \<and> last dir \<noteq> CHR ''/'' \<and> last dir \<noteq> backslash_char)
        in if length dir + (if needs_separator then 1 else 0) + length name + 1 > capacity then None
           else Some (if needs_separator then dir @ separator # name else dir @ name))"

text \<open>The C string that starts at a buffer of bytes.\<close>

definition c_string :: "u8 list \<Rightarrow> string" where
  "c_string bs = map (\<lambda>b. char_of (unat b)) (takeWhile (\<lambda>b. b \<noteq> 0) bs)"

text \<open>
  \<open>qrt_read_small_file\<close>: the block and the bytes read into it. The number of bytes read is the length
  of the answer.
\<close>

definition read_small_file ::
  "core_env \<Rightarrow> string \<Rightarrow> string \<Rightarrow> core_hist \<Rightarrow> (failure + u64 \<times> u8 list) \<times> core_hist" where
  "read_small_file env path stage h =
     (let (r, h) = ask env (Fopen path) h;
          file = c_num r
      in if file = nullptr then (Inl (STATUS_IO_ERROR, stage, ''file open failed''), h)
         else
      let (r, h) = ask env (FseekEnd file) h
      in if \<not> c_ok r then (Inl (STATUS_IO_ERROR, stage, ''file seek failed''), core_tell env (Fclose file) h)
         else
      let (r, h) = ask env (Ftell file) h;
          file_size_long = c_int r
      in if file_size_long < 0 then (Inl (STATUS_IO_ERROR, stage, ''file size failed''), core_tell env (Fclose file) h)
         else
      let (r, h) = ask env (FseekSet file 0) h
      in if \<not> c_ok r then (Inl (STATUS_IO_ERROR, stage, ''file rewind failed''), core_tell env (Fclose file) h)
         else
      let file_size = word_of_int file_size_long;
          (r, h) = ask env (CMalloc (file_size + 1)) h;
          data = c_num r
      in if data = nullptr
         then (Inl (STATUS_OUT_OF_MEMORY, stage, ''file allocation failed''), core_tell env (Fclose file) h)
         else
      let (r, h) = ask env (Fread file file_size) h;
          h = core_tell env (Fclose file) h
      in if length (c_bytes r) \<noteq> unat file_size
         then (Inl (STATUS_IO_ERROR, stage, ''file read failed''), c_free env data h)
         else (Inr (data, c_bytes r), h))"

section \<open>Safetensors headers\<close>

text \<open>
  The Windows branch shared by \<open>qrt_read_safetensors_header_json\<close> and \<open>qrt_probe_safetensors_header\<close>: the
  file size, the header length, and the block with the header's bytes.
\<close>

definition map_header ::
  "core_env \<Rightarrow> string \<Rightarrow> core_hist \<Rightarrow> (failure + u64 \<times> u64 \<times> u64 \<times> u8 list) \<times> core_hist" where
  "map_header env path h =
     (let (r, h) = ask env (OpenFileA path) h;
          file = c_num r
      in if file = invalid_file then (Inl (STATUS_IO_ERROR, ''shard_open'', ''CreateFileA failed''), h)
         else
      let (r, h) = ask env (SizeOfFile file) h
      in if \<not> c_ok r \<or> c_int r < 8
         then (Inl (STATUS_IO_ERROR, ''shard_size'', ''GetFileSizeEx failed''), core_tell env (CloseObject file) h)
         else
      let file_bytes = word_of_int (c_int r);
          (r, h) = ask env (OpenMapping file) h;
          mapping = c_num r
      in if mapping = nullptr
         then (Inl (STATUS_IO_ERROR, ''shard_map'', ''CreateFileMappingA failed''), core_tell env (CloseObject file) h)
         else
      let (r, h) = ask env (MapView mapping 8) h;
          mapped_len = c_num r
      in if mapped_len = nullptr
         then (Inl (STATUS_IO_ERROR, ''shard_map'', ''MapViewOfFile length failed''),
               core_tell env (CloseObject file) (core_tell env (CloseObject mapping) h))
         else
      let header_len = read_le64 (c_bytes r);
          h = core_tell env (UnmapView mapped_len) h
      in if header_len > file_bytes - 8 \<or> header_len + 1 > - 1
         then (Inl (STATUS_PARSE_ERROR, ''shard_header'', ''invalid safetensors header length''),
               core_tell env (CloseObject file) (core_tell env (CloseObject mapping) h))
         else
      let (r, h) = ask env (MapView mapping (header_len + 8)) h;
          mapped_header = c_num r;
          bytes = c_bytes r
      in if mapped_header = nullptr
         then (Inl (STATUS_IO_ERROR, ''shard_map'', ''MapViewOfFile header failed''),
               core_tell env (CloseObject file) (core_tell env (CloseObject mapping) h))
         else
      let (r, h) = ask env (CMalloc (header_len + 1)) h;
          header_json = c_num r;
          h = core_tell env (CloseObject file) (core_tell env (CloseObject mapping) (core_tell env (UnmapView mapped_header) h))
      in if header_json = nullptr
         then (Inl (STATUS_OUT_OF_MEMORY, ''shard_header'', ''header allocation failed''), h)
         else (Inr (file_bytes, header_len, header_json, take (unat header_len) (drop 8 bytes)), h))"

definition read_safetensors_header_json ::
  "core_env \<Rightarrow> string \<Rightarrow> core_hist \<Rightarrow> (failure + u64 \<times> u8 list) \<times> core_hist" where
  "read_safetensors_header_json env path h =
     (let (res, h) = map_header env path h
      in (case res of Inl f \<Rightarrow> Inl f | Inr (file_bytes, header_len, p, bytes) \<Rightarrow> Inr (p, bytes), h))"

definition count_safetensors_header_tensors :: "string \<Rightarrow> nat" where
  "count_safetensors_header_tensors header_json = the (json_count_token header_json (quoted ''dtype'') 0)"

text \<open>\<open>qrt_probe_safetensors_header\<close>: file, header and data bytes, and the number of tensors.\<close>

definition probe_safetensors_header ::
  "core_env \<Rightarrow> string \<Rightarrow> core_hist \<Rightarrow> (failure + u64 \<times> u64 \<times> u64 \<times> u64) \<times> core_hist" where
  "probe_safetensors_header env path h =
     (let (res, h) = map_header env path h
      in case res of
           Inl f \<Rightarrow> (Inl f, h)
         | Inr (file_bytes, header_len, p, bytes) \<Rightarrow>
             (Inr (file_bytes, header_len, file_bytes - 8 - header_len,
                   of_nat (count_safetensors_header_tensors (c_string bytes))), c_free env p h))"

section \<open>The manifest\<close>

record manifest_result =
  mr_config_bytes :: u64
  mr_index_bytes :: u64
  mr_tensor_count :: u64
  mr_shard_count :: u64
  mr_shard_headers_read :: u64
  mr_shard_header_tensor_count :: u64
  mr_metadata_total_size_bytes :: u64
  mr_total_shard_file_bytes :: u64
  mr_total_safetensors_header_bytes :: u64
  mr_total_safetensors_data_bytes :: u64
  mr_hidden_size :: u64
  mr_layer_count :: u64
  mr_attention_heads :: u64
  mr_kv_heads :: u64
  mr_head_dim :: u64
  mr_vocab_size :: u64
  mr_expert_count :: u64
  mr_experts_per_token :: u64
  mr_expert_intermediate_size :: u64
  mr_max_position_embeddings :: u64
  mr_linear_attention_layers :: u64
  mr_full_attention_layers :: u64
  mr_config_present :: bool
  mr_index_present :: bool
  mr_config_shape_pass :: bool
  mr_index_pass :: bool
  mr_shard_headers_pass :: bool
  mr_used_memory_mapping :: bool
  mr_manifest_ready :: bool
  mr_failure_stage :: string
  mr_failure :: string

definition zero_manifest :: manifest_result where
  "zero_manifest =
     \<lparr>mr_config_bytes = 0, mr_index_bytes = 0, mr_tensor_count = 0, mr_shard_count = 0, mr_shard_headers_read = 0,
      mr_shard_header_tensor_count = 0, mr_metadata_total_size_bytes = 0, mr_total_shard_file_bytes = 0,
      mr_total_safetensors_header_bytes = 0, mr_total_safetensors_data_bytes = 0, mr_hidden_size = 0,
      mr_layer_count = 0, mr_attention_heads = 0, mr_kv_heads = 0, mr_head_dim = 0, mr_vocab_size = 0,
      mr_expert_count = 0, mr_experts_per_token = 0, mr_expert_intermediate_size = 0, mr_max_position_embeddings = 0,
      mr_linear_attention_layers = 0, mr_full_attention_layers = 0, mr_config_present = False,
      mr_index_present = False, mr_config_shape_pass = False, mr_index_pass = False, mr_shard_headers_pass = False,
      mr_used_memory_mapping = False, mr_manifest_ready = False, mr_failure_stage = [], mr_failure = []\<rparr>"

text \<open>\<open>qrt_load_set_failure\<close>; \<open>QRT_LOAD_ERROR_CAPACITY\<close> is 192.\<close>

definition load_set_failure :: "string \<Rightarrow> string \<Rightarrow> manifest_result \<Rightarrow> manifest_result" where
  "load_set_failure stage message m = m\<lparr>mr_failure_stage := c_copy 64 stage, mr_failure := c_copy 192 message\<rparr>"

text \<open>A field keeps its value when the key is missing.\<close>

definition field_u64 :: "string \<Rightarrow> string \<Rightarrow> u64 \<Rightarrow> u64" where
  "field_u64 json key old = (case json_read_u64 json key of None \<Rightarrow> old | Some v \<Rightarrow> v)"

definition read_config_shape :: "string \<Rightarrow> manifest_result \<Rightarrow> manifest_result" where
  "read_config_shape json m = m\<lparr>
     mr_hidden_size := field_u64 json ''hidden_size'' (mr_hidden_size m),
     mr_layer_count := field_u64 json ''num_hidden_layers'' (mr_layer_count m),
     mr_attention_heads := field_u64 json ''num_attention_heads'' (mr_attention_heads m),
     mr_kv_heads := field_u64 json ''num_key_value_heads'' (mr_kv_heads m),
     mr_head_dim := field_u64 json ''head_dim'' (mr_head_dim m),
     mr_vocab_size := field_u64 json ''vocab_size'' (mr_vocab_size m),
     mr_expert_count := field_u64 json ''num_experts'' (mr_expert_count m),
     mr_experts_per_token := field_u64 json ''num_experts_per_tok'' (mr_experts_per_token m),
     mr_expert_intermediate_size := field_u64 json ''moe_intermediate_size'' (mr_expert_intermediate_size m),
     mr_max_position_embeddings := field_u64 json ''max_position_embeddings'' (mr_max_position_embeddings m),
     mr_linear_attention_layers := of_nat (the (json_count_token json (quoted ''linear_attention'') 0)),
     mr_full_attention_layers := of_nat (the (json_count_token json (quoted ''full_attention'') 0))\<rparr>"

definition config_shape_matches :: "manifest_result \<Rightarrow> bool" where
  "config_shape_matches m \<longleftrightarrow>
     mr_hidden_size m = 2048 \<and> mr_layer_count m = 40 \<and> mr_attention_heads m = 16 \<and> mr_kv_heads m = 2 \<and>
     mr_head_dim m = 256 \<and> mr_vocab_size m = 248320 \<and> mr_expert_count m = 256 \<and> mr_experts_per_token m = 8 \<and>
     mr_expert_intermediate_size m = 512 \<and> mr_max_position_embeddings m = 262144 \<and>
     mr_linear_attention_layers m = 30 \<and> mr_full_attention_layers m = 10"

text \<open>The loop over the shards; \<open>Inl\<close> carries the status of an early return.\<close>

fun probe_shards ::
  "core_env \<Rightarrow> string \<Rightarrow> string list \<Rightarrow> manifest_result \<Rightarrow> core_hist \<Rightarrow> qrt_status option \<times> manifest_result \<times> core_hist" where
  "probe_shards env model_dir [] m h = (None, m, h)"
| "probe_shards env model_dir (shard # shards) m h =
     (case path_join model_dir shard QRT_LOAD_PATH_CAPACITY of
        None \<Rightarrow> (Some STATUS_INVALID_ARGUMENT, load_set_failure ''shard_path'' ''shard path is too long'' m, h)
      | Some shard_path \<Rightarrow>
          let (res, h) = probe_safetensors_header env shard_path h
          in case res of
               Inl (status, stage, message) \<Rightarrow> (Some status, load_set_failure stage message m, h)
             | Inr (file_bytes, header_bytes, data_bytes, header_tensor_count) \<Rightarrow>
                 probe_shards env model_dir shards
                   (m\<lparr>mr_total_shard_file_bytes := mr_total_shard_file_bytes m + file_bytes,
                      mr_total_safetensors_header_bytes := mr_total_safetensors_header_bytes m + header_bytes,
                      mr_total_safetensors_data_bytes := mr_total_safetensors_data_bytes m + data_bytes,
                      mr_shard_header_tensor_count := mr_shard_header_tensor_count m + header_tensor_count,
                      mr_used_memory_mapping := True,
                      mr_shard_headers_read := mr_shard_headers_read m + 1\<rparr>) h)"

text \<open>After the index has been read: \<open>shards\<close>, \<open>index_json\<close> and \<open>config_json\<close> are the blocks freed on every exit.\<close>

definition probe_index ::
  "core_env \<Rightarrow> string \<Rightarrow> u64 \<Rightarrow> u64 \<Rightarrow> u64 \<Rightarrow> string \<Rightarrow> manifest_result \<Rightarrow> core_hist \<Rightarrow> qrt_status \<times> manifest_result \<times> core_hist" where
  "probe_index env model_dir shards index_json config_json index_text m h =
     (let release = (\<lambda>h. c_free env config_json (c_free env index_json (c_free env shards h)));
          m = m\<lparr>mr_metadata_total_size_bytes := field_u64 index_text ''total_size'' (mr_metadata_total_size_bytes m)\<rparr>
      in case parse_weight_map index_text of
           None \<Rightarrow> (STATUS_PARSE_ERROR, load_set_failure ''index_parse'' ''weight_map parse failed'' m, release h)
         | Some (tensor_count, names) \<Rightarrow>
             let m = m\<lparr>mr_tensor_count := of_nat tensor_count, mr_shard_count := of_nat (length names)\<rparr>;
                 m = m\<lparr>mr_index_pass := mr_metadata_total_size_bytes m > 0 \<and> mr_tensor_count m > 0 \<and> mr_shard_count m > 0\<rparr>
             in if \<not> mr_index_pass m
                then (STATUS_PARSE_ERROR,
                      load_set_failure ''index_parse'' ''index missing total size or weight map entries'' m, release h)
                else
             let (stopped, m, h) = probe_shards env model_dir names m h
             in case stopped of
                  Some status \<Rightarrow> (status, m, release h)
                | None \<Rightarrow>
                    let m = m\<lparr>mr_shard_headers_pass :=
                              mr_shard_headers_read m = mr_shard_count m \<and>
                              mr_shard_header_tensor_count m = mr_tensor_count m \<and>
                              mr_metadata_total_size_bytes m = mr_total_safetensors_data_bytes m\<rparr>;
                        m = m\<lparr>mr_manifest_ready := mr_config_shape_pass m \<and> mr_index_pass m \<and> mr_shard_headers_pass m\<rparr>;
                        h = release h
                    in if \<not> mr_manifest_ready m
                       then (STATUS_UNSUPPORTED,
                             load_set_failure ''manifest_ready'' ''manifest counts or safetensors data bytes do not match'' m, h)
                       else (STATUS_OK, m, h))"

definition load_manifest_probe ::
  "core_env \<Rightarrow> string \<Rightarrow> core_hist \<Rightarrow> qrt_status \<times> manifest_result \<times> core_hist" where
  "load_manifest_probe env model_dir h =
     (case (path_join model_dir ''config.json'' QRT_LOAD_PATH_CAPACITY,
            path_join model_dir ''model.safetensors.index.json'' QRT_LOAD_PATH_CAPACITY) of
        (Some config_path, Some index_path) \<Rightarrow>
          let (res, h) = read_small_file env config_path ''config_read'' h
          in (case res of
                Inl (status, stage, message) \<Rightarrow> (status, load_set_failure stage message zero_manifest, h)
              | Inr (config_json, bytes) \<Rightarrow>
                  let m = zero_manifest\<lparr>mr_config_bytes := of_nat (length bytes), mr_config_present := True\<rparr>;
                      m = read_config_shape (c_string bytes) m;
                      m = m\<lparr>mr_config_shape_pass := config_shape_matches m\<rparr>
                  in if \<not> mr_config_shape_pass m
                     then (STATUS_UNSUPPORTED,
                           load_set_failure ''config_shape'' ''config does not match Qwen3.6-35B-A3B text shape'' m,
                           c_free env config_json h)
                     else
                  let (res, h) = read_small_file env index_path ''index_read'' h
                  in (case res of
                        Inl (status, stage, message) \<Rightarrow>
                          (status, load_set_failure stage message m, c_free env config_json h)
                      | Inr (index_json, bytes) \<Rightarrow>
                          let m = m\<lparr>mr_index_bytes := of_nat (length bytes), mr_index_present := True\<rparr>;
                              (r, h) = ask env (CCalloc (of_nat QRT_LOAD_MAX_SHARDS) (of_nat QRT_LOAD_PATH_CAPACITY)) h;
                              shards = c_num r
                          in if shards = nullptr
                             then (STATUS_OUT_OF_MEMORY,
                                   load_set_failure ''index_parse'' ''shard list allocation failed'' m,
                                   c_free env config_json (c_free env index_json h))
                             else probe_index env model_dir shards index_json config_json (c_string bytes) m h))
      | _ \<Rightarrow> (STATUS_INVALID_ARGUMENT, load_set_failure ''path'' ''model path is too long'' zero_manifest, h))"

section \<open>Accounting of tensor bytes\<close>

definition string_starts_with :: "string \<Rightarrow> string \<Rightarrow> bool" where
  "string_starts_with value prefix \<longleftrightarrow> take (length prefix) value = prefix"

definition tensor_is_required_runtime :: "string \<Rightarrow> bool" where
  "tensor_is_required_runtime name \<longleftrightarrow> name = ''lm_head.weight'' \<or> string_starts_with name ''model.language_model.''"

definition tensor_is_visual_deferred :: "string \<Rightarrow> bool" where
  "tensor_is_visual_deferred name \<longleftrightarrow> string_starts_with name ''model.visual.''"

definition tensor_is_mtp_deferred :: "string \<Rightarrow> bool" where
  "tensor_is_mtp_deferred name \<longleftrightarrow> string_starts_with name ''mtp.''"

definition tensor_is_prepack_candidate :: "string \<Rightarrow> bool" where
  "tensor_is_prepack_candidate name \<longleftrightarrow>
     tensor_is_required_runtime name \<and>
     (name = ''lm_head.weight'' \<or> strstr name ''.mlp.experts.'' \<noteq> None \<or> strstr name ''.mlp.shared_expert.'' \<noteq> None \<or>
      strstr name ''.self_attn.'' \<noteq> None \<and> strstr name ''_proj.weight'' \<noteq> None \<or>
      strstr name ''.linear_attn.in_proj_'' \<noteq> None \<or> strstr name ''.linear_attn.out_proj.weight'' \<noteq> None)"

record accounting =
  ac_total_tensor_count :: u64
  ac_required_runtime_tensor_count :: u64
  ac_deferred_tensor_count :: u64
  ac_language_tensor_count :: u64
  ac_visual_tensor_count :: u64
  ac_mtp_tensor_count :: u64
  ac_unknown_tensor_count :: u64
  ac_candidate_tensor_count :: u64
  ac_total_tensor_bytes :: u64
  ac_required_runtime_bytes :: u64
  ac_deferred_bytes :: u64
  ac_language_bytes :: u64
  ac_visual_bytes :: u64
  ac_mtp_bytes :: u64
  ac_unknown_bytes :: u64
  ac_candidate_bytes :: u64
  ac_prepack_completed_bytes :: u64
  ac_deferred_materialization_bytes :: u64
  ac_first_request_materialized_bytes :: u64
  ac_accounting_ready :: bool
  ac_byte_accounting_pass :: bool
  ac_prepack_completed :: bool
  ac_first_request_reported :: bool
  ac_failure_stage :: string
  ac_failure :: string

definition zero_accounting :: accounting where
  "zero_accounting =
     \<lparr>ac_total_tensor_count = 0, ac_required_runtime_tensor_count = 0, ac_deferred_tensor_count = 0,
      ac_language_tensor_count = 0, ac_visual_tensor_count = 0, ac_mtp_tensor_count = 0, ac_unknown_tensor_count = 0,
      ac_candidate_tensor_count = 0, ac_total_tensor_bytes = 0, ac_required_runtime_bytes = 0, ac_deferred_bytes = 0,
      ac_language_bytes = 0, ac_visual_bytes = 0, ac_mtp_bytes = 0, ac_unknown_bytes = 0, ac_candidate_bytes = 0,
      ac_prepack_completed_bytes = 0, ac_deferred_materialization_bytes = 0, ac_first_request_materialized_bytes = 0,
      ac_accounting_ready = False, ac_byte_accounting_pass = False, ac_prepack_completed = False,
      ac_first_request_reported = False, ac_failure_stage = [], ac_failure = []\<rparr>"

definition prepack_set_failure :: "string \<Rightarrow> string \<Rightarrow> accounting \<Rightarrow> accounting" where
  "prepack_set_failure stage message a = a\<lparr>ac_failure_stage := c_copy 64 stage, ac_failure := c_copy 192 message\<rparr>"

definition accumulate_tensor_accounting :: "accounting \<Rightarrow> string \<Rightarrow> u64 \<Rightarrow> accounting" where
  "accumulate_tensor_accounting a name bytes =
     (let a = a\<lparr>ac_total_tensor_count := ac_total_tensor_count a + 1,
                ac_total_tensor_bytes := ac_total_tensor_bytes a + bytes\<rparr>
      in if tensor_is_required_runtime name
         then
           let a = a\<lparr>ac_required_runtime_tensor_count := ac_required_runtime_tensor_count a + 1,
                     ac_language_tensor_count := ac_language_tensor_count a + 1,
                     ac_required_runtime_bytes := ac_required_runtime_bytes a + bytes,
                     ac_language_bytes := ac_language_bytes a + bytes\<rparr>
           in if tensor_is_prepack_candidate name
              then a\<lparr>ac_candidate_tensor_count := ac_candidate_tensor_count a + 1,
                     ac_candidate_bytes := ac_candidate_bytes a + bytes\<rparr>
              else a
         else
           let a = a\<lparr>ac_deferred_tensor_count := ac_deferred_tensor_count a + 1,
                     ac_deferred_bytes := ac_deferred_bytes a + bytes\<rparr>
           in if tensor_is_visual_deferred name
              then a\<lparr>ac_visual_tensor_count := ac_visual_tensor_count a + 1, ac_visual_bytes := ac_visual_bytes a + bytes\<rparr>
              else if tensor_is_mtp_deferred name
              then a\<lparr>ac_mtp_tensor_count := ac_mtp_tensor_count a + 1, ac_mtp_bytes := ac_mtp_bytes a + bytes\<rparr>
              else a\<lparr>ac_unknown_tensor_count := ac_unknown_tensor_count a + 1, ac_unknown_bytes := ac_unknown_bytes a + bytes\<rparr>)"

text \<open>The loop of \<open>qrt_accumulate_header_accounting\<close>; what was added before a failure stays.\<close>

function header_accounting_loop :: "accounting \<Rightarrow> string \<Rightarrow> bool \<times> accounting" where
  "header_accounting_loop a cursor =
     (let cursor = json_skip_ws cursor
      in if starts_char CHR ''}'' cursor then (True, a)
         else
           case json_parse_string QRT_LOAD_JSON_STRING_CAPACITY cursor of
             None \<Rightarrow> (False, a)
           | Some (key, cursor) \<Rightarrow>
               let cursor = json_skip_ws cursor
               in if \<not> starts_char CHR '':'' cursor then (False, a)
                  else
                    let value_start = json_skip_ws (tl cursor)
                    in case json_skip_value value_start of
                         None \<Rightarrow> (False, a)
                       | Some value_end \<Rightarrow>
                           (case (if key = ''__metadata__'' then Some a
                                  else case json_read_data_offsets_until value_start value_end of
                                         None \<Rightarrow> None
                                       | Some (offset_begin, offset_end) \<Rightarrow>
                                           Some (accumulate_tensor_accounting a key (offset_end - offset_begin))) of
                              None \<Rightarrow> (False, a)
                            | Some a \<Rightarrow>
                                let cursor = json_skip_ws value_end
                                in if starts_char CHR '','' cursor then header_accounting_loop a (tl cursor)
                                   else if \<not> starts_char CHR ''}'' cursor then (False, a)
                                   else header_accounting_loop a cursor))"
  by auto
termination
proof (relation "measure (\<lambda>(a, cursor). length cursor)", goal_cases)
  case (2 a cursor s1 pr key c1 c2 vs ve a' c3)
  show ?case
    using json_parse_string_forward [OF 2(3,4)] json_skip_value_shorter [of vs ve] 2
      length_json_skip_ws [of cursor] length_json_skip_ws [of c1] length_json_skip_ws [of "tl c2"] length_json_skip_ws [of ve]
    by simp
next
  case (3 a cursor s1 pr key c1 c2 vs ve a' c3)
  show ?case
    using json_parse_string_forward [OF 3(3,4)] json_skip_value_shorter [of vs ve] 3
      length_json_skip_ws [of cursor] length_json_skip_ws [of c1] length_json_skip_ws [of "tl c2"] length_json_skip_ws [of ve]
    by simp
qed simp

declare header_accounting_loop.simps [simp del]

definition accumulate_header_accounting :: "string \<Rightarrow> accounting \<Rightarrow> bool \<times> accounting" where
  "accumulate_header_accounting header_json a =
     (let cursor = json_skip_ws header_json
      in if \<not> starts_char CHR ''{'' cursor then (False, a) else header_accounting_loop a (tl cursor))"

fun accounting_shards ::
  "core_env \<Rightarrow> string \<Rightarrow> string list \<Rightarrow> accounting \<Rightarrow> core_hist \<Rightarrow> qrt_status option \<times> accounting \<times> core_hist" where
  "accounting_shards env model_dir [] a h = (None, a, h)"
| "accounting_shards env model_dir (shard # shards) a h =
     (case path_join model_dir shard QRT_LOAD_PATH_CAPACITY of
        None \<Rightarrow> (Some STATUS_INVALID_ARGUMENT, prepack_set_failure ''shard_path'' ''shard path is too long'' a, h)
      | Some shard_path \<Rightarrow>
          let (res, h) = read_safetensors_header_json env shard_path h
          in case res of
               Inl (status, stage, message) \<Rightarrow> (Some status, prepack_set_failure stage message a, h)
             | Inr (header_json, bytes) \<Rightarrow>
                 let (ok, a) = accumulate_header_accounting (c_string bytes) a;
                     h = c_free env header_json h
                 in if ok then accounting_shards env model_dir shards a h
                    else (Some STATUS_PARSE_ERROR,
                          prepack_set_failure ''shard_header_parse'' ''tensor accounting parse failed'' a, h))"

definition byte_accounting_closes :: "manifest_result \<Rightarrow> accounting \<Rightarrow> bool" where
  "byte_accounting_closes m a \<longleftrightarrow>
     ac_total_tensor_count a = mr_tensor_count m \<and> ac_total_tensor_bytes a = mr_metadata_total_size_bytes m \<and>
     ac_required_runtime_bytes a + ac_deferred_bytes a = ac_total_tensor_bytes a \<and>
     ac_unknown_tensor_count a = 0 \<and> ac_candidate_bytes a > 0"

text \<open>\<open>qrt_qwen36_prepack_accounting_probe\<close>\<close>

definition prepack_accounting_probe ::
  "core_env \<Rightarrow> string \<Rightarrow> manifest_result \<Rightarrow> core_hist \<Rightarrow> qrt_status \<times> accounting \<times> core_hist" where
  "prepack_accounting_probe env model_dir m h =
     (let a = zero_accounting
      in if \<not> mr_manifest_ready m
         then (STATUS_UNSUPPORTED, prepack_set_failure ''manifest'' ''manifest is not ready'' a, h)
         else
      case path_join model_dir ''model.safetensors.index.json'' QRT_LOAD_PATH_CAPACITY of
        None \<Rightarrow> (STATUS_INVALID_ARGUMENT, prepack_set_failure ''path'' ''model path is too long'' a, h)
      | Some index_path \<Rightarrow>
      let (res, h) = read_small_file env index_path ''index_read'' h
      in case res of
           Inl (status, stage, message) \<Rightarrow> (status, prepack_set_failure ''index_read'' ''index read failed'' a, h)
         | Inr (index_json, bytes) \<Rightarrow>
      let (r, h) = ask env (CCalloc (of_nat QRT_LOAD_MAX_SHARDS) (of_nat QRT_LOAD_PATH_CAPACITY)) h;
          shards = c_num r
      in if shards = nullptr
         then (STATUS_OUT_OF_MEMORY, prepack_set_failure ''index_parse'' ''shard list allocation failed'' a,
               c_free env index_json h)
         else
      let release = (\<lambda>h. c_free env index_json (c_free env shards h))
      in case parse_weight_map (c_string bytes) of
           None \<Rightarrow> (STATUS_PARSE_ERROR, prepack_set_failure ''index_parse'' ''weight_map parse failed'' a, release h)
         | Some (index_tensor_count, names) \<Rightarrow>
      if of_nat index_tensor_count \<noteq> mr_tensor_count m \<or> of_nat (length names) \<noteq> mr_shard_count m
      then (STATUS_UNSUPPORTED, prepack_set_failure ''index_parse'' ''manifest and index counts differ'' a, release h)
      else
      let (stopped, a, h) = accounting_shards env model_dir names a h
      in case stopped of
           Some status \<Rightarrow> (status, a, release h)
         | None \<Rightarrow>
      let a = a\<lparr>ac_prepack_completed_bytes := 0, ac_deferred_materialization_bytes := ac_candidate_bytes a,
                ac_first_request_materialized_bytes := 0, ac_prepack_completed := False, ac_first_request_reported := True\<rparr>;
          a = a\<lparr>ac_byte_accounting_pass := byte_accounting_closes m a\<rparr>;
          a = a\<lparr>ac_accounting_ready := ac_byte_accounting_pass a\<rparr>;
          h = release h
      in if \<not> ac_accounting_ready a
         then (STATUS_UNSUPPORTED, prepack_set_failure ''byte_accounting'' ''tensor byte accounting did not close'' a, h)
         else (STATUS_OK, a, h))"

section \<open>Resources\<close>

lemmas core_history_simps = core_owns_def core_tell_def c_free_def block_resource_def ask_def Let_def

lemma read_small_file_owns:
  assumes "read_small_file env path stage h = (res, h')" "core_owns h R"
  shows "core_owns h' ((case res of Inl f \<Rightarrow> {#} | Inr (p, bytes) \<Rightarrow> block_resource p) + R)"
  using assms unfolding read_small_file_def
  by (auto simp: core_history_simps split: if_splits)

lemma map_header_owns:
  assumes "map_header env path h = (res, h')" "core_owns h R"
  shows "core_owns h' ((case res of Inl f \<Rightarrow> {#} | Inr (file_bytes, header_len, p, bytes) \<Rightarrow> block_resource p) + R)"
  using assms unfolding map_header_def
  by (auto simp: core_history_simps split: if_splits)

lemma read_safetensors_header_json_owns:
  assumes "read_safetensors_header_json env path h = (res, h')" "core_owns h R"
  shows "core_owns h' ((case res of Inl f \<Rightarrow> {#} | Inr (p, bytes) \<Rightarrow> block_resource p) + R)"
proof -
  obtain r where r: "map_header env path h = (r, h')" using assms(1) by (auto simp: read_safetensors_header_json_def split: prod.splits)
  show ?thesis
    using map_header_owns [OF r assms(2)] assms(1) r by (auto simp: read_safetensors_header_json_def split: sum.splits)
qed

lemma probe_safetensors_header_owns:
  assumes "probe_safetensors_header env path h = (res, h')" "core_owns h R"
  shows "core_owns h' R"
proof -
  obtain r g where r: "map_header env path h = (r, g)" by fastforce
  show ?thesis
    using map_header_owns [OF r assms(2)] assms(1) r by (auto simp: probe_safetensors_header_def split: sum.splits)
qed

lemma probe_shards_owns:
  "core_owns h R \<Longrightarrow> core_owns (snd (snd (probe_shards env dir shards m h))) R"
proof (induction shards arbitrary: m h)
  case (Cons s shards)
  then show ?case
    by (auto simp: case_prod_beta Let_def split: option.splits sum.splits dest: probe_safetensors_header_owns [OF prod.collapse [symmetric]])
qed simp

lemma read_safetensors_header_json_owns_Inl:
  "fst (read_safetensors_header_json env path h) = Inl f \<Longrightarrow> core_owns h R \<Longrightarrow>
     core_owns (snd (read_safetensors_header_json env path h)) R"
  using read_safetensors_header_json_owns [of env path h, OF prod.collapse [symmetric]] by simp

lemma read_safetensors_header_json_owns_Inr:
  "fst (read_safetensors_header_json env path h) = Inr (p, bytes) \<Longrightarrow> core_owns h R \<Longrightarrow>
     core_owns (snd (read_safetensors_header_json env path h)) (block_resource p + R)"
  using read_safetensors_header_json_owns [of env path h, OF prod.collapse [symmetric]] by simp

lemma read_small_file_owns_Inl:
  "fst (read_small_file env path stage h) = Inl f \<Longrightarrow> core_owns h R \<Longrightarrow> core_owns (snd (read_small_file env path stage h)) R"
  using read_small_file_owns [of env path stage h, OF prod.collapse [symmetric]] by simp

lemma read_small_file_owns_Inr:
  "fst (read_small_file env path stage h) = Inr (p, bytes) \<Longrightarrow> core_owns h R \<Longrightarrow>
     core_owns (snd (read_small_file env path stage h)) (block_resource p + R)"
  using read_small_file_owns [of env path stage h, OF prod.collapse [symmetric]] by simp

lemmas file_owns = read_safetensors_header_json_owns_Inl read_safetensors_header_json_owns_Inr
  read_small_file_owns_Inl read_small_file_owns_Inr

lemma accounting_shards_owns:
  "core_owns h R \<Longrightarrow> core_owns (snd (snd (accounting_shards env dir shards a h))) R"
proof (induction shards arbitrary: a h)
  case (Cons s shards)
  then show ?case
    by (auto simp: case_prod_beta Let_def file_owns split: option.splits sum.splits)
qed simp

lemma probe_index_owns:
  assumes "core_owns h (block_resource shards + (block_resource index_json + (block_resource config_json + R)))"
  shows "core_owns (snd (snd (probe_index env dir shards index_json config_json txt m h))) R"
  using assms probe_shards_owns [OF assms]
  by (auto simp: probe_index_def Let_def case_prod_beta split: option.splits)

lemma core_owns_calloc_null: "c_num r = nullptr \<Longrightarrow> core_owns ((CCalloc m n, r) # h) R \<longleftrightarrow> core_owns h R"
  by (simp add: core_owns_def)

text \<open>Whatever the files hold and wherever the operating system fails: both probes close every file, mapping and view
  and free every block they acquired.\<close>

lemma load_manifest_probe_owns:
  "core_owns h R \<Longrightarrow> core_owns (snd (snd (load_manifest_probe env dir h))) R"
  by (auto simp: load_manifest_probe_def Let_def case_prod_beta core_owns_calloc_null split: option.splits sum.splits
      simp: file_owns intro!: probe_index_owns core_owns_calloc)

lemma prepack_accounting_probe_owns:
  "core_owns h R \<Longrightarrow> core_owns (snd (snd (prepack_accounting_probe env dir m h))) R"
  by (auto simp: prepack_accounting_probe_def Let_def case_prod_beta core_owns_calloc_null split: option.splits sum.splits
      simp: file_owns intro!: accounting_shards_owns core_owns_calloc)

section \<open>The accounting is a partition\<close>

definition accounting_closed :: "accounting \<Rightarrow> bool" where
  "accounting_closed a \<longleftrightarrow>
     ac_total_tensor_count a = ac_required_runtime_tensor_count a + ac_deferred_tensor_count a \<and>
     ac_total_tensor_bytes a = ac_required_runtime_bytes a + ac_deferred_bytes a \<and>
     ac_deferred_tensor_count a = ac_visual_tensor_count a + ac_mtp_tensor_count a + ac_unknown_tensor_count a \<and>
     ac_deferred_bytes a = ac_visual_bytes a + ac_mtp_bytes a + ac_unknown_bytes a \<and>
     ac_language_tensor_count a = ac_required_runtime_tensor_count a \<and> ac_language_bytes a = ac_required_runtime_bytes a"

lemma accounting_closed_accumulate:
  "accounting_closed a \<Longrightarrow> accounting_closed (accumulate_tensor_accounting a name bytes)"
  by (simp add: accounting_closed_def accumulate_tensor_accounting_def Let_def)

lemma header_accounting_loop_preserves:
  assumes "\<And>b name bytes. P b \<Longrightarrow> P (accumulate_tensor_accounting b name bytes)"
  shows "P a \<Longrightarrow> P (snd (header_accounting_loop a cursor))"
proof (induction a cursor rule: header_accounting_loop.induct)
  case (1 a cursor)
  show ?case
    using "1.prems"
    by (subst header_accounting_loop.simps) (auto simp: Let_def assms split: option.splits intro!: "1.IH")
qed

lemmas header_accounting_loop_closed = header_accounting_loop_preserves [where P = accounting_closed, OF accounting_closed_accumulate]

lemma accumulate_header_accounting_closed:
  "accounting_closed a \<Longrightarrow> accounting_closed (snd (accumulate_header_accounting json a))"
  by (simp add: accumulate_header_accounting_def Let_def header_accounting_loop_closed)

lemma accounting_closed_failure [simp]: "accounting_closed (prepack_set_failure s t a) \<longleftrightarrow> accounting_closed a"
  by (simp add: accounting_closed_def prepack_set_failure_def)

lemma accounting_shards_closed:
  "accounting_closed a \<Longrightarrow> accounting_closed (fst (snd (accounting_shards env dir shards a h)))"
  by (induction shards arbitrary: a h)
    (auto simp: Let_def case_prod_beta accumulate_header_accounting_closed split: option.splits sum.splits)

lemma accounting_closed_zero: "accounting_closed zero_accounting"
  by (simp add: accounting_closed_def zero_accounting_def)

text \<open>The sums a header's tensors of one class come to.\<close>

definition class_bytes :: "(string \<Rightarrow> bool) \<Rightarrow> tensor_info list \<Rightarrow> u64" where
  "class_bytes P ts = (\<Sum>t\<leftarrow>filter (\<lambda>t. P (ti_name t)) ts. of_nat (ti_end t - ti_begin t))"

definition class_count :: "(string \<Rightarrow> bool) \<Rightarrow> tensor_info list \<Rightarrow> u64" where
  "class_count P ts = of_nat (length (filter (\<lambda>t. P (ti_name t)) ts))"

definition unknown_tensor :: "string \<Rightarrow> bool" where
  "unknown_tensor n \<longleftrightarrow> \<not> tensor_is_required_runtime n \<and> \<not> tensor_is_visual_deferred n \<and> \<not> tensor_is_mtp_deferred n"

definition counted_tensor :: "tensor_info \<Rightarrow> bool" where
  "counted_tensor t \<longleftrightarrow> tensor_ok t \<and> ti_dtype t \<noteq> ''data_offsets'' \<and> ti_name t \<noteq> ''__metadata__'' \<and> length (ti_name t) \<le> 511"

definition account_tensor :: "accounting \<Rightarrow> tensor_info \<Rightarrow> accounting" where
  "account_tensor a t = accumulate_tensor_accounting a (ti_name t) (of_nat (ti_end t - ti_begin t))"

lemma header_accounting_tensor:
  assumes "counted_tensor t" "c = CHR '','' \<or> c = CHR ''}''"
  shows "header_accounting_loop a (print_tensor t @ c # r) =
    header_accounting_loop (account_tensor a t) (if c = CHR '','' then r else c # r)"
proof -
  have ok: "tensor_ok t" "ti_dtype t \<noteq> ''data_offsets''" "plain (ti_dtype t)"
    using assms(1) by (auto simp: counted_tensor_def tensor_ok_def)
  have k: "json_parse_string QRT_LOAD_JSON_STRING_CAPACITY (quoted (ti_name t) @ s) = Some (ti_name t, s)" for s
    using assms(1) by (simp add: parse_string_quoted counted_tensor_def tensor_ok_def load_limits)
  have v: "json_skip_ws (print_value t @ s) = print_value t @ s" for s by (simp add: print_value_def)
  have d: "of_nat (ti_end t) - of_nat (ti_begin t) = (of_nat (ti_end t - ti_begin t) :: u64)"
    using ok(1) by (simp add: of_nat_diff tensor_ok_def)
  show ?thesis
    using assms ok
    by (subst header_accounting_loop.simps)
      (auto simp: print_tensor_def Let_def k v read_offsets_print account_tensor_def d counted_tensor_def)
qed

lemma header_accounting_tensors:
  assumes "\<forall>t \<in> set ts. counted_tensor t"
  shows "header_accounting_loop a (join_comma (map print_tensor ts) @ ''}'') = (True, foldl account_tensor a ts)"
  using assms
proof (induction ts arbitrary: a)
  case Nil
  show ?case by (subst header_accounting_loop.simps) (simp add: Let_def starts_char_def)
next
  case (Cons t ts)
  have IH: "header_accounting_loop (account_tensor a t) (join_comma (map print_tensor ts) @ ''}'') = (True, foldl account_tensor a (t # ts))"
    using Cons by simp
  show ?case
  proof (cases ts)
    case Nil
    then show ?thesis using header_accounting_tensor [of t "CHR ''}''" a "[]"] IH Cons.prems by simp
  next
    case (Cons u us)
    have "header_accounting_loop a (print_tensor t @ CHR '','' # join_comma (map print_tensor ts) @ ''}'') =
        header_accounting_loop (account_tensor a t) (join_comma (map print_tensor ts) @ ''}'')"
      using header_accounting_tensor [of t "CHR '',''" a] \<open>\<forall>t \<in> set (t # ts). counted_tensor t\<close> by simp
    then show ?thesis using IH Cons by simp
  qed
qed

lemma accumulate_header_accounting_print:
  assumes "\<forall>t \<in> set ts. counted_tensor t"
  shows "accumulate_header_accounting (print_header ts) a = (True, foldl account_tensor a ts)"
  using header_accounting_tensors [OF assms, of a]
  by (simp add: accumulate_header_accounting_def print_header_def starts_char_def Let_def)

lemma class_snoc [simp]:
  "class_bytes P (ts @ [t]) = class_bytes P ts + (if P (ti_name t) then of_nat (ti_end t - ti_begin t) else 0)"
  "class_count P (ts @ [t]) = class_count P ts + (if P (ti_name t) then 1 else 0)"
  "class_bytes P [] = 0" "class_count P [] = 0"
  by (simp_all add: class_bytes_def class_count_def)

lemma prefixes_agree:
  assumes "string_starts_with n p" "string_starts_with n q" "length p \<le> length q"
  shows "take (length p) q = p"
proof -
  have "take (length p) (take (length q) n) = take (length p) n" using assms(3) by (simp add: min_def)
  then show ?thesis using assms(1,2) unfolding string_starts_with_def by metis
qed

lemma tensor_classes_disjoint:
  "tensor_is_required_runtime n \<Longrightarrow> \<not> tensor_is_visual_deferred n"
  "tensor_is_required_runtime n \<Longrightarrow> \<not> tensor_is_mtp_deferred n"
  "tensor_is_visual_deferred n \<Longrightarrow> \<not> tensor_is_mtp_deferred n"
  "tensor_is_prepack_candidate n \<Longrightarrow> tensor_is_required_runtime n"
  using prefixes_agree [of n "''model.visual.''" "''model.language_model.''"] prefixes_agree [of n "''mtp.''" "''model.language_model.''"]
    prefixes_agree [of n "''mtp.''" "''model.visual.''"]
  by (auto simp: tensor_is_required_runtime_def tensor_is_visual_deferred_def tensor_is_mtp_deferred_def
      tensor_is_prepack_candidate_def) (simp_all add: string_starts_with_def)

definition accounts_for :: "accounting \<Rightarrow> tensor_info list \<Rightarrow> bool" where
  "accounts_for a ts \<longleftrightarrow>
     ac_total_tensor_count a = of_nat (length ts) \<and> ac_total_tensor_bytes a = class_bytes (\<lambda>_. True) ts \<and>
     ac_required_runtime_tensor_count a = class_count tensor_is_required_runtime ts \<and>
     ac_required_runtime_bytes a = class_bytes tensor_is_required_runtime ts \<and>
     ac_visual_tensor_count a = class_count tensor_is_visual_deferred ts \<and>
     ac_visual_bytes a = class_bytes tensor_is_visual_deferred ts \<and>
     ac_mtp_tensor_count a = class_count tensor_is_mtp_deferred ts \<and>
     ac_mtp_bytes a = class_bytes tensor_is_mtp_deferred ts \<and>
     ac_unknown_tensor_count a = class_count unknown_tensor ts \<and> ac_unknown_bytes a = class_bytes unknown_tensor ts \<and>
     ac_candidate_tensor_count a = class_count tensor_is_prepack_candidate ts \<and>
     ac_candidate_bytes a = class_bytes tensor_is_prepack_candidate ts"

lemma accounts_for_snoc: "accounts_for a ts \<Longrightarrow> accounts_for (account_tensor a t) (ts @ [t])"
  using tensor_classes_disjoint [of "ti_name t"]
  by (cases "tensor_is_required_runtime (ti_name t)"; cases "tensor_is_visual_deferred (ti_name t)";
      cases "tensor_is_mtp_deferred (ti_name t)"; cases "tensor_is_prepack_candidate (ti_name t)")
    (simp_all add: accounts_for_def account_tensor_def accumulate_tensor_accounting_def Let_def unknown_tensor_def)

lemma accounts_for_foldl: "accounts_for a done \<Longrightarrow> accounts_for (foldl account_tensor a ts) (done @ ts)"
proof (induction ts arbitrary: a "done")
  case (Cons t ts)
  from Cons.IH [OF accounts_for_snoc [OF Cons.prems]] show ?case by simp
qed simp

text \<open>C25. The accounting of a shard's header agrees with what the writer put there: every tensor is counted, and the bytes of
  the required, visual, multi-token-prediction, unknown and prepack-candidate tensors are the sums of the sizes of the
  tensors whose names are in that class. Whatever a header holds, required and deferred bytes add up to the total, and
  the deferred classes to the deferred bytes.\<close>

theorem header_accounting_agrees:
  assumes "\<forall>t \<in> set ts. counted_tensor t"
  shows "\<exists>a. accumulate_header_accounting (print_header ts) zero_accounting = (True, a) \<and> accounts_for a ts \<and> accounting_closed a"
proof -
  have "accounts_for zero_accounting []" by (simp add: accounts_for_def zero_accounting_def)
  from accounts_for_foldl [OF this, of ts] have "accounts_for (foldl account_tensor zero_accounting ts) ts" by simp
  then show ?thesis
    using accumulate_header_accounting_print [OF assms, of zero_accounting]
      accumulate_header_accounting_closed [OF accounting_closed_zero, of "print_header ts"] by simp
qed

theorem header_accounting_agrees_witness:
  "\<exists>a. accumulate_header_accounting (print_header example_tensors) zero_accounting = (True, a) \<and>
     ac_total_tensor_count a = 2 \<and> ac_total_tensor_bytes a = 20 \<and> ac_unknown_bytes a = 20"
proof -
  have "\<forall>t \<in> set example_tensors. counted_tensor t"
    by (simp add: example_tensors_def counted_tensor_def tensor_ok_def plain_def quote_def backslash_char_def)
  from header_accounting_agrees [OF this] obtain a where
    a: "accumulate_header_accounting (print_header example_tensors) zero_accounting = (True, a)" "accounts_for a example_tensors"
    by blast
  then show ?thesis
    by (simp add: accounts_for_def example_tensors_def class_bytes_def unknown_tensor_def tensor_is_required_runtime_def
        tensor_is_visual_deferred_def tensor_is_mtp_deferred_def string_starts_with_def)
qed

section \<open>What the probes guarantee\<close>

lemma read_small_file_status: "fst (read_small_file env path stage h) = Inl (st, s, t) \<Longrightarrow> st \<noteq> STATUS_OK"
  by (auto simp: read_small_file_def Let_def case_prod_beta split: if_splits)

lemma map_header_status: "fst (map_header env path h) = Inl (st, s, t) \<Longrightarrow> st \<noteq> STATUS_OK"
  by (auto simp: map_header_def Let_def case_prod_beta split: if_splits)

lemma probe_safetensors_header_status: "fst (probe_safetensors_header env path h) = Inl (st, s, t) \<Longrightarrow> st \<noteq> STATUS_OK"
  by (auto simp: probe_safetensors_header_def Let_def case_prod_beta split: sum.splits dest: map_header_status)

lemma read_safetensors_header_json_status:
  "fst (read_safetensors_header_json env path h) = Inl (st, s, t) \<Longrightarrow> st \<noteq> STATUS_OK"
  by (auto simp: read_safetensors_header_json_def Let_def case_prod_beta split: sum.splits dest: map_header_status)

lemma accounting_shards_status: "fst (accounting_shards env dir shards a h) = Some st \<Longrightarrow> st \<noteq> STATUS_OK"
  by (induction shards arbitrary: a h)
    (auto simp: Let_def case_prod_beta split: option.splits sum.splits if_splits dest: read_safetensors_header_json_status)

lemma header_accounting_loop_ready: "ac_accounting_ready (snd (header_accounting_loop a cursor)) = ac_accounting_ready a"
  by (rule header_accounting_loop_preserves [where P = "\<lambda>b. ac_accounting_ready b = ac_accounting_ready a"])
    (simp_all add: accumulate_tensor_accounting_def Let_def)

lemma accounting_shards_ready:
  "ac_accounting_ready (fst (snd (accounting_shards env dir shards a h))) = ac_accounting_ready a"
  by (induction shards arbitrary: a h)
    (auto simp: Let_def case_prod_beta accumulate_header_accounting_def prepack_set_failure_def header_accounting_loop_ready
      split: option.splits sum.splits if_splits)

lemma probe_shards_keeps:
  "mr_manifest_ready (fst (snd (probe_shards env dir shards m h))) = mr_manifest_ready m"
  by (induction shards arbitrary: m h)
    (auto simp: Let_def case_prod_beta load_set_failure_def split: option.splits sum.splits)

lemma load_set_failure_ready [simp]: "mr_manifest_ready (load_set_failure s t m) = mr_manifest_ready m"
  by (simp add: load_set_failure_def)

lemma probe_index_ready:
  assumes "probe_index env dir shards index_json config_json txt m h = (st, m', h')" "mr_manifest_ready m'" "\<not> mr_manifest_ready m"
  shows "st = STATUS_OK \<and> mr_metadata_total_size_bytes m' = mr_total_safetensors_data_bytes m'"
  using assms by (auto simp: probe_index_def Let_def case_prod_beta probe_shards_keeps split: option.splits if_splits)

lemma load_manifest_probe_ready:
  assumes "load_manifest_probe env dir h = (st, m, h')" "mr_manifest_ready m"
  shows "st = STATUS_OK \<and> mr_metadata_total_size_bytes m = mr_total_safetensors_data_bytes m"
proof -
  have "\<not> mr_manifest_ready zero_manifest" by (simp add: zero_manifest_def)
  then show ?thesis
    using assms
    by (auto simp: load_manifest_probe_def Let_def case_prod_beta read_config_shape_def split: option.splits sum.splits if_splits
        dest!: probe_index_ready)
qed

lemma accounting_closed_updates [simp]:
  "accounting_closed (a\<lparr>ac_prepack_completed_bytes := n\<rparr>) = accounting_closed a"
  "accounting_closed (a\<lparr>ac_deferred_materialization_bytes := n\<rparr>) = accounting_closed a"
  "accounting_closed (a\<lparr>ac_first_request_materialized_bytes := n\<rparr>) = accounting_closed a"
  "accounting_closed (a\<lparr>ac_accounting_ready := b\<rparr>) = accounting_closed a"
  "accounting_closed (a\<lparr>ac_byte_accounting_pass := b\<rparr>) = accounting_closed a"
  "accounting_closed (a\<lparr>ac_prepack_completed := b\<rparr>) = accounting_closed a"
  "accounting_closed (a\<lparr>ac_first_request_reported := b\<rparr>) = accounting_closed a"
  by (simp_all add: accounting_closed_def)

lemma prepack_accounting_outcome:
  assumes "prepack_accounting_probe env dir m h = (st, a, h')"
  shows "accounting_closed a \<and> (st = STATUS_OK \<longleftrightarrow> ac_accounting_ready a) \<and>
    (st = STATUS_OK \<longrightarrow> mr_manifest_ready m \<and> byte_accounting_closes m a)"
proof -
  have zero: "accounting_closed zero_accounting" "\<not> ac_accounting_ready zero_accounting"
    by (rule accounting_closed_zero) (simp add: zero_accounting_def)
  have fail: "ac_accounting_ready (prepack_set_failure s t a) = ac_accounting_ready a" for s t a
    by (simp add: prepack_set_failure_def)
  show ?thesis
    using assms zero
    by (auto simp: prepack_accounting_probe_def Let_def case_prod_beta fail accounting_shards_closed accounting_shards_ready
        byte_accounting_closes_def dest: read_small_file_status accounting_shards_status split: if_splits option.splits sum.splits)
qed

text \<open>C24. Whatever the files hold and wherever the operating system fails, the manifest probe and the accounting
  probe close every file, mapping and view and free every block they acquired, once. The accounting they
  return is a partition of the bytes; it is ready exactly when the probe reports success, and then it covers the tensors and
  bytes of the manifest with no tensor of an unknown class.\<close>

theorem model_probes_sound:
  assumes "core_owns h R" "load_manifest_probe env dir h = (st, m, h1)" "prepack_accounting_probe env dir m h1 = (st', a, h2)"
  shows "core_owns h1 R \<and> core_owns h2 R \<and> accounting_closed a \<and> (st' = STATUS_OK \<longleftrightarrow> ac_accounting_ready a) \<and>
    (st' = STATUS_OK \<longrightarrow> st = STATUS_OK \<and> byte_accounting_closes m a \<and> mr_total_safetensors_data_bytes m = ac_total_tensor_bytes a)"
proof -
  have own: "core_owns h1 R" "core_owns h2 R"
    using load_manifest_probe_owns [OF assms(1), of env dir] prepack_accounting_probe_owns [of h1 R env dir m] assms(2,3) by simp_all
  note res = prepack_accounting_outcome [OF assms(3)]
  show ?thesis
    using own res load_manifest_probe_ready [OF assms(2)] by (auto simp: byte_accounting_closes_def)
qed

text \<open>A disk on which files open and then cannot be read.\<close>

definition broken_disk :: core_env where
  "broken_disk h c = \<lparr>c_ok = False, c_num = (case c of Fopen p \<Rightarrow> 7 | _ \<Rightarrow> nullptr), c_int = 0, c_bytes = []\<rparr>"

theorem model_probes_sound_witness:
  "\<exists>m h1 a h2. load_manifest_probe broken_disk ''m'' [] = (STATUS_IO_ERROR, m, h1) \<and> length h1 = 3 \<and> core_owns h1 {#} \<and>
     prepack_accounting_probe broken_disk ''m'' m h1 = (STATUS_UNSUPPORTED, a, h2) \<and> \<not> ac_accounting_ready a"
proof -
  obtain m h1 where run: "load_manifest_probe broken_disk ''m'' [] = (STATUS_IO_ERROR, m, h1)" "length h1 = 3" "\<not> mr_manifest_ready m"
    by (auto simp: load_manifest_probe_def read_small_file_def path_join_def strchr_def backslash_char_def load_limits ask_def
        core_tell_def broken_disk_def nullptr_def load_set_failure_def zero_manifest_def Let_def)
  obtain a h2 where run2: "prepack_accounting_probe broken_disk ''m'' m h1 = (STATUS_UNSUPPORTED, a, h2)"
    using run(3) by (auto simp: prepack_accounting_probe_def Let_def)
  show ?thesis
    using model_probes_sound [OF _ run(1) run2, of "{#}"] run run2 by auto
qed

end
