(* ===== verification/Tensor_Loader.thy ===== *)
theory Tensor_Loader
  imports Model_Files
begin

text \<open>
  Reading tensors from the model files, after \<^verbatim>\<open>native/src/qrt.c\<close> (Windows branches): locating a tensor through
  the index and the header of its shard, the cache of locations, the cache of open shards with its overlapped
  reads, slices of tensors, and weights materialized through the resident weight cache.
\<close>

section \<open>Locating a tensor\<close>

record tensor_location =
  tl_shard :: string
  tl_header_len :: u64
  tl_data_begin :: u64
  tl_data_end :: u64

text \<open>
  \<open>qrt_locate_tensor\<close>. A failure carries what \<open>qrt_engine_set_token_request_failure\<close> is called with.
\<close>

definition locate_tensor ::
  "core_env \<Rightarrow> string \<Rightarrow> string \<Rightarrow> core_hist \<Rightarrow> (failure + tensor_location) \<times> core_hist" where
  "locate_tensor env model_dir tensor_name h =
     (case path_join model_dir ''model.safetensors.index.json'' QRT_LOAD_PATH_CAPACITY of
        None \<Rightarrow> (Inl (STATUS_INVALID_ARGUMENT, ''tensor_index_path'', ''model path is too long''), h)
      | Some index_path \<Rightarrow>
      let (res, h) = read_small_file env index_path ''index_read'' h
      in case res of
           Inl (status, _, _) \<Rightarrow> (Inl (status, ''tensor_index_read'', ''index read failed''), h)
         | Inr (index_json, index_bytes) \<Rightarrow>
      let h = c_free env index_json h
      in case find_shard_for_tensor (c_string index_bytes) tensor_name QRT_LOAD_PATH_CAPACITY of
           None \<Rightarrow> (Inl (STATUS_PARSE_ERROR, ''tensor_index_parse'', ''tensor missing from index''), h)
         | Some shard \<Rightarrow>
      case path_join model_dir shard QRT_LOAD_PATH_CAPACITY of
        None \<Rightarrow> (Inl (STATUS_INVALID_ARGUMENT, ''tensor_shard_path'', ''shard path is too long''), h)
      | Some shard_path \<Rightarrow>
      let (res, h) = read_safetensors_header_json env shard_path h
      in case res of
           Inl (status, _, _) \<Rightarrow> (Inl (status, ''tensor_header_read'', ''safetensors header read failed''), h)
         | Inr (header_json, header_bytes) \<Rightarrow>
      let h = c_free env header_json h
      in case find_tensor_offsets (c_string header_bytes) tensor_name of
           None \<Rightarrow> (Inl (STATUS_PARSE_ERROR, ''tensor_header_parse'', ''tensor offsets missing from shard header''), h)
         | Some (data_begin, data_end) \<Rightarrow>
      let (r, h) = ask env (Fopen shard_path) h;
          file = c_num r
      in if file = nullptr then (Inl (STATUS_IO_ERROR, ''tensor_shard_open'', ''shard open failed''), h)
         else
      let (r, h) = ask env (Fread file 8) h;
          h = core_tell env (Fclose file) h
      in if length (c_bytes r) \<noteq> 8 then (Inl (STATUS_IO_ERROR, ''tensor_header_len'', ''header length read failed''), h)
         else (Inr \<lparr>tl_shard = shard, tl_header_len = read_le64 (c_bytes r), tl_data_begin = data_begin, tl_data_end = data_end\<rparr>, h))"

text \<open>\<open>qrt_strdup_local\<close>\<close>

definition strdup_local :: "core_env \<Rightarrow> string \<Rightarrow> core_hist \<Rightarrow> u64 \<times> core_hist" where
  "strdup_local env value h = (let (r, h) = ask env (CMalloc (of_nat (length value) + 1)) h in (c_num r, h))"

record location_entry =
  le_tensor_name :: u64
  le_name :: string
  le_location :: tensor_location

record location_cache =
  lc_entries_ptr :: u64
  lc_entries :: "location_entry list"
  lc_entry_capacity :: u64
  lc_hit_count :: u64
  lc_miss_count :: u64
  lc_store_failure_count :: u64

text \<open>\<open>sizeof(qrt_tensor_location_cache_entry_t)\<close>: a pointer, the shard name and three 64-bit fields.\<close>

definition location_entry_size :: u64 where
  "location_entry_size = 1056"

definition free_tensor_location_cache :: "core_env \<Rightarrow> location_cache \<Rightarrow> core_hist \<Rightarrow> location_cache \<times> core_hist" where
  "free_tensor_location_cache env lc h =
     (if lc_entries_ptr lc = nullptr then (lc, h)
      else
        let h = foldl (\<lambda>h e. c_free env (le_tensor_name e) h) h (lc_entries lc);
            h = c_free env (lc_entries_ptr lc) h
        in (lc\<lparr>lc_entries_ptr := nullptr, lc_entries := [], lc_entry_capacity := 0\<rparr>, h))"

definition location_store_failed :: "location_cache \<Rightarrow> location_cache" where
  "location_store_failed lc = lc\<lparr>lc_store_failure_count := lc_store_failure_count lc + 1\<rparr>"

definition grow_locations :: "core_env \<Rightarrow> location_cache \<Rightarrow> core_hist \<Rightarrow> location_cache option \<times> core_hist" where
  "grow_locations env lc h =
     (if of_nat (length (lc_entries lc)) = lc_entry_capacity lc
      then
        let new_capacity = (if lc_entry_capacity lc = 0 then 64 else lc_entry_capacity lc * 2)
        in if new_capacity < lc_entry_capacity lc then (None, h)
           else
             let (r, h) = ask env (CRealloc (lc_entries_ptr lc) (new_capacity * location_entry_size)) h
             in if c_num r = nullptr then (None, h)
                else (Some (lc\<lparr>lc_entries_ptr := c_num r, lc_entry_capacity := new_capacity\<rparr>), h)
      else (Some lc, h))"

definition locate_tensor_cached ::
  "core_env \<Rightarrow> string \<Rightarrow> location_cache \<Rightarrow> string \<Rightarrow> core_hist \<Rightarrow> (failure + tensor_location) \<times> location_cache \<times> core_hist" where
  "locate_tensor_cached env model_path lc tensor_name h =
     (case find (\<lambda>e. le_tensor_name e \<noteq> nullptr \<and> le_name e = tensor_name) (lc_entries lc) of
        Some e \<Rightarrow> (Inr (le_location e), lc\<lparr>lc_hit_count := lc_hit_count lc + 1\<rparr>, h)
      | None \<Rightarrow>
      let lc = lc\<lparr>lc_miss_count := lc_miss_count lc + 1\<rparr>;
          (res, h) = locate_tensor env model_path tensor_name h
      in case res of
           Inl f \<Rightarrow> (Inl f, lc, h)
         | Inr location \<Rightarrow>
      let (grown, h) = grow_locations env lc h
      in case grown of
           None \<Rightarrow> (Inr location, location_store_failed lc, h)
         | Some lc \<Rightarrow>
      let (cached_name, h) = strdup_local env tensor_name h
      in if cached_name = nullptr then (Inr location, location_store_failed lc, h)
         else (Inr location,
               lc\<lparr>lc_entries := lc_entries lc @
                    [\<lparr>le_tensor_name = cached_name, le_name = tensor_name, le_location = location\<rparr>]\<rparr>, h))"

section \<open>Open shards\<close>

record shard_entry =
  se_shard :: string
  se_file_handle :: u64
  se_file_size :: u64

record shard_cache =
  sc_enabled :: bool
  sc_entries_ptr :: u64
  sc_entries :: "shard_entry list"
  sc_entry_capacity :: u64
  sc_hit_count :: u64
  sc_miss_count :: u64
  sc_read_bytes :: u64
  sc_opened_file_bytes :: u64
  sc_fallback_count :: u64
  sc_store_failure_count :: u64

text \<open>\<open>sizeof(qrt_win32_shard_read_cache_entry_t)\<close>\<close>

definition shard_entry_size :: u64 where
  "shard_entry_size = 1040"

definition find_shard_read_entry :: "shard_cache \<Rightarrow> string \<Rightarrow> shard_entry option" where
  "find_shard_read_entry sc shard =
     (if sc_entries_ptr sc = nullptr then None else find (\<lambda>e. se_shard e = shard) (sc_entries sc))"

definition close_shard :: "core_env \<Rightarrow> core_hist \<Rightarrow> shard_entry \<Rightarrow> core_hist" where
  "close_shard env h e =
     (if se_file_handle e \<noteq> nullptr \<and> se_file_handle e \<noteq> invalid_file then core_tell env (CloseObject (se_file_handle e)) h else h)"

definition free_shard_read_cache :: "core_env \<Rightarrow> shard_cache \<Rightarrow> core_hist \<Rightarrow> shard_cache \<times> core_hist" where
  "free_shard_read_cache env sc h =
     (if sc_entries_ptr sc = nullptr then (sc, h)
      else
        let h = foldl (close_shard env) h (sc_entries sc);
            h = c_free env (sc_entries_ptr sc) h
        in (sc\<lparr>sc_entries_ptr := nullptr, sc_entries := [], sc_entry_capacity := 0, sc_opened_file_bytes := 0\<rparr>, h))"

definition shard_store_failed :: "shard_cache \<Rightarrow> shard_cache" where
  "shard_store_failed sc = sc\<lparr>sc_store_failure_count := sc_store_failure_count sc + 1\<rparr>"

definition grow_shards :: "core_env \<Rightarrow> shard_cache \<Rightarrow> core_hist \<Rightarrow> shard_cache option \<times> core_hist" where
  "grow_shards env sc h =
     (if of_nat (length (sc_entries sc)) = sc_entry_capacity sc
      then
        let new_capacity = (if sc_entry_capacity sc = 0 then 16 else sc_entry_capacity sc * 2);
            new_capacity = (if new_capacity > of_nat QRT_LOAD_MAX_SHARDS then of_nat QRT_LOAD_MAX_SHARDS else new_capacity)
        in if new_capacity \<le> sc_entry_capacity sc then (None, h)
           else
             let (r, h) = ask env (CRealloc (sc_entries_ptr sc) (new_capacity * shard_entry_size)) h
             in if c_num r = nullptr then (None, h)
                else (Some (sc\<lparr>sc_entries_ptr := c_num r, sc_entry_capacity := new_capacity\<rparr>), h)
      else (Some sc, h))"

text \<open>\<open>qrt_engine_prepare_win32_shard_read_cache_entry\<close>; its return value is ignored by the callers and left out.\<close>

definition prepare_shard_read_entry :: "core_env \<Rightarrow> string \<Rightarrow> string \<Rightarrow> shard_cache \<Rightarrow> core_hist \<Rightarrow> shard_cache \<times> core_hist" where
  "prepare_shard_read_entry env model_dir shard sc h =
     (if \<not> sc_enabled sc \<or> find_shard_read_entry sc shard \<noteq> None then (sc, h)
      else if length (sc_entries sc) \<ge> QRT_LOAD_MAX_SHARDS then (shard_store_failed sc, h)
      else case path_join model_dir shard QRT_LOAD_PATH_CAPACITY of
        None \<Rightarrow> (shard_store_failed sc, h)
      | Some shard_path \<Rightarrow>
      let (grown, h) = grow_shards env sc h
      in case grown of
           None \<Rightarrow> (shard_store_failed sc, h)
         | Some sc \<Rightarrow>
      let (r, h) = ask env (OpenFileA shard_path) h;
          file = c_num r
      in if file = invalid_file then (shard_store_failed sc, h)
         else
      let (r, h) = ask env (SizeOfFile file) h
      in if \<not> c_ok r \<or> c_int r < 0 then (shard_store_failed sc, core_tell env (CloseObject file) h)
         else
      let entry = \<lparr>se_shard = c_copy QRT_LOAD_PATH_CAPACITY shard, se_file_handle = file, se_file_size = word_of_int (c_int r)\<rparr>
      in (sc\<lparr>sc_entries := sc_entries sc @ [entry], sc_miss_count := sc_miss_count sc + 1,
             sc_opened_file_bytes := sc_opened_file_bytes sc + se_file_size entry\<rparr>, h))"

definition slice_offset :: "tensor_location \<Rightarrow> u64 \<Rightarrow> u64" where
  "slice_offset location relative_begin = 8 + tl_header_len location + tl_data_begin location + relative_begin"

definition shard_fallback :: "shard_cache \<Rightarrow> shard_cache" where
  "shard_fallback sc = sc\<lparr>sc_fallback_count := sc_fallback_count sc + 1\<rparr>"

text \<open>\<open>qrt_try_read_tensor_slice_from_win32_shard_read_cache\<close>; \<open>None\<close> is the return value 0.\<close>

definition try_read_slice ::
  "core_env \<Rightarrow> tensor_location \<Rightarrow> u64 \<Rightarrow> u64 \<Rightarrow> shard_cache \<Rightarrow> core_hist \<Rightarrow> u8 list option \<times> shard_cache \<times> core_hist" where
  "try_read_slice env location relative_begin byte_count sc h =
     (if byte_count = 0 \<or> \<not> sc_enabled sc then (None, sc, h)
      else case find_shard_read_entry sc (tl_shard location) of
        None \<Rightarrow> (None, shard_fallback sc, h)
      | Some e \<Rightarrow>
      if se_file_handle e = nullptr \<or> se_file_handle e = invalid_file then (None, shard_fallback sc, h)
      else
      let absolute = slice_offset location relative_begin
      in if absolute > se_file_size e \<or> byte_count > se_file_size e - absolute \<or> byte_count > 2 ^ 32 - 1
         then (None, shard_fallback sc, h)
         else
      let (r, h) = ask env CreateEvent h;
          event = c_num r
      in if event = nullptr then (None, shard_fallback sc, h)
         else
      let (r, h) = ask env (ReadFileAt (se_file_handle e) absolute byte_count) h;
          (read_ok, bytes, h) =
            (if c_ok r then (True, c_bytes r, h)
             else let (p, h) = ask env LastErrorIsPending h
                  in if c_ok p then let (r, h) = ask env (OverlappedResult (se_file_handle e)) h in (c_ok r, c_bytes r, h)
                     else (False, [], h));
          h = core_tell env (CloseObject event) h
      in if \<not> read_ok \<or> length bytes \<noteq> unat byte_count then (None, shard_fallback sc, h)
         else (Some bytes, sc\<lparr>sc_hit_count := sc_hit_count sc + 1, sc_read_bytes := sc_read_bytes sc + byte_count\<rparr>, h))"

text \<open>
  \<open>qrt_read_tensor_slice\<close>: the bytes written to the caller's buffer. A failure with an empty stage leaves the
  failure text of the engine as it is.
\<close>

definition read_tensor_slice ::
  "core_env \<Rightarrow> string \<Rightarrow> tensor_location \<Rightarrow> u64 \<Rightarrow> u64 \<Rightarrow> shard_cache \<Rightarrow> core_hist \<Rightarrow>
     (failure + u8 list) \<times> shard_cache \<times> core_hist" where
  "read_tensor_slice env model_dir location relative_begin byte_count sc h =
     (if byte_count = 0 then (Inl (STATUS_INVALID_ARGUMENT, [], []), sc, h)
      else
      let tensor_bytes = tl_data_end location - tl_data_begin location
      in if tl_data_end location < tl_data_begin location \<or> relative_begin > tensor_bytes \<or>
            byte_count > tensor_bytes - relative_begin
         then (Inl (STATUS_INVALID_ARGUMENT, ''tensor_slice_bounds'', ''requested tensor slice is outside data_offsets''), sc, h)
         else
      let (found, sc, h) = try_read_slice env location relative_begin byte_count sc h
      in case found of
           Some bytes \<Rightarrow> (Inr bytes, sc, h)
         | None \<Rightarrow>
      case path_join model_dir (tl_shard location) QRT_LOAD_PATH_CAPACITY of
        None \<Rightarrow> (Inl (STATUS_INVALID_ARGUMENT, ''tensor_slice_path'', ''shard path is too long''), sc, h)
      | Some shard_path \<Rightarrow>
      let (r, h) = ask env (Fopen shard_path) h;
          file = c_num r
      in if file = nullptr then (Inl (STATUS_IO_ERROR, ''tensor_slice_open'', ''shard open failed''), sc, h)
         else
      let (r, h) = ask env (FseekSet file (slice_offset location relative_begin)) h
      in if \<not> c_ok r
         then (Inl (STATUS_IO_ERROR, ''tensor_slice_seek'', ''shard seek failed''), sc, core_tell env (Fclose file) h)
         else
      let (r, h) = ask env (Fread file byte_count) h;
          h = core_tell env (Fclose file) h
      in if length (c_bytes r) \<noteq> unat byte_count
         then (Inl (STATUS_IO_ERROR, ''tensor_slice_read'', ''short tensor slice read''), sc, h)
         else (Inr (c_bytes r), sc, h))"

section \<open>Materialized weights\<close>

text \<open>The part of the engine that loads weights, and what the blocks of the resident cache hold.\<close>

record loader =
  ld_model_path :: string
  ld_weights :: weight_cache
  ld_weight_miss_count :: u64
  ld_weight_miss_bytes :: u64
  ld_locations :: location_cache
  ld_shards :: shard_cache
  ld_failure_stage :: string
  ld_failure :: string
  ld_memory :: "u64 \<Rightarrow> u8 list"

definition token_request_failure :: "failure \<Rightarrow> loader \<Rightarrow> loader" where
  "token_request_failure f ld =
     (case f of (status, stage, message) \<Rightarrow>
        if stage = [] then ld else ld\<lparr>ld_failure_stage := c_copy 64 stage, ld_failure := c_copy 192 message\<rparr>)"

text \<open>Storing a weight that was read from its file.\<close>

definition store_materialized ::
  "core_env \<Rightarrow> loader \<Rightarrow> string \<Rightarrow> u8 list \<Rightarrow> u64 \<Rightarrow> u64 \<Rightarrow> core_hist \<Rightarrow> loader \<times> core_hist" where
  "store_materialized env ld cache_key bytes weight_bytes hash h =
     (let (r, h) = ask env (CMalloc weight_bytes) h;
          resident_data = c_num r;
          (resident_name, h) = strdup_local env cache_key h;
          wc = ld_weights ld
      in if resident_data = nullptr \<or> resident_name = nullptr
         then (ld\<lparr>ld_weights := wc\<lparr>wc_store_failure_count := wc_store_failure_count wc + 1\<rparr>\<rparr>,
               c_free env resident_name (c_free env resident_data h))
         else
           let (stored, wc, h) = store_weight env wc resident_name cache_key resident_data (weight_bytes div 2) weight_bytes hash h
           in if stored then (ld\<lparr>ld_weights := wc, ld_memory := (ld_memory ld)(resident_data := bytes)\<rparr>, h)
              else (ld\<lparr>ld_weights := wc\<rparr>, c_free env resident_name (c_free env resident_data h)))"

text \<open>
  The rest of \<open>qrt_materialize_tensor_slice_weight\<close> after a location is known: the shard is opened, the slice read
  and stored.
\<close>

definition materialize_from_file ::
  "core_env \<Rightarrow> loader \<Rightarrow> tensor_location \<Rightarrow> u64 \<Rightarrow> string \<Rightarrow> u64 \<Rightarrow> core_hist \<Rightarrow>
     (qrt_status + u8 list \<times> u64 \<times> u64) \<times> loader \<times> core_hist" where
  "materialize_from_file env ld location relative_begin cache_key weight_bytes h =
     (let (sc, h) = prepare_shard_read_entry env (ld_model_path ld) (tl_shard location) (ld_shards ld) h;
          (res, sc, h) = read_tensor_slice env (ld_model_path ld) location relative_begin weight_bytes sc h;
          ld = ld\<lparr>ld_shards := sc\<rparr>
      in case res of
           Inl f \<Rightarrow> (Inl (fst f), token_request_failure f ld, h)
         | Inr bytes \<Rightarrow>
             let hash = fnv1a64_bytes bytes;
                 (ld, h) = (if wc_enabled (ld_weights ld) then store_materialized env ld cache_key bytes weight_bytes hash h else (ld, h))
             in (Inr (bytes, hash, weight_bytes), ld, h))"

text \<open>
  \<open>qrt_materialize_tensor_slice_weight\<close>: on success the bytes of the weight, their hash and the number of bytes
  added to the caller's counter.
\<close>

definition count_weight_miss :: "u64 \<Rightarrow> loader \<Rightarrow> loader" where
  "count_weight_miss weight_bytes ld =
     (if wc_enabled (ld_weights ld)
      then ld\<lparr>ld_weight_miss_count := ld_weight_miss_count ld + 1, ld_weight_miss_bytes := ld_weight_miss_bytes ld + weight_bytes\<rparr>
      else ld)"

definition materialize_slice ::
  "core_env \<Rightarrow> loader \<Rightarrow> string \<Rightarrow> tensor_location option \<Rightarrow> u64 \<Rightarrow> string option \<Rightarrow> u64 \<Rightarrow> core_hist \<Rightarrow>
     (qrt_status + u8 list \<times> u64 \<times> u64) \<times> loader \<times> core_hist" where
  "materialize_slice env ld tensor_name known_location relative_begin resident_cache_key weight_bytes h =
     (let cache_key = (case resident_cache_key of Some key \<Rightarrow> key | None \<Rightarrow> tensor_name)
      in if weight_bytes = 0 \<or> weight_bytes mod 2 \<noteq> 0 then (Inl STATUS_INVALID_ARGUMENT, ld, h)
         else
      let (view, wc) = try_weight_view (ld_weights ld) cache_key weight_bytes;
          ld = ld\<lparr>ld_weights := wc\<rparr>
      in case view of
           Some (data, hash, n) \<Rightarrow> (Inr (ld_memory ld data, hash, n), ld, h)
         | None \<Rightarrow>
      let ld = count_weight_miss weight_bytes ld
      in case known_location of
           Some location \<Rightarrow> materialize_from_file env ld location relative_begin cache_key weight_bytes h
         | None \<Rightarrow>
      let (located, h) = locate_tensor env (ld_model_path ld) tensor_name h
      in case located of
           Inl f \<Rightarrow> (Inl (fst f), token_request_failure f ld, h)
         | Inr location \<Rightarrow> materialize_from_file env ld location relative_begin cache_key weight_bytes h)"

section \<open>Resources of the caches\<close>

definition location_resources :: "location_cache \<Rightarrow> core_resource multiset" where
  "location_resources lc = block_resource (lc_entries_ptr lc) + (\<Sum>e\<leftarrow>lc_entries lc. block_resource (le_tensor_name e))"

definition shard_resources :: "shard_cache \<Rightarrow> core_resource multiset" where
  "shard_resources sc = block_resource (sc_entries_ptr sc) + (\<Sum>e\<leftarrow>sc_entries sc. {#FileObject (se_file_handle e)#})"

definition locations_wf :: "location_cache \<Rightarrow> bool" where
  "locations_wf lc \<longleftrightarrow>
     length (lc_entries lc) \<le> unat (lc_entry_capacity lc) \<and> unat (lc_entry_capacity lc) * 1056 \<le> 2 ^ 47 \<and>
     (lc_entries_ptr lc = nullptr \<longrightarrow> lc_entries lc = [] \<and> lc_entry_capacity lc = 0)"

definition shards_wf :: "shard_cache \<Rightarrow> bool" where
  "shards_wf sc \<longleftrightarrow>
     length (sc_entries sc) \<le> unat (sc_entry_capacity sc) \<and> unat (sc_entry_capacity sc) \<le> QRT_LOAD_MAX_SHARDS \<and>
     (sc_entries_ptr sc = nullptr \<longrightarrow> sc_entries sc = [] \<and> sc_entry_capacity sc = 0) \<and>
     (\<forall>e \<in> set (sc_entries sc). se_file_handle e \<noteq> nullptr \<and> se_file_handle e \<noteq> invalid_file)"

text \<open>\<open>CreateFileA\<close> returns a handle or \<open>INVALID_HANDLE_VALUE\<close>, never null.\<close>

definition handles_valid :: "core_env \<Rightarrow> bool" where
  "handles_valid env \<longleftrightarrow> (\<forall>h path. c_num (env h (OpenFileA path)) \<noteq> nullptr)"

lemma doubled_capacity:
  fixes c :: u64
  assumes "unat c * s \<le> 2 ^ 47" "0 < s"
  shows "unat (c * 2) = 2 * unat c"
proof -
  have "unat c \<le> unat c * s" using assms(2) by simp
  then have "unat c \<le> 2 ^ 47" using assms(1) by linarith
  then show ?thesis by (simp add: unat_mult_mod)
qed

lemma granted_product:
  fixes c :: u64
  assumes "heap_bounded env" "c_num (env h (CRealloc p (c * s))) \<noteq> nullptr" "unat c * unat s < 2 ^ 64"
  shows "unat c * unat s \<le> 2 ^ 47"
proof -
  have "unat (c * s) \<le> 2 ^ 47" using assms(1,2) unfolding heap_bounded_def by blast
  then show ?thesis using assms(3) by (simp add: unat_mult_mod)
qed

lemma core_call_owns [simp]:
  "core_owns ((Fread f n, r) # h) R = core_owns h R"
  "core_owns ((FseekSet f n, r) # h) R = core_owns h R"
  "core_owns ((SizeOfFile f, r) # h) R = core_owns h R"
  "core_owns ((ReadFileAt f n m, r) # h) R = core_owns h R"
  "core_owns ((OverlappedResult f, r) # h) R = core_owns h R"
  "core_owns ((LastErrorIsPending, r) # h) R = core_owns h R"
  by (simp_all add: core_owns_neutral)

lemma core_open_owns [simp]:
  "c_num r \<noteq> nullptr \<Longrightarrow> core_owns ((Fopen p, r) # h) (add_mset (CFile (c_num r)) R) = core_owns h R"
  "c_num r = nullptr \<Longrightarrow> core_owns ((Fopen p, r) # h) R = core_owns h R"
  "c_num r \<noteq> nullptr \<Longrightarrow> core_owns ((CreateEvent, r) # h) (add_mset (FileObject (c_num r)) R) = core_owns h R"
  "c_num r = nullptr \<Longrightarrow> core_owns ((CreateEvent, r) # h) R = core_owns h R"
  "c_num r \<noteq> invalid_file \<Longrightarrow> core_owns ((OpenFileA p, r) # h) (add_mset (FileObject (c_num r)) R) = core_owns h R"
  "c_num r = invalid_file \<Longrightarrow> core_owns ((OpenFileA p, r) # h) R = core_owns h R"
  by (simp_all add: core_owns_def)

lemma locate_tensor_owns:
  "core_owns h R \<Longrightarrow> core_owns (snd (locate_tensor env dir name h)) R"
  by (auto simp: locate_tensor_def Let_def case_prod_beta file_owns split: option.splits sum.splits if_splits)

lemma grow_locations_keeps:
  assumes "locations_wf lc" "heap_bounded env" "grow_locations env lc h = (g, h')" "core_owns h (location_resources lc + R)"
  shows "case g of None \<Rightarrow> core_owns h' (location_resources lc + R)
    | Some w \<Rightarrow> core_owns h' (location_resources w + R) \<and> lc_entries w = lc_entries lc \<and> locations_wf w \<and>
        length (lc_entries w) < unat (lc_entry_capacity w) \<and> lc_entries_ptr w \<noteq> nullptr"
proof (cases "of_nat (length (lc_entries lc)) = lc_entry_capacity lc")
  case False
  have "length (lc_entries lc) \<le> unat (lc_entry_capacity lc)" "unat (lc_entry_capacity lc) * 1056 \<le> 2 ^ 47"
    using assms(1) by (simp_all add: locations_wf_def)
  then have "unat (of_nat (length (lc_entries lc)) :: u64) = length (lc_entries lc)" by (intro unat_of_nat_small) simp
  then have "length (lc_entries lc) \<noteq> unat (lc_entry_capacity lc)" using False by (metis word_unat_eq_iff)
  then show ?thesis using False assms by (auto simp: grow_locations_def locations_wf_def)
next
  case True
  let ?cap = "lc_entry_capacity lc" and ?new = "if lc_entry_capacity lc = 0 then 64 else lc_entry_capacity lc * 2 :: u64"
  have dbl: "unat (?cap * 2) = 2 * unat ?cap" using assms(1) by (intro doubled_capacity [of _ 1056]) (simp_all add: locations_wf_def)
  have pos: "?cap \<noteq> 0 \<Longrightarrow> 0 < unat ?cap" by (simp add: unat_gt_0)
  have new: "unat ?new * 1056 < 2 ^ 64" "length (lc_entries lc) < unat ?new" "\<not> ?new < ?cap"
    using assms(1) dbl pos by (auto simp: locations_wf_def word_less_nat_alt)
  let ?r = "env h (CRealloc (lc_entries_ptr lc) (?new * location_entry_size))"
  have run: "grow_locations env lc h =
      (if c_num ?r = nullptr then None else Some (lc\<lparr>lc_entries_ptr := c_num ?r, lc_entry_capacity := ?new\<rparr>),
       (CRealloc (lc_entries_ptr lc) (?new * location_entry_size), ?r) # h)"
    using True new(3) by (simp add: grow_locations_def Let_def ask_def)
  have own: "core_owns h (block_resource (lc_entries_ptr lc) + ((\<Sum>e\<leftarrow>lc_entries lc. block_resource (le_tensor_name e)) + R))"
    using assms(4) by (simp add: location_resources_def add.assoc)
  show ?thesis
  proof (cases "c_num ?r = nullptr")
    case True
    then show ?thesis using run assms(3,4) by (auto simp: core_owns_realloc(2))
  next
    case False
    have "unat ?new * 1056 \<le> 2 ^ 47"
      using granted_product [OF assms(2) False] new(1) by (simp add: location_entry_size_def)
    then show ?thesis
      using run False assms(1,3) new(2) core_owns_realloc(1) [OF own False, of "?new * location_entry_size"]
      by (auto simp: locations_wf_def location_resources_def add.assoc)
  qed
qed

lemma locate_tensor_cached_keeps:
  assumes "locations_wf lc" "heap_bounded env" "locate_tensor_cached env dir lc name h = (res, lc', h')"
    and "core_owns h (location_resources lc + R)"
  shows "locations_wf lc' \<and> core_owns h' (location_resources lc' + R)"
proof (cases "find (\<lambda>e. le_tensor_name e \<noteq> nullptr \<and> le_name e = name) (lc_entries lc)")
  case (Some e)
  then show ?thesis using assms by (auto simp: locate_tensor_cached_def locations_wf_def location_resources_def)
next
  case None
  let ?lc = "lc\<lparr>lc_miss_count := lc_miss_count lc + 1\<rparr>"
  have irr: "location_resources (w\<lparr>lc_store_failure_count := n\<rparr>) = location_resources w"
      "locations_wf (w\<lparr>lc_store_failure_count := n\<rparr>) = locations_wf w"
      "location_resources (w\<lparr>lc_miss_count := n\<rparr>) = location_resources w"
      "locations_wf (w\<lparr>lc_miss_count := n\<rparr>) = locations_wf w" for w n
    by (simp_all add: location_resources_def locations_wf_def)
  obtain r h1 where l: "locate_tensor env dir name h = (r, h1)" by fastforce
  have own: "core_owns h1 (location_resources ?lc + R)"
    using locate_tensor_owns [OF assms(4), of env dir name] l by (simp add: irr)
  obtain g h2 where g: "grow_locations env ?lc h1 = (g, h2)" by fastforce
  have G: "case g of None \<Rightarrow> core_owns h2 (location_resources ?lc + R)
    | Some w \<Rightarrow> core_owns h2 (location_resources w + R) \<and> lc_entries w = lc_entries ?lc \<and> locations_wf w \<and>
        length (lc_entries w) < unat (lc_entry_capacity w) \<and> lc_entries_ptr w \<noteq> nullptr"
    using grow_locations_keeps [OF _ assms(2) g own] assms(1) by (simp add: irr)
  show ?thesis
  proof (cases r)
    case (Inl f)
    then show ?thesis using None assms(1,3) l own by (auto simp: locate_tensor_cached_def Let_def irr)
  next
    case (Inr loc)
    show ?thesis
    proof (cases g)
      case None
      then show ?thesis
        using \<open>find _ _ = None\<close> Inr assms(1,3) l g G
        by (auto simp: locate_tensor_cached_def Let_def location_store_failed_def irr)
    next
      case (Some w)
      let ?name = "c_num (env h2 (CMalloc (of_nat (length name) + 1)))"
      have own2: "core_owns ((CMalloc (of_nat (length name) + 1), env h2 (CMalloc (of_nat (length name) + 1))) # h2)
          (block_resource ?name + (location_resources w + R))"
        using G Some by (intro core_owns_malloc) simp
      show ?thesis
      proof (cases "?name = nullptr")
        case True
        then show ?thesis
          using \<open>find _ _ = None\<close> Inr Some assms(3) l g G own2
          by (auto simp: locate_tensor_cached_def Let_def location_store_failed_def strdup_local_def ask_def irr
              block_resource_def [of nullptr])
      next
        case False
        then show ?thesis
          using \<open>find _ _ = None\<close> Inr Some assms(3) l g G own2
          by (auto simp: locate_tensor_cached_def Let_def strdup_local_def ask_def locations_wf_def location_resources_def ac_simps)
      qed
    qed
  qed
qed

lemma grow_shards_keeps:
  assumes "shards_wf sc" "length (sc_entries sc) < QRT_LOAD_MAX_SHARDS" "grow_shards env sc h = (g, h')"
    and "core_owns h (shard_resources sc + R)"
  shows "case g of None \<Rightarrow> core_owns h' (shard_resources sc + R)
    | Some w \<Rightarrow> core_owns h' (shard_resources w + R) \<and> sc_entries w = sc_entries sc \<and> shards_wf w \<and>
        length (sc_entries w) < unat (sc_entry_capacity w) \<and> sc_entries_ptr w \<noteq> nullptr"
proof (cases "of_nat (length (sc_entries sc)) = sc_entry_capacity sc")
  case False
  have "length (sc_entries sc) \<le> unat (sc_entry_capacity sc)" "unat (sc_entry_capacity sc) \<le> 128"
    using assms(1) by (simp_all add: shards_wf_def load_limits)
  then have "unat (of_nat (length (sc_entries sc)) :: u64) = length (sc_entries sc)" by (intro unat_of_nat_small) simp
  then have "length (sc_entries sc) \<noteq> unat (sc_entry_capacity sc)" using False by (metis word_unat_eq_iff)
  then show ?thesis using False assms by (auto simp: grow_shards_def shards_wf_def)
next
  case True
  let ?cap = "sc_entry_capacity sc"
  let ?dbl = "if sc_entry_capacity sc = 0 then 16 else sc_entry_capacity sc * 2 :: u64"
  let ?new = "if ?dbl > of_nat QRT_LOAD_MAX_SHARDS then of_nat QRT_LOAD_MAX_SHARDS else ?dbl"
  have cap: "unat ?cap \<le> 128" "length (sc_entries sc) \<le> unat ?cap" using assms(1) by (simp_all add: shards_wf_def load_limits)
  then have dbl: "unat (?cap * 2) = 2 * unat ?cap" by (intro doubled_capacity [of _ 1]) simp_all
  have pos: "?cap \<noteq> 0 \<Longrightarrow> 0 < unat ?cap" by (simp add: unat_gt_0)
  have new: "unat ?new \<le> 128" "length (sc_entries sc) < unat ?new"
    using assms(2) cap dbl pos by (auto simp: word_less_nat_alt load_limits)
  let ?r = "env h (CRealloc (sc_entries_ptr sc) (?new * shard_entry_size))"
  have own: "core_owns h (block_resource (sc_entries_ptr sc) + ((\<Sum>e\<leftarrow>sc_entries sc. {#FileObject (se_file_handle e)#}) + R))"
    using assms(4) by (simp add: shard_resources_def add.assoc)
  have run: "grow_shards env sc h = (None, h) \<or> grow_shards env sc h =
      (if c_num ?r = nullptr then None else Some (sc\<lparr>sc_entries_ptr := c_num ?r, sc_entry_capacity := ?new\<rparr>),
       (CRealloc (sc_entries_ptr sc) (?new * shard_entry_size), ?r) # h)"
    using True by (simp add: grow_shards_def Let_def ask_def)
  show ?thesis
  proof (cases "c_num ?r = nullptr")
    case True
    then show ?thesis using run assms(3,4) by (auto simp: core_owns_realloc(2))
  next
    case False
    then show ?thesis
      using run assms(1,3,4) new core_owns_realloc(1) [OF own False, of "?new * shard_entry_size"]
      by (auto simp: shards_wf_def shard_resources_def add.assoc load_limits)
  qed
qed

lemma shard_counters_irrelevant [simp]:
  "shard_resources (shard_store_failed sc) = shard_resources sc" "shards_wf (shard_store_failed sc) = shards_wf sc"
  "shard_resources (shard_fallback sc) = shard_resources sc" "shards_wf (shard_fallback sc) = shards_wf sc"
  by (simp_all add: shard_resources_def shards_wf_def shard_store_failed_def shard_fallback_def)

lemma prepare_shard_read_entry_keeps:
  assumes "shards_wf sc" "handles_valid env" "prepare_shard_read_entry env dir shard sc h = (sc', h')"
    and "core_owns h (shard_resources sc + R)"
  shows "shards_wf sc' \<and> core_owns h' (shard_resources sc' + R)"
proof (cases "\<not> sc_enabled sc \<or> find_shard_read_entry sc shard \<noteq> None \<or> length (sc_entries sc) \<ge> QRT_LOAD_MAX_SHARDS \<or>
    path_join dir shard QRT_LOAD_PATH_CAPACITY = None")
  case True
  then show ?thesis using assms by (auto simp: prepare_shard_read_entry_def split: if_splits option.splits)
next
  case False
  then obtain path where p: "path_join dir shard QRT_LOAD_PATH_CAPACITY = Some path" by auto
  obtain g h1 where g: "grow_shards env sc h = (g, h1)" by fastforce
  have G: "case g of None \<Rightarrow> core_owns h1 (shard_resources sc + R)
    | Some w \<Rightarrow> core_owns h1 (shard_resources w + R) \<and> sc_entries w = sc_entries sc \<and> shards_wf w \<and>
        length (sc_entries w) < unat (sc_entry_capacity w) \<and> sc_entries_ptr w \<noteq> nullptr"
    using False by (intro grow_shards_keeps [OF assms(1) _ g assms(4)]) simp
  show ?thesis
  proof (cases g)
    case None
    then show ?thesis using False p g G assms(1,3) by (auto simp: prepare_shard_read_entry_def)
  next
    case (Some w)
    let ?f = "env h1 (OpenFileA path)"
    let ?e = "\<lambda>s. \<lparr>se_shard = c_copy QRT_LOAD_PATH_CAPACITY shard, se_file_handle = c_num ?f, se_file_size = s\<rparr>"
    have ew: "sc_entries w = sc_entries sc" using G Some by simp
    then have added: "shard_resources (w\<lparr>sc_entries := sc_entries sc @ [?e s], sc_miss_count := a, sc_opened_file_bytes := b\<rparr>) =
        add_mset (FileObject (c_num ?f)) (shard_resources w)" for s a b
      by (simp add: shard_resources_def)
    have added_wf: "shards_wf (w\<lparr>sc_entries := sc_entries w @ [?e s], sc_miss_count := a, sc_opened_file_bytes := b\<rparr>)"
      if "c_num ?f \<noteq> invalid_file" for s a b
      using that G Some assms(2) by (auto simp: shards_wf_def handles_valid_def)
    show ?thesis
      using False p g G Some assms(3) added_wf
      by (auto simp: prepare_shard_read_entry_def Let_def ask_def added split: if_splits)
  qed
qed

lemma try_read_slice_keeps:
  assumes "try_read_slice env loc rel n sc h = (found, sc', h')" "shards_wf sc" "core_owns h (shard_resources sc + R)"
  shows "shards_wf sc' \<and> core_owns h' (shard_resources sc' + R)"
proof -
  have counted: "shard_resources (sc\<lparr>sc_hit_count := a, sc_read_bytes := b\<rparr>) = shard_resources sc"
      "shards_wf (sc\<lparr>sc_hit_count := a, sc_read_bytes := b\<rparr>) = shards_wf sc" for a b
    by (simp_all add: shard_resources_def shards_wf_def)
  show ?thesis
    using assms by (auto simp: try_read_slice_def Let_def ask_def counted split: if_splits option.splits)
qed

lemma read_tensor_slice_keeps:
  assumes "read_tensor_slice env dir loc rel n sc h = (res, sc', h')" "shards_wf sc" "core_owns h (shard_resources sc + R)"
  shows "shards_wf sc' \<and> core_owns h' (shard_resources sc' + R)"
proof -
  obtain found w h1 where t: "try_read_slice env loc rel n sc h = (found, w, h1)" by (metis prod_cases3)
  show ?thesis
    using try_read_slice_keeps [OF t assms(2,3)] assms t
    by (auto simp: read_tensor_slice_def Let_def ask_def split: if_splits option.splits)
qed

section \<open>The loader\<close>

definition loader_resources :: "loader \<Rightarrow> core_resource multiset" where
  "loader_resources ld = weight_resources (ld_weights ld) + location_resources (ld_locations ld) + shard_resources (ld_shards ld)"

definition loader_wf :: "loader \<Rightarrow> bool" where
  "loader_wf ld \<longleftrightarrow> weights_wf (ld_weights ld) \<and> locations_wf (ld_locations ld) \<and> shards_wf (ld_shards ld)"

text \<open>Every resident weight has the size and the hash that its entry records.\<close>

definition weights_recorded :: "weight_cache \<Rightarrow> (u64 \<Rightarrow> u8 list) \<Rightarrow> bool" where
  "weights_recorded wc mem \<longleftrightarrow>
     (\<forall>e \<in> set (wc_entries wc). length (mem (we_data e)) = unat (2 * we_elements e) \<and> we_fnv1a64 e = fnv1a64_bytes (mem (we_data e)))"

definition loader_ok :: "loader \<Rightarrow> bool" where
  "loader_ok ld \<longleftrightarrow> loader_wf ld \<and> weights_recorded (ld_weights ld) (ld_memory ld)"

text \<open>\<open>malloc\<close> never returns a block that is still in use.\<close>

definition malloc_fresh :: "core_env \<Rightarrow> bool" where
  "malloc_fresh env \<longleftrightarrow>
     (\<forall>h R n. core_owns h R \<longrightarrow> c_num (env h (CMalloc n)) \<noteq> nullptr \<longrightarrow> HeapBlock (c_num (env h (CMalloc n))) \<notin># R)"

definition loader_env :: "core_env \<Rightarrow> bool" where
  "loader_env env \<longleftrightarrow> heap_bounded env \<and> malloc_fresh env \<and> handles_valid env"

lemma failure_irrelevant [simp]:
  "loader_resources (token_request_failure f ld) = loader_resources ld" "loader_ok (token_request_failure f ld) = loader_ok ld"
  by (simp_all add: token_request_failure_def loader_resources_def loader_ok_def loader_wf_def split: prod.splits)

lemma same_weights_recorded:
  assumes "same_weights wc' wc" "weights_recorded wc mem"
  shows "weights_recorded wc' mem"
proof -
  let ?z = "we_hit_count_update (\<lambda>_. 0)"
  let ?f = "\<lambda>e. length (mem (we_data e)) = unat (2 * we_elements e) \<and> we_fnv1a64 e = fnv1a64_bytes (mem (we_data e))"
  have "map ?f (map ?z (wc_entries wc')) = map ?f (map ?z (wc_entries wc))"
    using assms(1) unfolding same_weights_def by (elim conjE) (rule arg_cong [of _ _ "map ?f"])
  then have "map ?f (wc_entries wc') = map ?f (wc_entries wc)" by (simp add: comp_def)
  then have "list_all (\<lambda>b. b) (map ?f (wc_entries wc')) = list_all (\<lambda>b. b) (map ?f (wc_entries wc))" by (simp only:)
  then show ?thesis using assms(2) by (simp add: weights_recorded_def list_all_iff)
qed

lemma owned_data_fresh:
  assumes "malloc_fresh env" "core_owns h (weight_resources wc + R)" "e \<in> set (wc_entries wc)" "entry_ok e"
    and "c_num (env h (CMalloc n)) \<noteq> nullptr"
  shows "c_num (env h (CMalloc n)) \<noteq> we_data e"
proof -
  have "HeapBlock (c_num (env h (CMalloc n))) \<notin># weight_resources wc + R"
    using assms(1,2,5) unfolding malloc_fresh_def by blast
  moreover have "HeapBlock (we_data e) \<in># weight_resources wc"
    using assms(3,4) by (auto simp: weight_resources_def block_resource_def entry_ok_def split_list dest!: split_list)
  ultimately show ?thesis by auto
qed

lemma store_materialized_keeps:
  assumes "loader_env env" "loader_ok ld" "store_materialized env ld key bytes n (fnv1a64_bytes bytes) h = (ld', h')"
    and "core_owns h (loader_resources ld + R)" "length bytes = unat n" "2 * (n div 2) = n"
  shows "loader_ok ld' \<and> core_owns h' (loader_resources ld' + R)"
proof -
  let ?wc = "ld_weights ld" and ?R = "location_resources (ld_locations ld) + shard_resources (ld_shards ld) + R"
  let ?data = "c_num (env h (CMalloc n))"
  define h1 where "h1 = (CMalloc n, env h (CMalloc n)) # h"
  let ?name = "c_num (env h1 (CMalloc (of_nat (length key) + 1)))"
  define h2 where "h2 = (CMalloc (of_nat (length key) + 1), env h1 (CMalloc (of_nat (length key) + 1))) # h1"
  have env: "heap_bounded env" "malloc_fresh env" using assms(1) by (simp_all add: loader_env_def)
  have ok: "weights_wf ?wc" "weights_recorded ?wc (ld_memory ld)" using assms(2) by (simp_all add: loader_ok_def loader_wf_def)
  have own0: "core_owns h (weight_resources ?wc + ?R)" using assms(4) by (simp add: loader_resources_def add.assoc)
  have own: "core_owns h2 (block_resource ?name + (block_resource ?data + (weight_resources ?wc + ?R)))"
    unfolding h2_def h1_def by (intro core_owns_malloc own0)
  have fresh: "we_data e \<noteq> ?data" if "e \<in> set (wc_entries ?wc)" "?data \<noteq> nullptr" for e
    using owned_data_fresh [OF env(2) own0 that(1) _ that(2)] that(1) ok(1) by (auto simp: weights_wf_def)
  obtain st w h3 where run: "store_weight env ?wc ?name key ?data (n div 2) n (fnv1a64_bytes bytes) h2 = (st, w, h3)"
    by (metis prod_cases3)
  have "core_owns h2 (weight_resources ?wc + (block_resource ?name + block_resource ?data) + ?R)"
    using own by (simp add: ac_simps)
  note S = store_weight_outcome [OF ok(1) env(1) run this]
  show ?thesis
  proof (cases "?data = nullptr \<or> ?name = nullptr")
    case True
    then have "ld' = ld\<lparr>ld_weights := ?wc\<lparr>wc_store_failure_count := wc_store_failure_count ?wc + 1\<rparr>\<rparr>"
        "h' = c_free env ?name (c_free env ?data h2)"
      using assms(3) by (auto simp: store_materialized_def Let_def strdup_local_def ask_def h1_def h2_def)
    then show ?thesis
      using own ok assms(2) by (simp add: loader_ok_def loader_wf_def loader_resources_def weights_recorded_def ac_simps)
  next
    case False
    then have res: "(ld', h') = (if st then (ld\<lparr>ld_weights := w, ld_memory := (ld_memory ld)(?data := bytes)\<rparr>, h3)
        else (ld\<lparr>ld_weights := w\<rparr>, c_free env ?name (c_free env ?data h3)))"
      using assms(3) run by (auto simp: store_materialized_def Let_def strdup_local_def ask_def h1_def h2_def)
    show ?thesis
    proof (cases st)
      case True
      have "weights_recorded w ((ld_memory ld)(?data := bytes))"
        using S True ok(2) fresh False assms(5,6) by (auto simp: weights_recorded_def)
      then show ?thesis
        using res True S assms(2) by (simp add: loader_ok_def loader_wf_def loader_resources_def ac_simps)
    next
      case nst: False
      then have "weights_recorded w (ld_memory ld)" using S ok(2) by (simp add: weights_recorded_def)
      then show ?thesis
        using res nst S assms(2) by (simp add: loader_ok_def loader_wf_def loader_resources_def ac_simps)
    qed
  qed
qed

lemma even_bytes: "even (n :: u64) \<Longrightarrow> 2 * (n div 2) = n"
  using div_mult_mod_eq [of n 2] by (simp add: mult.commute even_iff_mod_2_eq_zero)

lemma read_tensor_slice_length:
  assumes "read_tensor_slice env dir loc rel n sc h = (Inr bytes, sc', h')"
  shows "length bytes = unat n"
proof -
  obtain found w h1 where t: "try_read_slice env loc rel n sc h = (found, w, h1)" by (metis prod_cases3)
  have "length b = unat n" if "found = Some b" for b
    using t that by (auto simp: try_read_slice_def Let_def ask_def split: if_splits option.splits)
  then show ?thesis
    using assms t by (auto simp: read_tensor_slice_def Let_def ask_def split: if_splits option.splits)
qed

definition weight_result :: "u64 \<Rightarrow> qrt_status + u8 list \<times> u64 \<times> u64 \<Rightarrow> bool" where
  "weight_result n res \<longleftrightarrow>
     (case res of Inl st \<Rightarrow> True | Inr (bytes, hash, k) \<Rightarrow> length bytes = unat n \<and> hash = fnv1a64_bytes bytes \<and> k = n)"

lemma weight_result_Inl [simp]: "weight_result n (Inl st)"
  by (simp add: weight_result_def)

lemma materialize_from_file_keeps:
  assumes "loader_env env" "loader_ok ld" "core_owns h (loader_resources ld + R)" "even n"
    and "materialize_from_file env ld loc rel key n h = (res, ld', h')"
  shows "loader_ok ld' \<and> core_owns h' (loader_resources ld' + R) \<and> weight_result n res"
proof -
  obtain sc h2 where p: "prepare_shard_read_entry env (ld_model_path ld) (tl_shard loc) (ld_shards ld) h = (sc, h2)" by fastforce
  obtain r sc' h3 where rd: "read_tensor_slice env (ld_model_path ld) loc rel n sc h2 = (r, sc', h3)" by (metis prod_cases3)
  let ?Q = "weight_resources (ld_weights ld) + location_resources (ld_locations ld) + R"
  have "core_owns h (shard_resources (ld_shards ld) + ?Q)" using assms(3) by (simp add: loader_resources_def ac_simps)
  then have "shards_wf sc \<and> core_owns h2 (shard_resources sc + ?Q)"
    using prepare_shard_read_entry_keeps [OF _ _ p] assms(1,2) by (simp add: loader_ok_def loader_wf_def loader_env_def)
  then have sc': "shards_wf sc' \<and> core_owns h3 (shard_resources sc' + ?Q)"
    using read_tensor_slice_keeps [OF rd] by blast
  define ld3 where "ld3 = ld\<lparr>ld_shards := sc'\<rparr>"
  have ok3: "loader_ok ld3" "core_owns h3 (loader_resources ld3 + R)"
    using assms(2) sc' by (simp_all add: ld3_def loader_ok_def loader_wf_def loader_resources_def ac_simps)
  show ?thesis
  proof (cases r)
    case (Inl f)
    then show ?thesis using p rd assms(5) ok3 by (auto simp: materialize_from_file_def ld3_def weight_result_def)
  next
    case (Inr bytes)
    have len: "length bytes = unat n" using read_tensor_slice_length rd Inr by blast
    obtain ld4 h4 where s: "store_materialized env ld3 key bytes n (fnv1a64_bytes bytes) h3 = (ld4, h4)" by fastforce
    have "loader_ok ld4 \<and> core_owns h4 (loader_resources ld4 + R)"
      by (intro store_materialized_keeps [OF assms(1) ok3(1) s ok3(2) len] even_bytes assms(4))
    then show ?thesis
      using p rd Inr s assms(5) len ok3
      by (auto simp: materialize_from_file_def ld3_def [symmetric] Let_def weight_result_def split: if_splits)
  qed
qed

text \<open>Every call of \<open>materialize_slice\<close> keeps the loader consistent, and what it returns has the requested size and the
  reported hash, whether it comes from the cache or from a file.\<close>

lemma materialize_slice_keeps:
  assumes "loader_env env" "loader_ok ld" "core_owns h (loader_resources ld + R)"
    and "materialize_slice env ld name loc rel key n h = (res, ld', h')"
  shows "loader_ok ld' \<and> core_owns h' (loader_resources ld' + R) \<and> weight_result n res"
proof (cases "n = 0 \<or> n mod 2 \<noteq> 0")
  case True
  then show ?thesis using assms by (auto simp: materialize_slice_def Let_def weight_result_def)
next
  case False
  let ?key = "case key of Some k \<Rightarrow> k | None \<Rightarrow> name"
  obtain v wc where v: "try_weight_view (ld_weights ld) ?key n = (v, wc)" by fastforce
  have wf: "weights_wf (ld_weights ld)" "weights_recorded (ld_weights ld) (ld_memory ld)"
    using assms(2) by (simp_all add: loader_ok_def loader_wf_def)
  note V = try_weight_view_keeps [OF wf(1) v]
  then have same: "same_weights wc (ld_weights ld)" by simp
  define ld2 where "ld2 = count_weight_miss n (ld\<lparr>ld_weights := wc\<rparr>)"
  have ok: "loader_ok (ld\<lparr>ld_weights := wc\<rparr>)" "core_owns h (loader_resources (ld\<lparr>ld_weights := wc\<rparr>) + R)"
    using assms(2,3) same_weights_wf [OF same] same_weights_resources [OF same] same_weights_recorded [OF same]
    by (simp_all add: loader_ok_def loader_wf_def loader_resources_def)
  then have ok2: "loader_ok ld2" "core_owns h (loader_resources ld2 + R)"
    by (simp_all add: ld2_def count_weight_miss_def loader_ok_def loader_wf_def loader_resources_def)
  show ?thesis
  proof (cases v)
    case (Some d)
    obtain data hash k where d: "d = (data, hash, k)" by (metis prod_cases3)
    obtain e where e: "e \<in> set (wc_entries (ld_weights ld))" "we_elements e = n div 2" "we_data e = data" "we_fnv1a64 e = hash" "k = n"
      using V Some d by auto
    then have "length (ld_memory ld data) = unat n \<and> hash = fnv1a64_bytes (ld_memory ld data)"
      using wf(2) False even_bytes [of n] by (auto simp: weights_recorded_def mod_2_eq_odd)
    then show ?thesis
      using assms(4) False v Some d e(5) ok by (auto simp: materialize_slice_def Let_def weight_result_def)
  next
    case None
    note from_file = materialize_from_file_keeps [OF assms(1) ok2(1)]
    have own: "core_owns (snd (locate_tensor env (ld_model_path ld2) name h)) (loader_resources ld2 + R)"
      by (rule locate_tensor_owns [OF ok2(2)])
    show ?thesis
      using assms(4) False v None ok2 own
      by (auto simp: materialize_slice_def Let_def ld2_def [symmetric] case_prod_beta split: option.splits sum.splits
          dest: from_file [rotated -1])
  qed
qed

section \<open>Sessions\<close>

text \<open>The end of an engine frees the three caches.\<close>

definition free_loader :: "core_env \<Rightarrow> loader \<Rightarrow> core_hist \<Rightarrow> loader \<times> core_hist" where
  "free_loader env ld h =
     (let (lc, h) = free_tensor_location_cache env (ld_locations ld) h;
          (wc, h) = free_resident_weight_cache env (ld_weights ld) h;
          (sc, h) = free_shard_read_cache env (ld_shards ld) h
      in (ld\<lparr>ld_locations := lc, ld_weights := wc, ld_shards := sc\<rparr>, h))"

definition note_failure :: "failure + 'a \<Rightarrow> loader \<Rightarrow> loader" where
  "note_failure res ld = (case res of Inl f \<Rightarrow> token_request_failure f ld | Inr _ \<Rightarrow> ld)"

inductive loader_step :: "core_env \<Rightarrow> loader \<times> core_hist \<Rightarrow> loader \<times> core_hist \<Rightarrow> bool" for env where
  step_locate: "locate_tensor_cached env (ld_model_path ld) (ld_locations ld) name h = (res, lc, h') \<Longrightarrow>
    loader_step env (ld, h) (note_failure res (ld\<lparr>ld_locations := lc\<rparr>), h')"
| step_prepare: "prepare_shard_read_entry env (ld_model_path ld) shard (ld_shards ld) h = (sc, h') \<Longrightarrow>
    loader_step env (ld, h) (ld\<lparr>ld_shards := sc\<rparr>, h')"
| step_read: "read_tensor_slice env (ld_model_path ld) location relative_begin byte_count (ld_shards ld) h = (res, sc, h') \<Longrightarrow>
    loader_step env (ld, h) (note_failure res (ld\<lparr>ld_shards := sc\<rparr>), h')"
| step_materialize: "materialize_slice env ld name known relative_begin key weight_bytes h = (res, ld', h') \<Longrightarrow>
    loader_step env (ld, h) (ld', h')"

inductive_cases loader_stepE: "loader_step env s t"

definition empty_locations :: location_cache where
  "empty_locations = \<lparr>lc_entries_ptr = nullptr, lc_entries = [], lc_entry_capacity = 0, lc_hit_count = 0, lc_miss_count = 0,
     lc_store_failure_count = 0\<rparr>"

definition empty_shards :: "bool \<Rightarrow> shard_cache" where
  "empty_shards enabled = \<lparr>sc_enabled = enabled, sc_entries_ptr = nullptr, sc_entries = [], sc_entry_capacity = 0, sc_hit_count = 0,
     sc_miss_count = 0, sc_read_bytes = 0, sc_opened_file_bytes = 0, sc_fallback_count = 0, sc_store_failure_count = 0\<rparr>"

definition new_loader :: "string \<Rightarrow> bool \<Rightarrow> bool \<Rightarrow> loader" where
  "new_loader path weights shards = \<lparr>ld_model_path = path, ld_weights = empty_weight_cache weights, ld_weight_miss_count = 0,
     ld_weight_miss_bytes = 0, ld_locations = empty_locations, ld_shards = empty_shards shards, ld_failure_stage = [], ld_failure = [],
     ld_memory = (\<lambda>_. [])\<rparr>"

definition loader_start :: "core_resource multiset \<Rightarrow> loader \<times> core_hist \<Rightarrow> bool" where
  "loader_start R s \<longleftrightarrow> (\<exists>path weights shards. fst s = new_loader path weights shards) \<and> core_owns (snd s) R"

definition loader_inv :: "core_env \<Rightarrow> core_resource multiset \<Rightarrow> loader \<times> core_hist \<Rightarrow> bool" where
  "loader_inv env R s \<longleftrightarrow> (loader_env env \<longrightarrow> loader_ok (fst s) \<and> core_owns (snd s) (loader_resources (fst s) + R))"

lemma note_failure_irrelevant [simp]:
  "loader_ok (note_failure res ld) = loader_ok ld" "loader_resources (note_failure res ld) = loader_resources ld"
  by (simp_all add: note_failure_def split: sum.splits)

lemma loader_step_inv:
  assumes "loader_step env s t" "loader_inv env R s"
  shows "loader_inv env R t"
  using assms
proof (cases rule: loader_step.cases)
  case (step_locate ld name h res lc h')
  let ?Q = "weight_resources (ld_weights ld) + shard_resources (ld_shards ld) + R"
  have "locations_wf lc \<and> core_owns h' (location_resources lc + ?Q)" if "loader_env env"
    using that assms(2) step_locate(1)
    by (intro locate_tensor_cached_keeps [OF _ _ step_locate(3)])
      (simp_all add: loader_inv_def loader_ok_def loader_wf_def loader_env_def loader_resources_def ac_simps)
  then have "loader_env env \<longrightarrow> loader_ok (ld\<lparr>ld_locations := lc\<rparr>) \<and> core_owns h' (loader_resources (ld\<lparr>ld_locations := lc\<rparr>) + R)"
    using step_locate(1) assms(2) by (auto simp: loader_inv_def loader_ok_def loader_wf_def loader_resources_def ac_simps)
  then show ?thesis using step_locate(2) by (simp add: loader_inv_def)
next
  case (step_prepare ld shard h sc h')
  let ?Q = "weight_resources (ld_weights ld) + location_resources (ld_locations ld) + R"
  have "shards_wf sc \<and> core_owns h' (shard_resources sc + ?Q)" if "loader_env env"
    using that assms(2) step_prepare(1)
    by (intro prepare_shard_read_entry_keeps [OF _ _ step_prepare(3)])
      (simp_all add: loader_inv_def loader_ok_def loader_wf_def loader_env_def loader_resources_def ac_simps)
  then have "loader_env env \<longrightarrow> loader_ok (ld\<lparr>ld_shards := sc\<rparr>) \<and> core_owns h' (loader_resources (ld\<lparr>ld_shards := sc\<rparr>) + R)"
    using step_prepare(1) assms(2) by (auto simp: loader_inv_def loader_ok_def loader_wf_def loader_resources_def ac_simps)
  then show ?thesis using step_prepare(2) by (simp add: loader_inv_def)
next
  case (step_read ld location relative_begin byte_count h res sc h')
  let ?Q = "weight_resources (ld_weights ld) + location_resources (ld_locations ld) + R"
  have "shards_wf sc \<and> core_owns h' (shard_resources sc + ?Q)" if "loader_env env"
    using that assms(2) step_read(1)
    by (intro read_tensor_slice_keeps [OF step_read(3)])
      (simp_all add: loader_inv_def loader_ok_def loader_wf_def loader_env_def loader_resources_def ac_simps)
  then have "loader_env env \<longrightarrow> loader_ok (ld\<lparr>ld_shards := sc\<rparr>) \<and> core_owns h' (loader_resources (ld\<lparr>ld_shards := sc\<rparr>) + R)"
    using step_read(1) assms(2) by (auto simp: loader_inv_def loader_ok_def loader_wf_def loader_resources_def ac_simps)
  then show ?thesis using step_read(2) by (simp add: loader_inv_def)
next
  case (step_materialize ld name known relative_begin key weight_bytes h res ld' h')
  then show ?thesis
    using materialize_slice_keeps [OF _ _ _ step_materialize(3)] assms(2) by (auto simp: loader_inv_def)
qed

lemma new_loader_ok: "loader_ok (new_loader path weights shards) \<and> loader_resources (new_loader path weights shards) = {#}"
  using empty_weight_cache_wf [of weights]
  by (simp add: loader_ok_def loader_wf_def new_loader_def locations_wf_def shards_wf_def empty_locations_def empty_shards_def
      weights_recorded_def loader_resources_def weight_resources_def location_resources_def shard_resources_def
      empty_weight_cache_def block_resource_def)

interpretation loader_session: invariant_system "loader_start R" "loader_step env" "loader_inv env R" for env R
proof
  show "loader_inv env R s" if "loader_start R s" for s
    using that new_loader_ok by (auto simp: loader_start_def loader_inv_def)
qed (rule loader_step_inv)

lemma free_names_owns:
  "core_owns (foldl (\<lambda>h e. c_free env (le_tensor_name e) h) h es) R \<longleftrightarrow>
     core_owns h ((\<Sum>e\<leftarrow>es. block_resource (le_tensor_name e)) + R)"
  by (induction es arbitrary: h) (simp_all add: ac_simps)

lemma close_shards_owns:
  "\<forall>e \<in> set es. se_file_handle e \<noteq> nullptr \<and> se_file_handle e \<noteq> invalid_file \<Longrightarrow>
     core_owns (foldl (close_shard env) h es) R \<longleftrightarrow> core_owns h ((\<Sum>e\<leftarrow>es. {#FileObject (se_file_handle e)#}) + R)"
  by (induction es arbitrary: h) (simp_all add: close_shard_def ac_simps)

lemma free_loader_owns:
  assumes "loader_ok ld" "core_owns h (loader_resources ld + R)"
  shows "core_owns (snd (free_loader env ld h)) R"
proof -
  let ?W = "weight_resources (ld_weights ld)" and ?S = "shard_resources (ld_shards ld)"
  obtain lc h1 where l: "free_tensor_location_cache env (ld_locations ld) h = (lc, h1)" by fastforce
  obtain wc h2 where w: "free_resident_weight_cache env (ld_weights ld) h1 = (wc, h2)" by fastforce
  have "core_owns h (location_resources (ld_locations ld) + (?W + (?S + R)))" using assms(2) by (simp add: loader_resources_def ac_simps)
  then have "core_owns h1 (?W + (?S + R))"
    using l assms(1)
    by (auto simp: free_tensor_location_cache_def Let_def free_names_owns location_resources_def loader_ok_def loader_wf_def
        locations_wf_def block_resource_def [of nullptr] ac_simps split: if_splits)
  then have "core_owns h2 (?S + R)" using free_resident_weight_cache_owns [OF _ _ w] assms(1) by (auto simp: loader_ok_def loader_wf_def)
  then show ?thesis
    using l w assms(1)
    by (auto simp: free_loader_def free_shard_read_cache_def Let_def close_shards_owns shard_resources_def loader_ok_def loader_wf_def
        shards_wf_def block_resource_def [of nullptr] ac_simps split: if_splits)
qed

text \<open>C13. Any sequence of lookups, prepared shards, slice reads and materialized weights on a new engine keeps the caches
  consistent whatever the operating system and the heap answer: array writes stay inside their capacity, every
  open handle and block is owned by exactly one cache, every resident weight has the size and the hash its entry
  records, and freeing the caches gives back everything that was acquired, once.\<close>

theorem loader_session_sound:
  assumes "loader_env env" "core_owns h0 R" "(loader_step env)\<^sup>*\<^sup>* (new_loader path weights shards, h0) (ld, h)"
  shows "loader_ok ld \<and> core_owns h (loader_resources ld + R) \<and> core_owns (snd (free_loader env ld h)) R"
proof -
  have "loader_inv env R (new_loader path weights shards, h0)"
    by (rule loader_session.inv_initial) (use assms(2) in \<open>auto simp: loader_start_def\<close>)
  from loader_session.inv_steps [OF this assms(3)] assms(1) show ?thesis
    using free_loader_owns [of ld h R env] by (simp add: loader_inv_def)
qed

text \<open>An operating system that numbers its objects upwards.\<close>

definition highest :: "core_hist \<Rightarrow> nat" where
  "highest h = foldr (\<lambda>e m. max (unat (c_num (snd e))) m) h 0"

definition next_object :: "core_hist \<Rightarrow> u64" where
  "next_object h = (if highest h < 2 ^ 40 then of_nat (highest h + 1) else nullptr)"

definition counting_env :: core_env where
  "counting_env h c =
     \<lparr>c_ok = True,
      c_num = (case c of CRealloc _ n \<Rightarrow> if unat n \<le> 2 ^ 47 then next_object h else nullptr
               | OpenFileA _ \<Rightarrow> if next_object h = nullptr then invalid_file else next_object h
               | _ \<Rightarrow> next_object h),
      c_int = 100, c_bytes = []\<rparr>"

lemma unat_next_object: "next_object h \<noteq> nullptr \<Longrightarrow> unat (next_object h) = highest h + 1"
  using unat_of_nat_small [of "highest h + 1", where 'a = 64] by (auto simp: next_object_def split: if_splits)

lemma acquired_below_highest: "HeapBlock p \<in># (\<Sum>e\<leftarrow>h. core_acquired_by e) \<Longrightarrow> unat p \<le> highest h"
proof (induction h)
  case (Cons e h)
  have "unat p \<le> unat (c_num (snd e))" if "HeapBlock p \<in># core_acquired_by e"
    using that by (cases e rule: core_acquired_by.cases) (auto split: if_splits)
  moreover have "HeapBlock p \<in># core_acquired_by e \<or> HeapBlock p \<in># (\<Sum>e\<leftarrow>h. core_acquired_by e)" using Cons.prems by simp
  moreover have "highest (e # h) = max (unat (c_num (snd e))) (highest h)" by (simp add: highest_def)
  ultimately show ?case using Cons.IH by (metis le_max_iff_disj)
qed simp

lemma counting_env_loader: "loader_env counting_env"
proof -
  have "HeapBlock (next_object h) \<notin># R" if "core_owns h R" "next_object h \<noteq> nullptr" for h R
  proof
    assume "HeapBlock (next_object h) \<in># R"
    then have "HeapBlock (next_object h) \<in># (\<Sum>e\<leftarrow>h. core_acquired_by e)" using that(1) by (simp add: core_owns_def)
    from acquired_below_highest [OF this] show False using unat_next_object [OF that(2)] by simp
  qed
  then show ?thesis
    by (auto simp: loader_env_def heap_bounded_def malloc_fresh_def handles_valid_def counting_env_def invalid_file_def nullptr_def
        split: if_splits)
qed

theorem loader_session_sound_witness:
  "\<exists>sc h. prepare_shard_read_entry counting_env ''m'' ''s'' (empty_shards True) [] = (sc, h) \<and> sc_opened_file_bytes sc = 100 \<and>
     core_owns h (shard_resources sc) \<and>
     core_owns (snd (free_loader counting_env ((new_loader ''m'' True True)\<lparr>ld_shards := sc\<rparr>) h)) {#}"
proof -
  obtain sc h where run: "prepare_shard_read_entry counting_env ''m'' ''s'' (empty_shards True) [] = (sc, h)"
      and size: "sc_opened_file_bytes sc = 100"
    by (auto simp: prepare_shard_read_entry_def empty_shards_def find_shard_read_entry_def path_join_def strchr_def backslash_char_def
        load_limits grow_shards_def ask_def counting_env_def shard_entry_size_def next_object_def highest_def nullptr_def
        invalid_file_def core_tell_def)
  let ?ld = "(new_loader ''m'' True True)\<lparr>ld_shards := sc\<rparr>"
  have "loader_step counting_env (new_loader ''m'' True True, []) (?ld, h)"
    using step_prepare [of counting_env "new_loader ''m'' True True" "''s''" "[]" sc h] run by (simp add: new_loader_def)
  then have "(loader_step counting_env)\<^sup>*\<^sup>* (new_loader ''m'' True True, []) (?ld, h)" ..
  from loader_session_sound [OF counting_env_loader _ this, of "{#}"] new_loader_ok [of "''m''" True True] run size
  show ?thesis
    by (auto simp: loader_resources_def)
qed

end
