(* ===== verification/Model_Disk.thy ===== *)
theory Model_Disk
  imports Tensor_Loader
begin

text \<open>
  What the loader returns when the operating system serves a file system: which file a handle stands for and
  where a stream is positioned are read off the history of calls. Over such a system a tensor is located and its
  slices are read exactly as a writer of safetensors stored them.
\<close>

section \<open>Files behind handles\<close>

type_synonym disk = "string \<Rightarrow> u8 list option"

text \<open>The path of the most recent \<open>fopen\<close> that returned a stream, and likewise for handles and mappings.\<close>

fun stream_path :: "core_hist \<Rightarrow> u64 \<Rightarrow> string option" where
  "stream_path [] f = None"
| "stream_path ((c, r) # h) f =
     (case c of Fopen p \<Rightarrow> if c_num r = f then Some p else stream_path h f | _ \<Rightarrow> stream_path h f)"

fun handle_path :: "core_hist \<Rightarrow> u64 \<Rightarrow> string option" where
  "handle_path [] f = None"
| "handle_path ((c, r) # h) f =
     (case c of OpenFileA p \<Rightarrow> if c_num r = f then Some p else handle_path h f | _ \<Rightarrow> handle_path h f)"

fun mapping_path :: "core_hist \<Rightarrow> u64 \<Rightarrow> string option" where
  "mapping_path [] m = None"
| "mapping_path ((c, r) # h) m =
     (case c of OpenMapping f \<Rightarrow> if c_num r = m then handle_path h f else mapping_path h m | _ \<Rightarrow> mapping_path h m)"

text \<open>The position of a stream on a file of the given size.\<close>

fun stream_pos :: "nat \<Rightarrow> core_hist \<Rightarrow> u64 \<Rightarrow> nat" where
  "stream_pos len [] f = 0"
| "stream_pos len ((c, r) # h) f =
     (case c of
        Fopen p \<Rightarrow> if c_num r = f then 0 else stream_pos len h f
      | FseekEnd g \<Rightarrow> if g = f then len else stream_pos len h f
      | FseekSet g k \<Rightarrow> if g = f then unat k else stream_pos len h f
      | Fread g n \<Rightarrow> if g = f then stream_pos len h f + length (c_bytes r) else stream_pos len h f
      | _ \<Rightarrow> stream_pos len h f)"

text \<open>The offset of the overlapped read that is under way on a handle.\<close>

fun pending_offset :: "core_hist \<Rightarrow> u64 \<Rightarrow> u64 \<times> u64" where
  "pending_offset [] f = (0, 0)"
| "pending_offset ((c, r) # h) f =
     (case c of ReadFileAt g k n \<Rightarrow> if g = f then (k, n) else pending_offset h f | _ \<Rightarrow> pending_offset h f)"

definition slice :: "nat \<Rightarrow> nat \<Rightarrow> u8 list \<Rightarrow> u8 list" where
  "slice k n content = take n (drop k content)"

text \<open>
  The documented behaviour of the file functions on a file that exists: \<open>ftell\<close> is a 32-bit \<open>long\<close>; an overlapped
  read may fail, be short or be pending, and otherwise delivers the bytes at its offset.
\<close>

definition serves_streams :: "core_env \<Rightarrow> disk \<Rightarrow> bool" where
  "serves_streams env fs \<longleftrightarrow>
     (\<forall>h p content. fs p = Some content \<longrightarrow>
        c_num (env h (Fopen p)) \<noteq> nullptr \<and>
        (\<forall>f. stream_path h f = Some p \<longrightarrow>
           c_ok (env h (FseekEnd f)) \<and> (\<forall>k. c_ok (env h (FseekSet f k))) \<and>
           (length content < 2 ^ 31 \<longrightarrow> c_int (env h (Ftell f)) = int (length content)) \<and>
           (\<forall>n. c_bytes (env h (Fread f n)) = slice (stream_pos (length content) h f) (unat n) content)))"

definition serves_handles :: "core_env \<Rightarrow> disk \<Rightarrow> bool" where
  "serves_handles env fs \<longleftrightarrow>
     (\<forall>h p content. fs p = Some content \<longrightarrow>
        c_num (env h (OpenFileA p)) \<noteq> invalid_file \<and>
        (\<forall>f. handle_path h f = Some p \<longrightarrow>
           c_ok (env h (SizeOfFile f)) \<and> c_int (env h (SizeOfFile f)) = int (length content) \<and>
           c_num (env h (OpenMapping f)) \<noteq> nullptr \<and>
           (\<forall>k n. c_ok (env h (ReadFileAt f k n)) \<longrightarrow>
              (\<exists>m. c_bytes (env h (ReadFileAt f k n)) = slice (unat k) m content)) \<and>
           (c_ok (env h (OverlappedResult f)) \<longrightarrow>
              (\<exists>m. c_bytes (env h (OverlappedResult f)) = slice (unat (fst (pending_offset h f))) m content))) \<and>
        (\<forall>m n. mapping_path h m = Some p \<longrightarrow> unat n \<le> length content \<longrightarrow>
           c_num (env h (MapView m n)) \<noteq> nullptr \<and> c_bytes (env h (MapView m n)) = slice 0 (unat n) content))"

definition serves :: "core_env \<Rightarrow> disk \<Rightarrow> bool" where
  "serves env fs \<longleftrightarrow> serves_streams env fs \<and> serves_handles env fs \<and> (\<forall>h n. c_num (env h (CMalloc n)) \<noteq> nullptr)"

section \<open>Reading files\<close>

lemma read_small_file_serves:
  assumes "serves env fs" "fs path = Some content" "length content < 2 ^ 31"
  shows "\<exists>p h'. read_small_file env path stage h = (Inr (p, content), h')"
proof -
  have s: "serves_streams env fs" "\<And>h n. c_num (env h (CMalloc n)) \<noteq> nullptr" using assms(1) by (simp_all add: serves_def)
  note S = s(1) [unfolded serves_streams_def, rule_format, OF assms(2)]
  have size: "unat (word_of_int (int (length content)) :: u64) = length content"
    using assms(3) unat_of_nat_small [of "length content", where 'a = 64] by simp
  show ?thesis
    using S s(2) assms(3) size
    by (simp add: read_small_file_def ask_def Let_def core_tell_def slice_def)
qed

text \<open>The bytes of a shard: the length of the header, the header, the data.\<close>

definition shard_file :: "string \<Rightarrow> u8 list \<Rightarrow> u8 list" where
  "shard_file header data = le_bytes 8 (of_nat (length header)) @ string_bytes header @ data"

lemma length_le_bytes [simp]: "length (le_bytes n w) = n"
  by (simp add: le_bytes_def)

lemma length_string_bytes [simp]: "length (string_bytes s) = length s"
  by (simp add: string_bytes_def)

lemma c_string_string_bytes:
  assumes "CHR 0x00 \<notin> set s"
  shows "c_string (string_bytes s) = s"
proof -
  have b: "unat (byte_of_char c) = of_char c" for c
    by (simp add: byte_of_char_def unat_of_nat of_char_mod_256)
  have "byte_of_char c \<noteq> 0" if "c \<in> set s" for c
  proof
    assume "byte_of_char c = 0"
    then have "of_char c = (0 :: nat)" using b [of c] by simp
    then have "char_of (of_char c :: nat) = (char_of (0 :: nat) :: char)" by (simp only:)
    moreover have "char_of (0 :: nat) = CHR 0x00" by (simp add: char_of_def)
    ultimately have "c = CHR 0x00" by (simp only: char_of_char)
    then show False using assms that by simp
  qed
  then have "takeWhile (\<lambda>b. b \<noteq> 0) (string_bytes s) = string_bytes s" by (auto simp: string_bytes_def)
  then show ?thesis unfolding c_string_def by (simp only:) (simp add: string_bytes_def comp_def b)
qed

lemma map_header_serves:
  assumes "serves env fs" "fs path = Some (shard_file header data)" "length (shard_file header data) < 2 ^ 63"
  shows "\<exists>p h'. map_header env path h =
    (Inr (of_nat (length (shard_file header data)), of_nat (length header), p, string_bytes header), h')"
proof -
  have s: "serves_handles env fs" "\<And>h n. c_num (env h (CMalloc n)) \<noteq> nullptr" using assms(1) by (simp_all add: serves_def)
  note S = s(1) [unfolded serves_handles_def, rule_format, OF assms(2)]
  let ?n = "length (shard_file header data)" and ?h = "length header"
  have n: "?n = 8 + ?h + length data" by (simp add: shard_file_def)
  have u: "unat (of_nat ?n :: u64) = ?n" "unat (of_nat ?h :: u64) = ?h"
    using assms(3) n by (intro unat_of_nat_small; simp)+
  have u8: "unat (of_nat ?h + 8 :: u64) = ?h + 8"
    using assms(3) n unat_of_nat_small [of "?h + 8", where 'a = 64] by simp
  have first: "read_le64 (slice 0 8 (shard_file header data)) = of_nat ?h"
    by (simp add: slice_def shard_file_def read_le64_le_bytes)
  have "(of_nat ?n :: u64) - 8 = of_nat (?h + length data)" using n by simp
  moreover have "unat (of_nat (?h + length data) :: u64) = ?h + length data"
    using assms(3) n by (intro unat_of_nat_small) simp
  ultimately have fits: "\<not> of_nat ?h > (of_nat ?n :: u64) - 8" "\<not> (of_nat ?h + 1 :: u64) > - 1"
    using u by (simp_all only: word_less_nat_alt [of _ "of_nat ?h :: u64"] not_less word_order.extremum)
  have rest: "take ?h (drop 8 (slice 0 (?h + 8) (shard_file header data))) = string_bytes header"
    by (simp add: slice_def shard_file_def drop_take)
  show ?thesis
    using S s(2) u u8 first fits rest n
    by (simp add: map_header_def ask_def Let_def core_tell_def)
qed

section \<open>Locating and reading tensors\<close>

text \<open>A model directory: the index, and the shard of the tensor \<open>t\<close> with its header and data.\<close>

record model_on_disk =
  md_total :: nat
  md_index :: "(string \<times> string) list"
  md_shard :: string
  md_tensors :: "tensor_info list"
  md_data :: "u8 list"

definition stored_model :: "disk \<Rightarrow> string \<Rightarrow> model_on_disk \<Rightarrow> bool" where
  "stored_model fs dir md \<longleftrightarrow>
     (\<exists>ip. path_join dir ''model.safetensors.index.json'' QRT_LOAD_PATH_CAPACITY = Some ip \<and>
        fs ip = Some (string_bytes (print_index (md_total md) (md_index md)))) \<and>
     (\<exists>sp. path_join dir (md_shard md) QRT_LOAD_PATH_CAPACITY = Some sp \<and>
        fs sp = Some (shard_file (print_header (md_tensors md)) (md_data md))) \<and>
     length (print_index (md_total md) (md_index md)) < 2 ^ 31 \<and>
     length (shard_file (print_header (md_tensors md)) (md_data md)) < 2 ^ 63 \<and>
     CHR 0x00 \<notin> set (print_index (md_total md) (md_index md)) \<and> CHR 0x00 \<notin> set (print_header (md_tensors md))"

text \<open>Both files name the tensor \<open>t\<close> and describe it without ambiguity.\<close>

definition holds_tensor :: "model_on_disk \<Rightarrow> tensor_info \<Rightarrow> bool" where
  "holds_tensor md t \<longleftrightarrow>
     (\<forall>x \<in> set (md_index md). pair_ok x \<and> snd x \<noteq> ti_name t) \<and> distinct (map fst (md_index md)) \<and>
     (ti_name t, md_shard md) \<in> set (md_index md) \<and> length (md_shard md) < QRT_LOAD_PATH_CAPACITY \<and>
     (\<forall>x \<in> set (md_tensors md). tensor_ok x \<and> ti_dtype x \<notin> {ti_name t, ''data_offsets''}) \<and>
     distinct (map ti_name (md_tensors md)) \<and> t \<in> set (md_tensors md) \<and>
     ti_name t \<notin> {''metadata'', ''total_size'', ''weight_map'', ''dtype'', ''shape'', ''data_offsets''} \<and>
     length (ti_name t) \<le> 509 \<and> ti_end t \<le> length (md_data md)"

definition location_of :: "model_on_disk \<Rightarrow> tensor_info \<Rightarrow> tensor_location" where
  "location_of md t =
     \<lparr>tl_shard = md_shard md, tl_header_len = of_nat (length (print_header (md_tensors md))),
      tl_data_begin = of_nat (ti_begin t), tl_data_end = of_nat (ti_end t)\<rparr>"

lemma locate_tensor_serves:
  assumes "serves env fs" "stored_model fs dir md" "holds_tensor md t"
  shows "\<exists>h'. locate_tensor env dir (ti_name t) h = (Inr (location_of md t), h')"
proof -
  let ?index = "print_index (md_total md) (md_index md)" and ?header = "print_header (md_tensors md)"
  obtain ip where ip: "path_join dir ''model.safetensors.index.json'' QRT_LOAD_PATH_CAPACITY = Some ip" "fs ip = Some (string_bytes ?index)"
    using assms(2) by (auto simp: stored_model_def)
  obtain sp where sp: "path_join dir (md_shard md) QRT_LOAD_PATH_CAPACITY = Some sp" "fs sp = Some (shard_file ?header (md_data md))"
    using assms(2) by (auto simp: stored_model_def)
  have nul: "c_string (string_bytes ?index) = ?index" "c_string (string_bytes ?header) = ?header"
    using assms(2) by (simp_all add: stored_model_def c_string_string_bytes)
  have plain: "plain (ti_name t)" using assms(3) by (auto simp: holds_tensor_def tensor_ok_def)
  have shard: "find_shard_for_tensor ?index (ti_name t) QRT_LOAD_PATH_CAPACITY = Some (md_shard md)"
    using assms(3) plain by (intro find_shard_for_tensor_print) (simp_all add: holds_tensor_def)
  have offs: "find_tensor_offsets ?header (ti_name t) = Some (of_nat (ti_begin t), of_nat (ti_end t))"
    using assms(3) by (intro find_tensor_offsets_print) (simp_all add: holds_tensor_def)
  obtain p h1 where r1: "read_small_file env ip ''index_read'' h = (Inr (p, string_bytes ?index), h1)"
    using read_small_file_serves [OF assms(1) ip(2), of "''index_read''" h] assms(2) by (auto simp: stored_model_def)
  obtain q h2 where r2: "map_header env sp (c_free env p h1) =
      (Inr (of_nat (length (shard_file ?header (md_data md))), of_nat (length ?header), q, string_bytes ?header), h2)"
    using map_header_serves [OF assms(1) sp(2), of "c_free env p h1"] assms(2) by (auto simp: stored_model_def)
  let ?h2 = "c_free env q h2"
  have S: "c_num (env g (Fopen sp)) \<noteq> nullptr"
      "stream_path g f = Some sp \<Longrightarrow> c_bytes (env g (Fread f 8)) = slice (stream_pos (length (shard_file ?header (md_data md))) g f) 8 (shard_file ?header (md_data md))"
    for g f using assms(1) sp(2) by (auto simp: serves_def serves_streams_def)
  show ?thesis
    using ip(1) sp(1) r1 r2 shard offs nul S
    by (simp add: locate_tensor_def read_safetensors_header_json_def Let_def ask_def slice_def shard_file_def read_le64_le_bytes location_of_def)
qed

lemma slice_length: "length (slice k m content) = n \<Longrightarrow> slice k m content = slice k n content"
  by (auto simp: slice_def min_def)

definition handles_open :: "string \<Rightarrow> shard_cache \<Rightarrow> core_hist \<Rightarrow> bool" where
  "handles_open dir sc h \<longleftrightarrow>
     (\<forall>e \<in> set (sc_entries sc). path_join dir (se_shard e) QRT_LOAD_PATH_CAPACITY = handle_path h (se_file_handle e) \<and>
        handle_path h (se_file_handle e) \<noteq> None)"

lemma find_shard_read_entry_Some: "find_shard_read_entry sc shard = Some e \<Longrightarrow> e \<in> set (sc_entries sc) \<and> se_shard e = shard"
  by (auto simp: find_shard_read_entry_def find_Some_iff split: if_splits)

lemma try_read_slice_serves:
  assumes "serves env fs" "handles_open dir sc h" "path_join dir (tl_shard loc) QRT_LOAD_PATH_CAPACITY = Some sp" "fs sp = Some content"
    and "try_read_slice env loc rel n sc h = (Some bytes, sc', h')"
  shows "bytes = slice (unat (slice_offset loc rel)) (unat n) content"
proof -
  obtain e where e: "find_shard_read_entry sc (tl_shard loc) = Some e"
    using assms(5) by (auto simp: try_read_slice_def split: if_splits option.splits)
  then have path: "handle_path h (se_file_handle e) = Some sp"
    using assms(2,3) find_shard_read_entry_Some [OF e] by (auto simp: handles_open_def)
  have "serves_handles env fs" using assms(1) by (simp add: serves_def)
  note S = this [unfolded serves_handles_def, rule_format, OF assms(4), THEN conjunct2, THEN conjunct1, rule_format]
  let ?f = "se_file_handle e" and ?at = "slice_offset loc rel"
  have direct: "\<exists>m. c_bytes (env g (ReadFileAt ?f ?at n)) = slice (unat ?at) m content"
    if "handle_path g ?f = Some sp" "c_ok (env g (ReadFileAt ?f ?at n))" for g
    using S [OF that(1)] that(2) by blast
  have later: "\<exists>m. c_bytes (env g (OverlappedResult ?f)) = slice (unat ?at) m content"
    if "handle_path g ?f = Some sp" "c_ok (env g (OverlappedResult ?f))" "fst (pending_offset g ?f) = ?at" for g
    using S [OF that(1)] that(2,3) by metis
  have "\<exists>m. bytes = slice (unat ?at) m content" "length bytes = unat n"
    using assms(5) e path direct later
    by (auto simp: try_read_slice_def Let_def ask_def split: if_splits)
  then show ?thesis using slice_length by metis
qed

lemma read_tensor_slice_serves:
  assumes "serves env fs" "handles_open dir sc h" "path_join dir (tl_shard loc) QRT_LOAD_PATH_CAPACITY = Some sp" "fs sp = Some content"
    and "n \<noteq> 0" "tl_data_begin loc \<le> tl_data_end loc" "unat rel + unat n \<le> unat (tl_data_end loc - tl_data_begin loc)"
    and "unat (slice_offset loc rel) + unat n \<le> length content"
  shows "\<exists>sc' h'. read_tensor_slice env dir loc rel n sc h = (Inr (slice (unat (slice_offset loc rel)) (unat n) content), sc', h')"
proof -
  let ?len = "tl_data_end loc - tl_data_begin loc"
  have guard: "\<not> (tl_data_end loc < tl_data_begin loc \<or> rel > ?len \<or> n > ?len - rel)"
  proof -
    have "rel \<le> ?len" using assms(7) by (simp add: word_le_nat_alt)
    moreover from this have "n \<le> ?len - rel" using assms(7) unat_sub [of rel ?len] by (simp only: word_le_nat_alt)
    ultimately show ?thesis using assms(6) by (simp add: not_less)
  qed
  obtain found w h1 where t: "try_read_slice env loc rel n sc h = (found, w, h1)" by (metis prod_cases3)
  show ?thesis
  proof (cases found)
    case (Some bytes)
    then show ?thesis
      using try_read_slice_serves [OF assms(1-4), of rel n bytes w h1] t guard assms(5) by (simp add: read_tensor_slice_def Let_def)
  next
    case None
    have "serves_streams env fs" using assms(1) by (simp add: serves_def)
    note S = this [unfolded serves_streams_def, rule_format, OF assms(4)]
    have "length (slice (unat (slice_offset loc rel)) (unat n) content) = unat n" using assms(8) by (simp add: slice_def)
    then show ?thesis
      using None t guard assms(3,5) S by (simp add: read_tensor_slice_def Let_def ask_def)
  qed
qed

lemma prepare_first_shard:
  assumes "sc_entries sc = []" "prepare_shard_read_entry env dir shard sc h = (sc', h')" "length shard < QRT_LOAD_PATH_CAPACITY"
  shows "handles_open dir sc' h'"
proof -
  have grown: "sc_entries w = []" if "grow_shards env sc h = (Some w, g)" for w g
    using that assms(1) by (auto simp: grow_shards_def Let_def ask_def split: if_splits)
  have "c_copy QRT_LOAD_PATH_CAPACITY shard = shard" using assms(3) by (simp add: c_copy_def load_limits)
  then show ?thesis
    using assms(1,2)
    by (auto simp: prepare_shard_read_entry_def Let_def ask_def handles_open_def shard_store_failed_def
        split: if_splits option.splits prod.splits dest!: grown)
qed

text \<open>The slice of a tensor lies where the writer put it: behind the length field and the header.\<close>

lemma slice_of_tensor:
  assumes "stored_model fs dir md" "holds_tensor md t" "unat rel + unat n \<le> ti_end t - ti_begin t"
  shows "unat (slice_offset (location_of md t) rel) = 8 + length (print_header (md_tensors md)) + ti_begin t + unat rel"
    "unat (tl_data_end (location_of md t) - tl_data_begin (location_of md t)) = ti_end t - ti_begin t"
    "tl_data_begin (location_of md t) \<le> tl_data_end (location_of md t)"
proof -
  let ?h = "length (print_header (md_tensors md))"
  have bound: "8 + ?h + length (md_data md) < 2 ^ 63" "ti_begin t \<le> ti_end t" "ti_end t \<le> length (md_data md)"
    using assms(1,2) by (auto simp: stored_model_def holds_tensor_def shard_file_def tensor_ok_def)
  have u: "unat (of_nat k :: u64) = k" if "k < 2 ^ 64" for k using that by (intro unat_of_nat_small) simp
  have rel: "(of_nat (unat rel) :: u64) = rel" by simp
  have "slice_offset (location_of md t) rel = of_nat (8 + ?h + ti_begin t + unat rel)"
    by (simp add: slice_offset_def location_of_def)
  moreover have "ti_begin t + unat rel \<le> ti_end t" using bound(2) assms(3) by simp
  then have "8 + ?h + ti_begin t + unat rel < 2 ^ 64" using bound by simp
  ultimately show "unat (slice_offset (location_of md t) rel) = 8 + ?h + ti_begin t + unat rel" by (simp only: u)
  have le: "tl_data_end (location_of md t) - tl_data_begin (location_of md t) = of_nat (ti_end t - ti_begin t)"
    using bound(2) by (simp add: location_of_def of_nat_diff)
  show "unat (tl_data_end (location_of md t) - tl_data_begin (location_of md t)) = ti_end t - ti_begin t"
    unfolding le by (rule u) (use bound in simp)
  have "ti_begin t < 2 ^ 64" "ti_end t < 2 ^ 64" using bound by simp_all
  then show "tl_data_begin (location_of md t) \<le> tl_data_end (location_of md t)"
    using bound(2) by (simp add: location_of_def word_le_nat_alt u)
qed

text \<open>C12. A tensor of a stored model is loaded as it was written. On a new engine over an operating system that serves the
  model directory, asking for \<open>n\<close> bytes at an offset inside the tensor finds the shard through the index, the offsets
  through the shard's header, opens the shard, and returns exactly those bytes of the tensor's data with
  their hash, whether the overlapped read succeeds or the code falls back to buffered reading.\<close>

theorem materialize_loads_tensor:
  assumes "serves env fs" "stored_model fs dir md" "holds_tensor md t"
    and "n \<noteq> 0" "even n" "unat rel + unat n \<le> ti_end t - ti_begin t"
  shows "\<exists>bytes ld' h'. materialize_slice env (new_loader dir weights shards) (ti_name t) None rel None n h =
      (Inr (bytes, fnv1a64_bytes bytes, n), ld', h') \<and>
    bytes = take (unat n) (drop (ti_begin t + unat rel) (md_data md))"
proof -
  let ?content = "shard_file (print_header (md_tensors md)) (md_data md)" and ?loc = "location_of md t"
  obtain sp where sp: "path_join dir (md_shard md) QRT_LOAD_PATH_CAPACITY = Some sp" "fs sp = Some ?content"
    using assms(2) by (auto simp: stored_model_def)
  obtain h1 where l: "locate_tensor env dir (ti_name t) h = (Inr ?loc, h1)"
    using locate_tensor_serves [OF assms(1-3)] by blast
  note at = slice_of_tensor [OF assms(2,3,6)]
  have sh: "tl_shard ?loc = md_shard md" by (simp add: location_of_def)
  have short: "length (md_shard md) < QRT_LOAD_PATH_CAPACITY" "ti_end t \<le> length (md_data md)" "ti_begin t \<le> ti_end t"
    using assms(3) by (auto simp: holds_tensor_def tensor_ok_def)
  obtain sc h2 where p: "prepare_shard_read_entry env dir (md_shard md) (empty_shards shards) h1 = (sc, h2)" by fastforce
  have "handles_open dir sc h2" by (rule prepare_first_shard [OF _ p short(1)]) (simp add: empty_shards_def)
  moreover have "unat (slice_offset ?loc rel) + unat n \<le> length ?content"
    using at(1) assms(6) short(2,3) by (simp add: shard_file_def)
  ultimately obtain sc' h3 where r: "read_tensor_slice env dir ?loc rel n sc h2 =
      (Inr (slice (unat (slice_offset ?loc rel)) (unat n) ?content), sc', h3)"
    using read_tensor_slice_serves [OF assms(1) _ _ sp(2), of dir sc h2 ?loc n rel] sp(1) at(2,3) assms(4,6) sh by auto
  have "slice (unat (slice_offset ?loc rel)) (unat n) ?content = take (unat n) (drop (ti_begin t + unat rel) (md_data md))"
    using at(1) by (simp add: slice_def shard_file_def drop_append)
  moreover have "\<exists>ld' h'. materialize_slice env (new_loader dir weights shards) (ti_name t) None rel None n h =
      (Inr (slice (unat (slice_offset ?loc rel)) (unat n) ?content,
        fnv1a64_bytes (slice (unat (slice_offset ?loc rel)) (unat n) ?content), n), ld', h')"
    using assms(4,5) l p r
    by (simp add: materialize_slice_def materialize_from_file_def Let_def new_loader_def try_weight_view_def find_weight_entry_def
        empty_weight_cache_def count_weight_miss_def location_of_def case_prod_beta mod_2_eq_odd)
  ultimately show ?thesis by metis
qed

text \<open>A disk that always answers, and a model of two tensors on it.\<close>

definition content_of :: "disk \<Rightarrow> string option \<Rightarrow> u8 list" where
  "content_of fs p = (case p of None \<Rightarrow> [] | Some p \<Rightarrow> (case fs p of None \<Rightarrow> [] | Some content \<Rightarrow> content))"

definition disk_env :: "disk \<Rightarrow> core_env" where
  "disk_env fs h c =
     \<lparr>c_ok = True,
      c_num = (case c of
          Fopen p \<Rightarrow> if fs p = None then nullptr else 1
        | OpenFileA p \<Rightarrow> if fs p = None then invalid_file else 2
        | _ \<Rightarrow> 3),
      c_int = (case c of
          Ftell f \<Rightarrow> int (length (content_of fs (stream_path h f)))
        | SizeOfFile f \<Rightarrow> int (length (content_of fs (handle_path h f)))
        | _ \<Rightarrow> 0),
      c_bytes = (case c of
          Fread f n \<Rightarrow> (let content = content_of fs (stream_path h f) in slice (stream_pos (length content) h f) (unat n) content)
        | ReadFileAt f k n \<Rightarrow> slice (unat k) (unat n) (content_of fs (handle_path h f))
        | OverlappedResult f \<Rightarrow> (case pending_offset h f of (k, n) \<Rightarrow> slice (unat k) (unat n) (content_of fs (handle_path h f)))
        | MapView m n \<Rightarrow> slice 0 (unat n) (content_of fs (mapping_path h m))
        | _ \<Rightarrow> [])\<rparr>"

lemma disk_env_serves: "serves (disk_env fs) fs"
  by (auto simp: serves_def serves_streams_def serves_handles_def disk_env_def content_of_def nullptr_def invalid_file_def Let_def
      case_prod_beta)

definition example_model :: model_on_disk where
  "example_model = \<lparr>md_total = 20, md_index = [(''a.weight'', ''s1''), (''b.weight'', ''s1'')], md_shard = ''s1'',
     md_tensors = example_tensors, md_data = map of_nat [0..<20]\<rparr>"

definition example_disk :: disk where
  "example_disk = map_of
     [(''m/model.safetensors.index.json'', string_bytes (print_index 20 (md_index example_model))),
      (''m/s1'', shard_file (print_header example_tensors) (md_data example_model))]"

theorem materialize_loads_tensor_witness:
  "\<exists>ld' h'. materialize_slice (disk_env example_disk) (new_loader ''m'' True True) ''b.weight'' None 2 None 4 [] =
     (Inr ([14, 15, 16, 17], fnv1a64_bytes [14, 15, 16, 17], 4), ld', h')"
proof -
  have paths: "path_join ''m'' ''model.safetensors.index.json'' QRT_LOAD_PATH_CAPACITY = Some ''m/model.safetensors.index.json''"
    "path_join ''m'' ''s1'' QRT_LOAD_PATH_CAPACITY = Some ''m/s1''"
    by (simp_all add: path_join_def strchr_def backslash_char_def load_limits)
  have d: "decimal 20 = ''20''" "decimal 12 = ''12''" "decimal 0 = ''0''" "decimal 2 = ''2''" "decimal 3 = ''3''" "decimal 4 = ''4''"
    by code_simp+
  have stored: "stored_model example_disk ''m'' example_model"
    unfolding stored_model_def
    by (simp add: paths example_disk_def example_model_def)
      (simp add: print_index_def print_header_def print_tensor_def print_value_def print_pair_def shard_file_def example_tensors_def
        quoted_def quote_def d)
  have holds: "holds_tensor example_model (example_tensors ! 1)"
    by (simp add: holds_tensor_def example_model_def example_tensors_def pair_ok_def tensor_ok_def plain_def quote_def
        backslash_char_def load_limits)
  have "take 4 (drop (12 + 2) (map of_nat [0..<20])) = [14, 15, 16, 17 :: u8]" by (simp add: upt_rec)
  then show ?thesis
    using materialize_loads_tensor [OF disk_env_serves stored holds, of 4 2 True True "[]"]
    by (auto simp: example_model_def example_tensors_def)
qed

end
