(* ===== verification/Server_Bridge.thy ===== *)
theory Server_Bridge
  imports Core_Platform Safetensors_Json
begin

text \<open>
  The bridge between the Rust server and the engine, \<^verbatim>\<open>native/src/qrt_server_bridge.c\<close> (Windows branches): loading
  the provider and creating the engine, the choice between the exact-first-token route, the prefix cache
  and the ordinary route for a request, and the record of which tokens the engine keeps resident. The engine, the provider,
  the stream callback, the heap and the environment variables answer through an environment. The clock fills
  wall-time fields, which are left out.
\<close>

section \<open>Calls\<close>

record exact_result =
  er_ok :: bool
  er_status :: int
  er_completed :: bool
  er_batch_size :: u32
  er_output_token_id :: u32
  er_verifier_input_token_count :: u32
  er_input_digest :: u64
  er_total_elapsed_ns :: u64
  er_failure_stage :: string
  er_failure :: string

datatype bridge_call =
    BCalloc string
  | BMalloc u64
  | BRealloc u64 u64
  | BFree u64
  | Putenv string string
  | Getenv string
  | LoadLib string
  | GetSymbol u64 string
  | FreeLib u64
  | Preload string
  | EngineCreate string nat
  | EngineFree u64
  | ExactFirstToken u64 "u32 list" u64
  | EngineRequest u64 "u32 list"
  | EnginePrefixStream u64 "u32 list" nat nat
  | EngineStream u64 "u32 list" nat
  | EngineReport u64
  | StreamEvent bool nat u32 u64

record bridge_reply =
  br_ok :: bool
  br_num :: u64
  br_status :: qrt_status
  br_text :: "string option"
  br_tokens :: "u32 list"
  br_exact :: exact_result
  br_pass :: bool
  br_ttft_ns :: u64
  br_tpot_ns :: u64
  br_tpot_samples :: u64
  br_failure_stage :: string
  br_failure :: string

type_synonym bridge_env = "(bridge_call, bridge_reply) environment"
type_synonym bridge_hist = "(bridge_call, bridge_reply) history"

definition bridge_tell :: "bridge_env \<Rightarrow> bridge_call \<Rightarrow> bridge_hist \<Rightarrow> bridge_hist" where
  "bridge_tell env c h = snd (ask env c h)"

definition bridge_free :: "bridge_env \<Rightarrow> u64 \<Rightarrow> bridge_hist \<Rightarrow> bridge_hist" where
  "bridge_free env p h = (if p = nullptr then h else bridge_tell env (BFree p) h)"

section \<open>Stored tokens\<close>

text \<open>A pointer with a count and a capacity; the tokens are those that the count covers.\<close>

record token_store =
  ts_ptr :: u64
  ts_tokens :: "u32 list"
  ts_capacity :: nat

definition empty_store :: token_store where
  "empty_store = \<lparr>ts_ptr = nullptr, ts_tokens = [], ts_capacity = 0\<rparr>"

record server_engine =
  se_self :: u64
  se_engine :: u64
  se_resident :: token_store
  se_previous :: token_store
  se_module :: u64

text \<open>\<open>qrt_server_store_tokens\<close>\<close>

definition store_tokens :: "bridge_env \<Rightarrow> token_store \<Rightarrow> u32 list \<Rightarrow> bridge_hist \<Rightarrow> bool \<times> token_store \<times> bridge_hist" where
  "store_tokens env ts source h =
     (if source = [] \<or> length source > (2 ^ 64 - 1) div 4 then (False, ts, h)
      else if ts_capacity ts < length source
      then
        let (r, h) = ask env (BRealloc (ts_ptr ts) (of_nat (length source * 4))) h
        in if br_num r = nullptr then (False, ts, h)
           else (True, \<lparr>ts_ptr = br_num r, ts_tokens = source, ts_capacity = length source\<rparr>, h)
      else (True, ts\<lparr>ts_tokens := source\<rparr>, h))"

fun common_prefix_tokens :: "u32 list \<Rightarrow> u32 list \<Rightarrow> nat" where
  "common_prefix_tokens (x # xs) (y # ys) = (if x = y then Suc (common_prefix_tokens xs ys) else 0)"
| "common_prefix_tokens _ _ = 0"

section \<open>Environment variables\<close>

definition environment_value :: "bridge_env \<Rightarrow> string \<Rightarrow> nat \<Rightarrow> bridge_hist \<Rightarrow> string option \<times> bridge_hist" where
  "environment_value env name capacity h =
     (let (r, h) = ask env (Getenv name) h
      in (case br_text r of None \<Rightarrow> None | Some v \<Rightarrow> if v \<noteq> [] \<and> length v < capacity then Some v else None, h))"

text \<open>\<open>strtoull\<close> with base 0: hexadecimal after \<open>0x\<close>, octal after \<open>0\<close>, decimal otherwise.\<close>

definition digit_value :: "char \<Rightarrow> nat" where
  "digit_value c =
     (let n = of_char c :: nat
      in if 48 \<le> n \<and> n \<le> 57 then n - 48 else if 97 \<le> n \<and> n \<le> 122 then n - 87 else if 65 \<le> n \<and> n \<le> 90 then n - 55 else 99)"

definition parse_base :: "nat \<Rightarrow> string \<Rightarrow> nat option \<times> string" where
  "parse_base base s =
     (let ds = takeWhile (\<lambda>c. digit_value c < base) s
      in (if ds = [] then None else Some (foldl (\<lambda>n c. base * n + digit_value c) 0 ds), dropWhile (\<lambda>c. digit_value c < base) s))"

definition strtoull_base0 :: "string \<Rightarrow> u64 \<times> string" where
  "strtoull_base0 s =
     (let t = dropWhile is_space s;
          negative = starts_char CHR ''-'' t;
          t = (if negative \<or> starts_char CHR ''+'' t then tl t else t);
          hexadecimal = (length t \<ge> 3 \<and> t ! 0 = CHR ''0'' \<and> (t ! 1 = CHR ''x'' \<or> t ! 1 = CHR ''X'') \<and> digit_value (t ! 2) < 16);
          (value, rest) = (if hexadecimal then parse_base 16 (drop 2 t)
                           else if starts_char CHR ''0'' t then parse_base 8 t else parse_base 10 t)
      in case value of
           None \<Rightarrow> (0, s)
         | Some n \<Rightarrow> (if n \<ge> 2 ^ 64 then - 1 else if negative then - of_nat n else of_nat n, rest))"

definition QRT_PREFIX_CACHE_BLOCK_TOKENS :: nat where "QRT_PREFIX_CACHE_BLOCK_TOKENS = 256"
definition MAX_SUFFIX_TOKENS :: nat where "MAX_SUFFIX_TOKENS = 1024"
definition MAX_TAIL_TOKENS :: nat where "MAX_TAIL_TOKENS = 1536"
definition MAX_OUTPUT_TOKENS :: nat where "MAX_OUTPUT_TOKENS = 512"
definition RETAINED_Q8192_TOKENS :: nat where "RETAINED_Q8192_TOKENS = 8192"
definition VOCAB_SIZE :: u32 where "VOCAB_SIZE = 248320"

lemmas bridge_limits = QRT_PREFIX_CACHE_BLOCK_TOKENS_def MAX_SUFFIX_TOKENS_def MAX_TAIL_TOKENS_def MAX_OUTPUT_TOKENS_def
  RETAINED_Q8192_TOKENS_def VOCAB_SIZE_def

definition prefix_cache_min_tokens :: "bridge_env \<Rightarrow> bridge_hist \<Rightarrow> nat \<times> bridge_hist" where
  "prefix_cache_min_tokens env h =
     (let (v, h) = environment_value env ''QRT_SERVER_PREFIX_CACHE_MIN_TOKENS'' 64 h
      in (case v of
            None \<Rightarrow> QRT_PREFIX_CACHE_BLOCK_TOKENS
          | Some s \<Rightarrow> let (parsed, rest) = strtoull_base0 s
                     in if rest = s \<or> rest \<noteq> [] then QRT_PREFIX_CACHE_BLOCK_TOKENS else unat parsed, h))"

definition prefix_cache_enabled :: "bridge_env \<Rightarrow> bridge_hist \<Rightarrow> bool \<times> bridge_hist" where
  "prefix_cache_enabled env h =
     (let (v, h) = environment_value env ''QRT_SERVER_PREFIX_CACHE'' 64 h in (v = None \<or> v \<noteq> Some ''0'', h))"

definition exact_first_token_enabled :: "bridge_env \<Rightarrow> bridge_hist \<Rightarrow> bool \<times> bridge_hist" where
  "exact_first_token_enabled env h =
     (let (v, h) = environment_value env ''QRT_SERVER_EXACT_FIRST_TOKEN_PREFILL'' 64 h
      in (v \<noteq> None \<and> v \<noteq> Some [] \<and> v \<noteq> Some ''0'', h))"

definition exact_letter_classifier_enabled :: "bridge_env \<Rightarrow> bridge_hist \<Rightarrow> bool \<times> bridge_hist" where
  "exact_letter_classifier_enabled env h =
     (let (v, h) = environment_value env ''QRT_SERVER_EXACT_LETTER_CLASSIFIER'' 64 h
      in (v \<noteq> None \<and> v \<noteq> Some [] \<and> v \<noteq> Some ''0'', h))"

definition prefix_shape_supported :: "nat \<Rightarrow> nat \<Rightarrow> nat \<Rightarrow> bool" where
  "prefix_shape_supported input_count prefix_count output_capacity \<longleftrightarrow>
     (let suffix_count = (if input_count \<ge> prefix_count then input_count - prefix_count else 2 ^ 64 - 1)
      in prefix_count > 0 \<and> prefix_count < input_count \<and> suffix_count \<le> MAX_SUFFIX_TOKENS \<and> output_capacity > 0 \<and>
         output_capacity \<le> MAX_OUTPUT_TOKENS \<and> suffix_count \<le> MAX_TAIL_TOKENS - (output_capacity - 1))"

section \<open>Creating and freeing\<close>

record load_report =
  lp_preload_reported_ns :: u64
  lp_stored_entry_count :: u64
  lp_preload_completed :: bool
  lp_engine_ready :: bool
  lp_failure_stage :: string
  lp_failure :: string

definition zero_load_report :: load_report where
  "zero_load_report = \<lparr>lp_preload_reported_ns = 0, lp_stored_entry_count = 0, lp_preload_completed = False, lp_engine_ready = False,
     lp_failure_stage = [], lp_failure = []\<rparr>"

definition set_load_failure :: "string \<Rightarrow> string \<Rightarrow> load_report \<Rightarrow> load_report" where
  "set_load_failure stage failure rp = rp\<lparr>lp_failure_stage := c_copy 64 stage, lp_failure := c_copy 192 failure\<rparr>"

text \<open>\<open>_putenv_s\<close> until one fails.\<close>

fun putenvs :: "bridge_env \<Rightarrow> (string \<times> string) list \<Rightarrow> bridge_hist \<Rightarrow> bool \<times> bridge_hist" where
  "putenvs env [] h = (True, h)"
| "putenvs env ((name, value) # vs) h =
     (let (r, h) = ask env (Putenv name value) h in if br_ok r then putenvs env vs h else (False, h))"

definition server_engine_create ::
  "bridge_env \<Rightarrow> string \<Rightarrow> string \<Rightarrow> nat \<Rightarrow> bridge_hist \<Rightarrow> qrt_status \<times> server_engine option \<times> load_report \<times> bridge_hist" where
  "server_engine_create env model_path provider_dll max_context_tokens h =
     (let rp = zero_load_report
      in if model_path = [] \<or> provider_dll = [] \<or> max_context_tokens = 0 \<or> max_context_tokens > 262144
         then (STATUS_INVALID_ARGUMENT, None, rp, h)
         else
      let (r, h) = ask env (BCalloc ''qrt_server_engine_t'') h;
          self = br_num r
      in if self = nullptr then (STATUS_OUT_OF_MEMORY, None, rp, h)
         else
      let (ok, h) = putenvs env [(''QRT_QWEN36_WHOLE_PROVIDER_DLL'', provider_dll),
            (''QRT_QWEN36_WHOLE_PROVIDER_ARBITRARY_CONTEXT'', ''1''), (''QRT_QWEN36_WHOLE_PROVIDER_DIRECT_REQUEST_ENTRY'', ''1''),
            (''QRT_QWEN36_WHOLE_PROVIDER_RESIDENT_SESSION'', ''1'')] h
      in if \<not> ok
         then (STATUS_IO_ERROR, None,
               set_load_failure ''provider_environment'' ''could not configure the whole-provider service environment'' rp,
               bridge_free env self h)
         else
      let (r, h) = ask env (LoadLib provider_dll) h;
          module = br_num r
      in if module = nullptr
         then (STATUS_IO_ERROR, None, set_load_failure ''provider_dll_load'' ''could not load the whole-provider DLL'' rp,
               bridge_free env self h)
         else
      let give_up = (\<lambda>h. bridge_free env self (bridge_tell env (FreeLib module) h));
          (r, h) = ask env (GetSymbol module ''qrt_prefill_descriptor_batch_hip_preload_compact_device_routed_layout_v1'') h
      in if br_num r = nullptr
         then (STATUS_UNSUPPORTED, None,
               set_load_failure ''provider_preload_symbol'' ''whole-provider DLL does not export model preload v1'' rp, give_up h)
         else
      let (r, h) = ask env (BCalloc ''qrt_qwen36_prefill_descriptor_batch_timing_t'') h;
          timing = br_num r
      in if timing = nullptr then (STATUS_OUT_OF_MEMORY, None, rp, give_up h)
         else
      let (r, h) = ask env (Preload model_path) h;
          rp = rp\<lparr>lp_preload_reported_ns := br_ttft_ns r, lp_stored_entry_count := br_num r,
                  lp_preload_completed := (br_ok r \<and> br_pass r)\<rparr>;
          h = bridge_free env timing h
      in if \<not> lp_preload_completed rp
         then (STATUS_UNSUPPORTED, None,
               set_load_failure (if br_failure_stage r \<noteq> [] then br_failure_stage r else ''provider_preload'')
                 (if br_failure r \<noteq> [] then br_failure r else ''whole-provider preload failed'') rp, give_up h)
         else
      let (r, h) = ask env (EngineCreate model_path max_context_tokens) h
      in if br_status r \<noteq> STATUS_OK \<or> br_num r = nullptr
         then (if br_status r \<noteq> STATUS_OK then br_status r else STATUS_UNSUPPORTED, None,
               set_load_failure ''engine_create'' (qrt_strerror (br_status r)) rp, give_up h)
         else (STATUS_OK,
               Some \<lparr>se_self = self, se_engine = br_num r, se_resident = empty_store, se_previous = empty_store, se_module = module\<rparr>,
               rp\<lparr>lp_engine_ready := True\<rparr>, h))"

definition server_engine_free :: "bridge_env \<Rightarrow> server_engine \<Rightarrow> bridge_hist \<Rightarrow> bridge_hist" where
  "server_engine_free env e h =
     (let h = (if se_engine e \<noteq> nullptr then bridge_tell env (EngineFree (se_engine e)) h else h);
          h = bridge_free env (ts_ptr (se_resident e)) h;
          h = bridge_free env (ts_ptr (se_previous e)) h;
          h = (if se_module e \<noteq> nullptr then bridge_tell env (FreeLib (se_module e)) h else h)
      in bridge_free env (se_self e) h)"

section \<open>The exact-first-token route\<close>

record request_report =
  rr_ttft_ns :: u64
  rr_tpot_ns :: u64
  rr_tpot_sample_count :: u64
  rr_output_token_count :: nat
  rr_failure_stage :: string
  rr_failure :: string

definition zero_request_report :: request_report where
  "zero_request_report = \<lparr>rr_ttft_ns = 0, rr_tpot_ns = 0, rr_tpot_sample_count = 0, rr_output_token_count = 0,
     rr_failure_stage = [], rr_failure = []\<rparr>"

definition request_failure :: "string \<Rightarrow> string \<Rightarrow> request_report" where
  "request_failure stage failure =
     zero_request_report\<lparr>rr_failure_stage := c_copy 64 stage, rr_failure := c_copy 192 failure\<rparr>"

text \<open>The status and the output tokens that the caller sees, with the report.\<close>

type_synonym request_result = "qrt_status \<times> u32 list \<times> request_report"

fun status_of_int :: "int \<Rightarrow> qrt_status" where
  "status_of_int n =
     (if n = 1 then STATUS_INVALID_ARGUMENT else if n = 2 then STATUS_OUT_OF_MEMORY else if n = 3 then STATUS_NOT_IMPLEMENTED
      else if n = 4 then STATUS_UNSUPPORTED else if n = 5 then STATUS_IO_ERROR else if n = 6 then STATUS_PARSE_ERROR else STATUS_OK)"

definition exact_result_valid :: "exact_result \<Rightarrow> u32 list \<Rightarrow> u64 \<Rightarrow> bool" where
  "exact_result_valid r tokens digest \<longleftrightarrow>
     er_ok r \<and> er_completed r \<and> er_status r = 0 \<and> er_batch_size r = 1 \<and> er_output_token_id r < VOCAB_SIZE \<and>
     er_verifier_input_token_count r = of_nat (length tokens) \<and> er_input_digest r = digest"

definition exact_failed :: "exact_result \<Rightarrow> string \<Rightarrow> string \<Rightarrow> u32 list \<Rightarrow> request_result" where
  "exact_failed r stage failure outputs =
     (if er_status r > 0 \<and> er_status r \<le> 6 then status_of_int (er_status r) else STATUS_UNSUPPORTED, outputs,
      request_failure (if er_failure_stage r \<noteq> [] then er_failure_stage r else stage)
        (if er_failure r \<noteq> [] then er_failure r else failure))"

definition is_ascii_letter :: "u32 \<Rightarrow> bool" where
  "is_ascii_letter token \<longleftrightarrow> token \<ge> 32 \<and> token \<le> 41"

definition server_digest :: "u32 list \<Rightarrow> u64" where
  "server_digest tokens = fnv1a64_bytes (token_bytes tokens)"

text \<open>
  The continuation loop, from the result \<open>r\<close> for the input followed by the tokens \<open>gen\<close>; \<open>room\<close> is what is left of
  the output capacity.
\<close>

fun exact_continue ::
  "bridge_env \<Rightarrow> server_engine \<Rightarrow> u64 \<Rightarrow> u32 list \<Rightarrow> u64 \<Rightarrow> nat \<Rightarrow> u32 list \<Rightarrow> exact_result \<Rightarrow> u64 \<Rightarrow> bridge_hist \<Rightarrow>
     request_result \<times> bridge_hist" where
  "exact_continue env e block input first_ns 0 gen r elapsed h = ((STATUS_UNSUPPORTED, gen, zero_request_report), h)"
| "exact_continue env e block input first_ns (Suc room) gen r elapsed h =
     (let output_token = er_output_token_id r;
          (cb, h) = ask env (StreamEvent (gen \<noteq> []) (length gen) output_token (er_total_elapsed_ns r)) h;
          gen = gen @ [output_token];
          stop = (\<lambda>res h. (res, bridge_free env block h))
      in if \<not> br_ok cb
         then stop (STATUS_UNSUPPORTED, gen,
                request_failure ''exact_letter_classifier_callback'' ''exact letter continuation callback cancelled emission'') h
         else if is_ascii_letter output_token \<or> room = 0
         then stop (STATUS_OK, gen,
                zero_request_report\<lparr>rr_ttft_ns := first_ns, rr_tpot_sample_count := of_nat (length gen - 1),
                  rr_tpot_ns := (if length gen - 1 \<noteq> 0 then elapsed div of_nat (length gen - 1) else 0),
                  rr_output_token_count := length gen\<rparr>) h
         else
           let tokens = input @ gen
           in if length tokens \<ge> RETAINED_Q8192_TOKENS \<or> length tokens > 2 ^ 32 - 1
              then stop (STATUS_UNSUPPORTED, gen,
                     request_failure ''exact_letter_classifier_context''
                       ''exact letter continuation reached the exact-prefill context boundary'') h
              else
                let digest = server_digest tokens;
                    (reply, h) = ask env (ExactFirstToken (se_engine e) tokens digest) h;
                    r = br_exact reply
                in if \<not> exact_result_valid r tokens digest
                   then stop (exact_failed r ''exact_letter_classifier_provider''
                                ''exact letter continuation did not return one valid token'' gen) h
                   else if - 1 - elapsed < er_total_elapsed_ns r
                   then stop (STATUS_UNSUPPORTED, gen,
                          request_failure ''exact_letter_classifier_timing'' ''exact letter continuation timing overflowed'') h
                   else exact_continue env e block input first_ns room gen r (elapsed + er_total_elapsed_ns r) h)"

text \<open>After a valid first result: the continuation, or the single token.\<close>

definition exact_emit ::
  "bridge_env \<Rightarrow> server_engine \<Rightarrow> bool \<Rightarrow> u32 list \<Rightarrow> nat \<Rightarrow> exact_result \<Rightarrow> bridge_hist \<Rightarrow> request_result \<times> bridge_hist" where
  "exact_emit env e classifier input capacity r h =
     (if classifier \<and> capacity > 1 \<and> \<not> is_ascii_letter (er_output_token_id r)
      then
        if capacity > 2 ^ 64 - 1 - length input \<or> length input + capacity > (2 ^ 64 - 1) div 4
        then ((STATUS_INVALID_ARGUMENT, [],
               request_failure ''exact_letter_classifier_capacity'' ''exact letter continuation token capacity overflowed''), h)
        else
          let (m, h) = ask env (BMalloc (of_nat ((length input + capacity) * 4))) h;
              block = br_num m
          in if block = nullptr
             then ((STATUS_OUT_OF_MEMORY, [],
                    request_failure ''exact_letter_classifier_allocation'' ''exact letter continuation token allocation failed''), h)
             else exact_continue env e block input (er_total_elapsed_ns r) capacity [] r 0 h
      else
        let token = er_output_token_id r;
            (cb, h) = ask env (StreamEvent False 0 token (er_total_elapsed_ns r)) h
        in if \<not> br_ok cb
           then ((STATUS_UNSUPPORTED, [],
                  request_failure ''exact_first_token_callback'' ''exact first-token stream callback cancelled emission''), h)
           else ((STATUS_OK, [token],
                  zero_request_report\<lparr>rr_ttft_ns := er_total_elapsed_ns r, rr_output_token_count := 1\<rparr>), h))"

definition exact_route ::
  "bridge_env \<Rightarrow> server_engine \<Rightarrow> bool \<Rightarrow> u32 list \<Rightarrow> nat \<Rightarrow> bridge_hist \<Rightarrow> request_result \<times> bridge_hist" where
  "exact_route env e classifier input capacity h =
     (let (r, h) = ask env (GetSymbol (se_module e) ''qrt_qwen36_whole_provider_exact_first_token_v1'') h
      in if br_num r = nullptr
         then ((STATUS_UNSUPPORTED, [],
                request_failure ''exact_first_token_symbol'' ''configured provider does not export exact first-token v1''), h)
         else
      let digest = server_digest input
      in if digest = 0
         then ((STATUS_INVALID_ARGUMENT, [],
                request_failure ''exact_first_token_identity'' ''exact first-token input digest cannot be zero''), h)
         else
      let (reply, h) = ask env (ExactFirstToken (se_engine e) input digest) h;
          r = br_exact reply
      in if \<not> exact_result_valid r input digest
         then (exact_failed r ''exact_first_token_provider'' ''exact first-token provider did not return one valid token'' [], h)
         else exact_emit env e classifier input capacity r h)"

section \<open>The prefix cache\<close>

text \<open>The length of the prefix to reuse, 0 for none, and whether it has to be seeded first.\<close>

definition choose_prefix :: "nat \<Rightarrow> u32 list \<Rightarrow> u32 list \<Rightarrow> u32 list \<Rightarrow> nat \<Rightarrow> nat \<times> bool" where
  "choose_prefix minimum resident previous input capacity =
     (let (hit, seed) =
        (if length resident \<ge> minimum \<and> prefix_shape_supported (length input) (length resident) capacity \<and>
            take (length resident) input = resident
         then (length resident, False)
         else if previous \<noteq> []
         then
           let common = common_prefix_tokens previous input;
               common = (if common = length input \<and> common \<noteq> 0 then common - 1 else common)
           in if common \<ge> minimum \<and> prefix_shape_supported (length input) common capacity then (common, True) else (0, False)
         else (0, False))
      in if hit = 0 \<and> length input > minimum \<and> prefix_shape_supported (length input) (length input - 1) capacity
         then (length input - 1, True) else (hit, seed))"

definition select_prefix ::
  "bridge_env \<Rightarrow> server_engine \<Rightarrow> u32 list \<Rightarrow> nat \<Rightarrow> bridge_hist \<Rightarrow> (nat \<times> bool) \<times> bridge_hist" where
  "select_prefix env e input capacity h =
     (let (enabled, h) = prefix_cache_enabled env h
      in if enabled \<and> length input < RETAINED_Q8192_TOKENS
         then
           let (minimum, h) = prefix_cache_min_tokens env h
           in (choose_prefix minimum (ts_tokens (se_resident e)) (ts_tokens (se_previous e)) input capacity, h)
         else ((0, False), h))"

definition forget_resident :: "server_engine \<Rightarrow> server_engine" where
  "forget_resident e = e\<lparr>se_resident := (se_resident e)\<lparr>ts_tokens := []\<rparr>\<rparr>"

text \<open>
  Seeding: a one-token request for the prefix. \<open>None\<close> means that the request goes on. The time that the clock measures
  around the call comes with the reply.
\<close>

definition seed_prefix ::
  "bridge_env \<Rightarrow> server_engine \<Rightarrow> u32 list \<Rightarrow> nat \<Rightarrow> bridge_hist \<Rightarrow> qrt_status option \<times> server_engine \<times> u64 \<times> bridge_hist" where
  "seed_prefix env e input hit h =
     (let (r, h) = ask env (EngineRequest (se_engine e) (take hit input)) h;
          status = br_status r
      in if status \<noteq> STATUS_OK \<or> length (br_tokens r) \<noteq> 1 \<or> hd (br_tokens r) \<ge> VOCAB_SIZE
         then (Some (if status = STATUS_OK then STATUS_OUT_OF_MEMORY else status), forget_resident e, br_ttft_ns r, h)
         else
           let (ok, ts, h) = store_tokens env (se_resident e) (take hit input) h
           in if \<not> ok then (Some STATUS_OUT_OF_MEMORY, forget_resident e, br_ttft_ns r, h)
              else (None, e\<lparr>se_resident := ts\<rparr>, br_ttft_ns r, h))"

definition remember_request :: "bridge_env \<Rightarrow> server_engine \<Rightarrow> u32 list \<Rightarrow> bridge_hist \<Rightarrow> server_engine \<times> bridge_hist" where
  "remember_request env e input h =
     (let (ok, ts, h) = store_tokens env (se_previous e) input h in (e\<lparr>se_previous := ts\<rparr>, h))"

text \<open>The request on the prefix; \<open>Inl\<close> is the early return when the result cannot be allocated.\<close>

definition prefix_request ::
  "bridge_env \<Rightarrow> server_engine \<Rightarrow> u32 list \<Rightarrow> nat \<Rightarrow> nat \<Rightarrow> bridge_hist \<Rightarrow>
     (qrt_status + qrt_status \<times> u32 list) \<times> server_engine \<times> bridge_hist" where
  "prefix_request env e input hit capacity h =
     (let (m, h) = ask env (BCalloc ''qrt_qwen36_resident_prefix_cache_result_v1_t'') h;
          prefix_result = br_num m
      in if prefix_result = nullptr then (Inl STATUS_OUT_OF_MEMORY, e, h)
         else
      let (r, h) = ask env (EnginePrefixStream (se_engine e) input hit capacity) h
      in if br_status r = STATUS_OK
         then let (e, h) = remember_request env e input h
              in (Inr (STATUS_OK, br_tokens r), e, bridge_free env prefix_result h)
         else (Inr (br_status r, []), forget_resident e, bridge_free env prefix_result h))"

definition ordinary_request ::
  "bridge_env \<Rightarrow> server_engine \<Rightarrow> u32 list \<Rightarrow> nat \<Rightarrow> bridge_hist \<Rightarrow> (qrt_status \<times> u32 list) \<times> server_engine \<times> bridge_hist" where
  "ordinary_request env e input capacity h =
     (let (r, h) = ask env (EngineStream (se_engine e) input capacity) h
      in if br_status r = STATUS_OK
         then
           let (e, h) = remember_request env e input h
           in if capacity = 1
              then let (ok, ts, h) = store_tokens env (se_resident e) input h
                   in ((STATUS_OK, br_tokens r), e\<lparr>se_resident := ts\<rparr>, h)
              else ((STATUS_OK, br_tokens r), forget_resident e, h)
         else ((br_status r, br_tokens r), e, h))"

section \<open>Requests\<close>

definition finish_request ::
  "bridge_env \<Rightarrow> server_engine \<Rightarrow> qrt_status \<Rightarrow> u32 list \<Rightarrow> u64 \<Rightarrow> bridge_hist \<Rightarrow> request_result \<times> bridge_hist" where
  "finish_request env e status outputs seed_ns h =
     (let rp = zero_request_report\<lparr>rr_output_token_count := length outputs\<rparr>;
          (m, h) = ask env (BCalloc ''qrt_engine_report_t'') h
      in if br_num m = nullptr
         then ((if status \<noteq> STATUS_OK then status else STATUS_OUT_OF_MEMORY, outputs, rp), h)
         else
      let (r, h) = ask env (EngineReport (se_engine e)) h;
          rp = (if br_status r = STATUS_OK
                then rp\<lparr>rr_ttft_ns := br_ttft_ns r + seed_ns, rr_tpot_ns := br_tpot_ns r, rr_tpot_sample_count := br_tpot_samples r,
                        rr_failure_stage := c_copy 64 (br_failure_stage r), rr_failure := c_copy 192 (br_failure r)\<rparr>
                else rp)
      in ((status, outputs, rp), bridge_free env (br_num m) h))"

text \<open>Whether the exact route is taken, and whether as a classifier.\<close>

definition select_exact ::
  "bridge_env \<Rightarrow> bool \<Rightarrow> u32 list \<Rightarrow> nat \<Rightarrow> bridge_hist \<Rightarrow> (bool \<times> bool) \<times> bridge_hist" where
  "select_exact env force input capacity h =
     (let (classifier, h) = exact_letter_classifier_enabled env h;
          (first, h) = (if classifier \<or> force then (True, h) else exact_first_token_enabled env h)
      in ((classifier, (classifier \<or> first \<and> capacity = 1) \<and> length input < RETAINED_Q8192_TOKENS \<and> length input \<le> 2 ^ 32 - 1), h))"

text \<open>\<open>qrt_server_engine_request_tokens_stream_internal\<close>\<close>

definition request_internal ::
  "bridge_env \<Rightarrow> bool \<Rightarrow> server_engine \<Rightarrow> u32 list \<Rightarrow> nat \<Rightarrow> bridge_hist \<Rightarrow> request_result \<times> server_engine \<times> bridge_hist" where
  "request_internal env force e input capacity h =
     (if se_engine e = nullptr \<or> input = [] \<or> capacity = 0
      then ((STATUS_INVALID_ARGUMENT, [], zero_request_report), e, h)
      else
      let ((classifier, exact), h) = select_exact env force input capacity h
      in if exact
         then let (res, h) = exact_route env e classifier input capacity h in (res, e, h)
         else
      let ((hit, seed), h) = select_prefix env e input capacity h;
          (stopped, e, seed_ns, h) = (if hit \<noteq> 0 \<and> seed then seed_prefix env e input hit h else (None, e, 0, h))
      in case stopped of
           Some status \<Rightarrow> ((status, [], zero_request_report), e, h)
         | None \<Rightarrow>
      if hit \<noteq> 0
      then
        let (res, e, h) = prefix_request env e input hit capacity h
        in case res of
             Inl status \<Rightarrow> ((status, [], zero_request_report), e, h)
           | Inr (status, outputs) \<Rightarrow>
               let (res, h) = finish_request env e status outputs (if status = STATUS_OK then seed_ns else 0) h in (res, e, h)
      else
        let ((status, outputs), e, h) = ordinary_request env e input capacity h;
            (res, h) = finish_request env e status outputs 0 h
        in (res, e, h))"

definition request_tokens_stream ::
  "bridge_env \<Rightarrow> server_engine \<Rightarrow> u32 list \<Rightarrow> nat \<Rightarrow> bridge_hist \<Rightarrow> request_result \<times> server_engine \<times> bridge_hist" where
  "request_tokens_stream env = request_internal env False"

definition request_tokens_exact_stream ::
  "bridge_env \<Rightarrow> server_engine \<Rightarrow> u32 list \<Rightarrow> nat \<Rightarrow> bridge_hist \<Rightarrow> request_result \<times> server_engine \<times> bridge_hist" where
  "request_tokens_exact_stream env = request_internal env True"


section \<open>What the exact route streams\<close>

fun event_of :: "bridge_call \<Rightarrow> (bool \<times> nat \<times> u32) list" where
  "event_of (StreamEvent decode i token ns) = [(decode, i, token)]"
| "event_of _ = []"

fun exact_step_of :: "bridge_call \<times> bridge_reply \<Rightarrow> (u32 list \<times> u32) list" where
  "exact_step_of (ExactFirstToken e tokens digest, r) = [(tokens, er_output_token_id (br_exact r))]"
| "exact_step_of _ = []"

text \<open>The events passed to the callback, and the inputs with the tokens that the provider returned, in order.\<close>

definition events :: "bridge_hist \<Rightarrow> (bool \<times> nat \<times> u32) list" where
  "events h = concat (map (\<lambda>e. event_of (fst e)) (rev h))"

definition exact_steps :: "bridge_hist \<Rightarrow> (u32 list \<times> u32) list" where
  "exact_steps h = concat (map exact_step_of (rev h))"

lemma events_simps [simp]:
  "events (e # h) = events h @ event_of (fst e)" "events (bridge_free env p h) = events h"
  "exact_steps (e # h) = exact_steps h @ exact_step_of e" "exact_steps (bridge_free env p h) = exact_steps h"
  by (simp_all add: events_def exact_steps_def bridge_free_def bridge_tell_def)

definition streamed :: "u32 list \<Rightarrow> nat \<Rightarrow> (bool \<times> nat \<times> u32) list" where
  "streamed outputs from = map (\<lambda>i. (i \<noteq> 0, i, outputs ! i)) [from..<length outputs]"

definition continued :: "u32 list \<Rightarrow> u32 list \<Rightarrow> nat \<Rightarrow> (u32 list \<times> u32) list" where
  "continued input outputs from = map (\<lambda>i. (input @ take i outputs, outputs ! i)) [from..<length outputs]"

text \<open>The loop from the tokens \<open>gen\<close>: it ends after at most \<open>room\<close> more tokens.\<close>

definition exact_run ::
  "u32 list \<Rightarrow> nat \<Rightarrow> u32 list \<Rightarrow> u32 \<Rightarrow> qrt_status \<Rightarrow> u32 list \<Rightarrow> bridge_hist \<Rightarrow> bridge_hist \<Rightarrow> bool" where
  "exact_run input room gen t st outputs h h' \<longleftrightarrow>
     (\<exists>new. outputs = gen @ t # new \<and> length new < room \<and> (\<forall>u \<in> set (butlast (t # new)). \<not> is_ascii_letter u) \<and>
        events h' = events h @ streamed outputs (length gen) \<and>
        (st = STATUS_OK \<longrightarrow> (is_ascii_letter (last (t # new)) \<or> Suc (length new) = room) \<and>
           exact_steps h' = exact_steps h @ continued input outputs (Suc (length gen))))"

lemma exact_failed_status [simp]: "fst (exact_failed r s f g) \<noteq> STATUS_OK" "fst (snd (exact_failed r s f g)) = g"
  by (auto simp: exact_failed_def split: if_splits)

lemma exact_failedD: "exact_failed r s f g = (st, outputs, rp) \<Longrightarrow> st \<noteq> STATUS_OK \<and> outputs = g"
  using exact_failed_status [of r s f g] by simp

lemma exact_run_one:
  assumes "events h' = events h @ [(gen \<noteq> [], length gen, t)]" "0 < room"
    and "st = STATUS_OK \<Longrightarrow> (is_ascii_letter t \<or> room = 1) \<and> exact_steps h' = exact_steps h"
  shows "exact_run input room gen t st (gen @ [t]) h h'"
  unfolding exact_run_def by (rule exI [of _ "[]"]) (use assms in \<open>auto simp: streamed_def continued_def\<close>)

lemma exact_run_step:
  assumes "exact_run input room (gen @ [t]) u st outputs g h'" "\<not> is_ascii_letter t"
    and "events g = events h @ [(gen \<noteq> [], length gen, t)]" "exact_steps g = exact_steps h @ [(input @ gen @ [t], u)]"
  shows "exact_run input (Suc room) gen t st outputs h h'"
proof -
  obtain new where new: "outputs = gen @ t # u # new" "length new < room" "\<forall>v \<in> set (butlast (u # new)). \<not> is_ascii_letter v"
      "events h' = events g @ streamed outputs (Suc (length gen))"
      "st = STATUS_OK \<longrightarrow> (is_ascii_letter (last (u # new)) \<or> Suc (length new) = room) \<and>
         exact_steps h' = exact_steps g @ continued input outputs (Suc (Suc (length gen)))"
    using assms(1) by (auto simp: exact_run_def)
  have upt: "[length gen..<length outputs] = length gen # [Suc (length gen)..<length outputs]"
    "[Suc (length gen)..<length outputs] = Suc (length gen) # [Suc (Suc (length gen))..<length outputs]"
    by (rule upt_conv_Cons, simp add: new(1))+
  have at: "outputs ! length gen = t" "outputs ! Suc (length gen) = u" "take (Suc (length gen)) outputs = gen @ [t]"
    by (simp_all add: new(1) nth_append)
  have "streamed outputs (length gen) = (gen \<noteq> [], length gen, t) # streamed outputs (Suc (length gen))"
    unfolding streamed_def upt(1) by (simp add: at)
  moreover have "continued input outputs (Suc (length gen)) = (input @ gen @ [t], u) # continued input outputs (Suc (Suc (length gen)))"
    unfolding continued_def upt(2) by (simp add: at)
  ultimately have "streamed outputs (length gen) = (gen \<noteq> [], length gen, t) # streamed outputs (Suc (length gen))"
    "continued input outputs (Suc (length gen)) = (input @ gen @ [t], u) # continued input outputs (Suc (Suc (length gen)))" by auto
  then show ?thesis
    unfolding exact_run_def using new assms(2,3,4) by (intro exI [of _ "u # new"]) auto
qed

lemma exact_continue_runs:
  assumes "exact_continue env e block input first_ns (Suc room) gen r elapsed h = ((st, outputs, rp), h')"
  shows "exact_run input (Suc room) gen (er_output_token_id r) st outputs h h'"
  using assms
proof (induction room arbitrary: gen r elapsed h)
  case 0
  define g where "g = snd (ask env (StreamEvent (gen \<noteq> []) (length gen) (er_output_token_id r) (er_total_elapsed_ns r)) h)"
  have "outputs = gen @ [er_output_token_id r]" "h' = bridge_free env block g"
    using 0 by (auto simp: Let_def case_prod_beta g_def split: if_splits)
  then show ?case using exact_run_one [of h' h gen "er_output_token_id r" "Suc 0" st input] by (simp add: g_def)
next
  case (Suc room)
  let ?t = "er_output_token_id r"
  let ?e = "StreamEvent (gen \<noteq> []) (length gen) ?t (er_total_elapsed_ns r)"
  define g where "g = (?e, env h ?e) # h"
  let ?tokens = "input @ gen @ [?t]"
  let ?c = "ExactFirstToken (se_engine e) ?tokens (server_digest ?tokens)"
  define r' where "r' = br_exact (env g ?c)"
  define g' where "g' = (?c, env g ?c) # g"
  have ev: "events g = events h @ [(gen \<noteq> [], length gen, ?t)]" "exact_steps g = exact_steps h" by (simp_all add: g_def)
  have ev': "events g' = events g" "exact_steps g' = exact_steps g @ [(?tokens, er_output_token_id r')]" by (simp_all add: g'_def r'_def)
  have one: "exact_run input (Suc (Suc room)) gen ?t st (gen @ [?t]) h h'"
    if "h' = bridge_free env block g \<and> (st = STATUS_OK \<longrightarrow> is_ascii_letter ?t) \<or> h' = bridge_free env block g' \<and> st \<noteq> STATUS_OK"
    using that ev ev' by (intro exact_run_one) auto
  consider (stop) "outputs = gen @ [?t]" "h' = bridge_free env block g \<and> (st = STATUS_OK \<longrightarrow> is_ascii_letter ?t) \<or>
      h' = bridge_free env block g' \<and> st \<noteq> STATUS_OK"
    | (continue) "\<not> is_ascii_letter ?t" "exact_continue env e block input first_ns (Suc room) (gen @ [?t]) r'
        (elapsed + er_total_elapsed_ns r') g' = ((st, outputs, rp), h')"
    using Suc.prems [unfolded exact_continue.simps(2) [of env e block input first_ns "Suc room"]]
    by (auto simp: Let_def case_prod_beta g_def [symmetric] r'_def [symmetric] g'_def [symmetric] simp del: exact_continue.simps
        dest!: exact_failedD split: if_splits)
  then show ?case
  proof cases
    case continue
    from Suc.IH [OF continue(2)] show ?thesis
      using continue(1) ev ev' by (intro exact_run_step [of input "Suc room" gen ?t _ st outputs g']) simp_all
  qed (use one in simp)
qed


lemma exact_continue_outputs:
  assumes "exact_continue env e block input first_ns (Suc room) gen r elapsed h = ((st, outputs, rp), h')"
    and "list_all (\<lambda>t. t < VOCAB_SIZE) gen" "er_output_token_id r < VOCAB_SIZE"
  shows "list_all (\<lambda>t. t < VOCAB_SIZE) outputs \<and> (st = STATUS_OK \<longrightarrow> rr_output_token_count rp = length outputs)"
  using assms
proof (induction room arbitrary: gen r elapsed h)
  case 0
  then show ?case by (auto simp: Let_def case_prod_beta split: if_splits)
next
  case (Suc room)
  let ?t = "er_output_token_id r"
  let ?gen = "gen @ [?t]"
  have gen: "list_all (\<lambda>t. t < VOCAB_SIZE) ?gen" using Suc.prems(2,3) by simp
  consider (stop) "outputs = ?gen" "st = STATUS_OK \<longrightarrow> rr_output_token_count rp = length outputs"
    | (continue) r' elapsed' g' where "er_output_token_id r' < VOCAB_SIZE"
        "exact_continue env e block input first_ns (Suc room) ?gen r' elapsed' g' = ((st, outputs, rp), h')"
    using Suc.prems(1) [unfolded exact_continue.simps(2) [of env e block input first_ns "Suc room"]]
    by (auto simp: Let_def case_prod_beta exact_result_valid_def simp del: exact_continue.simps dest!: exact_failedD split: if_splits)
  then show ?case
  proof cases
    case (continue r' elapsed' g')
    from Suc.IH [OF continue(2) gen continue(1)] show ?thesis .
  qed (use gen in simp)
qed

lemma exact_emit_run:
  assumes "exact_emit env e classifier input capacity r h = ((STATUS_OK, outputs, rp), h')" "0 < capacity" "classifier \<or> capacity = 1"
    and "er_output_token_id r < VOCAB_SIZE"
  shows "exact_run input capacity [] (er_output_token_id r) STATUS_OK outputs h h' \<and> list_all (\<lambda>t. t < VOCAB_SIZE) outputs \<and>
         rr_output_token_count rp = length outputs"
proof (cases "classifier \<and> capacity > 1 \<and> \<not> is_ascii_letter (er_output_token_id r)")
  case True
  let ?c = "BMalloc (of_nat ((length input + capacity) * 4))"
  obtain room where room: "capacity = Suc room" using assms(2) by (cases capacity) auto
  define g where "g = (?c, env h ?c) # h"
  have run: "exact_continue env e (br_num (env h ?c)) input (er_total_elapsed_ns r) (Suc room) [] r 0 g = ((STATUS_OK, outputs, rp), h')"
    using assms(1) True
    by (auto simp: exact_emit_def Let_def case_prod_beta g_def room simp del: exact_continue.simps split: if_splits)
  from exact_continue_runs [OF run] have "exact_run input capacity [] (er_output_token_id r) STATUS_OK outputs h h'"
    by (simp add: exact_run_def g_def room)
  then show ?thesis using exact_continue_outputs [OF run] assms(4) by simp
next
  case False
  then show ?thesis
    using assms exact_run_one [of h' h "[]" "er_output_token_id r" capacity STATUS_OK input]
    by (auto simp: exact_emit_def Let_def case_prod_beta split: if_splits)
qed

lemma exact_route_run:
  assumes "exact_route env e classifier input capacity h = ((STATUS_OK, outputs, rp), h')" "0 < capacity" "classifier \<or> capacity = 1"
  shows "\<exists>t g. exact_run input capacity [] t STATUS_OK outputs g h' \<and> events g = events h \<and> exact_steps g = exact_steps h @ [(input, t)] \<and>
         list_all (\<lambda>t. t < VOCAB_SIZE) outputs \<and> rr_output_token_count rp = length outputs"
proof -
  let ?s = "GetSymbol (se_module e) ''qrt_qwen36_whole_provider_exact_first_token_v1''"
  let ?c = "ExactFirstToken (se_engine e) input (server_digest input)"
  define g where "g = (?s, env h ?s) # h"
  define g' where "g' = (?c, env g ?c) # g"
  define r where "r = br_exact (env g ?c)"
  have "exact_emit env e classifier input capacity r g' = ((STATUS_OK, outputs, rp), h')" "er_output_token_id r < VOCAB_SIZE"
    using assms(1) by (auto simp: exact_route_def Let_def case_prod_beta g_def g'_def r_def exact_result_valid_def dest!: exact_failedD split: if_splits)
  from exact_emit_run [OF this(1) assms(2,3) this(2)] show ?thesis
    by (intro exI [of _ "er_output_token_id r"] exI [of _ g']) (simp add: g'_def r_def g_def)
qed

text \<open>
  C23. The exact-first-token route as the server calls it (as a classifier, or for one token), when it succeeds: at least one token
  and at most the requested number come back, all below the vocabulary size; every token but the last is no letter A to J, and the last is
  a letter or the number is reached. The callback saw exactly these tokens in order, the first as prefill at index 0 and
  the others as decode steps, and each is the provider's answer to the input followed by the tokens before it.
\<close>

theorem exact_route_streams:
  assumes "exact_route env e classifier input capacity h = ((STATUS_OK, outputs, rp), h')"
    and "0 < capacity" "classifier \<or> capacity = 1"
  shows "outputs \<noteq> [] \<and> length outputs \<le> capacity \<and> rr_output_token_count rp = length outputs \<and>
         list_all (\<lambda>t. t < VOCAB_SIZE) outputs \<and> list_all (\<lambda>t. \<not> is_ascii_letter t) (butlast outputs) \<and>
         (is_ascii_letter (last outputs) \<or> length outputs = capacity) \<and>
         events h' = events h @ map (\<lambda>i. (i \<noteq> 0, i, outputs ! i)) [0..<length outputs] \<and>
         exact_steps h' = exact_steps h @ map (\<lambda>i. (input @ take i outputs, outputs ! i)) [0..<length outputs]"
proof -
  obtain t g where run: "exact_run input capacity [] t STATUS_OK outputs g h'" and g: "events g = events h"
      "exact_steps g = exact_steps h @ [(input, t)]" and "list_all (\<lambda>t. t < VOCAB_SIZE) outputs" "rr_output_token_count rp = length outputs"
    using exact_route_run [OF assms] by blast
  moreover from run have "[0..<length outputs] = 0 # [Suc 0..<length outputs]" "outputs ! 0 = t"
    by (auto simp: exact_run_def intro!: upt_conv_Cons)
  then have "continued input outputs 0 = (input, t) # continued input outputs (Suc 0)" by (simp add: continued_def del: upt_Suc)
  with run g have "events h' = events h @ streamed outputs 0" "exact_steps h' = exact_steps h @ continued input outputs 0"
    by (auto simp: exact_run_def)
  moreover from run have "outputs \<noteq> []" "length outputs \<le> capacity" "list_all (\<lambda>t. \<not> is_ascii_letter t) (butlast outputs)"
      "is_ascii_letter (last outputs) \<or> length outputs = capacity"
    by (auto simp: exact_run_def list_all_iff)
  ultimately show ?thesis unfolding streamed_def continued_def by blast
qed



section \<open>The record of the resident prefix\<close>

text \<open>
  What the bridge may take to be resident, from the calls made so far: the input of the last prefill when it
  succeeded with one output token and every prefix request since succeeded. The exact route leaves it alone.
\<close>

fun last_prefill :: "bridge_hist \<Rightarrow> u32 list option" where
  "last_prefill [] = None"
| "last_prefill ((EngineRequest e tokens, r) # h) = (if br_status r = STATUS_OK then Some tokens else None)"
| "last_prefill ((EngineStream e tokens capacity, r) # h) = (if br_status r = STATUS_OK \<and> capacity = 1 then Some tokens else None)"
| "last_prefill ((EnginePrefixStream e tokens hit capacity, r) # h) = (if br_status r = STATUS_OK then last_prefill h else None)"
| "last_prefill (_ # h) = last_prefill h"

text \<open>Every prefix request so far named a proper prefix of its input that was resident.\<close>

fun prefix_calls_current :: "bridge_hist \<Rightarrow> bool" where
  "prefix_calls_current [] = True"
| "prefix_calls_current ((EnginePrefixStream e tokens hit capacity, r) # h) \<longleftrightarrow>
     hit < length tokens \<and> last_prefill h = Some (take hit tokens) \<and> prefix_calls_current h"
| "prefix_calls_current (_ # h) = prefix_calls_current h"

text \<open>No streamed ordinary request failed, and no reallocation was refused.\<close>

fun calm :: "bridge_hist \<Rightarrow> bool" where
  "calm [] = True"
| "calm ((EngineStream e tokens capacity, r) # h) \<longleftrightarrow> br_status r = STATUS_OK \<and> calm h"
| "calm ((BRealloc p n, r) # h) \<longleftrightarrow> br_num r \<noteq> nullptr \<and> calm h"
| "calm (_ # h) = calm h"

definition record_current :: "server_engine \<Rightarrow> bridge_hist \<Rightarrow> bool" where
  "record_current e h \<longleftrightarrow> prefix_calls_current h \<and>
     (ts_tokens (se_resident e) \<noteq> [] \<longrightarrow> last_prefill h = Some (ts_tokens (se_resident e)))"

text \<open>Steps that neither change what is resident nor ask for it.\<close>

definition quiet :: "bridge_hist \<Rightarrow> bridge_hist \<Rightarrow> bool" where
  "quiet h h' \<longleftrightarrow> last_prefill h' = last_prefill h \<and> prefix_calls_current h' = prefix_calls_current h \<and> (calm h' \<longrightarrow> calm h)"

lemma quiet_refl [simp]: "quiet h h" by (simp add: quiet_def)

lemma quiet_trans: "quiet g h \<Longrightarrow> quiet f g \<Longrightarrow> quiet f h" by (auto simp: quiet_def)

fun quiet_call :: "bridge_call \<Rightarrow> bool" where
  "quiet_call (EngineRequest e tokens) = False"
| "quiet_call (EngineStream e tokens capacity) = False"
| "quiet_call (EnginePrefixStream e tokens hit capacity) = False"
| "quiet_call _ = True"

lemma quiet_step: "quiet_call c \<Longrightarrow> quiet f h \<Longrightarrow> quiet f ((c, r) # h)"
  by (cases c) (auto simp: quiet_def)

lemma quiet_free: "quiet f h \<Longrightarrow> quiet f (bridge_free env p h)"
  by (auto simp: bridge_free_def bridge_tell_def intro: quiet_step)

lemmas quiet_intros = quiet_step quiet_free quiet_refl

lemma quiet_environment_value: "quiet h (snd (environment_value env name capacity h))"
  by (simp add: environment_value_def Let_def case_prod_beta quiet_step)

lemma quiet_select_exact: "quiet h (snd (select_exact env force input capacity h))"
  by (auto simp: select_exact_def exact_letter_classifier_enabled_def exact_first_token_enabled_def Let_def case_prod_beta
      intro: quiet_trans quiet_environment_value)

lemma quiet_select_prefix: "quiet h (snd (select_prefix env e input capacity h))"
  by (auto simp: select_prefix_def prefix_cache_enabled_def prefix_cache_min_tokens_def Let_def case_prod_beta
      intro: quiet_trans quiet_environment_value)

lemma quiet_store_tokens: "quiet h (snd (snd (store_tokens env ts source h)))"
  by (auto simp: store_tokens_def Let_def case_prod_beta intro!: quiet_intros)

lemma quiet_remember_request: "quiet h (snd (remember_request env e input h))"
  by (simp add: remember_request_def case_prod_beta quiet_store_tokens)

lemma quiet_finish_request: "quiet h (snd (finish_request env e status outputs seed_ns h))"
  by (auto simp: finish_request_def Let_def case_prod_beta intro!: quiet_intros)

lemma quiet_finishD: "finish_request env e status outputs seed_ns h = (r, h') \<Longrightarrow> quiet h h'"
  using quiet_finish_request [of h env e status outputs seed_ns] by simp

lemma quiet_exact_continue: "quiet h (snd (exact_continue env e block input first_ns room gen r elapsed h))"
proof (induction room arbitrary: gen r elapsed h)
  case (Suc room)
  show ?case
    by (auto simp: Let_def case_prod_beta intro!: quiet_intros intro: quiet_trans [OF Suc.IH])
qed simp

lemma quiet_exact_emit: "quiet f h \<Longrightarrow> quiet f (snd (exact_emit env e classifier input capacity r h))"
  by (auto simp: exact_emit_def Let_def case_prod_beta intro!: quiet_trans [OF quiet_exact_continue] quiet_step)

lemma quiet_exact_route: "quiet h (snd (exact_route env e classifier input capacity h))"
  by (auto simp: exact_route_def Let_def case_prod_beta intro!: quiet_exact_emit quiet_step)

lemma record_current_quiet:
  assumes "quiet h h'" "se_resident e' = se_resident e"
  shows "record_current e' h' = record_current e h"
  using assms by (simp add: record_current_def quiet_def)

lemma record_current_forget: "record_current (forget_resident e) h \<longleftrightarrow> prefix_calls_current h"
  by (simp add: record_current_def forget_resident_def)

lemma store_tokens_calm:
  assumes "store_tokens env ts source h = (ok, ts', h')" "calm h'" "source \<noteq> []" "length source \<le> (2 ^ 64 - 1) div 4"
  shows "ok \<and> ts_tokens ts' = source"
  using assms by (auto simp: store_tokens_def Let_def case_prod_beta split: if_splits)

lemma remember_request_resident: "se_resident (fst (remember_request env e input h)) = se_resident e"
  by (simp add: remember_request_def case_prod_beta)

lemma seed_prefix_current:
  assumes "seed_prefix env e input hit h = (stopped, e', ns, h')" "record_current e h" "0 < hit" "hit < length input"
  shows "record_current e' h' \<and> (stopped = None \<longrightarrow> ts_tokens (se_resident e') = take hit input) \<and> (calm h' \<longrightarrow> calm h)"
proof -
  let ?c = "EngineRequest (se_engine e) (take hit input)"
  define g where "g = (?c, env h ?c) # h"
  have g: "prefix_calls_current g" "calm g = calm h" "br_status (env h ?c) = STATUS_OK \<longrightarrow> last_prefill g = Some (take hit input)"
    using assms(2) by (simp_all add: g_def record_current_def)
  obtain ok ts k where st: "store_tokens env (se_resident e) (take hit input) g = (ok, ts, k)" by (metis prod_cases3)
  have k: "quiet g k" using quiet_store_tokens [of g env "se_resident e" "take hit input"] st by simp
  have ok: "ok \<longrightarrow> ts_tokens ts = take hit input" using st by (auto simp: store_tokens_def Let_def case_prod_beta split: if_splits)
  show ?thesis
    using assms(1) g k ok
    by (auto simp: seed_prefix_def Let_def case_prod_beta g_def [symmetric] st record_current_def forget_resident_def quiet_def split: if_splits)
qed

lemma prefix_request_current:
  assumes "prefix_request env e input hit capacity h = (res, e', h')" "record_current e h"
    and "ts_tokens (se_resident e) = take hit input" "0 < hit" "hit < length input"
  shows "record_current e' h' \<and> (calm h' \<longrightarrow> calm h)"
proof -
  let ?m = "BCalloc ''qrt_qwen36_resident_prefix_cache_result_v1_t''"
  let ?c = "EnginePrefixStream (se_engine e) input hit capacity"
  define f where "f = (?m, env h ?m) # h"
  define g where "g = (?c, env f ?c) # f"
  define k where "k = snd (remember_request env e input g)"
  have f: "quiet h f" by (simp add: f_def quiet_step)
  have rc: "last_prefill f = Some (take hit input)" "prefix_calls_current f" "calm f = calm h"
    using assms(2-5) by (auto simp: f_def record_current_def)
  have k: "quiet g k" by (simp add: k_def quiet_remember_request)
  have free: "quiet x (bridge_free env p x)" for x p by (simp add: quiet_free)
  have "res = Inl STATUS_OUT_OF_MEMORY \<and> e' = e \<and> h' = f \<or>
      br_status (env f ?c) = STATUS_OK \<and> se_resident e' = se_resident e \<and> h' = bridge_free env (br_num (env h ?m)) k \<or>
      br_status (env f ?c) \<noteq> STATUS_OK \<and> e' = forget_resident e \<and> h' = bridge_free env (br_num (env h ?m)) g"
    using assms(1) remember_request_resident [of env e input g]
    by (auto simp: prefix_request_def Let_def case_prod_beta f_def [symmetric] g_def [symmetric] k_def split: if_splits)
  then show ?thesis
    using rc k free [of k "br_num (env h ?m)"] free [of g "br_num (env h ?m)"] assms(2,3,5) f
    by (auto simp: record_current_def quiet_def forget_resident_def g_def)
qed

lemma ordinary_request_current:
  assumes "ordinary_request env e input capacity h = (res, e', h')" "record_current e h" "calm h'"
    and "input \<noteq> []" "length input \<le> (2 ^ 64 - 1) div 4"
  shows "record_current e' h' \<and> calm h"
proof -
  let ?c = "EngineStream (se_engine e) input capacity"
  define g where "g = (?c, env h ?c) # h"
  obtain e1 k where rm: "remember_request env e input g = (e1, k)" by (metis surj_pair)
  obtain ok ts l where st: "store_tokens env (se_resident e1) input k = (ok, ts, l)" by (metis prod_cases3)
  have q: "quiet g k" "quiet k l"
    using quiet_remember_request [of g env e input] quiet_store_tokens [of k env "se_resident e1" input] rm st by simp_all
  show ?thesis
    using assms q store_tokens_calm [OF st _ assms(4,5)]
    by (auto simp: ordinary_request_def Let_def case_prod_beta g_def [symmetric] rm st record_current_def forget_resident_def quiet_def
        split: if_splits) (auto simp: g_def)
qed

lemma choose_prefix_shape:
  assumes "choose_prefix minimum resident previous input capacity = (hit, seed)" "hit \<noteq> 0"
  shows "prefix_shape_supported (length input) hit capacity \<and> hit < length input \<and> (\<not> seed \<longrightarrow> resident = take hit input)"
  using assms by (auto simp: choose_prefix_def Let_def prefix_shape_supported_def split: if_splits)

lemma select_prefix_shape:
  assumes "fst (select_prefix env e input capacity h) = (hit, seed)" "hit \<noteq> 0"
  shows "prefix_shape_supported (length input) hit capacity \<and> hit < length input \<and>
         (\<not> seed \<longrightarrow> ts_tokens (se_resident e) = take hit input)"
  using assms choose_prefix_shape [OF _ assms(2)]
  by (auto simp: select_prefix_def Let_def case_prod_beta split: if_splits)

text \<open>After the choice: seeding if it is needed, then the request.\<close>

lemma prefix_route_current:
  assumes "record_current e h" "fst (select_prefix env e input capacity g) = (hit, seed)" "hit \<noteq> 0"
    and "(if seed then seed_prefix env e input hit h else (None, e, 0, h)) = (stopped, e1, ns, k)"
    and "stopped = None \<Longrightarrow> prefix_request env e1 input hit capacity k = (res, e', h')"
  shows "record_current e1 k \<and> (calm k \<longrightarrow> calm h) \<and> (stopped = None \<longrightarrow> record_current e' h' \<and> (calm h' \<longrightarrow> calm k))"
proof -
  note shape = select_prefix_shape [OF assms(2,3)]
  have e1: "record_current e1 k \<and> (stopped = None \<longrightarrow> ts_tokens (se_resident e1) = take hit input) \<and> (calm k \<longrightarrow> calm h)"
  proof (cases seed)
    case True
    then show ?thesis using seed_prefix_current [OF _ assms(1)] assms(3,4) shape by simp
  qed (use assms(1,4) shape in simp)
  moreover have "record_current e' h' \<and> (calm h' \<longrightarrow> calm k)" if "stopped = None"
    using prefix_request_current [OF assms(5) [OF that]] e1 that shape assms(3) by simp
  ultimately show ?thesis by blast
qed

lemma request_internal_route:
  assumes "request_internal env force e input capacity h = (res, e', h')"
  obtains (none) "quiet h h'" "e' = e"
  | (ordinary) k res1 l where "quiet h k" "input \<noteq> []" "ordinary_request env e input capacity k = (res1, e', l)" "quiet l h'"
  | (prefix) g hit seed k stopped e1 ns l res2 e2 m where "quiet h k" "fst (select_prefix env e input capacity g) = (hit, seed)" "hit \<noteq> 0"
      "(if seed then seed_prefix env e input hit k else (None, e, 0, k)) = (stopped, e1, ns, l)"
      "prefix_request env e1 input hit capacity l = (res2, e2, m)"
      "stopped \<noteq> None \<and> e' = e1 \<and> h' = l \<or> stopped = None \<and> e' = e2 \<and> quiet m h'"
proof (cases "se_engine e = nullptr \<or> input = [] \<or> capacity = 0")
  case False
  obtain classifier exact g where se: "select_exact env force input capacity h = ((classifier, exact), g)" by (metis surj_pair)
  obtain hit seed k where sp: "select_prefix env e input capacity g = ((hit, seed), k)" by (metis surj_pair)
  have g: "quiet h g" "quiet g k"
    using quiet_select_exact [of h env force input capacity] quiet_select_prefix [of g env e input capacity] se sp by simp_all
  consider "exact" | "\<not> exact" "hit = 0" | "\<not> exact" "hit \<noteq> 0" by blast
  then show thesis
  proof cases
    case 1
    then have "quiet h h'" "e' = e"
      using assms False quiet_trans [OF quiet_exact_route g(1)] by (auto simp: request_internal_def se case_prod_beta)
    then show thesis by (rule none)
  next
    case 2
    obtain res1 e1 l where o: "ordinary_request env e input capacity k = (res1, e1, l)" by (metis prod_cases3)
    have "h' = snd (finish_request env e1 (fst res1) (snd res1) 0 l)" "e' = e1"
      using assms False 2 by (auto simp: request_internal_def se sp o case_prod_beta)
    then show thesis using ordinary [OF quiet_trans [OF g(2,1)]] o quiet_finish_request False by simp
  next
    case 3
    obtain stopped e1 ns l where sd: "(if seed then seed_prefix env e input hit k else (None, e, 0, k)) = (stopped, e1, ns, l)"
      by (metis prod_cases4)
    obtain res2 e2 m where pr: "prefix_request env e1 input hit capacity l = (res2, e2, m)" by (metis prod_cases3)
    have "stopped \<noteq> None \<and> e' = e1 \<and> h' = l \<or> stopped = None \<and> e' = e2 \<and> quiet m h'"
      using assms False 3 by (auto simp: request_internal_def se sp sd pr split: option.splits sum.splits prod.splits dest: quiet_finishD)
    moreover have "fst (select_prefix env e input capacity g) = (hit, seed)" by (simp add: sp)
    ultimately show thesis using prefix [OF quiet_trans [OF g(2,1)] _ 3(2) sd pr] by blast
  qed
qed (use assms none in \<open>auto simp: request_internal_def\<close>)

lemma request_internal_current:
  assumes "request_internal env force e input capacity h = (res, e', h')" "record_current e h"
    and "calm h'" "length input \<le> (2 ^ 64 - 1) div 4"
  shows "record_current e' h' \<and> calm h"
  using assms(1)
proof (cases rule: request_internal_route)
  case none
  then show ?thesis using assms(2,3) record_current_quiet [of h h' e' e] by (auto simp: quiet_def)
next
  case (ordinary k res1 l)
  have "record_current e k" "calm k \<longrightarrow> calm h" using ordinary(1) assms(2) by (auto simp: quiet_def record_current_def)
  then show ?thesis
    using ordinary_request_current [OF ordinary(3)] ordinary(2,4) assms(3,4) record_current_quiet [of l h' e' e'] by (auto simp: quiet_def)
next
  case (prefix g hit seed k stopped e1 ns l res2 e2 m)
  have k: "record_current e k" "calm k \<longrightarrow> calm h" using prefix(1) assms(2) by (auto simp: quiet_def record_current_def)
  show ?thesis
    using prefix_route_current [OF k(1) prefix(2-5)] prefix(6) k(2) assms(3) record_current_quiet [of m h' e' e2] by (auto simp: quiet_def)
qed

lemma seed_prefix_calm: "seed_prefix env e input hit h = (stopped, e', ns, h') \<Longrightarrow> calm h' \<Longrightarrow> calm h"
  using quiet_store_tokens [of "(EngineRequest (se_engine e) (take hit input), env h (EngineRequest (se_engine e) (take hit input))) # h"
      env "se_resident e" "take hit input"]
  by (auto simp: seed_prefix_def Let_def case_prod_beta quiet_def split: if_splits)

lemma prefix_request_calm:
  assumes "prefix_request env e input hit capacity h = (res, e', h')" "calm h'"
  shows "calm h"
proof -
  let ?m = "BCalloc ''qrt_qwen36_resident_prefix_cache_result_v1_t''"
  let ?c = "EnginePrefixStream (se_engine e) input hit capacity"
  define f where "f = (?m, env h ?m) # h"
  define g where "g = (?c, env f ?c) # f"
  have calm: "calm g = calm h" "calm f = calm h" by (simp_all add: g_def f_def)
  have "h' = f \<or> quiet g h'"
    using assms(1) quiet_free [OF quiet_remember_request [of g env e input]] quiet_free [OF quiet_refl, of g]
    by (auto simp: prefix_request_def Let_def case_prod_beta f_def [symmetric] g_def [symmetric] split: if_splits)
  then show ?thesis using assms(2) calm by (auto simp: quiet_def)
qed

lemma ordinary_request_calm:
  assumes "ordinary_request env e input capacity h = (res, e', h')" "calm h'"
  shows "calm h"
proof -
  let ?c = "EngineStream (se_engine e) input capacity"
  define g where "g = (?c, env h ?c) # h"
  obtain e1 k where rm: "remember_request env e input g = (e1, k)" by (metis surj_pair)
  have "quiet g k" "quiet k (snd (snd (store_tokens env (se_resident e1) input k)))"
    using quiet_remember_request [of g env e input] rm quiet_store_tokens by simp_all
  then have "calm g" using assms by (auto simp: ordinary_request_def Let_def case_prod_beta g_def [symmetric] rm quiet_def split: if_splits)
  then show ?thesis by (simp add: g_def)
qed

lemma request_internal_calm:
  assumes "request_internal env force e input capacity h = (res, e', h')" "calm h'"
  shows "calm h"
  using assms(1)
proof (cases rule: request_internal_route)
  case none
  then show ?thesis using assms(2) by (auto simp: quiet_def)
next
  case (ordinary k res1 l)
  then show ?thesis using assms(2) ordinary_request_calm [OF ordinary(3)] by (auto simp: quiet_def)
next
  case (prefix g hit seed k stopped e1 ns l res2 e2 m)
  have "calm l" using prefix(6) assms(2) prefix_request_calm [OF prefix(5)] by (auto simp: quiet_def)
  then have "calm k" using prefix(4) seed_prefix_calm by (auto split: if_splits)
  then show ?thesis using prefix(1) by (auto simp: quiet_def)
qed

text \<open>Requests one after the other.\<close>

fun serve :: "bridge_env \<Rightarrow> bool \<times> u32 list \<times> nat \<Rightarrow> server_engine \<times> bridge_hist \<Rightarrow> server_engine \<times> bridge_hist" where
  "serve env (force, input, capacity) (e, h) = snd (request_internal env force e input capacity h)"

lemma serve_calm: "fold (serve env) requests (e, h) = (e', h') \<Longrightarrow> calm h' \<Longrightarrow> calm h"
proof (induction requests arbitrary: e h)
  case (Cons q requests)
  obtain force input capacity where q: "q = (force, input, capacity)" by (metis prod_cases3)
  obtain res e1 h1 where r: "request_internal env force e input capacity h = (res, e1, h1)" by (metis prod_cases3)
  show ?case using Cons q r request_internal_calm [OF r] by simp
qed simp

lemma serve_current:
  assumes "fold (serve env) requests (e, h) = (e', h')" "record_current e h" "calm h'"
    and "list_all (\<lambda>(force, input, capacity). length input \<le> (2 ^ 64 - 1) div 4) requests"
  shows "record_current e' h'"
  using assms
proof (induction requests arbitrary: e h)
  case (Cons q requests)
  obtain force input capacity where q: "q = (force, input, capacity)" by (metis prod_cases3)
  obtain res e1 h1 where r: "request_internal env force e input capacity h = (res, e1, h1)" by (metis prod_cases3)
  have rest: "fold (serve env) requests (e1, h1) = (e', h')" using Cons.prems(1) q r by simp
  have "record_current e1 h1"
    using request_internal_current [OF r Cons.prems(2) serve_calm [OF rest Cons.prems(3)]] Cons.prems(4) q by simp
  then show ?case using Cons.IH [OF rest _ Cons.prems(3)] Cons.prems(4) by simp
qed simp

text \<open>
  C10. The bridge's record of the resident prefix is right: as long as no ordinary request of the engine fails and no reallocation
  is refused, any sequence of requests (on any route, with any outcome) keeps the record, if it is not empty, equal to the tokens that the engine
  prefilled last, and every prefix request that is made names a proper prefix of its input that is resident.
\<close>

theorem prefix_record_current:
  assumes "fold (serve env) requests (e, h) = (e', h')" "record_current e h" "calm h'"
    and "list_all (\<lambda>(force, input, capacity). length input \<le> (2 ^ 64 - 1) div 4) requests"
  shows "prefix_calls_current h' \<and> (ts_tokens (se_resident e') = [] \<or> last_prefill h' = Some (ts_tokens (se_resident e')))"
  using serve_current [OF assms] by (auto simp: record_current_def)

section \<open>A recorded prefix is chosen again\<close>

lemma finish_request_status: "finish_request env e status outputs seed_ns h = ((STATUS_OK, r), h') \<Longrightarrow> status = STATUS_OK"
  by (auto simp: finish_request_def Let_def case_prod_beta split: if_splits)

lemma choose_prefix_resident:
  assumes "prefix_shape_supported (length input) (length resident) capacity" "minimum \<le> length resident" "take (length resident) input = resident"
  shows "choose_prefix minimum resident previous input capacity = (length resident, False)"
proof -
  have "resident \<noteq> []" using assms(1) by (auto simp: prefix_shape_supported_def Let_def)
  then show ?thesis using assms by (simp add: choose_prefix_def)
qed

section \<open>Witnesses\<close>

definition plain_reply :: bridge_reply where
  "plain_reply = \<lparr>br_ok = True, br_num = 0, br_status = STATUS_OK, br_text = None, br_tokens = [],
     br_exact = \<lparr>er_ok = True, er_status = 0, er_completed = True, er_batch_size = 1, er_output_token_id = 0,
       er_verifier_input_token_count = 0, er_input_digest = 0, er_total_elapsed_ns = 7, er_failure_stage = [], er_failure = []\<rparr>,
     br_pass = True, br_ttft_ns = 0, br_tpot_ns = 0, br_tpot_samples = 0, br_failure_stage = [], br_failure = []\<rparr>"

text \<open>
  An engine that fails the ordinary request for the token 7, serves a prefix exactly when it is resident, and
  whose exact tokens are 100, then 35, a letter.
\<close>

fun answering_engine :: bridge_env where
  "answering_engine h (Getenv name) = plain_reply\<lparr>br_text := if name = ''QRT_SERVER_PREFIX_CACHE_MIN_TOKENS'' then Some ''1'' else None\<rparr>"
| "answering_engine h (ExactFirstToken e tokens digest) = plain_reply\<lparr>br_exact := (br_exact plain_reply)
     \<lparr>er_output_token_id := (if length tokens = 1 then 100 else 35), er_verifier_input_token_count := of_nat (length tokens),
      er_input_digest := digest\<rparr>\<rparr>"
| "answering_engine h (EngineStream e tokens capacity) =
     plain_reply\<lparr>br_status := (if tokens = [7] then STATUS_UNSUPPORTED else STATUS_OK), br_tokens := replicate capacity 1\<rparr>"
| "answering_engine h (EngineRequest e tokens) = plain_reply\<lparr>br_tokens := [1]\<rparr>"
| "answering_engine h (EnginePrefixStream e tokens hit capacity) =
     plain_reply\<lparr>br_status := (if last_prefill h = Some (take hit tokens) then STATUS_OK else STATUS_UNSUPPORTED),
       br_tokens := replicate capacity 1\<rparr>"
| "answering_engine h _ = plain_reply\<lparr>br_num := of_nat (Suc (length h))\<rparr>"

definition fresh_server :: server_engine where
  "fresh_server = \<lparr>se_self = 1, se_engine = 2, se_resident = empty_store, se_previous = empty_store, se_module = 3\<rparr>"

definition warm_server :: server_engine where
  "warm_server = fresh_server\<lparr>se_resident := \<lparr>ts_ptr = 4, ts_tokens = [5], ts_capacity = 1\<rparr>\<rparr>"

lemma exact_demo: "fst (exact_route answering_engine fresh_server True [9] 3 []) =
    (STATUS_OK, [100, 35], zero_request_report\<lparr>rr_ttft_ns := 7, rr_tpot_ns := 7, rr_tpot_sample_count := 1, rr_output_token_count := 2\<rparr>)"
  by code_simp

theorem exact_route_streams_witness:
  "\<exists>h'. exact_route answering_engine fresh_server True [9] 3 [] =
     ((STATUS_OK, [100, 35], zero_request_report\<lparr>rr_ttft_ns := 7, rr_tpot_ns := 7, rr_tpot_sample_count := 1, rr_output_token_count := 2\<rparr>), h') \<and>
   events h' = [(False, 0, 100), (True, 1, 35)] \<and> exact_steps h' = [([9], 100), ([9, 100], 35)]"
proof -
  obtain h' where h': "exact_route answering_engine fresh_server True [9] 3 [] =
      ((STATUS_OK, [100, 35], zero_request_report\<lparr>rr_ttft_ns := 7, rr_tpot_ns := 7, rr_tpot_sample_count := 1, rr_output_token_count := 2\<rparr>), h')"
    using exact_demo by (metis prod.collapse)
  show ?thesis using h' exact_route_streams [OF h'] by (simp add: events_def [of "[]"] exact_steps_def [of "[]"])
qed

theorem prefix_record_current_witness:
  "case fold (serve answering_engine) [(False, [5], 1), (False, [5, 6], 2)] (fresh_server, []) of
     (e', h') \<Rightarrow> prefix_calls_current h' \<and> ts_tokens (se_resident e') = [5] \<and> last_prefill h' = Some [5]"
proof -
  let ?r = "fold (serve answering_engine) [(False, [5], 1), (False, [5, 6], 2)] (fresh_server, [])"
  obtain e' h' where r: "?r = (e', h')" by (metis surj_pair)
  have "calm (snd ?r) \<and> ts_tokens (se_resident (fst ?r)) = [5]" by code_simp
  then have c: "calm h'" "ts_tokens (se_resident e') = [5]" by (simp_all only: r fst_conv snd_conv)
  have w: "record_current fresh_server []" by (simp add: record_current_def fresh_server_def empty_store_def)
  have l: "list_all (\<lambda>(force :: bool, input :: u32 list, capacity :: nat). length input \<le> (2 ^ 64 - 1) div 4) [(False, [5], 1), (False, [5, 6], 2)]" by simp
  show ?thesis using prefix_record_current [OF r w c(1) l] c(2) unfolding r by simp
qed

end
