(* ===== verification/Prefix_Engine.thy ===== *)
theory Prefix_Engine
  imports Request_Serialization Server_Bridge
begin

text \<open>
  The resident prefix of \<^verbatim>\<open>native/src/qrt.c\<close> (Windows branches): the identity of the tokens whose state the
  whole provider keeps, requests that continue from it, the stream of tokens that they emit, the reset, and the
  request that seeds the prefix when the identity does not match. The whole provider, the routes of an ordinary request, the heap,
  the caller's callback and the clock answer through an environment. Fields that only hold measured times for the
  engine report are left out.
\<close>

section \<open>Results and requests of the provider\<close>

text \<open>\<open>qrt_qwen36_resident_prefix_cache_result_v1_t\<close>. \<open>abi_ok\<close> stands for the size and version fields; arrays are functions of the index.\<close>

record prefix_result =
  xr_abi_ok :: bool
  xr_status :: int
  xr_completed :: bool
  xr_batch_size :: u32
  xr_provider_invoked :: bool
  xr_exact_prefix_match :: bool
  xr_copy_on_write :: bool
  xr_state_restored :: bool
  xr_prefix_token_count :: u32
  xr_suffix_token_count :: u32
  xr_output_token_capacity :: u32
  xr_output_token_count :: u32
  xr_teacher_count :: u32
  xr_base_committed :: u32
  xr_mutated_committed :: u32
  xr_restored_committed :: u32
  xr_output_timing_count :: u32
  xr_session_generation :: u64
  xr_prompt_digest :: u64
  xr_input_digest :: u64
  xr_suffix_digest :: u64
  xr_teacher_digest :: u64
  xr_output_digest :: u64
  xr_shadow_bytes :: u64
  xr_decode_elapsed_ns :: u64
  xr_ttft_elapsed_ns :: u64
  xr_tpot_elapsed_ns :: u64
  xr_total_elapsed_ns :: u64
  xr_tpot_sample_count :: u64
  xr_teacher_tokens :: "nat \<Rightarrow> u32"
  xr_output_tokens :: "nat \<Rightarrow> u32"
  xr_step_ns :: "nat \<Rightarrow> u64"
  xr_end_ns :: "nat \<Rightarrow> u64"
  xr_failure_stage :: string
  xr_failure :: string

record prefix_provider_request =
  pr_ignore_eos :: bool
  pr_prefix_token_count :: u32
  pr_suffix_token_count :: u32
  pr_output_token_capacity :: u32
  pr_session_generation :: u64
  pr_prompt_digest :: u64
  pr_suffix_digest :: u64
  pr_suffix_tokens :: "u32 list"
  pr_input_token_count :: u32
  pr_input_digest :: u64
  pr_input_tokens :: "u32 list"
  pr_emits :: bool

record reset_request =
  zq_session_valid :: bool
  zq_prefix_token_count :: u32
  zq_session_generation :: u64
  zq_prompt_digest :: u64

text \<open>\<open>qrt_qwen36_resident_prefix_cache_reset_result_v1_t\<close>, the fields that the provider fills and those of the core.\<close>

record reset_result =
  zr_abi_ok :: bool
  zr_status :: int
  zr_completed :: bool
  zr_provider_invoked :: bool
  zr_provider_completed :: bool
  zr_owner_match :: bool
  zr_idempotent :: u32
  zr_core_valid_before :: bool
  zr_core_valid_after :: bool
  zr_valid_before :: u32
  zr_valid_after :: u32
  zr_core_tokens_before :: u32
  zr_core_tokens_after :: u32
  zr_tokens_before :: u32
  zr_tokens_after :: u32
  zr_committed_after :: u32
  zr_weights_retained :: bool
  zr_core_generation_before :: u64
  zr_core_generation_after :: u64
  zr_generation_before :: u64
  zr_generation_after :: u64
  zr_clock_before :: u64
  zr_clock_after :: u64
  zr_core_digest_before :: u64
  zr_core_digest_after :: u64
  zr_digest_before :: u64
  zr_digest_after :: u64
  zr_bytes_before :: u64
  zr_bytes_after :: u64
  zr_bytes_released :: u64
  zr_reset_elapsed_ns :: u64
  zr_total_elapsed_ns :: u64
  zr_failure_stage :: string
  zr_failure :: string

text \<open>
  How far an ordinary request came: not to the provider's prefill, to a prefill that failed or whose result was rejected, or to
  an accepted result, with what it says of the resident session.
\<close>

datatype prefill_progress =
    BeforeProvider
  | ProviderFailed
  | ProviderDone bool u32 u64 u64 u32

text \<open>A token that the provider hands to the stream: session, index, token and times.\<close>

type_synonym emission = "u64 \<times> u32 \<times> u32 \<times> u64 \<times> u64"

datatype prefix_call =
    LockWait u32
  | BackendLoad
  | IgnoreEos
  | ProviderPrefix prefix_provider_request
  | ProviderReset reset_request
  | OrdinaryPrefill "u32 list" nat
  | PRealloc u64 u64
  | PFree u64
  | RequestElapsed
  | TokenCallback bool nat u32 u64 u64 u64

record prefix_reply =
  px_ok :: bool
  px_num :: u64
  px_text :: string
  px_export :: bool
  px_result :: prefix_result
  px_reset :: reset_result
  px_status :: qrt_status
  px_tokens :: "u32 list"
  px_progress :: prefill_progress
  px_failure_stage :: string
  px_failure :: string
  px_emissions :: "emission list"
  px_early_emissions :: "(u32 \<times> u64) list"

type_synonym prefix_env = "(prefix_call, prefix_reply) environment"
type_synonym prefix_hist = "(prefix_call, prefix_reply) history"

primrec status_code :: "qrt_status \<Rightarrow> int" where
  "status_code STATUS_OK = 0"
| "status_code STATUS_INVALID_ARGUMENT = 1"
| "status_code STATUS_OUT_OF_MEMORY = 2"
| "status_code STATUS_NOT_IMPLEMENTED = 3"
| "status_code STATUS_UNSUPPORTED = 4"
| "status_code STATUS_IO_ERROR = 5"
| "status_code STATUS_PARSE_ERROR = 6"

definition zero_result :: prefix_result where
  "zero_result = \<lparr>xr_abi_ok = False, xr_status = 0, xr_completed = False, xr_batch_size = 0, xr_provider_invoked = False,
     xr_exact_prefix_match = False, xr_copy_on_write = False, xr_state_restored = False, xr_prefix_token_count = 0,
     xr_suffix_token_count = 0, xr_output_token_capacity = 0, xr_output_token_count = 0, xr_teacher_count = 0,
     xr_base_committed = 0, xr_mutated_committed = 0, xr_restored_committed = 0, xr_output_timing_count = 0,
     xr_session_generation = 0, xr_prompt_digest = 0, xr_input_digest = 0, xr_suffix_digest = 0, xr_teacher_digest = 0,
     xr_output_digest = 0, xr_shadow_bytes = 0, xr_decode_elapsed_ns = 0, xr_ttft_elapsed_ns = 0, xr_tpot_elapsed_ns = 0,
     xr_total_elapsed_ns = 0, xr_tpot_sample_count = 0, xr_teacher_tokens = (\<lambda>_. 0), xr_output_tokens = (\<lambda>_. 0),
     xr_step_ns = (\<lambda>_. 0), xr_end_ns = (\<lambda>_. 0), xr_failure_stage = [], xr_failure = []\<rparr>"

definition prefix_result_init :: prefix_result where
  "prefix_result_init = zero_result\<lparr>xr_abi_ok := True, xr_status := status_code STATUS_INVALID_ARGUMENT\<rparr>"

definition zero_reset_result :: reset_result where
  "zero_reset_result = \<lparr>zr_abi_ok = False, zr_status = 0, zr_completed = False, zr_provider_invoked = False, zr_provider_completed = False,
     zr_owner_match = False, zr_idempotent = 0, zr_core_valid_before = False, zr_core_valid_after = False, zr_valid_before = 0,
     zr_valid_after = 0, zr_core_tokens_before = 0, zr_core_tokens_after = 0, zr_tokens_before = 0, zr_tokens_after = 0,
     zr_committed_after = 0, zr_weights_retained = False, zr_core_generation_before = 0, zr_core_generation_after = 0,
     zr_generation_before = 0, zr_generation_after = 0, zr_clock_before = 0, zr_clock_after = 0, zr_core_digest_before = 0,
     zr_core_digest_after = 0, zr_digest_before = 0, zr_digest_after = 0, zr_bytes_before = 0, zr_bytes_after = 0,
     zr_bytes_released = 0, zr_reset_elapsed_ns = 0, zr_total_elapsed_ns = 0, zr_failure_stage = [], zr_failure = []\<rparr>"

definition reset_result_init :: reset_result where
  "reset_result_init = zero_reset_result\<lparr>zr_abi_ok := True, zr_status := status_code STATUS_INVALID_ARGUMENT\<rparr>"

section \<open>The engine\<close>

text \<open>
  The tokens of the identity are the first \<open>pc_token_count\<close> of the block at \<open>pc_ptr\<close>, which holds \<open>pc_buffer\<close>.
\<close>

record prefix_engine =
  pe_ready :: bool
  pe_manifest_loaded :: bool
  pe_lock :: serialization
  pc_session_valid :: bool
  pc_ptr :: u64
  pc_buffer :: "u32 list"
  pc_token_count :: nat
  pc_token_capacity :: nat
  pc_generation :: u64
  pc_prompt_digest :: u64
  st_active :: bool
  st_callback :: bool
  st_last_elapsed_ns :: u64
  st_callback_count :: nat
  st_emitted :: "nat \<Rightarrow> u32"
  st_cancelled :: bool
  st_contract_failed :: bool
  pe_failure_stage :: string
  pe_failure :: string

definition set_request_failure :: "string \<Rightarrow> string \<Rightarrow> prefix_engine \<Rightarrow> prefix_engine" where
  "set_request_failure stage message e = e\<lparr>pe_failure_stage := c_copy 64 stage, pe_failure := c_copy 192 message\<rparr>"

definition prefix_result_failure ::
  "prefix_engine \<Rightarrow> prefix_result \<Rightarrow> qrt_status \<Rightarrow> string \<Rightarrow> string \<Rightarrow> qrt_status \<times> prefix_result \<times> prefix_engine" where
  "prefix_result_failure e r status stage message =
     (status,
      r\<lparr>xr_abi_ok := True, xr_status := status_code status, xr_completed := False,
        xr_failure_stage := c_copy 64 stage, xr_failure := c_copy 192 message\<rparr>,
      set_request_failure stage message e)"

definition reset_result_failure ::
  "prefix_engine \<Rightarrow> reset_result \<Rightarrow> qrt_status \<Rightarrow> string \<Rightarrow> string \<Rightarrow> qrt_status \<times> reset_result \<times> prefix_engine" where
  "reset_result_failure e r status stage message =
     (status,
      r\<lparr>zr_abi_ok := True, zr_status := status_code status, zr_completed := False,
        zr_failure_stage := c_copy 64 stage, zr_failure := c_copy 192 message\<rparr>,
      set_request_failure stage message e)"

definition prefix_free :: "prefix_env \<Rightarrow> u64 \<Rightarrow> prefix_hist \<Rightarrow> prefix_hist" where
  "prefix_free env p h = (if p = nullptr then h else snd (ask env (PFree p) h))"

text \<open>\<open>qrt_engine_clear_resident_prefix_cache_identity\<close>\<close>

definition clear_identity :: "prefix_env \<Rightarrow> bool \<Rightarrow> prefix_engine \<Rightarrow> prefix_hist \<Rightarrow> prefix_engine \<times> prefix_hist" where
  "clear_identity env release_token_storage e h =
     (let e = e\<lparr>pc_session_valid := False, pc_token_count := 0, pc_generation := 0, pc_prompt_digest := 0\<rparr>
      in if release_token_storage
         then (e\<lparr>pc_ptr := nullptr, pc_buffer := [], pc_token_capacity := 0\<rparr>, prefix_free env (pc_ptr e) h)
         else (e, h))"

section \<open>The token stream\<close>

text \<open>\<open>qrt_engine_emit_token_stream_event\<close>, with the time since the start of the request from the environment.\<close>

definition emit_event ::
  "prefix_env \<Rightarrow> bool \<Rightarrow> nat \<Rightarrow> u32 \<Rightarrow> u64 \<Rightarrow> u64 \<Rightarrow> prefix_engine \<Rightarrow> prefix_hist \<Rightarrow> bool \<times> prefix_engine \<times> prefix_hist" where
  "emit_event env decode output_index token step_ns provider_ns e h =
     (if \<not> st_active e then (True, e, h)
      else if \<not> st_callback e \<or> output_index \<noteq> st_callback_count e \<or> output_index \<ge> MAX_OUTPUT_TOKENS \<or> token \<ge> VOCAB_SIZE \<or>
              output_index = 0 \<and> decode \<or> output_index \<noteq> 0 \<and> \<not> decode
      then (False, e\<lparr>st_contract_failed := True\<rparr>, h)
      else
        let (r, h) = ask env RequestElapsed h;
            late = (output_index \<noteq> 0 \<and> px_num r \<le> st_last_elapsed_ns e)
        in if late \<and> st_last_elapsed_ns e = - 1 then (False, e\<lparr>st_contract_failed := True\<rparr>, h)
           else
             let elapsed = (if late then st_last_elapsed_ns e + 1 else px_num r);
                 e = e\<lparr>st_emitted := (st_emitted e)(output_index := token), st_last_elapsed_ns := elapsed,
                       st_callback_count := st_callback_count e + 1\<rparr>;
                 (cb, h) = ask env (TokenCallback decode output_index token step_ns elapsed provider_ns) h
             in if px_ok cb then (True, e, h) else (False, e\<lparr>st_cancelled := True\<rparr>, h))"

text \<open>\<open>qrt_qwen36_whole_provider_prefix_token_stream_bridge\<close>\<close>

definition prefix_stream_bridge ::
  "prefix_env \<Rightarrow> u64 \<Rightarrow> emission \<Rightarrow> prefix_engine \<Rightarrow> prefix_hist \<Rightarrow> bool \<times> prefix_engine \<times> prefix_hist" where
  "prefix_stream_bridge env expected_generation m e h =
     (case m of (generation, output_index, token, step_ns, end_ns) \<Rightarrow>
        if generation \<noteq> expected_generation \<or> unat output_index \<ge> MAX_OUTPUT_TOKENS
        then (False, e\<lparr>st_contract_failed := True\<rparr>, h)
        else emit_event env (output_index \<noteq> 0) (unat output_index) token step_ns end_ns e h)"

text \<open>\<open>qrt_qwen36_whole_provider_prefill_token_stream_bridge\<close>, without its counters: the token of a prefill, handed over before the prefill returns.\<close>

definition prefill_stream_bridge ::
  "prefix_env \<Rightarrow> u32 \<times> u64 \<Rightarrow> prefix_engine \<Rightarrow> prefix_hist \<Rightarrow> bool \<times> prefix_engine \<times> prefix_hist" where
  "prefill_stream_bridge env m e h = (case m of (token, step_ns) \<Rightarrow> emit_event env False 0 token step_ns 0 e h)"

text \<open>What the provider hands over during its call, in order.\<close>

fun deliver_tokens ::
  "('m \<Rightarrow> prefix_engine \<Rightarrow> prefix_hist \<Rightarrow> bool \<times> prefix_engine \<times> prefix_hist) \<Rightarrow> 'm list \<Rightarrow>
     prefix_engine \<Rightarrow> prefix_hist \<Rightarrow> prefix_engine \<times> prefix_hist" where
  "deliver_tokens bridge [] e h = (e, h)"
| "deliver_tokens bridge (m # ms) e h = (let (ok, e, h) = bridge m e h in deliver_tokens bridge ms e h)"

text \<open>Opening a stream, and comparing what was emitted with the output.\<close>

definition start_stream :: "prefix_engine \<Rightarrow> prefix_engine" where
  "start_stream e = e\<lparr>st_callback := True, st_last_elapsed_ns := 0, st_callback_count := 0, st_emitted := (\<lambda>_. 0),
     st_cancelled := False, st_contract_failed := False, st_active := True\<rparr>"

definition stream_matches :: "prefix_engine \<Rightarrow> u32 list \<Rightarrow> bool" where
  "stream_matches e outputs \<longleftrightarrow>
     \<not> st_cancelled e \<and> \<not> st_contract_failed e \<and> st_callback_count e = length outputs \<and>
     (\<forall>i < length outputs. st_emitted e i = outputs ! i)"

definition stop_stream :: "prefix_engine \<Rightarrow> prefix_engine" where
  "stop_stream e = e\<lparr>st_active := False, st_callback := False\<rparr>"

section \<open>Requests on the resident prefix\<close>

definition token_digest :: "u32 list \<Rightarrow> u64" where
  "token_digest tokens = fnv1a64_bytes (token_bytes tokens)"

definition prefix_shape_ok :: "prefix_engine \<Rightarrow> u32 list \<Rightarrow> nat \<Rightarrow> nat \<Rightarrow> bool \<Rightarrow> bool" where
  "prefix_shape_ok e input hit capacity stream \<longleftrightarrow>
     input \<noteq> [] \<and> hit \<noteq> 0 \<and> hit < length input \<and> hit \<le> 2 ^ 32 - 1 \<and> length input - hit \<le> MAX_SUFFIX_TOKENS \<and>
     capacity \<noteq> 0 \<and> capacity \<le> MAX_OUTPUT_TOKENS \<and> length input - hit + capacity - 1 \<le> MAX_TAIL_TOKENS \<and>
     (if stream then st_active e \<and> st_callback e else \<not> st_active e)"

definition prefix_identity_matches :: "prefix_engine \<Rightarrow> u32 list \<Rightarrow> nat \<Rightarrow> bool" where
  "prefix_identity_matches e input hit \<longleftrightarrow>
     pe_ready e \<and> pe_manifest_loaded e \<and> pc_session_valid e \<and> pc_ptr e \<noteq> nullptr \<and> pc_token_count e = hit \<and>
     take hit (pc_buffer e) = take hit input \<and> pc_generation e \<noteq> 0 \<and> pc_prompt_digest e = token_digest (take hit input)"

text \<open>The fields that are known before the provider is called.\<close>

definition described_result :: "u32 list \<Rightarrow> nat \<Rightarrow> nat \<Rightarrow> prefix_result" where
  "described_result input hit capacity =
     prefix_result_init\<lparr>xr_batch_size := 1, xr_prefix_token_count := of_nat hit, xr_suffix_token_count := of_nat (length input - hit),
       xr_output_token_capacity := of_nat capacity, xr_input_digest := token_digest input,
       xr_prompt_digest := token_digest (take hit input), xr_suffix_digest := token_digest (drop hit input)\<rparr>"

definition provider_request :: "bool \<Rightarrow> prefix_engine \<Rightarrow> u32 list \<Rightarrow> nat \<Rightarrow> nat \<Rightarrow> bool \<Rightarrow> prefix_provider_request" where
  "provider_request ignore_eos e input hit capacity stream =
     \<lparr>pr_ignore_eos = ignore_eos, pr_prefix_token_count = of_nat hit, pr_suffix_token_count = of_nat (length input - hit),
      pr_output_token_capacity = of_nat capacity, pr_session_generation = pc_generation e, pr_prompt_digest = pc_prompt_digest e,
      pr_suffix_digest = token_digest (drop hit input), pr_suffix_tokens = drop hit input, pr_input_token_count = of_nat (length input),
      pr_input_digest = token_digest input, pr_input_tokens = input, pr_emits = stream\<rparr>"

definition result_digest :: "nat \<Rightarrow> u32 \<Rightarrow> (nat \<Rightarrow> u32) \<Rightarrow> u64" where
  "result_digest limit n tokens = (if unat n \<le> limit then token_digest (map tokens [0..<unat n]) else 0)"

text \<open>The steps from the second token on: each ends after the one before, and lasts as long as it says.\<close>

fun decode_times_ok :: "(nat \<Rightarrow> u64) \<Rightarrow> (nat \<Rightarrow> u64) \<Rightarrow> nat list \<Rightarrow> u64 \<Rightarrow> u64 option" where
  "decode_times_ok steps ends [] previous = Some previous"
| "decode_times_ok steps ends (i # is) previous =
     (if steps i = 0 \<or> ends i \<le> previous \<or> ends i - previous \<noteq> steps i then None else decode_times_ok steps ends is (ends i))"

definition output_timing_valid :: "prefix_result \<Rightarrow> bool" where
  "output_timing_valid r \<longleftrightarrow>
     xr_output_token_count r \<noteq> 0 \<and> unat (xr_output_token_count r) \<le> MAX_OUTPUT_TOKENS \<and>
     xr_output_timing_count r = xr_output_token_count r \<and> xr_step_ns r 0 = xr_ttft_elapsed_ns r \<and> xr_end_ns r 0 = 0 \<and>
     (case decode_times_ok (xr_step_ns r) (xr_end_ns r) [1..<unat (xr_output_timing_count r)] 0 of
        None \<Rightarrow> False
      | Some last_end \<Rightarrow> last_end = xr_tpot_elapsed_ns r \<and> xr_tpot_elapsed_ns r \<le> xr_decode_elapsed_ns r)"

definition prefix_contract :: "prefix_engine \<Rightarrow> bool \<Rightarrow> prefix_result \<Rightarrow> u32 list \<Rightarrow> nat \<Rightarrow> nat \<Rightarrow> bool" where
  "prefix_contract e provider_ok r input hit capacity \<longleftrightarrow>
     provider_ok \<and> xr_abi_ok r \<and> xr_status r = 0 \<and> xr_completed r \<and> xr_provider_invoked r \<and> xr_copy_on_write r \<and>
     xr_state_restored r \<and> xr_batch_size r = 1 \<and> xr_prefix_token_count r = of_nat hit \<and>
     xr_suffix_token_count r = of_nat (length input - hit) \<and> xr_output_token_capacity r = of_nat capacity \<and>
     xr_output_token_count r = of_nat capacity \<and> xr_teacher_count r = xr_suffix_token_count r \<and> xr_base_committed r = 0 \<and>
     xr_mutated_committed r = xr_suffix_token_count r + xr_output_token_count r - 1 \<and> xr_restored_committed r = 0 \<and>
     xr_session_generation r = pc_generation e \<and> xr_prompt_digest r = token_digest (take hit input) \<and>
     xr_suffix_digest r = token_digest (drop hit input) \<and>
     xr_teacher_digest r = result_digest MAX_SUFFIX_TOKENS (xr_teacher_count r) (xr_teacher_tokens r) \<and>
     xr_output_digest r = result_digest MAX_OUTPUT_TOKENS (xr_output_token_count r) (xr_output_tokens r) \<and>
     xr_shadow_bytes r \<noteq> 0 \<and> xr_ttft_elapsed_ns r \<noteq> 0 \<and> xr_total_elapsed_ns r \<ge> xr_ttft_elapsed_ns r \<and>
     xr_tpot_sample_count r = of_nat (capacity - 1) \<and> output_timing_valid r"

type_synonym prefix_answer = "(qrt_status \<times> prefix_result \<times> u32 list) \<times> prefix_engine \<times> prefix_hist"

definition prefix_failed ::
  "prefix_engine \<Rightarrow> prefix_hist \<Rightarrow> prefix_result \<Rightarrow> qrt_status \<Rightarrow> string \<Rightarrow> string \<Rightarrow> prefix_answer" where
  "prefix_failed e h r status stage message =
     (case prefix_result_failure e r status stage message of (status, r, e) \<Rightarrow> ((status, r, []), e, h))"

text \<open>After the provider has returned.\<close>

definition prefix_conclude ::
  "prefix_env \<Rightarrow> prefix_engine \<Rightarrow> bool \<Rightarrow> prefix_result \<Rightarrow> u32 list \<Rightarrow> nat \<Rightarrow> nat \<Rightarrow> prefix_hist \<Rightarrow> prefix_answer" where
  "prefix_conclude env e provider_ok r input hit capacity h =
     (let r = r\<lparr>xr_failure_stage := c_copy 64 (xr_failure_stage r), xr_failure := c_copy 192 (xr_failure r)\<rparr>;
          out = r\<lparr>xr_input_digest := token_digest input, xr_exact_prefix_match := True\<rparr>
      in if \<not> prefix_contract e provider_ok r input hit capacity
         then
           let (e, h) = (if xr_state_restored r then (e, h) else clear_identity env False e h)
           in prefix_failed e h out STATUS_UNSUPPORTED
                (if xr_failure_stage r \<noteq> [] then xr_failure_stage r else ''resident_prefix_cache_provider_contract'')
                (if xr_failure r \<noteq> [] then xr_failure r
                 else ''whole-provider resident prefix-cache result violated its state, token, timing, or rollback contract'')
         else if \<not> list_all (\<lambda>i. xr_teacher_tokens r i < VOCAB_SIZE) [0..<unat (xr_teacher_count r)]
         then prefix_failed e h out STATUS_UNSUPPORTED ''resident_prefix_cache_teacher_token''
                ''whole-provider resident prefix-cache result returned an invalid teacher-forced token''
         else if \<not> list_all (\<lambda>i. xr_output_tokens r i < VOCAB_SIZE) [0..<unat (xr_output_token_count r)]
         then prefix_failed e h out STATUS_UNSUPPORTED ''resident_prefix_cache_output_token''
                ''whole-provider resident prefix-cache result returned an invalid output token''
         else ((STATUS_OK, out, map (xr_output_tokens r) [0..<capacity]), e, h))"

text \<open>\<open>qrt_engine_request_tokens_prefix_v1_unlocked\<close>\<close>

definition prefix_unlocked ::
  "prefix_env \<Rightarrow> prefix_engine \<Rightarrow> u32 list \<Rightarrow> nat \<Rightarrow> nat \<Rightarrow> bool \<Rightarrow> prefix_hist \<Rightarrow> prefix_answer" where
  "prefix_unlocked env e input hit capacity stream h =
     (if \<not> prefix_shape_ok e input hit capacity stream
      then prefix_failed e h prefix_result_init STATUS_INVALID_ARGUMENT ''resident_prefix_cache_request''
             ''resident prefix-cache request received an invalid token, prefix, output, or streaming shape''
      else if \<not> list_all (\<lambda>t. t < VOCAB_SIZE) input
      then prefix_failed e h prefix_result_init STATUS_INVALID_ARGUMENT ''resident_prefix_cache_token''
             ''resident prefix-cache request contains an out-of-vocabulary token''
      else
      let r = described_result input hit capacity
      in if \<not> prefix_identity_matches e input hit
         then prefix_failed e h r STATUS_UNSUPPORTED ''resident_prefix_cache_identity''
                ''resident prefix-cache request does not exactly match the live cached-prefix token identity''
         else
      let r = r\<lparr>xr_exact_prefix_match := True, xr_session_generation := pc_generation e\<rparr>;
          (b, h) = ask env BackendLoad h
      in if \<not> px_ok b \<or> \<not> px_export b
         then prefix_failed e h r STATUS_UNSUPPORTED ''resident_prefix_cache_provider''
                (if px_text b \<noteq> [] then px_text b else ''whole-provider DLL does not export resident prefix-cache v1'')
         else
      let (i, h) = ask env IgnoreEos h;
          e = set_request_failure [] [] e;
          (p, h) = ask env (ProviderPrefix (provider_request (px_ok i) e input hit capacity stream)) h;
          (e, h) = (if stream then deliver_tokens (prefix_stream_bridge env (pc_generation e)) (px_emissions p) e h else (e, h))
      in prefix_conclude env e (px_ok p) (px_result p) input hit capacity h)"

text \<open>A call between acquiring and releasing the engine's serialization.\<close>

definition serialized ::
  "prefix_env \<Rightarrow> u32 \<Rightarrow> u32 \<Rightarrow> (prefix_engine \<Rightarrow> prefix_hist \<Rightarrow> 'r \<times> prefix_engine \<times> prefix_hist) \<Rightarrow>
     (prefix_engine \<Rightarrow> prefix_hist \<Rightarrow> 'r \<times> prefix_engine \<times> prefix_hist) \<Rightarrow> prefix_engine \<Rightarrow> prefix_hist \<Rightarrow>
     'r \<times> prefix_engine \<times> prefix_hist" where
  "serialized env thread op refused body e h =
     (if \<not> rs_initialized (pe_lock e) then refused e h
      else
        let (w, h) = ask env (LockWait op) h
        in case serialization_acquire thread op (px_ok w) (px_num w) (pe_lock e) of
             None \<Rightarrow> refused e h
           | Some (guard, lock) \<Rightarrow>
               let (res, e, h) = body (e\<lparr>pe_lock := lock\<rparr>) h
               in (res, e\<lparr>pe_lock := serialization_release thread guard (pe_lock e)\<rparr>, h))"

definition request_tokens_prefix ::
  "prefix_env \<Rightarrow> u32 \<Rightarrow> u32 list \<Rightarrow> nat \<Rightarrow> nat \<Rightarrow> prefix_engine \<Rightarrow> prefix_hist \<Rightarrow> prefix_answer" where
  "request_tokens_prefix env thread input hit capacity =
     serialized env thread OPERATION_PREFIX
       (\<lambda>e h. prefix_failed e h prefix_result_init STATUS_UNSUPPORTED ''resident_prefix_cache_request_serialization''
                ''resident prefix-cache request could not acquire the per-engine serialization boundary'')
       (\<lambda>e h. prefix_unlocked env e input hit capacity False h)"

definition prefix_stream_unlocked ::
  "prefix_env \<Rightarrow> u32 list \<Rightarrow> nat \<Rightarrow> nat \<Rightarrow> prefix_engine \<Rightarrow> prefix_hist \<Rightarrow> prefix_answer" where
  "prefix_stream_unlocked env input hit capacity e h =
     (if st_active e
      then prefix_failed e h prefix_result_init STATUS_INVALID_ARGUMENT ''resident_prefix_stream_request''
             ''resident prefix stream requires an engine, callback, and idle stream state''
      else
        let ((status, r, outputs), e, h) = prefix_unlocked env (start_stream e) input hit capacity True h;
            e = e\<lparr>st_active := False\<rparr>
        in if status = STATUS_OK \<and> \<not> stream_matches e outputs
           then (case prefix_result_failure (e\<lparr>st_contract_failed := True\<rparr>) r STATUS_UNSUPPORTED ''resident_prefix_stream_completion_contract''
                        ''resident prefix stream callbacks did not exactly match the completed output and timing sequence'' of
                   (status, r, e) \<Rightarrow> ((status, r, outputs), stop_stream e, h))
           else ((status, r, outputs), stop_stream e, h))"

definition request_tokens_prefix_stream ::
  "prefix_env \<Rightarrow> u32 \<Rightarrow> u32 list \<Rightarrow> nat \<Rightarrow> nat \<Rightarrow> prefix_engine \<Rightarrow> prefix_hist \<Rightarrow> prefix_answer" where
  "request_tokens_prefix_stream env thread input hit capacity =
     serialized env thread OPERATION_STREAM
       (\<lambda>e h. prefix_failed e h prefix_result_init STATUS_UNSUPPORTED ''resident_prefix_stream_serialization''
                ''resident prefix stream could not acquire the per-engine serialization boundary'')
       (prefix_stream_unlocked env input hit capacity)"

section \<open>Reset\<close>

text \<open>The identity is complete or empty.\<close>

definition identity_consistent :: "prefix_engine \<Rightarrow> bool" where
  "identity_consistent e \<longleftrightarrow>
     (if pc_session_valid e
      then pc_ptr e \<noteq> nullptr \<and> pc_token_count e \<noteq> 0 \<and> pc_token_count e \<le> 2 ^ 32 - 1 \<and> pc_generation e \<noteq> 0 \<and> pc_prompt_digest e \<noteq> 0
      else pc_token_count e = 0 \<and> pc_generation e = 0 \<and> pc_prompt_digest e = 0)"

definition reset_request_of :: "prefix_engine \<Rightarrow> reset_request" where
  "reset_request_of e = \<lparr>zq_session_valid = pc_session_valid e, zq_prefix_token_count = of_nat (pc_token_count e),
     zq_session_generation = pc_generation e, zq_prompt_digest = pc_prompt_digest e\<rparr>"

definition reset_contract :: "reset_request \<Rightarrow> bool \<Rightarrow> reset_result \<Rightarrow> bool" where
  "reset_contract q provider_ok z \<longleftrightarrow>
     provider_ok \<and> zr_abi_ok z \<and> zr_status z = 0 \<and> zr_completed z \<and> zr_provider_invoked z \<and> zr_provider_completed z \<and>
     zr_owner_match z \<and> zr_idempotent z = (if zq_session_valid q then 0 else 1) \<and>
     zr_valid_before z = (if zq_session_valid q then 1 else 0) \<and> zr_valid_after z = 0 \<and>
     zr_tokens_before z = zq_prefix_token_count q \<and> zr_tokens_after z = 0 \<and> zr_committed_after z = 0 \<and>
     zr_generation_before z = zq_session_generation q \<and> zr_generation_after z = 0 \<and>
     zr_digest_before z = zq_prompt_digest q \<and> zr_digest_after z = 0 \<and> zr_clock_after z = zr_clock_before z \<and>
     zr_bytes_after z = 0 \<and> zr_bytes_released z = zr_bytes_before z \<and> (zq_session_valid q \<longrightarrow> zr_bytes_before z > 0) \<and>
     zr_weights_retained z \<and> zr_reset_elapsed_ns z \<le> zr_total_elapsed_ns z"

definition core_before :: "prefix_engine \<Rightarrow> reset_result \<Rightarrow> reset_result" where
  "core_before e z = z\<lparr>zr_core_valid_before := pc_session_valid e, zr_core_tokens_before := of_nat (pc_token_count e),
     zr_core_generation_before := pc_generation e, zr_core_digest_before := pc_prompt_digest e\<rparr>"

definition core_after :: "prefix_engine \<Rightarrow> reset_result \<Rightarrow> reset_result" where
  "core_after e z = z\<lparr>zr_core_valid_after := pc_session_valid e, zr_core_tokens_after := of_nat (pc_token_count e),
     zr_core_generation_after := pc_generation e, zr_core_digest_after := pc_prompt_digest e\<rparr>"

type_synonym reset_answer = "(qrt_status \<times> reset_result) \<times> prefix_engine \<times> prefix_hist"

definition reset_failed ::
  "prefix_engine \<Rightarrow> prefix_hist \<Rightarrow> reset_result \<Rightarrow> qrt_status \<Rightarrow> string \<Rightarrow> string \<Rightarrow> reset_answer" where
  "reset_failed e h z status stage message =
     (case reset_result_failure e z status stage message of (status, z, e) \<Rightarrow> ((status, z), e, h))"

text \<open>\<open>qrt_engine_reset_resident_prefix_cache_v1_unlocked\<close>; the caller's elapsed time replaces a total of 0 and comes from the environment.\<close>

definition reset_unlocked :: "prefix_env \<Rightarrow> prefix_engine \<Rightarrow> prefix_hist \<Rightarrow> reset_answer" where
  "reset_unlocked env e h =
     (if \<not> pe_ready e \<or> \<not> pe_manifest_loaded e \<or> st_active e
      then reset_failed e h reset_result_init STATUS_INVALID_ARGUMENT ''resident_prefix_cache_reset_request''
             ''resident prefix-cache reset requires a ready non-streaming engine''
      else if \<not> identity_consistent e
      then reset_failed e h reset_result_init STATUS_UNSUPPORTED ''resident_prefix_cache_reset_core_identity''
             ''resident prefix-cache core identity is internally inconsistent''
      else
      let q = reset_request_of e;
          (b, h) = ask env BackendLoad h
      in if \<not> px_ok b \<or> \<not> px_export b
         then reset_failed e h (core_before e reset_result_init) STATUS_UNSUPPORTED ''resident_prefix_cache_reset_provider''
                (if px_text b \<noteq> [] then px_text b else ''whole-provider DLL does not export resident prefix-cache reset v1'')
         else
      let e = set_request_failure [] [] e;
          (p, h) = ask env (ProviderReset q) h;
          z = (px_reset p)\<lparr>zr_failure_stage := c_copy 64 (zr_failure_stage (px_reset p)), zr_failure := c_copy 192 (zr_failure (px_reset p))\<rparr>;
          out = core_before e z
      in if \<not> reset_contract q (px_ok p) z
         then
           let (e, h) = (if zr_provider_completed z \<and> zr_valid_after z = 0 \<and> zr_bytes_after z = 0 then clear_identity env True e h else (e, h))
           in reset_failed e h (core_after e out) STATUS_UNSUPPORTED
                (if zr_failure_stage z \<noteq> [] then zr_failure_stage z else ''resident_prefix_cache_reset_provider_contract'')
                (if zr_failure z \<noteq> [] then zr_failure z
                 else ''whole-provider resident prefix-cache reset violated its owner, identity, storage, or lifecycle contract'')
         else
           let (e, h) = clear_identity env True e h;
               out = (core_after e out)\<lparr>zr_total_elapsed_ns := (if zr_total_elapsed_ns z \<noteq> 0 then zr_total_elapsed_ns z else px_num p),
                        zr_status := status_code STATUS_OK, zr_completed := True\<rparr>
           in ((STATUS_OK, out), set_request_failure [] [] e, h))"

definition reset_prefix_cache :: "prefix_env \<Rightarrow> u32 \<Rightarrow> prefix_engine \<Rightarrow> prefix_hist \<Rightarrow> reset_answer" where
  "reset_prefix_cache env thread =
     serialized env thread OPERATION_PREFIX_RESET
       (\<lambda>e h. reset_failed e h reset_result_init STATUS_UNSUPPORTED ''resident_prefix_cache_reset_serialization''
                ''resident prefix-cache reset could not acquire the per-engine serialization boundary'')
       (\<lambda>e h. reset_unlocked env e h)"

section \<open>Ordinary requests\<close>

text \<open>Before the provider's prefill, the identity is emptied.\<close>

definition begin_prefill :: "prefix_engine \<Rightarrow> prefix_engine" where
  "begin_prefill e = e\<lparr>pc_session_valid := False, pc_token_count := 0, pc_generation := 0, pc_prompt_digest := 0\<rparr>"

text \<open>After an accepted prefill with one output token, its tokens become the identity, if there is room to keep them.\<close>

definition record_identity ::
  "prefix_env \<Rightarrow> u32 list \<Rightarrow> bool \<Rightarrow> u32 \<Rightarrow> u64 \<Rightarrow> u64 \<Rightarrow> u32 \<Rightarrow> prefix_engine \<Rightarrow> prefix_hist \<Rightarrow> prefix_engine \<times> prefix_hist" where
  "record_identity env input valid n generation digest outputs e h =
     (if valid \<and> n = of_nat (length input) \<and> generation \<noteq> 0 \<and> digest = token_digest input \<and> outputs = 1
      then
        let (e, h) =
          (if pc_token_capacity e < length input
           then let (r, h) = ask env (PRealloc (pc_ptr e) (of_nat (length input * 4))) h
                in if px_num r \<noteq> nullptr then (e\<lparr>pc_ptr := px_num r, pc_token_capacity := length input\<rparr>, h) else (e, h)
           else (e, h))
        in if pc_ptr e \<noteq> nullptr \<and> pc_token_capacity e \<ge> length input
           then (e\<lparr>pc_buffer := input @ drop (length input) (pc_buffer e), pc_session_valid := True, pc_token_count := length input,
                   pc_generation := generation, pc_prompt_digest := digest\<rparr>, h)
           else (e, h)
      else (e, h))"

text \<open>
  The prefill itself. With the early callback enabled the provider hands its token over during the call, between emptying
  and recording the identity; without an open stream the callback does nothing, as if it were not given.
\<close>

definition after_prefill ::
  "prefix_env \<Rightarrow> u32 list \<Rightarrow> prefill_progress \<Rightarrow> (u32 \<times> u64) list \<Rightarrow> prefix_engine \<Rightarrow> prefix_hist \<Rightarrow> prefix_engine \<times> prefix_hist" where
  "after_prefill env input progress early e h =
     (case progress of
        BeforeProvider \<Rightarrow> (e, h)
      | ProviderFailed \<Rightarrow> deliver_tokens (prefill_stream_bridge env) early (begin_prefill e) h
      | ProviderDone valid n generation digest outputs \<Rightarrow>
          let (e, h) = deliver_tokens (prefill_stream_bridge env) early (begin_prefill e) h
          in record_identity env input valid n generation digest outputs e h)"

text \<open>
  What \<open>qrt_engine_request_tokens\<close> does to the identity, to the stream and to the failure text. The routes that it takes before and after the
  prefill are in the reply, with the tokens handed over during the prefill and those after it.
\<close>

definition request_tokens ::
  "prefix_env \<Rightarrow> u32 list \<Rightarrow> nat \<Rightarrow> prefix_engine \<Rightarrow> prefix_hist \<Rightarrow> (qrt_status \<times> u32 list) \<times> prefix_engine \<times> prefix_hist" where
  "request_tokens env input capacity e h =
     (if input = [] \<or> capacity = 0 then ((STATUS_INVALID_ARGUMENT, []), e, h)
      else
        let (r, h) = ask env (OrdinaryPrefill input capacity) h;
            e = set_request_failure (px_failure_stage r) (px_failure r) e;
            (e, h) = after_prefill env input (px_progress r) (px_early_emissions r) e h;
            (e, h) = deliver_tokens (\<lambda>(generation, i, token, step_ns, end_ns). emit_event env (i \<noteq> 0) (unat i) token step_ns end_ns) (px_emissions r) e h
        in ((px_status r, px_tokens r), e, h))"

text \<open>\<open>qrt_engine_request_tokens_stream_v1\<close>\<close>

definition stream_unlocked ::
  "prefix_env \<Rightarrow> u32 list \<Rightarrow> nat \<Rightarrow> prefix_engine \<Rightarrow> prefix_hist \<Rightarrow> (qrt_status \<times> u32 list) \<times> prefix_engine \<times> prefix_hist" where
  "stream_unlocked env input capacity e h =
     (if input = [] \<or> capacity = 0 \<or> capacity > MAX_OUTPUT_TOKENS \<or> st_active e then ((STATUS_INVALID_ARGUMENT, []), e, h)
      else
        let ((status, outputs), e, h) = request_tokens env input capacity (start_stream e) h;
            e = e\<lparr>st_active := False\<rparr>
        in if status = STATUS_OK \<and> \<not> stream_matches e outputs
           then ((STATUS_UNSUPPORTED, outputs),
                 stop_stream (set_request_failure ''token_stream_completion_contract''
                   ''native token stream callbacks did not exactly match the completed output sequence'' (e\<lparr>st_contract_failed := True\<rparr>)), h)
           else ((status, outputs), stop_stream e, h))"

definition engine_request_stream ::
  "prefix_env \<Rightarrow> u32 \<Rightarrow> u32 list \<Rightarrow> nat \<Rightarrow> prefix_engine \<Rightarrow> prefix_hist \<Rightarrow> (qrt_status \<times> u32 list) \<times> prefix_engine \<times> prefix_hist" where
  "engine_request_stream env thread input capacity =
     serialized env thread OPERATION_STREAM
       (\<lambda>e h. ((STATUS_UNSUPPORTED, []), set_request_failure ''token_stream_serialization''
                ''native token stream could not acquire the per-engine serialization boundary'' e, h))
       (stream_unlocked env input capacity)"

section \<open>Seeding a prefix that is not resident\<close>

record fallback_result =
  fr_status :: int
  fr_completed :: bool
  fr_fallback_invoked :: bool
  fr_retry_invoked :: bool
  fr_initial_status :: int
  fr_seed_status :: int
  fr_retry_status :: int
  fr_seed_output_token_count :: u32
  fr_seed_output_token :: u32
  fr_full_prefill_token_count :: u32
  fr_generation_before :: u64
  fr_generation_after_seed :: u64
  fr_initial :: prefix_result
  fr_hit :: prefix_result
  fr_failure_stage :: string
  fr_failure :: string

definition fallback_result_init :: fallback_result where
  "fallback_result_init = \<lparr>fr_status = status_code STATUS_INVALID_ARGUMENT, fr_completed = False, fr_fallback_invoked = False,
     fr_retry_invoked = False, fr_initial_status = status_code STATUS_INVALID_ARGUMENT, fr_seed_status = status_code STATUS_INVALID_ARGUMENT,
     fr_retry_status = status_code STATUS_INVALID_ARGUMENT, fr_seed_output_token_count = 0, fr_seed_output_token = - 1,
     fr_full_prefill_token_count = 0, fr_generation_before = 0, fr_generation_after_seed = 0, fr_initial = zero_result, fr_hit = zero_result,
     fr_failure_stage = [], fr_failure = []\<rparr>"

type_synonym fallback_answer = "(qrt_status \<times> fallback_result \<times> u32 list) \<times> prefix_engine \<times> prefix_hist"

definition fallback_failed ::
  "prefix_engine \<Rightarrow> prefix_hist \<Rightarrow> fallback_result \<Rightarrow> qrt_status \<Rightarrow> string \<Rightarrow> string \<Rightarrow> fallback_answer" where
  "fallback_failed e h r status stage message =
     ((status, r\<lparr>fr_status := status_code status, fr_completed := False, fr_failure_stage := c_copy 64 stage, fr_failure := c_copy 192 message\<rparr>, []),
      set_request_failure stage message e, h)"

definition seed_accepted :: "qrt_status \<Rightarrow> u32 list \<Rightarrow> bool" where
  "seed_accepted status tokens \<longleftrightarrow> status = STATUS_OK \<and> length tokens = 1 \<and> hd tokens < VOCAB_SIZE"

text \<open>
  The seed did not give one token. The valid flag is dropped if the status is OK, or the number of tokens or the token is wrong;
  the caller's token is the one in its variable, all ones before it is written.
\<close>

definition seed_failed :: "prefix_engine \<Rightarrow> prefix_hist \<Rightarrow> fallback_result \<Rightarrow> qrt_status \<Rightarrow> u32 list \<Rightarrow> fallback_answer" where
  "seed_failed e h r status tokens =
     (let stage = (if pe_failure_stage e \<noteq> [] then pe_failure_stage e else ''resident_prefix_cache_fallback_seed'');
          message = (if pe_failure e \<noteq> [] then pe_failure e
                     else ''resident prefix-cache fallback full-prefix request did not return exactly one valid seed token'');
          token = (case tokens of [] \<Rightarrow> - 1 | t # _ \<Rightarrow> t);
          e = (if status = STATUS_OK \<or> length tokens \<noteq> 1 \<or> token \<ge> VOCAB_SIZE then e\<lparr>pc_session_valid := False\<rparr> else e)
      in fallback_failed e h r (if status = STATUS_OK then STATUS_UNSUPPORTED else status) stage message)"

text \<open>\<open>qrt_engine_request_tokens_prefix_fallback_v1_unlocked\<close>\<close>

definition fallback_unlocked ::
  "prefix_env \<Rightarrow> u32 \<Rightarrow> u32 list \<Rightarrow> nat \<Rightarrow> nat \<Rightarrow> prefix_engine \<Rightarrow> prefix_hist \<Rightarrow> fallback_answer" where
  "fallback_unlocked env thread input hit capacity e h =
     (let r = fallback_result_init\<lparr>fr_generation_before := pc_generation e\<rparr>;
          ((status, x, outputs), e, h) = request_tokens_prefix env thread input hit capacity e h;
          r = r\<lparr>fr_initial := x, fr_initial_status := status_code status\<rparr>
      in if status = STATUS_OK
         then ((STATUS_OK, r\<lparr>fr_hit := x, fr_status := status_code STATUS_OK, fr_completed := True,
                  fr_generation_after_seed := xr_session_generation x\<rparr>, outputs), e, h)
         else if status \<noteq> STATUS_UNSUPPORTED \<or> xr_failure_stage x \<noteq> ''resident_prefix_cache_identity''
         then fallback_failed e h r status
                (if xr_failure_stage x \<noteq> [] then xr_failure_stage x else ''resident_prefix_cache_initial_attempt'')
                (if xr_failure x \<noteq> [] then xr_failure x
                 else ''resident prefix-cache initial request failed outside the exact identity-miss fallback boundary'')
         else
           let r = r\<lparr>fr_fallback_invoked := True, fr_full_prefill_token_count := of_nat hit\<rparr>;
               ((status, tokens), e, h) = request_tokens env (take hit input) 1 e h;
               r = r\<lparr>fr_seed_status := status_code status,
                     fr_seed_output_token_count := (if length tokens \<le> 2 ^ 32 - 1 then of_nat (length tokens) else - 1),
                     fr_seed_output_token := (case tokens of [] \<Rightarrow> - 1 | t # _ \<Rightarrow> t),
                     fr_generation_after_seed := pc_generation e\<rparr>
           in if \<not> seed_accepted status tokens then seed_failed e h r status tokens
              else
                let ((status, x, outputs), e, h) = request_tokens_prefix env thread input hit capacity e h;
                    r = r\<lparr>fr_retry_invoked := True, fr_hit := x, fr_retry_status := status_code status\<rparr>
                in if status \<noteq> STATUS_OK
                   then fallback_failed e h r status
                          (if xr_failure_stage x \<noteq> [] then xr_failure_stage x else ''resident_prefix_cache_fallback_retry'')
                          (if xr_failure x \<noteq> [] then xr_failure x else ''resident prefix-cache fallback retry failed'')
                   else ((STATUS_OK, r\<lparr>fr_status := status_code STATUS_OK, fr_completed := True\<rparr>, outputs), e, h))"

definition request_tokens_prefix_fallback ::
  "prefix_env \<Rightarrow> u32 \<Rightarrow> u32 list \<Rightarrow> nat \<Rightarrow> nat \<Rightarrow> prefix_engine \<Rightarrow> prefix_hist \<Rightarrow> fallback_answer" where
  "request_tokens_prefix_fallback env thread input hit capacity =
     serialized env thread OPERATION_PREFIX_FALLBACK
       (\<lambda>e h. fallback_failed e h fallback_result_init STATUS_UNSUPPORTED ''resident_prefix_cache_fallback_serialization''
                ''resident prefix-cache fallback could not acquire the per-engine serialization boundary'')
       (fallback_unlocked env thread input hit capacity)"


section \<open>What the operations leave alone\<close>

text \<open>The identity, and the state apart from the stream and the failure text.\<close>

definition identity_of where
  "identity_of e = (pc_session_valid e, pc_ptr e, pc_buffer e, pc_token_count e, pc_token_capacity e, pc_generation e, pc_prompt_digest e)"

definition core_of where
  "core_of e = (pe_ready e, pe_manifest_loaded e, pe_lock e, identity_of e)"

lemmas core_defs = core_of_def identity_of_def

lemma core_of_simps [simp]:
  "core_of (set_request_failure s m e) = core_of e" "core_of (start_stream e) = core_of e" "core_of (stop_stream e) = core_of e"
  "core_of (e\<lparr>st_active := b\<rparr>) = core_of e" "core_of (e\<lparr>st_contract_failed := b\<rparr>) = core_of e"
  "st_active (set_request_failure s m e) = st_active e" "st_callback (set_request_failure s m e) = st_callback e"
  "st_active (begin_prefill e) = st_active e"
  by (simp_all add: core_defs set_request_failure_def start_stream_def stop_stream_def begin_prefill_def)

lemma core_of_begin_prefill: "core_of e = core_of e' \<Longrightarrow> core_of (begin_prefill e) = core_of (begin_prefill e')"
  by (simp add: core_defs begin_prefill_def)

lemma emit_event_core:
  assumes "emit_event env d i t s p e h = (ok, e', h')"
  shows "core_of e' = core_of e \<and> st_active e' = st_active e"
proof -
  let ?e = "fst (snd (emit_event env d i t s p e h))"
  have "core_of ?e = core_of e \<and> st_active ?e = st_active e"
    by (simp add: emit_event_def core_defs Let_def case_prod_beta split: if_split)
  then show ?thesis by (simp add: assms)
qed

lemma prefix_stream_bridge_core:
  "prefix_stream_bridge env g m e h = (ok, e', h') \<Longrightarrow> core_of e' = core_of e \<and> st_active e' = st_active e"
  by (auto simp: prefix_stream_bridge_def dest!: emit_event_core split: prod.splits if_splits)

lemma deliver_tokens_keeps:
  assumes "deliver_tokens bridge ms e h = (e', h')" "P e h" "\<And>m e h ok e' h'. bridge m e h = (ok, e', h') \<Longrightarrow> P e h \<Longrightarrow> P e' h'"
  shows "P e' h'"
  using assms(1,2)
proof (induction ms arbitrary: e h)
  case (Cons m ms)
  obtain ok e1 h1 where "bridge m e h = (ok, e1, h1)" by (metis prod_cases3)
  then show ?case using Cons assms(3) by simp
qed simp

lemma deliver_tokens_core:
  assumes "deliver_tokens bridge ms e h = (e', h')"
    and "\<And>m e h ok e' h'. bridge m e h = (ok, e', h') \<Longrightarrow> core_of e' = core_of e \<and> st_active e' = st_active e"
  shows "core_of e' = core_of e \<and> st_active e' = st_active e"
  using deliver_tokens_keeps [OF assms(1), of "\<lambda>x _. core_of x = core_of e \<and> st_active x = st_active e"] assms(2) by metis

lemma prefix_delivery_core:
  assumes "deliver_tokens (prefix_stream_bridge env g) ms e h = (e', h')"
  shows "core_of e' = core_of e \<and> st_active e' = st_active e"
  by (rule deliver_tokens_core [OF assms]) (rule prefix_stream_bridge_core)

lemma early_core:
  assumes "deliver_tokens (prefill_stream_bridge env) ms e h = (e', h')"
  shows "core_of e' = core_of e \<and> st_active e' = st_active e"
  by (rule deliver_tokens_core [OF assms]) (auto simp: prefill_stream_bridge_def split: prod.splits dest: emit_event_core)

text \<open>The prefill in two steps: emptying the identity while the token may be handed over, and recording the new one.\<close>

lemma after_prefill_split:
  assumes "after_prefill env input progress early e h = (e', h')"
  obtains (before) "progress = BeforeProvider" "e' = e" "h' = h"
  | (failed) "progress = ProviderFailed" "core_of e' = core_of (begin_prefill e)" "st_active e' = st_active e"
  | (completed) valid n g d outs e1 h1 where "progress = ProviderDone valid n g d outs" "core_of e1 = core_of (begin_prefill e)"
      "st_active e1 = st_active e" "record_identity env input valid n g d outs e1 h1 = (e', h')"
  using assms early_core [of env early "begin_prefill e" h]
  by (cases progress) (auto simp: after_prefill_def split: prod.splits)

text \<open>The callbacks of a stream, in order.\<close>

fun token_event :: "prefix_call \<Rightarrow> (bool \<times> nat \<times> u32) list" where
  "token_event (TokenCallback decode i token s el p) = [(decode, i, token)]"
| "token_event _ = []"

definition tokens_streamed :: "prefix_hist \<Rightarrow> (bool \<times> nat \<times> u32) list" where
  "tokens_streamed h = concat (map (\<lambda>c. token_event (fst c)) (rev h))"

lemma tokens_streamed_simps [simp]:
  "tokens_streamed (c # h) = tokens_streamed h @ token_event (fst c)" "tokens_streamed (prefix_free env p h) = tokens_streamed h"
  by (simp_all add: tokens_streamed_def prefix_free_def)

definition stream_inv :: "prefix_hist \<Rightarrow> prefix_engine \<Rightarrow> prefix_hist \<Rightarrow> bool" where
  "stream_inv h0 e h \<longleftrightarrow> tokens_streamed h = tokens_streamed h0 @ map (\<lambda>i. (i \<noteq> 0, i, st_emitted e i)) [0..<st_callback_count e]"

lemma emit_event_stream:
  assumes "emit_event env d i t s p e h = (ok, e', h')" "stream_inv h0 e h"
  shows "stream_inv h0 e' h'"
proof (cases "\<not> st_active e \<or> \<not> st_callback e \<or> i \<noteq> st_callback_count e \<or> i \<ge> MAX_OUTPUT_TOKENS \<or> t \<ge> VOCAB_SIZE \<or> i = 0 \<and> d \<or> i \<noteq> 0 \<and> \<not> d")
  case True
  then show ?thesis using assms by (auto simp: emit_event_def stream_inv_def split: if_splits)
next
  case False
  then have "d = (i \<noteq> 0)" "i = st_callback_count e" by auto
  moreover have "map (\<lambda>j. (j \<noteq> 0, j, ((st_emitted e)(i := t)) j)) [0..<i] = map (\<lambda>j. (j \<noteq> 0, j, st_emitted e j)) [0..<i]" by simp
  ultimately show ?thesis
    using False assms by (auto simp: emit_event_def stream_inv_def Let_def case_prod_beta split: if_splits)
qed

lemma prefix_stream_bridge_stream:
  "prefix_stream_bridge env g m e h = (ok, e', h') \<Longrightarrow> stream_inv h0 e h \<Longrightarrow> stream_inv h0 e' h'"
  by (auto simp: prefix_stream_bridge_def stream_inv_def [of _ "st_contract_failed_update _ _"] split: prod.splits if_splits
      dest: emit_event_stream) (simp add: stream_inv_def)+

lemma bridge_history: "prefix_stream_bridge env g m e h = (ok, e', h') \<Longrightarrow> c \<in> set h \<Longrightarrow> c \<in> set h'"
  by (auto simp: prefix_stream_bridge_def emit_event_def Let_def case_prod_beta split: prod.splits if_splits)

section \<open>Requests on the prefix\<close>

lemma prefix_failed_core:
  "prefix_failed e h r status stage message = ((st, x, out), e', h') \<Longrightarrow>
     st = status \<and> out = [] \<and> e' = set_request_failure stage message e \<and> h' = h"
  by (auto simp: prefix_failed_def prefix_result_failure_def)

lemma clear_identity_keep: "clear_identity env False e h = (begin_prefill e, h)"
  by (simp add: clear_identity_def begin_prefill_def)

lemma prefix_contract_strings:
  "prefix_contract e ok (r\<lparr>xr_failure_stage := s, xr_failure := m\<rparr>) input hit capacity = prefix_contract e ok r input hit capacity"
proof -
  have "output_timing_valid (r\<lparr>xr_failure_stage := s, xr_failure := m\<rparr>) = output_timing_valid r" by (simp add: output_timing_valid_def split: option.split)
  then show ?thesis by (simp add: prefix_contract_def)
qed

lemma prefix_conclude_outcome:
  assumes "prefix_conclude env e ok r input hit capacity h = ((st, x, out), e', h')"
  shows "h' = h \<and> (e' = e \<or> (\<exists>s m. e' = set_request_failure s m e \<or> e' = set_request_failure s m (begin_prefill e))) \<and>
    (st = STATUS_OK \<longrightarrow> e' = e \<and> prefix_contract e ok r input hit capacity \<and> out = map (xr_output_tokens r) [0..<capacity] \<and>
       list_all (\<lambda>i. xr_output_tokens r i < VOCAB_SIZE) [0..<unat (xr_output_token_count r)])"
  using assms by (auto simp: prefix_conclude_def Let_def clear_identity_keep prefix_contract_strings split: if_splits dest!: prefix_failed_core)


lemma begin_prefill_stream [simp]: "stream_inv h0 (begin_prefill e) h = stream_inv h0 e h"
  by (simp add: begin_prefill_def stream_inv_def)

lemma set_request_failure_stream [simp]: "stream_inv h0 (set_request_failure s m e) h = stream_inv h0 e h"
  by (simp add: set_request_failure_def stream_inv_def)

lemma stream_inv_call: "token_event c = [] \<Longrightarrow> stream_inv h0 e ((c, r) # h) = stream_inv h0 e h"
  by (simp add: stream_inv_def)

lemma prefix_conclude_stream:
  "prefix_conclude env e ok r input hit capacity h = ((st, x, out), e', h') \<Longrightarrow> stream_inv h0 e' h' = stream_inv h0 e h"
  by (auto dest!: prefix_conclude_outcome)

definition refused_answer :: "prefix_env \<Rightarrow> prefix_engine \<Rightarrow> prefix_hist \<Rightarrow> prefix_answer \<Rightarrow> bool" where
  "refused_answer env e h answer \<longleftrightarrow>
     (\<exists>h1 r status stage message. answer = prefix_failed e h1 r status stage message \<and> status \<noteq> STATUS_OK \<and>
        (h1 = h \<or> h1 = (BackendLoad, env h BackendLoad) # h))"

lemma refused_answerI:
  "status \<noteq> STATUS_OK \<Longrightarrow> refused_answer env e h (prefix_failed e h r status stage message)"
  "status \<noteq> STATUS_OK \<Longrightarrow> refused_answer env e h (prefix_failed e ((BackendLoad, env h BackendLoad) # h) r status stage message)"
  unfolding refused_answer_def by blast+

lemma refused_answerD:
  assumes "refused_answer env e h ((st, x, out), e', h')"
  shows "st \<noteq> STATUS_OK \<and> core_of e' = core_of e \<and> st_active e' = st_active e \<and> stream_inv h0 e' h' = stream_inv h0 e h"
proof -
  from assms obtain h1 r status stage message where "((st, x, out), e', h') = prefix_failed e h1 r status stage message"
      and s: "status \<noteq> STATUS_OK" "h1 = h \<or> h1 = (BackendLoad, env h BackendLoad) # h"
    unfolding refused_answer_def by blast
  from prefix_failed_core [OF this(1) [symmetric]] s show ?thesis by (auto simp: stream_inv_call)
qed

text \<open>The call of the provider, when it comes to that.\<close>

lemma prefix_unlocked_cases:
  assumes "prefix_unlocked env e input hit capacity stream h = ((st, x, out), e', h')"
  obtains (refused) "st \<noteq> STATUS_OK" "core_of e' = core_of e" "st_active e' = st_active e" "\<And>h0. stream_inv h0 e' h' = stream_inv h0 e h"
  | (called) q e1 h1 p where "prefix_shape_ok e input hit capacity stream" "prefix_identity_matches e input hit"
      "q = provider_request (pr_ignore_eos q) e input hit capacity stream" "core_of e1 = core_of e" "st_active e1 = st_active e"
      "\<And>h0. stream_inv h0 e h \<Longrightarrow> stream_inv h0 e1 h1" "(ProviderPrefix q, p) \<in> set h1"
      "prefix_conclude env e1 (px_ok p) (px_result p) input hit capacity h1 = ((st, x, out), e', h')"
proof (cases "prefix_shape_ok e input hit capacity stream \<and> list_all (\<lambda>t. t < VOCAB_SIZE) input \<and> prefix_identity_matches e input hit \<and>
    px_ok (env h BackendLoad) \<and> px_export (env h BackendLoad)")
  case False
  then have "refused_answer env e h (prefix_unlocked env e input hit capacity stream h)"
    unfolding prefix_unlocked_def ask_def by (auto simp: Let_def refused_answerI)
  then show thesis using refused refused_answerD unfolding assms by blast
next
  case True
  define g where "g = (IgnoreEos, env ((BackendLoad, env h BackendLoad) # h) IgnoreEos) # (BackendLoad, env h BackendLoad) # h"
  define e0 where "e0 = set_request_failure [] [] e"
  define q where "q = provider_request (px_ok (env ((BackendLoad, env h BackendLoad) # h) IgnoreEos)) e0 input hit capacity stream"
  define p where "p = env g (ProviderPrefix q)"
  define d where "d = (if stream then deliver_tokens (prefix_stream_bridge env (pc_generation e0)) (px_emissions p) e0 ((ProviderPrefix q, p) # g)
    else (e0, (ProviderPrefix q, p) # g))"
  obtain e1 h1 where d1: "d = (e1, h1)" by (metis surj_pair)
  have c: "prefix_conclude env e1 (px_ok p) (px_result p) input hit capacity h1 = ((st, x, out), e', h')"
    using assms True d1 unfolding d_def p_def q_def g_def e0_def by (simp add: prefix_unlocked_def Let_def ask_def)
  have core: "core_of e1 = core_of e0 \<and> st_active e1 = st_active e0"
    using d1 prefix_delivery_core by (auto simp: d_def split: if_splits)
  have keeps: "P e1 h1" if "P e0 ((ProviderPrefix q, p) # g)"
      "\<And>m e h ok e' h'. prefix_stream_bridge env (pc_generation e0) m e h = (ok, e', h') \<Longrightarrow> P e h \<Longrightarrow> P e' h'" for P
  proof (cases stream)
    case True
    with d1 have del: "deliver_tokens (prefix_stream_bridge env (pc_generation e0)) (px_emissions p) e0 ((ProviderPrefix q, p) # g) = (e1, h1)"
      by (simp add: d_def)
    show ?thesis using deliver_tokens_keeps [OF del, of P] that by blast
  qed (use d1 that in \<open>simp add: d_def\<close>)
  have inv: "stream_inv h0 e1 h1" if "stream_inv h0 e h" for h0
    by (rule keeps) (use that in \<open>auto simp: e0_def g_def stream_inv_call intro: prefix_stream_bridge_stream\<close>)
  have mem: "(ProviderPrefix q, p) \<in> set h1"
    by (rule keeps) (auto dest: bridge_history)
  have "q = provider_request (pr_ignore_eos q) e input hit capacity stream"
    by (simp add: q_def e0_def provider_request_def set_request_failure_def)
  then show thesis using called [of q e1 h1 p] True core inv mem c by (simp add: e0_def)
qed


text \<open>A prefix request that was answered: the provider was called for this input on the resident session, and the output is its output.\<close>

definition answered :: "prefix_engine \<Rightarrow> u32 list \<Rightarrow> nat \<Rightarrow> nat \<Rightarrow> u32 list \<Rightarrow> prefix_hist \<Rightarrow> bool" where
  "answered e input hit capacity out h \<longleftrightarrow>
     (\<exists>q p. (ProviderPrefix q, p) \<in> set h \<and> pr_input_tokens q = input \<and> pr_suffix_tokens q = drop hit input \<and>
        pr_session_generation q = pc_generation e \<and> pr_prompt_digest q = token_digest (take hit input) \<and>
        out = map (xr_output_tokens (px_result p)) [0..<capacity] \<and> xr_output_digest (px_result p) = token_digest out)"

lemma prefix_unlocked_outcome:
  assumes "prefix_unlocked env e input hit capacity stream h = ((st, x, out), e', h')"
  shows "st_active e' = st_active e \<and> (core_of e' = core_of e \<or> core_of e' = core_of (begin_prefill e)) \<and>
    (\<forall>h0. stream_inv h0 e h \<longrightarrow> stream_inv h0 e' h') \<and>
    (st = STATUS_OK \<longrightarrow> core_of e' = core_of e \<and> prefix_identity_matches e input hit \<and> length out = capacity \<and>
       list_all (\<lambda>t. t < VOCAB_SIZE) out \<and> answered e input hit capacity out h')"
  using assms
proof (cases rule: prefix_unlocked_cases)
  case (called q e1 h1 p)
  note con = prefix_conclude_outcome [OF called(8)]
  have core: "core_of e' = core_of e \<or> core_of e' = core_of (begin_prefill e)" "st_active e' = st_active e"
    using con called(4,5) core_of_begin_prefill [OF called(4)] by auto
  have ok: "core_of e' = core_of e \<and> length out = capacity \<and> list_all (\<lambda>t. t < VOCAB_SIZE) out \<and> answered e input hit capacity out h'"
    if "st = STATUS_OK"
  proof -
    have out: "out = map (xr_output_tokens (px_result p)) [0..<capacity]" "e' = e1" "h' = h1"
        "list_all (\<lambda>i. xr_output_tokens (px_result p) i < VOCAB_SIZE) [0..<unat (xr_output_token_count (px_result p))]"
      and c: "prefix_contract e1 (px_ok p) (px_result p) input hit capacity" using con that by auto
    have "capacity \<le> 512" using called(1) by (simp add: prefix_shape_ok_def bridge_limits)
    then have n: "unat (xr_output_token_count (px_result p)) = capacity"
      using c by (simp add: prefix_contract_def unsigned_of_nat take_bit_nat_eq_self)
    have "xr_output_digest (px_result p) = token_digest out"
      using c n \<open>capacity \<le> 512\<close> by (simp add: prefix_contract_def result_digest_def bridge_limits out(1))
    moreover have "pr_input_tokens q = input" "pr_suffix_tokens q = drop hit input" "pr_session_generation q = pc_generation e"
        "pr_prompt_digest q = token_digest (take hit input)"
      using called(2) by (subst called(3), simp add: provider_request_def prefix_identity_matches_def)+
    ultimately show ?thesis using out n called(4,7) unfolding answered_def by (auto simp: list_all_iff)
  qed
  show ?thesis using core ok called(2,6) prefix_conclude_stream [OF called(8)] by auto
qed auto

lemma prefix_stream_unlocked_outcome:
  assumes "prefix_stream_unlocked env input hit capacity e h = ((st, x, out), e', h')" "\<not> st_active e"
  shows "\<not> st_active e' \<and> (core_of e' = core_of e \<or> core_of e' = core_of (begin_prefill e)) \<and>
    (st = STATUS_OK \<longrightarrow> core_of e' = core_of e \<and> prefix_identity_matches e input hit \<and> length out = capacity \<and>
       list_all (\<lambda>t. t < VOCAB_SIZE) out \<and> answered e input hit capacity out h' \<and>
       tokens_streamed h' = tokens_streamed h @ map (\<lambda>i. (i \<noteq> 0, i, out ! i)) [0..<capacity])"
proof -
  obtain st1 x1 out1 e1 h1 where u: "prefix_unlocked env (start_stream e) input hit capacity True h = ((st1, x1, out1), e1, h1)"
    by (metis surj_pair)
  note o = prefix_unlocked_outcome [OF u]
  have inv: "stream_inv h e1 h1" using o by (simp add: stream_inv_def start_stream_def)
  have start: "core_of (begin_prefill (start_stream e)) = core_of (begin_prefill e)"
      "prefix_identity_matches (start_stream e) input hit = prefix_identity_matches e input hit" "answered (start_stream e) = answered e"
    by (auto simp: core_defs begin_prefill_def start_stream_def prefix_identity_matches_def answered_def fun_eq_iff)
  have e': "h' = h1" "core_of e' = core_of e1" "\<not> st_active e'" "out = out1" "st = STATUS_OK \<longrightarrow> st1 = STATUS_OK \<and> stream_matches (e1\<lparr>st_active := False\<rparr>) out"
    using assms(1,2) u
    by (auto simp: prefix_stream_unlocked_def Let_def prefix_result_failure_def stop_stream_def core_defs set_request_failure_def split: if_splits)
  have "tokens_streamed h' = tokens_streamed h @ map (\<lambda>i. (i \<noteq> 0, i, out ! i)) [0..<capacity]" if "st = STATUS_OK"
  proof -
    have m: "st_callback_count e1 = length out" "\<forall>i < length out. st_emitted e1 i = out ! i" "length out = capacity"
      using e'(4,5) that o by (auto simp: stream_matches_def)
    then have "map (\<lambda>i. (i \<noteq> 0, i, st_emitted e1 i)) [0..<st_callback_count e1] = map (\<lambda>i. (i \<noteq> 0, i, out ! i)) [0..<capacity]" by auto
    then show ?thesis using inv by (simp add: stream_inv_def e'(1))
  qed
  then show ?thesis using o e' start by auto
qed

section \<open>Requests under the serialization\<close>

lemma serialized_cases:
  assumes "serialized env thread op refused body e h = (res, e', h')"
  obtains (refused) h1 where "refused e h1 = (res, e', h')" "h1 = h \<or> h1 = (LockWait op, env h (LockWait op)) # h"
  | (entered) guard lock e1 where
      "serialization_acquire thread op (px_ok (env h (LockWait op))) (px_num (env h (LockWait op))) (pe_lock e) = Some (guard, lock)"
      "body (e\<lparr>pe_lock := lock\<rparr>) ((LockWait op, env h (LockWait op)) # h) = (res, e1, h')"
      "e' = e1\<lparr>pe_lock := serialization_release thread guard (pe_lock e1)\<rparr>"
  using assms by (auto simp: serialized_def Let_def ask_def split: if_splits option.splits prod.splits)

lemma pe_lock_update [simp]:
  "identity_of (e\<lparr>pe_lock := l\<rparr>) = identity_of e" "st_active (e\<lparr>pe_lock := l\<rparr>) = st_active e"
  "prefix_identity_matches (e\<lparr>pe_lock := l\<rparr>) input hit = prefix_identity_matches e input hit" "answered (e\<lparr>pe_lock := l\<rparr>) = answered e"
  by (auto simp: identity_of_def prefix_identity_matches_def answered_def fun_eq_iff)

lemma core_identity: "core_of e = core_of e' \<Longrightarrow> identity_of e = identity_of e'"
  by (simp add: core_of_def)

section \<open>The identity over a session\<close>

definition identity_ok :: "prefix_engine \<Rightarrow> bool" where
  "identity_ok e \<longleftrightarrow>
     (if pc_session_valid e
      then pc_ptr e \<noteq> nullptr \<and> 0 < pc_token_count e \<and> pc_token_count e \<le> 2 ^ 32 - 1 \<and> pc_token_count e \<le> length (pc_buffer e) \<and>
        pc_generation e \<noteq> 0 \<and> pc_prompt_digest e = token_digest (take (pc_token_count e) (pc_buffer e))
      else pc_token_count e = 0 \<and> pc_generation e = 0 \<and> pc_prompt_digest e = 0) \<and>
     length (pc_buffer e) \<le> pc_token_capacity e \<and> (0 < pc_token_capacity e \<longrightarrow> pc_ptr e \<noteq> nullptr)"

text \<open>
  Without the flag, the same but for an invalid session, whose count, generation and digest may be left over.
\<close>

definition identity_kept :: "bool \<Rightarrow> prefix_engine \<Rightarrow> bool" where
  "identity_kept clean e \<longleftrightarrow>
     (if pc_session_valid e
      then pc_ptr e \<noteq> nullptr \<and> 0 < pc_token_count e \<and> pc_token_count e \<le> 2 ^ 32 - 1 \<and> pc_token_count e \<le> length (pc_buffer e) \<and>
        pc_generation e \<noteq> 0 \<and> pc_prompt_digest e = token_digest (take (pc_token_count e) (pc_buffer e))
      else clean \<longrightarrow> pc_token_count e = 0 \<and> pc_generation e = 0 \<and> pc_prompt_digest e = 0) \<and>
     length (pc_buffer e) \<le> pc_token_capacity e \<and> (0 < pc_token_capacity e \<longrightarrow> pc_ptr e \<noteq> nullptr)"

lemma identity_kept_clean: "identity_kept True = identity_ok"
  by (simp add: fun_eq_iff identity_kept_def identity_ok_def)

lemma identity_ok_cong: "identity_of e = identity_of e' \<Longrightarrow> identity_kept b e = identity_kept b e'"
  by (simp add: identity_of_def identity_kept_def)

lemma identity_ok_begin: "identity_kept b e \<Longrightarrow> identity_kept b (begin_prefill e)"
  by (auto simp: identity_kept_def begin_prefill_def)

lemma identity_ok_core: "core_of e' = core_of e \<or> core_of e' = core_of (begin_prefill e) \<Longrightarrow> identity_kept b e \<Longrightarrow> identity_kept b e'"
  using identity_ok_cong core_identity identity_ok_begin by metis

lemma pe_lock_core: "core_of e' = core_of e \<or> core_of e' = core_of (begin_prefill e) \<Longrightarrow> pe_lock e' = pe_lock e"
  by (auto simp: core_of_def begin_prefill_def)

lemma record_identity_outcome:
  assumes "record_identity env input valid n g d outs e h = (e', h')" "identity_kept b e" "input \<noteq> []" "length input \<le> 2 ^ 32 - 1"
  shows "identity_kept b e' \<and> pe_lock e' = pe_lock e \<and> st_active e' = st_active e"
proof -
  let ?grow = "if pc_token_capacity e < length input
           then let (r, h) = ask env (PRealloc (pc_ptr e) (of_nat (length input * 4))) h
                in if px_num r \<noteq> nullptr then (e\<lparr>pc_ptr := px_num r, pc_token_capacity := length input\<rparr>, h) else (e, h)
           else (e, h)"
  obtain e1 h1 where grow: "?grow = (e1, h1)" by (rule prod.exhaust)
  have e1: "identity_kept b e1" "pe_lock e1 = pe_lock e" "st_active e1 = st_active e"
    using grow assms(2) by (auto simp: identity_kept_def ask_def Let_def split: if_splits)
  have "e' = e \<or> e' = e1 \<or> pc_ptr e1 \<noteq> nullptr \<and> length input \<le> pc_token_capacity e1 \<and> g \<noteq> 0 \<and> d = token_digest input \<and>
      e' = e1\<lparr>pc_buffer := input @ drop (length input) (pc_buffer e1), pc_session_valid := True, pc_token_count := length input,
                   pc_generation := g, pc_prompt_digest := d\<rparr>"
    using assms(1) unfolding record_identity_def grow by (auto split: if_splits)
  then show ?thesis using e1 assms(2-4) by (auto simp: identity_kept_def)
qed

lemma request_tokens_split:
  assumes "request_tokens env input capacity e h = (res, e', h')" "input \<noteq> []" "capacity \<noteq> 0"
  defines "r \<equiv> env h (OrdinaryPrefill input capacity)"
  obtains e1 h1 where
    "after_prefill env input (px_progress r) (px_early_emissions r) (set_request_failure (px_failure_stage r) (px_failure r) e)
       ((OrdinaryPrefill input capacity, r) # h) = (e1, h1)"
    "core_of e' = core_of e1" "st_active e' = st_active e1" "res = (px_status r, px_tokens r)"
proof -
  let ?emit = "\<lambda>(generation, i, token, step_ns, end_ns). emit_event env (i \<noteq> 0) (unat i) token step_ns end_ns"
  obtain e1 h1 where after: "after_prefill env input (px_progress r) (px_early_emissions r) (set_request_failure (px_failure_stage r) (px_failure r) e)
      ((OrdinaryPrefill input capacity, r) # h) = (e1, h1)" by (rule prod.exhaust)
  have del: "deliver_tokens ?emit (px_emissions r) e1 h1 = (e', h')" "res = (px_status r, px_tokens r)"
    using assms(1-3) after by (auto simp: request_tokens_def Let_def ask_def r_def split: prod.splits)
  have "core_of e' = core_of e1 \<and> st_active e' = st_active e1"
    by (rule deliver_tokens_core [OF del(1)]) (auto split: prod.splits dest: emit_event_core)
  then show thesis using that after del(2) by blast
qed

lemma request_tokens_outcome:
  assumes "request_tokens env input capacity e h = (res, e', h')" "identity_kept b e" "length input \<le> 2 ^ 32 - 1"
  shows "identity_kept b e' \<and> pe_lock e' = pe_lock e \<and> st_active e' = st_active e \<and>
    (px_progress (env h (OrdinaryPrefill input capacity)) = ProviderFailed \<and> input \<noteq> [] \<and> capacity \<noteq> 0 \<longrightarrow>
       identity_of e' = identity_of (begin_prefill e))"
proof (cases "input = [] \<or> capacity = 0")
  case False
  let ?r = "env h (OrdinaryPrefill input capacity)"
  let ?e = "set_request_failure (px_failure_stage ?r) (px_failure ?r) e"
  obtain e1 h1 where after: "after_prefill env input (px_progress ?r) (px_early_emissions ?r) ?e ((OrdinaryPrefill input capacity, ?r) # h) = (e1, h1)"
      "core_of e' = core_of e1" "st_active e' = st_active e1"
    using request_tokens_split [OF assms(1)] False by blast
  have ok: "identity_kept b ?e" using assms(2) identity_ok_core [of ?e e] by simp
  have "identity_kept b e1 \<and> pe_lock e1 = pe_lock e \<and> st_active e1 = st_active e"
    using after(1)
  proof (cases rule: after_prefill_split)
    case before
    then show ?thesis using ok by (simp add: set_request_failure_def)
  next
    case failed
    then show ?thesis using identity_ok_core [of e1 ?e] ok pe_lock_core [of e1 ?e] by (simp add: set_request_failure_def)
  next
    case (completed valid n g d outs e2 h2)
    have "identity_kept b e2 \<and> pe_lock e2 = pe_lock ?e" using completed(2) identity_ok_core [of e2 ?e] ok pe_lock_core [of e2 ?e] by simp
    then show ?thesis
      using record_identity_outcome [OF completed(4), where b = b] False assms(3) completed(3) by (simp add: set_request_failure_def)
  qed
  moreover have "identity_of e1 = identity_of (begin_prefill e)" if "px_progress ?r = ProviderFailed"
    using after(1) that
    by (cases rule: after_prefill_split) (auto simp: core_of_def identity_of_def begin_prefill_def set_request_failure_def)
  ultimately show ?thesis using after(2,3) identity_ok_cong [of e' e1] by (auto simp: core_of_def)
qed (use assms in \<open>auto simp: request_tokens_def\<close>)

lemma clear_identity_ok: "clear_identity env True e h = (e', h') \<Longrightarrow> identity_kept b e' \<and> pe_lock e' = pe_lock e \<and> st_active e' = st_active e"
  by (auto simp: clear_identity_def identity_kept_def)

lemma reset_failed_core:
  "reset_failed e h z status stage message = ((st, x), e', h') \<Longrightarrow>
     st = status \<and> identity_of e' = identity_of e \<and> pe_lock e' = pe_lock e \<and> st_active e' = st_active e \<and> h' = h"
  by (auto simp: reset_failed_def reset_result_failure_def set_request_failure_def identity_of_def)

definition empty_identity :: "prefix_engine \<Rightarrow> bool" where
  "empty_identity e \<longleftrightarrow> \<not> pc_session_valid e \<and> pc_ptr e = nullptr \<and> pc_buffer e = [] \<and> pc_token_count e = 0 \<and> pc_token_capacity e = 0 \<and>
     pc_generation e = 0 \<and> pc_prompt_digest e = 0"

definition reset_keeps :: "prefix_engine \<Rightarrow> prefix_engine \<Rightarrow> bool" where
  "reset_keeps e e' \<longleftrightarrow> pe_lock e' = pe_lock e \<and> st_active e' = st_active e \<and> (identity_of e' = identity_of e \<or> empty_identity e')"

lemma reset_keeps_intros [simp]:
  "reset_keeps e e" "reset_keeps e (set_request_failure s m e') = reset_keeps e e'"
  "reset_keeps e (fst (snd (reset_failed e' h z status stage message))) = reset_keeps e e'"
  by (auto simp: reset_keeps_def set_request_failure_def identity_of_def empty_identity_def reset_failed_def reset_result_failure_def)

lemma reset_keeps_clear [simp]:
  "reset_keeps e e' \<Longrightarrow> reset_keeps e (fst (clear_identity env True e' h))" "empty_identity (fst (clear_identity env True e' h))"
  "empty_identity (set_request_failure s m e') = empty_identity e'"
  by (auto simp: reset_keeps_def clear_identity_def empty_identity_def set_request_failure_def)

lemma reset_failed_status [simp]: "fst (fst (reset_failed e h z status stage message)) = status"
  by (simp add: reset_failed_def reset_result_failure_def)

lemma reset_unlocked_outcome:
  assumes "reset_unlocked env e h = ((st, z), e', h')"
  shows "reset_keeps e e' \<and> (st = STATUS_OK \<longrightarrow> empty_identity e')"
proof -
  let ?a = "reset_unlocked env e h"
  have "reset_keeps e (fst (snd ?a)) \<and> (fst (fst ?a) = STATUS_OK \<longrightarrow> empty_identity (fst (snd ?a)))"
    by (simp add: reset_unlocked_def Let_def ask_def case_prod_beta split: if_split)
  then show ?thesis by (simp add: assms)
qed


text \<open>The lock as the thread's open guards see it.\<close>

definition locked :: "u32 \<Rightarrow> guard list \<Rightarrow> prefix_engine \<Rightarrow> bool" where
  "locked thread guards e \<longleftrightarrow> lock_common (pe_lock e) \<and>
     (if guards = [] then lock_idle (pe_lock e) else lock_held thread guards (pe_lock e))"

definition completed_ticket :: "prefix_engine \<Rightarrow> u64" where
  "completed_ticket e = rs_last_completed_ticket (pe_lock e)"

lemma locked_cong: "pe_lock e = pe_lock e' \<Longrightarrow> locked thread guards e = locked thread guards e' \<and> completed_ticket e = completed_ticket e'"
  by (simp add: locked_def completed_ticket_def)

lemma acquire_total:
  assumes "lock_common s"
  shows "\<exists>guard s'. serialization_acquire thread op contended wait_ns s = Some (guard, s')"
  using assms by (auto simp: lock_common_def serialization_acquire_def Let_def)

text \<open>
  One rule for every public entry: the body runs with one more guard open, and on return the thread has the guards it had;
  the outermost call completes one ticket.
\<close>

lemma serialized_rule:
  assumes run: "serialized env thread op refused body e h = (res, e', h')"
    and lock: "locked thread guards e" "thread \<noteq> 0" "length guards < 2"
    and op: "op \<in> {OPERATION_ORDINARY, OPERATION_PREFIX, OPERATION_PREFIX_FALLBACK, OPERATION_PREFIX_RESET, OPERATION_STREAM}"
    and pre: "P e" "\<And>e l. P e \<Longrightarrow> P (e\<lparr>pe_lock := l\<rparr>)" "\<And>e l. Q e \<Longrightarrow> Q (e\<lparr>pe_lock := l\<rparr>)"
    and body: "\<And>guard e h res e' h'. body e h = (res, e', h') \<Longrightarrow> P e \<Longrightarrow> locked thread (guard # guards) e \<Longrightarrow>
      Q e' \<and> locked thread (guard # guards) e' \<and> completed_ticket e' = completed_ticket e"
  shows "Q e' \<and> locked thread guards e' \<and> completed_ticket e' = completed_ticket e + (if guards = [] then 1 else 0)"
proof -
  let ?w = "env h (LockWait op)"
  have common: "lock_common (pe_lock e)" using lock(1) by (simp add: locked_def)
  then obtain guard l where acq: "serialization_acquire thread op (px_ok ?w) (px_num ?w) (pe_lock e) = Some (guard, l)"
    using acquire_total by blast
  let ?e = "e\<lparr>pe_lock := l\<rparr>"
  have held: "locked thread (guard # guards) ?e \<and> completed_ticket ?e = completed_ticket e"
  proof (cases "guards = []")
    case True
    then show ?thesis using acquire_idle [OF acq _ common lock(2) op] lock(1) by (simp add: locked_def completed_ticket_def)
  next
    case False
    then show ?thesis using acquire_held [OF acq, of guards] common lock(1,3) by (simp add: locked_def completed_ticket_def)
  qed
  obtain e1 where b: "body ?e ((LockWait op, ?w) # h) = (res, e1, h')" "e' = e1\<lparr>pe_lock := serialization_release thread guard (pe_lock e1)\<rparr>"
    using run common acq by (auto simp: serialized_def Let_def ask_def lock_common_def split: prod.splits)
  have e1: "Q e1" "locked thread (guard # guards) e1" "completed_ticket e1 = completed_ticket e"
    using body [OF b(1) pre(2) [OF pre(1)]] held by auto
  then have "lock_held thread (guard # guards) (pe_lock e1)" "lock_common (pe_lock e1)" by (simp_all add: locked_def)
  from release_held [OF this] e1 pre(3) [OF e1(1)] show ?thesis
    by (auto simp: b(2) locked_def completed_ticket_def)
qed

definition engine_kept :: "bool \<Rightarrow> prefix_engine \<Rightarrow> bool" where
  "engine_kept b e \<longleftrightarrow> identity_kept b e \<and> \<not> st_active e"

lemma engine_ok_lock [simp]: "engine_kept b (e\<lparr>pe_lock := l\<rparr>) = engine_kept b e"
  by (simp add: engine_kept_def identity_kept_def)

lemma engine_ok_core:
  assumes "core_of e' = core_of e \<or> core_of e' = core_of (begin_prefill e)" "st_active e' = st_active e" "engine_kept b e" "locked thread guards e"
  shows "engine_kept b e' \<and> locked thread guards e' \<and> completed_ticket e' = completed_ticket e"
  using assms identity_ok_core [OF assms(1)] locked_cong [OF pe_lock_core [OF assms(1)]] by (auto simp: engine_kept_def)

lemma request_tokens_prefix_keeps:
  assumes "request_tokens_prefix env thread input hit capacity e h = (res, e', h')" "engine_kept b e"
    and "locked thread guards e" "thread \<noteq> 0" "length guards < 2"
  shows "engine_kept b e' \<and> locked thread guards e' \<and> completed_ticket e' = completed_ticket e + (if guards = [] then 1 else 0)"
proof (rule serialized_rule [OF assms(1) [unfolded request_tokens_prefix_def] assms(3-5), where P = "engine_kept b"])
  fix guard e h res e' h'
  assume "prefix_unlocked env e input hit capacity False h = (res, e', h')" "engine_kept b e" "locked thread (guard # guards) e"
  then show "engine_kept b e' \<and> locked thread (guard # guards) e' \<and> completed_ticket e' = completed_ticket e"
    using prefix_unlocked_outcome engine_ok_core by (cases res) metis
qed (use assms(2) in simp_all)

lemma request_tokens_prefix_stream_keeps:
  assumes "request_tokens_prefix_stream env thread input hit capacity e h = (res, e', h')" "engine_kept b e"
    and "locked thread [] e" "thread \<noteq> 0"
  shows "engine_kept b e' \<and> locked thread [] e' \<and> completed_ticket e' = completed_ticket e + 1"
proof -
  have "engine_kept b e' \<and> locked thread [] e' \<and> completed_ticket e' = completed_ticket e + (if [] = ([] :: guard list) then 1 else 0)"
  proof (rule serialized_rule [OF assms(1) [unfolded request_tokens_prefix_stream_def] assms(3,4), where P = "engine_kept b"])
    fix guard e h res e' h'
    assume a: "prefix_stream_unlocked env input hit capacity e h = (res, e', h')" "engine_kept b e" "locked thread [guard] e"
    obtain st x out where res: "res = (st, x, out)" by (metis prod_cases3)
    have idle: "\<not> st_active e" using a(2) by (simp add: engine_kept_def)
    have "core_of e' = core_of e \<or> core_of e' = core_of (begin_prefill e)" "st_active e' = st_active e"
      using prefix_stream_unlocked_outcome [OF a(1) [unfolded res] idle] idle by blast+
    then show "engine_kept b e' \<and> locked thread [guard] e' \<and> completed_ticket e' = completed_ticket e"
      by (rule engine_ok_core [OF _ _ a(2,3)])
  qed (use assms(2) in simp_all)
  then show ?thesis by simp
qed

lemma reset_prefix_cache_keeps:
  assumes "reset_prefix_cache env thread e h = (res, e', h')" "engine_kept b e" "locked thread [] e" "thread \<noteq> 0"
  shows "engine_kept b e' \<and> locked thread [] e' \<and> completed_ticket e' = completed_ticket e + 1"
proof -
  have "engine_kept b e' \<and> locked thread [] e' \<and> completed_ticket e' = completed_ticket e + (if [] = ([] :: guard list) then 1 else 0)"
  proof (rule serialized_rule [OF assms(1) [unfolded reset_prefix_cache_def] assms(3,4), where P = "engine_kept b"])
    fix guard e h res e' h'
    assume a: "reset_unlocked env e h = (res, e', h')" "engine_kept b e" "locked thread [guard] e"
    obtain st z where res: "res = (st, z)" by (metis surj_pair)
    have k: "reset_keeps e e'" using reset_unlocked_outcome [OF a(1) [unfolded res]] by simp
    then have "identity_kept b e'" using a(2) identity_ok_cong [where b = b and e = e' and e' = e] by (auto simp: reset_keeps_def engine_kept_def empty_identity_def identity_kept_def)
    then show "engine_kept b e' \<and> locked thread [guard] e' \<and> completed_ticket e' = completed_ticket e"
      using k a(2,3) locked_cong [of e' e] by (auto simp: reset_keeps_def engine_kept_def)
  qed (use assms(2) in simp_all)
  then show ?thesis by simp
qed

lemma request_tokens_keeps:
  assumes "request_tokens env input capacity e h = (res, e', h')" "engine_kept b e" "length input \<le> 2 ^ 32 - 1"
  shows "engine_kept b e' \<and> pe_lock e' = pe_lock e"
  using request_tokens_outcome [OF assms(1) _ assms(3)] assms(2) by (auto simp: engine_kept_def)

lemma stream_unlocked_outcome:
  assumes "stream_unlocked env input capacity e h = (res, e', h')" "engine_kept b e" "length input \<le> 2 ^ 32 - 1"
  shows "engine_kept b e' \<and> pe_lock e' = pe_lock e"
proof -
  obtain st out e1 h1 where r: "request_tokens env input capacity (start_stream e) h = ((st, out), e1, h1)" by (metis surj_pair)
  have start: "identity_kept b (start_stream e)" using assms(2) identity_ok_core [of "start_stream e" e] by (simp add: engine_kept_def)
  from request_tokens_outcome [OF r start assms(3)] have e1: "identity_kept b e1" "pe_lock e1 = pe_lock e"
    by (auto simp: start_stream_def)
  have "e' = e \<or> core_of e' = core_of e1 \<and> \<not> st_active e'"
    using assms(1) r by (auto simp: stream_unlocked_def Let_def stop_stream_def core_defs set_request_failure_def split: if_splits)
  then show ?thesis
  proof
    assume "core_of e' = core_of e1 \<and> \<not> st_active e'"
    then show ?thesis using e1 identity_ok_core [of e' e1] by (auto simp: engine_kept_def core_of_def)
  qed (use assms(2) in simp)
qed

lemma engine_request_stream_keeps:
  assumes "engine_request_stream env thread input capacity e h = (res, e', h')" "engine_kept b e" "locked thread [] e" "thread \<noteq> 0"
    and "length input \<le> 2 ^ 32 - 1"
  shows "engine_kept b e' \<and> locked thread [] e' \<and> completed_ticket e' = completed_ticket e + 1"
proof -
  have "engine_kept b e' \<and> locked thread [] e' \<and> completed_ticket e' = completed_ticket e + (if [] = ([] :: guard list) then 1 else 0)"
  proof (rule serialized_rule [OF assms(1) [unfolded engine_request_stream_def] assms(3,4), where P = "engine_kept b"])
    fix guard e h res e' h'
    assume a: "stream_unlocked env input capacity e h = (res, e', h')" "engine_kept b e" "locked thread [guard] e"
    from stream_unlocked_outcome [OF a(1,2) assms(5)] show "engine_kept b e' \<and> locked thread [guard] e' \<and> completed_ticket e' = completed_ticket e"
      using a(3) locked_cong [of e' e] by blast
  qed (use assms(2) in simp_all)
  then show ?thesis by simp
qed

end
