(* ===== verification/Prefix_Session.thy ===== *)
theory Prefix_Session
  imports Prefix_Engine
begin

text \<open>
  What the requests on the resident prefix guarantee: a streamed request is answered from exactly the prefix that is resident,
  a request with a seed leaves the right identity, a reset removes it, and sessions of such calls keep the identity,
  the stream and the serialization in order. One failure of a seed breaks the identity.
\<close>

section \<open>Streamed requests and requests with a seed\<close>

text \<open>
  C7. A streamed prefix request that succeeds was served from exactly the right state: before the call the engine held a valid identity for precisely the
  prefix that the caller named, token by token and by digest, and it holds the same identity afterwards. The provider was called for this input and suffix on
  that session; its tokens are the output, as many as asked for, all in the vocabulary and matching the digest it reported; and the
  caller's callback saw exactly these tokens in order, the first as prefill.
\<close>

theorem prefix_stream_exact:
  assumes "request_tokens_prefix_stream env thread input hit capacity e h = ((STATUS_OK, r, out), e', h')" "\<not> st_active e"
  shows "pc_session_valid e \<and> pc_token_count e = hit \<and> take hit (pc_buffer e) = take hit input \<and>
         pc_prompt_digest e = token_digest (take hit input) \<and> identity_of e' = identity_of e \<and> \<not> st_active e' \<and>
         length out = capacity \<and> list_all (\<lambda>t. t < VOCAB_SIZE) out \<and> answered e input hit capacity out h' \<and>
         tokens_streamed h' = tokens_streamed h @ map (\<lambda>i. (i \<noteq> 0, i, out ! i)) [0..<capacity]"
  using assms(1) unfolding request_tokens_prefix_stream_def
proof (cases rule: serialized_cases)
  case (refused h1)
  then show ?thesis by (auto dest: prefix_failed_core)
next
  case (entered guard lock e1)
  have "\<not> st_active (e\<lparr>pe_lock := lock\<rparr>)" using assms(2) by simp
  from prefix_stream_unlocked_outcome [OF entered(2) this] show ?thesis
    using entered(3) core_identity [of e1 "e\<lparr>pe_lock := lock\<rparr>"] by (auto simp: prefix_identity_matches_def)
qed

lemma request_tokens_prefix_ok:
  assumes "request_tokens_prefix env thread input hit capacity e h = ((STATUS_OK, x, out), e', h')"
  shows "prefix_identity_matches e input hit \<and> identity_of e' = identity_of e \<and> length out = capacity \<and> list_all (\<lambda>t. t < VOCAB_SIZE) out \<and>
    answered e input hit capacity out h'"
  using assms unfolding request_tokens_prefix_def
proof (cases rule: serialized_cases)
  case (refused h1)
  then show ?thesis by (auto dest: prefix_failed_core)
next
  case (entered guard lock e1)
  from prefix_unlocked_outcome [OF entered(2)] show ?thesis
    using entered(3) core_identity [of e1 "e\<lparr>pe_lock := lock\<rparr>"] by auto
qed

text \<open>Only a well-shaped request misses the identity.\<close>

lemma prefix_unlocked_shape:
  assumes "prefix_unlocked env e input hit capacity stream h = ((STATUS_UNSUPPORTED, x, out), e', h')"
  shows "prefix_shape_ok e input hit capacity stream"
proof (rule ccontr)
  assume "\<not> ?thesis"
  then have "prefix_unlocked env e input hit capacity stream h =
      prefix_failed e h prefix_result_init STATUS_INVALID_ARGUMENT ''resident_prefix_cache_request''
             ''resident prefix-cache request received an invalid token, prefix, output, or streaming shape''"
    unfolding prefix_unlocked_def by (simp only: not_True_eq_False if_True simp_thms)
  with assms show False by (auto dest: prefix_failed_core)
qed

lemma identity_miss_shape:
  assumes "request_tokens_prefix env thread input hit capacity e h = ((STATUS_UNSUPPORTED, x, out), e', h')"
    and "xr_failure_stage x = ''resident_prefix_cache_identity''"
  shows "hit \<noteq> 0 \<and> hit < length input"
  using assms(1) unfolding request_tokens_prefix_def
proof (cases rule: serialized_cases)
  case (refused h1)
  then have "xr_failure_stage x = c_copy 64 ''resident_prefix_cache_request_serialization''"
    by (auto simp: prefix_failed_def prefix_result_failure_def)
  then show ?thesis using assms(2) by (simp add: c_copy_def)
next
  case (entered guard lock e1)
  from prefix_unlocked_shape [OF entered(2)] show ?thesis by (simp add: prefix_shape_ok_def)
qed

lemma fallback_unlocked_cases:
  assumes "fallback_unlocked env thread input hit capacity e h = ((st, r, out), e', h')"
  obtains (hit) x where "st = STATUS_OK" "request_tokens_prefix env thread input hit capacity e h = ((STATUS_OK, x, out), e', h')"
      "\<not> fr_fallback_invoked r"
  | (failed) st1 x out1 e1 s m where "st \<noteq> STATUS_OK" "request_tokens_prefix env thread input hit capacity e h = ((st1, x, out1), e1, h')"
      "e' = set_request_failure s m e1"
  | (unseeded) x out1 e1 h1 st2 tokens e2 r1 where "st \<noteq> STATUS_OK"
      "request_tokens_prefix env thread input hit capacity e h = ((STATUS_UNSUPPORTED, x, out1), e1, h1)"
      "xr_failure_stage x = ''resident_prefix_cache_identity''" "request_tokens env (take hit input) 1 e1 h1 = ((st2, tokens), e2, h')"
      "\<not> seed_accepted st2 tokens" "seed_failed e2 h' r1 st2 tokens = ((st, r, out), e', h')"
  | (retried) x out1 e1 h1 st2 tokens e2 h2 st3 x3 out3 e3 where
      "request_tokens_prefix env thread input hit capacity e h = ((STATUS_UNSUPPORTED, x, out1), e1, h1)"
      "request_tokens env (take hit input) 1 e1 h1 = ((st2, tokens), e2, h2)" "seed_accepted st2 tokens"
      "request_tokens_prefix env thread input hit capacity e2 h2 = ((st3, x3, out3), e3, h')" "st = STATUS_OK \<longrightarrow> st3 = STATUS_OK \<and> out = out3 \<and> e' = e3 \<and> fr_fallback_invoked r"
      "\<exists>s m. e' = e3 \<or> e' = set_request_failure s m e3"
proof -
  obtain st1 x out1 e1 h1 where p1: "request_tokens_prefix env thread input hit capacity e h = ((st1, x, out1), e1, h1)" by (metis surj_pair)
  obtain st2 tokens e2 h2 where s2: "request_tokens env (take hit input) 1 e1 h1 = ((st2, tokens), e2, h2)" by (metis surj_pair)
  obtain st3 x3 out3 e3 h3 where p3: "request_tokens_prefix env thread input hit capacity e2 h2 = ((st3, x3, out3), e3, h3)" by (metis surj_pair)
  consider (a) "st1 = STATUS_OK" | (b) "st1 \<noteq> STATUS_OK" "st1 \<noteq> STATUS_UNSUPPORTED \<or> xr_failure_stage x \<noteq> ''resident_prefix_cache_identity''"
    | (c) "st1 = STATUS_UNSUPPORTED" "xr_failure_stage x = ''resident_prefix_cache_identity''" "\<not> seed_accepted st2 tokens"
    | (d) "st1 = STATUS_UNSUPPORTED" "xr_failure_stage x = ''resident_prefix_cache_identity''" "seed_accepted st2 tokens" by blast
  then show thesis
  proof cases
    case a
    then show thesis using assms p1 hit by (auto simp: fallback_unlocked_def fallback_result_init_def)
  next
    case b
    then show thesis using assms p1 failed by (auto simp: fallback_unlocked_def fallback_failed_def Let_def)
  next
    case c
    then obtain r1 where "seed_failed e2 h2 r1 st2 tokens = ((st, r, out), e', h')"
      using assms p1 s2 by (auto simp: fallback_unlocked_def Let_def)
    then show thesis using unseeded p1 s2 c by (auto simp: seed_failed_def fallback_failed_def Let_def split: if_splits)
  next
    case d
    then show thesis using assms p1 s2 p3 retried by (auto simp: fallback_unlocked_def fallback_failed_def Let_def split: if_splits)
  qed
qed

text \<open>A seed that is not accepted got as far as the provider, where the identity was emptied.\<close>

definition well_seeded :: "prefix_env \<Rightarrow> bool" where
  "well_seeded env \<longleftrightarrow> (\<forall>h tokens. \<not> seed_accepted (px_status (env h (OrdinaryPrefill tokens 1))) (px_tokens (env h (OrdinaryPrefill tokens 1))) \<longrightarrow>
     px_progress (env h (OrdinaryPrefill tokens 1)) = ProviderFailed)"

lemma request_tokens_reply:
  assumes "request_tokens env input capacity e h = ((st, tokens), e', h')" "input \<noteq> []" "capacity \<noteq> 0"
  shows "st = px_status (env h (OrdinaryPrefill input capacity)) \<and> tokens = px_tokens (env h (OrdinaryPrefill input capacity))"
  by (rule request_tokens_split [OF assms]) simp

lemma request_tokens_locked:
  assumes "request_tokens env input capacity e h = (res, e', h')" "engine_kept b e" "length input \<le> 2 ^ 32 - 1" "locked thread guards e"
  shows "engine_kept b e' \<and> locked thread guards e' \<and> completed_ticket e' = completed_ticket e"
  using request_tokens_keeps [OF assms(1-3)] locked_cong [of e' e] assms(4) by blast

lemma engine_ok_failure [simp]:
  "engine_kept b (set_request_failure s m e) = engine_kept b e" "locked thread guards (set_request_failure s m e) = locked thread guards e"
  "completed_ticket (set_request_failure s m e) = completed_ticket e"
  by (simp_all add: set_request_failure_def engine_kept_def identity_kept_def locked_def completed_ticket_def)

lemma seed_failed_state:
  "seed_failed e h r status tokens = ((st, r', out), e', h') \<Longrightarrow>
     \<exists>s m. e' = set_request_failure s m e \<or> e' = set_request_failure s m (e\<lparr>pc_session_valid := False\<rparr>)"
  by (auto simp: seed_failed_def fallback_failed_def Let_def split: if_splits)

lemma fallback_unlocked_keeps:
  assumes "fallback_unlocked env thread input hit capacity e h = (res, e', h')" "engine_kept b e" "locked thread [guard] e" "thread \<noteq> 0"
    and "length input \<le> 2 ^ 32 - 1" "b \<longrightarrow> well_seeded env"
  shows "engine_kept b e' \<and> locked thread [guard] e' \<and> completed_ticket e' = completed_ticket e"
proof -
  obtain st r out where res: "res = (st, r, out)" by (metis prod_cases3)
  have nested: "engine_kept b y \<and> locked thread [guard] y \<and> completed_ticket y = completed_ticket x"
    if "request_tokens_prefix env thread input hit capacity x g = (a, y, g')" "engine_kept b x" "locked thread [guard] x" for x y g g' a
    using request_tokens_prefix_keeps [OF that assms(4)] by simp
  have len: "length (take hit input) \<le> 2 ^ 32 - 1" using assms(5) by simp
  from assms(1) [unfolded res] show ?thesis
  proof (cases rule: fallback_unlocked_cases)
    case hit
    then show ?thesis using nested assms(2,3) by blast
  next
    case failed
    then show ?thesis using nested assms(2,3) by auto
  next
    case (unseeded x out1 e1 h1 st2 tokens e2 r1)
    note e1 = nested [OF unseeded(2) assms(2,3)]
    have ne: "take hit input \<noteq> []" using identity_miss_shape [OF unseeded(2,3)] by auto
    have e2: "engine_kept b e2 \<and> locked thread [guard] e2 \<and> completed_ticket e2 = completed_ticket e1"
      using request_tokens_locked [OF unseeded(4) _ len] e1 by blast
    have "e2\<lparr>pc_session_valid := False\<rparr> = e2" if b
    proof -
      have "px_progress (env h1 (OrdinaryPrefill (take hit input) 1)) = ProviderFailed"
        using request_tokens_reply [OF unseeded(4) ne] unseeded(5) assms(6) that by (simp add: well_seeded_def)
      then have "identity_of e2 = identity_of (begin_prefill e1)"
        using request_tokens_outcome [OF unseeded(4) _ len, where b = b] e1 ne by (simp add: engine_kept_def)
      then show ?thesis by (simp add: identity_of_def begin_prefill_def)
    qed
    then have "engine_kept b (e2\<lparr>pc_session_valid := False\<rparr>) \<and> locked thread [guard] (e2\<lparr>pc_session_valid := False\<rparr>) \<and>
        completed_ticket (e2\<lparr>pc_session_valid := False\<rparr>) = completed_ticket e2"
      using e2 by (cases b) (auto simp: engine_kept_def identity_kept_def locked_def completed_ticket_def)
    then show ?thesis using seed_failed_state [OF unseeded(6)] e1 e2 by auto
  next
    case (retried x out1 e1 h1 st2 tokens e2 h2 st3 x3 out3 e3)
    note e1 = nested [OF retried(1) assms(2,3)]
    have e2: "engine_kept b e2 \<and> locked thread [guard] e2 \<and> completed_ticket e2 = completed_ticket e1"
      using request_tokens_locked [OF retried(2) _ len] e1 by blast
    have "engine_kept b e3 \<and> locked thread [guard] e3 \<and> completed_ticket e3 = completed_ticket e2"
      using nested [OF retried(4)] e2 by blast
    then show ?thesis using retried(6) e1 e2 by auto
  qed
qed

lemma fallback_keeps:
  assumes "request_tokens_prefix_fallback env thread input hit capacity e h = (res, e', h')" "engine_kept b e" "locked thread [] e" "thread \<noteq> 0"
    and "length input \<le> 2 ^ 32 - 1" "b \<longrightarrow> well_seeded env"
  shows "engine_kept b e' \<and> locked thread [] e' \<and> completed_ticket e' = completed_ticket e + 1"
proof -
  have "engine_kept b e' \<and> locked thread [] e' \<and> completed_ticket e' = completed_ticket e + (if [] = ([] :: guard list) then 1 else 0)"
  proof (rule serialized_rule [OF assms(1) [unfolded request_tokens_prefix_fallback_def] assms(3,4), where P = "engine_kept b"])
    fix guard e h res e' h'
    assume a: "fallback_unlocked env thread input hit capacity e h = (res, e', h')" "engine_kept b e" "locked thread [guard] e"
    show "engine_kept b e' \<and> locked thread [guard] e' \<and> completed_ticket e' = completed_ticket e"
      by (rule fallback_unlocked_keeps [OF a assms(4-6)])
  qed (use assms(2) in simp_all)
  then show ?thesis by simp
qed

text \<open>Calls of the public entries by one thread, in any order.\<close>

datatype engine_op =
    Op_Prefix "u32 list" nat nat
  | Op_Prefix_Stream "u32 list" nat nat
  | Op_Prefix_Fallback "u32 list" nat nat
  | Op_Reset
  | Op_Stream "u32 list" nat
  | Op_Ordinary "u32 list" nat

fun run_op :: "prefix_env \<Rightarrow> u32 \<Rightarrow> engine_op \<Rightarrow> prefix_engine \<times> prefix_hist \<Rightarrow> prefix_engine \<times> prefix_hist" where
  "run_op env thread (Op_Prefix input hit capacity) (e, h) = snd (request_tokens_prefix env thread input hit capacity e h)"
| "run_op env thread (Op_Prefix_Stream input hit capacity) (e, h) = snd (request_tokens_prefix_stream env thread input hit capacity e h)"
| "run_op env thread (Op_Prefix_Fallback input hit capacity) (e, h) = snd (request_tokens_prefix_fallback env thread input hit capacity e h)"
| "run_op env thread Op_Reset (e, h) = snd (reset_prefix_cache env thread e h)"
| "run_op env thread (Op_Stream input capacity) (e, h) = snd (engine_request_stream env thread input capacity e h)"
| "run_op env thread (Op_Ordinary input capacity) (e, h) = snd (request_tokens env input capacity e h)"

fun op_tokens :: "engine_op \<Rightarrow> u32 list" where
  "op_tokens (Op_Prefix input hit capacity) = input"
| "op_tokens (Op_Prefix_Stream input hit capacity) = input"
| "op_tokens (Op_Prefix_Fallback input hit capacity) = input"
| "op_tokens Op_Reset = []"
| "op_tokens (Op_Stream input capacity) = input"
| "op_tokens (Op_Ordinary input capacity) = input"

fun op_locks :: "engine_op \<Rightarrow> nat" where
  "op_locks (Op_Ordinary input capacity) = 0"
| "op_locks _ = 1"

lemma run_op_keeps:
  assumes "run_op env thread op (e, h) = (e', h')" "engine_kept b e" "locked thread [] e" "thread \<noteq> 0"
    and "length (op_tokens op) \<le> 2 ^ 32 - 1" "b \<longrightarrow> well_seeded env"
  shows "engine_kept b e' \<and> locked thread [] e' \<and> completed_ticket e' = completed_ticket e + of_nat (op_locks op)"
proof -
  have snd: "\<exists>res. x = (res, e', h')" if "snd x = (e', h')" for x :: "'r \<times> prefix_engine \<times> prefix_hist" using that by (cases x) auto
  show ?thesis
  proof (cases op)
    case (Op_Prefix input hit capacity)
    then show ?thesis using assms snd request_tokens_prefix_keeps [of env thread input hit capacity e h _ e' h' b "[]"] by fastforce
  next
    case (Op_Prefix_Stream input hit capacity)
    then show ?thesis using assms snd request_tokens_prefix_stream_keeps [of env thread input hit capacity e h _ e' h' b] by fastforce
  next
    case (Op_Prefix_Fallback input hit capacity)
    then show ?thesis using assms snd fallback_keeps [of env thread input hit capacity e h _ e' h' b] by fastforce
  next
    case Op_Reset
    then show ?thesis using assms snd reset_prefix_cache_keeps [of env thread e h _ e' h' b] by fastforce
  next
    case (Op_Stream input capacity)
    then show ?thesis using assms snd engine_request_stream_keeps [of env thread input capacity e h _ e' h' b] by fastforce
  next
    case (Op_Ordinary input capacity)
    then show ?thesis using assms snd request_tokens_locked [of env input capacity e h _ e' h' b thread "[]"] by fastforce
  qed
qed

text \<open>
  C8. Whatever the provider, the heap and the callbacks answer, any sequence of prefix requests, streamed or not, requests with a seed, resets, streamed and
  ordinary requests keeps the engine in order: a session marked valid is complete, with tokens, a generation and the digest of exactly the tokens it holds;
  no stream stays open; and the serialization is idle again, with one ticket completed for every call that takes it, however it nests (an ordinary request
  does not take it). If, moreover, every seed that is not accepted got as far as the provider's prefill and failed there, then a session
  that is not valid is empty. Without that it need not be: see the last property of this theory.
\<close>

theorem engine_session_keeps:
  assumes "fold (run_op env thread) ops (e, h) = (e', h')" "identity_ok e" "\<not> st_active e" "locked thread [] e" "thread \<noteq> 0"
    and "list_all (\<lambda>op. length (op_tokens op) \<le> 2 ^ 32 - 1) ops"
  shows "identity_kept False e' \<and> (well_seeded env \<longrightarrow> identity_ok e') \<and> \<not> st_active e' \<and> lock_idle (pe_lock e') \<and>
         rs_last_completed_ticket (pe_lock e') = rs_last_completed_ticket (pe_lock e) + of_nat (sum_list (map op_locks ops))"
proof -
  have k: "engine_kept clean e' \<and> locked thread [] e' \<and> completed_ticket e' = completed_ticket e + of_nat (sum_list (map op_locks ops))"
    if "clean \<longrightarrow> well_seeded env" for clean
  proof -
    have "engine_kept clean e" using assms(2,3) by (auto simp: engine_kept_def identity_kept_def identity_ok_def)
    then show ?thesis
      using assms(1,4,6)
    proof (induction ops arbitrary: e h)
      case (Cons op ops)
      obtain e1 h1 where s: "run_op env thread op (e, h) = (e1, h1)" by (metis surj_pair)
      have l: "length (op_tokens op) \<le> 2 ^ 32 - 1" "list_all (\<lambda>op. length (op_tokens op) \<le> 2 ^ 32 - 1) ops" using Cons.prems(4) by simp_all
      note k = run_op_keeps [OF s Cons.prems(1,3) assms(5) l(1) that]
      have "fold (run_op env thread) ops (e1, h1) = (e', h')" using Cons.prems(2) s by simp
      from Cons.IH [OF _ this _ l(2)] k show ?case by simp
    qed simp
  qed
  show ?thesis
    using k [of False] k [of True] by (auto simp: engine_kept_def locked_def completed_ticket_def identity_kept_clean)
qed

text \<open>
  C21. A request with a seed that succeeds was answered on the state of exactly the prefix that the caller named: the identity on return is valid for these
  tokens, the provider was called on that session for this input, and the tokens are its answer, as many as asked for and all in the vocabulary. If no
  seed was needed, the identity is the one from before.
\<close>

theorem prefix_fallback_serves:
  assumes "request_tokens_prefix_fallback env thread input hit capacity e h = ((STATUS_OK, r, out), e', h')"
  shows "pc_session_valid e' \<and> pc_token_count e' = hit \<and> take hit (pc_buffer e') = take hit input \<and> length out = capacity \<and>
         list_all (\<lambda>t. t < VOCAB_SIZE) out \<and> answered e' input hit capacity out h' \<and>
         (fr_fallback_invoked r \<or> identity_of e' = identity_of e)"
  using assms unfolding request_tokens_prefix_fallback_def
proof (cases rule: serialized_cases)
  case (refused h1)
  then show ?thesis by (simp add: fallback_failed_def)
next
  case (entered guard lock e1)
  have served: "pc_session_valid e2 \<and> pc_token_count e2 = hit \<and> take hit (pc_buffer e2) = take hit input \<and> length out = capacity \<and>
      list_all (\<lambda>t. t < VOCAB_SIZE) out \<and> answered e2 input hit capacity out k \<and> identity_of e2 = identity_of e0"
    if "request_tokens_prefix env thread input hit capacity e0 g = ((STATUS_OK, x, out), e2, k)" for e0 g x e2 k
    using request_tokens_prefix_ok [OF that] by (auto simp: prefix_identity_matches_def identity_of_def answered_def)
  have e': "identity_of e' = identity_of e1" "answered e' = answered e1" "pc_session_valid e' = pc_session_valid e1"
      "pc_token_count e' = pc_token_count e1" "pc_buffer e' = pc_buffer e1"
    using entered(3) by simp_all
  from entered(2) show ?thesis
  proof (cases rule: fallback_unlocked_cases)
    case (hit x)
    from served [OF hit(2)] e' show ?thesis by simp
  next
    case (retried x out1 e4 h1 st2 tokens e2 h2 st3 x3 out3 e3)
    then have "request_tokens_prefix env thread input hit capacity e2 h2 = ((STATUS_OK, x3, out), e1, h')" "fr_fallback_invoked r" by auto
    with served e' show ?thesis by simp
  qed simp_all
qed

section \<open>Reset\<close>

lemma reset_contract_asked:
  assumes "reset_unlocked env e h = ((STATUS_OK, z), e', h')"
  shows "\<exists>p. (ProviderReset (reset_request_of e), p) \<in> set h' \<and> reset_contract (reset_request_of e) True (px_reset p) \<and>
    (pc_ptr e \<noteq> nullptr \<longrightarrow> fst (hd h') = PFree (pc_ptr e))"
proof -
  let ?g = "(BackendLoad, env h BackendLoad) # h"
  let ?c = "ProviderReset (reset_request_of e)"
  let ?p = "env ?g ?c"
  let ?z = "(px_reset ?p)\<lparr>zr_failure_stage := c_copy 64 (zr_failure_stage (px_reset ?p)), zr_failure := c_copy 192 (zr_failure (px_reset ?p))\<rparr>"
  have st: "st \<noteq> STATUS_OK \<Longrightarrow> reset_failed a b c st d f \<noteq> ((STATUS_OK, z), e', h')" for a b c st d f
    by (auto dest: reset_failed_core)
  have "reset_contract (reset_request_of e) (px_ok ?p) ?z \<and> h' = prefix_free env (pc_ptr e) ((?c, ?p) # ?g)"
    using assms st by (auto simp: reset_unlocked_def Let_def ask_def case_prod_beta clear_identity_def set_request_failure_def split: if_splits)
  then show ?thesis
    by (intro exI [of _ ?p]) (auto simp: reset_contract_def prefix_free_def)
qed

text \<open>
  C22. A reset that succeeds has named the engine's whole identity to the provider, which confirmed that the session of just this identity is gone and its
  memory released; the engine then holds no identity, the copy of the tokens is freed, and every prefix request is refused until a prefill records a new
  identity. A reset that fails leaves the identity as it was or removes it entirely.
\<close>

theorem reset_empties:
  assumes "reset_prefix_cache env thread e h = ((st, z), e', h')"
  shows "(st \<noteq> STATUS_OK \<and> identity_of e' = identity_of e \<or> empty_identity e') \<and>
         (st = STATUS_OK \<longrightarrow>
            (\<exists>p. (ProviderReset (reset_request_of e), p) \<in> set h' \<and> reset_contract (reset_request_of e) True (px_reset p)) \<and>
            (pc_ptr e \<noteq> nullptr \<longrightarrow> fst (hd h') = PFree (pc_ptr e)) \<and>
            (\<forall>env2 thread2 input hit capacity h2. fst (fst (request_tokens_prefix env2 thread2 input hit capacity e' h2)) \<noteq> STATUS_OK))"
  using assms unfolding reset_prefix_cache_def
proof (cases rule: serialized_cases)
  case (refused h1)
  then have "st \<noteq> STATUS_OK" "identity_of e' = identity_of e" using reset_failed_core by fastforce+
  then show ?thesis by simp
next
  case (entered guard lock e1)
  note o = reset_unlocked_outcome [OF entered(2)]
  have e': "identity_of e' = identity_of e1" "empty_identity e' = empty_identity e1"
    using entered(3) by (simp_all add: empty_identity_def)
  have refuse: "fst (fst (request_tokens_prefix env2 thread2 input hit capacity e' h2)) \<noteq> STATUS_OK" if "empty_identity e'"
    for env2 thread2 input hit capacity h2
  proof
    assume a: "fst (fst (request_tokens_prefix env2 thread2 input hit capacity e' h2)) = STATUS_OK"
    obtain x out e2 h3 where "request_tokens_prefix env2 thread2 input hit capacity e' h2 = ((STATUS_OK, x, out), e2, h3)"
      using a by (metis prod.collapse)
    from request_tokens_prefix_ok [OF this] that show False by (simp add: prefix_identity_matches_def empty_identity_def)
  qed
  have asked: "st = STATUS_OK \<longrightarrow> (\<exists>p. (ProviderReset (reset_request_of e), p) \<in> set h' \<and> reset_contract (reset_request_of e) True (px_reset p)) \<and>
      (pc_ptr e \<noteq> nullptr \<longrightarrow> fst (hd h') = PFree (pc_ptr e))"
    using reset_contract_asked [of env "e\<lparr>pe_lock := lock\<rparr>" _ z e1 h'] entered(2) by (auto simp: reset_request_of_def)
  have "st \<noteq> STATUS_OK \<and> identity_of e' = identity_of e \<or> empty_identity e'" using o e' by (auto simp: reset_keeps_def)
  then show ?thesis using asked refuse o e' by blast
qed

section \<open>A seed that fails early\<close>

lemma lock_irrelevant [simp]:
  "prefix_shape_ok (e\<lparr>pe_lock := l\<rparr>) input hit capacity stream = prefix_shape_ok e input hit capacity stream"
  "identity_consistent (e\<lparr>pe_lock := l\<rparr>) = identity_consistent e"
  unfolding prefix_shape_ok_def identity_consistent_def by simp_all

lemma acquire_initialized: "serialization_acquire thread op contended wait_ns s = Some (guard, s') \<Longrightarrow> rs_initialized s'"
  by (auto simp: serialization_acquire_def Let_def count_violation_def split: if_splits)

lemma acquire_initialized_total: "rs_initialized s \<Longrightarrow> \<exists>guard s'. serialization_acquire thread op contended wait_ns s = Some (guard, s')"
  by (auto simp: serialization_acquire_def Let_def)

lemma serialized_enter:
  assumes "rs_initialized (pe_lock e)"
  shows "\<exists>guard l. rs_initialized l \<and> serialized env thread op refused body e h =
    (let (res, e1, h1) = body (e\<lparr>pe_lock := l\<rparr>) ((LockWait op, env h (LockWait op)) # h)
     in (res, e1\<lparr>pe_lock := serialization_release thread guard (pe_lock e1)\<rparr>, h1))"
proof -
  let ?w = "env h (LockWait op)"
  obtain guard l where a: "serialization_acquire thread op (px_ok ?w) (px_num ?w) (pe_lock e) = Some (guard, l)"
    using acquire_initialized_total [OF assms] by blast
  with acquire_initialized [OF a] show ?thesis using assms by (intro exI [of _ guard] exI [of _ l]) (simp add: serialized_def ask_def)
qed

lemma release_initialized [simp]: "rs_initialized (serialization_release thread guard s) = rs_initialized s"
  by (simp add: serialization_release_def Let_def count_violation_def)

lemma prefix_unlocked_miss:
  assumes "prefix_shape_ok e input hit capacity stream" "list_all (\<lambda>t. t < VOCAB_SIZE) input" "\<not> prefix_identity_matches e input hit"
  shows "prefix_unlocked env e input hit capacity stream h =
    prefix_failed e h (described_result input hit capacity) STATUS_UNSUPPORTED ''resident_prefix_cache_identity''
      ''resident prefix-cache request does not exactly match the live cached-prefix token identity''"
  using assms by (simp add: prefix_unlocked_def Let_def)

text \<open>The state up to lock and failure text.\<close>

definition alike :: "prefix_engine \<Rightarrow> prefix_engine \<Rightarrow> bool" where
  "alike e e' \<longleftrightarrow> identity_of e' = identity_of e \<and> pe_ready e' = pe_ready e \<and> pe_manifest_loaded e' = pe_manifest_loaded e \<and>
     st_active e' = st_active e \<and> rs_initialized (pe_lock e') = rs_initialized (pe_lock e)"

lemma request_tokens_prefix_miss:
  assumes "prefix_shape_ok e input hit capacity False" "list_all (\<lambda>t. t < VOCAB_SIZE) input" "\<not> prefix_identity_matches e input hit"
    and "rs_initialized (pe_lock e)"
  shows "\<exists>x e' h'. request_tokens_prefix env thread input hit capacity e h = ((STATUS_UNSUPPORTED, x, []), e', h') \<and>
    xr_failure_stage x = ''resident_prefix_cache_identity'' \<and> alike e e'"
proof -
  obtain guard l where l: "rs_initialized l" and run: "request_tokens_prefix env thread input hit capacity e h =
      (let (res, e1, h1) = prefix_unlocked env (e\<lparr>pe_lock := l\<rparr>) input hit capacity False ((LockWait OPERATION_PREFIX, env h (LockWait OPERATION_PREFIX)) # h)
       in (res, e1\<lparr>pe_lock := serialization_release thread guard (pe_lock e1)\<rparr>, h1))"
    using serialized_enter [OF assms(4)] unfolding request_tokens_prefix_def by blast
  have "prefix_shape_ok (e\<lparr>pe_lock := l\<rparr>) input hit capacity False" "\<not> prefix_identity_matches (e\<lparr>pe_lock := l\<rparr>) input hit"
    using assms(1,3) by simp_all
  from prefix_unlocked_miss [OF this(1) assms(2) this(2)] l assms(4) show ?thesis
    unfolding run by (simp add: prefix_failed_def prefix_result_failure_def set_request_failure_def alike_def identity_of_def c_copy_def)
qed

lemma request_tokens_before_provider:
  assumes "px_progress (env h (OrdinaryPrefill input capacity)) = BeforeProvider" "px_emissions (env h (OrdinaryPrefill input capacity)) = []"
    and "input \<noteq> []" "capacity \<noteq> 0"
  shows "\<exists>e' h'. request_tokens env input capacity e h =
    ((px_status (env h (OrdinaryPrefill input capacity)), px_tokens (env h (OrdinaryPrefill input capacity))), e', h') \<and> alike e e'"
  using assms by (simp add: request_tokens_def after_prefill_def ask_def alike_def set_request_failure_def identity_of_def)

lemma seed_failed_drops_flag:
  assumes "alike e e2" "status \<noteq> STATUS_OK" "seed_failed e2 h r status [] = (res, e', h')"
  shows "alike (e\<lparr>pc_session_valid := False\<rparr>) e'"
proof -
  have "e' = fst (snd (seed_failed e2 h r status []))" by (simp add: assms(3))
  then obtain s m where "e' = set_request_failure s m (e2\<lparr>pc_session_valid := False\<rparr>)"
    by (simp add: seed_failed_def fallback_failed_def Let_def)
  then show ?thesis using assms(1) by (auto simp: alike_def identity_of_def set_request_failure_def)
qed

lemma fallback_early_seed_failure:
  assumes "request_tokens_prefix_fallback env thread input hit capacity e h = (res, e', h')" "rs_initialized (pe_lock e)"
    and "prefix_shape_ok e input hit capacity False" "list_all (\<lambda>t. t < VOCAB_SIZE) input" "\<not> prefix_identity_matches e input hit"
    and seed: "\<And>g. px_progress (env g (OrdinaryPrefill (take hit input) 1)) = BeforeProvider \<and>
      px_status (env g (OrdinaryPrefill (take hit input) 1)) \<noteq> STATUS_OK \<and> px_tokens (env g (OrdinaryPrefill (take hit input) 1)) = [] \<and>
      px_emissions (env g (OrdinaryPrefill (take hit input) 1)) = []"
  shows "alike (e\<lparr>pc_session_valid := False\<rparr>) e'"
proof -
  obtain guard l where l: "rs_initialized l" and run: "request_tokens_prefix_fallback env thread input hit capacity e h =
      (let (res, e1, h1) = fallback_unlocked env thread input hit capacity (e\<lparr>pe_lock := l\<rparr>)
         ((LockWait OPERATION_PREFIX_FALLBACK, env h (LockWait OPERATION_PREFIX_FALLBACK)) # h)
       in (res, e1\<lparr>pe_lock := serialization_release thread guard (pe_lock e1)\<rparr>, h1))"
    using serialized_enter [OF assms(2)] unfolding request_tokens_prefix_fallback_def by blast
  let ?e = "e\<lparr>pe_lock := l\<rparr>"
  let ?h = "(LockWait OPERATION_PREFIX_FALLBACK, env h (LockWait OPERATION_PREFIX_FALLBACK)) # h"
  have "prefix_shape_ok ?e input hit capacity False" "\<not> prefix_identity_matches ?e input hit" "rs_initialized (pe_lock ?e)"
    using assms(3,5) l by simp_all
  from request_tokens_prefix_miss [OF this(1) assms(4) this(2,3)]
  obtain x e1 h1 where p1: "request_tokens_prefix env thread input hit capacity ?e ?h = ((STATUS_UNSUPPORTED, x, []), e1, h1)"
      "xr_failure_stage x = ''resident_prefix_cache_identity''" "alike ?e e1" by blast
  have ne: "take hit input \<noteq> []" using assms(3) by (auto simp: prefix_shape_ok_def)
  obtain e2 h2 where s2: "request_tokens env (take hit input) 1 e1 h1 =
      ((px_status (env h1 (OrdinaryPrefill (take hit input) 1)), []), e2, h2)" "alike e1 e2"
    using request_tokens_before_provider [of env h1 "take hit input" 1 e1] seed [of h1] ne by auto
  have "\<exists>r. seed_failed e2 h2 r (px_status (env h1 (OrdinaryPrefill (take hit input) 1))) [] = fallback_unlocked env thread input hit capacity ?e ?h"
    using p1 s2 by (simp add: fallback_unlocked_def seed_accepted_def) blast
  then obtain r where sf: "seed_failed e2 h2 r (px_status (env h1 (OrdinaryPrefill (take hit input) 1))) [] =
      fallback_unlocked env thread input hit capacity ?e ?h" by blast
  obtain res3 e3 h3 where f: "fallback_unlocked env thread input hit capacity ?e ?h = (res3, e3, h3)" by (metis prod_cases3)
  have "alike ?e e2" using p1(3) s2(2) by (simp add: alike_def)
  from seed_failed_drops_flag [OF this _ sf [unfolded f]] seed [of h1] have "alike (?e\<lparr>pc_session_valid := False\<rparr>) e3" by blast
  then show ?thesis using assms(1,2) l unfolding run f by (auto simp: alike_def identity_of_def)
qed

text \<open>
  C40. When the seed of a prefix request fails before it reaches the provider, the request drops only the valid flag of the identity that was resident and
  leaves its token count, generation and digest behind. The identity is then neither complete nor empty, and the next reset is refused as
  inconsistent without asking the provider, whose session stays resident.
\<close>

theorem failed_seed_wedges_reset:
  assumes "request_tokens_prefix_fallback env thread input hit capacity e h = (res, e', h')" "rs_initialized (pe_lock e)" "identity_ok e"
    and "pc_session_valid e" "pe_ready e" "pe_manifest_loaded e"
    and "prefix_shape_ok e input hit capacity False" "list_all (\<lambda>t. t < VOCAB_SIZE) input" "\<not> prefix_identity_matches e input hit"
    and "\<And>g. px_progress (env g (OrdinaryPrefill (take hit input) 1)) = BeforeProvider \<and>
      px_status (env g (OrdinaryPrefill (take hit input) 1)) \<noteq> STATUS_OK \<and> px_tokens (env g (OrdinaryPrefill (take hit input) 1)) = [] \<and>
      px_emissions (env g (OrdinaryPrefill (take hit input) 1)) = []"
    and "reset_prefix_cache env2 thread2 e' h' = ((st, z), e2, h2)"
  shows "\<not> pc_session_valid e' \<and> pc_token_count e' = pc_token_count e \<and> \<not> identity_consistent e' \<and> st = STATUS_UNSUPPORTED \<and>
         zr_failure_stage z = ''resident_prefix_cache_reset_core_identity'' \<and> identity_of e2 = identity_of e' \<and> h2 = (LockWait OPERATION_PREFIX_RESET, env2 h' (LockWait OPERATION_PREFIX_RESET)) # h'"
proof -
  have e': "alike (e\<lparr>pc_session_valid := False\<rparr>) e'" by (rule fallback_early_seed_failure [OF assms(1,2,7-10)])
  then have f: "\<not> pc_session_valid e'" "pc_token_count e' = pc_token_count e" "pe_ready e'" "pe_manifest_loaded e'" "\<not> st_active e'" "rs_initialized (pe_lock e')"
    using assms(2,5-7) by (auto simp: alike_def identity_of_def prefix_shape_ok_def)
  have bad: "\<not> identity_consistent e'" using f(1,2) assms(3,4) by (simp add: identity_consistent_def identity_ok_def)
  obtain guard l where run: "reset_prefix_cache env2 thread2 e' h' =
      (let (res, e1, h1) = reset_unlocked env2 (e'\<lparr>pe_lock := l\<rparr>) ((LockWait OPERATION_PREFIX_RESET, env2 h' (LockWait OPERATION_PREFIX_RESET)) # h')
       in (res, e1\<lparr>pe_lock := serialization_release thread2 guard (pe_lock e1)\<rparr>, h1))"
    using serialized_enter [OF f(6)] unfolding reset_prefix_cache_def by blast
  from assms(11) f bad show ?thesis
    unfolding run
    by (auto simp: reset_unlocked_def reset_failed_def reset_result_failure_def set_request_failure_def identity_of_def c_copy_def)
qed

section \<open>Witnesses\<close>

definition plain_answer :: prefix_reply where
  "plain_answer = \<lparr>px_ok = True, px_num = 0, px_text = [], px_export = True, px_result = zero_result, px_reset = zero_reset_result,
     px_status = STATUS_OK, px_tokens = [], px_progress = BeforeProvider, px_failure_stage = [], px_failure = [], px_emissions = [], px_early_emissions = []\<rparr>"

text \<open>What a provider that keeps its contract answers: the token 5 every time, after 3 ns and then every 4 ns.\<close>

definition honest_result :: "prefix_provider_request \<Rightarrow> prefix_result" where
  "honest_result q =
     (let n = pr_output_token_capacity q; s = pr_suffix_token_count q
      in zero_result\<lparr>xr_abi_ok := True, xr_completed := True, xr_batch_size := 1, xr_provider_invoked := True, xr_copy_on_write := True,
           xr_state_restored := True, xr_prefix_token_count := pr_prefix_token_count q, xr_suffix_token_count := s,
           xr_output_token_capacity := n, xr_output_token_count := n, xr_teacher_count := s, xr_mutated_committed := s + n - 1,
           xr_output_timing_count := n, xr_session_generation := pr_session_generation q, xr_prompt_digest := pr_prompt_digest q,
           xr_suffix_digest := pr_suffix_digest q, xr_teacher_digest := token_digest (replicate (unat s) 6),
           xr_output_digest := token_digest (replicate (unat n) 5), xr_shadow_bytes := 1, xr_decode_elapsed_ns := 1000,
           xr_ttft_elapsed_ns := 3, xr_tpot_elapsed_ns := of_nat (4 * (unat n - 1)), xr_total_elapsed_ns := 1000,
           xr_tpot_sample_count := of_nat (unat n - 1), xr_teacher_tokens := (\<lambda>_. 6), xr_output_tokens := (\<lambda>_. 5),
           xr_step_ns := (\<lambda>i. if i = 0 then 3 else 4), xr_end_ns := (\<lambda>i. of_nat (4 * i))\<rparr>)"

definition honest_reset :: "reset_request \<Rightarrow> reset_result" where
  "honest_reset q = zero_reset_result\<lparr>zr_abi_ok := True, zr_completed := True, zr_provider_invoked := True, zr_provider_completed := True,
     zr_owner_match := True, zr_idempotent := (if zq_session_valid q then 0 else 1), zr_valid_before := (if zq_session_valid q then 1 else 0),
     zr_tokens_before := zq_prefix_token_count q, zr_generation_before := zq_session_generation q, zr_digest_before := zq_prompt_digest q,
     zr_bytes_before := 4096, zr_bytes_released := 4096, zr_weights_retained := True\<rparr>"

text \<open>\<open>stuck\<close>: ordinary requests fail before they reach the provider.\<close>

fun resident_provider :: "bool \<Rightarrow> prefix_env" where
  "resident_provider stuck h (ProviderPrefix q) = plain_answer\<lparr>px_result := honest_result q,
     px_emissions := map (\<lambda>i. (pr_session_generation q, of_nat i, 5, 0, 0)) [0..<unat (pr_output_token_capacity q)]\<rparr>"
| "resident_provider stuck h (ProviderReset q) = plain_answer\<lparr>px_reset := honest_reset q\<rparr>"
| "resident_provider stuck h (OrdinaryPrefill tokens capacity) =
     (if stuck then plain_answer\<lparr>px_status := STATUS_UNSUPPORTED\<rparr>
      else plain_answer\<lparr>px_tokens := [1], px_progress := ProviderDone True (of_nat (length tokens)) 7 (token_digest tokens) 1,
             px_emissions := [(7, 0, 1, 0, 0)]\<rparr>)"
| "resident_provider stuck h (PRealloc p n) = plain_answer\<lparr>px_num := 64\<rparr>"
| "resident_provider stuck h _ = plain_answer"

definition fresh_engine :: prefix_engine where
  "fresh_engine = \<lparr>pe_ready = True, pe_manifest_loaded = True, pe_lock = new_serialization, pc_session_valid = False, pc_ptr = 0, pc_buffer = [],
     pc_token_count = 0, pc_token_capacity = 0, pc_generation = 0, pc_prompt_digest = 0, st_active = False, st_callback = False,
     st_last_elapsed_ns = 0, st_callback_count = 0, st_emitted = (\<lambda>_. 0), st_cancelled = False, st_contract_failed = False,
     pe_failure_stage = [], pe_failure = []\<rparr>"

definition warm_engine :: prefix_engine where
  "warm_engine = fresh_engine\<lparr>pc_session_valid := True, pc_ptr := 64, pc_buffer := [5], pc_token_count := 1, pc_token_capacity := 1,
     pc_generation := 7, pc_prompt_digest := token_digest [5]\<rparr>"

lemma honest_conclude:
  assumes "length input = 2" "pc_prompt_digest e = token_digest (take 1 input)" "e' = set_request_failure s m e"
    and "pc_generation e1 = pc_generation e"
  shows "\<exists>x. prefix_conclude env e1 True (honest_result (provider_request ie e' input 1 2 stream)) input 1 2 h = ((STATUS_OK, x, [5, 5]), e1, h)"
proof -
  let ?r = "honest_result (provider_request ie e' input 1 2 stream)"
  have u: "unat (2 :: u32) = 2" "unat (1 :: u32) = 1" by simp_all
  have l: "[Suc 0..<2] = [1]" "[0..<2] = [0, Suc 0]" "replicate 2 x = [x, x]" for x :: u32 by (simp_all add: upt_rec numeral_2_eq_2)
  note n = u l
  have t: "output_timing_valid ?r"
    by (simp add: output_timing_valid_def honest_result_def Let_def assms(1) provider_request_def zero_result_def n bridge_limits)
  have "prefix_contract e1 True ?r input 1 2"
    using assms t unfolding prefix_contract_def
    by (simp add: honest_result_def Let_def assms(1) provider_request_def zero_result_def result_digest_def n bridge_limits set_request_failure_def)
  then have "prefix_contract e1 True (?r\<lparr>xr_failure_stage := c_copy 64 (xr_failure_stage ?r), xr_failure := c_copy 192 (xr_failure ?r)\<rparr>) input 1 2"
    using prefix_contract_strings by simp
  then show ?thesis
    unfolding prefix_conclude_def Let_def
    by (simp add: honest_result_def Let_def assms(1) provider_request_def zero_result_def n bridge_limits)
qed

lemma honest_emissions:
  assumes "st_active e" "st_callback e" "st_callback_count e = 0" "\<not> st_cancelled e" "\<not> st_contract_failed e" "st_last_elapsed_ns e = 0"
  shows "\<exists>e' h'. deliver_tokens (prefix_stream_bridge (resident_provider stuck) g) [(g, 0, 5, 0, 0), (g, 1, 5, 0, 0)] e h = (e', h') \<and>
    stream_matches (e'\<lparr>st_active := False\<rparr>) [5, 5] \<and> pc_generation e' = pc_generation e"
  using assms
  by (simp add: prefix_stream_bridge_def emit_event_def ask_def plain_answer_def bridge_limits stream_matches_def less_Suc_eq)

lemma honest_unlocked:
  assumes "length input = 2" "list_all (\<lambda>t. t < VOCAB_SIZE) input" "prefix_shape_ok e input 1 2 stream" "prefix_identity_matches e input 1"
    and "stream \<Longrightarrow> st_callback_count e = 0 \<and> \<not> st_cancelled e \<and> \<not> st_contract_failed e \<and> st_last_elapsed_ns e = 0"
  shows "\<exists>x e' h'. prefix_unlocked (resident_provider stuck) e input 1 2 stream h = ((STATUS_OK, x, [5, 5]), e', h') \<and>
    (stream \<longrightarrow> stream_matches (e'\<lparr>st_active := False\<rparr>) [5, 5])"
proof -
  let ?e = "set_request_failure [] [] e"
  let ?q = "provider_request True ?e input 1 2 stream"
  let ?g = "(IgnoreEos, plain_answer) # (BackendLoad, plain_answer) # h"
  let ?p = "resident_provider stuck ?g (ProviderPrefix ?q)"
  let ?d = "if stream then deliver_tokens (prefix_stream_bridge (resident_provider stuck) (pc_generation ?e)) (px_emissions ?p) ?e ((ProviderPrefix ?q, ?p) # ?g)
    else (?e, (ProviderPrefix ?q, ?p) # ?g)"
  have digest: "pc_prompt_digest e = token_digest (take 1 input)" using assms(4) by (simp add: prefix_identity_matches_def)
  have "[0..<2] = [0, Suc 0]" by (simp add: upt_rec numeral_2_eq_2)
  then have em: "px_emissions ?p = [(pc_generation ?e, 0, 5, 0, 0), (pc_generation ?e, 1, 5, 0, 0)]"
    by (simp add: provider_request_def)
  obtain e1 h1 where d: "?d = (e1, h1)" "stream \<longrightarrow> stream_matches (e1\<lparr>st_active := False\<rparr>) [5, 5]" "pc_generation e1 = pc_generation e"
  proof (cases stream)
    case True
    then have "st_active ?e" "st_callback ?e" "st_callback_count ?e = 0" "\<not> st_cancelled ?e" "\<not> st_contract_failed ?e" "st_last_elapsed_ns ?e = 0"
      using assms(3,5) by (auto simp: prefix_shape_ok_def set_request_failure_def)
    from honest_emissions [OF this, of stuck "pc_generation ?e" "(ProviderPrefix ?q, ?p) # ?g"] True that show thesis
      unfolding em by (auto simp: set_request_failure_def)
  next
    case False
    then show thesis using that by (simp add: set_request_failure_def)
  qed
  obtain x where "prefix_conclude (resident_provider stuck) e1 True (honest_result ?q) input 1 2 h1 = ((STATUS_OK, x, [5, 5]), e1, h1)"
    using honest_conclude [OF assms(1) digest refl d(3)] by blast
  moreover have "prefix_unlocked (resident_provider stuck) e input 1 2 stream h =
      (case ?d of (e, h) \<Rightarrow> prefix_conclude (resident_provider stuck) e True (honest_result ?q) input 1 2 h)"
    unfolding prefix_unlocked_def Let_def using assms(2-4) by (simp add: ask_def plain_answer_def)
  ultimately show ?thesis using d by simp
qed

lemma honest_prefix:
  assumes "length input = 2" "list_all (\<lambda>t. t < VOCAB_SIZE) input" "prefix_shape_ok e input 1 2 False" "prefix_identity_matches e input 1"
    and "rs_initialized (pe_lock e)"
  shows "\<exists>x e' h'. request_tokens_prefix (resident_provider stuck) thread input 1 2 e h = ((STATUS_OK, x, [5, 5]), e', h')"
proof -
  let ?w = "(LockWait OPERATION_PREFIX, resident_provider stuck h (LockWait OPERATION_PREFIX))"
  obtain guard l where run: "request_tokens_prefix (resident_provider stuck) thread input 1 2 e h =
      (let (res, e1, h1) = prefix_unlocked (resident_provider stuck) (e\<lparr>pe_lock := l\<rparr>) input 1 2 False (?w # h)
       in (res, e1\<lparr>pe_lock := serialization_release thread guard (pe_lock e1)\<rparr>, h1))"
    using serialized_enter [OF assms(5)] unfolding request_tokens_prefix_def by blast
  show ?thesis
    using honest_unlocked [OF assms(1,2), of "e\<lparr>pe_lock := l\<rparr>" False stuck "?w # h"] assms(3,4) unfolding run by auto
qed

lemma honest_stream:
  assumes "length input = 2" "list_all (\<lambda>t. t < VOCAB_SIZE) input" "prefix_shape_ok e input 1 2 False" "prefix_identity_matches e input 1"
    and "rs_initialized (pe_lock e)"
  shows "\<exists>x e' h'. request_tokens_prefix_stream (resident_provider stuck) thread input 1 2 e h = ((STATUS_OK, x, [5, 5]), e', h')"
proof -
  let ?w = "(LockWait OPERATION_STREAM, resident_provider stuck h (LockWait OPERATION_STREAM))"
  obtain guard l where run: "request_tokens_prefix_stream (resident_provider stuck) thread input 1 2 e h =
      (let (res, e1, h1) = prefix_stream_unlocked (resident_provider stuck) input 1 2 (e\<lparr>pe_lock := l\<rparr>) (?w # h)
       in (res, e1\<lparr>pe_lock := serialization_release thread guard (pe_lock e1)\<rparr>, h1))"
    using serialized_enter [OF assms(5)] unfolding request_tokens_prefix_stream_def by blast
  let ?e = "start_stream (e\<lparr>pe_lock := l\<rparr>)"
  have "prefix_shape_ok ?e input 1 2 True" "prefix_identity_matches ?e input 1"
    using assms(3,4) by (auto simp: prefix_shape_ok_def prefix_identity_matches_def start_stream_def)
  then have "\<exists>x e' h'. prefix_unlocked (resident_provider stuck) ?e input 1 2 True (?w # h) = ((STATUS_OK, x, [5, 5]), e', h') \<and>
      (True \<longrightarrow> stream_matches (e'\<lparr>st_active := False\<rparr>) [5, 5])"
    by (intro honest_unlocked [OF assms(1,2)]) (simp_all add: start_stream_def)
  then show ?thesis unfolding run using assms(3) by (auto simp: prefix_stream_unlocked_def prefix_shape_ok_def)
qed

lemma honest_seed:
  assumes "pc_ptr e = 64" "pc_token_capacity e = 1" "\<not> st_active e" "pe_ready e" "pe_manifest_loaded e"
  shows "\<exists>e' h'. request_tokens (resident_provider False) [8] 1 e h = ((STATUS_OK, [1]), e', h') \<and> prefix_identity_matches e' [8, 6] 1 \<and>
    \<not> st_active e' \<and> pe_lock e' = pe_lock e"
  using assms
  by (simp add: request_tokens_def after_prefill_def record_identity_def begin_prefill_def set_request_failure_def ask_def plain_answer_def emit_event_def
      prefix_identity_matches_def nullptr_def)

lemma warm_engine_state:
  "rs_initialized (pe_lock warm_engine)" "identity_ok warm_engine" "pc_session_valid warm_engine" "pe_ready warm_engine" "pe_manifest_loaded warm_engine"
  "\<not> st_active warm_engine" "pc_ptr warm_engine = 64" "pc_token_count warm_engine = 1" "pc_token_capacity warm_engine = 1"
  "prefix_shape_ok warm_engine [x, 6] 1 2 False" "prefix_identity_matches warm_engine [5, 6] 1" "\<not> prefix_identity_matches warm_engine [8, 6] 1"
  by (simp_all add: warm_engine_def fresh_engine_def new_serialization_def identity_ok_def prefix_shape_ok_def prefix_identity_matches_def bridge_limits nullptr_def)

lemma small_tokens: "list_all (\<lambda>t. t < VOCAB_SIZE) [5, 6 :: u32]" "list_all (\<lambda>t. t < VOCAB_SIZE) [8, 6 :: u32]"
  by (simp_all add: bridge_limits)

lemma honest_fallback:
  "\<exists>r e' h'. request_tokens_prefix_fallback (resident_provider False) thread [8, 6] 1 2 warm_engine [] = ((STATUS_OK, r, [5, 5]), e', h') \<and> fr_fallback_invoked r"
proof -
  let ?env = "resident_provider False"
  let ?w = "(LockWait OPERATION_PREFIX_FALLBACK, ?env [] (LockWait OPERATION_PREFIX_FALLBACK))"
  obtain guard l where l: "rs_initialized l" and run: "request_tokens_prefix_fallback ?env thread [8, 6] 1 2 warm_engine [] =
      (let (res, e1, h1) = fallback_unlocked ?env thread [8, 6] 1 2 (warm_engine\<lparr>pe_lock := l\<rparr>) [?w]
       in (res, e1\<lparr>pe_lock := serialization_release thread guard (pe_lock e1)\<rparr>, h1))"
    using serialized_enter [OF warm_engine_state(1)] unfolding request_tokens_prefix_fallback_def by blast
  let ?e = "warm_engine\<lparr>pe_lock := l\<rparr>"
  obtain x e1 h1 where p1: "request_tokens_prefix ?env thread [8, 6] 1 2 ?e [?w] = ((STATUS_UNSUPPORTED, x, []), e1, h1)"
      "xr_failure_stage x = ''resident_prefix_cache_identity''" "alike ?e e1"
    using request_tokens_prefix_miss [of ?e "[8, 6]" 1 2 ?env thread "[?w]"] warm_engine_state small_tokens(2) l by auto
  have e1: "pc_ptr e1 = 64" "pc_token_capacity e1 = 1" "\<not> st_active e1" "pe_ready e1" "pe_manifest_loaded e1" "rs_initialized (pe_lock e1)"
    using p1(3) warm_engine_state l by (auto simp: alike_def identity_of_def)
  obtain e2 h2 where s2: "request_tokens ?env [8] 1 e1 h1 = ((STATUS_OK, [1]), e2, h2)" "prefix_identity_matches e2 [8, 6] 1" "\<not> st_active e2" "rs_initialized (pe_lock e2)"
    using honest_seed [OF e1(1-5), of h1] e1(6) by auto
  have "prefix_shape_ok e2 [8, 6] 1 2 False" using s2(3) by (simp add: prefix_shape_ok_def bridge_limits)
  then obtain x3 e3 h3 where p3: "request_tokens_prefix ?env thread [8, 6] 1 2 e2 h2 = ((STATUS_OK, x3, [5, 5]), e3, h3)"
    using honest_prefix [OF _ small_tokens(2) _ s2(2,4)] by fastforce
  have "seed_accepted STATUS_OK [1]" by (simp add: seed_accepted_def bridge_limits)
  then show ?thesis unfolding run fallback_unlocked_def using p1 s2 p3 by simp
qed

theorem prefix_stream_exact_witness:
  "\<exists>r e' h'. request_tokens_prefix_stream (resident_provider False) 1 [5, 6] 1 2 warm_engine [] = ((STATUS_OK, r, [5, 5]), e', h') \<and>
     identity_of e' = identity_of warm_engine \<and> tokens_streamed h' = [(False, 0, 5), (True, 1, 5)]"
proof -
  obtain r e' h' where r: "request_tokens_prefix_stream (resident_provider False) 1 [5, 6] 1 2 warm_engine [] = ((STATUS_OK, r, [5, 5]), e', h')"
    using honest_stream [OF _ small_tokens(1) warm_engine_state(10,11,1), of False 1 "[]"] by auto
  have "[0..<2] = [0, Suc 0]" by (simp add: upt_rec numeral_2_eq_2)
  then show ?thesis using r prefix_stream_exact [OF r warm_engine_state(6)] by (simp add: tokens_streamed_def [of "[]"])
qed

lemma fresh_engine_ok: "identity_ok fresh_engine" "\<not> st_active fresh_engine" "locked thread [] fresh_engine"
  by (simp_all add: identity_ok_def fresh_engine_def locked_def new_serialization_def lock_common_def lock_idle_def operation_total_def)

lemma resident_provider_seeds: "well_seeded (resident_provider False)"
  by (simp add: well_seeded_def seed_accepted_def plain_answer_def bridge_limits)

theorem engine_session_keeps_witness:
  "case fold (run_op (resident_provider False) 1)
      [Op_Ordinary [5] 1, Op_Prefix_Stream [5, 6] 1 2, Op_Prefix_Fallback [8, 6] 1 1, Op_Reset] (fresh_engine, []) of
     (e', h') \<Rightarrow> identity_kept False e' \<and> identity_ok e' \<and> \<not> st_active e' \<and> lock_idle (pe_lock e') \<and>
       rs_last_completed_ticket (pe_lock e') = 3"
proof -
  let ?ops = "[Op_Ordinary [5] 1, Op_Prefix_Stream [5, 6] 1 2, Op_Prefix_Fallback [8, 6] 1 1, Op_Reset]"
  obtain e' h' where run: "fold (run_op (resident_provider False) 1) ?ops (fresh_engine, []) = (e', h')" by (metis surj_pair)
  have "(1 :: u32) \<noteq> 0" "list_all (\<lambda>op. length (op_tokens op) \<le> 2 ^ 32 - 1) ?ops" by simp_all
  note k = engine_session_keeps [OF run fresh_engine_ok this]
  have "rs_last_completed_ticket (pe_lock fresh_engine) = 0" by (simp add: fresh_engine_def new_serialization_def)
  then show ?thesis using k resident_provider_seeds unfolding run by simp
qed

theorem prefix_fallback_serves_witness:
  "\<exists>r e' h'. request_tokens_prefix_fallback (resident_provider False) 1 [8, 6] 1 2 warm_engine [] = ((STATUS_OK, r, [5, 5]), e', h') \<and>
     fr_fallback_invoked r \<and> pc_session_valid e' \<and> take 1 (pc_buffer e') = [8] \<and> answered e' [8, 6] 1 2 [5, 5] h'"
proof -
  obtain r e' h' where r: "request_tokens_prefix_fallback (resident_provider False) 1 [8, 6] 1 2 warm_engine [] = ((STATUS_OK, r, [5, 5]), e', h')"
      "fr_fallback_invoked r" using honest_fallback by blast
  show ?thesis using r prefix_fallback_serves [OF r(1)] by simp
qed

theorem reset_empties_witness:
  "case reset_prefix_cache (resident_provider False) 1 warm_engine [] of
     ((st, z), e', h') \<Rightarrow> st = STATUS_OK \<and> empty_identity e' \<and> fst (hd h') = PFree 64"
proof -
  let ?r = "reset_prefix_cache (resident_provider False) 1 warm_engine []"
  obtain st z e' h' where r: "?r = ((st, z), e', h')" by (metis surj_pair)
  have "fst (fst ?r) = STATUS_OK" by code_simp
  then have st: "st = STATUS_OK" by (simp only: r fst_conv)
  show ?thesis using reset_empties [OF r] st warm_engine_state(7) unfolding r by (simp add: nullptr_def)
qed

theorem failed_seed_wedges_reset_witness:
  "case request_tokens_prefix_fallback (resident_provider True) 1 [8, 6] 1 2 warm_engine [] of
     (res, e', h') \<Rightarrow> \<not> pc_session_valid e' \<and> pc_token_count e' = 1 \<and> fst (fst (reset_prefix_cache (resident_provider False) 1 e' h')) = STATUS_UNSUPPORTED"
proof -
  obtain res e' h' where r: "request_tokens_prefix_fallback (resident_provider True) 1 [8, 6] 1 2 warm_engine [] = (res, e', h')"
    by (metis prod_cases3)
  obtain st z e2 h2 where z: "reset_prefix_cache (resident_provider False) 1 e' h' = ((st, z), e2, h2)" by (metis surj_pair)
  show ?thesis
    using failed_seed_wedges_reset [OF r warm_engine_state(1-5,10) small_tokens(2) warm_engine_state(12) _ z] warm_engine_state(8)
    unfolding r by (simp add: plain_answer_def z)
qed

end
