(* ===== verification/Bridge_Engine.thy ===== *)
theory Bridge_Engine
  imports Prefix_Session
begin

text \<open>
  The server bridge on the engine: the calls that the bridge makes for tokens are answered by the engine's own operations on the
  resident prefix, so that the bridge's record and the engine's identity can be compared.
\<close>

section \<open>The engine behind the bridge\<close>

text \<open>The engine's state after the calls that the bridge has made.\<close>

fun engine_after :: "prefix_env \<Rightarrow> u32 \<Rightarrow> prefix_engine \<times> prefix_hist \<Rightarrow> bridge_hist \<Rightarrow> prefix_engine \<times> prefix_hist" where
  "engine_after penv thread s [] = s"
| "engine_after penv thread s ((EngineRequest en tokens, r) # h) =
     (case engine_after penv thread s h of (e, k) \<Rightarrow> snd (request_tokens penv tokens 1 e k))"
| "engine_after penv thread s ((EngineStream en tokens capacity, r) # h) =
     (case engine_after penv thread s h of (e, k) \<Rightarrow> snd (engine_request_stream penv thread tokens capacity e k))"
| "engine_after penv thread s ((EnginePrefixStream en tokens hit capacity, r) # h) =
     (case engine_after penv thread s h of (e, k) \<Rightarrow> snd (request_tokens_prefix_stream penv thread tokens hit capacity e k))"
| "engine_after penv thread s (c # h) = engine_after penv thread s h"

fun bridge_on :: "prefix_env \<Rightarrow> u32 \<Rightarrow> prefix_engine \<times> prefix_hist \<Rightarrow> bridge_env \<Rightarrow> bridge_env" where
  "bridge_on penv thread s base h (EngineRequest en tokens) =
     (case engine_after penv thread s h of (e, k) \<Rightarrow>
        let ((status, outputs), e, k) = request_tokens penv tokens 1 e k
        in (base h (EngineRequest en tokens))\<lparr>br_status := status, br_tokens := outputs\<rparr>)"
| "bridge_on penv thread s base h (EngineStream en tokens capacity) =
     (case engine_after penv thread s h of (e, k) \<Rightarrow>
        let ((status, outputs), e, k) = engine_request_stream penv thread tokens capacity e k
        in (base h (EngineStream en tokens capacity))\<lparr>br_status := status, br_tokens := outputs\<rparr>)"
| "bridge_on penv thread s base h (EnginePrefixStream en tokens hit capacity) =
     (case engine_after penv thread s h of (e, k) \<Rightarrow>
        let ((status, result, outputs), e, k) = request_tokens_prefix_stream penv thread tokens hit capacity e k
        in (base h (EnginePrefixStream en tokens hit capacity))\<lparr>br_status := status, br_tokens := outputs\<rparr>)"
| "bridge_on penv thread s base h c = base h c"

text \<open>Every prefix request so far named the engine's own identity.\<close>

fun prefix_calls_hit :: "prefix_env \<Rightarrow> u32 \<Rightarrow> prefix_engine \<times> prefix_hist \<Rightarrow> bridge_hist \<Rightarrow> bool" where
  "prefix_calls_hit penv thread s [] = True"
| "prefix_calls_hit penv thread s ((EnginePrefixStream en tokens hit capacity, r) # h) \<longleftrightarrow>
     prefix_identity_matches (fst (engine_after penv thread s h)) tokens hit \<and> prefix_calls_hit penv thread s h"
| "prefix_calls_hit penv thread s (c # h) = prefix_calls_hit penv thread s h"

text \<open>
  What the bridge relies on: a one-token request that succeeds leaves a resident session for exactly its tokens, which the server
  switches on when it creates the engine, and the copy of the tokens can be allocated.
\<close>

definition records_sessions :: "prefix_env \<Rightarrow> bool" where
  "records_sessions penv \<longleftrightarrow>
     (\<forall>h tokens. px_status (penv h (OrdinaryPrefill tokens 1)) = STATUS_OK \<longrightarrow>
        (\<exists>g. g \<noteq> 0 \<and> px_progress (penv h (OrdinaryPrefill tokens 1)) = ProviderDone True (of_nat (length tokens)) g (token_digest tokens) 1)) \<and>
     (\<forall>h p n. px_num (penv h (PRealloc p n)) \<noteq> nullptr)"

definition engine_up :: "prefix_engine \<Rightarrow> bool" where
  "engine_up e \<longleftrightarrow> pe_ready e \<and> pe_manifest_loaded e \<and> (0 < pc_token_capacity e \<longrightarrow> pc_ptr e \<noteq> nullptr)"

definition resident_is :: "u32 list \<Rightarrow> prefix_engine \<Rightarrow> bool" where
  "resident_is tokens e \<longleftrightarrow> pc_session_valid e \<and> pc_ptr e \<noteq> nullptr \<and> pc_token_count e = length tokens \<and>
     take (length tokens) (pc_buffer e) = tokens \<and> pc_generation e \<noteq> 0 \<and> pc_prompt_digest e = token_digest tokens"

lemma resident_matches:
  assumes "resident_is (take hit input) e" "engine_up e" "hit \<le> length input"
  shows "prefix_identity_matches e input hit"
  using assms by (auto simp: resident_is_def engine_up_def prefix_identity_matches_def)

lemma engine_up_core:
  assumes "core_of e' = core_of e \<or> core_of e' = core_of (begin_prefill e)" "engine_up e"
  shows "engine_up e'"
  using assms by (auto simp: core_defs begin_prefill_def engine_up_def)

lemma resident_is_cong: "identity_of e' = identity_of e \<Longrightarrow> resident_is tokens e' = resident_is tokens e"
  by (simp add: identity_of_def resident_is_def)

lemma record_identity_up:
  assumes "record_identity env input valid n g d outs e h = (e', h')" "engine_up e"
  shows "engine_up e'"
  using assms by (auto simp: record_identity_def engine_up_def ask_def Let_def split: if_splits)

lemma request_tokens_up:
  assumes "request_tokens env input capacity e h = (res, e', h')" "engine_up e"
  shows "engine_up e'"
proof (cases "input = [] \<or> capacity = 0")
  case False
  let ?r = "env h (OrdinaryPrefill input capacity)"
  let ?e = "set_request_failure (px_failure_stage ?r) (px_failure ?r) e"
  obtain e1 h1 where after: "after_prefill env input (px_progress ?r) (px_early_emissions ?r) ?e ((OrdinaryPrefill input capacity, ?r) # h) = (e1, h1)"
      "core_of e' = core_of e1" using request_tokens_split [OF assms(1)] False by blast
  have up: "engine_up ?e" using assms(2) by (simp add: engine_up_def set_request_failure_def)
  have "engine_up e1"
    using after(1) up record_identity_up engine_up_core by (cases rule: after_prefill_split) blast+
  then show ?thesis using after(2) engine_up_core by blast
qed (use assms in \<open>auto simp: request_tokens_def\<close>)

text \<open>A one-token request that succeeds makes its tokens resident.\<close>

lemma request_tokens_records:
  assumes "request_tokens env input 1 e h = ((STATUS_OK, out), e', h')" "engine_up e" "records_sessions env"
  shows "resident_is input e'"
proof -
  let ?r = "env h (OrdinaryPrefill input 1)"
  let ?e = "set_request_failure (px_failure_stage ?r) (px_failure ?r) e"
  have ne: "input \<noteq> []" using assms(1) by (auto simp: request_tokens_def)
  obtain e1 h1 where after: "after_prefill env input (px_progress ?r) (px_early_emissions ?r) ?e
      ((OrdinaryPrefill input 1, ?r) # h) = (e1, h1)" "core_of e' = core_of e1" "px_status ?r = STATUS_OK"
    using request_tokens_split [OF assms(1)] ne by (metis One_nat_def fst_conv zero_neq_one)
  obtain g where g: "g \<noteq> 0" "px_progress ?r = ProviderDone True (of_nat (length input)) g (token_digest input) 1"
    using assms(3) after(3) unfolding records_sessions_def by blast
  have grow: "px_num (env k (PRealloc p n)) \<noteq> nullptr" for k p n using assms(3) by (simp add: records_sessions_def)
  obtain e2 h2 where rec: "core_of e2 = core_of (begin_prefill ?e)"
      "record_identity env input True (of_nat (length input)) g (token_digest input) 1 e2 h2 = (e1, h1)"
    using after(1) g(2) by (cases rule: after_prefill_split) auto
  have up: "engine_up e2" by (rule engine_up_core [of e2 ?e]) (use rec(1) assms(2) in \<open>simp_all add: engine_up_def set_request_failure_def\<close>)
  from rec(2) have "resident_is input e1"
    using g(1) up ne grow unfolding record_identity_def
    by (auto simp: resident_is_def engine_up_def ask_def Let_def split: if_splits)
  then show ?thesis using after(2) resident_is_cong core_identity by blast
qed

lemma stream_unlocked_split:
  assumes "stream_unlocked env input capacity e h = ((st, out), e', h')" "engine_up e"
  shows "engine_up e' \<and> (st = STATUS_OK \<longrightarrow> (\<exists>e1 h1. request_tokens env input capacity (start_stream e) h = ((STATUS_OK, out), e1, h1) \<and>
    identity_of e' = identity_of e1))"
proof -
  obtain st1 out1 e1 h1 where r: "request_tokens env input capacity (start_stream e) h = ((st1, out1), e1, h1)" by (metis surj_pair)
  have "engine_up (start_stream e)" using assms(2) by (simp add: engine_up_def start_stream_def)
  from request_tokens_up [OF r this] have up: "engine_up e1" .
  have "e' = e \<and> st \<noteq> STATUS_OK \<or> core_of e' = core_of e1 \<and> (st = STATUS_OK \<longrightarrow> st1 = STATUS_OK \<and> out = out1)"
    using assms(1) r by (auto simp: stream_unlocked_def Let_def stop_stream_def core_defs set_request_failure_def split: if_splits)
  then show ?thesis using r up assms(2) engine_up_core [of e' e1] core_identity [of e' e1] by blast
qed

lemma engine_request_stream_split:
  assumes "engine_request_stream env thread input capacity e h = ((st, out), e', h')" "engine_up e"
  shows "engine_up e' \<and> (st = STATUS_OK \<and> capacity = 1 \<and> records_sessions env \<longrightarrow> resident_is input e')"
  using assms(1) unfolding engine_request_stream_def
proof (cases rule: serialized_cases)
  case (refused h1)
  then show ?thesis using assms(2) by (auto simp: engine_up_def set_request_failure_def)
next
  case (entered guard lock e1)
  have up: "engine_up (e\<lparr>pe_lock := lock\<rparr>)" using assms(2) by (simp add: engine_up_def)
  note split = stream_unlocked_split [OF entered(2) up]
  have "resident_is input e1" if ok: "st = STATUS_OK" "capacity = 1" "records_sessions env"
  proof -
    obtain e2 h2 where r: "request_tokens env input 1 (start_stream (e\<lparr>pe_lock := lock\<rparr>)) ((LockWait OPERATION_STREAM, env h (LockWait OPERATION_STREAM)) # h) =
        ((STATUS_OK, out), e2, h2)" "identity_of e1 = identity_of e2"
      using split ok(1) unfolding ok(2) by blast
    have "engine_up (start_stream (e\<lparr>pe_lock := lock\<rparr>))" using assms(2) by (simp add: engine_up_def start_stream_def)
    from request_tokens_records [OF r(1) this ok(3)] show ?thesis using r(2) resident_is_cong by blast
  qed
  then show ?thesis using split entered(3) by (auto simp: engine_up_def resident_is_def)
qed

lemma request_tokens_prefix_stream_up:
  assumes "request_tokens_prefix_stream env thread input hit capacity e h = ((st, r, out), e', h')" "engine_up e"
  shows "engine_up e' \<and> (st = STATUS_OK \<longrightarrow> identity_of e' = identity_of e)"
  using assms(1) unfolding request_tokens_prefix_stream_def
proof (cases rule: serialized_cases)
  case (refused h1)
  then show ?thesis using assms(2) prefix_failed_core by (fastforce simp: engine_up_def set_request_failure_def identity_of_def)
next
  case (entered guard lock e1)
  let ?e = "e\<lparr>pe_lock := lock\<rparr>"
  have up: "engine_up ?e" using assms(2) by (simp add: engine_up_def)
  have "(core_of e1 = core_of ?e \<or> core_of e1 = core_of (begin_prefill ?e)) \<and> (st = STATUS_OK \<longrightarrow> core_of e1 = core_of ?e)"
  proof (cases "st_active ?e")
    case True
    then have "prefix_failed ?e ((LockWait OPERATION_STREAM, env h (LockWait OPERATION_STREAM)) # h) prefix_result_init STATUS_INVALID_ARGUMENT ''resident_prefix_stream_request''
             ''resident prefix stream requires an engine, callback, and idle stream state'' = ((st, r, out), e1, h')"
      using entered(2) by (simp only: prefix_stream_unlocked_def if_True)
    from prefix_failed_core [OF this] show ?thesis by auto
  next
    case False
    from prefix_stream_unlocked_outcome [OF entered(2) this] show ?thesis by blast
  qed
  then show ?thesis using entered(3) engine_up_core [OF _ up] core_identity [of e1 ?e] by (auto simp: engine_up_def)
qed

section \<open>The bridge follows the engine\<close>

text \<open>A history of answers of an environment.\<close>

fun follows :: "bridge_env \<Rightarrow> bridge_hist \<Rightarrow> bool" where
  "follows env [] = True"
| "follows env ((c, r) # h) \<longleftrightarrow> r = env h c \<and> follows env h"

lemma follows_ask: "follows env h \<Longrightarrow> follows env (snd (ask env c h))"
  by (simp add: ask_def)

lemma follows_free: "follows env h \<Longrightarrow> follows env (bridge_free env p h)"
  by (simp add: bridge_free_def bridge_tell_def)

lemma follows_environment_value: "follows env h \<Longrightarrow> follows env (snd (environment_value env name capacity h))"
  by (simp add: environment_value_def Let_def case_prod_beta)

lemma follows_select_exact: "follows env h \<Longrightarrow> follows env (snd (select_exact env force input capacity h))"
  by (simp add: select_exact_def exact_letter_classifier_enabled_def exact_first_token_enabled_def Let_def case_prod_beta follows_environment_value)

lemma follows_select_prefix: "follows env h \<Longrightarrow> follows env (snd (select_prefix env e input capacity h))"
  by (simp add: select_prefix_def prefix_cache_enabled_def prefix_cache_min_tokens_def Let_def case_prod_beta follows_environment_value)

lemma follows_store_tokens: "follows env h \<Longrightarrow> follows env (snd (snd (store_tokens env ts source h)))"
  by (simp add: store_tokens_def Let_def case_prod_beta)

lemma follows_remember_request: "follows env h \<Longrightarrow> follows env (snd (remember_request env e input h))"
  by (simp add: remember_request_def case_prod_beta follows_store_tokens)

lemma follows_finish_request: "follows env h \<Longrightarrow> follows env (snd (finish_request env e status outputs seed_ns h))"
  by (simp add: finish_request_def Let_def case_prod_beta follows_free)

lemma follows_exact_continue: "follows env h \<Longrightarrow> follows env (snd (exact_continue env e block input first_ns room gen r elapsed h))"
proof (induction room arbitrary: gen r elapsed h)
  case (Suc room)
  then show ?case by (auto simp: Let_def case_prod_beta intro!: follows_free Suc.IH)
qed simp

lemma follows_exact_route: "follows env h \<Longrightarrow> follows env (snd (exact_route env e classifier input capacity h))"
  by (simp add: exact_route_def exact_emit_def Let_def case_prod_beta follows_exact_continue)

lemma follows_seed_prefix: "follows env h \<Longrightarrow> follows env (snd (snd (snd (seed_prefix env e input hit h))))"
  by (simp add: seed_prefix_def Let_def case_prod_beta follows_store_tokens)

lemma follows_prefix_request: "follows env h \<Longrightarrow> follows env (snd (snd (prefix_request env e input hit capacity h)))"
  by (simp add: prefix_request_def Let_def case_prod_beta follows_free follows_remember_request)

lemma follows_ordinary_request: "follows env h \<Longrightarrow> follows env (snd (snd (ordinary_request env e input capacity h)))"
  by (simp add: ordinary_request_def Let_def case_prod_beta follows_store_tokens follows_remember_request)

lemmas follows_rules = follows_select_exact follows_select_prefix follows_finish_request follows_exact_route follows_seed_prefix
  follows_prefix_request follows_ordinary_request

lemma follows_request_internal: "follows env h \<Longrightarrow> follows env (snd (snd (request_internal env force e input capacity h)))"
  by (simp add: request_internal_def Let_def case_prod_beta follows_rules split: option.split sum.split)

lemma follows_serve: "follows env h \<Longrightarrow> fold (serve env) requests (e, h) = (e', h') \<Longrightarrow> follows env h'"
proof (induction requests arbitrary: e h)
  case (Cons q requests)
  obtain force input capacity where q: "q = (force, input, capacity)" by (metis prod_cases3)
  obtain res e1 h1 where r: "request_internal env force e input capacity h = (res, e1, h1)" by (metis prod_cases3)
  show ?case using Cons q r follows_request_internal [OF Cons.prems(1), of force e input capacity] by simp
qed simp

section \<open>Record and identity agree\<close>

lemma engine_after_up: "engine_up (fst s) \<Longrightarrow> engine_up (fst (engine_after penv thread s h))"
proof (induction penv thread s h rule: engine_after.induct)
  case (2 penv thread s en tokens r h)
  then show ?case
    using request_tokens_up [of penv tokens 1 "fst (engine_after penv thread s h)" "snd (engine_after penv thread s h)"]
    by (auto simp: case_prod_beta) (metis prod.collapse)
next
  case (3 penv thread s en tokens capacity r h)
  then show ?case
    using engine_request_stream_split [of penv thread tokens capacity "fst (engine_after penv thread s h)" "snd (engine_after penv thread s h)"]
    by (auto simp: case_prod_beta) (metis prod.collapse)
next
  case (4 penv thread s en tokens hit capacity r h)
  then show ?case
    using request_tokens_prefix_stream_up [of penv thread tokens hit capacity "fst (engine_after penv thread s h)" "snd (engine_after penv thread s h)"]
    by (auto simp: case_prod_beta) (metis prod.collapse)
qed simp_all

lemma resident_after:
  assumes "records_sessions penv" "engine_up (fst s)"
  shows "follows (bridge_on penv thread s base) h \<Longrightarrow> last_prefill h = Some tokens \<Longrightarrow> resident_is tokens (fst (engine_after penv thread s h))"
proof (induction h rule: last_prefill.induct)
  case (2 en ts r h)
  obtain e k where a: "engine_after penv thread s h = (e, k)" by (metis surj_pair)
  obtain st out e1 k1 where q: "request_tokens penv ts 1 e k = ((st, out), e1, k1)" by (metis surj_pair)
  have "st = STATUS_OK" "ts = tokens" using 2 a q by (auto split: if_splits)
  then show ?case using request_tokens_records [OF q [unfolded \<open>st = STATUS_OK\<close>] _ assms(1)] engine_after_up [OF assms(2), of penv thread h] a q by simp
next
  case (3 en ts capacity r h)
  obtain e k where a: "engine_after penv thread s h = (e, k)" by (metis surj_pair)
  obtain st out e1 k1 where q: "engine_request_stream penv thread ts capacity e k = ((st, out), e1, k1)" by (metis surj_pair)
  have "st = STATUS_OK" "ts = tokens" "capacity = 1" using 3 a q by (auto split: if_splits)
  then show ?case using engine_request_stream_split [OF q] assms(1) engine_after_up [OF assms(2), of penv thread h] a q by simp
next
  case (4 en ts hit capacity r h)
  obtain e k where a: "engine_after penv thread s h = (e, k)" by (metis surj_pair)
  obtain st res out e1 k1 where q: "request_tokens_prefix_stream penv thread ts hit capacity e k = ((st, res, out), e1, k1)" by (metis surj_pair)
  have "st = STATUS_OK" "resident_is tokens e" using 4 a q by (auto split: if_splits)
  then show ?case using request_tokens_prefix_stream_up [OF q] engine_after_up [OF assms(2), of penv thread h] a q resident_is_cong [of e1 e] by simp
qed auto

lemma prefix_calls_hit_engine:
  assumes "records_sessions penv" "engine_up (fst s)"
  shows "follows (bridge_on penv thread s base) h \<Longrightarrow> prefix_calls_current h \<Longrightarrow> prefix_calls_hit penv thread s h"
proof (induction h rule: prefix_calls_current.induct)
  case (2 en tokens hit capacity r h)
  then have fol: "follows (bridge_on penv thread s base) h" "last_prefill h = Some (take hit tokens)" "hit \<le> length tokens"
      "prefix_calls_hit penv thread s h" by simp_all
  then have "prefix_identity_matches (fst (engine_after penv thread s h)) tokens hit"
    using resident_matches [OF resident_after [OF assms fol(1,2)] engine_after_up [OF assms(2)]] by blast
  then show ?case using fol(4) by simp
qed auto

text \<open>
  C9. The server bridge on the engine: whatever requests the bridge serves from its start, every prefix request that it makes names exactly the identity that
  the engine holds at that moment, so the engine never refuses one for its identity; and the bridge's record, if it is not empty, is the
  engine's identity. This is under four conditions. The engine is up. No streamed ordinary request of the run fails and no reallocation of the bridge is
  refused (\<open>calm\<close>; the property after this one shows what a failure does). A prefill with one output token that the engine reports as successful
  leaves a resident session for exactly its tokens, and the engine can allocate its copy of them (\<open>records_sessions\<close>; otherwise
  the engine answers OK without recording anything, and the bridge cannot know). And the bytes of a request can be counted in 64 bits.
\<close>

theorem bridge_agrees_with_engine:
  assumes "fold (serve (bridge_on penv thread s base)) requests (e, []) = (e', h')" "ts_tokens (se_resident e) = []" "calm h'"
    and "list_all (\<lambda>(force, input, capacity). length input \<le> (2 ^ 64 - 1) div 4) requests"
    and "records_sessions penv" "engine_up (fst s)"
  shows "prefix_calls_hit penv thread s h' \<and>
         (ts_tokens (se_resident e') = [] \<or> resident_is (ts_tokens (se_resident e')) (fst (engine_after penv thread s h')))"
proof -
  have "record_current e []" using assms(2) by (simp add: record_current_def)
  from serve_current [OF assms(1) this assms(3,4)] have cur: "record_current e' h'" .
  have fol: "follows (bridge_on penv thread s base) h'" by (rule follows_serve [OF _ assms(1)]) simp
  show ?thesis using prefix_calls_hit_engine [OF assms(5,6) fol] resident_after [OF assms(5,6) fol] cur by (auto simp: record_current_def)
qed

text \<open>Apart from the token requests, the bridge sees its own environment.\<close>

lemma bridge_on_quiet [simp]:
  "environment_value (bridge_on penv thread s base) = environment_value base"
  "select_exact (bridge_on penv thread s base) = select_exact base"
  "select_prefix (bridge_on penv thread s base) = select_prefix base"
  "store_tokens (bridge_on penv thread s base) = store_tokens base"
  "remember_request (bridge_on penv thread s base) = remember_request base"
  "finish_request (bridge_on penv thread s base) = finish_request base"
  by (auto simp: fun_eq_iff environment_value_def select_exact_def exact_letter_classifier_enabled_def exact_first_token_enabled_def
      select_prefix_def prefix_cache_enabled_def prefix_cache_min_tokens_def store_tokens_def remember_request_def finish_request_def
      bridge_free_def bridge_tell_def ask_def Let_def)

lemma engine_after_selections [simp]:
  "engine_after penv thread s (snd (select_exact env force input capacity h)) = engine_after penv thread s h"
  "engine_after penv thread s (snd (select_prefix env e input capacity h)) = engine_after penv thread s h"
  by (simp_all add: select_exact_def exact_letter_classifier_enabled_def exact_first_token_enabled_def select_prefix_def
      prefix_cache_enabled_def prefix_cache_min_tokens_def environment_value_def ask_def Let_def case_prod_beta)

section \<open>A failed request leaves a stale record\<close>

text \<open>A request that the provider fails leaves nothing resident.\<close>

lemma failed_stream_empties:
  assumes "engine_request_stream env thread input capacity e h = ((st, out), e', h')" "rs_initialized (pe_lock e)" "\<not> st_active e"
    and "input \<noteq> []" "0 < capacity" "capacity \<le> MAX_OUTPUT_TOKENS"
    and fails: "\<And>k. px_status (env k (OrdinaryPrefill input capacity)) \<noteq> STATUS_OK \<and> px_progress (env k (OrdinaryPrefill input capacity)) = ProviderFailed"
  shows "st \<noteq> STATUS_OK \<and> \<not> pc_session_valid e'"
proof -
  let ?h = "(LockWait OPERATION_STREAM, env h (LockWait OPERATION_STREAM)) # h"
  obtain guard l where run: "engine_request_stream env thread input capacity e h =
      (let (res, e1, h1) = stream_unlocked env input capacity (e\<lparr>pe_lock := l\<rparr>) ?h
       in (res, e1\<lparr>pe_lock := serialization_release thread guard (pe_lock e1)\<rparr>, h1))"
    using serialized_enter [OF assms(2)] unfolding engine_request_stream_def by blast
  let ?e = "start_stream (e\<lparr>pe_lock := l\<rparr>)" and ?r = "env ?h (OrdinaryPrefill input capacity)"
  obtain st1 out1 e1 h1 where q: "request_tokens env input capacity ?e ?h = ((st1, out1), e1, h1)" by (metis surj_pair)
  obtain e2 h2 where split: "after_prefill env input (px_progress ?r) (px_early_emissions ?r) (set_request_failure (px_failure_stage ?r) (px_failure ?r) ?e)
      ((OrdinaryPrefill input capacity, ?r) # ?h) = (e2, h2)" "core_of e1 = core_of e2" "(st1, out1) = (px_status ?r, px_tokens ?r)"
    using request_tokens_split [OF q assms(4) less_imp_neq [OF assms(5), symmetric]] by blast
  from split(1) have "\<not> pc_session_valid e2"
    using fails [of ?h] by (cases rule: after_prefill_split) (auto simp: core_defs begin_prefill_def)
  then have "\<not> pc_session_valid e1" "st1 \<noteq> STATUS_OK" using split(2,3) fails [of ?h] by (simp_all add: core_defs)
  then show ?thesis
    using assms(1,3-6) q unfolding run by (auto simp: stream_unlocked_def Let_def stop_stream_def)
qed

lemma stale_prefix_refused:
  assumes "request_tokens_prefix_stream env thread input hit capacity e h = ((st, r, out), e', h')" "\<not> pc_session_valid e"
  shows "st \<noteq> STATUS_OK"
proof
  assume ok: "st = STATUS_OK"
  show False
    using assms(1) unfolding request_tokens_prefix_stream_def
  proof (cases rule: serialized_cases)
    case (refused h1)
    then show False using ok by (auto dest: prefix_failed_core)
  next
    case (entered guard lock e1)
    let ?e = "e\<lparr>pe_lock := lock\<rparr>"
    show False
    proof (cases "st_active ?e")
      case True
      then show False using entered(2) ok by (auto simp: prefix_stream_unlocked_def prefix_failed_def prefix_result_failure_def)
    next
      case False
      from prefix_stream_unlocked_outcome [OF entered(2) this] ok assms(2) show False by (auto simp: prefix_identity_matches_def)
    qed
  qed
qed

text \<open>What a request on a chosen prefix answers, in terms of the engine's state.\<close>

lemma prefix_request_on:
  assumes "prefix_request (bridge_on penv thread s base) e input hit capacity h = (res, e', h')"
    and "\<not> pc_session_valid (fst (engine_after penv thread s h))"
  shows "(\<exists>status. res = Inl status \<and> status \<noteq> STATUS_OK) \<or> (\<exists>status out. res = Inr (status, out) \<and> status \<noteq> STATUS_OK)"
proof -
  let ?m = "BCalloc ''qrt_qwen36_resident_prefix_cache_result_v1_t''"
  let ?env = "bridge_on penv thread s base"
  let ?f = "(?m, ?env h ?m) # h" and ?c = "EnginePrefixStream (se_engine e) input hit capacity"
  obtain x k where a: "engine_after penv thread s h = (x, k)" by (metis surj_pair)
  obtain st r out x' k' where q: "request_tokens_prefix_stream penv thread input hit capacity x k = ((st, r, out), x', k')" by (metis surj_pair)
  have "st \<noteq> STATUS_OK" using stale_prefix_refused [OF q] assms(2) a by simp
  moreover have "br_status (?env ?f ?c) = st" using a q by simp
  ultimately have "br_status (?env ?f ?c) \<noteq> STATUS_OK" by simp
  then show ?thesis
    using assms(1) by (auto simp: prefix_request_def ask_def Let_def case_prod_beta simp del: bridge_on.simps split: if_splits)
qed

text \<open>
  C39. The bridge on the engine: when the provider fails the prefill of an ordinary request, the engine has already emptied its identity, but the bridge keeps
  its record of the prefix. The next request that extends the recorded tokens, on the prefix route and by a shape that it takes, is therefore sent as a
  prefix request without a seed, and it fails, because the engine has no resident session to serve it from.
\<close>

theorem failed_request_leaves_prefix:
  assumes fails: "ordinary_request (bridge_on penv thread s base) e input capacity h = ((status, outputs), e', h')"
      "input \<noteq> []" "0 < capacity" "capacity \<le> MAX_OUTPUT_TOKENS"
      "\<forall>k. px_status (penv k (OrdinaryPrefill input capacity)) \<noteq> STATUS_OK \<and> px_progress (penv k (OrdinaryPrefill input capacity)) = ProviderFailed"
    and idle: "rs_initialized (pe_lock (fst (engine_after penv thread s h)))" "\<not> st_active (fst (engine_after penv thread s h))"
    and extends: "take (length prefix) input' = prefix" "prefix = ts_tokens (se_resident e)" "length input' < RETAINED_Q8192_TOKENS"
      "prefix_shape_supported (length input') (length prefix) capacity'" "se_engine e \<noteq> nullptr"
    and routed: "select_exact base force input' capacity' h' = ((classifier, False), g)" "prefix_cache_enabled base g = (True, k)"
      "prefix_cache_min_tokens base k = (minimum, l)" "minimum \<le> length prefix"
    and served: "request_internal (bridge_on penv thread s base) force e' input' capacity' h' = ((status', outputs', report), e'', h'')"
  shows "status \<noteq> STATUS_OK \<and> e' = e \<and> \<not> pc_session_valid (fst (engine_after penv thread s h')) \<and> status' \<noteq> STATUS_OK"
proof -
  let ?env = "bridge_on penv thread s base" and ?c = "EngineStream (se_engine e) input capacity"
  obtain x j where a: "engine_after penv thread s h = (x, j)" by (metis surj_pair)
  obtain st out x' j' where q: "engine_request_stream penv thread input capacity x j = ((st, out), x', j')" by (metis surj_pair)
  have dead: "st \<noteq> STATUS_OK" "\<not> pc_session_valid x'"
    using failed_stream_empties [OF q _ _ fails(2-4)] fails(5) idle a by simp_all
  have "br_status (?env h ?c) = st" using a q by simp
  then have e': "status \<noteq> STATUS_OK" "e' = e" "h' = (?c, ?env h ?c) # h"
    using fails(1) dead(1) by (auto simp: ordinary_request_def ask_def Let_def simp del: bridge_on.simps)
  have stale: "\<not> pc_session_valid (fst (engine_after penv thread s h'))" using dead(2) a q by (simp add: e'(3))
  have shape: "input' \<noteq> []" "capacity' \<noteq> 0" "length prefix \<noteq> 0" using extends(4) by (auto simp: prefix_shape_supported_def Let_def)
  have sp: "select_prefix base e input' capacity' g = ((length prefix, False), l)"
    using choose_prefix_resident [OF extends(4) routed(4) extends(1)] extends(2,3) routed(2,3) by (simp add: select_prefix_def)
  have "engine_after penv thread s l = engine_after penv thread s h'"
    using engine_after_selections(1) [of penv thread s base force input' capacity' h']
      engine_after_selections(2) [of penv thread s base e input' capacity' g] routed(1) sp by simp
  moreover obtain res e2 m where pr: "prefix_request ?env e input' (length prefix) capacity' l = (res, e2, m)" by (metis prod_cases3)
  ultimately have res: "(\<exists>status. res = Inl status \<and> status \<noteq> STATUS_OK) \<or> (\<exists>status out. res = Inr (status, out) \<and> status \<noteq> STATUS_OK)"
    using prefix_request_on [OF pr] stale by simp
  have "status' \<noteq> STATUS_OK"
    using served extends(5) shape res unfolding e'(2)
    by (auto simp: request_internal_def bridge_on_quiet routed(1) sp pr split: prod.splits dest: finish_request_status)
  then show ?thesis using e'(1,2) stale by blast
qed

section \<open>Witnesses\<close>

text \<open>The server's environment, with the answers that the engine gives on a resident prefix.\<close>

fun echoing_engine :: bridge_env where
  "echoing_engine h (EnginePrefixStream e tokens hit capacity) = plain_reply\<lparr>br_tokens := replicate capacity 5\<rparr>"
| "echoing_engine h c = answering_engine h c"

lemma resident_provider_records: "records_sessions (resident_provider False)"
  by (simp add: records_sessions_def plain_answer_def nullptr_def)

lemma fresh_engine_up: "engine_up (fst (fresh_engine, []))"
  by (simp add: engine_up_def fresh_engine_def)

lemma seed_prefix_on:
  assumes "bridge_on penv thread s base h (EngineRequest (se_engine e) (take hit input)) = base h (EngineRequest (se_engine e) (take hit input))"
  shows "seed_prefix (bridge_on penv thread s base) e input hit h = seed_prefix base e input hit h"
  unfolding seed_prefix_def ask_def assms bridge_on_quiet ..

lemma engine_after_seed:
  "engine_after penv thread s (snd (snd (snd (seed_prefix env e input hit h)))) =
     (case engine_after penv thread s h of (x, k) \<Rightarrow> snd (request_tokens penv (take hit input) 1 x k))"
  by (simp add: seed_prefix_def store_tokens_def ask_def Let_def case_prod_beta del: One_nat_def)

lemma prefix_request_agrees:
  assumes "let f = (BCalloc ''qrt_qwen36_resident_prefix_cache_result_v1_t'', base h (BCalloc ''qrt_qwen36_resident_prefix_cache_result_v1_t'')) # h;
             c = EnginePrefixStream (se_engine e) input hit capacity
           in bridge_on penv thread s base f c = base f c"
  shows "prefix_request (bridge_on penv thread s base) e input hit capacity h = prefix_request base e input hit capacity h"
proof -
  have free: "bridge_free (bridge_on penv thread s base) = bridge_free base"
    by (auto simp: fun_eq_iff bridge_free_def bridge_tell_def ask_def)
  have calloc: "bridge_on penv thread s base h (BCalloc t) = base h (BCalloc t)" for t by simp
  show ?thesis
    using assms unfolding prefix_request_def ask_def calloc free bridge_on_quiet Let_def by (simp only: prod.case)
qed

lemma honest_first_seed:
  "\<exists>e' h'. request_tokens (resident_provider False) [5] 1 fresh_engine [] = ((STATUS_OK, [1]), e', h') \<and> prefix_identity_matches e' [5, 6] 1 \<and>
    \<not> st_active e' \<and> pe_lock e' = pe_lock fresh_engine"
  by (simp add: request_tokens_def after_prefill_def record_identity_def begin_prefill_def set_request_failure_def ask_def plain_answer_def emit_event_def
      prefix_identity_matches_def nullptr_def fresh_engine_def)

lemma demo_selections:
  "fst (select_exact echoing_engine False [5, 6] 2 []) = (False, False)"
  "fst (select_prefix echoing_engine fresh_server [5, 6] 2 (snd (select_exact echoing_engine False [5, 6] 2 []))) = (1, True)"
  "fst (seed_prefix echoing_engine fresh_server [5, 6] 1
     (snd (select_prefix echoing_engine fresh_server [5, 6] 2 (snd (select_exact echoing_engine False [5, 6] 2 []))))) = None"
  "se_engine (fst (snd (seed_prefix echoing_engine fresh_server [5, 6] 1
     (snd (select_prefix echoing_engine fresh_server [5, 6] 2 (snd (select_exact echoing_engine False [5, 6] 2 []))))))) = 2"
  by code_simp+

lemma demo_request_on:
  "request_internal (bridge_on (resident_provider False) thread (fresh_engine, []) echoing_engine) False fresh_server [5, 6] 2 [] =
   request_internal echoing_engine False fresh_server [5, 6] 2 []"
proof -
  let ?env = "bridge_on (resident_provider False) thread (fresh_engine, []) echoing_engine"
  let ?after = "engine_after (resident_provider False) thread (fresh_engine, [])"
  obtain g where se: "select_exact echoing_engine False [5, 6] 2 [] = ((False, False), g)" using demo_selections(1) by (metis prod.collapse)
  obtain k where sp: "select_prefix echoing_engine fresh_server [5, 6] 2 g = ((1, True), k)"
    using demo_selections(2) se by (metis prod.collapse snd_conv)
  obtain e1 ns h2 where sd: "seed_prefix echoing_engine fresh_server [5, 6] 1 k = (None, e1, ns, h2)" "se_engine e1 = 2"
    using demo_selections(3,4) unfolding se sp snd_conv by (metis prod.collapse)
  have "?after k = ?after (snd (select_prefix echoing_engine fresh_server [5, 6] 2 g))" by (simp only: sp snd_conv)
  also have "\<dots> = ?after (snd (select_exact echoing_engine False [5, 6] 2 []))" by (simp only: engine_after_selections(2) se snd_conv)
  finally have ak: "?after k = (fresh_engine, [])" by (simp only: engine_after_selections(1) engine_after.simps(1))
  obtain x j where q: "request_tokens (resident_provider False) [5] 1 fresh_engine [] = ((STATUS_OK, [1]), x, j)" "prefix_identity_matches x [5, 6] 1"
      "\<not> st_active x" "pe_lock x = pe_lock fresh_engine" using honest_first_seed by blast
  have "?env k (EngineRequest 2 [5]) = echoing_engine k (EngineRequest 2 [5])"
    using ak q(1) by (simp add: plain_reply_def del: One_nat_def)
  then have seed: "seed_prefix ?env fresh_server [5, 6] 1 k = (None, e1, ns, h2)"
    unfolding sd(1) [symmetric] by (intro seed_prefix_on) (simp add: fresh_server_def del: bridge_on.simps echoing_engine.simps)
  have a2: "?after h2 = (x, j)"
    using engine_after_seed [of "resident_provider False" thread "(fresh_engine, [])" echoing_engine fresh_server "[5, 6]" 1 k] sd(1) ak q(1) by simp
  have shape: "prefix_shape_ok x [5, 6] 1 2 False" using q(3) by (simp add: prefix_shape_ok_def bridge_limits)
  have lock: "rs_initialized (pe_lock x)" using q(4) by (simp add: fresh_engine_def new_serialization_def)
  obtain r x' j' where p: "request_tokens_prefix_stream (resident_provider False) thread [5, 6] 1 2 x j = ((STATUS_OK, r, [5, 5]), x', j')"
    using honest_stream [OF _ small_tokens(1) shape q(2) lock, of False thread j] by auto
  have two: "replicate 2 (5 :: u32) = [5, 5]" by (simp add: numeral_2_eq_2)
  have prefix: "prefix_request ?env e1 [5, 6] 1 2 h2 = prefix_request echoing_engine e1 [5, 6] 1 2 h2"
    by (rule prefix_request_agrees) (simp add: Let_def a2 p sd(2) plain_reply_def two del: One_nat_def)
  show ?thesis
    unfolding request_internal_def bridge_on_quiet se by (simp add: sp sd(1) seed prefix del: One_nat_def)
qed

theorem bridge_agrees_with_engine_witness:
  "case fold (serve (bridge_on (resident_provider False) 1 (fresh_engine, []) echoing_engine)) [(False, [5, 6], 2)] (fresh_server, []) of
     (e', h') \<Rightarrow> list_ex (\<lambda>(c, r). c = EnginePrefixStream 2 [5, 6] 1 2 \<and> br_status r = STATUS_OK \<and> br_tokens r = [5, 5]) h' \<and>
       prefix_calls_hit (resident_provider False) 1 (fresh_engine, []) h' \<and> ts_tokens (se_resident e') = [5] \<and>
       resident_is [5] (fst (engine_after (resident_provider False) 1 (fresh_engine, []) h'))"
proof -
  let ?r = "fold (serve (bridge_on (resident_provider False) 1 (fresh_engine, []) echoing_engine)) [(False, [5, 6], 2)] (fresh_server, [])"
  let ?q = "snd (request_internal echoing_engine False fresh_server [5, 6] 2 [])"
  let ?call = "\<lambda>(c, r). c = EnginePrefixStream 2 [5, 6] 1 2 \<and> br_status r = STATUS_OK \<and> br_tokens r = [5, 5]"
  obtain e' h' where r: "?r = (e', h')" by (metis surj_pair)
  have "?r = ?q" by (simp add: demo_request_on del: One_nat_def)
  then have q: "?q = (e', h')" using r by simp
  have "calm (snd ?q) \<and> ts_tokens (se_resident (fst ?q)) = [5] \<and> list_ex ?call (snd ?q)" by code_simp
  then have c: "calm h'" "ts_tokens (se_resident e') = [5]" "list_ex ?call h'" by (simp_all only: q fst_conv snd_conv)
  have w: "ts_tokens (se_resident fresh_server) = []" by (simp add: fresh_server_def empty_store_def)
  have l: "list_all (\<lambda>(force :: bool, input :: u32 list, capacity :: nat). length input \<le> (2 ^ 64 - 1) div 4) [(False, [5, 6], 2)]" by simp
  show ?thesis
    using bridge_agrees_with_engine [OF r w c(1) l resident_provider_records fresh_engine_up] c(2,3) unfolding r by simp
qed

text \<open>A provider that fails the prefill of the token 7, behind a server whose record and engine hold the token 5.\<close>

fun failing_provider :: prefix_env where
  "failing_provider h (OrdinaryPrefill tokens capacity) =
     (if tokens = [7] then plain_answer\<lparr>px_status := STATUS_UNSUPPORTED, px_progress := ProviderFailed\<rparr>
      else resident_provider False h (OrdinaryPrefill tokens capacity))"
| "failing_provider h c = resident_provider False h c"

lemma demo_routes:
  "fst (select_exact answering_engine False [5, 6] 2 h) = (False, False)"
  "fst (prefix_cache_enabled answering_engine h) = True" "fst (prefix_cache_min_tokens answering_engine h) = 1"
  by code_simp+

theorem failed_request_leaves_prefix_witness:
  "case ordinary_request (bridge_on failing_provider 1 (warm_engine, []) answering_engine) warm_server [7] 1 [] of
     ((status, outputs), e', h') \<Rightarrow>
       status \<noteq> STATUS_OK \<and> ts_tokens (se_resident e') = [5] \<and> \<not> pc_session_valid (fst (engine_after failing_provider 1 (warm_engine, []) h')) \<and>
       fst (fst (request_internal (bridge_on failing_provider 1 (warm_engine, []) answering_engine) False e' [5, 6] 2 h')) \<noteq> STATUS_OK"
proof -
  let ?env = "bridge_on failing_provider 1 (warm_engine, []) answering_engine"
  obtain status outputs e' h' where o: "ordinary_request ?env warm_server [7] 1 [] = ((status, outputs), e', h')" by (metis surj_pair)
  obtain st' out' rp e'' h'' where r: "request_internal ?env False e' [5, 6] 2 h' = ((st', out', rp), e'', h'')" by (metis surj_pair)
  let ?g = "snd (select_exact answering_engine False [5, 6] 2 h')"
  let ?k = "snd (prefix_cache_enabled answering_engine ?g)"
  let ?l = "snd (prefix_cache_min_tokens answering_engine ?k)"
  have routed: "select_exact answering_engine False [5, 6] 2 h' = ((False, False), ?g)"
      "prefix_cache_enabled answering_engine ?g = (True, ?k)" "prefix_cache_min_tokens answering_engine ?k = (1, ?l)"
    using demo_routes by (metis prod.collapse)+
  have shape: "[7 :: u32] \<noteq> []" "0 < (1 :: nat)" "1 \<le> MAX_OUTPUT_TOKENS"
      "\<forall>k. px_status (failing_provider k (OrdinaryPrefill [7] 1)) \<noteq> STATUS_OK \<and> px_progress (failing_provider k (OrdinaryPrefill [7] 1)) = ProviderFailed"
      "rs_initialized (pe_lock (fst (engine_after failing_provider 1 (warm_engine, []) [])))" "\<not> st_active (fst (engine_after failing_provider 1 (warm_engine, []) []))"
      "take (length [5 :: u32]) [5, 6] = [5 :: u32]" "[5] = ts_tokens (se_resident warm_server)" "length [5, 6 :: u32] < RETAINED_Q8192_TOKENS"
      "prefix_shape_supported (length [5, 6 :: u32]) (length [5 :: u32]) 2" "se_engine warm_server \<noteq> nullptr" "1 \<le> length [5 :: u32]"
    using warm_engine_state(1,6)
    by (simp_all add: warm_server_def fresh_server_def bridge_limits prefix_shape_supported_def nullptr_def plain_answer_def)
  from failed_request_leaves_prefix [OF o shape(1-11) routed shape(12) r]
  have k: "status \<noteq> STATUS_OK" "e' = warm_server" "\<not> pc_session_valid (fst (engine_after failing_provider 1 (warm_engine, []) h'))" "st' \<noteq> STATUS_OK"
    by blast+
  have "fst (fst (request_internal ?env False e' [5, 6] 2 h')) = st'" by (simp only: r fst_conv)
  then show ?thesis unfolding o prod.case using k by (simp add: warm_server_def)
qed

end
