(* ===== verification/Spec2Isabelle.thy ===== *)
theory Spec2Isabelle
  imports Expert_Session Marker_Filter Gdn_Aiter Gdn_Fla Ck_Fmha Request_Serialization Model_Disk Bridge_Engine
begin

text \<open>
  A verification of the native code of the AIMA Qwen3.6-35B engine for the AMD Ryzen AI Max+ 395: the compute
  providers and the parts of the C interface that keep state and read the model.

  \<^bold>\<open>The program.\<close> The engine is a resident process. A Rust server (\<^verbatim>\<open>engine/\<close>) accepts requests and
  calls a C interface (\<^verbatim>\<open>native/src\<close>); behind it \<^verbatim>\<open>native/providers/whole_provider.cpp\<close> owns the
  model memory and drives the layers, and calls separately built providers: linear attention
  (\<^verbatim>\<open>native/providers/gdn\<close>), softmax attention (\<^verbatim>\<open>native/providers/ck_fmha\<close>), and for the
  mixture of experts at one token a host provider that keeps expert weights in a cache and computes
  on processor threads (\<^verbatim>\<open>native/providers/q1_moe_avx512bf16_host_provider.cpp\<close>). The providers keep
  state between calls, acquire operating-system and device resources, and are called through C functions
  that report errors as codes and strings. This development models those providers with all their exported
  operations, the exact bfloat16 accumulator
  (\<^verbatim>\<open>native/providers/moe_accumulator/q1_moe_hawkeye_bf16_accumulator.h\<close>), the log filters of the
  whole provider, and of the C interface (\<^verbatim>\<open>native/src/qrt.c\<close>) the serialization of requests, the scanner of the
  model's JSON and safetensors files, the manifest and accounting probes, the tensor loader, the resident weight cache and the
  resident prefix of the prompt cache. The server reaches the interface through a bridge (\<^verbatim>\<open>native/src/qrt_server_bridge.c\<close>) that
  keeps its own record of the resident prefix; the bridge is modelled, and its composition with the engine.

  \<^bold>\<open>Theories and sources.\<close>
  \<^item> \<^verbatim>\<open>QRT_Prelude\<close>: machine types, bounded C strings (\<open>snprintf\<close>), histories of calls, the locale
    \<open>invariant_system\<close> (reachable states and their invariants) and shared lemmas.
  \<^item> \<^verbatim>\<open>Bf16\<close>: the conversions between single precision and bfloat16 of the host provider and of the
    attention provider, as 16- and 32-bit words: exact rounding, what happens to infinities and NaNs.
  \<^item> \<^verbatim>\<open>Hawkeye\<close>: unpacking, products, the aligned and truncated group sum, packing, the
    accumulation loop. Exactness of products, an error bound of the group sum, the equivalence
    of an accumulation in pieces, the packing of values beyond the range. The locale \<open>hawkeye_unit\<close> collects
    what a parameter set has to satisfy and is interpreted on the six sets of the header.
  \<^item> \<^verbatim>\<open>Worker_Pool\<close>: \<open>PersistentWorkerPool\<close> as a step relation in which the sixteen workers and the
    caller interleave between critical sections, with the two condition variables, their notifications and spurious
    wake-ups. Each index is executed exactly once, and no worker will call the task again once the caller has returned; every
    run ends with the caller returned, no notification being missed.
  \<^item> \<^verbatim>\<open>Host_Platform\<close>: processor features, paths, \<open>ReadOnlyMappedView\<close>, \<open>AlignedOwnedBuffer\<close>; the
    resources that a history of Windows and allocator calls has acquired and not given back.
  \<^item> \<^verbatim>\<open>Expert_Cache\<close> and \<^verbatim>\<open>Cache_Spec\<close>: \<open>ProviderImpl\<close>, its cache of experts, its counters and error
    text; the locale \<open>lru_map\<close> is the contract of the cache, a map with least-recently-used eviction, and
    its interpretation is the refinement proof. The locale \<open>expert_loop\<close> is the contract of
    one iteration of a prewarm loop; both prewarm operations interpret it.
  \<^item> \<^verbatim>\<open>Prewarm\<close> and \<^verbatim>\<open>Prewarm_Resident\<close>: \<open>query_support\<close>, \<open>create\<close>, \<open>prewarm\<close> and \<open>prewarm_resident\<close>,
    every validation, error exit and exception path included. After a successful prewarm the cached views are windows of the
    requested files at the requested offsets.
  \<^item> \<^verbatim>\<open>Expert_Math\<close> and \<^verbatim>\<open>Expert_Run\<close>: single-precision arithmetic in the order the code performs it, and
    \<open>run\<close>, \<open>get_stats\<close>, \<open>last_error\<close> and \<open>release\<close>. \<open>run\<close> computes exactly the defined
    expert sum whatever the order of the tasks, or falls back leaving its output untouched.
  \<^item> \<^verbatim>\<open>Expert_Session\<close>: sequences of calls of the host provider as a step relation; nothing is leaked or given
    back twice. The order of tasks that \<open>run\<close> assumes is what the worker pool delivers.
  \<^item> \<^verbatim>\<open>Hip_Platform\<close>: the HIP runtime as recorded calls; the locale \<open>device_provider\<close> proves, from the laws of
    single operations, that a session ending in release named only live modules and functions, freed only live
    blocks and leaves none. The next three theories interpret it.
  \<^item> \<^verbatim>\<open>Gdn_Aiter\<close>: \<^verbatim>\<open>gdn/qrt_aiter_fused_gdn_q8192_provider.cpp\<close>, all exports: which kernel every shape
    launches, with which arguments and result.
  \<^item> \<^verbatim>\<open>Gdn_Fla\<close>: \<^verbatim>\<open>gdn/qrt_fla_chunk_gdn_q8192_provider.cpp\<close>, all exports: the scratch layout, the segments
    and the kernels of a segment in order, and that no kernel is given a pointer into a freed block.
  \<^item> \<^verbatim>\<open>Ck_Fmha\<close>: \<^verbatim>\<open>ck_fmha/qrt_ck_fmha_q8192_provider.cpp\<close>, all exports: the packing kernel, and the equality of
    the chunked launch with one causal launch over all tokens.
  \<^item> \<^verbatim>\<open>Marker_Filter\<close>: the stream buffers under \<open>std::cerr\<close> in \<^verbatim>\<open>whole_provider.cpp\<close> and the scopes that install
    them: which lines reach the terminal, and that blocks may be cut anywhere (locale \<open>char_sink\<close>).
  \<^item> \<^verbatim>\<open>Request_Serialization\<close>: the mutex, tickets and counters of \<^verbatim>\<open>qrt.c\<close> that admit one request at a time, with
    any number of threads as a step relation (locale \<open>invariant_system\<close>).
  \<^item> \<^verbatim>\<open>Core_Platform\<close>: what \<^verbatim>\<open>qrt.c\<close> uses of the heap, buffered files, file handles, mappings and overlapped reads,
    as recorded calls, and the resources a history owns; status codes and FNV-1a.
  \<^item> \<^verbatim>\<open>Weight_Cache\<close>: the resident weight cache with its open-addressing index: equivalence with a scan, round
    trips, ownership of blocks, and a store whose index could not grow.
  \<^item> \<^verbatim>\<open>Safetensors_Json\<close>: the hand-written scanner of \<^verbatim>\<open>config.json\<close>, the index and the shard headers, on C
    strings; what a writer of these files produces is read back.
  \<^item> \<^verbatim>\<open>Model_Files\<close>: reading files and mapped headers, the manifest probe and the accounting probe, every error
    exit included.
  \<^item> \<^verbatim>\<open>Tensor_Loader\<close> and \<^verbatim>\<open>Model_Disk\<close>: locating tensors, the location cache, the cache of open shards, slices and
    materialized weights, as sessions (locale \<open>invariant_system\<close>); over an operating system that serves a model
    directory, a tensor is loaded as it was stored.
  \<^item> \<^verbatim>\<open>Server_Bridge\<close>: \<^verbatim>\<open>qrt_server_bridge.c\<close>: creation and release of a server engine, the exact-first-token route,
    the choice between the prefix cache and an ordinary request, seeding, and the record of the resident prefix. The exact
    route streams what it returns; the record names the last prefill of the engine.
  \<^item> \<^verbatim>\<open>Prefix_Engine\<close> and \<^verbatim>\<open>Prefix_Session\<close>: of \<^verbatim>\<open>qrt.c\<close> the identity of the resident prefix and the operations on it under the
    request serialization: prefix requests with and without a stream, the request with a seed, the reset, the streamed request, and
    what an ordinary request does to the identity. A prefix request that succeeds was answered from the prefix its caller named; any
    sequence of operations keeps a valid session complete, and an invalid one empty unless a seed fails early; a failed seed after which
    the reset is refused.
  \<^item> \<^verbatim>\<open>Bridge_Engine\<close>: the bridge with its calls answered by the operations of \<^verbatim>\<open>Prefix_Engine\<close>: record and identity agree; a request
    that the provider fails leaves a stale record, and the next request on the prefix fails.

  \<^bold>\<open>How code becomes definitions.\<close> A C++ struct is a record with the fields of the struct, an operation is a
  function that takes the state and returns the status and the new state. Exceptions that the code
  catches (failed allocations) are branches. \<open>size_t\<close> and \<open>uint64_t\<close> are 64-bit words where a
  product, sum or difference can wrap; counters that a request bounds by a few hundred are natural
  numbers. Pointers are 64-bit words, null is 0. Everything outside the repository is a parameter: an
  environment maps the history of calls to the next answer, and every call is appended to the history.
  Properties hold for every environment, or name what they need of it.

  \<^bold>\<open>Named hypotheses.\<close>
  \<^item> \<open>hip_sound\<close>: a successful load or allocation returns an object that is not null and not live already, as HIP
    documents; a failing call writes no out-parameter (part of the model).
  \<^item> \<open>causal_masks\<close>: the two causal masks of the attention kernel library, aligned at the top left or at the
    bottom right of the score matrix.
  \<^item> The record \<open>fpu\<close>: NaN payloads, \<open>std::exp\<close> and one lane of \<open>_mm512_dpbf16_ps\<close> are parameters about which
    nothing is assumed.
  \<^item> Allocations and mapped views of the host provider are distinct from the live ones, where a property counts
    resources; stated with the property.

  \<^item> \<open>heap_bounded\<close>, \<open>malloc_fresh\<close>, \<open>handles_valid\<close>: the heap grants no block larger than the address space of a
    Windows process and no block that is in use, and \<open>CreateFileA\<close> returns no null handle.
  \<^item> \<open>serves\<close>: the file functions answer with the contents of a file system, as the C library and Windows
    document them; overlapped reads may still fail or be short.
  \<^item> \<open>calm\<close>: no streamed ordinary request of the bridge fails and no reallocation of its record is refused. The
    property on a failed request shows what happens without it.
  \<^item> \<open>well_seeded\<close>: a seed that is not accepted got as far as the provider; the property on the refused reset shows what happens
    without it. \<open>records_sessions\<close>: a one-token request that succeeds leaves a resident session for its tokens, and the copy of the
    tokens can be allocated; without it the engine answers OK and records nothing, and the bridge's record can be wrong.
  \<^item> \<open>views_mapped\<close>: the views in the cache were made by the calls that their fields record; it holds of a new provider and every
    prewarm keeps it.

  Each property with a hypothesis is followed by a witness that instantiates it on a concrete
  environment and input.

  \<^bold>\<open>Loops.\<close> Every loop is a total function: structural recursion, or \<open>function\<close> with a measure (the eviction
  loop by the length of the cache, segments and chunks by the remaining tokens, the
  accumulation loop by the remaining elements, the tree reduction by the stride, the scanners by the
  remaining text). The loop that counts tokens is a \<open>partial_function\<close>, proved to return for every token the code
  looks for. There is no fuel. The only
  behaviour that could fail to end is the blocking \<open>parallel_for\<close>, which is proved to return: without further spurious
  wake-ups its threads cannot run for ever, and a state in which none of them can make a step is one in which it has returned.

  \<^bold>\<open>Not modelled.\<close>
  \<^item> The rest of \<^verbatim>\<open>whole_provider.cpp\<close> (GPU kernels for fixed model shapes, weight loading, more than a
    hundred experimental routes behind environment variables) and of \<^verbatim>\<open>qrt.c\<close>, \<^verbatim>\<open>qrt.h\<close> (the reference
    computation of the layers, route orchestration and reports): some 300000 lines in which routes share little code; \<^verbatim>\<open>ck_fmha/qrt_qwen36_q16384_q1024_owner_provider.cpp\<close> and
    \<^verbatim>\<open>triton_moe/qrt_triton_moe_q8192_provider.cpp\<close>, providers of the same kind as those modelled.
  \<^item> The routes that an ordinary request takes inside \<^verbatim>\<open>qrt.c\<close>: their outcome is an answer of the environment, their effect on the
    resident prefix, the stream and the failure text is modelled. Measured times of the engine report are left out.
  \<^item> \<^verbatim>\<open>product_cli.c\<close>, \<^verbatim>\<open>main.c\<close>, \<^verbatim>\<open>qwen36_baseline.c\<close>: argument parsing, printing and a table of data.
  \<^item> The code objects under \<^verbatim>\<open>native/aot\<close> and their generators, and \<^verbatim>\<open>ck_fmha/fmha_fwd_*.cpp\<close>, instantiations of
    templates that are not in the repository: their launches are recorded, not interpreted.
  \<^item> Memory-model effects weaker than sequential consistency between the steps of the worker pool, the contents
    of device memory, the mutexes around the state of the GPU providers, timing values (any clock is allowed).
  \<^item> The smoke programs and benchmarks, the Rust server and command line, scripts and tests.
\<close>

end
